(* ===== verification/Prelude.thy ===== *)
theory Prelude
  imports Main "HOL-Library.Word"
begin

text \<open>
  Shared vocabulary of the development: machine types, character constants, return codes, the
  generic byte scanner that every resumable parser of \<^verbatim>\<open>src/http/ngx_http_parse.c\<close> is an
  instance of, and the lemmas on bytes, words and lists that several components use.

  Conventions.
  \<^item> A byte (\<open>u_char\<close>) is an \<open>8 word\<close>; a run of bytes \<open>[data, data + len)\<close> is a byte list.
  \<^item> A pointer into a buffer is its offset from the start of that buffer (\<open>nat\<close>); a pointer
    that may be \<open>NULL\<close> is a \<open>nat option\<close>.
  \<^item> \<open>ngx_int_t\<close>, \<open>ssize_t\<close>, \<open>off_t\<close> and \<open>time_t\<close> are mathematical integers whose 64-bit
    bounds are stated and proved where the code relies on them; unsigned hashes and bit
    fields, which the code lets wrap around, are words of their width.
  \<^item> The model is that of a 64-bit Unix build: \<open>NGX_WIN32\<close> sections are left out.
\<close>

unbundle bit_operations_syntax

section \<open>Machine types and characters\<close>

type_synonym u8 = "8 word"
type_synonym u16 = "16 word"
type_synonym u32 = "32 word"
type_synonym u64 = "64 word"
type_synonym bytes = "u8 list"

abbreviation LF :: u8 where "LF \<equiv> 10"
abbreviation CR :: u8 where "CR \<equiv> 13"
abbreviation TAB :: u8 where "TAB \<equiv> 9"
abbreviation NUL :: u8 where "NUL \<equiv> 0"
abbreviation SP :: u8 where "SP \<equiv> 32"
abbreviation ch_bang :: u8 where "ch_bang \<equiv> 33"
abbreviation ch_dquote :: u8 where "ch_dquote \<equiv> 34"
abbreviation ch_hash :: u8 where "ch_hash \<equiv> 35"
abbreviation ch_dollar :: u8 where "ch_dollar \<equiv> 36"
abbreviation ch_percent :: u8 where "ch_percent \<equiv> 37"
abbreviation ch_amp :: u8 where "ch_amp \<equiv> 38"
abbreviation ch_squote :: u8 where "ch_squote \<equiv> 39"
abbreviation ch_lparen :: u8 where "ch_lparen \<equiv> 40"
abbreviation ch_rparen :: u8 where "ch_rparen \<equiv> 41"
abbreviation ch_star :: u8 where "ch_star \<equiv> 42"
abbreviation ch_plus :: u8 where "ch_plus \<equiv> 43"
abbreviation ch_comma :: u8 where "ch_comma \<equiv> 44"
abbreviation ch_minus :: u8 where "ch_minus \<equiv> 45"
abbreviation ch_dot :: u8 where "ch_dot \<equiv> 46"
abbreviation ch_slash :: u8 where "ch_slash \<equiv> 47"
abbreviation ch_colon :: u8 where "ch_colon \<equiv> 58"
abbreviation ch_semi :: u8 where "ch_semi \<equiv> 59"
abbreviation ch_lt :: u8 where "ch_lt \<equiv> 60"
abbreviation ch_eq :: u8 where "ch_eq \<equiv> 61"
abbreviation ch_gt :: u8 where "ch_gt \<equiv> 62"
abbreviation ch_quest :: u8 where "ch_quest \<equiv> 63"
abbreviation ch_at :: u8 where "ch_at \<equiv> 64"
abbreviation ch_lbracket :: u8 where "ch_lbracket \<equiv> 91"
abbreviation ch_backslash :: u8 where "ch_backslash \<equiv> 92"
abbreviation ch_rbracket :: u8 where "ch_rbracket \<equiv> 93"
abbreviation ch_underscore :: u8 where "ch_underscore \<equiv> 95"
abbreviation ch_tilde :: u8 where "ch_tilde \<equiv> 126"
abbreviation ch_0 :: u8 where "ch_0 \<equiv> 48"
abbreviation ch_1 :: u8 where "ch_1 \<equiv> 49"
abbreviation ch_2 :: u8 where "ch_2 \<equiv> 50"
abbreviation ch_3 :: u8 where "ch_3 \<equiv> 51"
abbreviation ch_4 :: u8 where "ch_4 \<equiv> 52"
abbreviation ch_5 :: u8 where "ch_5 \<equiv> 53"
abbreviation ch_6 :: u8 where "ch_6 \<equiv> 54"
abbreviation ch_7 :: u8 where "ch_7 \<equiv> 55"
abbreviation ch_8 :: u8 where "ch_8 \<equiv> 56"
abbreviation ch_9 :: u8 where "ch_9 \<equiv> 57"
abbreviation ch_A :: u8 where "ch_A \<equiv> 65"
abbreviation ch_B :: u8 where "ch_B \<equiv> 66"
abbreviation ch_C :: u8 where "ch_C \<equiv> 67"
abbreviation ch_D :: u8 where "ch_D \<equiv> 68"
abbreviation ch_E :: u8 where "ch_E \<equiv> 69"
abbreviation ch_F :: u8 where "ch_F \<equiv> 70"
abbreviation ch_G :: u8 where "ch_G \<equiv> 71"
abbreviation ch_H :: u8 where "ch_H \<equiv> 72"
abbreviation ch_I :: u8 where "ch_I \<equiv> 73"
abbreviation ch_J :: u8 where "ch_J \<equiv> 74"
abbreviation ch_K :: u8 where "ch_K \<equiv> 75"
abbreviation ch_L :: u8 where "ch_L \<equiv> 76"
abbreviation ch_M :: u8 where "ch_M \<equiv> 77"
abbreviation ch_N :: u8 where "ch_N \<equiv> 78"
abbreviation ch_O :: u8 where "ch_O \<equiv> 79"
abbreviation ch_P :: u8 where "ch_P \<equiv> 80"
abbreviation ch_Q :: u8 where "ch_Q \<equiv> 81"
abbreviation ch_R :: u8 where "ch_R \<equiv> 82"
abbreviation ch_S :: u8 where "ch_S \<equiv> 83"
abbreviation ch_T :: u8 where "ch_T \<equiv> 84"
abbreviation ch_U :: u8 where "ch_U \<equiv> 85"
abbreviation ch_V :: u8 where "ch_V \<equiv> 86"
abbreviation ch_W :: u8 where "ch_W \<equiv> 87"
abbreviation ch_X :: u8 where "ch_X \<equiv> 88"
abbreviation ch_Y :: u8 where "ch_Y \<equiv> 89"
abbreviation ch_Z :: u8 where "ch_Z \<equiv> 90"
abbreviation ch_a :: u8 where "ch_a \<equiv> 97"
abbreviation ch_b :: u8 where "ch_b \<equiv> 98"
abbreviation ch_c :: u8 where "ch_c \<equiv> 99"
abbreviation ch_d :: u8 where "ch_d \<equiv> 100"
abbreviation ch_e :: u8 where "ch_e \<equiv> 101"
abbreviation ch_f :: u8 where "ch_f \<equiv> 102"
abbreviation ch_g :: u8 where "ch_g \<equiv> 103"
abbreviation ch_h :: u8 where "ch_h \<equiv> 104"
abbreviation ch_i :: u8 where "ch_i \<equiv> 105"
abbreviation ch_j :: u8 where "ch_j \<equiv> 106"
abbreviation ch_k :: u8 where "ch_k \<equiv> 107"
abbreviation ch_l :: u8 where "ch_l \<equiv> 108"
abbreviation ch_m :: u8 where "ch_m \<equiv> 109"
abbreviation ch_n :: u8 where "ch_n \<equiv> 110"
abbreviation ch_o :: u8 where "ch_o \<equiv> 111"
abbreviation ch_p :: u8 where "ch_p \<equiv> 112"
abbreviation ch_q :: u8 where "ch_q \<equiv> 113"
abbreviation ch_r :: u8 where "ch_r \<equiv> 114"
abbreviation ch_s :: u8 where "ch_s \<equiv> 115"
abbreviation ch_t :: u8 where "ch_t \<equiv> 116"
abbreviation ch_u :: u8 where "ch_u \<equiv> 117"
abbreviation ch_v :: u8 where "ch_v \<equiv> 118"
abbreviation ch_w :: u8 where "ch_w \<equiv> 119"
abbreviation ch_x :: u8 where "ch_x \<equiv> 120"
abbreviation ch_y :: u8 where "ch_y \<equiv> 121"
abbreviation ch_z :: u8 where "ch_z \<equiv> 122"
definition bytes_of :: "string \<Rightarrow> bytes" where
  "bytes_of s = map of_char s"

lemma bytes_of_simps [simp]:
  "bytes_of [] = []"
  "bytes_of (c # cs) = of_char c # bytes_of cs"
  "bytes_of (s @ t) = bytes_of s @ bytes_of t"
  "length (bytes_of s) = length s"
  by (simp_all add: bytes_of_def)

section \<open>Limits and return codes\<close>

definition NGX_MAX_INT_T_VALUE :: int where
  "NGX_MAX_INT_T_VALUE = 9223372036854775807"

definition NGX_MAX_SIZE_T_VALUE :: int where
  "NGX_MAX_SIZE_T_VALUE = 9223372036854775807"

definition NGX_MAX_OFF_T_VALUE :: int where
  "NGX_MAX_OFF_T_VALUE = 9223372036854775807"

definition NGX_MAX_TIME_T_VALUE :: int where
  "NGX_MAX_TIME_T_VALUE = 9223372036854775807"

lemmas ngx_limits =
  NGX_MAX_INT_T_VALUE_def NGX_MAX_SIZE_T_VALUE_def NGX_MAX_OFF_T_VALUE_def
  NGX_MAX_TIME_T_VALUE_def

lemma ngx_limits_nonneg [simp]:
  "0 \<le> NGX_MAX_INT_T_VALUE" "0 \<le> NGX_MAX_SIZE_T_VALUE"
  "0 \<le> NGX_MAX_OFF_T_VALUE" "0 \<le> NGX_MAX_TIME_T_VALUE"
  by (simp_all add: ngx_limits)

text \<open>The negative codes are constructors; a handler may also return an HTTP status.\<close>

datatype ngx_rc =
    NGX_OK | NGX_ERROR | NGX_AGAIN | NGX_BUSY | NGX_DONE | NGX_DECLINED | NGX_ABORT
  | NGX_HTTP_PARSE_HEADER_DONE | NGX_HTTP_PARSE_INVALID_METHOD
  | NGX_HTTP_PARSE_INVALID_REQUEST | NGX_HTTP_PARSE_INVALID_09_METHOD
  | NGX_HTTP_PARSE_INVALID_HEADER
  | NGX_HTTP_STATUS nat

named_theorems ngx_defs \<open>definitions unfolded by symbolic evaluation of the model\<close>

section \<open>Byte classes\<close>

definition is_digit :: "u8 \<Rightarrow> bool" where
  "is_digit c \<longleftrightarrow> ch_0 \<le> c \<and> c \<le> ch_9"

text \<open>The test \<open>c = ch | 0x20; c >= 'a' && c <= 'z'\<close> that the parsers share.\<close>

definition is_alpha :: "u8 \<Rightarrow> bool" where
  "is_alpha ch \<longleftrightarrow> ch_a \<le> ch OR 0x20 \<and> ch OR 0x20 \<le> ch_z"

definition digit_val :: "u8 \<Rightarrow> int" where
  "digit_val c = uint c - 48"

lemma digit_val_bounds:
  assumes "is_digit c"
  shows "0 \<le> digit_val c" "digit_val c \<le> 9"
  using assms by (auto simp: is_digit_def digit_val_def word_le_def)

definition digit_char :: "nat \<Rightarrow> u8" where
  "digit_char d = of_nat d + ch_0"

lemma uint_digit_char: "d \<le> 9 \<Longrightarrow> uint (digit_char d) = int d + 48"
  by (simp add: digit_char_def uint_word_ariths take_bit_eq_mod unsigned_of_nat)

lemma is_digit_digit_char [simp]: "d \<le> 9 \<Longrightarrow> is_digit (digit_char d)"
  by (simp add: is_digit_def word_le_def uint_digit_char)

lemma digit_val_digit_char [simp]: "d \<le> 9 \<Longrightarrow> digit_val (digit_char d) = int d"
  by (simp add: digit_val_def uint_digit_char)

text \<open>A statement on every byte, as a list of 256 instances that the simplifier evaluates.\<close>

lemma all_bytes: "(\<forall>ch::u8. P ch) \<longleftrightarrow> list_all (\<lambda>n. P (of_nat n)) (0 # 1 # [2..<256])"
proof -
  have upt: "[0..<256] = 0 # 1 # [2..<256]" by (simp add: upt_conv_Cons)
  have "(\<forall>ch::u8. P ch) \<longleftrightarrow> list_all (\<lambda>n. P (of_nat n)) [0..<256]"
  proof
    assume r: "list_all (\<lambda>n. P (of_nat n)) [0..<256]"
    show "\<forall>ch. P ch"
    proof
      fix ch :: u8
      have "unat ch \<in> set [0..<256]" using unsigned_less [of ch] by simp
      with r have "(\<lambda>n. P (of_nat n)) (unat ch)" unfolding list_all_iff by blast
      then show "P ch" by simp
    qed
  qed (simp add: list_all_iff)
  then show ?thesis by (simp only: upt)
qed

section \<open>Codecs\<close>

text \<open>
  An encoder and the decoder that inverts it. What a caller may rely on is that decoding what
  was encoded gives the value back; that the encoding is injective, and that the decoder
  reaches every value, follow.
\<close>

locale codec =
  fixes encode :: "'a \<Rightarrow> 'b"
    and decode :: "'b \<Rightarrow> 'a option"
  assumes decode_encode: "decode (encode x) = Some x"
begin

lemma encode_inj: "encode x = encode y \<longleftrightarrow> x = y"
  by (metis decode_encode option.inject)

lemma decode_surj: "\<exists>y. decode y = Some x"
  using decode_encode by blast

end

end
