(* ===== verification/Ngx_Numbers.thy ===== *)
theory Ngx_Numbers
  imports Prelude
begin

text \<open>
  The number readers and the number printer of \<^verbatim>\<open>src/core/ngx_string.c\<close>: \<open>ngx_atoi\<close>,
  \<open>ngx_atosz\<close>, \<open>ngx_atoof\<close>, \<open>ngx_atotm\<close>, \<open>ngx_atofp\<close>, \<open>ngx_hextoi\<close>, \<open>ngx_hex_dump\<close> and
  \<open>ngx_sprintf_num\<close>. A reader returns \<open>None\<close> where the code returns \<open>NGX_ERROR\<close>. The lemmas
  show that the cut-off tests make every reader exact: it returns the value of the digits
  when that value fits the type, and an error in every other case, with no intermediate
  overflow; and that the readers invert the printer.
\<close>

section \<open>Readers\<close>

text \<open>The loop that the four decimal readers share, with the constants each computes.\<close>

fun ngx_ato_loop :: "int \<Rightarrow> int \<Rightarrow> int \<Rightarrow> bytes \<Rightarrow> int option" where
  "ngx_ato_loop cutoff cutlim value [] = Some value"
| "ngx_ato_loop cutoff cutlim value (c # line) =
     (if c < ch_0 \<or> c > ch_9 then None
      else if value \<ge> cutoff \<and> (value > cutoff \<or> digit_val c > cutlim) then None
      else ngx_ato_loop cutoff cutlim (value * 10 + digit_val c) line)"

definition ngx_atoi :: "bytes \<Rightarrow> int option" where
  "ngx_atoi line =
     (if line = [] then None
      else ngx_ato_loop (NGX_MAX_INT_T_VALUE div 10) (NGX_MAX_INT_T_VALUE mod 10) 0 line)"

definition ngx_atosz :: "bytes \<Rightarrow> int option" where
  "ngx_atosz line =
     (if line = [] then None
      else ngx_ato_loop (NGX_MAX_SIZE_T_VALUE div 10) (NGX_MAX_SIZE_T_VALUE mod 10) 0 line)"

definition ngx_atoof :: "bytes \<Rightarrow> int option" where
  "ngx_atoof line =
     (if line = [] then None
      else ngx_ato_loop (NGX_MAX_OFF_T_VALUE div 10) (NGX_MAX_OFF_T_VALUE mod 10) 0 line)"

definition ngx_atotm :: "bytes \<Rightarrow> int option" where
  "ngx_atotm line =
     (if line = [] then None
      else ngx_ato_loop (NGX_MAX_TIME_T_VALUE div 10) (NGX_MAX_TIME_T_VALUE mod 10) 0 line)"

text \<open>
  The fixed point reader. The first loop carries \<open>(value, dot, point)\<close>; the second multiplies
  by ten once per place that was not written.
\<close>

fun ngx_atofp_scale :: "int \<Rightarrow> int \<Rightarrow> nat \<Rightarrow> int option" where
  "ngx_atofp_scale cutoff value 0 = Some value"
| "ngx_atofp_scale cutoff value (Suc point) =
     (if value > cutoff then None else ngx_atofp_scale cutoff (value * 10) point)"

fun ngx_atofp_loop :: "int \<Rightarrow> int \<Rightarrow> int \<Rightarrow> bool \<Rightarrow> nat \<Rightarrow> bytes \<Rightarrow> int option" where
  "ngx_atofp_loop cutoff cutlim value dot point [] = ngx_atofp_scale cutoff value point"
| "ngx_atofp_loop cutoff cutlim value dot point (c # line) =
     (if point = 0 then None
      else if c = ch_dot then
        (if dot then None else ngx_atofp_loop cutoff cutlim value True point line)
      else if c < ch_0 \<or> c > ch_9 then None
      else if value \<ge> cutoff \<and> (value > cutoff \<or> digit_val c > cutlim) then None
      else ngx_atofp_loop cutoff cutlim (value * 10 + digit_val c) dot
             (if dot then point - 1 else point) line)"

definition ngx_atofp :: "bytes \<Rightarrow> nat \<Rightarrow> int option" where
  "ngx_atofp line point =
     (if line = [] then None
      else ngx_atofp_loop (NGX_MAX_INT_T_VALUE div 10) (NGX_MAX_INT_T_VALUE mod 10) 0 False
             point line)"

text \<open>
  The value of one hexadecimal digit, as every reader in the code tests it: digits first, then
  the letters with bit 5 set.
\<close>

definition hex_digit :: "u8 \<Rightarrow> int option" where
  "hex_digit ch =
     (if ch_0 \<le> ch \<and> ch \<le> ch_9 then Some (uint ch - 48)
      else let c = ch OR 0x20 in
        if ch_a \<le> c \<and> c \<le> ch_f then Some (uint c - 97 + 10) else None)"

fun ngx_hextoi_loop :: "int \<Rightarrow> int \<Rightarrow> bytes \<Rightarrow> int option" where
  "ngx_hextoi_loop cutoff value [] = Some value"
| "ngx_hextoi_loop cutoff value (ch # line) =
     (if value > cutoff then None
      else case hex_digit ch of
        Some d \<Rightarrow> ngx_hextoi_loop cutoff (value * 16 + d) line
      | None \<Rightarrow> None)"

definition ngx_hextoi :: "bytes \<Rightarrow> int option" where
  "ngx_hextoi line =
     (if line = [] then None else ngx_hextoi_loop (NGX_MAX_INT_T_VALUE div 16) 0 line)"

section \<open>Printers\<close>

definition hex_lower :: bytes where
  "hex_lower = bytes_of ''0123456789abcdef''"

definition hex_upper :: bytes where
  "hex_upper = bytes_of ''0123456789ABCDEF''"

fun ngx_hex_dump :: "bytes \<Rightarrow> bytes" where
  "ngx_hex_dump [] = []"
| "ngx_hex_dump (c # src) =
     hex_lower ! unat (drop_bit 4 c) # hex_lower ! unat (c AND 0xf) # ngx_hex_dump src"

text \<open>
  \<open>do { *--p = digit; } while (ui /= 10)\<close> and its hexadecimal counterpart: the bytes in
  \<open>[p, temp + NGX_INT64_LEN)\<close> are the accumulator.
\<close>

function sprintf_dec :: "nat \<Rightarrow> bytes \<Rightarrow> bytes" where
  "sprintf_dec ui acc =
     (let acc' = digit_char (ui mod 10) # acc
      in if ui div 10 = 0 then acc' else sprintf_dec (ui div 10) acc')"
  by pat_completeness auto
termination
  by (relation "measure fst") auto

function sprintf_hex :: "bytes \<Rightarrow> u64 \<Rightarrow> bytes \<Rightarrow> bytes" where
  "sprintf_hex tab ui acc =
     (let acc' = tab ! unat (ui AND 0xf) # acc
      in if drop_bit 4 ui = 0 then acc' else sprintf_hex tab (drop_bit 4 ui) acc')"
  by pat_completeness auto
termination
proof (relation "measure (\<lambda>(tab, ui, acc). unat ui)")
  fix tab :: bytes and ui :: u64 and acc x
  assume "drop_bit 4 ui \<noteq> 0"
  moreover have "unat (drop_bit 4 ui) = unat ui div 16"
    by (simp add: drop_bit_eq_div unat_div)
  ultimately show "((tab, drop_bit 4 ui, x), tab, ui, acc) \<in> measure (\<lambda>(tab, ui, acc). unat ui)"
    by (cases "ui = 0") (auto simp: unat_gt_0)
qed simp

declare sprintf_dec.simps [simp del] sprintf_hex.simps [simp del]

definition NGX_INT64_LEN :: nat where
  "NGX_INT64_LEN = 20"

text \<open>The digits written into \<open>temp\<close>; \<open>hexadecimal\<close> is 0, 1 (\<open>%x\<close>) or 2 (\<open>%X\<close>).\<close>

definition sprintf_digits :: "u64 \<Rightarrow> nat \<Rightarrow> bytes" where
  "sprintf_digits ui64 hexadecimal =
     (if hexadecimal = 0 then
        (if ui64 \<le> 0xffffffff then sprintf_dec (unat (ucast ui64 :: u32)) []
         else sprintf_dec (unat ui64) [])
      else if hexadecimal = 1 then sprintf_hex hex_lower ui64 []
      else sprintf_hex hex_upper ui64 [])"

text \<open>
  \<open>room\<close> is \<open>last - buf\<close>. The result is what is written from \<open>buf\<close> on; the returned pointer
  is \<open>buf\<close> plus its length.
\<close>

definition ngx_sprintf_num :: "nat \<Rightarrow> u64 \<Rightarrow> u8 \<Rightarrow> nat \<Rightarrow> nat \<Rightarrow> bytes" where
  "ngx_sprintf_num room ui64 zero hexadecimal width =
     (let p = sprintf_digits ui64 hexadecimal;
          pad = min (width - length p) room;
          len = (if pad + length p > room then room - pad else length p)
      in replicate pad zero @ take len p)"

section \<open>Reference values\<close>

definition dec_value :: "bytes \<Rightarrow> int" where
  "dec_value line = foldl (\<lambda>v c. v * 10 + digit_val c) 0 line"

definition hex_value :: "bytes \<Rightarrow> int" where
  "hex_value line = foldl (\<lambda>v c. v * 16 + the (hex_digit c)) 0 line"

definition all_digits :: "bytes \<Rightarrow> bool" where
  "all_digits line \<longleftrightarrow> list_all is_digit line"

definition all_hex :: "bytes \<Rightarrow> bool" where
  "all_hex line \<longleftrightarrow> list_all (\<lambda>c. hex_digit c \<noteq> None) line"

lemma not_digit_iff: "(c < ch_0 \<or> c > ch_9) \<longleftrightarrow> \<not> is_digit c"
  by (auto simp: is_digit_def)

lemma foldl_dec_ge:
  "list_all is_digit line \<Longrightarrow> 0 \<le> v \<Longrightarrow> v \<le> foldl (\<lambda>v c. v * 10 + digit_val c) v line"
proof (induction line arbitrary: v)
  case (Cons c line)
  then have "0 \<le> digit_val c" by (simp add: digit_val_bounds)
  with Cons have "v * 10 + digit_val c \<le> foldl (\<lambda>v c. v * 10 + digit_val c) v (c # line)"
    by simp
  with \<open>0 \<le> digit_val c\<close> Cons.prems show ?case by simp
qed simp

lemma dec_value_nonneg: "all_digits line \<Longrightarrow> 0 \<le> dec_value line"
  unfolding all_digits_def dec_value_def by (erule foldl_dec_ge) simp

lemma dec_cutoff:
  assumes "0 \<le> (m::int)" "0 \<le> d" "d \<le> 9"
  shows "(v \<ge> m div 10 \<and> (v > m div 10 \<or> d > m mod 10)) \<longleftrightarrow> \<not> v * 10 + d \<le> m"
proof -
  define q r where "q = m div 10" and "r = m mod 10"
  have "m = 10 * q + r" "0 \<le> r" "r < 10" by (simp_all add: q_def r_def)
  with assms(2,3) have "(v \<ge> q \<and> (v > q \<or> d > r)) \<longleftrightarrow> \<not> v * 10 + d \<le> m" by auto
  then show ?thesis by (simp add: q_def r_def)
qed

lemma ngx_ato_loop_exact:
  assumes "0 \<le> m" "0 \<le> v" "v \<le> m"
  shows "ngx_ato_loop (m div 10) (m mod 10) v line =
    (let r = foldl (\<lambda>v c. v * 10 + digit_val c) v line in
     if all_digits line \<and> r \<le> m then Some r else None)"
  using assms(2,3)
proof (induction line arbitrary: v)
  case (Cons c line)
  show ?case
  proof (cases "is_digit c")
    case True
    note b = digit_val_bounds [OF True]
    show ?thesis
    proof (cases "v * 10 + digit_val c \<le> m")
      case True
      with b Cons \<open>is_digit c\<close> assms(1) show ?thesis
        by (simp add: not_digit_iff dec_cutoff all_digits_def Let_def)
    next
      case False
      moreover have "list_all is_digit line \<Longrightarrow>
          v * 10 + digit_val c \<le> foldl (\<lambda>v c. v * 10 + digit_val c) (v * 10 + digit_val c) line"
        using b Cons.prems by (intro foldl_dec_ge) auto
      ultimately show ?thesis
        using b \<open>is_digit c\<close> assms(1)
        by (auto simp: not_digit_iff dec_cutoff all_digits_def Let_def)
    qed
  next
    case False
    then show ?thesis by (simp add: not_digit_iff all_digits_def Let_def)
  qed
qed (simp add: all_digits_def Let_def)

lemma mult_le_iff_le_div:
  assumes "0 < (k::int)"
  shows "v * k \<le> m \<longleftrightarrow> v \<le> m div k"
proof
  assume "v * k \<le> m"
  then have "v * k div k \<le> m div k" using assms by (intro zdiv_mono1) auto
  then show "v \<le> m div k" using assms by simp
next
  assume "v \<le> m div k"
  then have "v * k \<le> m div k * k" using assms by simp
  also have "\<dots> \<le> m" using assms by (metis div_mult_mod_eq le_add_same_cancel1 pos_mod_sign)
  finally show "v * k \<le> m" .
qed

section \<open>The contract of a decimal reader\<close>

text \<open>
  What \<open>ngx_parse_size\<close>, \<open>ngx_parse_offset\<close> and the other callers rely on: a reader is exact
  on its range. The scaled lemma is their use of it, a number with a unit.
\<close>

locale decimal_reader =
  fixes read :: "bytes \<Rightarrow> int option"
    and limit :: int
  assumes limit_nonneg: "0 \<le> limit"
    and read_exact: "read line =
      (if line \<noteq> [] \<and> all_digits line \<and> dec_value line \<le> limit then Some (dec_value line)
       else None)"
begin

lemma read_bounds: "read line = Some v \<Longrightarrow> 0 \<le> v \<and> v \<le> limit"
  by (auto simp: read_exact dec_value_nonneg split: if_splits)

lemma read_scaled:
  assumes "0 < scale"
  shows "(case read line of None \<Rightarrow> None
          | Some v \<Rightarrow> if v > limit div scale then None else Some (v * scale)) =
    (if line \<noteq> [] \<and> all_digits line \<and> dec_value line * scale \<le> limit
     then Some (dec_value line * scale) else None)"
proof -
  have "v * scale \<le> limit \<longleftrightarrow> \<not> limit div scale < v" for v
    using assms by (simp add: mult_le_iff_le_div not_less)
  moreover have "all_digits line \<Longrightarrow> dec_value line * scale \<le> limit \<Longrightarrow> dec_value line \<le> limit"
    using assms dec_value_nonneg [of line] mult_left_mono [of 1 scale "dec_value line"]
    by linarith
  ultimately show ?thesis by (auto simp: read_exact)
qed

end

lemma ngx_ato_reader:
  assumes "0 \<le> m" "line \<noteq> []"
  shows "ngx_ato_loop (m div 10) (m mod 10) 0 line =
    (if all_digits line \<and> dec_value line \<le> m then Some (dec_value line) else None)"
  using assms by (simp add: ngx_ato_loop_exact dec_value_def Let_def)

interpretation atoi: decimal_reader ngx_atoi NGX_MAX_INT_T_VALUE
  by unfold_locales (simp_all add: ngx_atoi_def ngx_ato_reader)

interpretation atosz: decimal_reader ngx_atosz NGX_MAX_SIZE_T_VALUE
  by unfold_locales (simp_all add: ngx_atosz_def ngx_ato_reader)

interpretation atoof: decimal_reader ngx_atoof NGX_MAX_OFF_T_VALUE
  by unfold_locales (simp_all add: ngx_atoof_def ngx_ato_reader)

interpretation atotm: decimal_reader ngx_atotm NGX_MAX_TIME_T_VALUE
  by unfold_locales (simp_all add: ngx_atotm_def ngx_ato_reader)

section \<open>Hexadecimal readers\<close>

lemma hex_digit_bounds: "hex_digit c = Some d \<Longrightarrow> 0 \<le> d \<and> d \<le> 15"
  by (auto simp: hex_digit_def Let_def word_le_def split: if_splits)

lemma foldl_hex_ge:
  "list_all (\<lambda>c. hex_digit c \<noteq> None) line \<Longrightarrow> 0 \<le> v \<Longrightarrow>
   v \<le> foldl (\<lambda>v c. v * 16 + the (hex_digit c)) v line"
proof (induction line arbitrary: v)
  case (Cons c line)
  then obtain d where d: "hex_digit c = Some d" by auto
  with hex_digit_bounds [OF d] Cons have "v * 16 + d \<le>
      foldl (\<lambda>v c. v * 16 + the (hex_digit c)) v (c # line)"
    by simp
  with hex_digit_bounds [OF d] Cons.prems show ?case by simp
qed simp

lemma ngx_hextoi_loop_exact:
  assumes m: "m = 16 * q + 15" and "0 \<le> v" "v \<le> m"
  shows "ngx_hextoi_loop q v line =
    (let r = foldl (\<lambda>v c. v * 16 + the (hex_digit c)) v line in
     if all_hex line \<and> r \<le> m then Some r else None)"
  using assms(2,3)
proof (induction line arbitrary: v)
  case (Cons c line)
  show ?case
  proof (cases "hex_digit c")
    case None
    then show ?thesis by (simp add: all_hex_def Let_def)
  next
    case (Some d)
    note b = hex_digit_bounds [OF Some]
    show ?thesis
    proof (cases "v > q")
      case True
      moreover have "list_all (\<lambda>c. hex_digit c \<noteq> None) line \<Longrightarrow>
          v * 16 + d \<le> foldl (\<lambda>v c. v * 16 + the (hex_digit c)) (v * 16 + d) line"
        using b Cons.prems by (intro foldl_hex_ge) auto
      moreover have "v * 16 > m" using True m by simp
      ultimately show ?thesis using Some b by (auto simp: all_hex_def Let_def)
    next
      case False
      with b m have "v * 16 + d \<le> m" by simp
      with Some b Cons False show ?thesis by (simp add: all_hex_def Let_def)
    qed
  qed
qed (simp add: all_hex_def Let_def)

lemma ngx_hextoi_exact:
  "ngx_hextoi line =
    (if line \<noteq> [] \<and> all_hex line \<and> hex_value line \<le> NGX_MAX_INT_T_VALUE
     then Some (hex_value line) else None)"
  using ngx_hextoi_loop_exact [of NGX_MAX_INT_T_VALUE "NGX_MAX_INT_T_VALUE div 16" 0 line]
  by (simp add: ngx_hextoi_def hex_value_def Let_def NGX_MAX_INT_T_VALUE_def)

section \<open>The fixed point reader\<close>

lemma ngx_atofp_scale_exact:
  assumes "0 \<le> m" "0 \<le> v" "v \<le> m"
  shows "ngx_atofp_scale (m div 10) v point =
    (if v * 10 ^ point \<le> m then Some (v * 10 ^ point) else None)"
  using assms(2,3)
proof (induction point arbitrary: v)
  case (Suc point)
  have c: "v > m div 10 \<longleftrightarrow> \<not> v * 10 \<le> m"
    by (simp add: mult_le_iff_le_div not_le)
  show ?case
  proof (cases "v * 10 \<le> m")
    case True
    with Suc c show ?thesis by (simp add: mult.assoc)
  next
    case False
    moreover have "v * 10 \<le> v * 10 * 10 ^ point"
      using Suc.prems by (simp add: mult_le_cancel_left1)
    ultimately show ?thesis using c by (simp add: mult.assoc)
  qed
qed simp

lemma ngx_atofp_loop_dot:
  assumes "0 \<le> m" "0 \<le> v" "v \<le> m" "all_digits fp" "length fp \<le> point"
  shows "ngx_atofp_loop (m div 10) (m mod 10) v True point fp =
    (let r = foldl (\<lambda>v c. v * 10 + digit_val c) v fp * 10 ^ (point - length fp) in
     if r \<le> m then Some r else None)"
  using assms(2-)
proof (induction fp arbitrary: v point)
  case Nil
  with assms(1) show ?case by (simp add: ngx_atofp_scale_exact Let_def)
next
  case (Cons c fp)
  then obtain p where p: "point = Suc p" by (cases point) auto
  from Cons.prems have dg: "is_digit c" "list_all is_digit fp" by (simp_all add: all_digits_def)
  note b = digit_val_bounds [OF dg(1)]
  from dg(1) have nd: "c \<noteq> ch_dot" by (auto simp: is_digit_def)
  have stop: "ngx_atofp_loop (m div 10) (m mod 10) v True point (c # fp) =
      (if v * 10 + digit_val c \<le> m then
        ngx_atofp_loop (m div 10) (m mod 10) (v * 10 + digit_val c) True p fp else None)"
    using dg nd b assms(1) p by (simp add: not_digit_iff dec_cutoff)
  show ?case
  proof (cases "v * 10 + digit_val c \<le> m")
    case True
    with Cons b p dg stop show ?thesis by (simp add: all_digits_def)
  next
    case False
    let ?r = "foldl (\<lambda>v c. v * 10 + digit_val c) (v * 10 + digit_val c) fp"
    from foldl_dec_ge [OF dg(2), of "v * 10 + digit_val c"] b Cons.prems
    have ge: "v * 10 + digit_val c \<le> ?r" by simp
    with b Cons.prems have "0 \<le> ?r" by linarith
    then have "?r \<le> ?r * 10 ^ (p - length fp)" by (simp add: mult_le_cancel_left1)
    with False ge have "\<not> ?r * 10 ^ (p - length fp) \<le> m" by linarith
    with False stop p show ?thesis by simp
  qed
qed

lemma ngx_atofp_loop_int:
  assumes "0 \<le> m" "0 \<le> v" "v \<le> m" "all_digits ip" "0 < point"
    and "rest = [] \<or> (\<exists>fp. rest = ch_dot # fp)"
  shows "ngx_atofp_loop (m div 10) (m mod 10) v False point (ip @ rest) =
    (let r = foldl (\<lambda>v c. v * 10 + digit_val c) v ip in
     if r \<le> m then ngx_atofp_loop (m div 10) (m mod 10) r False point rest else None)"
  using assms(2-4)
proof (induction ip arbitrary: v)
  case (Cons c ip)
  then have dg: "is_digit c" "list_all is_digit ip" by (simp_all add: all_digits_def)
  note b = digit_val_bounds [OF dg(1)]
  from dg(1) have nd: "c \<noteq> ch_dot" by (auto simp: is_digit_def)
  have stop: "ngx_atofp_loop (m div 10) (m mod 10) v False point ((c # ip) @ rest) =
      (if v * 10 + digit_val c \<le> m then
        ngx_atofp_loop (m div 10) (m mod 10) (v * 10 + digit_val c) False point (ip @ rest)
       else None)"
    using dg nd b assms(1,5) by (simp add: not_digit_iff dec_cutoff)
  show ?case
  proof (cases "v * 10 + digit_val c \<le> m")
    case True
    with Cons b dg stop show ?thesis by (simp add: all_digits_def)
  next
    case False
    with foldl_dec_ge [OF dg(2), of "v * 10 + digit_val c"] b Cons.prems stop
    show ?thesis by (simp add: Let_def)
  qed
qed simp

section \<open>Printing\<close>

lemma sprintf_dec_append: "sprintf_dec n acc = sprintf_dec n [] @ acc"
proof (induction n arbitrary: acc rule: less_induct)
  case (less n)
  show ?case
  proof (cases "n div 10 = 0")
    case True
    then show ?thesis by (simp add: sprintf_dec.simps [of n])
  next
    case False
    then have lt: "n div 10 < n" by auto
    from False show ?thesis
      by (simp add: sprintf_dec.simps [of n] less.IH [OF lt, of "digit_char (n mod 10) # acc"]
          less.IH [OF lt, of "[digit_char (n mod 10)]"])
  qed
qed

lemma sprintf_dec_step:
  "sprintf_dec n [] = (if n < 10 then [] else sprintf_dec (n div 10) []) @ [digit_char (n mod 10)]"
  by (simp add: sprintf_dec.simps [of n] div_eq_0_iff
      sprintf_dec_append [of "n div 10" "[digit_char (n mod 10)]"])

lemma sprintf_dec_digits:
  "all_digits (sprintf_dec n []) \<and> dec_value (sprintf_dec n []) = int n \<and> sprintf_dec n [] \<noteq> []"
proof (induction n rule: less_induct)
  case (less n)
  show ?case
  proof (cases "n < 10")
    case True
    then show ?thesis by (simp add: sprintf_dec_step [of n] all_digits_def dec_value_def)
  next
    case False
    then have "n div 10 < n" by auto
    moreover have "int (n div 10) * 10 + int (n mod 10) = int n" by presburger
    ultimately show ?thesis
      using False less.IH by (simp add: sprintf_dec_step [of n] all_digits_def dec_value_def)
  qed
qed

lemma sprintf_dec_length: "n < 10 ^ k \<Longrightarrow> 0 < k \<Longrightarrow> length (sprintf_dec n []) \<le> k"
proof (induction k arbitrary: n)
  case (Suc k)
  show ?case
  proof (cases "n < 10")
    case True
    then show ?thesis by (simp add: sprintf_dec_step [of n])
  next
    case False
    with Suc.prems have "0 < k" by (cases k) auto
    moreover from Suc.prems have "n div 10 < 10 ^ k" by (simp add: less_mult_imp_div_less)
    ultimately show ?thesis using False Suc.IH by (simp add: sprintf_dec_step [of n])
  qed
qed simp

lemma sprintf_hex_append: "sprintf_hex tab ui acc = sprintf_hex tab ui [] @ acc"
proof (induction "unat ui" arbitrary: ui acc rule: less_induct)
  case less
  show ?case
  proof (cases "drop_bit 4 ui = 0")
    case True
    then show ?thesis by (simp add: sprintf_hex.simps [of tab ui])
  next
    case False
    moreover have "unat (drop_bit 4 ui) = unat ui div 16"
      by (simp add: drop_bit_eq_div unat_div)
    ultimately have lt: "unat (drop_bit 4 ui) < unat ui"
      by (cases "ui = 0") (auto simp: unat_gt_0)
    from False show ?thesis
      by (simp add: sprintf_hex.simps [of tab ui] less.hyps [OF lt, of "tab ! unat (ui AND 0xf) # acc"]
          less.hyps [OF lt, of "[tab ! unat (ui AND 0xf)]"])
  qed
qed

lemma sprintf_hex_step:
  "sprintf_hex tab ui [] =
    (if drop_bit 4 ui = 0 then [] else sprintf_hex tab (drop_bit 4 ui) []) @ [tab ! unat (ui AND 0xf)]"
  by (simp add: sprintf_hex.simps [of tab ui]
      sprintf_hex_append [of tab "drop_bit 4 ui" "[tab ! unat (ui AND 0xf)]"])

definition hex_table :: "bytes \<Rightarrow> bool" where
  "hex_table tab \<longleftrightarrow> (\<forall>k<16. hex_digit (tab ! k) = Some (int k))"

lemma hex_tables: "hex_table hex_lower" "hex_table hex_upper"
proof -
  have "list_all (\<lambda>k. hex_digit (hex_lower ! k) = Some (int k)) [0..<16]" by code_simp
  then show "hex_table hex_lower" by (simp add: hex_table_def list_all_iff)
  have "list_all (\<lambda>k. hex_digit (hex_upper ! k) = Some (int k)) [0..<16]" by code_simp
  then show "hex_table hex_upper" by (simp add: hex_table_def list_all_iff)
qed

lemma unat_and_15: "unat (ui AND 0xf :: 'a::len word) = unat ui mod 16"
proof -
  have "ui AND 0xf = take_bit 4 ui" by (simp add: take_bit_eq_mask mask_eq_exp_minus_1)
  then have "unat (ui AND 0xf) = take_bit 4 (unat ui)" by (simp only: unsigned_take_bit_eq)
  then show ?thesis by (simp add: take_bit_eq_mod)
qed

lemma sprintf_hex_digits:
  assumes "hex_table tab"
  shows "all_hex (sprintf_hex tab ui []) \<and> hex_value (sprintf_hex tab ui []) = uint ui \<and>
    sprintf_hex tab ui [] \<noteq> []"
proof (induction "unat ui" arbitrary: ui rule: less_induct)
  case less
  have d: "hex_digit (tab ! unat (ui AND 0xf)) = Some (int (unat ui mod 16))"
    using assms by (simp add: unat_and_15 hex_table_def)
  have q: "unat (drop_bit 4 ui) = unat ui div 16" by (simp add: drop_bit_eq_div unat_div)
  show ?case
  proof (cases "drop_bit 4 ui = 0")
    case True
    with q have "unat ui mod 16 = unat ui" by (metis div_eq_0_iff mod_less unat_0 zero_neq_numeral)
    with True d show ?thesis
      by (simp add: sprintf_hex_step [of tab ui] all_hex_def hex_value_def)
  next
    case False
    with q have lt: "unat (drop_bit 4 ui) < unat ui"
      by (cases "ui = 0") (auto simp: unat_gt_0)
    have "int (unat ui div 16) * 16 + int (unat ui mod 16) = int (unat ui)" by presburger
    then have "uint (drop_bit 4 ui) * 16 + int (unat ui mod 16) = uint ui"
      by (simp only: uint_nat q)
    with False d less.hyps [OF lt] show ?thesis
      by (simp add: sprintf_hex_step [of tab ui] all_hex_def hex_value_def)
  qed
qed

lemma sprintf_hex_length: "unat ui < 16 ^ k \<Longrightarrow> 0 < k \<Longrightarrow> length (sprintf_hex tab ui []) \<le> k"
proof (induction k arbitrary: ui)
  case (Suc k)
  have q: "unat (drop_bit 4 ui) = unat ui div 16" by (simp add: drop_bit_eq_div unat_div)
  show ?case
  proof (cases "drop_bit 4 ui = 0")
    case True
    then show ?thesis by (simp add: sprintf_hex_step [of tab ui])
  next
    case False
    then have "unat ui div 16 \<noteq> 0" using q by (metis unat_eq_zero)
    with Suc.prems have "0 < k" by (cases k) auto
    moreover from Suc.prems q have "unat (drop_bit 4 ui) < 16 ^ k"
      by (simp add: less_mult_imp_div_less)
    ultimately show ?thesis using False Suc.IH by (simp add: sprintf_hex_step [of tab ui])
  qed
qed simp

lemma sprintf_digits_dec: "sprintf_digits ui64 0 = sprintf_dec (unat ui64) []"
proof (cases "ui64 \<le> 0xffffffff")
  case True
  then have "unat ui64 < 2 ^ 32" by (simp add: word_le_nat_alt)
  then have "unat (ucast ui64 :: u32) = unat ui64" by (simp add: unsigned_ucast_eq take_bit_eq_mod)
  with True show ?thesis by (simp add: sprintf_digits_def)
qed (simp add: sprintf_digits_def)

lemma sprintf_digits_length: "length (sprintf_digits ui64 hexadecimal) \<le> NGX_INT64_LEN"
proof -
  have lt: "unat ui64 < 2 ^ 64" using unsigned_less [of ui64] by simp
  then have "unat ui64 < 16 ^ 16" and "unat ui64 < 10 ^ 20" by simp_all
  then show ?thesis
    using sprintf_hex_length [of ui64 16 hex_lower] sprintf_hex_length [of ui64 16 hex_upper]
      sprintf_dec_length [of "unat ui64" 20] sprintf_digits_dec [of ui64]
    by (cases "hexadecimal = 0") (simp_all add: sprintf_digits_def NGX_INT64_LEN_def)
qed

lemma ngx_sprintf_num_plain:
  "NGX_INT64_LEN \<le> room \<Longrightarrow> ngx_sprintf_num room ui64 zero hexadecimal 0 = sprintf_digits ui64 hexadecimal"
  using sprintf_digits_length [of ui64 hexadecimal] by (simp add: ngx_sprintf_num_def Let_def)

section \<open>Properties\<close>

text \<open>
  Each decimal reader (\<open>ngx_atoi\<close>, \<open>ngx_atosz\<close>, \<open>ngx_atoof\<close>, \<open>ngx_atotm\<close>) is exact: on a
  non-empty run of decimal digits whose value fits the result type it returns that value, and
  on every other input (empty, a non-digit, a value that does not fit) it returns
  \<open>NGX_ERROR\<close>. In particular the cut-off tests refuse no value that fits and let none
  overflow.
\<close>

theorem decimal_readers_exact:
  "ngx_atoi line = (if line \<noteq> [] \<and> all_digits line \<and> dec_value line \<le> NGX_MAX_INT_T_VALUE
                    then Some (dec_value line) else None) \<and>
   ngx_atosz line = (if line \<noteq> [] \<and> all_digits line \<and> dec_value line \<le> NGX_MAX_SIZE_T_VALUE
                     then Some (dec_value line) else None) \<and>
   ngx_atoof line = (if line \<noteq> [] \<and> all_digits line \<and> dec_value line \<le> NGX_MAX_OFF_T_VALUE
                     then Some (dec_value line) else None) \<and>
   ngx_atotm line = (if line \<noteq> [] \<and> all_digits line \<and> dec_value line \<le> NGX_MAX_TIME_T_VALUE
                     then Some (dec_value line) else None)"
  using atoi.read_exact atosz.read_exact atoof.read_exact atotm.read_exact by blast

text \<open>
  The fixed point reader: with at most \<open>point\<close> digits after the dot, \<open>ngx_atofp\<close> returns
  the digits read as one number and scaled by the missing places, and an error exactly when
  that number does not fit.
\<close>

theorem ngx_atofp_exact:
  assumes "all_digits ip" "all_digits fp" "length fp \<le> point" "0 < point"
  shows "ngx_atofp (ip @ ch_dot # fp) point =
    (let r = dec_value (ip @ fp) * 10 ^ (point - length fp) in
     if r \<le> NGX_MAX_INT_T_VALUE then Some r else None)"
proof -
  let ?m = NGX_MAX_INT_T_VALUE
  let ?L = "ngx_atofp_loop (?m div 10) (?m mod 10)"
  let ?r = "foldl (\<lambda>v c. v * 10 + digit_val c) (dec_value ip) fp"
  have nn: "0 \<le> dec_value ip" using assms(1) by (rule dec_value_nonneg)
  have "ngx_atofp (ip @ ch_dot # fp) point = ?L 0 False point (ip @ ch_dot # fp)"
    by (simp add: ngx_atofp_def)
  also have "\<dots> = (if dec_value ip \<le> ?m then ?L (dec_value ip) True point fp else None)"
    using assms by (simp add: ngx_atofp_loop_int dec_value_def Let_def)
  also have "\<dots> = (if ?r * 10 ^ (point - length fp) \<le> ?m
      then Some (?r * 10 ^ (point - length fp)) else None)"
  proof (cases "dec_value ip \<le> ?m")
    case True
    with nn assms show ?thesis by (simp add: ngx_atofp_loop_dot Let_def)
  next
    case False
    have "dec_value ip \<le> ?r" using foldl_dec_ge nn assms(2) by (simp add: all_digits_def)
    moreover from this nn have "?r \<le> ?r * 10 ^ (point - length fp)"
      by (simp add: mult_le_cancel_left1)
    ultimately have "\<not> ?r * 10 ^ (point - length fp) \<le> ?m" using False by linarith
    with False show ?thesis by simp
  qed
  finally show ?thesis by (simp add: dec_value_def Let_def)
qed

theorem ngx_atofp_exact_witness: "ngx_atofp (bytes_of ''10.5'') 2 = Some 1050"
  using ngx_atofp_exact [of "bytes_of ''10''" "bytes_of ''5''" 2]
  by (simp add: all_digits_def is_digit_def dec_value_def digit_val_def NGX_MAX_INT_T_VALUE_def)

text \<open>
  Printing then reading gives the number back: what \<open>ngx_sprintf_num\<close> writes without
  padding into a buffer with room for \<open>NGX_INT64_LEN\<close> bytes is read back by \<open>ngx_atoi\<close> in
  decimal and by \<open>ngx_hextoi\<close> in either hexadecimal case.
\<close>

theorem sprintf_num_roundtrip:
  assumes "NGX_INT64_LEN \<le> room" "uint ui64 \<le> NGX_MAX_INT_T_VALUE"
  shows "ngx_atoi (ngx_sprintf_num room ui64 zero 0 0) = Some (uint ui64) \<and>
    ngx_hextoi (ngx_sprintf_num room ui64 zero 1 0) = Some (uint ui64) \<and>
    ngx_hextoi (ngx_sprintf_num room ui64 zero 2 0) = Some (uint ui64)"
  using assms(2) sprintf_dec_digits [of "unat ui64"] sprintf_hex_digits [OF hex_tables(1), of ui64]
    sprintf_hex_digits [OF hex_tables(2), of ui64] sprintf_digits_dec [of ui64]
  by (simp add: ngx_sprintf_num_plain [OF assms(1)] atoi.read_exact ngx_hextoi_exact
      sprintf_digits_def)

theorem sprintf_num_roundtrip_witness:
  "ngx_atoi (ngx_sprintf_num 20 1234 SP 0 0) = Some 1234"
  using sprintf_num_roundtrip [of 20 1234 SP]
  by (simp add: NGX_INT64_LEN_def NGX_MAX_INT_T_VALUE_def)

text \<open>
  \<open>ngx_sprintf_num\<close> never runs past \<open>last\<close>, whatever the width asked for, and its
  \<open>temp\<close> array of \<open>NGX_INT64_LEN\<close> bytes is large enough for the digits of every 64-bit
  number in every base: the result has exactly the padded length, cut at the room there is.
\<close>

theorem sprintf_num_bounds:
  "length (sprintf_digits ui64 hexadecimal) \<le> NGX_INT64_LEN \<and>
   length (ngx_sprintf_num room ui64 zero hexadecimal width) =
     min room (max width (length (sprintf_digits ui64 hexadecimal)))"
  using sprintf_digits_length [of ui64 hexadecimal] by (auto simp: ngx_sprintf_num_def Let_def)

end
