(* ===== verification/Ngx_Parse.thy ===== *)
theory Ngx_Parse
  imports Ngx_Numbers
begin

text \<open>
  The readers of configuration values with units in \<^verbatim>\<open>src/core/ngx_parse.c\<close>:
  \<open>ngx_parse_size\<close>, \<open>ngx_parse_offset\<close> and \<open>ngx_parse_time\<close>. The first two are clients of the
  decimal reader contract. \<open>ngx_parse_time\<close> is a loop over the remaining text that carries the
  number being read, the total, the step of the last unit and whether a digit was seen.
\<close>

section \<open>Sizes and offsets\<close>

definition ngx_parse_size :: "bytes \<Rightarrow> int option" where
  "ngx_parse_size line =
     (if line = [] then None
      else
        let unit = last line;
            (line', mx, scale) =
              (if unit = ch_K \<or> unit = ch_k
               then (butlast line, NGX_MAX_SIZE_T_VALUE div 1024, 1024)
               else if unit = ch_M \<or> unit = ch_m
               then (butlast line, NGX_MAX_SIZE_T_VALUE div (1024 * 1024), 1024 * 1024)
               else (line, NGX_MAX_SIZE_T_VALUE, 1))
        in case ngx_atosz line' of
             None \<Rightarrow> None
           | Some sz \<Rightarrow> if sz > mx then None else Some (sz * scale))"

definition ngx_parse_offset :: "bytes \<Rightarrow> int option" where
  "ngx_parse_offset line =
     (if line = [] then None
      else
        let unit = last line;
            (line', mx, scale) =
              (if unit = ch_K \<or> unit = ch_k
               then (butlast line, NGX_MAX_OFF_T_VALUE div 1024, 1024)
               else if unit = ch_M \<or> unit = ch_m
               then (butlast line, NGX_MAX_OFF_T_VALUE div (1024 * 1024), 1024 * 1024)
               else if unit = ch_G \<or> unit = ch_g
               then (butlast line, NGX_MAX_OFF_T_VALUE div (1024 * 1024 * 1024), 1024 * 1024 * 1024)
               else (line, NGX_MAX_OFF_T_VALUE, 1))
        in case ngx_atoof line' of
             None \<Rightarrow> None
           | Some offset \<Rightarrow> if offset > mx then None else Some (offset * scale))"

section \<open>Times\<close>

abbreviation st_start :: nat where "st_start \<equiv> 0"
abbreviation st_year :: nat where "st_year \<equiv> 1"
abbreviation st_month :: nat where "st_month \<equiv> 2"
abbreviation st_week :: nat where "st_week \<equiv> 3"
abbreviation st_day :: nat where "st_day \<equiv> 4"
abbreviation st_hour :: nat where "st_hour \<equiv> 5"
abbreviation st_min :: nat where "st_min \<equiv> 6"
abbreviation st_sec :: nat where "st_sec \<equiv> 7"
abbreviation st_msec :: nat where "st_msec \<equiv> 8"
abbreviation st_last :: nat where "st_last \<equiv> 9"

text \<open>
  The switch on the unit letter: the new step, \<open>max\<close>, \<open>scale\<close> and the text after the unit.
\<close>

definition ngx_parse_time_unit ::
  "bool \<Rightarrow> nat \<Rightarrow> u8 \<Rightarrow> bytes \<Rightarrow> (nat \<times> int \<times> int \<times> bytes) option" where
  "ngx_parse_time_unit is_sec step c p =
     (let M = NGX_MAX_INT_T_VALUE in
      if c = ch_y then
        (if step > st_start then None
         else Some (st_year, M div (60 * 60 * 24 * 365), 60 * 60 * 24 * 365, p))
      else if c = ch_M then
        (if step \<ge> st_month then None
         else Some (st_month, M div (60 * 60 * 24 * 30), 60 * 60 * 24 * 30, p))
      else if c = ch_w then
        (if step \<ge> st_week then None
         else Some (st_week, M div (60 * 60 * 24 * 7), 60 * 60 * 24 * 7, p))
      else if c = ch_d then
        (if step \<ge> st_day then None
         else Some (st_day, M div (60 * 60 * 24), 60 * 60 * 24, p))
      else if c = ch_h then
        (if step \<ge> st_hour then None
         else Some (st_hour, M div (60 * 60), 60 * 60, p))
      else if c = ch_m then
        (case p of
           ch # p' \<Rightarrow>
             if ch = ch_s then
               (if is_sec \<or> step \<ge> st_msec then None else Some (st_msec, M, 1, p'))
             else if step \<ge> st_min then None else Some (st_min, M div 60, 60, p)
         | [] \<Rightarrow> if step \<ge> st_min then None else Some (st_min, M div 60, 60, p))
      else if c = ch_s then
        (if step \<ge> st_sec then None else Some (st_sec, M, 1, p))
      else if c = SP then
        (if step \<ge> st_sec then None else Some (st_last, M, 1, p))
      else None)"

lemma ngx_parse_time_unit_shorter:
  "ngx_parse_time_unit is_sec step c p = Some (step', mx, scale, p') \<Longrightarrow> length p' \<le> length p"
  by (auto simp: ngx_parse_time_unit_def Let_def split: if_splits list.splits)

function ngx_parse_time_loop ::
  "bool \<Rightarrow> nat \<Rightarrow> int \<Rightarrow> int \<Rightarrow> bool \<Rightarrow> bytes \<Rightarrow> int option" where
  "ngx_parse_time_loop is_sec step value tot valid [] =
     (if \<not> valid then None
      else if \<not> is_sec \<and> value > NGX_MAX_INT_T_VALUE div 1000 then None
      else let value = (if is_sec then value else value * 1000) in
        if tot > NGX_MAX_INT_T_VALUE - value then None else Some (tot + value))"
| "ngx_parse_time_loop is_sec step value tot valid (c # p) =
     (if ch_0 \<le> c \<and> c \<le> ch_9 then
        (if value \<ge> NGX_MAX_INT_T_VALUE div 10 \<and>
            (value > NGX_MAX_INT_T_VALUE div 10 \<or> digit_val c > NGX_MAX_INT_T_VALUE mod 10)
         then None
         else ngx_parse_time_loop is_sec step (value * 10 + digit_val c) tot True p)
      else
        case ngx_parse_time_unit is_sec step c p of
          None \<Rightarrow> None
        | Some (step', mx, scale, p') \<Rightarrow>
            (let scale = (if step' \<noteq> st_msec \<and> \<not> is_sec then scale * 1000 else scale);
                 mx = (if step' \<noteq> st_msec \<and> \<not> is_sec then mx div 1000 else mx)
             in if value > mx then None
                else let value = value * scale in
                  if tot > NGX_MAX_INT_T_VALUE - value then None
                  else ngx_parse_time_loop is_sec step' 0 (tot + value) valid
                         (dropWhile (\<lambda>ch. ch = SP) p')))"
  by pat_completeness auto
termination
proof (relation "measure (\<lambda>(is_sec, step, value, tot, valid, p). length p)")
  fix is_sec step v tot valid c p x step' y mx z scale p' xa xb xc
  assume "ngx_parse_time_unit is_sec step c p = Some x" "(step', y) = x" "(mx, z) = y"
    "(scale, p') = z"
  then have "length p' \<le> length p" using ngx_parse_time_unit_shorter by blast
  moreover have "length (dropWhile (\<lambda>ch. ch = SP) p') \<le> length p'" by (rule length_dropWhile_le)
  ultimately show "((is_sec, step', 0, tot + xc, valid, dropWhile (\<lambda>ch. ch = SP) p'),
      is_sec, step, v, tot, valid, c # p)
      \<in> measure (\<lambda>(is_sec, step, value, tot, valid, p). length p)"
    by simp
qed simp_all

definition ngx_parse_time :: "bytes \<Rightarrow> bool \<Rightarrow> int option" where
  "ngx_parse_time line is_sec =
     ngx_parse_time_loop is_sec (if is_sec then st_start else st_month) 0 0 False line"

section \<open>Reference readings\<close>

definition size_unit :: "u8 \<Rightarrow> int option" where
  "size_unit c = (if c \<in> {ch_K, ch_k} then Some 1024
                  else if c \<in> {ch_M, ch_m} then Some (1024 ^ 2) else None)"

definition offset_unit :: "u8 \<Rightarrow> int option" where
  "offset_unit c = (if c \<in> {ch_G, ch_g} then Some (1024 ^ 3) else size_unit c)"

definition split_unit :: "(u8 \<Rightarrow> int option) \<Rightarrow> bytes \<Rightarrow> bytes \<times> int" where
  "split_unit u line =
     (case (if line = [] then None else u (last line)) of
        None \<Rightarrow> (line, 1) | Some k \<Rightarrow> (butlast line, k))"

text \<open>The reading of a number with a unit: the exact product, or an error.\<close>

definition read_with_unit :: "(u8 \<Rightarrow> int option) \<Rightarrow> int \<Rightarrow> bytes \<Rightarrow> int option" where
  "read_with_unit u limit line =
     (let (ds, k) = split_unit u line in
      if ds \<noteq> [] \<and> all_digits ds \<and> dec_value ds * k \<le> limit then Some (dec_value ds * k) else None)"

datatype time_unit = Year | Month | Week | Day | Hour | Minute | Second | Msec

fun unit_text :: "time_unit \<Rightarrow> bytes" where
  "unit_text Year = [ch_y]" | "unit_text Month = [ch_M]" | "unit_text Week = [ch_w]"
| "unit_text Day = [ch_d]" | "unit_text Hour = [ch_h]" | "unit_text Minute = [ch_m]"
| "unit_text Second = [ch_s]" | "unit_text Msec = [ch_m, ch_s]"

fun unit_step :: "time_unit \<Rightarrow> nat" where
  "unit_step Year = st_year" | "unit_step Month = st_month" | "unit_step Week = st_week"
| "unit_step Day = st_day" | "unit_step Hour = st_hour" | "unit_step Minute = st_min"
| "unit_step Second = st_sec" | "unit_step Msec = st_msec"

fun unit_seconds :: "time_unit \<Rightarrow> int" where
  "unit_seconds Year = 31536000" | "unit_seconds Month = 2592000" | "unit_seconds Week = 604800"
| "unit_seconds Day = 86400" | "unit_seconds Hour = 3600" | "unit_seconds Minute = 60"
| "unit_seconds Second = 1" | "unit_seconds Msec = 1"

definition unit_scale :: "bool \<Rightarrow> time_unit \<Rightarrow> int" where
  "unit_scale is_sec u = (if is_sec \<or> u = Msec then unit_seconds u else unit_seconds u * 1000)"

text \<open>An item is a run of digits, a unit and the number of spaces after it.\<close>

type_synonym time_item = "bytes \<times> time_unit \<times> nat"

fun item_text :: "time_item \<Rightarrow> bytes" where
  "item_text (ds, u, k) = ds @ unit_text u @ replicate k SP"

fun item_value :: "bool \<Rightarrow> time_item \<Rightarrow> int" where
  "item_value is_sec (ds, u, k) = dec_value ds * unit_scale is_sec u"

fun items_ordered :: "nat \<Rightarrow> time_item list \<Rightarrow> bool" where
  "items_ordered step [] = True"
| "items_ordered step ((ds, u, k) # its) =
     (step < unit_step u \<and> ds \<noteq> [] \<and> all_digits ds \<and> items_ordered (unit_step u) its)"

section \<open>Lemmas\<close>

lemma ngx_parse_size_unit: "ngx_parse_size line = read_with_unit size_unit NGX_MAX_SIZE_T_VALUE line"
proof (cases "line = []")
  case False
  then show ?thesis
    using atosz.read_scaled [of 1024 "butlast line"] atosz.read_scaled [of 1048576 "butlast line"]
      atosz.read_scaled [of 1 line, simplified]
    by (simp add: ngx_parse_size_def read_with_unit_def split_unit_def size_unit_def
        cong: option.case_cong)
qed (simp add: ngx_parse_size_def read_with_unit_def split_unit_def)

lemma ngx_parse_offset_unit:
  "ngx_parse_offset line = read_with_unit offset_unit NGX_MAX_OFF_T_VALUE line"
proof (cases "line = []")
  case False
  then show ?thesis
    using atoof.read_scaled [of 1024 "butlast line"] atoof.read_scaled [of 1048576 "butlast line"]
      atoof.read_scaled [of 1073741824 "butlast line"] atoof.read_scaled [of 1 line, simplified]
    by (simp add: ngx_parse_offset_def read_with_unit_def split_unit_def offset_unit_def
        size_unit_def cong: option.case_cong)
qed (simp add: ngx_parse_offset_def read_with_unit_def split_unit_def)

lemma unit_seconds_pos [simp]: "0 < unit_seconds u"
  by (cases u) simp_all

lemma unit_scale_pos [simp]: "0 < unit_scale is_sec u"
  by (simp add: unit_scale_def)

lemma item_value_nonneg: "items_ordered step its \<Longrightarrow> 0 \<le> (\<Sum>it\<leftarrow>its. item_value is_sec it)"
proof (induction its arbitrary: step)
  case (Cons it its)
  then obtain ds u k where it: "it = (ds, u, k)" by (cases it)
  with Cons have "0 \<le> dec_value ds" and IH: "0 \<le> (\<Sum>it\<leftarrow>its. item_value is_sec it)"
    by (simp_all add: dec_value_nonneg Cons.IH [of "unit_step u"])
  then have "0 \<le> dec_value ds * unit_scale is_sec u"
    using unit_scale_pos [of is_sec u] by (simp add: less_imp_le)
  with IH it show ?case by simp
qed simp

text \<open>Reading a run of digits inside the loop.\<close>

lemma ngx_parse_time_loop_digits:
  assumes "all_digits ds" "ds \<noteq> []" "0 \<le> v" "v \<le> NGX_MAX_INT_T_VALUE"
  shows "ngx_parse_time_loop is_sec step v tot valid (ds @ p) =
    (let r = foldl (\<lambda>v c. v * 10 + digit_val c) v ds in
     if r \<le> NGX_MAX_INT_T_VALUE then ngx_parse_time_loop is_sec step r tot True p else None)"
  using assms
proof (induction ds arbitrary: v valid)
  case (Cons c ds)
  then have dg: "is_digit c" "all_digits ds" by (simp_all add: all_digits_def)
  note b = digit_val_bounds [OF dg(1)]
  let ?v = "v * 10 + digit_val c"
  have step: "ngx_parse_time_loop is_sec step v tot valid ((c # ds) @ p) =
      (if ?v \<le> NGX_MAX_INT_T_VALUE
       then ngx_parse_time_loop is_sec step ?v tot True (ds @ p) else None)"
    using dg b by (simp add: dec_cutoff flip: is_digit_def)
  have "?v \<le> foldl (\<lambda>v c. v * 10 + digit_val c) ?v ds"
    using dg b Cons.prems by (intro foldl_dec_ge) (auto simp: all_digits_def)
  then show ?case
    using step dg b Cons by (cases "ds = []") (auto simp: Let_def)
qed simp

lemma ngx_parse_time_unit_item:
  assumes "step < unit_step u" "is_sec \<Longrightarrow> u \<noteq> Msec" "p = [] \<or> hd p \<noteq> ch_s"
  shows "\<exists>c p'. unit_text u @ p = c # p' \<and> \<not> is_digit c \<and>
    ngx_parse_time_unit is_sec step c p' =
      Some (unit_step u, NGX_MAX_INT_T_VALUE div unit_seconds u, unit_seconds u, p)"
  using assms
  by (cases u) (auto simp: ngx_parse_time_unit_def is_digit_def Let_def hd_conv_nth split: list.splits)

lemma items_text_head:
  assumes "items_ordered step its" "all_digits tail"
  shows "concat (map item_text its) @ tail = [] \<or> is_digit (hd (concat (map item_text its) @ tail))"
proof (cases its)
  case Nil
  with assms(2) show ?thesis by (cases tail) (simp_all add: all_digits_def)
next
  case (Cons it rest)
  then obtain ds u k where it: "it = (ds, u, k)" by (cases it)
  with assms(1) Cons have "ds \<noteq> []" "all_digits ds" by simp_all
  with Cons it show ?thesis by (cases ds) (simp_all add: all_digits_def)
qed

lemma ngx_parse_time_loop_unit:
  assumes "step < unit_step u" "is_sec \<Longrightarrow> u \<noteq> Msec" "rest = [] \<or> is_digit (hd rest)" "0 \<le> v"
  shows "ngx_parse_time_loop is_sec step v tot valid (unit_text u @ replicate k SP @ rest) =
    (if v * unit_scale is_sec u \<le> NGX_MAX_INT_T_VALUE \<and>
        tot + v * unit_scale is_sec u \<le> NGX_MAX_INT_T_VALUE
     then ngx_parse_time_loop is_sec (unit_step u) 0 (tot + v * unit_scale is_sec u) valid rest
     else None)"
proof -
  let ?p = "replicate k SP @ rest"
  have "?p = [] \<or> hd ?p \<noteq> ch_s"
    using assms(3) by (cases k) (auto simp: is_digit_def)
  with assms(1,2) obtain c p' where c: "unit_text u @ ?p = c # p'" "\<not> is_digit c"
    and unit: "ngx_parse_time_unit is_sec step c p' =
      Some (unit_step u, NGX_MAX_INT_T_VALUE div unit_seconds u, unit_seconds u, ?p)"
    using ngx_parse_time_unit_item by blast
  have drop: "dropWhile (\<lambda>ch. ch = SP) ?p = rest"
    using assms(3) by (induction k) (cases rest; auto simp: is_digit_def)+
  have ms: "unit_step u = st_msec \<longleftrightarrow> u = Msec" by (cases u) simp_all
  have mx: "(if unit_step u \<noteq> st_msec \<and> \<not> is_sec
        then NGX_MAX_INT_T_VALUE div unit_seconds u div 1000
        else NGX_MAX_INT_T_VALUE div unit_seconds u) = NGX_MAX_INT_T_VALUE div unit_scale is_sec u"
    using zdiv_zmult2_eq [of 1000 NGX_MAX_INT_T_VALUE "unit_seconds u"]
    by (simp add: unit_scale_def ms)
  have scale: "(if unit_step u \<noteq> st_msec \<and> \<not> is_sec then unit_seconds u * 1000
        else unit_seconds u) = unit_scale is_sec u"
    by (simp add: unit_scale_def ms)
  have fits: "NGX_MAX_INT_T_VALUE div unit_scale is_sec u < v \<longleftrightarrow>
      \<not> v * unit_scale is_sec u \<le> NGX_MAX_INT_T_VALUE"
    by (simp add: mult_le_iff_le_div not_le)
  show ?thesis
    using c(2) unit by (simp only: c(1) ngx_parse_time_loop.simps option.case prod.case Let_def
        mx scale drop fits flip: is_digit_def) auto
qed

lemma ngx_parse_time_loop_tail:
  assumes "all_digits tail" "0 \<le> tot"
  shows "ngx_parse_time_loop is_sec step 0 tot valid tail =
    (let r = tot + dec_value tail * (if is_sec then 1 else 1000) in
     if (valid \<or> tail \<noteq> []) \<and> r \<le> NGX_MAX_INT_T_VALUE then Some r else None)"
proof (cases "tail = []")
  case True
  then show ?thesis by (simp add: dec_value_def Let_def NGX_MAX_INT_T_VALUE_def)
next
  case False
  have fits: "NGX_MAX_INT_T_VALUE div 1000 < v \<longleftrightarrow> \<not> v * 1000 \<le> NGX_MAX_INT_T_VALUE" for v
    by (simp add: mult_le_iff_le_div not_le)
  from ngx_parse_time_loop_digits [of tail 0 is_sec step tot valid "[]"] False assms
    dec_value_nonneg [OF assms(1)]
  show ?thesis by (auto simp: dec_value_def Let_def fits)
qed

lemma ngx_parse_time_loop_items:
  assumes "items_ordered step its" "\<And>ds u k. (ds, u, k) \<in> set its \<Longrightarrow> is_sec \<Longrightarrow> u \<noteq> Msec"
    and "all_digits tail" "0 \<le> tot" "tot \<le> NGX_MAX_INT_T_VALUE"
  shows "ngx_parse_time_loop is_sec step 0 tot valid (concat (map item_text its) @ tail) =
    (let r = tot + (\<Sum>it\<leftarrow>its. item_value is_sec it) + dec_value tail * (if is_sec then 1 else 1000)
     in if (valid \<or> its \<noteq> [] \<or> tail \<noteq> []) \<and> r \<le> NGX_MAX_INT_T_VALUE then Some r else None)"
  using assms
proof (induction its arbitrary: step tot valid)
  case Nil
  then show ?case by (simp add: ngx_parse_time_loop_tail Let_def)
next
  case (Cons it its)
  obtain ds u k where it: "it = (ds, u, k)" by (cases it)
  let ?rest = "concat (map item_text its) @ tail"
  let ?v = "dec_value ds * unit_scale is_sec u"
  let ?tail = "dec_value tail * (if is_sec then 1 else 1000 :: int)"
  from Cons.prems(1) it have ord: "step < unit_step u" "ds \<noteq> []" "all_digits ds"
    "items_ordered (unit_step u) its" by simp_all
  from Cons.prems(2) it have sec: "is_sec \<Longrightarrow> u \<noteq> Msec" by auto
  have sec': "u' \<noteq> Msec" if "(ds', u', k') \<in> set its" "is_sec" for ds' u' k'
    using Cons.prems(2) [of ds' u' k'] that by simp
  have nn: "0 \<le> dec_value ds" "0 \<le> (\<Sum>it\<leftarrow>its. item_value is_sec it)" "0 \<le> ?tail"
    using dec_value_nonneg ord Cons.prems(3) item_value_nonneg by auto
  have le: "dec_value ds \<le> ?v"
    using nn(1) mult_left_mono [of 1 "unit_scale is_sec u" "dec_value ds"]
      unit_scale_pos [of is_sec u] by linarith
  have "ngx_parse_time_loop is_sec step 0 tot valid (concat (map item_text (it # its)) @ tail) =
      (if dec_value ds \<le> NGX_MAX_INT_T_VALUE then
         ngx_parse_time_loop is_sec step (dec_value ds) tot True
           (unit_text u @ replicate k SP @ ?rest) else None)"
    using ngx_parse_time_loop_digits [OF ord(3,2), of 0 is_sec step tot valid
        "unit_text u @ replicate k SP @ ?rest"] it
    by (simp add: dec_value_def Let_def)
  also have "\<dots> = (if tot + ?v \<le> NGX_MAX_INT_T_VALUE then
      ngx_parse_time_loop is_sec (unit_step u) 0 (tot + ?v) True ?rest else None)"
    using ngx_parse_time_loop_unit [OF ord(1) sec items_text_head [OF ord(4) Cons.prems(3)] nn(1)]
      le Cons.prems(4) by auto
  also have "\<dots> = (let r = tot + (\<Sum>it\<leftarrow>it # its. item_value is_sec it) + ?tail
      in if r \<le> NGX_MAX_INT_T_VALUE then Some r else None)"
    using Cons.IH [where tot = "tot + ?v" and valid = True, OF ord(4) sec' Cons.prems(3)] Cons.prems(4) nn le it
    by (auto simp: Let_def add.assoc)
  finally show ?case by simp
qed

section \<open>Properties\<close>

text \<open>
  \<open>ngx_parse_size\<close> and \<open>ngx_parse_offset\<close> are exact: a run of digits with an optional
  one-letter unit is read as the digits' value times the unit when that product fits, and
  every other text is an error. No product that fits is refused and none overflows.
\<close>

theorem parse_size_offset_exact:
  "ngx_parse_size line = read_with_unit size_unit NGX_MAX_SIZE_T_VALUE line \<and>
   ngx_parse_offset line = read_with_unit offset_unit NGX_MAX_OFF_T_VALUE line"
  by (simp add: ngx_parse_size_unit ngx_parse_offset_unit)

text \<open>
  \<open>ngx_parse_time\<close> reads a list of numbers with units from the largest to the smallest,
  with any number of spaces between them and an optional last number without a unit, as the sum of its items
  in seconds or, without \<open>is_sec\<close>, in milliseconds; it reports an error exactly when that sum
  does not fit.
\<close>

theorem parse_time_items:
  assumes "items_ordered (if is_sec then st_start else st_month) its"
    and "\<forall>(ds, u, k) \<in> set its. is_sec \<longrightarrow> u \<noteq> Msec"
    and "all_digits tail" "its \<noteq> [] \<or> tail \<noteq> []"
  shows "ngx_parse_time (concat (map item_text its) @ tail) is_sec =
    (let r = (\<Sum>it\<leftarrow>its. item_value is_sec it) + dec_value tail * (if is_sec then 1 else 1000)
     in if r \<le> NGX_MAX_INT_T_VALUE then Some r else None)"
  unfolding ngx_parse_time_def
  by (subst ngx_parse_time_loop_items) (use assms in \<open>auto simp: Let_def\<close>)

theorem parse_time_items_witness:
  "ngx_parse_time (bytes_of ''1h 30m'') True = Some 5400"
  using parse_time_items [of True "[(bytes_of ''1'', Hour, 1), (bytes_of ''30'', Minute, 0)]" "[]"]
  by (simp add: all_digits_def is_digit_def dec_value_def digit_val_def unit_scale_def
      NGX_MAX_INT_T_VALUE_def)

end
