(* ===== verification/Ngx_Escape.thy ===== *)
theory Ngx_Escape
  imports Ngx_Numbers
begin

text \<open>
  Escaping and unescaping of \<^verbatim>\<open>src/core/ngx_string.c\<close>: \<open>ngx_escape_uri\<close>, \<open>ngx_unescape_uri\<close>,
  \<open>ngx_escape_html\<close> and \<open>ngx_escape_json\<close>. Each escaping function of the code has two modes,
  chosen by \<open>dst == NULL\<close>: it counts, or it writes; they are two functions here. The
  lemmas show that the counting pass gives the exact size of what the writing pass produces,
  that unescaping inverts escaping, and that unescaping in place never overtakes its source.
\<close>

section \<open>URI escaping\<close>

datatype escape_type =
    NGX_ESCAPE_URI | NGX_ESCAPE_ARGS | NGX_ESCAPE_URI_COMPONENT | NGX_ESCAPE_HTML
  | NGX_ESCAPE_REFRESH | NGX_ESCAPE_MEMCACHED | NGX_ESCAPE_MAIL_AUTH

definition esc_uri :: "u32 list" where
  "esc_uri = [0xffffffff, 0x80000029, 0x00000000, 0x80000000,
              0xffffffff, 0xffffffff, 0xffffffff, 0xffffffff]"

definition esc_args :: "u32 list" where
  "esc_args = [0xffffffff, 0x88000869, 0x00000000, 0x80000000,
               0xffffffff, 0xffffffff, 0xffffffff, 0xffffffff]"

definition esc_uri_component :: "u32 list" where
  "esc_uri_component = [0xffffffff, 0xfc009fff, 0x78000001, 0xb8000001,
                        0xffffffff, 0xffffffff, 0xffffffff, 0xffffffff]"

definition esc_html :: "u32 list" where
  "esc_html = [0xffffffff, 0x000000ad, 0x00000000, 0x80000000,
               0xffffffff, 0xffffffff, 0xffffffff, 0xffffffff]"

definition esc_refresh :: "u32 list" where
  "esc_refresh = [0xffffffff, 0x00000085, 0x00000000, 0x80000000,
                  0xffffffff, 0xffffffff, 0xffffffff, 0xffffffff]"

definition esc_memcached :: "u32 list" where
  "esc_memcached = [0xffffffff, 0x00000021, 0x00000000, 0x00000000,
                    0x00000000, 0x00000000, 0x00000000, 0x00000000]"

fun escape_map :: "escape_type \<Rightarrow> u32 list" where
  "escape_map NGX_ESCAPE_URI = esc_uri"
| "escape_map NGX_ESCAPE_ARGS = esc_args"
| "escape_map NGX_ESCAPE_URI_COMPONENT = esc_uri_component"
| "escape_map NGX_ESCAPE_HTML = esc_html"
| "escape_map NGX_ESCAPE_REFRESH = esc_refresh"
| "escape_map NGX_ESCAPE_MEMCACHED = esc_memcached"
| "escape_map NGX_ESCAPE_MAIL_AUTH = esc_memcached"

definition must_escape :: "escape_type \<Rightarrow> u8 \<Rightarrow> bool" where
  "must_escape type ch \<longleftrightarrow>
     escape_map type ! unat (drop_bit 5 ch) AND push_bit (unat (ch AND 0x1f)) 1 \<noteq> 0"

text \<open>\<open>dst == NULL\<close>: the number of bytes to be escaped.\<close>

fun ngx_escape_uri_count :: "escape_type \<Rightarrow> bytes \<Rightarrow> nat" where
  "ngx_escape_uri_count type [] = 0"
| "ngx_escape_uri_count type (c # src) =
     (if must_escape type c then Suc (ngx_escape_uri_count type src)
      else ngx_escape_uri_count type src)"

fun ngx_escape_uri :: "escape_type \<Rightarrow> bytes \<Rightarrow> bytes" where
  "ngx_escape_uri type [] = []"
| "ngx_escape_uri type (c # src) =
     (if must_escape type c
      then ch_percent # hex_upper ! unat (drop_bit 4 c) # hex_upper ! unat (c AND 0xf) #
           ngx_escape_uri type src
      else c # ngx_escape_uri type src)"

section \<open>URI unescaping\<close>

text \<open>
  \<open>type\<close> is a set of flags: \<open>NGX_UNESCAPE_URI\<close> and \<open>NGX_UNESCAPE_REDIRECT\<close>. The state of the
  second digit carries \<open>decoded\<close> and the byte \<open>*(s - 2)\<close>, the first digit as it was written.
\<close>

record unescape_flags =
  NGX_UNESCAPE_URI :: bool
  NGX_UNESCAPE_REDIRECT :: bool

datatype unescape_state = un_usual | un_quoted | un_quoted_second u8 u8

text \<open>One byte: the bytes written, and the next state or \<open>None\<close> for \<open>goto done\<close>.\<close>

definition unescape_step ::
  "unescape_flags \<Rightarrow> unescape_state \<Rightarrow> u8 \<Rightarrow> bytes \<times> unescape_state option" where
  "unescape_step type st ch =
     (case st of
        un_usual \<Rightarrow>
          if ch = ch_quest \<and> (NGX_UNESCAPE_URI type \<or> NGX_UNESCAPE_REDIRECT type)
          then ([ch], None)
          else if ch = ch_percent then ([], Some un_quoted)
          else ([ch], Some un_usual)
      | un_quoted \<Rightarrow>
          if ch_0 \<le> ch \<and> ch \<le> ch_9 then ([], Some (un_quoted_second (ch - ch_0) ch))
          else let c = ch OR 0x20 in
            if ch_a \<le> c \<and> c \<le> ch_f then ([], Some (un_quoted_second (c - ch_a + 10) ch))
            else ([ch], Some un_usual)
      | un_quoted_second decoded s2 \<Rightarrow>
          if ch_0 \<le> ch \<and> ch \<le> ch_9 then
            let d = push_bit 4 decoded + ch - ch_0 in
            if NGX_UNESCAPE_REDIRECT type then
              if d > ch_percent \<and> d < 0x7f then ([d], Some un_usual)
              else ([ch_percent, s2, ch], Some un_usual)
            else ([d], Some un_usual)
          else let c = ch OR 0x20 in
            if ch_a \<le> c \<and> c \<le> ch_f then
              let d = push_bit 4 decoded + c - ch_a + 10 in
              if NGX_UNESCAPE_URI type then
                if d = ch_quest then ([d], None) else ([d], Some un_usual)
              else if NGX_UNESCAPE_REDIRECT type then
                if d = ch_quest then ([d], None)
                else if d > ch_percent \<and> d < 0x7f then ([d], Some un_usual)
                else ([ch_percent, s2, ch], Some un_usual)
              else ([d], Some un_usual)
            else ([], Some un_usual))"

text \<open>The result is what is written from \<open>*dst\<close> on and what is left from \<open>*src\<close> on.\<close>

fun unescape_loop ::
  "unescape_flags \<Rightarrow> unescape_state \<Rightarrow> bytes \<Rightarrow> bytes \<times> bytes" where
  "unescape_loop type st [] = ([], [])"
| "unescape_loop type st (ch # s) =
     (case unescape_step type st ch of
        (d, None) \<Rightarrow> (d, s)
      | (d, Some st') \<Rightarrow> (case unescape_loop type st' s of (d', s') \<Rightarrow> (d @ d', s')))"

definition ngx_unescape_uri :: "unescape_flags \<Rightarrow> bytes \<Rightarrow> bytes \<times> bytes" where
  "ngx_unescape_uri type src = unescape_loop type un_usual src"

abbreviation no_flags :: unescape_flags where
  "no_flags \<equiv> \<lparr>NGX_UNESCAPE_URI = False, NGX_UNESCAPE_REDIRECT = False\<rparr>"

section \<open>HTML and JSON escaping\<close>

fun ngx_escape_html_len :: "bytes \<Rightarrow> nat" where
  "ngx_escape_html_len [] = 0"
| "ngx_escape_html_len (c # src) =
     (if c = ch_lt then 3 else if c = ch_gt then 3 else if c = ch_amp then 4
      else if c = ch_dquote then 5 else 0) + ngx_escape_html_len src"

fun ngx_escape_html :: "bytes \<Rightarrow> bytes" where
  "ngx_escape_html [] = []"
| "ngx_escape_html (ch # src) =
     (if ch = ch_lt then [ch_amp, ch_l, ch_t, ch_semi]
      else if ch = ch_gt then [ch_amp, ch_g, ch_t, ch_semi]
      else if ch = ch_amp then [ch_amp, ch_a, ch_m, ch_p, ch_semi]
      else if ch = ch_dquote then [ch_amp, ch_q, ch_u, ch_o, ch_t, ch_semi]
      else [ch]) @ ngx_escape_html src"

fun ngx_escape_json_len :: "bytes \<Rightarrow> nat" where
  "ngx_escape_json_len [] = 0"
| "ngx_escape_json_len (ch # src) =
     (if ch = ch_backslash \<or> ch = ch_dquote then 1 else if ch \<le> 0x1f then 5 else 0) +
     ngx_escape_json_len src"

fun ngx_escape_json :: "bytes \<Rightarrow> bytes" where
  "ngx_escape_json [] = []"
| "ngx_escape_json (ch # src) =
     (if ch > 0x1f then
        (if ch = ch_backslash \<or> ch = ch_dquote then [ch_backslash] else []) @ [ch]
      else
        [ch_backslash, ch_u, ch_0, ch_0, ch_0 + drop_bit 4 ch,
         (let ch = ch AND 0xf in if ch < 10 then ch_0 + ch else ch_A + ch - 10)]) @
     ngx_escape_json src"

section \<open>Reference decoders\<close>

text \<open>A reader of HTML text with the four entities; a bare special character is refused.\<close>

fun html_text :: "bytes \<Rightarrow> bytes option" where
  "html_text [] = Some []"
| "html_text (ch # src) =
     (if ch = ch_amp then
        (if take 3 src = [ch_l, ch_t, ch_semi]
         then map_option ((#) ch_lt) (html_text (drop 3 src))
         else if take 3 src = [ch_g, ch_t, ch_semi]
         then map_option ((#) ch_gt) (html_text (drop 3 src))
         else if take 4 src = [ch_a, ch_m, ch_p, ch_semi]
         then map_option ((#) ch_amp) (html_text (drop 4 src))
         else if take 5 src = [ch_q, ch_u, ch_o, ch_t, ch_semi]
         then map_option ((#) ch_dquote) (html_text (drop 5 src))
         else None)
      else if ch = ch_lt \<or> ch = ch_gt \<or> ch = ch_dquote then None
      else map_option ((#) ch) (html_text src))"

text \<open>
  A reader of the inside of a JSON string: an unescaped quote or control character is refused.
\<close>

fun json_text :: "bytes \<Rightarrow> bytes option" where
  "json_text [] = Some []"
| "json_text (ch # src) =
     (if ch = ch_backslash then
        (case src of
           [] \<Rightarrow> None
         | e # rest \<Rightarrow>
             if e = ch_backslash \<or> e = ch_dquote then map_option ((#) e) (json_text rest)
             else if e = ch_u then
               (case rest of
                  a # b # c # d # rest' \<Rightarrow>
                    (if a = ch_0 \<and> b = ch_0 then
                       (case (hex_digit c, hex_digit d) of
                          (Some x, Some y) \<Rightarrow>
                            map_option ((#) (of_int (x * 16 + y))) (json_text rest')
                        | _ \<Rightarrow> None)
                     else None)
                | _ \<Rightarrow> None)
             else None)
      else if ch = ch_dquote \<or> ch \<le> 0x1f then None
      else map_option ((#) ch) (json_text src))"

section \<open>Lemmas\<close>

lemma must_escape_percent: "must_escape type ch_percent \<longleftrightarrow> type \<noteq> NGX_ESCAPE_REFRESH"
  by (cases type) (simp_all add: must_escape_def esc_uri_def esc_args_def esc_uri_component_def
      esc_html_def esc_refresh_def esc_memcached_def)

lemma unescape_hex_pair:
  "unescape_step no_flags un_quoted (hex_upper ! unat (drop_bit 4 c)) =
     ([], Some (un_quoted_second (drop_bit 4 c) (hex_upper ! unat (drop_bit 4 c)))) \<and>
   unescape_step no_flags (un_quoted_second (drop_bit 4 c) h) (hex_upper ! unat (c AND 0xf)) =
     ([c], Some un_usual)"
proof -
  have "\<forall>c::u8. unescape_step no_flags un_quoted (hex_upper ! unat (drop_bit 4 c)) =
     ([], Some (un_quoted_second (drop_bit 4 c) (hex_upper ! unat (drop_bit 4 c)))) \<and>
   unescape_step no_flags (un_quoted_second (drop_bit 4 c) h) (hex_upper ! unat (c AND 0xf)) =
     ([c], Some un_usual)"
    unfolding all_bytes by (simp add: unescape_step_def hex_upper_def)
  then show ?thesis by blast
qed

lemma unescape_escape:
  "type \<noteq> NGX_ESCAPE_REFRESH \<Longrightarrow> ngx_unescape_uri no_flags (ngx_escape_uri type src) = (src, [])"
  unfolding ngx_unescape_uri_def
  by (induction src)
    (auto simp: unescape_hex_pair must_escape_percent unescape_step_def [of no_flags un_usual])

lemma escape_uri_length: "length (ngx_escape_uri type src) = length src + 2 * ngx_escape_uri_count type src"
  by (induction src) auto

lemma escape_html_length: "length (ngx_escape_html src) = length src + ngx_escape_html_len src"
  by (induction src) auto

lemma escape_json_length: "length (ngx_escape_json src) = length src + ngx_escape_json_len src"
  by (induction src) (auto simp: not_less)

lemma html_text_escape: "html_text (ngx_escape_html src) = Some src"
  by (induction src) auto

lemma json_control:
  "c \<le> 0x1f \<longrightarrow> (let d = c AND 0xf; e = (if d < 10 then ch_0 + d else ch_A + d - 10) in
     (\<exists>x y. hex_digit (ch_0 + drop_bit 4 c) = Some x \<and> hex_digit e = Some y \<and> of_int (x * 16 + y) = c))"
proof -
  have "\<forall>c::u8. c \<le> 0x1f \<longrightarrow> (let d = c AND 0xf; e = (if d < 10 then ch_0 + d else ch_A + d - 10) in
     (\<exists>x y. hex_digit (ch_0 + drop_bit 4 c) = Some x \<and> hex_digit e = Some y \<and> of_int (x * 16 + y) = c))"
    unfolding all_bytes by (simp add: hex_digit_def)
  then show ?thesis by blast
qed

lemma json_text_escape: "json_text (ngx_escape_json src) = Some src"
proof (induction src)
  case (Cons ch src)
  show ?case
  proof (cases "ch > 0x1f")
    case True
    with Cons show ?thesis by (auto simp: not_le)
  next
    case False
    then have "ch \<le> 0x1f" by simp
    with json_control [of ch] False Cons show ?thesis by (auto simp: Let_def)
  qed
qed simp

lemma unescape_step_grows:
  "unescape_step type st ch = (d, st') \<Longrightarrow>
    length d + (case st' of None \<Rightarrow> 0 | Some un_usual \<Rightarrow> 0 | Some un_quoted \<Rightarrow> 1 | Some (un_quoted_second _ _) \<Rightarrow> 2) \<le>
    Suc (case st of un_usual \<Rightarrow> 0 | un_quoted \<Rightarrow> 1 | un_quoted_second _ _ \<Rightarrow> 2)"
  by (auto simp: unescape_step_def Let_def split: unescape_state.splits if_splits)

definition pending :: "unescape_state \<Rightarrow> nat" where
  "pending st = (case st of un_usual \<Rightarrow> 0 | un_quoted \<Rightarrow> 1 | un_quoted_second _ _ \<Rightarrow> 2)"

lemma unescape_loop_shrinks:
  "unescape_loop type st s = (d, s') \<Longrightarrow>
    (\<exists>pre. s = pre @ s') \<and> length d \<le> pending st + (length s - length s')"
proof (induction s arbitrary: st d s')
  case (Cons ch s)
  obtain e st' where step: "unescape_step type st ch = (e, st')" by fastforce
  note g = unescape_step_grows [OF step]
  show ?case
  proof (cases st')
    case None
    with step Cons.prems g show ?thesis by (auto simp: pending_def)
  next
    case (Some st1)
    obtain d1 s1 where loop: "unescape_loop type st1 s = (d1, s1)" by fastforce
    with Cons.IH obtain pre where IH: "s = pre @ s1" "length d1 \<le> pending st1 + (length s - length s1)"
      by blast
    from Cons.prems step Some loop have d: "d = e @ d1" "s' = s1" by auto
    have "length e + pending st1 \<le> Suc (pending st)"
      using g Some by (simp add: pending_def split: unescape_state.splits)
    with IH d have "length d \<le> pending st + (length (ch # s) - length s')" by simp
    moreover have "ch # s = (ch # pre) @ s'" using IH d by simp
    ultimately show ?thesis by blast
  qed
qed simp

text \<open>Every table but that of \<open>NGX_ESCAPE_REFRESH\<close> makes escaping a codec.\<close>

interpretation uri_codec: codec "ngx_escape_uri NGX_ESCAPE_URI" "\<lambda>s. Some (fst (ngx_unescape_uri no_flags s))"
  by unfold_locales (simp add: unescape_escape)

interpretation args_codec: codec "ngx_escape_uri NGX_ESCAPE_ARGS" "\<lambda>s. Some (fst (ngx_unescape_uri no_flags s))"
  by unfold_locales (simp add: unescape_escape)

interpretation component_codec: codec "ngx_escape_uri NGX_ESCAPE_URI_COMPONENT"
  "\<lambda>s. Some (fst (ngx_unescape_uri no_flags s))"
  by unfold_locales (simp add: unescape_escape)

interpretation html_codec: codec ngx_escape_html html_text
  by unfold_locales (rule html_text_escape)

interpretation json_codec: codec ngx_escape_json json_text
  by unfold_locales (rule json_text_escape)

section \<open>Properties\<close>

text \<open>
  C40. Unescaping inverts escaping: for every escape table except that of
  \<open>NGX_ESCAPE_REFRESH\<close>, \<open>ngx_unescape_uri\<close> with no flags consumes all of what
  \<open>ngx_escape_uri\<close> wrote and gives back the source bytes.
\<close>

theorem escape_uri_roundtrip:
  assumes "type \<noteq> NGX_ESCAPE_REFRESH"
  shows "ngx_unescape_uri no_flags (ngx_escape_uri type src) = (src, [])"
  using assms by (rule unescape_escape)

theorem escape_uri_roundtrip_witness:
  "ngx_unescape_uri no_flags (ngx_escape_uri NGX_ESCAPE_ARGS (bytes_of ''a&b=%'')) = (bytes_of ''a&b=%'', [])"
  by (rule escape_uri_roundtrip) simp

text \<open>
  The table of \<open>NGX_ESCAPE_REFRESH\<close> does not escape the percent sign, although its
  comment lists it: a space and the three bytes of its escape are written the same way, so
  what is written cannot be read back.
\<close>

theorem escape_refresh_ambiguous:
  "\<not> must_escape NGX_ESCAPE_REFRESH ch_percent \<and>
   ngx_escape_uri NGX_ESCAPE_REFRESH (bytes_of '' '') = ngx_escape_uri NGX_ESCAPE_REFRESH (bytes_of ''%20'')"
  by (simp add: must_escape_def esc_refresh_def hex_upper_def)

text \<open>
  The counting pass of each escaping function gives exactly what the writing pass adds:
  two bytes per escaped byte for \<open>ngx_escape_uri\<close>, the returned length for
  \<open>ngx_escape_html\<close> and \<open>ngx_escape_json\<close>. A buffer allocated from it is filled exactly.
\<close>

theorem escape_sizes_exact:
  "length (ngx_escape_uri type src) = length src + 2 * ngx_escape_uri_count type src \<and>
   length (ngx_escape_html src) = length src + ngx_escape_html_len src \<and>
   length (ngx_escape_json src) = length src + ngx_escape_json_len src"
  by (simp add: escape_uri_length escape_html_length escape_json_length)

text \<open>
  What \<open>ngx_escape_html\<close> and \<open>ngx_escape_json\<close> write is safe to embed and loses nothing:
  a reader that refuses every bare \<open><\<close>, \<open>>\<close>, quote and unknown entity (for JSON, every bare quote
  and control character) accepts it and returns the source bytes.
\<close>

theorem escape_html_json_readable:
  "html_text (ngx_escape_html src) = Some src \<and> json_text (ngx_escape_json src) = Some src"
  by (simp add: html_codec.decode_encode json_codec.decode_encode)

text \<open>
  \<open>ngx_unescape_uri\<close> is safe in place, for every combination of flags: what it has
  written is never longer than what it has consumed, and what it leaves is a suffix of its
  source.
\<close>

theorem unescape_in_place:
  "case ngx_unescape_uri type src of
     (d, rest) \<Rightarrow> \<exists>consumed. src = consumed @ rest \<and> length d \<le> length consumed"
proof -
  obtain d rest where u: "unescape_loop type un_usual src = (d, rest)" by fastforce
  from unescape_loop_shrinks [OF u] show ?thesis
    by (auto simp: ngx_unescape_uri_def u pending_def)
qed

end
