(* ===== verification/Http_Scan.thy ===== *)
theory Http_Scan
  imports Prelude
begin

text \<open>
  What the byte-at-a-time parsers of \<^verbatim>\<open>src/http/ngx_http_parse.c\<close> have in common: the table of
  usual URI characters, the buffer, and the loop
  \<^verbatim>\<open>for (p = b->pos; p < b->last; p++) { ch = *p; switch (state) ... }\<close>
  with its three ways out (end of input, a \<open>goto\<close>, a \<open>return\<close>). A parser supplies the body
  of the loop as a step function. The locale \<open>resumable\<close> states what the parsers rely on to
  be called again when more input arrives, and proves once that parsing is independent of how
  the input is cut into pieces.
\<close>

section \<open>Usual characters\<close>

definition usual :: "u32 list" where
  "usual = [0xffffdbfe, 0x7fff37d6, 0xffffffff, 0xffffffff,
            0xffffffff, 0xffffffff, 0xffffffff, 0xffffffff]"

definition is_usual :: "u8 \<Rightarrow> bool" where
  "is_usual ch \<longleftrightarrow>
     usual ! unat (drop_bit 5 ch) AND push_bit (unat (ch AND 0x1f)) 1 \<noteq> 0"

lemma is_usual_iff:
  "is_usual ch \<longleftrightarrow>
    ch \<notin> {NUL, LF, CR, SP, ch_hash, ch_percent, ch_plus, ch_dot, ch_slash, ch_quest}"
proof -
  have "\<forall>ch. is_usual ch \<longleftrightarrow>
    ch \<notin> {NUL, LF, CR, SP, ch_hash, ch_percent, ch_plus, ch_dot, ch_slash, ch_quest}"
    unfolding all_bytes by (simp add: is_usual_def usual_def)
  then show ?thesis by blast
qed

section \<open>The scanning loop\<close>

record ngx_buf_t =
  data :: bytes  \<comment> \<open>\<open>[b->start, b->last)\<close>\<close>
  pos :: nat     \<comment> \<open>\<open>b->pos - b->start\<close>\<close>

datatype ('s, 'r) outcome = Go 's | Halt 's 'r

function scan :: "(bytes \<Rightarrow> nat \<Rightarrow> 's \<Rightarrow> ('s, 'r) outcome) \<Rightarrow> bytes \<Rightarrow> nat \<Rightarrow> 's \<Rightarrow>
    nat \<times> ('s, 'r) outcome" where
  "scan step buf p s =
     (if p < length buf
      then (case step buf p s of
              Go s' \<Rightarrow> scan step buf (Suc p) s'
            | Halt s' r \<Rightarrow> (p, Halt s' r))
      else (p, Go s))"
  by pat_completeness auto
termination
  by (relation "measure (\<lambda>(step, buf, p, s). length buf - p)") auto

declare scan.simps [simp del]

lemma scan_end [simp]: "length buf \<le> p \<Longrightarrow> scan step buf p s = (p, Go s)"
  by (simp add: scan.simps)

lemma scan_Go: "p < length buf \<Longrightarrow> step buf p s = Go s' \<Longrightarrow>
    scan step buf p s = scan step buf (Suc p) s'"
  by (subst scan.simps) simp

lemma scan_Halt: "p < length buf \<Longrightarrow> step buf p s = Halt s' r \<Longrightarrow>
    scan step buf p s = (p, Halt s' r)"
  by (subst scan.simps) simp

text \<open>
  The induction rule the parsers use: an invariant on the offset and the state that every
  step keeps, and what it gives at a halt and at the end of the input.
\<close>

lemma scan_rule:
  assumes "I p s" "p \<le> length buf"
    and "\<And>p s s'. I p s \<Longrightarrow> p < length buf \<Longrightarrow> step buf p s = Go s' \<Longrightarrow> I (Suc p) s'"
    and "\<And>p s s' r. I p s \<Longrightarrow> p < length buf \<Longrightarrow> step buf p s = Halt s' r \<Longrightarrow> Q p s' r"
  shows "case scan step buf p s of
      (q, Go s') \<Rightarrow> q = length buf \<and> I q s'
    | (q, Halt s' r) \<Rightarrow> p \<le> q \<and> q < length buf \<and> Q q s' r"
  using assms(1,2)
proof (induction "length buf - p" arbitrary: p s)
  case 0
  then show ?case by simp
next
  case (Suc n)
  then have lt: "p < length buf" by simp
  show ?case
  proof (cases "step buf p s")
    case (Go s')
    with assms(3) Suc.prems(1) lt have "I (Suc p) s'" by blast
    moreover from Suc.hyps(2) have n: "n = length buf - Suc p" by simp
    ultimately show ?thesis
      using Suc.hyps(1) [OF n, of s'] lt Go by (auto simp: scan_Go split: outcome.splits)
  next
    case (Halt s' r)
    with assms(4) Suc.prems(1) lt show ?thesis by (simp add: scan_Halt)
  qed
qed

lemma scan_halt_bounds:
  "scan step buf p s = (q, Halt s' r) \<Longrightarrow> p \<le> q \<and> q < length buf"
proof (induction "length buf - p" arbitrary: p s)
  case 0
  then show ?case by simp
next
  case (Suc n)
  then have "p < length buf" by simp
  with Suc show ?case
    by (cases "step buf p s") (auto simp: scan_Go scan_Halt dest: Suc.hyps(1) [rotated])
qed

lemma scan_halt_step:
  "scan step buf p s = (q, Halt s' r) \<Longrightarrow> \<exists>s0. step buf q s0 = Halt s' r"
proof (induction "length buf - p" arbitrary: p s)
  case 0
  then show ?case by simp
next
  case (Suc n)
  then have lt: "p < length buf" by simp
  show ?case
  proof (cases "step buf p s")
    case (Go s1)
    with Suc.prems lt have "scan step buf (Suc p) s1 = (q, Halt s' r)" by (simp add: scan_Go)
    with Suc.hyps(1) [of "Suc p" s1] Suc.hyps(2) show ?thesis by simp
  next
    case (Halt s1 r1)
    with Suc lt show ?thesis by (auto simp: scan_Halt)
  qed
qed

lemma scan_go_end: "scan step buf p s = (q, Go s') \<Longrightarrow> p \<le> length buf \<Longrightarrow> q = length buf"
  using scan_rule [of "\<lambda>_ _. True" p s buf step "\<lambda>_ _ _. True"] by simp

lemma scan_byte:
  assumes "buf = pre @ c # post" "step buf (length pre) s = Go s'"
  shows "scan step buf (length pre) s = scan step buf (length (pre @ [c])) s'"
  using assms by (simp add: scan_Go)

definition slice :: "nat \<Rightarrow> nat \<Rightarrow> bytes \<Rightarrow> bytes" where
  "slice i j xs = drop i (take j xs)"

lemma slice_append [simp]:
  "slice (length xs) (length xs + length ys) (xs @ ys @ zs) = ys"
  by (simp add: slice_def)

lemma slice_Suc: "i \<le> j \<Longrightarrow> j < length xs \<Longrightarrow> slice i (Suc j) xs = slice i j xs @ [xs ! j]"
  by (simp add: slice_def take_Suc_conv_app_nth)

section \<open>Resumable parsers\<close>

text \<open>
  A step at offset \<open>p\<close> looks at the byte there and at bytes before it, never ahead. This is all
  that is needed for a parser that was stopped at the end of its input to go on from its saved
  state when the buffer has grown.
\<close>

locale resumable =
  fixes step :: "bytes \<Rightarrow> nat \<Rightarrow> 's \<Rightarrow> ('s, 'r) outcome"
  assumes no_lookahead: "p < length xs \<Longrightarrow> step (xs @ ys) p s = step xs p s"
begin

lemma scan_append:
  assumes "p \<le> length xs"
  shows "scan step (xs @ ys) p s =
    (case scan step xs p s of
       (q, Go s') \<Rightarrow> scan step (xs @ ys) q s'
     | (q, Halt s' r) \<Rightarrow> (q, Halt s' r))"
  using assms
proof (induction "length xs - p" arbitrary: p s)
  case 0
  then show ?case by simp
next
  case (Suc n)
  then have lt: "p < length xs" by simp
  show ?case
  proof (cases "step xs p s")
    case (Go s')
    with lt no_lookahead have "scan step (xs @ ys) p s = scan step (xs @ ys) (Suc p) s'"
      by (simp add: scan_Go)
    with Suc.hyps(1) [of "Suc p" s'] Suc.hyps(2) lt Go show ?thesis
      by (simp add: scan_Go)
  next
    case (Halt s' r)
    with lt no_lookahead show ?thesis by (simp add: scan_Halt)
  qed
qed

text \<open>
  Feeding the input in pieces: after each piece the parser is called on the buffer so far,
  from the offset and the state where it stopped.
\<close>

lemma scan_resume:
  assumes "scan step xs p s = (q, Go s')" "p \<le> length xs"
  shows "scan step (xs @ ys) p s = scan step (xs @ ys) q s'"
  using scan_append [OF assms(2)] assms(1) by simp

lemma scan_stops_early:
  assumes "scan step xs p s = (q, Halt s' r)" "p \<le> length xs"
  shows "scan step (xs @ ys) p s = (q, Halt s' r)"
  using scan_append [OF assms(2)] assms(1) by simp

end


section \<open>Parsers called piece by piece\<close>

text \<open>
  The caller: as long as the parser asks for more, the next piece of input is appended to the
  buffer and the parser is called again with what it returned.
\<close>

fun feed :: "('s \<Rightarrow> ngx_buf_t \<Rightarrow> ngx_rc \<times> 's \<times> ngx_buf_t) \<Rightarrow> 's \<Rightarrow> ngx_buf_t \<Rightarrow> bytes list \<Rightarrow>
    ngx_rc \<times> 's" where
  "feed parse s b [] = (NGX_AGAIN, s)"
| "feed parse s b (c # cs) =
     (case parse s (b\<lparr>data := data b @ c\<rparr>) of
        (rc, s', b') \<Rightarrow> if rc = NGX_AGAIN then feed parse s' b' cs else (rc, s'))"

definition call :: "('s \<Rightarrow> ngx_buf_t \<Rightarrow> ngx_rc \<times> 's \<times> ngx_buf_t) \<Rightarrow> 's \<Rightarrow> ngx_buf_t \<Rightarrow> ngx_rc \<times> 's" where
  "call parse s b = (case parse s b of (rc, s', b') \<Rightarrow> (rc, s'))"

text \<open>
  A parser is its step function, the code after the loop (\<open>exit\<close>) and what a \<open>return\<close> with
  its code does not store (\<open>forget\<close>).
\<close>

locale incremental = resumable step
  for step :: "bytes \<Rightarrow> nat \<Rightarrow> 's \<Rightarrow> ('s, 'r) outcome" +
  fixes parse :: "'s \<Rightarrow> ngx_buf_t \<Rightarrow> ngx_rc \<times> 's \<times> ngx_buf_t"
    and exit :: "nat \<Rightarrow> 's \<Rightarrow> 'r \<Rightarrow> ngx_rc \<times> 's"
    and forget :: "ngx_rc \<times> 's \<Rightarrow> ngx_rc \<times> 's"
  assumes parse_Go: "scan step (data b) (pos b) s = (q, Go s') \<Longrightarrow>
      parse s b = (NGX_AGAIN, s', b\<lparr>pos := q\<rparr>)"
    and parse_Halt: "scan step (data b) (pos b) s = (q, Halt s' r) \<Longrightarrow>
      forget (call parse s b) = forget (exit q s' r)"
    and exit_rc: "step buf p s = Halt s' r \<Longrightarrow> fst (exit p s' r) \<noteq> NGX_AGAIN"
    and forget_rc: "fst (forget x) = fst x"
begin

lemma call_rc: "scan step (data b) (pos b) s = (q, Halt s' r) \<Longrightarrow> fst (call parse s b) \<noteq> NGX_AGAIN"
  using parse_Halt [of b s q s' r] scan_halt_step [of step "data b" "pos b" s q s' r] exit_rc
  by (metis forget_rc)

text \<open>Parsing does not depend on how the input is cut into pieces.\<close>

lemma feed_concat:
  "p = length xs \<Longrightarrow>
    forget (feed parse s \<lparr>data = xs, pos = p\<rparr> cs) =
    forget (call parse s \<lparr>data = xs @ concat cs, pos = p\<rparr>)"
proof (induction cs arbitrary: s xs p)
  case Nil
  then show ?case using parse_Go [of "\<lparr>data = xs, pos = p\<rparr>" s "length xs" s] by (simp add: call_def)
next
  case (Cons c cs)
  let ?b = "\<lparr>data = xs @ c, pos = p\<rparr>" and ?b' = "\<lparr>data = xs @ c @ concat cs, pos = p\<rparr>"
  obtain q x where sc: "scan step (xs @ c) p s = (q, x)" by (cases "scan step (xs @ c) p s")
  show ?case
  proof (cases x)
    case (Go s')
    then have q: "q = length (xs @ c)" using scan_go_end [of step "xs @ c" p s q s'] sc Cons.prems by simp
    have "scan step (xs @ c @ concat cs) p s = scan step (xs @ c @ concat cs) q s'"
      using scan_resume [of "xs @ c" p s q s' "concat cs"] sc Go Cons.prems by simp
    then have "forget (call parse s ?b') = forget (call parse s' (?b'\<lparr>pos := q\<rparr>))"
      using parse_Go [of ?b'] parse_Halt [of ?b'] parse_Go [of "?b'\<lparr>pos := q\<rparr>"] parse_Halt [of "?b'\<lparr>pos := q\<rparr>"]
      by (cases "scan step (xs @ c @ concat cs) q s'"; cases "snd (scan step (xs @ c @ concat cs) q s')")
        (auto simp: call_def)
    with Cons.IH [OF q, of s'] parse_Go [of ?b s q s'] sc Go show ?thesis by simp
  next
    case (Halt s' r)
    with sc have h: "scan step (xs @ c) p s = (q, Halt s' r)" by simp
    then have "scan step (xs @ c @ concat cs) p s = (q, Halt s' r)"
      using scan_stops_early [of "xs @ c" p s q s' r "concat cs"] Cons.prems by simp
    with parse_Halt [of ?b'] parse_Halt [of ?b s] call_rc [of ?b s] h show ?thesis
      by (auto simp: call_def split: prod.splits)
  qed
qed

end

end
