(* ===== verification/Http_Request_Line.thy ===== *)
theory Http_Request_Line
  imports Http_Scan
begin

text \<open>
  \<open>ngx_http_parse_request_line\<close> of \<^verbatim>\<open>src/http/ngx_http_parse.c\<close>. The record holds the fields
  of \<open>ngx_http_request_t\<close> the function reads or writes; pointers are offsets into the buffer.
  The body of the loop is split by groups of states the way the switch lists them; a fall
  through is a call of the next state's function, and \<open>p--\<close> followed by the loop's \<open>p++\<close> is
  the same byte given to the new state.
\<close>

section \<open>State\<close>

datatype http_method =
    NGX_HTTP_UNKNOWN | NGX_HTTP_GET | NGX_HTTP_HEAD | NGX_HTTP_POST | NGX_HTTP_PUT
  | NGX_HTTP_DELETE | NGX_HTTP_MKCOL | NGX_HTTP_COPY | NGX_HTTP_MOVE | NGX_HTTP_OPTIONS
  | NGX_HTTP_PROPFIND | NGX_HTTP_PROPPATCH | NGX_HTTP_LOCK | NGX_HTTP_UNLOCK
  | NGX_HTTP_PATCH | NGX_HTTP_TRACE

datatype rl_state =
    sw_start | sw_method | sw_spaces_before_uri | sw_schema | sw_schema_slash
  | sw_schema_slash_slash | sw_host_start | sw_host | sw_host_end | sw_host_ip_literal
  | sw_port | sw_host_http_09 | sw_after_slash_in_uri | sw_check_uri
  | sw_check_uri_http_09 | sw_uri | sw_http_09 | sw_http_H | sw_http_HT | sw_http_HTT
  | sw_http_HTTP | sw_first_major_digit | sw_major_digit | sw_first_minor_digit
  | sw_minor_digit | sw_spaces_after_digit | sw_almost_done

record request =
  rl_state :: rl_state
  request_start :: nat
  request_end :: "nat option"
  method_end :: nat
  http_method :: http_method
  schema_start :: "nat option"
  schema_end :: nat
  host_start :: "nat option"
  host_end :: "nat option"
  port_end :: "nat option"
  uri_start :: nat
  uri_end :: nat
  uri_ext :: "nat option"
  args_start :: "nat option"
  http_protocol :: "nat option"
  http_major :: nat
  http_minor :: nat
  http_version :: nat
  complex_uri :: bool
  quoted_uri :: bool
  plus_in_uri :: bool
  space_in_uri :: bool

text \<open>The request as \<open>ngx_http_create_request\<close> leaves it (zeroed memory, method unknown).\<close>

definition new_request :: request where
  "new_request = \<lparr> rl_state = sw_start, request_start = 0, request_end = None, method_end = 0,
     http_method = NGX_HTTP_UNKNOWN, schema_start = None, schema_end = 0, host_start = None,
     host_end = None, port_end = None, uri_start = 0, uri_end = 0, uri_ext = None,
     args_start = None, http_protocol = None, http_major = 0, http_minor = 0,
     http_version = 1000, complex_uri = False, quoted_uri = False, plus_in_uri = False,
     space_in_uri = False \<rparr>"

text \<open>How the loop ends other than by reaching \<open>b->last\<close>: \<open>goto done\<close> or \<open>return rc\<close>.\<close>

datatype loop_exit = Goto_done | Return ngx_rc

type_synonym rl_outcome = "(request, loop_exit) outcome"

abbreviation invalid_request :: "request \<Rightarrow> rl_outcome" where
  "invalid_request r \<equiv> Halt r (Return NGX_HTTP_PARSE_INVALID_REQUEST)"

abbreviation goto :: "rl_state \<Rightarrow> request \<Rightarrow> rl_outcome" where
  "goto st r \<equiv> Go (r\<lparr>rl_state := st\<rparr>)"

section \<open>The method\<close>

text \<open>
  The switch on the length \<open>p - m\<close> of the method and the comparison macros, on the bytes from
  \<open>r->request_start\<close> to the space; a method that is not recognised leaves \<open>r->method\<close> as it is.
\<close>

definition ngx_http_method :: "bytes \<Rightarrow> http_method \<Rightarrow> http_method" where
  "ngx_http_method m old =
     (case m of
        [m0, m1, m2] \<Rightarrow>
          if [m0, m1, m2] = [ch_G, ch_E, ch_T] then NGX_HTTP_GET
          else if [m0, m1, m2] = [ch_P, ch_U, ch_T] then NGX_HTTP_PUT
          else old
      | [m0, m1, m2, m3] \<Rightarrow>
          if m1 = ch_O then
            if m0 = ch_P \<and> m2 = ch_S \<and> m3 = ch_T then NGX_HTTP_POST
            else if m0 = ch_C \<and> m2 = ch_P \<and> m3 = ch_Y then NGX_HTTP_COPY
            else if m0 = ch_M \<and> m2 = ch_V \<and> m3 = ch_E then NGX_HTTP_MOVE
            else if m0 = ch_L \<and> m2 = ch_C \<and> m3 = ch_K then NGX_HTTP_LOCK
            else old
          else if [m0, m1, m2, m3] = [ch_H, ch_E, ch_A, ch_D] then NGX_HTTP_HEAD
          else old
      | [m0, m1, m2, m3, m4] \<Rightarrow>
          if m = [ch_M, ch_K, ch_C, ch_O, ch_L] then NGX_HTTP_MKCOL
          else if m = [ch_P, ch_A, ch_T, ch_C, ch_H] then NGX_HTTP_PATCH
          else if m = [ch_T, ch_R, ch_A, ch_C, ch_E] then NGX_HTTP_TRACE
          else old
      | [m0, m1, m2, m3, m4, m5] \<Rightarrow>
          if m = [ch_D, ch_E, ch_L, ch_E, ch_T, ch_E] then NGX_HTTP_DELETE
          else if m = [ch_U, ch_N, ch_L, ch_O, ch_C, ch_K] then NGX_HTTP_UNLOCK
          else old
      | [m0, m1, m2, m3, m4, m5, m6] \<Rightarrow>
          if m = [ch_O, ch_P, ch_T, ch_I, ch_O, ch_N, ch_S] then NGX_HTTP_OPTIONS else old
      | [m0, m1, m2, m3, m4, m5, m6, m7] \<Rightarrow>
          if m = [ch_P, ch_R, ch_O, ch_P, ch_F, ch_I, ch_N, ch_D] then NGX_HTTP_PROPFIND else old
      | [m0, m1, m2, m3, m4, m5, m6, m7, m8] \<Rightarrow>
          if m = [ch_P, ch_R, ch_O, ch_P, ch_P, ch_A, ch_T, ch_C, ch_H] then NGX_HTTP_PROPPATCH
          else old
      | _ \<Rightarrow> old)"

definition not_method_char :: "u8 \<Rightarrow> bool" where
  "not_method_char ch \<longleftrightarrow>
     (ch < ch_A \<or> ch > ch_Z) \<and> ch \<noteq> ch_underscore \<and> ch \<noteq> ch_minus"

definition rl_start :: "nat \<Rightarrow> u8 \<Rightarrow> request \<Rightarrow> rl_outcome" where
  "rl_start p ch r =
     (let r = r\<lparr>request_start := p\<rparr> in
      if ch = CR \<or> ch = LF then Go r
      else if not_method_char ch then Halt r (Return NGX_HTTP_PARSE_INVALID_METHOD)
      else goto sw_method r)"

definition rl_method :: "bytes \<Rightarrow> nat \<Rightarrow> u8 \<Rightarrow> request \<Rightarrow> rl_outcome" where
  "rl_method buf p ch r =
     (if ch = SP then
        let m = drop (request_start r) (take p buf);
            r = r\<lparr>method_end := p - 1, http_method := ngx_http_method m (http_method r)\<rparr>
        in goto sw_spaces_before_uri r
      else if not_method_char ch then Halt r (Return NGX_HTTP_PARSE_INVALID_METHOD)
      else Go r)"

section \<open>Schema, host and port\<close>

definition rl_spaces_before_uri :: "nat \<Rightarrow> u8 \<Rightarrow> request \<Rightarrow> rl_outcome" where
  "rl_spaces_before_uri p ch r =
     (if ch = ch_slash then goto sw_after_slash_in_uri (r\<lparr>uri_start := p\<rparr>)
      else if is_alpha ch then goto sw_schema (r\<lparr>schema_start := Some p\<rparr>)
      else if ch = SP then Go r
      else invalid_request r)"

definition rl_schema :: "nat \<Rightarrow> u8 \<Rightarrow> request \<Rightarrow> rl_outcome" where
  "rl_schema p ch r =
     (if is_alpha ch then Go r
      else if ch = ch_colon then goto sw_schema_slash (r\<lparr>schema_end := p\<rparr>)
      else invalid_request r)"

text \<open>A state that accepts one character and moves on.\<close>

definition rl_expect :: "u8 \<Rightarrow> rl_state \<Rightarrow> u8 \<Rightarrow> request \<Rightarrow> rl_outcome" where
  "rl_expect c st ch r = (if ch = c then goto st r else invalid_request r)"

text \<open>
  A request line that ends after the host: the URI is the single slash after the schema.
\<close>

definition use_schema_slash :: "request \<Rightarrow> request" where
  "use_schema_slash r = r\<lparr>uri_start := schema_end r + 1, uri_end := schema_end r + 2\<rparr>"

definition rl_host_end :: "nat \<Rightarrow> u8 \<Rightarrow> request \<Rightarrow> rl_outcome" where
  "rl_host_end p ch r =
     (let r = r\<lparr>host_end := Some p\<rparr> in
      if ch = ch_colon then goto sw_port r
      else if ch = ch_slash then goto sw_after_slash_in_uri (r\<lparr>uri_start := p\<rparr>)
      else if ch = SP then goto sw_host_http_09 (use_schema_slash r)
      else invalid_request r)"

definition rl_host :: "nat \<Rightarrow> u8 \<Rightarrow> request \<Rightarrow> rl_outcome" where
  "rl_host p ch r =
     (if is_alpha ch then Go r
      else if (ch_0 \<le> ch \<and> ch \<le> ch_9) \<or> ch = ch_dot \<or> ch = ch_minus then Go r
      else rl_host_end p ch r)"

definition rl_host_start :: "nat \<Rightarrow> u8 \<Rightarrow> request \<Rightarrow> rl_outcome" where
  "rl_host_start p ch r =
     (let r = r\<lparr>host_start := Some p\<rparr> in
      if ch = ch_lbracket then goto sw_host_ip_literal r
      else rl_host p ch (r\<lparr>rl_state := sw_host\<rparr>))"

definition rl_host_ip_literal :: "u8 \<Rightarrow> request \<Rightarrow> rl_outcome" where
  "rl_host_ip_literal ch r =
     (if ch_0 \<le> ch \<and> ch \<le> ch_9 then Go r
      else if is_alpha ch then Go r
      else if ch = ch_colon then Go r
      else if ch = ch_rbracket then goto sw_host_end r
      else if ch \<in> {ch_minus, ch_dot, ch_underscore, ch_tilde} then Go r
      else if ch \<in> {ch_bang, ch_dollar, ch_amp, ch_squote, ch_lparen, ch_rparen, ch_star,
                     ch_plus, ch_comma, ch_semi, ch_eq} then Go r
      else invalid_request r)"

definition rl_port :: "nat \<Rightarrow> u8 \<Rightarrow> request \<Rightarrow> rl_outcome" where
  "rl_port p ch r =
     (if ch_0 \<le> ch \<and> ch \<le> ch_9 then Go r
      else if ch = ch_slash
      then goto sw_after_slash_in_uri (r\<lparr>port_end := Some p, uri_start := p\<rparr>)
      else if ch = SP
      then goto sw_host_http_09 (use_schema_slash (r\<lparr>port_end := Some p\<rparr>))
      else invalid_request r)"

definition rl_host_http_09 :: "nat \<Rightarrow> u8 \<Rightarrow> request \<Rightarrow> rl_outcome" where
  "rl_host_http_09 p ch r =
     (if ch = SP then Go r
      else if ch = CR then goto sw_almost_done (r\<lparr>http_minor := 9\<rparr>)
      else if ch = LF then Halt (r\<lparr>http_minor := 9\<rparr>) Goto_done
      else if ch = ch_H then goto sw_http_H (r\<lparr>http_protocol := Some p\<rparr>)
      else invalid_request r)"

section \<open>The URI\<close>

definition rl_after_slash_in_uri :: "nat \<Rightarrow> u8 \<Rightarrow> request \<Rightarrow> rl_outcome" where
  "rl_after_slash_in_uri p ch r =
     (if is_usual ch then goto sw_check_uri r
      else if ch = SP then goto sw_check_uri_http_09 (r\<lparr>uri_end := p\<rparr>)
      else if ch = CR then goto sw_almost_done (r\<lparr>uri_end := p, http_minor := 9\<rparr>)
      else if ch = LF then Halt (r\<lparr>uri_end := p, http_minor := 9\<rparr>) Goto_done
      else if ch = ch_dot then goto sw_uri (r\<lparr>complex_uri := True\<rparr>)
      else if ch = ch_percent then goto sw_uri (r\<lparr>quoted_uri := True\<rparr>)
      else if ch = ch_slash then goto sw_uri (r\<lparr>complex_uri := True\<rparr>)
      else if ch = ch_quest then goto sw_uri (r\<lparr>args_start := Some (p + 1)\<rparr>)
      else if ch = ch_hash then goto sw_uri (r\<lparr>complex_uri := True\<rparr>)
      else if ch = ch_plus then Go (r\<lparr>plus_in_uri := True\<rparr>)
      else if ch = NUL then invalid_request r
      else goto sw_check_uri r)"

definition rl_check_uri :: "nat \<Rightarrow> u8 \<Rightarrow> request \<Rightarrow> rl_outcome" where
  "rl_check_uri p ch r =
     (if is_usual ch then Go r
      else if ch = ch_slash then goto sw_after_slash_in_uri (r\<lparr>uri_ext := None\<rparr>)
      else if ch = ch_dot then Go (r\<lparr>uri_ext := Some (p + 1)\<rparr>)
      else if ch = SP then goto sw_check_uri_http_09 (r\<lparr>uri_end := p\<rparr>)
      else if ch = CR then goto sw_almost_done (r\<lparr>uri_end := p, http_minor := 9\<rparr>)
      else if ch = LF then Halt (r\<lparr>uri_end := p, http_minor := 9\<rparr>) Goto_done
      else if ch = ch_percent then goto sw_uri (r\<lparr>quoted_uri := True\<rparr>)
      else if ch = ch_quest then goto sw_uri (r\<lparr>args_start := Some (p + 1)\<rparr>)
      else if ch = ch_hash then goto sw_uri (r\<lparr>complex_uri := True\<rparr>)
      else if ch = ch_plus then Go (r\<lparr>plus_in_uri := True\<rparr>)
      else if ch = NUL then invalid_request r
      else Go r)"

definition rl_check_uri_http_09 :: "nat \<Rightarrow> u8 \<Rightarrow> request \<Rightarrow> rl_outcome" where
  "rl_check_uri_http_09 p ch r =
     (if ch = SP then Go r
      else if ch = CR then goto sw_almost_done (r\<lparr>http_minor := 9\<rparr>)
      else if ch = LF then Halt (r\<lparr>http_minor := 9\<rparr>) Goto_done
      else if ch = ch_H then goto sw_http_H (r\<lparr>http_protocol := Some p\<rparr>)
      else rl_check_uri p ch (r\<lparr>space_in_uri := True, rl_state := sw_check_uri\<rparr>))"

definition rl_uri :: "nat \<Rightarrow> u8 \<Rightarrow> request \<Rightarrow> rl_outcome" where
  "rl_uri p ch r =
     (if is_usual ch then Go r
      else if ch = SP then goto sw_http_09 (r\<lparr>uri_end := p\<rparr>)
      else if ch = CR then goto sw_almost_done (r\<lparr>uri_end := p, http_minor := 9\<rparr>)
      else if ch = LF then Halt (r\<lparr>uri_end := p, http_minor := 9\<rparr>) Goto_done
      else if ch = ch_hash then Go (r\<lparr>complex_uri := True\<rparr>)
      else if ch = NUL then invalid_request r
      else Go r)"

definition rl_http_09 :: "nat \<Rightarrow> u8 \<Rightarrow> request \<Rightarrow> rl_outcome" where
  "rl_http_09 p ch r =
     (if ch = SP then Go r
      else if ch = CR then goto sw_almost_done (r\<lparr>http_minor := 9\<rparr>)
      else if ch = LF then Halt (r\<lparr>http_minor := 9\<rparr>) Goto_done
      else if ch = ch_H then goto sw_http_H (r\<lparr>http_protocol := Some p\<rparr>)
      else rl_uri p ch (r\<lparr>space_in_uri := True, rl_state := sw_uri\<rparr>))"

section \<open>The protocol version\<close>

definition rl_first_major_digit :: "u8 \<Rightarrow> request \<Rightarrow> rl_outcome" where
  "rl_first_major_digit ch r =
     (if ch < ch_1 \<or> ch > ch_9 then invalid_request r
      else goto sw_major_digit (r\<lparr>http_major := unat ch - 48\<rparr>))"

definition rl_major_digit :: "u8 \<Rightarrow> request \<Rightarrow> rl_outcome" where
  "rl_major_digit ch r =
     (if ch = ch_dot then goto sw_first_minor_digit r
      else if ch < ch_0 \<or> ch > ch_9 then invalid_request r
      else if http_major r > 99 then invalid_request r
      else Go (r\<lparr>http_major := http_major r * 10 + unat ch - 48\<rparr>))"

definition rl_first_minor_digit :: "u8 \<Rightarrow> request \<Rightarrow> rl_outcome" where
  "rl_first_minor_digit ch r =
     (if ch < ch_0 \<or> ch > ch_9 then invalid_request r
      else goto sw_minor_digit (r\<lparr>http_minor := unat ch - 48\<rparr>))"

definition rl_minor_digit :: "u8 \<Rightarrow> request \<Rightarrow> rl_outcome" where
  "rl_minor_digit ch r =
     (if ch = CR then goto sw_almost_done r
      else if ch = LF then Halt r Goto_done
      else if ch = SP then goto sw_spaces_after_digit r
      else if ch < ch_0 \<or> ch > ch_9 then invalid_request r
      else if http_minor r > 99 then invalid_request r
      else Go (r\<lparr>http_minor := http_minor r * 10 + unat ch - 48\<rparr>))"

definition rl_spaces_after_digit :: "u8 \<Rightarrow> request \<Rightarrow> rl_outcome" where
  "rl_spaces_after_digit ch r =
     (if ch = SP then Go r
      else if ch = CR then goto sw_almost_done r
      else if ch = LF then Halt r Goto_done
      else invalid_request r)"

definition rl_almost_done :: "nat \<Rightarrow> u8 \<Rightarrow> request \<Rightarrow> rl_outcome" where
  "rl_almost_done p ch r =
     (let r = r\<lparr>request_end := Some (p - 1)\<rparr> in
      if ch = LF then Halt r Goto_done else invalid_request r)"

section \<open>The parser\<close>

definition rl_step :: "bytes \<Rightarrow> nat \<Rightarrow> request \<Rightarrow> rl_outcome" where
  "rl_step buf p r =
     (let ch = buf ! p in
      case rl_state r of
        sw_start \<Rightarrow> rl_start p ch r
      | sw_method \<Rightarrow> rl_method buf p ch r
      | sw_spaces_before_uri \<Rightarrow> rl_spaces_before_uri p ch r
      | sw_schema \<Rightarrow> rl_schema p ch r
      | sw_schema_slash \<Rightarrow> rl_expect ch_slash sw_schema_slash_slash ch r
      | sw_schema_slash_slash \<Rightarrow> rl_expect ch_slash sw_host_start ch r
      | sw_host_start \<Rightarrow> rl_host_start p ch r
      | sw_host \<Rightarrow> rl_host p ch r
      | sw_host_end \<Rightarrow> rl_host_end p ch r
      | sw_host_ip_literal \<Rightarrow> rl_host_ip_literal ch r
      | sw_port \<Rightarrow> rl_port p ch r
      | sw_host_http_09 \<Rightarrow> rl_host_http_09 p ch r
      | sw_after_slash_in_uri \<Rightarrow> rl_after_slash_in_uri p ch r
      | sw_check_uri \<Rightarrow> rl_check_uri p ch r
      | sw_check_uri_http_09 \<Rightarrow> rl_check_uri_http_09 p ch r
      | sw_uri \<Rightarrow> rl_uri p ch r
      | sw_http_09 \<Rightarrow> rl_http_09 p ch r
      | sw_http_H \<Rightarrow> rl_expect ch_T sw_http_HT ch r
      | sw_http_HT \<Rightarrow> rl_expect ch_T sw_http_HTT ch r
      | sw_http_HTT \<Rightarrow> rl_expect ch_P sw_http_HTTP ch r
      | sw_http_HTTP \<Rightarrow> rl_expect ch_slash sw_first_major_digit ch r
      | sw_first_major_digit \<Rightarrow> rl_first_major_digit ch r
      | sw_major_digit \<Rightarrow> rl_major_digit ch r
      | sw_first_minor_digit \<Rightarrow> rl_first_minor_digit ch r
      | sw_minor_digit \<Rightarrow> rl_minor_digit ch r
      | sw_spaces_after_digit \<Rightarrow> rl_spaces_after_digit ch r
      | sw_almost_done \<Rightarrow> rl_almost_done p ch r)"

text \<open>The code after the label \<open>done\<close>.\<close>

definition rl_done :: "nat \<Rightarrow> request \<Rightarrow> ngx_rc \<times> request" where
  "rl_done p r =
     (let r = r\<lparr>request_end := (case request_end r of None \<Rightarrow> Some p | e \<Rightarrow> e),
                http_version := http_major r * 1000 + http_minor r,
                rl_state := sw_start\<rparr>
      in if http_version r = 9 \<and> http_method r \<noteq> NGX_HTTP_GET
         then (NGX_HTTP_PARSE_INVALID_09_METHOD, r) else (NGX_OK, r))"

text \<open>
  The result is the return code, the request and the buffer. A \<open>return\<close> from inside the loop
  leaves \<open>b->pos\<close> and \<open>r->state\<close> as they were.
\<close>

definition ngx_http_parse_request_line ::
  "request \<Rightarrow> ngx_buf_t \<Rightarrow> ngx_rc \<times> request \<times> ngx_buf_t" where
  "ngx_http_parse_request_line r b =
     (case scan rl_step (data b) (pos b) r of
        (p, Go r') \<Rightarrow> (NGX_AGAIN, r', b\<lparr>pos := p\<rparr>)
      | (p, Halt r' Goto_done) \<Rightarrow>
          (let (rc, r'') = rl_done p r' in (rc, r'', b\<lparr>pos := p + 1\<rparr>))
      | (p, Halt r' (Return rc)) \<Rightarrow> (rc, r'\<lparr>rl_state := rl_state r\<rparr>, b))"

lemmas rl_step_defs =
  rl_start_def rl_method_def rl_spaces_before_uri_def rl_schema_def rl_expect_def
  rl_host_end_def rl_host_def rl_host_start_def rl_host_ip_literal_def rl_port_def
  rl_host_http_09_def rl_after_slash_in_uri_def rl_check_uri_def rl_check_uri_http_09_def
  rl_uri_def rl_http_09_def rl_first_major_digit_def rl_major_digit_def
  rl_first_minor_digit_def rl_minor_digit_def rl_spaces_after_digit_def rl_almost_done_def
  use_schema_slash_def

section \<open>Independence of fragmentation\<close>

interpretation rl: resumable rl_step
proof
  fix p and xs ys :: bytes and r
  assume "p < length xs"
  then show "rl_step (xs @ ys) p r = rl_step xs p r"
    by (cases "rl_state r") (simp_all add: rl_step_def nth_append rl_method_def Let_def)
qed

lemma rl_Return_rc:
  "rl_step buf p r = Halt r' (Return rc) \<Longrightarrow>
    rc \<in> {NGX_HTTP_PARSE_INVALID_METHOD, NGX_HTTP_PARSE_INVALID_REQUEST}"
  by (auto simp: rl_step_def Let_def rl_step_defs split: rl_state.splits if_splits)

lemma scan_rl_Return_rc:
  assumes "scan rl_step buf p r = (q, Halt r' (Return rc))" "p \<le> length buf"
  shows "rc \<in> {NGX_HTTP_PARSE_INVALID_METHOD, NGX_HTTP_PARSE_INVALID_REQUEST}"
  using scan_rule [of "\<lambda>_ _. True" p r buf rl_step
      "\<lambda>_ _ x. \<forall>rc. x = Return rc \<longrightarrow>
        rc \<in> {NGX_HTTP_PARSE_INVALID_METHOD, NGX_HTTP_PARSE_INVALID_REQUEST}"] assms
  by (auto dest: rl_Return_rc)

definition rl_exit :: "nat \<Rightarrow> request \<Rightarrow> loop_exit \<Rightarrow> ngx_rc \<times> request" where
  "rl_exit p r x = (case x of Goto_done \<Rightarrow> rl_done p r | Return rc \<Rightarrow> (rc, r))"

definition forget_state :: "request \<Rightarrow> request" where
  "forget_state r = r\<lparr>rl_state := sw_start\<rparr>"

interpretation rl: incremental rl_step ngx_http_parse_request_line rl_exit "apsnd forget_state"
proof
  fix b :: ngx_buf_t and r q r'
  assume "scan rl_step (data b) (pos b) r = (q, Go r')"
  then show "ngx_http_parse_request_line r b = (NGX_AGAIN, r', b\<lparr>pos := q\<rparr>)"
    by (simp add: ngx_http_parse_request_line_def)
next
  fix b :: ngx_buf_t and r q r' x
  assume "scan rl_step (data b) (pos b) r = (q, Halt r' x)"
  then show "apsnd forget_state (call ngx_http_parse_request_line r b) = apsnd forget_state (rl_exit q r' x)"
    by (cases x) (auto simp: call_def ngx_http_parse_request_line_def rl_exit_def forget_state_def
        split: prod.splits)
next
  fix buf p r r' x
  assume "rl_step buf p r = Halt r' x"
  with rl_Return_rc [of buf p r r'] show "fst (rl_exit p r' x) \<noteq> NGX_AGAIN"
    by (cases x) (auto simp: rl_exit_def rl_done_def Let_def)
next
  fix x :: "ngx_rc \<times> request"
  show "fst (apsnd forget_state x) = fst x" by simp
qed

section \<open>Recognising the method\<close>

definition method_table :: "(bytes \<times> http_method) list" where
  "method_table =
     [(bytes_of ''GET'', NGX_HTTP_GET), (bytes_of ''HEAD'', NGX_HTTP_HEAD),
      (bytes_of ''POST'', NGX_HTTP_POST), (bytes_of ''PUT'', NGX_HTTP_PUT),
      (bytes_of ''DELETE'', NGX_HTTP_DELETE), (bytes_of ''MKCOL'', NGX_HTTP_MKCOL),
      (bytes_of ''COPY'', NGX_HTTP_COPY), (bytes_of ''MOVE'', NGX_HTTP_MOVE),
      (bytes_of ''OPTIONS'', NGX_HTTP_OPTIONS), (bytes_of ''PROPFIND'', NGX_HTTP_PROPFIND),
      (bytes_of ''PROPPATCH'', NGX_HTTP_PROPPATCH), (bytes_of ''LOCK'', NGX_HTTP_LOCK),
      (bytes_of ''UNLOCK'', NGX_HTTP_UNLOCK), (bytes_of ''PATCH'', NGX_HTTP_PATCH),
      (bytes_of ''TRACE'', NGX_HTTP_TRACE)]"

lemma ngx_http_method_table:
  "ngx_http_method m old = (case map_of method_table m of Some x \<Rightarrow> x | None \<Rightarrow> old)"
  by (simp add: ngx_http_method_def method_table_def split: list.splits)

section \<open>Order of the pointers\<close>

text \<open>
  Schema, host and port are either all absent or found in this order after the method; every
  pointer is at most \<open>q\<close>.
\<close>

definition authority_ok :: "nat \<Rightarrow> request \<Rightarrow> bool" where
  "authority_ok q r \<longleftrightarrow>
     (case schema_start r of
        None \<Rightarrow> host_start r = None \<and> host_end r = None \<and> port_end r = None
      | Some s \<Rightarrow>
          method_end r < s \<and> s < schema_end r \<and> schema_end r + 3 \<le> q \<and>
          host_start r = Some (schema_end r + 3) \<and>
          (case host_end r of
             None \<Rightarrow> False
           | Some e \<Rightarrow> schema_end r + 3 \<le> e \<and> e \<le> q \<and>
               (case port_end r of None \<Rightarrow> True | Some pe \<Rightarrow> e < pe \<and> pe \<le> q)))"

text \<open>The pointers into the URI, for a URI that reaches up to \<open>e\<close>.\<close>

definition uri_ok :: "nat \<Rightarrow> request \<Rightarrow> bool" where
  "uri_ok e r \<longleftrightarrow>
     request_start r \<le> method_end r \<and> method_end r < uri_start r \<and> uri_start r < e \<and>
     (case args_start r of None \<Rightarrow> True | Some a \<Rightarrow> uri_start r < a \<and> a \<le> e) \<and>
     (case uri_ext r of None \<Rightarrow> True
      | Some x \<Rightarrow> uri_start r < x \<and> x \<le> e \<and>
          (case args_start r of None \<Rightarrow> True | Some a \<Rightarrow> x < a))"

definition closed_ok :: "nat \<Rightarrow> request \<Rightarrow> bool" where
  "closed_ok q r \<longleftrightarrow>
     authority_ok q r \<and> uri_ok (uri_end r) r \<and> uri_end r \<le> q \<and>
     (case http_protocol r of None \<Rightarrow> True | Some h \<Rightarrow> uri_end r \<le> h \<and> h \<le> q)"

definition fresh :: "request \<Rightarrow> bool" where
  "fresh r \<longleftrightarrow> request_end r = None \<and> http_protocol r = None \<and> http_major r = 0 \<and>
     http_minor r = 0"

definition no_uri :: "request \<Rightarrow> bool" where
  "no_uri r \<longleftrightarrow> uri_ext r = None \<and> args_start r = None"

definition no_authority :: "request \<Rightarrow> bool" where
  "no_authority r \<longleftrightarrow> schema_start r = None \<and> host_start r = None \<and> host_end r = None \<and>
     port_end r = None"

definition version_ok :: "request \<Rightarrow> bool" where
  "version_ok r \<longleftrightarrow> http_major r \<le> 999 \<and> http_minor r \<le> 999"

definition method_ok :: "nat \<Rightarrow> request \<Rightarrow> bool" where
  "method_ok p r \<longleftrightarrow> request_start r \<le> method_end r \<and> method_end r < p"

definition schema_ok :: "nat \<Rightarrow> request \<Rightarrow> bool" where
  "schema_ok p r \<longleftrightarrow> (\<exists>s. schema_start r = Some s \<and> request_start r \<le> method_end r \<and>
     method_end r < s \<and> s < p) \<and> port_end r = None"

definition schema_end_ok :: "nat \<Rightarrow> nat \<Rightarrow> request \<Rightarrow> bool" where
  "schema_end_ok k p r \<longleftrightarrow> (\<exists>s. schema_start r = Some s \<and> request_start r \<le> method_end r \<and>
     method_end r < s \<and> s < schema_end r) \<and> schema_end r + k = p \<and> port_end r = None"

definition host_ok :: "nat \<Rightarrow> request \<Rightarrow> bool" where
  "host_ok p r \<longleftrightarrow> (\<exists>s. schema_start r = Some s \<and> request_start r \<le> method_end r \<and>
     method_end r < s \<and> s < schema_end r) \<and> host_start r = Some (schema_end r + 3) \<and>
     schema_end r + 3 \<le> p \<and> port_end r = None"

definition rl_inv :: "nat \<Rightarrow> request \<Rightarrow> bool" where
  "rl_inv p r \<longleftrightarrow>
     (case rl_state r of
        sw_start \<Rightarrow> fresh r \<and> no_uri r \<and> no_authority r
      | sw_method \<Rightarrow> fresh r \<and> no_uri r \<and> no_authority r \<and> request_start r < p
      | sw_spaces_before_uri \<Rightarrow> fresh r \<and> no_uri r \<and> no_authority r \<and> method_ok p r
      | sw_schema \<Rightarrow> fresh r \<and> no_uri r \<and> schema_ok p r
      | sw_schema_slash \<Rightarrow> fresh r \<and> no_uri r \<and> schema_end_ok 1 p r
      | sw_schema_slash_slash \<Rightarrow> fresh r \<and> no_uri r \<and> schema_end_ok 2 p r
      | sw_host_start \<Rightarrow> fresh r \<and> no_uri r \<and> schema_end_ok 3 p r
      | sw_host \<Rightarrow> fresh r \<and> no_uri r \<and> host_ok p r
      | sw_host_end \<Rightarrow> fresh r \<and> no_uri r \<and> host_ok p r
      | sw_host_ip_literal \<Rightarrow> fresh r \<and> no_uri r \<and> host_ok p r
      | sw_port \<Rightarrow> fresh r \<and> no_uri r \<and> host_ok p r \<and>
          (\<exists>e. host_end r = Some e \<and> schema_end r + 3 \<le> e \<and> e < p)
      | sw_host_http_09 \<Rightarrow> fresh r \<and> closed_ok p r
      | sw_after_slash_in_uri \<Rightarrow> fresh r \<and> args_start r = None \<and> authority_ok p r \<and> uri_ok p r
      | sw_check_uri \<Rightarrow> fresh r \<and> args_start r = None \<and> authority_ok p r \<and> uri_ok p r
      | sw_check_uri_http_09 \<Rightarrow> fresh r \<and> args_start r = None \<and> closed_ok p r
      | sw_uri \<Rightarrow> fresh r \<and> authority_ok p r \<and> uri_ok p r
      | sw_http_09 \<Rightarrow> fresh r \<and> closed_ok p r
      | sw_almost_done \<Rightarrow> request_end r = None \<and> 0 < p \<and> closed_ok (p - 1) r \<and> version_ok r
      | _ \<Rightarrow> request_end r = None \<and> closed_ok p r \<and> version_ok r)"

lemmas rl_inv_defs =
  fresh_def no_uri_def no_authority_def version_ok_def method_ok_def schema_ok_def
  schema_end_ok_def host_ok_def closed_ok_def uri_ok_def authority_ok_def

lemma authority_ok_frame [simp]:
  "authority_ok q (r\<lparr>rl_state := st\<rparr>) = authority_ok q r"
  "authority_ok q (r\<lparr>request_end := e\<rparr>) = authority_ok q r"
  "authority_ok q (r\<lparr>uri_start := n\<rparr>) = authority_ok q r"
  "authority_ok q (r\<lparr>uri_end := n\<rparr>) = authority_ok q r"
  "authority_ok q (r\<lparr>uri_ext := e\<rparr>) = authority_ok q r"
  "authority_ok q (r\<lparr>args_start := e\<rparr>) = authority_ok q r"
  "authority_ok q (r\<lparr>http_protocol := e\<rparr>) = authority_ok q r"
  "authority_ok q (r\<lparr>http_major := n\<rparr>) = authority_ok q r"
  "authority_ok q (r\<lparr>http_minor := n\<rparr>) = authority_ok q r"
  "authority_ok q (r\<lparr>complex_uri := b\<rparr>) = authority_ok q r"
  "authority_ok q (r\<lparr>quoted_uri := b\<rparr>) = authority_ok q r"
  "authority_ok q (r\<lparr>plus_in_uri := b\<rparr>) = authority_ok q r"
  "authority_ok q (r\<lparr>space_in_uri := b\<rparr>) = authority_ok q r"
  by (simp_all add: authority_ok_def cong: option.case_cong)

lemma uri_ok_frame [simp]:
  "uri_ok q (r\<lparr>rl_state := st\<rparr>) = uri_ok q r"
  "uri_ok q (r\<lparr>request_end := e\<rparr>) = uri_ok q r"
  "uri_ok q (r\<lparr>uri_end := n\<rparr>) = uri_ok q r"
  "uri_ok q (r\<lparr>http_protocol := e\<rparr>) = uri_ok q r"
  "uri_ok q (r\<lparr>http_major := n\<rparr>) = uri_ok q r"
  "uri_ok q (r\<lparr>http_minor := n\<rparr>) = uri_ok q r"
  "uri_ok q (r\<lparr>complex_uri := b\<rparr>) = uri_ok q r"
  "uri_ok q (r\<lparr>quoted_uri := b\<rparr>) = uri_ok q r"
  "uri_ok q (r\<lparr>plus_in_uri := b\<rparr>) = uri_ok q r"
  "uri_ok q (r\<lparr>space_in_uri := b\<rparr>) = uri_ok q r"
  by (simp_all add: uri_ok_def cong: option.case_cong)

lemma authority_ok_Suc: "authority_ok p r \<Longrightarrow> authority_ok (Suc p) r"
  by (auto simp: authority_ok_def split: option.splits)

lemma uri_ok_mono: "uri_ok p r \<Longrightarrow> p \<le> q \<Longrightarrow> uri_ok q r"
  by (auto simp: uri_ok_def split: option.splits)

lemma uri_ok_Suc: "uri_ok p r \<Longrightarrow> uri_ok (Suc p) r"
  by (erule uri_ok_mono) simp

lemma uri_ok_ext [simp]: "uri_ok p r \<Longrightarrow> uri_ok p (r\<lparr>uri_ext := None\<rparr>)"
  by (auto simp: uri_ok_def split: option.splits)

lemma uri_ok_ext_Some: "uri_ok p r \<Longrightarrow> args_start r = None \<Longrightarrow> uri_ok (Suc p) (r\<lparr>uri_ext := Some (Suc p)\<rparr>)"
  by (auto simp: uri_ok_def split: option.splits)

lemma uri_ok_args: "uri_ok p r \<Longrightarrow> args_start r = None \<Longrightarrow> uri_ok (Suc p) (r\<lparr>args_start := Some (Suc p)\<rparr>)"
  by (auto simp: uri_ok_def split: option.splits)

definition rl_final :: "nat \<Rightarrow> request \<Rightarrow> bool" where
  "rl_final p r \<longleftrightarrow> version_ok r \<and>
     (case request_end r of None \<Rightarrow> closed_ok p r | Some e \<Rightarrow> closed_ok e r \<and> e < p)"

definition rl_post :: "nat \<Rightarrow> rl_outcome \<Rightarrow> bool" where
  "rl_post p out \<longleftrightarrow>
     (case out of Go r \<Rightarrow> rl_inv (Suc p) r
      | Halt r Goto_done \<Rightarrow> rl_final p r
      | Halt r (Return rc) \<Rightarrow> True)"

lemmas rl_uri_simps = rl_post_def rl_final_def rl_inv_def closed_ok_def fresh_def version_ok_def
    authority_ok_Suc uri_ok_Suc uri_ok_ext_Some uri_ok_args

lemma rl_after_slash_in_uri_post:
  "rl_state r = sw_after_slash_in_uri \<Longrightarrow> rl_inv p r \<Longrightarrow> rl_post p (rl_after_slash_in_uri p ch r)"
  by (simp add: rl_after_slash_in_uri_def rl_uri_simps)

lemma rl_check_uri_post:
  "rl_state r = sw_check_uri \<Longrightarrow> rl_inv p r \<Longrightarrow> rl_post p (rl_check_uri p ch r)"
  by (simp add: rl_check_uri_def rl_uri_simps)

lemma rl_uri_post: "rl_state r = sw_uri \<Longrightarrow> rl_inv p r \<Longrightarrow> rl_post p (rl_uri p ch r)"
  by (simp add: rl_uri_def rl_uri_simps)

lemma closed_ok_Suc: "closed_ok p r \<Longrightarrow> closed_ok (Suc p) r"
  by (auto simp: closed_ok_def authority_ok_Suc split: option.splits)

lemma rl_check_uri_http_09_post:
  assumes "rl_state r = sw_check_uri_http_09" "rl_inv p r"
  shows "rl_post p (rl_check_uri_http_09 p ch r)"
proof -
  have "rl_post p (rl_check_uri p ch (r\<lparr>space_in_uri := True, rl_state := sw_check_uri\<rparr>))"
    using assms by (intro rl_check_uri_post) (auto simp: rl_inv_def closed_ok_def fresh_def
      intro: uri_ok_mono)
  with assms show ?thesis by (simp add: rl_check_uri_http_09_def rl_uri_simps)
qed

lemma rl_http_09_post:
  assumes "rl_state r = sw_http_09" "rl_inv p r"
  shows "rl_post p (rl_http_09 p ch r)"
proof -
  have "rl_post p (rl_uri p ch (r\<lparr>space_in_uri := True, rl_state := sw_uri\<rparr>))"
    using assms by (intro rl_uri_post) (auto simp: rl_inv_def closed_ok_def fresh_def
      intro: uri_ok_mono)
  with assms show ?thesis by (simp add: rl_http_09_def rl_uri_simps)
qed


lemma rl_start_post: "rl_state r = sw_start \<Longrightarrow> rl_inv p r \<Longrightarrow> rl_post p (rl_start p ch r)"
  by (simp add: rl_start_def rl_post_def rl_inv_def fresh_def no_uri_def no_authority_def Let_def)

lemma rl_method_post:
  "rl_state r = sw_method \<Longrightarrow> rl_inv p r \<Longrightarrow> rl_post p (rl_method buf p ch r)"
  by (auto simp: rl_method_def rl_post_def rl_inv_def fresh_def no_uri_def no_authority_def
      method_ok_def Let_def)

lemma rl_spaces_before_uri_post:
  "rl_state r = sw_spaces_before_uri \<Longrightarrow> rl_inv p r \<Longrightarrow> rl_post p (rl_spaces_before_uri p ch r)"
  by (auto simp: rl_spaces_before_uri_def rl_post_def rl_inv_def fresh_def no_uri_def
      no_authority_def method_ok_def schema_ok_def uri_ok_def authority_ok_def)

lemma rl_schema_post: "rl_state r = sw_schema \<Longrightarrow> rl_inv p r \<Longrightarrow> rl_post p (rl_schema p ch r)"
  by (auto simp: rl_schema_def rl_post_def rl_inv_def fresh_def no_uri_def schema_ok_def
      schema_end_ok_def)

lemma rl_schema_slash_post:
  "rl_state r = sw_schema_slash \<Longrightarrow> rl_inv p r \<Longrightarrow>
    rl_post p (rl_expect ch_slash sw_schema_slash_slash ch r)"
  "rl_state r = sw_schema_slash_slash \<Longrightarrow> rl_inv p r \<Longrightarrow>
    rl_post p (rl_expect ch_slash sw_host_start ch r)"
  by (auto simp: rl_expect_def rl_post_def rl_inv_def fresh_def no_uri_def schema_end_ok_def)

lemma rl_host_end_post:
  assumes "fresh r" "no_uri r" "host_ok p r"
  shows "rl_post p (rl_host_end p ch r)"
  using assms
  by (auto simp: rl_host_end_def rl_post_def rl_inv_def fresh_def no_uri_def host_ok_def Let_def
      use_schema_slash_def closed_ok_def uri_ok_def authority_ok_def)

lemma rl_host_post:
  assumes "rl_state r = sw_host" "fresh r" "no_uri r" "host_ok p r"
  shows "rl_post p (rl_host p ch r)"
  using assms rl_host_end_post [of r p ch]
  by (auto simp: rl_host_def rl_post_def rl_inv_def host_ok_def)

lemma rl_host_start_post:
  assumes "rl_state r = sw_host_start" "rl_inv p r"
  shows "rl_post p (rl_host_start p ch r)"
proof -
  have "rl_post p (rl_host p ch (r\<lparr>host_start := Some p, rl_state := sw_host\<rparr>))"
    using assms by (intro rl_host_post)
      (auto simp: rl_inv_def fresh_def no_uri_def host_ok_def schema_end_ok_def)
  with assms show ?thesis
    by (auto simp: rl_host_start_def rl_post_def rl_inv_def fresh_def no_uri_def host_ok_def
        schema_end_ok_def Let_def)
qed

lemma rl_host_ip_literal_post:
  "rl_state r = sw_host_ip_literal \<Longrightarrow> rl_inv p r \<Longrightarrow> rl_post p (rl_host_ip_literal ch r)"
  by (auto simp: rl_host_ip_literal_def rl_post_def rl_inv_def fresh_def no_uri_def host_ok_def)

lemma rl_port_post: "rl_state r = sw_port \<Longrightarrow> rl_inv p r \<Longrightarrow> rl_post p (rl_port p ch r)"
  by (auto simp: rl_port_def rl_post_def rl_inv_def fresh_def no_uri_def host_ok_def Let_def
      use_schema_slash_def closed_ok_def uri_ok_def authority_ok_def)

lemma rl_host_http_09_post:
  "rl_state r = sw_host_http_09 \<Longrightarrow> rl_inv p r \<Longrightarrow> rl_post p (rl_host_http_09 p ch r)"
  by (simp add: rl_host_http_09_def rl_uri_simps)

lemma closed_ok_frame [simp]:
  "closed_ok q (r\<lparr>rl_state := st\<rparr>) = closed_ok q r"
  "closed_ok q (r\<lparr>request_end := e\<rparr>) = closed_ok q r"
  "closed_ok q (r\<lparr>http_major := n\<rparr>) = closed_ok q r"
  "closed_ok q (r\<lparr>http_minor := n\<rparr>) = closed_ok q r"
  by (simp_all add: closed_ok_def cong: option.case_cong)

lemma rl_expect_version_post:
  assumes "rl_state r \<in> {sw_http_H, sw_http_HT, sw_http_HTT, sw_http_HTTP}" "rl_inv p r"
    and "st \<in> {sw_http_HT, sw_http_HTT, sw_http_HTTP, sw_first_major_digit}"
  shows "rl_post p (rl_expect c st ch r)"
  using assms by (auto simp: rl_expect_def rl_post_def rl_inv_def version_ok_def closed_ok_Suc)

lemma rl_version_post:
  assumes "rl_inv p r"
  shows "rl_state r = sw_first_major_digit \<Longrightarrow> rl_post p (rl_first_major_digit ch r)"
    and "rl_state r = sw_major_digit \<Longrightarrow> rl_post p (rl_major_digit ch r)"
    and "rl_state r = sw_first_minor_digit \<Longrightarrow> rl_post p (rl_first_minor_digit ch r)"
    and "rl_state r = sw_minor_digit \<Longrightarrow> rl_post p (rl_minor_digit ch r)"
    and "rl_state r = sw_spaces_after_digit \<Longrightarrow> rl_post p (rl_spaces_after_digit ch r)"
    and "rl_state r = sw_almost_done \<Longrightarrow> rl_post p (rl_almost_done p ch r)"
  using assms
  by (auto simp: rl_first_major_digit_def rl_major_digit_def rl_first_minor_digit_def
      rl_minor_digit_def rl_spaces_after_digit_def rl_almost_done_def rl_post_def rl_final_def
      rl_inv_def version_ok_def closed_ok_Suc word_less_nat_alt Let_def)

lemma rl_step_post: "rl_inv p r \<Longrightarrow> rl_post p (rl_step buf p r)"
  by (cases "rl_state r")
    (simp_all add: rl_step_def Let_def rl_start_post rl_method_post rl_spaces_before_uri_post
      rl_schema_post rl_schema_slash_post rl_host_start_post rl_host_ip_literal_post rl_port_post
      rl_host_http_09_post rl_after_slash_in_uri_post rl_check_uri_post rl_uri_post
      rl_check_uri_http_09_post rl_http_09_post rl_expect_version_post rl_version_post
      rl_inv_def [of p r] rl_host_post rl_host_end_post)


lemma rl_inv_new_request: "rl_inv p new_request"
  by (simp add: rl_inv_def new_request_def fresh_def no_uri_def no_authority_def)

lemma rl_scan_post:
  assumes "rl_inv p r" "p \<le> length buf"
  shows "case scan rl_step buf p r of
      (q, Go r') \<Rightarrow> q = length buf \<and> rl_inv q r'
    | (q, Halt r' x) \<Rightarrow> p \<le> q \<and> q < length buf \<and> (x = Goto_done \<longrightarrow> rl_final q r')"
proof -
  have go: "rl_inv (Suc p) r'" if "rl_inv p r" "rl_step buf p r = Go r'" for p r r'
    using rl_step_post [OF that(1), of buf] that(2) by (simp add: rl_post_def)
  have fin: "x = Goto_done \<longrightarrow> rl_final p r'" if "rl_inv p r" "rl_step buf p r = Halt r' x" for p r r' x
    using rl_step_post [OF that(1), of buf] that(2) by (auto simp: rl_post_def)
  show ?thesis
    by (rule scan_rule [of rl_inv p r buf rl_step "\<lambda>q r' x. x = Goto_done \<longrightarrow> rl_final q r'"])
      (use assms go fin in auto)
qed

section \<open>Reading back a printed request line\<close>

text \<open>Method letters and URI bytes leave everything already found as it is.\<close>

lemma rl_scan_method:
  assumes "buf = pre @ m @ post" "list_all (\<lambda>c. \<not> not_method_char c) m" "rl_state r = sw_method"
    "SP \<notin> set m"
  shows "scan rl_step buf (length pre) r = scan rl_step buf (length (pre @ m)) r"
  using assms
proof (induction m arbitrary: pre)
  case (Cons c m)
  then have "rl_step buf (length pre) r = Go r"
    by (auto simp: rl_step_def rl_method_def nth_append)
  with Cons.prems have "scan rl_step buf (length pre) r = scan rl_step buf (length (pre @ [c])) r"
    by (intro scan_byte) auto
  with Cons.IH [of "pre @ [c]"] Cons.prems show ?case by simp
qed simp

definition uri_states :: "rl_state set" where
  "uri_states = {sw_after_slash_in_uri, sw_check_uri, sw_uri}"

definition same_found :: "request \<Rightarrow> request \<Rightarrow> bool" where
  "same_found r r' \<longleftrightarrow> request_start r' = request_start r \<and> method_end r' = method_end r \<and>
     http_method r' = http_method r \<and> uri_start r' = uri_start r \<and>
     request_end r' = request_end r"

definition uri_char :: "u8 \<Rightarrow> bool" where
  "uri_char c \<longleftrightarrow> c \<notin> {SP, CR, LF, NUL}"

lemma rl_step_uri_char:
  assumes "rl_state r \<in> uri_states" "uri_char (buf ! p)"
  shows "\<exists>r'. rl_step buf p r = Go r' \<and> rl_state r' \<in> uri_states \<and> same_found r r'"
  using assms
  by (auto simp: uri_states_def uri_char_def rl_step_def rl_after_slash_in_uri_def
      rl_check_uri_def rl_uri_def same_found_def Let_def)

lemma rl_scan_uri:
  assumes "buf = pre @ cs @ post" "list_all uri_char cs" "rl_state r \<in> uri_states"
  shows "\<exists>r'. scan rl_step buf (length pre) r = scan rl_step buf (length (pre @ cs)) r' \<and>
    rl_state r' \<in> uri_states \<and> same_found r r'"
  using assms
proof (induction cs arbitrary: pre r)
  case Nil
  then show ?case by (auto simp: same_found_def)
next
  case (Cons c cs)
  then obtain r1 where r1: "rl_step buf (length pre) r = Go r1" "rl_state r1 \<in> uri_states"
    "same_found r r1"
    using rl_step_uri_char [of r buf "length pre"] by auto
  with Cons.prems have s1: "scan rl_step buf (length pre) r = scan rl_step buf (length (pre @ [c])) r1"
    by (intro scan_byte) auto
  from Cons.IH [of "pre @ [c]" r1] Cons.prems r1 obtain r2 where
    "scan rl_step buf (length (pre @ [c])) r1 = scan rl_step buf (length (pre @ c # cs)) r2"
    "rl_state r2 \<in> uri_states" "same_found r1 r2" by auto
  with s1 r1 show ?case by (auto simp: same_found_def)
qed

definition request_line_text :: "bytes \<Rightarrow> bytes \<Rightarrow> nat \<Rightarrow> nat \<Rightarrow> bytes" where
  "request_line_text m uri maj mnr =
     m @ SP # uri @ SP # bytes_of ''HTTP/'' @ [digit_char maj, ch_dot, digit_char mnr, CR, LF]"

lemma unat_digit_char: "d \<le> 9 \<Longrightarrow> unat (digit_char d) = d + 48"
  using uint_digit_char [of d] by (simp add: unat_eq_nat_uint)

lemma rl_scan_version:
  assumes buf: "buf = pre @ SP # bytes_of ''HTTP/'' @ [digit_char maj, ch_dot, digit_char mnr, CR, LF] @ post"
    and st: "rl_state r \<in> uri_states" and maj: "1 \<le> maj" "maj \<le> 9" and mnr: "mnr \<le> 9"
  shows "\<exists>r'. scan rl_step buf (length pre) r = (length pre + 10, Halt r' Goto_done) \<and>
    same_found (r\<lparr>request_end := Some (length pre + 9)\<rparr>) r' \<and> uri_end r' = length pre \<and> http_major r' = maj \<and>
    http_minor r' = mnr"
proof -
  have dg: "unat (digit_char maj) = maj + 48" "unat (digit_char mnr) = mnr + 48"
    using unat_digit_char maj mnr by auto
  have d1: "digit_char maj \<ge> ch_1" "digit_char maj \<le> ch_9" "digit_char mnr \<ge> ch_0" "digit_char mnr \<le> ch_9"
    "digit_char mnr \<noteq> CR" "digit_char mnr \<noteq> LF" "digit_char mnr \<noteq> SP"
    using dg maj mnr by (auto simp: word_le_nat_alt)
  show ?thesis
    using st maj mnr dg d1 unfolding buf
    by (auto simp: uri_states_def scan.simps rl_step_def nth_append rl_after_slash_in_uri_def
      rl_check_uri_def rl_uri_def rl_check_uri_http_09_def rl_http_09_def rl_expect_def
      rl_first_major_digit_def rl_major_digit_def rl_first_minor_digit_def rl_minor_digit_def
      rl_almost_done_def is_usual_iff same_found_def Let_def)
qed


lemma rl_scan_start:
  assumes "list_all (\<lambda>c. \<not> not_method_char c) m" "m \<noteq> []"
    and buf: "buf = m @ SP # ch_slash # post"
  shows "scan rl_step buf 0 new_request =
    scan rl_step buf (length m + 2) (new_request\<lparr>request_start := 0, method_end := length m - 1,
      http_method := ngx_http_method m NGX_HTTP_UNKNOWN, uri_start := length m + 1,
      rl_state := sw_after_slash_in_uri\<rparr>)"
proof -
  obtain c m' where m: "m = c # m'" using assms(2) by (cases m) auto
  with assms(1) have c: "\<not> not_method_char c" "list_all (\<lambda>c. \<not> not_method_char c) m'" by simp_all
  then have nc: "c \<noteq> CR" "c \<noteq> LF" by (auto simp: not_method_char_def)
  have "\<not> not_method_char x \<Longrightarrow> x \<noteq> SP" for x by (auto simp: not_method_char_def)
  with c have sp: "SP \<notin> set m'" by (auto simp: list_all_iff)
  let ?r1 = "new_request\<lparr>request_start := 0, rl_state := sw_method\<rparr>"
  let ?r2 = "?r1\<lparr>method_end := length m - 1, http_method := ngx_http_method m NGX_HTTP_UNKNOWN,
      rl_state := sw_spaces_before_uri\<rparr>"
  have "scan rl_step buf 0 new_request = scan rl_step buf (length [c]) ?r1"
    using c nc m buf scan_byte [of buf "[]" c "m' @ SP # ch_slash # post" rl_step new_request ?r1]
    by (simp add: rl_step_def rl_start_def new_request_def)
  also have "\<dots> = scan rl_step buf (length ([c] @ m')) ?r1"
    using c sp m buf by (intro rl_scan_method [where post = "SP # ch_slash # post"]) simp_all
  also have "\<dots> = scan rl_step buf (length m) ?r1" using m by simp
  also have "\<dots> = scan rl_step buf (length (m @ [SP])) ?r2"
    using buf by (intro scan_byte [where post = "ch_slash # post"])
      (simp_all add: rl_step_def rl_method_def new_request_def Let_def)
  also have "\<dots> = scan rl_step buf (length ((m @ [SP]) @ [ch_slash]))
      (?r2\<lparr>uri_start := length (m @ [SP]), rl_state := sw_after_slash_in_uri\<rparr>)"
    using buf by (intro scan_byte [where post = post])
      (simp_all add: rl_step_def rl_spaces_before_uri_def nth_append)
  finally show ?thesis by (simp add: new_request_def)
qed

section \<open>Properties\<close>

text \<open>
  C3. The request line parser does not depend on how the input arrives: feeding the bytes in
  any number of pieces of any sizes, with one call per piece from the saved state, ends with
  the same return code and the same request as one call on the whole input. (\<open>r->state\<close> is left
  out of the comparison, since an error return does not store it.)
\<close>

theorem request_line_fragmentation:
  "apsnd forget_state (feed ngx_http_parse_request_line r \<lparr>data = [], pos = 0\<rparr> pieces) =
   apsnd forget_state (call ngx_http_parse_request_line r \<lparr>data = concat pieces, pos = 0\<rparr>)"
  using rl.feed_concat [of 0 "[]" r pieces] by simp

lemma request_line_accepted:
  assumes "ngx_http_parse_request_line new_request b = (NGX_OK, r, b')" "pos b \<le> length (data b)"
  shows "\<exists>e. request_end r = Some e \<and> closed_ok e r \<and> e < pos b' \<and> pos b' \<le> length (data b) \<and>
    http_version r = http_major r * 1000 + http_minor r \<and> version_ok r"
proof -
  obtain q x where sc: "scan rl_step (data b) (pos b) new_request = (q, x)"
    by (cases "scan rl_step (data b) (pos b) new_request")
  note post = rl_scan_post [OF rl_inv_new_request assms(2), unfolded sc]
  from assms sc scan_rl_Return_rc [of "data b" "pos b" new_request q]
  obtain r1 where x: "x = Halt r1 Goto_done" and fin_eq: "rl_done q r1 = (NGX_OK, r)" "pos b' = q + 1"
    by (auto simp: ngx_http_parse_request_line_def split: outcome.splits loop_exit.splits prod.splits)
  from post x have fin: "rl_final q r1" "q < length (data b)" by simp_all
  from fin_eq(1) have r: "r = r1\<lparr>request_end := (case request_end r1 of None \<Rightarrow> Some q | e \<Rightarrow> e),
      http_version := http_major r1 * 1000 + http_minor r1, rl_state := sw_start\<rparr>"
    by (auto simp: rl_done_def Let_def split: if_splits)
  have frame: "closed_ok e (r2\<lparr>http_version := v\<rparr>) = closed_ok e r2" for e v r2
    by (simp add: closed_ok_def authority_ok_def uri_ok_def cong: option.case_cong)
  from fin r fin_eq show ?thesis
    by (auto simp: rl_final_def version_ok_def frame split: option.splits)
qed

text \<open>
  C7. When the request line parser returns \<open>NGX_OK\<close>, every pair of pointers that the caller
  subtracts is in order and inside the input: method, schema, host, port, URI, extension,
  arguments and protocol are slices of the request line, the line ends before the new
  \<open>b->pos\<close>, which is inside the buffer, and both version numbers are at most 999.
\<close>

theorem request_line_pointers:
  assumes "ngx_http_parse_request_line new_request b = (NGX_OK, r, b')" "pos b \<le> length (data b)"
  shows "\<exists>e. request_end r = Some e \<and> closed_ok e r \<and> e < pos b' \<and> pos b' \<le> length (data b) \<and>
    http_version r = http_major r * 1000 + http_minor r \<and> version_ok r"
  using request_line_accepted [OF assms] .

theorem request_line_pointers_witness:
  "\<exists>r b'. ngx_http_parse_request_line new_request \<lparr>data = bytes_of ''GET /'' @ [LF], pos = 0\<rparr> =
      (NGX_OK, r, b') \<and> (\<exists>e. request_end r = Some e \<and> closed_ok e r \<and> e < pos b')"
proof -
  obtain r b' where eq: "ngx_http_parse_request_line new_request
      \<lparr>data = bytes_of ''GET /'' @ [LF], pos = 0\<rparr> = (NGX_OK, r, b')"
    by (simp add: ngx_http_parse_request_line_def scan.simps rl_step_def rl_start_def
        rl_method_def rl_spaces_before_uri_def rl_after_slash_in_uri_def is_usual_iff
        new_request_def not_method_char_def rl_done_def ngx_http_method_def)
  with request_line_pointers [OF eq] show ?thesis by auto
qed

text \<open>
  The switch on the length of the method and its word-sized comparisons recognise exactly
  the fifteen methods of the table, whatever the token is; any other token leaves the method
  as it was.
\<close>

theorem method_recognition:
  "ngx_http_method m old = (case map_of method_table m of Some x \<Rightarrow> x | None \<Rightarrow> old)"
  by (rule ngx_http_method_table)

text \<open>
  C13. A printed request line is read back: for every method token, every URI that starts with
  a slash and has no space, CR, LF or NUL, and every version from 1.0 to 9.9, the parser
  returns \<open>NGX_OK\<close>, consumes exactly the line, and the slices it found are the method and the URI.
\<close>

theorem request_line_roundtrip:
  assumes "list_all (\<lambda>c. \<not> not_method_char c) m" "m \<noteq> []" "list_all uri_char cs"
    and "1 \<le> maj" "maj \<le> 9" "mnr \<le> 9"
  shows "\<exists>r. ngx_http_parse_request_line new_request
      \<lparr>data = request_line_text m (ch_slash # cs) maj mnr @ rest, pos = 0\<rparr> =
      (NGX_OK, r, \<lparr>data = request_line_text m (ch_slash # cs) maj mnr @ rest,
                   pos = length (request_line_text m (ch_slash # cs) maj mnr)\<rparr>) \<and>
    slice (request_start r) (method_end r + 1) (request_line_text m (ch_slash # cs) maj mnr) = m \<and>
    slice (uri_start r) (uri_end r) (request_line_text m (ch_slash # cs) maj mnr) = ch_slash # cs \<and>
    http_method r = (case map_of method_table m of Some x \<Rightarrow> x | None \<Rightarrow> NGX_HTTP_UNKNOWN) \<and>
    http_version r = maj * 1000 + mnr"
proof -
  let ?line = "request_line_text m (ch_slash # cs) maj mnr"
  let ?buf = "?line @ rest"
  let ?ver = "SP # bytes_of ''HTTP/'' @ [digit_char maj, ch_dot, digit_char mnr, CR, LF] @ rest"
  let ?r0 = "new_request\<lparr>request_start := 0, method_end := length m - 1,
      http_method := ngx_http_method m NGX_HTTP_UNKNOWN, uri_start := length m + 1,
      rl_state := sw_after_slash_in_uri\<rparr>"
  let ?pre = "m @ [SP, ch_slash]"
  have buf: "?buf = ?pre @ cs @ ?ver" by (simp add: request_line_text_def)
  have s1: "scan rl_step ?buf 0 new_request = scan rl_step ?buf (length ?pre) ?r0"
    using rl_scan_start [OF assms(1,2), of ?buf "cs @ ?ver"] by (simp add: request_line_text_def)
  obtain r1 where r1: "scan rl_step ?buf (length ?pre) ?r0 = scan rl_step ?buf (length (?pre @ cs)) r1"
    "rl_state r1 \<in> uri_states" "same_found ?r0 r1"
    using rl_scan_uri [OF buf assms(3), of ?r0] by (auto simp: uri_states_def)
  obtain r2 where r2: "scan rl_step ?buf (length (?pre @ cs)) r1 =
      (length (?pre @ cs) + 10, Halt r2 Goto_done)"
    "same_found (r1\<lparr>request_end := Some (length (?pre @ cs) + 9)\<rparr>) r2"
    "uri_end r2 = length (?pre @ cs)" "http_major r2 = maj" "http_minor r2 = mnr"
    using rl_scan_version [of ?buf "?pre @ cs" maj mnr rest r1] r1(2) assms(4-6) buf by auto
  have len: "length ?line = length (?pre @ cs) + 11" by (simp add: request_line_text_def)
  have "slice 0 (length m - 1 + 1) ?line = m" "slice (length m + 1) (length (?pre @ cs)) ?line = ch_slash # cs"
    using assms(2) by (simp_all add: slice_def request_line_text_def)
  then show ?thesis
    using s1 r1 r2 assms(4) len
    by (auto simp: ngx_http_parse_request_line_def rl_done_def Let_def same_found_def
        ngx_http_method_table new_request_def)
qed

theorem request_line_roundtrip_witness:
  "\<exists>r. ngx_http_parse_request_line new_request
      \<lparr>data = request_line_text (bytes_of ''GET'') (bytes_of ''/a'') 1 1, pos = 0\<rparr> =
      (NGX_OK, r, \<lparr>data = request_line_text (bytes_of ''GET'') (bytes_of ''/a'') 1 1, pos = 17\<rparr>) \<and>
    http_method r = NGX_HTTP_GET \<and> http_version r = 1001"
  using request_line_roundtrip [of "bytes_of ''GET''" "bytes_of ''a''" 1 1 "[]"]
  by (auto simp: not_method_char_def uri_char_def request_line_text_def method_table_def)

end
