(* ===== verification/Http_Uri.thy ===== *)
theory Http_Uri
  imports Http_Request_Line Ngx_Escape
begin

text \<open>
  The URI functions of \<^verbatim>\<open>src/http/ngx_http_parse.c\<close>: \<open>ngx_http_parse_uri\<close> (the scan that only
  sets flags), \<open>ngx_http_parse_complex_uri\<close> (decoding and normalisation),
  \<open>ngx_http_parse_unsafe_uri\<close> and \<open>ngx_http_split_args\<close>, and \<open>ngx_http_process_request_uri\<close> of
  \<^verbatim>\<open>src/http/ngx_http_request.c\<close>, which chooses between the URI as it was sent and the
  normalised one.

  A URI is the byte list \<open>[uri_start, uri_end)\<close>; offsets are relative to its start. The
  output buffer of the normaliser is the list of the bytes before \<open>u\<close>: bytes at and after \<open>u\<close>
  are never read before they are written again.
\<close>

section \<open>The quick scan\<close>

datatype pu_state = pu_start | pu_after_slash_in_uri | pu_check_uri | pu_uri

record uri_flags =
  pu_state :: pu_state
  pu_complex_uri :: bool
  pu_quoted_uri :: bool
  pu_plus_in_uri :: bool
  pu_space_in_uri :: bool
  pu_uri_ext :: "nat option"
  pu_args_start :: "nat option"

definition no_uri_flags :: uri_flags where
  "no_uri_flags = \<lparr> pu_state = pu_start, pu_complex_uri = False, pu_quoted_uri = False,
     pu_plus_in_uri = False, pu_space_in_uri = False, pu_uri_ext = None, pu_args_start = None \<rparr>"

definition pu_step :: "nat \<Rightarrow> u8 \<Rightarrow> uri_flags \<Rightarrow> uri_flags option" where
  "pu_step p ch f =
     (case pu_state f of
        pu_start \<Rightarrow>
          if ch \<noteq> ch_slash then None else Some (f\<lparr>pu_state := pu_after_slash_in_uri\<rparr>)
      | pu_after_slash_in_uri \<Rightarrow>
          if is_usual ch then Some (f\<lparr>pu_state := pu_check_uri\<rparr>)
          else if ch = SP then Some (f\<lparr>pu_space_in_uri := True, pu_state := pu_check_uri\<rparr>)
          else if ch = ch_dot then Some (f\<lparr>pu_complex_uri := True, pu_state := pu_uri\<rparr>)
          else if ch = ch_percent then Some (f\<lparr>pu_quoted_uri := True, pu_state := pu_uri\<rparr>)
          else if ch = ch_slash then Some (f\<lparr>pu_complex_uri := True, pu_state := pu_uri\<rparr>)
          else if ch = ch_quest then Some (f\<lparr>pu_args_start := Some (p + 1), pu_state := pu_uri\<rparr>)
          else if ch = ch_hash then Some (f\<lparr>pu_complex_uri := True, pu_state := pu_uri\<rparr>)
          else if ch = ch_plus then Some (f\<lparr>pu_plus_in_uri := True\<rparr>)
          else Some (f\<lparr>pu_state := pu_check_uri\<rparr>)
      | pu_check_uri \<Rightarrow>
          if is_usual ch then Some f
          else if ch = ch_slash then Some (f\<lparr>pu_uri_ext := None, pu_state := pu_after_slash_in_uri\<rparr>)
          else if ch = ch_dot then Some (f\<lparr>pu_uri_ext := Some (p + 1)\<rparr>)
          else if ch = SP then Some (f\<lparr>pu_space_in_uri := True\<rparr>)
          else if ch = ch_percent then Some (f\<lparr>pu_quoted_uri := True, pu_state := pu_uri\<rparr>)
          else if ch = ch_quest then Some (f\<lparr>pu_args_start := Some (p + 1), pu_state := pu_uri\<rparr>)
          else if ch = ch_hash then Some (f\<lparr>pu_complex_uri := True, pu_state := pu_uri\<rparr>)
          else if ch = ch_plus then Some (f\<lparr>pu_plus_in_uri := True\<rparr>)
          else Some f
      | pu_uri \<Rightarrow>
          if is_usual ch then Some f
          else if ch = SP then Some (f\<lparr>pu_space_in_uri := True\<rparr>)
          else if ch = ch_hash then Some (f\<lparr>pu_complex_uri := True\<rparr>)
          else Some f)"

fun pu_loop :: "nat \<Rightarrow> bytes \<Rightarrow> uri_flags \<Rightarrow> uri_flags option" where
  "pu_loop p [] f = Some f"
| "pu_loop p (ch # rest) f =
     (case pu_step p ch f of None \<Rightarrow> None | Some f' \<Rightarrow> pu_loop (Suc p) rest f')"

text \<open>\<open>None\<close> is \<open>NGX_ERROR\<close>.\<close>

definition ngx_http_parse_uri :: "bytes \<Rightarrow> uri_flags \<Rightarrow> uri_flags option" where
  "ngx_http_parse_uri uri f = pu_loop 0 uri (f\<lparr>pu_state := pu_start\<rparr>)"

section \<open>The normaliser\<close>

text \<open>
  \<open>quoted_state\<close> is only read in the two quoted states, which therefore carry it, and it only
  ever holds one of the four plain states; \<open>decoded\<close> is carried by the second.
\<close>

datatype plain_state = cu_usual | cu_slash | cu_dot | cu_dot_dot

datatype cu_state = Plain plain_state | Quoted plain_state | Quoted_second plain_state u8

record cu_rec =
  cu_state :: cu_state
  cu_out :: bytes
  cu_uri_ext :: "nat option"
  cu_plus_in_uri :: bool
  cu_quoted_uri :: bool

text \<open>
  What one turn of the loop does: read the next byte, go round again with a decoded byte, or
  leave the loop.
\<close>

datatype cu_turn = Next cu_rec | Again u8 cu_rec | Args cu_rec | Done cu_rec | Invalid

definition cu_put :: "plain_state \<Rightarrow> u8 \<Rightarrow> cu_rec \<Rightarrow> cu_rec" where
  "cu_put st ch c = c\<lparr>cu_state := Plain st, cu_out := cu_out c @ [ch]\<rparr>"

text \<open>The common end of the switches: \<open>'%'\<close>, \<open>'?'\<close>, \<open>'#'\<close>, \<open>'+'\<close> and the default.\<close>

definition cu_other :: "plain_state \<Rightarrow> u8 \<Rightarrow> cu_rec \<Rightarrow> cu_turn" where
  "cu_other st ch c =
     (if ch = ch_percent then Next (c\<lparr>cu_state := Quoted st\<rparr>)
      else if ch = ch_quest then Args c
      else if ch = ch_hash then Done c
      else if ch = ch_plus then Next (cu_put cu_usual ch (c\<lparr>cu_plus_in_uri := True\<rparr>))
      else Next (cu_put cu_usual ch c))"

definition cu_usual_turn :: "u8 \<Rightarrow> cu_rec \<Rightarrow> cu_turn" where
  "cu_usual_turn ch c =
     (if is_usual ch then Next (cu_put cu_usual ch c)
      else if ch = ch_slash then Next (cu_put cu_slash ch (c\<lparr>cu_uri_ext := None\<rparr>))
      else if ch = ch_dot
      then Next (cu_put cu_usual ch (c\<lparr>cu_uri_ext := Some (length (cu_out c) + 1)\<rparr>))
      else cu_other cu_usual ch c)"

definition cu_slash_turn :: "bool \<Rightarrow> u8 \<Rightarrow> cu_rec \<Rightarrow> cu_turn" where
  "cu_slash_turn merge_slashes ch c =
     (if is_usual ch then Next (cu_put cu_usual ch c)
      else if ch = ch_slash then Next (if \<not> merge_slashes then cu_put cu_slash ch c else c)
      else if ch = ch_dot then Next (cu_put cu_dot ch c)
      else cu_other cu_slash ch c)"

definition cu_dot_turn :: "u8 \<Rightarrow> cu_rec \<Rightarrow> cu_turn" where
  "cu_dot_turn ch c =
     (if is_usual ch then Next (cu_put cu_usual ch c)
      else if ch = ch_slash then Next (c\<lparr>cu_state := Plain cu_slash, cu_out := butlast (cu_out c)\<rparr>)
      else if ch = ch_dot then Next (cu_put cu_dot_dot ch c)
      else cu_other cu_dot ch c)"

text \<open>
  \<open>u -= 5\<close>, then back to the nearest slash: the bytes up to and with that slash stay;
  \<open>None\<close> when \<open>u\<close> runs below \<open>r->uri.data\<close>. The argument is reversed.
\<close>

fun back_to_slash :: "bytes \<Rightarrow> bytes option" where
  "back_to_slash [] = None"
| "back_to_slash (c # cs) = (if c = ch_slash then Some (c # cs) else back_to_slash cs)"

definition cu_parent :: "bytes \<Rightarrow> bytes option" where
  "cu_parent out = map_option rev (back_to_slash (rev (take (length out - 4) out)))"

definition cu_dot_dot_turn :: "u8 \<Rightarrow> cu_rec \<Rightarrow> cu_turn" where
  "cu_dot_dot_turn ch c =
     (if is_usual ch then Next (cu_put cu_usual ch c)
      else if ch = ch_slash then
        (case cu_parent (cu_out c) of
           None \<Rightarrow> Invalid
         | Some out \<Rightarrow> Next (c\<lparr>cu_state := Plain cu_slash, cu_out := out\<rparr>))
      else cu_other cu_dot_dot ch c)"

definition cu_quoted_turn :: "plain_state \<Rightarrow> u8 \<Rightarrow> cu_rec \<Rightarrow> cu_turn" where
  "cu_quoted_turn st ch c0 =
     (let c = c0\<lparr>cu_quoted_uri := True\<rparr> in
      if ch_0 \<le> ch \<and> ch \<le> ch_9 then Next (c\<lparr>cu_state := Quoted_second st (ch - ch_0)\<rparr>)
      else let c1 = ch OR 0x20 in
        if ch_a \<le> c1 \<and> c1 \<le> ch_f then Next (c\<lparr>cu_state := Quoted_second st (c1 - ch_a + 10)\<rparr>)
        else Invalid)"

definition cu_quoted_second_turn :: "plain_state \<Rightarrow> u8 \<Rightarrow> u8 \<Rightarrow> cu_rec \<Rightarrow> cu_turn" where
  "cu_quoted_second_turn st decoded ch c =
     (if ch_0 \<le> ch \<and> ch \<le> ch_9 then
        let ch = push_bit 4 decoded + ch - ch_0 in
        if ch = ch_percent \<or> ch = ch_hash then Next (cu_put cu_usual ch c)
        else if ch = NUL then Invalid
        else Again ch (c\<lparr>cu_state := Plain st\<rparr>)
      else let c1 = ch OR 0x20 in
        if ch_a \<le> c1 \<and> c1 \<le> ch_f then
          let ch = push_bit 4 decoded + c1 - ch_a + 10 in
          if ch = ch_quest then Next (cu_put cu_usual ch c)
          else if ch = ch_plus then Again ch (c\<lparr>cu_plus_in_uri := True, cu_state := Plain st\<rparr>)
          else Again ch (c\<lparr>cu_state := Plain st\<rparr>)
        else Invalid)"

definition cu_turn_of :: "bool \<Rightarrow> u8 \<Rightarrow> cu_rec \<Rightarrow> cu_turn" where
  "cu_turn_of merge_slashes ch c =
     (case cu_state c of
        Plain cu_usual \<Rightarrow> cu_usual_turn ch c
      | Plain cu_slash \<Rightarrow> cu_slash_turn merge_slashes ch c
      | Plain cu_dot \<Rightarrow> cu_dot_turn ch c
      | Plain cu_dot_dot \<Rightarrow> cu_dot_dot_turn ch c
      | Quoted st \<Rightarrow> cu_quoted_turn st ch c
      | Quoted_second st decoded \<Rightarrow> cu_quoted_second_turn st decoded ch c)"

text \<open>How the loop ends: at the end of the URI or at \<open>'#'\<close> (\<open>done\<close>), or at \<open>'?'\<close> with the text after it (\<open>args\<close>).\<close>

datatype cu_end = End_done cu_rec | End_args cu_rec bytes | End_invalid

text \<open>
  \<open>ch\<close> is the byte read last and \<open>rest\<close> the bytes of the URI from \<open>p\<close> on; reading past the last
  one ends the loop. Going round again with a decoded byte leaves the quoted states, which is
  why the loop ends.
\<close>

definition is_second :: "cu_rec \<Rightarrow> nat" where
  "is_second c = (case cu_state c of Quoted_second _ _ \<Rightarrow> 1 | _ \<Rightarrow> 0)"

lemma cu_again_second:
  "cu_turn_of merge_slashes ch c = Again ch' c' \<Longrightarrow>
    (\<exists>st d. cu_state c = Quoted_second st d) \<and> (\<exists>st. cu_state c' = Plain st)"
  by (auto simp: cu_turn_of_def cu_usual_turn_def cu_slash_turn_def cu_dot_turn_def
      cu_dot_dot_turn_def cu_other_def cu_quoted_turn_def cu_quoted_second_turn_def Let_def
      split: cu_state.splits plain_state.splits if_splits option.splits)

function cu_loop :: "bool \<Rightarrow> u8 \<Rightarrow> bytes \<Rightarrow> cu_rec \<Rightarrow> cu_end" where
  "cu_loop merge_slashes ch rest c =
     (case cu_turn_of merge_slashes ch c of
        Next c' \<Rightarrow> (case rest of [] \<Rightarrow> End_done c' | ch' # rest' \<Rightarrow> cu_loop merge_slashes ch' rest' c')
      | Again ch' c' \<Rightarrow> cu_loop merge_slashes ch' rest c'
      | Args c' \<Rightarrow> End_args c' rest
      | Done c' \<Rightarrow> End_done c'
      | Invalid \<Rightarrow> End_invalid)"
  by pat_completeness auto

termination
proof (relation "measures [\<lambda>(m, ch, rest, c). length rest, \<lambda>(m, ch, rest, c). is_second c]", goal_cases)
  case (3 m ch rest c ch' c')
  then show ?case by (auto simp: is_second_def dest: cu_again_second)
qed auto

declare cu_loop.simps [simp del]

record parsed_uri =
  p_uri :: bytes
  p_exten :: "bytes option"
  p_args_start :: "nat option"
  p_args :: "bytes option"
  p_plus_in_uri :: bool
  p_quoted_uri :: bool

definition cu_result :: "cu_rec \<Rightarrow> nat option \<Rightarrow> bytes option \<Rightarrow> parsed_uri" where
  "cu_result c astart ar =
     \<lparr> p_uri = cu_out c,
       p_exten = map_option (\<lambda>x. drop x (cu_out c)) (cu_uri_ext c),
       p_args_start = astart, p_args = ar,
       p_plus_in_uri = cu_plus_in_uri c, p_quoted_uri = cu_quoted_uri c \<rparr>"

text \<open>
  After \<open>args\<close>: a \<open>'#'\<close> in the arguments cuts them there and clears \<open>args_start\<close>; otherwise
  \<open>args_start\<close> keeps pointing behind the \<open>'?'\<close>.
\<close>

definition ngx_http_parse_complex_uri :: "bytes \<Rightarrow> bool \<Rightarrow> bool \<Rightarrow> bool \<Rightarrow> parsed_uri option" where
  "ngx_http_parse_complex_uri uri merge_slashes plus_in quoted =
     (let c = \<lparr>cu_state = Plain cu_usual, cu_out = [], cu_uri_ext = None,
               cu_plus_in_uri = plus_in, cu_quoted_uri = quoted\<rparr> in
      case (case uri of [] \<Rightarrow> End_done c | ch # rest \<Rightarrow> cu_loop merge_slashes ch rest c) of
        End_invalid \<Rightarrow> None
      | End_done c' \<Rightarrow> Some (cu_result c' None None)
      | End_args c' rest \<Rightarrow>
          if ch_hash \<in> set rest
          then Some (cu_result c' None (Some (takeWhile (\<lambda>ch. ch \<noteq> ch_hash) rest)))
          else Some (cu_result c' (Some (length uri - length rest)) None))"


section \<open>Choosing the URI of a request\<close>

record uri_result =
  r_uri :: bytes
  r_unparsed_uri :: bytes
  r_valid_unparsed_uri :: bool
  r_exten :: bytes
  r_args :: bytes

definition NGX_HTTP_BAD_REQUEST :: nat where
  "NGX_HTTP_BAD_REQUEST = 400"

definition NGX_HTTP_INTERNAL_SERVER_ERROR :: nat where
  "NGX_HTTP_INTERNAL_SERVER_ERROR = 500"

text \<open>The length computed first; a buffer of one byte more is allocated for the normaliser.\<close>

definition raw_uri_len :: "bytes \<Rightarrow> uri_flags \<Rightarrow> nat" where
  "raw_uri_len uri f = (case pu_args_start f of Some a \<Rightarrow> a - 1 | None \<Rightarrow> length uri)"

text \<open>What follows the choice: \<open>unparsed_uri\<close>, \<open>exten\<close> and \<open>args\<close>, from the pointers left by the parser.\<close>

definition finish_request_uri ::
  "bytes \<Rightarrow> bool \<Rightarrow> nat option \<Rightarrow> nat option \<Rightarrow> uri_result \<Rightarrow> uri_result" where
  "finish_request_uri uri space ext astart r =
     (let r = r\<lparr>r_unparsed_uri := uri, r_valid_unparsed_uri := \<not> space\<rparr>;
          r = (case ext of
                 Some x \<Rightarrow> r\<lparr>r_exten := drop x (case astart of Some a \<Rightarrow> take (a - 1) uri | None \<Rightarrow> uri)\<rparr>
               | None \<Rightarrow> r)
      in case astart of
           Some a \<Rightarrow> if length uri > a then r\<lparr>r_args := drop a uri\<rparr> else r
         | None \<Rightarrow> r)"

text \<open>
  \<open>alloc_ok\<close> says whether \<open>ngx_pnalloc\<close> succeeds. \<open>Inl\<close> carries the status the request is
  finished with when \<open>NGX_ERROR\<close> is returned.
\<close>

definition ngx_http_process_request_uri ::
  "bool \<Rightarrow> bool \<Rightarrow> bytes \<Rightarrow> uri_flags \<Rightarrow> uri_result \<Rightarrow> nat + uri_result" where
  "ngx_http_process_request_uri alloc_ok merge_slashes uri f r =
     (if pu_complex_uri f \<or> pu_quoted_uri f then
        if \<not> alloc_ok then Inl NGX_HTTP_INTERNAL_SERVER_ERROR
        else case ngx_http_parse_complex_uri uri merge_slashes (pu_plus_in_uri f) (pu_quoted_uri f) of
          None \<Rightarrow> Inl NGX_HTTP_BAD_REQUEST
        | Some p \<Rightarrow>
            let r = r\<lparr>r_uri := p_uri p\<rparr>;
                r = (case p_exten p of Some e \<Rightarrow> r\<lparr>r_exten := e\<rparr> | None \<Rightarrow> r);
                r = (case p_args p of Some a \<Rightarrow> r\<lparr>r_args := a\<rparr> | None \<Rightarrow> r)
            in Inr (finish_request_uri uri (pu_space_in_uri f) None (p_args_start p) r)
      else Inr (finish_request_uri uri (pu_space_in_uri f) (pu_uri_ext f) (pu_args_start f)
                 (r\<lparr>r_uri := take (raw_uri_len uri f) uri\<rparr>)))"

section \<open>URIs from untrusted headers\<close>

text \<open>
  The test for a leading \<open>".."\<close> segment, written three times in the code with \<open>len\<close> counting
  from different places; \<open>ngx_path_separator\<close> is \<open>'/'\<close> on Unix.
\<close>

definition dot_dot_segment :: "bytes \<Rightarrow> bool" where
  "dot_dot_segment p =
     (case p of
        a # b # rest \<Rightarrow> a = ch_dot \<and> b = ch_dot \<and> (case rest of [] \<Rightarrow> True | c # _ \<Rightarrow> c = ch_slash)
      | _ \<Rightarrow> False)"

text \<open>The first pass: \<open>None\<close> is \<open>unsafe\<close>; otherwise the quoted flag, the path and the arguments.\<close>

fun unsafe_scan :: "bool \<Rightarrow> bytes \<Rightarrow> (bool \<times> bytes \<times> bytes option) option" where
  "unsafe_scan quoted [] = Some (quoted, [], None)"
| "unsafe_scan quoted (ch # p) =
     (if ch = ch_percent then map_option (\<lambda>(q, u, a). (q, ch # u, a)) (unsafe_scan True p)
      else if is_usual ch then map_option (\<lambda>(q, u, a). (q, ch # u, a)) (unsafe_scan quoted p)
      else if ch = ch_quest then Some (quoted, [], Some p)
      else if ch = NUL then None
      else if ch = ch_slash \<and> dot_dot_segment p then None
      else map_option (\<lambda>(q, u, a). (q, ch # u, a)) (unsafe_scan quoted p))"

text \<open>The second pass, over the unescaped path.\<close>

fun unsafe_rescan :: "bytes \<Rightarrow> bool" where
  "unsafe_rescan [] = True"
| "unsafe_rescan (ch # p) =
     (if ch = NUL then False
      else if ch = ch_slash \<and> dot_dot_segment p then False
      else unsafe_rescan p)"

text \<open>\<open>NGX_ERROR\<close> is \<open>None\<close>; success gives the new \<open>uri\<close> and the arguments, if they were set.\<close>

definition ngx_http_parse_unsafe_uri :: "bool \<Rightarrow> bytes \<Rightarrow> (bytes \<times> bytes option) option" where
  "ngx_http_parse_unsafe_uri alloc_ok uri =
     (if uri = [] \<or> hd uri = ch_quest then None
      else if dot_dot_segment uri then None
      else case unsafe_scan False uri of
        None \<Rightarrow> None
      | Some (quoted, u, a) \<Rightarrow>
          if \<not> quoted then Some (u, a)
          else if \<not> alloc_ok then None
          else let d = fst (ngx_unescape_uri no_flags u) in
            if dot_dot_segment d then None
            else if unsafe_rescan d then Some (d, a) else None)"

definition ngx_http_split_args :: "bytes \<Rightarrow> bytes \<times> bytes" where
  "ngx_http_split_args uri =
     (if ch_quest \<in> set uri
      then (takeWhile (\<lambda>c. c \<noteq> ch_quest) uri, tl (dropWhile (\<lambda>c. c \<noteq> ch_quest) uri))
      else (uri, []))"


section \<open>Reference: paths as lists of segments\<close>

fun segments :: "bytes \<Rightarrow> bytes list" where
  "segments [] = [[]]"
| "segments (c # cs) =
     (if c = ch_slash then [] # segments cs
      else case segments cs of s # ss \<Rightarrow> (c # s) # ss | [] \<Rightarrow> [[c]])"

definition join_path :: "bytes list \<Rightarrow> bytes" where
  "join_path ss = concat (map (Cons ch_slash) ss)"

text \<open>
  Resolution of the segments after the leading slash: empty segments and \<open>"."\<close> are dropped,
  \<open>".."\<close> removes the segment before it and fails at the root. The last segment is kept as it
  is, whatever it is. The first argument is the stack of the segments kept so far.
\<close>

fun resolve :: "bytes list \<Rightarrow> bytes list \<Rightarrow> bytes list option" where
  "resolve stk [] = Some (rev stk)"
| "resolve stk [s] = Some (rev (s # stk))"
| "resolve stk (s # s' # ss) =
     (if s = [] \<or> s = [ch_dot] then resolve stk (s' # ss)
      else if s = [ch_dot, ch_dot]
      then (case stk of [] \<Rightarrow> None | _ # stk' \<Rightarrow> resolve stk' (s' # ss))
      else resolve (s # stk) (s' # ss))"

text \<open>
  Percent decoding up to an unquoted \<open>'?'\<close> or \<open>'#'\<close>: the decoded path and the text after
  \<open>'?'\<close>. A quoted NUL and a bad hexadecimal digit are errors; an incomplete escape at the end
  of the URI is dropped.
\<close>

fun decode_path :: "bytes \<Rightarrow> (bytes \<times> bytes option) option" where
  "decode_path [] = Some ([], None)"
| "decode_path (ch # cs) =
     (if ch = ch_quest then Some ([], Some cs)
      else if ch = ch_hash then Some ([], None)
      else if ch = ch_percent then
        (case cs of
           [] \<Rightarrow> Some ([], None)
         | h # hs \<Rightarrow>
             (case (hex_digit h, hs) of
                (None, _) \<Rightarrow> None
              | (Some _, []) \<Rightarrow> Some ([], None)
              | (Some a, l # ls) \<Rightarrow>
                  (case hex_digit l of
                     None \<Rightarrow> None
                   | Some b \<Rightarrow>
                       if 16 * a + b = 0 then None
                       else map_option (apfst (Cons (word_of_int (16 * a + b)))) (decode_path ls))))
      else map_option (apfst (Cons ch)) (decode_path cs))"

definition normal_path :: "bytes \<Rightarrow> (bytes \<times> bytes option) option" where
  "normal_path path =
     (case decode_path path of
        None \<Rightarrow> None
      | Some (d, a) \<Rightarrow> map_option (\<lambda>ss. (join_path ss, a)) (resolve [] (segments d)))"

lemma segments_not_Nil [simp]: "segments cs \<noteq> []"
  by (induction cs) (auto split: list.splits)

lemma segments_plain: "ch_slash \<notin> set s \<Longrightarrow> segments s = [s]"
  by (induction s) auto

lemma segments_append_slash: "ch_slash \<notin> set s \<Longrightarrow> segments (s @ ch_slash # cs) = s # segments cs"
  by (induction s) auto

lemma segments_no_slash: "s \<in> set (segments cs) \<Longrightarrow> ch_slash \<notin> set s"
proof (induction cs arbitrary: s)
  case (Cons c cs)
  obtain t ts where "segments cs = t # ts" by (cases "segments cs") auto
  with Cons show ?case by (auto split: if_splits)
qed simp

section \<open>The normaliser against the reference\<close>

text \<open>The plain state is determined by the segment being written.\<close>

definition segment_state :: "bytes \<Rightarrow> plain_state" where
  "segment_state s =
     (if s = [] then cu_slash else if s = [ch_dot] then cu_dot
      else if s = [ch_dot, ch_dot] then cu_dot_dot else cu_usual)"

definition good_segment :: "bytes \<Rightarrow> bool" where
  "good_segment s \<longleftrightarrow> ch_slash \<notin> set s \<and> segment_state s = cu_usual"

definition cu_rel :: "cu_rec \<Rightarrow> bytes list \<Rightarrow> bytes \<Rightarrow> bool" where
  "cu_rel c stk cur \<longleftrightarrow>
     cu_state c = Plain (segment_state cur) \<and> cu_out c = join_path (rev (cur # stk)) \<and>
     list_all good_segment stk \<and> ch_slash \<notin> set cur"

lemma back_to_slash_skip: "ch_slash \<notin> set xs \<Longrightarrow> back_to_slash (xs @ ch_slash # ys) = Some (ch_slash # ys)"
  by (induction xs) auto

lemma cu_parent_root: "cu_parent (join_path (rev [[ch_dot, ch_dot]])) = None"
  by (simp add: cu_parent_def join_path_def)

lemma cu_parent_segment:
  assumes "good_segment s"
  shows "cu_parent (join_path (rev ([ch_dot, ch_dot] # s # stk))) = Some (join_path (rev ([] # stk)))"
proof -
  from assms obtain s' x where s: "s = s' @ [x]" "ch_slash \<notin> set s'"
    by (cases s rule: rev_cases) (auto simp: good_segment_def segment_state_def)
  define p where "p = join_path (rev stk)"
  have "cu_parent (p @ ch_slash # s' @ [x, ch_slash, ch_dot, ch_dot]) = Some (p @ [ch_slash])"
    by (simp add: cu_parent_def s(2) back_to_slash_skip)
  then show ?thesis by (simp add: join_path_def p_def s)
qed

lemma segment_state_snoc:
  "segment_state (cur @ [ch]) =
    (if ch = ch_dot then
       (case segment_state cur of cu_slash \<Rightarrow> cu_dot | cu_dot \<Rightarrow> cu_dot_dot | _ \<Rightarrow> cu_usual)
     else cu_usual)"
  by (cases cur rule: rev_cases) (auto simp: segment_state_def append_eq_Cons_conv)

lemma join_path_snoc: "join_path (ss @ [cur @ [ch]]) = join_path (ss @ [cur]) @ [ch]"
  by (simp add: join_path_def)

text \<open>A byte other than \<open>'/'\<close> extends the current segment.\<close>

lemmas cu_turn_defs = cu_turn_of_def cu_usual_turn_def cu_slash_turn_def cu_dot_turn_def
  cu_dot_dot_turn_def cu_other_def cu_put_def

lemma cu_turn_char:
  assumes "cu_rel c stk cur" "ch \<notin> {ch_percent, ch_quest, ch_hash, ch_slash}"
  shows "\<exists>c'. cu_turn_of True ch c = Next c' \<and> cu_rel c' stk (cur @ [ch])"
  using assms
  by (cases "segment_state cur")
    (auto simp: cu_turn_defs cu_rel_def segment_state_snoc join_path_snoc is_usual_iff)

lemma cu_put_literal:
  assumes "cu_rel c stk cur" "ch \<in> {ch_percent, ch_quest, ch_hash}"
  shows "cu_rel (cu_put cu_usual ch c) stk (cur @ [ch])"
  using assms by (auto simp: cu_put_def cu_rel_def segment_state_snoc join_path_snoc)

lemma segment_state_cases:
  "segment_state cur = cu_slash \<longleftrightarrow> cur = []"
  "segment_state cur = cu_dot \<longleftrightarrow> cur = [ch_dot]"
  "segment_state cur = cu_dot_dot \<longleftrightarrow> cur = [ch_dot, ch_dot]"
  by (simp_all add: segment_state_def)

lemma cu_turn_slash:
  assumes "cu_rel c stk cur"
  shows "case (if cur = [] \<or> cur = [ch_dot] then Some stk
               else if cur = [ch_dot, ch_dot] then (case stk of [] \<Rightarrow> None | _ # stk' \<Rightarrow> Some stk')
               else Some (cur # stk)) of
           None \<Rightarrow> cu_turn_of True ch_slash c = Invalid
         | Some stk' \<Rightarrow> \<exists>c'. cu_turn_of True ch_slash c = Next c' \<and> cu_rel c' stk' []"
proof (cases "segment_state cur")
  case cu_usual
  with assms show ?thesis
    by (auto simp: cu_turn_defs cu_rel_def segment_state_def is_usual_iff join_path_def
        good_segment_def split: if_splits)
next
  case cu_slash
  with assms show ?thesis
    by (auto simp: cu_turn_defs cu_rel_def segment_state_cases is_usual_iff segment_state_def)
next
  case cu_dot
  with assms show ?thesis
    by (auto simp: cu_turn_defs cu_rel_def segment_state_cases is_usual_iff join_path_def
        segment_state_def butlast_append)
next
  case cu_dot_dot
  with assms show ?thesis
    using cu_parent_root cu_parent_segment
    by (cases stk) (auto simp: cu_turn_defs cu_rel_def segment_state_cases is_usual_iff segment_state_def)
qed


lemma cu_turn_step:
  assumes "cu_rel c stk cur" "ch \<notin> {ch_percent, ch_quest, ch_hash}"
  shows "(cu_turn_of True ch c = Invalid \<and> (\<forall>d. resolve stk (segments (cur @ ch # d)) = None)) \<or>
    (\<exists>c' stk' cur'. cu_turn_of True ch c = Next c' \<and> cu_rel c' stk' cur' \<and>
       (\<forall>d. resolve stk (segments (cur @ ch # d)) = resolve stk' (segments (cur' @ d))))"
proof (cases "ch = ch_slash")
  case True
  from assms(1) have "ch_slash \<notin> set cur" by (simp add: cu_rel_def)
  then have seg: "segments (cur @ ch_slash # d) = cur # segments d" for d
    by (rule segments_append_slash)
  have res: "resolve stk (cur # segments d) =
      (case (if cur = [] \<or> cur = [ch_dot] then Some stk
             else if cur = [ch_dot, ch_dot] then (case stk of [] \<Rightarrow> None | _ # stk' \<Rightarrow> Some stk')
             else Some (cur # stk)) of
         None \<Rightarrow> None | Some stk' \<Rightarrow> resolve stk' (segments d))" for d
    by (cases "segments d") (auto split: list.splits)
  show ?thesis
  proof (cases "if cur = [] \<or> cur = [ch_dot] then Some stk
             else if cur = [ch_dot, ch_dot] then (case stk of [] \<Rightarrow> None | _ # stk' \<Rightarrow> Some stk')
             else Some (cur # stk)")
    case None
    then show ?thesis using cu_turn_slash [OF assms(1)] unfolding True seg res None by simp
  next
    case (Some stk')
    then obtain c' where "cu_turn_of True ch_slash c = Next c'" "cu_rel c' stk' []"
      using cu_turn_slash [OF assms(1)] unfolding Some by auto
    then show ?thesis unfolding True seg res Some
      by (intro disjI2 exI [of _ c'] exI [of _ stk'] exI [of _ "[]"]) simp
  qed
next
  case False
  with cu_turn_char [OF assms(1), of ch] assms(2) show ?thesis by fastforce
qed

text \<open>The rest of a run: \<open>ch = *p++\<close> and the loop, or the end of the URI.\<close>

definition cu_run :: "bool \<Rightarrow> bytes \<Rightarrow> cu_rec \<Rightarrow> cu_end" where
  "cu_run m xs c = (case xs of [] \<Rightarrow> End_done c | ch # rest \<Rightarrow> cu_loop m ch rest c)"

lemma cu_run_simps [simp]:
  "cu_run m [] c = End_done c"
  "cu_run m (ch # rest) c = cu_loop m ch rest c"
  by (simp_all add: cu_run_def)

lemma cu_loop_unfold:
  "cu_loop m ch rest c =
     (case cu_turn_of m ch c of
        Next c' \<Rightarrow> cu_run m rest c'
      | Again ch' c' \<Rightarrow> cu_loop m ch' rest c'
      | Args c' \<Rightarrow> End_args c' rest
      | Done c' \<Rightarrow> End_done c'
      | Invalid \<Rightarrow> End_invalid)"
  by (subst cu_loop.simps) (simp add: cu_run_def split: cu_turn.split)

text \<open>The two hexadecimal digits after a percent sign.\<close>

lemma hex_digit_word:
  "ch_0 \<le> ch \<Longrightarrow> ch \<le> ch_9 \<Longrightarrow> hex_digit ch = Some (uint (ch - ch_0))"
  "\<not> (ch_0 \<le> ch \<and> ch \<le> ch_9) \<Longrightarrow> ch_a \<le> ch OR 0x20 \<Longrightarrow> ch OR 0x20 \<le> ch_f \<Longrightarrow>
     hex_digit ch = Some (uint ((ch OR 0x20) - ch_a + 10))"
  "\<not> (ch_0 \<le> ch \<and> ch \<le> ch_9) \<Longrightarrow> \<not> (ch_a \<le> ch OR 0x20 \<and> ch OR 0x20 \<le> ch_f) \<Longrightarrow>
     hex_digit ch = None"
proof -
  assume "ch_0 \<le> ch" "ch \<le> ch_9"
  then show "hex_digit ch = Some (uint (ch - ch_0))"
    by (simp add: hex_digit_def uint_sub_lem [THEN iffD1] word_le_def)
next
  assume n: "\<not> (ch_0 \<le> ch \<and> ch \<le> ch_9)" and b: "ch_a \<le> ch OR 0x20" "ch OR 0x20 \<le> ch_f"
  then have "uint ((ch OR 0x20) - ch_a + 10) = uint (ch OR 0x20) - 97 + 10"
    by (simp add: uint_word_ariths word_le_def take_bit_eq_mod)
  with n b show "hex_digit ch = Some (uint ((ch OR 0x20) - ch_a + 10))"
    by (auto simp: hex_digit_def Let_def)
next
  assume "\<not> (ch_0 \<le> ch \<and> ch \<le> ch_9)" "\<not> (ch_a \<le> ch OR 0x20 \<and> ch OR 0x20 \<le> ch_f)"
  then show "hex_digit ch = None" by (auto simp: hex_digit_def Let_def)
qed

lemma cu_quoted_turn_hex:
  "cu_quoted_turn st ch c =
     (case hex_digit ch of
        None \<Rightarrow> Invalid
      | Some a \<Rightarrow> Next (c\<lparr>cu_quoted_uri := True, cu_state := Quoted_second st (word_of_int a)\<rparr>))"
  by (auto simp: cu_quoted_turn_def Let_def hex_digit_word)


lemma byte_of_int_eq: 
  assumes "0 \<le> v" "v < 256" shows "(word_of_int v :: u8) = ch \<longleftrightarrow> v = uint ch"
proof -
  have "uint (word_of_int v :: u8) = v" using assms by (simp add: uint_word_of_int)
  then show ?thesis by auto
qed

lemma push_bit_4_add: "push_bit 4 (word_of_int a :: u8) + x - y = word_of_int (16 * a + uint (x - y))"
  by (simp add: push_bit_eq_mult mult.commute)
lemma push_bit_4_add': "push_bit 4 (word_of_int a :: u8) + x - y + 10 = word_of_int (16 * a + uint (x - y + 10))"
  by (simp add: push_bit_eq_mult mult.commute)

lemma hex_letter_val: "ch_a \<le> c \<Longrightarrow> c \<le> ch_f \<Longrightarrow> 10 \<le> uint (c - ch_a + 10) \<and> uint (c - ch_a + 10) \<le> 15"
  by (simp add: uint_word_ariths word_le_def take_bit_eq_mod)
lemma hex_digit_val: "ch_0 \<le> c \<Longrightarrow> c \<le> ch_9 \<Longrightarrow> uint (c - ch_0) \<le> 9"
  by (simp add: uint_word_ariths word_le_def take_bit_eq_mod)

lemma cu_quoted_second_turn_hex:
  assumes "hex_digit h = Some a"
  shows "cu_quoted_second_turn st (word_of_int a) l c =
     (case hex_digit l of
        None \<Rightarrow> Invalid
      | Some b \<Rightarrow>
          if 16 * a + b = 0 then Invalid
          else let ch = word_of_int (16 * a + b) in
            if ch \<in> {ch_percent, ch_hash, ch_quest} then Next (cu_put cu_usual ch c)
            else Again ch (c\<lparr>cu_plus_in_uri := (cu_plus_in_uri c \<or> ch = ch_plus),
                             cu_state := Plain st\<rparr>))"
proof -
  from hex_digit_bounds [OF assms] have a: "0 \<le> a" "a \<le> 15" by auto
  consider (dig) "ch_0 \<le> l" "l \<le> ch_9" | (letr) "\<not> (ch_0 \<le> l \<and> l \<le> ch_9)" "ch_a \<le> l OR 0x20" "l OR 0x20 \<le> ch_f"
    | (bad) "\<not> (ch_0 \<le> l \<and> l \<le> ch_9)" "\<not> (ch_a \<le> l OR 0x20 \<and> l OR 0x20 \<le> ch_f)" by blast
  then show ?thesis
  proof cases
    case dig
    define b where "b = uint (l - ch_0)"
    have b: "0 \<le> b" "b \<le> 9" using hex_digit_val [OF dig] by (auto simp: b_def)
    have v: "0 \<le> 16 * a + b" "16 * a + b < 256" using a b by auto
    have n: "16 * a + b \<noteq> 63" "16 * a + b \<noteq> 43" using a b by presburger+
    show ?thesis using dig b a n
      by (cases c) (simp del: of_int_add of_int_mult add: cu_quoted_second_turn_def hex_digit_word(1) [OF dig] push_bit_4_add b_def [symmetric] Let_def
         byte_of_int_eq [OF v])
  next
    case letr
    define b where "b = uint ((l OR 0x20) - ch_a + 10)"
    have b: "10 \<le> b" "b \<le> 15" using hex_letter_val [OF letr(2,3)] by (auto simp: b_def)
    have v: "0 \<le> 16 * a + b" "16 * a + b < 256" using a b by auto
    have n: "16 * a + b \<noteq> 37" "16 * a + b \<noteq> 35" using a b by presburger+
    show ?thesis using letr(2,3) b a n
      unfolding cu_quoted_second_turn_def hex_digit_word(2) [OF letr] Let_def push_bit_4_add'
        if_not_P [OF letr(1)] b_def [symmetric]
      by (cases c) (simp del: of_int_add of_int_mult add: byte_of_int_eq [OF v])
  next
    case bad
    then show ?thesis by (simp add: cu_quoted_second_turn_def hex_digit_word(3) Let_def)
  qed
qed

text \<open>What a run leaves: the output and the text after \<open>'?'\<close>.\<close>

fun cu_outcome :: "cu_end \<Rightarrow> (bytes \<times> bytes option) option" where
  "cu_outcome (End_done c) = Some (cu_out c, None)"
| "cu_outcome (End_args c rest) = Some (cu_out c, Some rest)"
| "cu_outcome End_invalid = None"

text \<open>The reference result with \<open>stk\<close> and \<open>cur\<close> already read.\<close>

definition path_from :: "bytes list \<Rightarrow> bytes \<Rightarrow> bytes \<Rightarrow> (bytes \<times> bytes option) option" where
  "path_from stk cur xs =
     (case decode_path xs of
        None \<Rightarrow> None
      | Some (d, a) \<Rightarrow> map_option (\<lambda>ss. (join_path ss, a)) (resolve stk (segments (cur @ d))))"

lemma cu_turn_marks:
  assumes "cu_state c = Plain st"
  shows "cu_turn_of m ch_percent c = Next (c\<lparr>cu_state := Quoted st\<rparr>)"
    "cu_turn_of m ch_quest c = Args c" "cu_turn_of m ch_hash c = Done c"
  using assms by (cases st; simp add: cu_turn_defs is_usual_iff)+

lemma cu_char_reference:
  assumes rel: "cu_rel c stk cur" and v: "v \<notin> {ch_percent, ch_quest, ch_hash}"
    and IH: "\<And>c stk cur. cu_rel c stk cur \<Longrightarrow> cu_outcome (cu_run True ys c) = path_from stk cur ys"
  shows "cu_outcome (cu_loop True v ys c) =
    (case map_option (apfst (Cons v)) (decode_path ys) of
       None \<Rightarrow> None
     | Some (d, a) \<Rightarrow> map_option (\<lambda>ss. (join_path ss, a)) (resolve stk (segments (cur @ d))))"
proof -
  consider "cu_turn_of True v c = Invalid" "\<And>d. resolve stk (segments (cur @ v # d)) = None"
    | c' stk' cur' where "cu_turn_of True v c = Next c'" "cu_rel c' stk' cur'"
        "\<And>d. resolve stk (segments (cur @ v # d)) = resolve stk' (segments (cur' @ d))"
    using cu_turn_step [OF rel v] by blast
  then show ?thesis
  proof cases
    case 1
    then show ?thesis by (auto simp: cu_loop_unfold split: option.split)
  next
    case 2
    from IH [OF 2(2)] show ?thesis
      by (auto simp: cu_loop_unfold [of True v] 2 path_from_def split: option.split)
  qed
qed

lemma cu_literal_reference:
  assumes rel: "cu_rel c stk cur" and v: "v \<in> {ch_percent, ch_quest, ch_hash}"
    and IH: "\<And>c stk cur. cu_rel c stk cur \<Longrightarrow> cu_outcome (cu_run True ys c) = path_from stk cur ys"
  shows "cu_outcome (cu_run True ys (cu_put cu_usual v c)) =
    (case map_option (apfst (Cons v)) (decode_path ys) of
       None \<Rightarrow> None
     | Some (d, a) \<Rightarrow> map_option (\<lambda>ss. (join_path ss, a)) (resolve stk (segments (cur @ d))))"
  unfolding IH [OF cu_put_literal [OF rel v]]
  by (auto simp: path_from_def split: option.split)

lemma cu_quote_reference:
  assumes rel: "cu_rel c stk cur"
    and IH: "\<And>h l hs c stk cur. xs = h # l # hs \<Longrightarrow> cu_rel c stk cur \<Longrightarrow>
       cu_outcome (cu_run True hs c) = path_from stk cur hs"
  shows "cu_outcome (cu_loop True ch_percent xs c) = path_from stk cur (ch_percent # xs)"
proof -
  define st where "st = segment_state cur"
  have st: "cu_state c = Plain st" and out: "cu_out c = join_path (rev (cur # stk))"
    and cur: "segments cur = [cur]" using rel by (simp_all add: cu_rel_def st_def segments_plain)
  have u: "cu_loop True ch_percent xs c = cu_run True xs (c\<lparr>cu_state := Quoted st\<rparr>)"
    by (simp add: cu_loop_unfold [of True ch_percent] cu_turn_marks [OF st])
  show ?thesis
  proof (cases xs)
    case Nil
    then show ?thesis unfolding u by (simp add: path_from_def out cur)
  next
    case (Cons h hs)
    show ?thesis
    proof (cases "hex_digit h")
      case None
      then show ?thesis unfolding u
        by (simp add: Cons cu_loop_unfold [of True h] cu_turn_of_def cu_quoted_turn_hex path_from_def)
    next
      case (Some a)
      define c1 where "c1 = c\<lparr>cu_quoted_uri := True, cu_state := Quoted_second st (word_of_int a)\<rparr>"
      have r1: "cu_rel (c1\<lparr>cu_plus_in_uri := p, cu_state := Plain st\<rparr>) stk cur" for p
        using rel st by (simp add: cu_rel_def c1_def)
      have r2: "cu_rel (c\<lparr>cu_quoted_uri := True\<rparr>) stk cur" using rel by (simp add: cu_rel_def)
      have u1: "cu_loop True ch_percent xs c = cu_run True hs c1"
        unfolding u by (simp add: Cons cu_loop_unfold [of True h] cu_turn_of_def cu_quoted_turn_hex Some c1_def)
      show ?thesis
      proof (cases hs)
        case Nil
        then show ?thesis unfolding u1 by (simp add: Cons Some path_from_def out cur c1_def)
      next
        case (Cons l ls)
        note IH' = IH [unfolded \<open>xs = h # hs\<close> Cons, OF refl]
        have t: "cu_turn_of True l c1 = cu_quoted_second_turn st (word_of_int a) l c1"
          by (simp add: cu_turn_of_def c1_def)
        have p: "cu_put cu_usual v c1 = cu_put cu_usual v (c\<lparr>cu_quoted_uri := True\<rparr>)" for v
          by (simp add: c1_def cu_put_def)
        note lit = cu_literal_reference [OF r2 _ IH'] and chr = cu_char_reference [OF r1 _ IH']
        have e: "cu_loop True ch_percent xs c = cu_loop True l ls c1" unfolding u1 by (simp add: Cons)
        show ?thesis
          unfolding e cu_loop_unfold [of True l] t cu_quoted_second_turn_hex [OF Some] Let_def p
          using lit chr
          by (auto simp del: of_int_add of_int_mult simp: \<open>xs = h # hs\<close> Cons Some path_from_def
              split: option.split)
      qed
    qed
  qed
qed

lemma cu_run_reference:
  assumes "cu_rel c stk cur"
  shows "cu_outcome (cu_run True xs c) = path_from stk cur xs"
  using assms
proof (induction xs arbitrary: c stk cur rule: length_induct)
  case (1 xs)
  then obtain st where st: "cu_state c = Plain st" by (auto simp: cu_rel_def)
  from 1 have cur: "segments cur = [cur]" "cu_out c = join_path (rev (cur # stk))"
    by (auto simp: cu_rel_def segments_plain)
  show ?case
  proof (cases xs)
    case Nil
    with cur show ?thesis by (simp add: path_from_def)
  next
    case (Cons ch cs)
    have IH: "cu_outcome (cu_run True ys c) = path_from stk cur ys"
      if "length ys < length xs" "cu_rel c stk cur" for ys c stk cur
      using 1 that by blast
    consider "ch = ch_quest" | "ch = ch_hash" | "ch = ch_percent" | "ch \<notin> {ch_percent, ch_quest, ch_hash}"
      by blast
    then show ?thesis
    proof cases
      case 3
      show ?thesis unfolding Cons 3 cu_run_simps
        by (rule cu_quote_reference [OF 1(2)], rule IH) (simp_all add: Cons)
    next
      case 4
      from cu_char_reference [OF 1(2) 4 IH] 4 show ?thesis by (simp add: Cons path_from_def)
    qed (use cur in \<open>simp_all add: Cons cu_loop_unfold [of True] cu_turn_marks [OF st] path_from_def\<close>)
  qed
qed

end
