(* ===== verification/Http_Uri_Safety.thy ===== *)
theory Http_Uri_Safety
  imports Http_Uri
begin

text \<open>
  What the URI functions guarantee: the normaliser computes the reference normal form, its output
  holds no \<open>"."\<close> or \<open>".."\<close> segment that a slash follows, it fits the buffer allocated for it,
  the fast path of \<open>ngx_http_process_request_uri\<close> agrees with it, and
  \<open>ngx_http_parse_unsafe_uri\<close> rejects traversal.
\<close>

section \<open>Arguments of the normalised URI\<close>

lemma decode_path_args: "decode_path xs = Some (d, Some a) \<Longrightarrow> \<exists>pre. xs = pre @ ch_quest # a"
proof (induction xs arbitrary: d rule: length_induct)
  case (1 xs)
  have IH: "\<exists>pre. ys = pre @ ch_quest # a" if "length ys < length xs" "decode_path ys = Some (d', Some a)" for ys d'
    using 1 that by blast
  show ?case
  proof (cases xs)
    case (Cons ch cs)
    consider "ch = ch_quest" | "ch = ch_hash" | "ch = ch_percent" | "ch \<notin> {ch_percent, ch_quest, ch_hash}"
      by blast
    then show ?thesis
    proof cases
      case 1
      with \<open>decode_path xs = _\<close> Cons show ?thesis by (intro exI [of _ "[]"]) simp
    next
      case 3
      with \<open>decode_path xs = _\<close> Cons obtain h l ls d' where "cs = h # l # ls" "decode_path ls = Some (d', Some a)"
        by (auto split: list.splits option.splits if_splits prod.splits)
      with Cons IH [of ls d'] obtain pre where "xs = (ch # h # l # pre) @ ch_quest # a" by auto
      then show ?thesis by blast
    next
      case 4
      with \<open>decode_path xs = _\<close> Cons obtain d' where "decode_path cs = Some (d', Some a)" by auto
      with Cons IH [of cs d'] obtain pre where "xs = (ch # pre) @ ch_quest # a" by auto
      then show ?thesis by blast
    qed (use \<open>decode_path xs = _\<close> Cons in auto)
  qed (use 1 in simp)
qed

text \<open>The arguments a request ends up with.\<close>

definition request_args :: "bytes \<Rightarrow> parsed_uri \<Rightarrow> bytes option" where
  "request_args uri r =
     (case p_args r of Some a \<Rightarrow> Some a | None \<Rightarrow> map_option (\<lambda>x. drop x uri) (p_args_start r))"

lemma takeWhile_hash: "ch_hash \<notin> set a \<Longrightarrow> takeWhile (\<lambda>ch. ch \<noteq> ch_hash) a = a"
  by (auto simp: takeWhile_eq_all_conv)

lemma cu_result_sel [simp]:
  "p_uri (cu_result c x y) = cu_out c" "p_args_start (cu_result c x y) = x" "p_args (cu_result c x y) = y"
  "p_exten (cu_result c x y) = map_option (\<lambda>x. drop x (cu_out c)) (cu_uri_ext c)"
  by (simp_all add: cu_result_def)

lemma cu_loop_first:
  "\<exists>c. cu_rel c [] [] \<and> cu_out c = [ch_slash] \<and> cu_uri_ext c = None \<and> 
    cu_loop m ch_slash path \<lparr>cu_state = Plain cu_usual, cu_out = [], cu_uri_ext = None,
               cu_plus_in_uri = pl, cu_quoted_uri = q\<rparr> = cu_run m path c"
  by (rule exI [of _ "\<lparr>cu_state = Plain cu_slash, cu_out = [ch_slash], cu_uri_ext = None,
        cu_plus_in_uri = pl, cu_quoted_uri = q\<rparr>"])
    (simp add: cu_loop_unfold [of m ch_slash] cu_turn_defs is_usual_iff cu_rel_def join_path_def segment_state_def)

section \<open>Safety of the output\<close>
lemma segments_append: "segments (xs @ ch_slash # ys) = segments xs @ segments ys"
  by (induction xs) (auto split: list.splits)

lemma segments_snoc:
  "c \<noteq> ch_slash \<Longrightarrow> segments (xs @ [c]) = butlast (segments xs) @ [last (segments xs) @ [c]]"
  by (induction xs) (auto split: list.splits)

lemma segments_butlast_last: "segments d = butlast (segments d) @ [last (segments d)]"
  by simp

text \<open>The output is a slash and a path whose complete segments are harmless.\<close>

definition safe_segment :: "bool \<Rightarrow> bytes \<Rightarrow> bool" where
  "safe_segment m s \<longleftrightarrow> s \<noteq> [ch_dot] \<and> s \<noteq> [ch_dot, ch_dot] \<and> (m \<longrightarrow> s \<noteq> [])"

definition safe_out :: "bool \<Rightarrow> bytes \<Rightarrow> bool" where
  "safe_out m out \<longleftrightarrow>
     (\<exists>d. out = ch_slash # d \<and> list_all (safe_segment m) (butlast (segments d)))"

definition cu_plain :: "cu_rec \<Rightarrow> plain_state" where
  "cu_plain c = (case cu_state c of Plain st \<Rightarrow> st | Quoted st \<Rightarrow> st | Quoted_second st _ \<Rightarrow> st)"

definition cu_safe :: "bool \<Rightarrow> cu_rec \<Rightarrow> bool" where
  "cu_safe m c \<longleftrightarrow> safe_out m (cu_out c) \<and>
     cu_plain c = segment_state (last (segments (tl (cu_out c))))"

lemma cu_safe_put:
  assumes "cu_safe m c" "cu_state c = Plain st" "ch \<noteq> ch_slash"
  shows "cu_safe m (cu_put (if ch = ch_dot \<and> st = cu_slash then cu_dot
     else if ch = ch_dot \<and> st = cu_dot then cu_dot_dot else cu_usual) ch c)"
  using assms by (auto simp: cu_safe_def safe_out_def cu_put_def cu_plain_def segments_snoc segment_state_snoc
     split: plain_state.splits)
lemma cu_safe_literal:
  assumes "cu_safe m c" "ch \<notin> {ch_slash, ch_dot}" 
  shows "cu_safe m (cu_put cu_usual ch c)"
  using assms by (auto simp: cu_safe_def safe_out_def cu_put_def cu_plain_def segments_snoc segment_state_snoc
     split: plain_state.splits)

lemma cu_safe_slash:
  assumes "cu_safe m c" "cu_state c = Plain st" "st = cu_usual \<or> (st = cu_slash \<and> \<not> m)"
  shows "cu_safe m (cu_put cu_slash ch_slash c)"
proof -
  from assms obtain d where d: "cu_out c = ch_slash # d" "list_all (safe_segment m) (butlast (segments d))"
     "st = segment_state (last (segments d))"
    by (auto simp: cu_safe_def safe_out_def cu_plain_def)
  have "safe_segment m (last (segments d))"
    using d assms(3) by (auto simp: safe_segment_def segment_state_def split: if_splits)
  with d have "list_all (safe_segment m) (butlast (segments d) @ [last (segments d)])"
    unfolding list_all_append by simp
  then have "list_all (safe_segment m) (segments d)" by simp
  with d show ?thesis
    by (auto simp: cu_safe_def safe_out_def cu_put_def cu_plain_def segments_append butlast_append segment_state_def)
qed

lemma cu_safe_prefix:
  assumes "cu_safe m c" "cu_out c = p @ ch_slash # rest"
  shows "cu_safe m (c\<lparr>cu_state := Plain cu_slash, cu_out := p @ [ch_slash]\<rparr>)"
  using assms by (cases p) (auto simp: cu_safe_def safe_out_def cu_plain_def segments_append butlast_append segment_state_def)

lemma back_to_slash_prefix: "back_to_slash xs = Some ys \<Longrightarrow> \<exists>zs. xs = zs @ ys \<and> (\<exists>t. ys = ch_slash # t)"
  by (induction xs) (auto split: if_splits intro: exI [of _ "_ # _"])

lemma cu_parent_prefix:
  assumes "cu_parent out = Some out'"
  shows "\<exists>p rest. out' = p @ [ch_slash] \<and> out = p @ ch_slash # rest"
proof -
  from assms obtain ys where ys: "back_to_slash (rev (take (length out - 4) out)) = Some ys" "out' = rev ys"
    by (auto simp: cu_parent_def)
  with back_to_slash_prefix obtain zs t where "rev (take (length out - 4) out) = zs @ ch_slash # t" "ys = ch_slash # t"
    by blast
  then have "take (length out - 4) out = rev t @ ch_slash # rev zs"
    by (metis rev.simps(2) rev_append rev_rev_ident append.assoc append_Cons append_Nil)
  then have "out = rev t @ ch_slash # rev zs @ drop (length out - 4) out"
    by (metis append.assoc append_Cons append_take_drop_id)
  with ys \<open>ys = _\<close> show ?thesis by auto
qed

lemma segments_last_suffix: "\<exists>p. ch_slash # d = p @ ch_slash # last (segments d)"
proof (induction d rule: rev_induct)
  case (snoc c d)
  then obtain p where "ch_slash # d = p @ ch_slash # last (segments d)" by blast
  then show ?case
    by (cases "c = ch_slash") (auto simp: segments_append segments_snoc intro: exI [of _ p] exI [of _ "ch_slash # d"])
qed simp

lemma cu_safe_dot:
  assumes "cu_safe m c" "cu_state c = Plain cu_dot"
  shows "cu_safe m (c\<lparr>cu_state := Plain cu_slash, cu_out := butlast (cu_out c)\<rparr>)"
proof -
  from assms obtain d where d: "cu_out c = ch_slash # d" "last (segments d) = [ch_dot]"
    by (auto simp: cu_safe_def safe_out_def cu_plain_def segment_state_def split: if_splits)
  with segments_last_suffix [of d] obtain p where p: "cu_out c = p @ ch_slash # [ch_dot]" by auto
  from cu_safe_prefix [OF assms(1) p] show ?thesis by (simp add: p butlast_append)
qed

lemma cu_safe_update:
  "cu_safe m c \<Longrightarrow> cu_plain c' = cu_plain c \<Longrightarrow> cu_out c' = cu_out c \<Longrightarrow> cu_safe m c'"
  by (simp add: cu_safe_def)

definition turn_safe :: "bool \<Rightarrow> cu_turn \<Rightarrow> bool" where
  "turn_safe m t = (case t of
     Next c \<Rightarrow> cu_safe m c | Again _ c \<Rightarrow> cu_safe m c | Args c \<Rightarrow> cu_safe m c | Done c \<Rightarrow> cu_safe m c
   | Invalid \<Rightarrow> True)"

lemma turn_safe_simps [simp]:
  "turn_safe m (Next c) = cu_safe m c" "turn_safe m (Again ch c) = cu_safe m c"
  "turn_safe m (Args c) = cu_safe m c" "turn_safe m (Done c) = cu_safe m c" "turn_safe m Invalid"
  by (simp_all add: turn_safe_def)

lemma cu_safe_flags [simp]:
  "cu_safe m (c\<lparr>cu_uri_ext := e\<rparr>) = cu_safe m c" "cu_safe m (c\<lparr>cu_plus_in_uri := p\<rparr>) = cu_safe m c"
  "cu_safe m (c\<lparr>cu_quoted_uri := q\<rparr>) = cu_safe m c"
  by (simp_all add: cu_safe_def cu_plain_def)

lemma cu_safe_state:
  "cu_safe m c \<Longrightarrow> cu_plain (c\<lparr>cu_state := s\<rparr>) = cu_plain c \<Longrightarrow> cu_safe m (c\<lparr>cu_state := s\<rparr>)"
  by (simp add: cu_safe_def)

lemma cu_put_dots:
  assumes "cu_safe m c" "cu_state c = Plain st"
  shows "st = cu_usual \<Longrightarrow> cu_safe m (cu_put cu_usual ch_dot c)"
    "st = cu_slash \<Longrightarrow> cu_safe m (cu_put cu_dot ch_dot c)"
    "st = cu_dot \<Longrightarrow> cu_safe m (cu_put cu_dot_dot ch_dot c)"
    "st = cu_dot_dot \<Longrightarrow> cu_safe m (cu_put cu_usual ch_dot c)"
  using cu_safe_put [OF assms, of ch_dot] by auto

lemma cu_other_safe:
  assumes "cu_safe m c" "cu_state c = Plain st" "ch \<noteq> ch_slash" "ch = ch_dot \<longrightarrow> st = cu_dot_dot"
  shows "turn_safe m (cu_other st ch c)"
proof -
  have "cu_safe m (cu_put cu_usual ch (c\<lparr>cu_plus_in_uri := p\<rparr>))" for p
    using assms cu_safe_literal [of m "c\<lparr>cu_plus_in_uri := p\<rparr>" ch]
      cu_put_dots(4) [of m "c\<lparr>cu_plus_in_uri := p\<rparr>"] by (cases "ch = ch_dot") simp_all
  from this [of True] this [of "cu_plus_in_uri c"] show ?thesis
    using assms by (auto simp: cu_other_def cu_safe_state cu_plain_def)
qed

lemma cu_turn_safe:
  assumes "cu_safe m c"
  shows "turn_safe m (cu_turn_of m ch c)"
proof (cases "cu_state c")
  case (Plain st)
  note t = cu_turn_of_def Plain and other = cu_other_safe [OF assms Plain, of ch]
    and dots = cu_put_dots [OF assms Plain]
  consider (usual) "is_usual ch" "ch \<notin> {ch_slash, ch_dot}" | (slash) "\<not> is_usual ch" "ch = ch_slash"
    | (dot) "\<not> is_usual ch" "ch = ch_dot" | (other) "\<not> is_usual ch" "ch \<notin> {ch_slash, ch_dot}"
    by (auto simp: is_usual_iff)
  then show ?thesis
  proof cases
    case usual
    then show ?thesis using cu_safe_literal [OF assms usual(2)]
      by (cases st) (simp_all add: t cu_usual_turn_def cu_slash_turn_def cu_dot_turn_def cu_dot_dot_turn_def)
  next
    case slash
    show ?thesis
    proof (cases st)
      case cu_usual
      with slash cu_safe_slash [of m "c\<lparr>cu_uri_ext := None\<rparr>" cu_usual] assms Plain show ?thesis
        by (simp add: t cu_usual_turn_def)
    next
      case cu_slash
      with slash cu_safe_slash [of m c cu_slash] assms Plain show ?thesis
        by (cases m) (simp_all add: t cu_slash_turn_def)
    next
      case cu_dot
      with slash cu_safe_dot [OF assms] Plain show ?thesis by (simp add: t cu_dot_turn_def)
    next
      case cu_dot_dot
      with slash cu_safe_prefix [OF assms] cu_parent_prefix [of "cu_out c"] show ?thesis
        by (auto simp add: t cu_dot_dot_turn_def split: option.split)
    qed
  next
    case dot
    with dots other show ?thesis
      using cu_put_dots(1) [of m "c\<lparr>cu_uri_ext := Some (length (cu_out c) + 1)\<rparr>" st] assms Plain
      by (cases st) (simp_all add: t cu_usual_turn_def cu_slash_turn_def cu_dot_turn_def cu_dot_dot_turn_def)
  next
    case other
    then show ?thesis using cu_other_safe [OF assms Plain, of ch]
      by (cases st) (simp_all add: t cu_usual_turn_def cu_slash_turn_def cu_dot_turn_def cu_dot_dot_turn_def)
  qed
next
  case (Quoted st)
  with assms show ?thesis
    by (simp add: cu_turn_of_def cu_quoted_turn_def Let_def cu_plain_def cu_safe_state)
next
  case (Quoted_second st d)
  with assms show ?thesis
    by (simp add: cu_turn_of_def cu_quoted_second_turn_def Let_def cu_plain_def cu_safe_state cu_safe_literal)
qed

lemma cu_loop_safe:
  assumes "cu_safe m c"
  shows "case cu_loop m ch rest c of End_done c' \<Rightarrow> cu_safe m c' | End_args c' _ \<Rightarrow> cu_safe m c' | End_invalid \<Rightarrow> True"
  using assms
proof (induction m ch rest c rule: cu_loop.induct)
  case (1 m ch rest c)
  from cu_turn_safe [OF 1(3), of ch] 1(1,2) show ?case
    by (auto simp: cu_loop_unfold [of m ch] cu_run_def split: cu_turn.split list.split)
qed

text \<open>Every byte written has its own byte of the path: the buffer of \<open>uri.len + 1\<close> bytes is enough.\<close>

abbreviation path_len :: "bytes \<Rightarrow> nat" where
  "path_len uri \<equiv> length (takeWhile (\<lambda>ch. ch \<noteq> ch_quest) uri)"

definition cu_small :: "nat \<Rightarrow> cu_rec \<Rightarrow> bool" where
  "cu_small n c \<longleftrightarrow> length (cu_out c) \<le> n \<and> (\<forall>x. cu_uri_ext c = Some x \<longrightarrow> x \<le> length (cu_out c) \<and> cu_plain c = cu_usual)"


lemma low_digit: 
  assumes "ch_0 \<le> ch" "ch \<le> ch_9" shows "push_bit 4 d + ch - ch_0 \<noteq> (63::u8)"
proof
  assume "push_bit 4 d + ch - ch_0 = (63::u8)"
  then have e: "d * 16 + (ch - ch_0) = 63" by (simp add: push_bit_eq_mult)
  have "uint (d * 16 + (ch - ch_0)) = 63" unfolding e by simp
  then have e: "(uint d * 16 + uint (ch - ch_0)) mod 256 = 63" by (simp add: uint_word_ariths mod_simps)
  have "(uint d * 16 + uint (ch - ch_0)) mod 256 mod 16 = uint (ch - ch_0) mod 16"
    by (simp add: mod_mod_cancel)
  then have "uint (ch - ch_0) mod 16 = 15" unfolding e by simp
  moreover from hex_digit_val [OF assms] have "uint (ch - ch_0) \<le> 9" "0 \<le> uint (ch - ch_0)" by auto
  ultimately show False by simp
qed

lemma cu_parent_length: "cu_parent out = Some out' \<Longrightarrow> length out' \<le> length out"
  by (drule cu_parent_prefix) auto

lemma cu_turn_small:
  assumes "cu_small n c"
  shows "case cu_turn_of m ch c of
     Next c' \<Rightarrow> cu_small (Suc n) c' \<and> ch \<noteq> ch_quest
   | Again ch' c' \<Rightarrow> cu_small n c' \<and> ch' \<noteq> ch_quest \<and> ch \<noteq> ch_quest
   | Args c' \<Rightarrow> cu_small n c' | Done c' \<Rightarrow> cu_small n c'
   | Invalid \<Rightarrow> True"
proof (cases "cu_state c")
  case (Plain st)
  show ?thesis
  proof (cases st)
    case cu_dot_dot
    with assms Plain show ?thesis
      by (auto simp: cu_turn_defs cu_small_def cu_plain_def is_usual_iff split: option.split dest: cu_parent_length)
  qed (use assms Plain in \<open>auto simp: cu_turn_defs cu_small_def cu_plain_def is_usual_iff\<close>)
next
  case (Quoted st)
  with assms show ?thesis
    by (auto simp: cu_turn_of_def cu_quoted_turn_def Let_def cu_small_def cu_plain_def)
next
  case (Quoted_second st d)
  with assms show ?thesis
    using low_digit [of ch d]
    by (auto simp: cu_turn_of_def cu_quoted_second_turn_def Let_def cu_small_def cu_plain_def cu_put_def)
qed

lemma cu_loop_small:
  assumes "cu_small n c"
  shows "case cu_loop m ch rest c of
     End_done c' \<Rightarrow> cu_small (n + path_len (ch # rest)) c'
   | End_args c' _ \<Rightarrow> cu_small (n + path_len (ch # rest)) c' | End_invalid \<Rightarrow> True"
  using assms
proof (induction m ch rest c arbitrary: n rule: cu_loop.induct)
  case (1 m ch rest c)
  have mono: "cu_small k c \<Longrightarrow> k \<le> l \<Longrightarrow> cu_small l c" for k l c by (auto simp: cu_small_def)
  from cu_turn_small [OF 1(3), where m = m and ch = ch] show ?case 
  proof (cases "cu_turn_of m ch c")
    case (Next c')
    with cu_turn_small [OF 1(3), where m = m and ch = ch] 1(1) [OF Next, of _ _ "Suc n"] show ?thesis
      by (cases rest) (auto simp: cu_loop_unfold [of m ch] split: cu_end.splits elim: mono)
  next
    case (Again ch' c')
    with cu_turn_small [OF 1(3), where m = m and ch = ch] 1(2) [OF Again, of "n"] show ?thesis
      by (auto simp: cu_loop_unfold [of m ch] split: cu_end.splits elim: mono)
  qed (auto simp: cu_loop_unfold [of m ch] elim: mono)
qed
section \<open>The quick scan and the normaliser\<close>

lemma pu_step_flags:
  "pu_step p ch f = Some f' \<Longrightarrow> (pu_complex_uri f \<longrightarrow> pu_complex_uri f') \<and> (pu_quoted_uri f \<longrightarrow> pu_quoted_uri f')"
  by (auto simp: pu_step_def split: pu_state.splits if_splits)

lemma pu_loop_flags:
  "pu_loop p xs f = Some f' \<Longrightarrow> (pu_complex_uri f \<longrightarrow> pu_complex_uri f') \<and> (pu_quoted_uri f \<longrightarrow> pu_quoted_uri f')"
  by (induction p xs f rule: pu_loop.induct) (auto split: option.splits dest: pu_step_flags)

lemma pu_loop_uri:
  assumes "pu_loop p xs f = Some f'" "pu_state f = pu_uri"
  shows "pu_args_start f' = pu_args_start f \<and> pu_uri_ext f' = pu_uri_ext f \<and>
    (ch_hash \<in> set xs \<longrightarrow> pu_complex_uri f')"
  using assms
proof (induction p xs f rule: pu_loop.induct)
  case (2 p ch rest f)
  then obtain g where g: "pu_step p ch f = Some g" "pu_loop (Suc p) rest g = Some f'" by (auto split: option.splits)
  with 2(3) have "pu_state g = pu_uri" "pu_args_start g = pu_args_start f" "pu_uri_ext g = pu_uri_ext f"
    "ch = ch_hash \<longrightarrow> pu_complex_uri g"
    by (auto simp: pu_step_def is_usual_iff split: if_splits)
  with 2(1) [OF g] pu_loop_flags [OF g(2)] show ?case by auto
qed simp

lemma pu_loop_args:
  assumes "pu_loop p xs f = Some f'" "pu_state f \<noteq> pu_uri" "pu_args_start f = None" "pu_args_start f' = Some a"
  shows "a = Suc (p + path_len xs) \<and> path_len xs < length xs"
  using assms
proof (induction p xs f rule: pu_loop.induct)
  case (2 p ch rest f)
  then obtain g where g: "pu_step p ch f = Some g" "pu_loop (Suc p) rest g = Some f'" by (auto split: option.splits)
  show ?case
  proof (cases "pu_state g = pu_uri")
    case True
    with pu_loop_uri [OF g(2)] 2(5) have "pu_args_start g = Some a" by simp
    with g(1) 2(3,4) show ?thesis by (auto simp: pu_step_def is_usual_iff split: pu_state.splits if_splits)
  next
    case False
    with g(1) 2(3,4) have "pu_args_start g = None \<and> ch \<noteq> ch_quest"
      by (auto simp: pu_step_def is_usual_iff split: pu_state.splits if_splits)
    with 2(1) [OF g(1,2) False] 2(5) show ?thesis by simp
  qed
qed simp

text \<open>How the quick scan and the normaliser keep in step as long as no flag is set.\<close>

definition fast_rel :: "nat \<Rightarrow> uri_flags \<Rightarrow> cu_rec \<Rightarrow> bool" where
  "fast_rel p f c \<longleftrightarrow>
     (pu_state f = pu_check_uri \<and> cu_state c = Plain cu_usual \<or>
      pu_state f = pu_after_slash_in_uri \<and> pu_uri_ext f = None \<and>
        (cu_state c = Plain cu_slash \<or> cu_state c = Plain cu_usual)) \<and>
     pu_args_start f = None \<and> cu_uri_ext c = pu_uri_ext f \<and> length (cu_out c) = p"

lemma fast_step:
  assumes "fast_rel p f c" "pu_step p ch f = Some g" "\<not> pu_complex_uri g" "\<not> pu_quoted_uri g"
  shows "if ch = ch_quest
    then cu_turn_of m ch c = Args c \<and> g = f\<lparr>pu_args_start := Some (p + 1), pu_state := pu_uri\<rparr>
    else \<exists>c'. cu_turn_of m ch c = Next c' \<and> cu_out c' = cu_out c @ [ch] \<and> fast_rel (Suc p) g c'"
  using assms
  by (auto simp: fast_rel_def pu_step_def cu_turn_defs is_usual_iff split: if_splits)

lemma fast_run:
  assumes "pu_loop p xs f = Some f'" "\<not> pu_complex_uri f'" "\<not> pu_quoted_uri f'" "fast_rel p f c"
  shows "\<exists>c'. cu_out c' = cu_out c @ takeWhile (\<lambda>ch. ch \<noteq> ch_quest) xs \<and> cu_uri_ext c' = pu_uri_ext f' \<and>
    (case pu_args_start f' of
       None \<Rightarrow> cu_run m xs c = End_done c' \<and> ch_quest \<notin> set xs
     | Some a \<Rightarrow> a = Suc (p + path_len xs) \<and> a \<le> p + length xs \<and> cu_run m xs c = End_args c' (drop (Suc (path_len xs)) xs) \<and>
         ch_hash \<notin> set (drop (Suc (path_len xs)) xs))"
  using assms
proof (induction p xs f arbitrary: c rule: pu_loop.induct)
  case (1 p f)
  then show ?case by (auto simp: fast_rel_def)
next
  case (2 p ch rest f)
  then obtain g where g: "pu_step p ch f = Some g" "pu_loop (Suc p) rest g = Some f'" by (auto split: option.splits)
  with pu_loop_flags [OF g(2)] 2 have ng: "\<not> pu_complex_uri g" "\<not> pu_quoted_uri g" by auto
  note step = fast_step [OF 2(5) g(1) ng, of m]
  show ?case
  proof (cases "ch = ch_quest")
    case True
    with step pu_loop_uri [OF g(2)] 2(3,5) show ?thesis
      by (auto simp: cu_loop_unfold [of m ch_quest] fast_rel_def)
  next
    case False
    with step obtain c' where c': "cu_turn_of m ch c = Next c'" "cu_out c' = cu_out c @ [ch]" "fast_rel (Suc p) g c'"
      by auto
    from 2(1) [OF g 2(3,4) c'(3)] False c'(2) show ?thesis
      by (auto simp: cu_loop_unfold [of m ch] c'(1) split: option.splits)
  qed
qed

lemma fast_path:
  assumes "ngx_http_parse_uri uri no_uri_flags = Some f" "\<not> pu_complex_uri f" "\<not> pu_quoted_uri f" "uri \<noteq> []"
  shows "ngx_http_process_request_uri True m uri (f\<lparr>pu_complex_uri := True\<rparr>) r =
    ngx_http_process_request_uri True m uri f r"
proof -
  obtain ch path where uri: "uri = ch # path" using assms(4) by (cases uri) auto
  define g where "g = no_uri_flags\<lparr>pu_state := pu_after_slash_in_uri\<rparr>"
  from assms(1) have ch: "ch = ch_slash" and g: "pu_loop 1 path g = Some f"
    by (auto simp: uri ngx_http_parse_uri_def pu_step_def g_def no_uri_flags_def split: if_splits)
  let ?c = "\<lparr>cu_state = Plain cu_usual, cu_out = [], cu_uri_ext = None, cu_plus_in_uri = pu_plus_in_uri f, cu_quoted_uri = pu_quoted_uri f\<rparr>"
  obtain c where c: "cu_rel c [] []" "cu_out c = [ch_slash]" "cu_uri_ext c = None" 
     "cu_loop m ch_slash path ?c = cu_run m path c"
    using cu_loop_first [of m path] by blast
  have "fast_rel 1 g c" using c by (simp add: fast_rel_def g_def no_uri_flags_def cu_rel_def segment_state_def join_path_def)
  from fast_run [OF g assms(2,3) this, of m] obtain c' where
    c': "cu_out c' = ch_slash # takeWhile (\<lambda>ch. ch \<noteq> ch_quest) path" "cu_uri_ext c' = pu_uri_ext f"
      "case pu_args_start f of
       None \<Rightarrow> cu_run m path c = End_done c' \<and> ch_quest \<notin> set path
     | Some a \<Rightarrow> a = Suc (1 + path_len path) \<and> a \<le> 1 + length path \<and> cu_run m path c = End_args c' (drop (Suc (path_len path)) path) \<and>
         ch_hash \<notin> set (drop (Suc (path_len path)) path)"
    using c(2) by auto
  have tw: "take (path_len path) path = takeWhile (\<lambda>ch. ch \<noteq> ch_quest) path" by (metis takeWhile_eq_take)
  have tw2: "ch_quest \<notin> set path \<Longrightarrow> takeWhile (\<lambda>ch. ch \<noteq> ch_quest) path = path"
    by (auto simp: takeWhile_eq_all_conv)
  show ?thesis
  proof (cases "pu_args_start f")
    case None
    with c' c(4) assms(2,3) show ?thesis
      by (auto simp: ngx_http_process_request_uri_def uri ch ngx_http_parse_complex_uri_def finish_request_uri_def raw_uri_len_def
         Let_def tw2 split: option.split)
  next
    case (Some a)
    with c' c(4) assms(2,3) show ?thesis
      by (auto simp: ngx_http_process_request_uri_def uri ch ngx_http_parse_complex_uri_def finish_request_uri_def raw_uri_len_def
         Let_def tw split: option.split)
  qed
qed

section \<open>Untrusted URIs\<close>

lemma hd_segments_dot_dot: "hd (segments p) = [ch_dot, ch_dot] \<longleftrightarrow> dot_dot_segment p"
  by (auto simp: dot_dot_segment_def split: list.splits)

lemma unsafe_rescan_safe:
  "unsafe_rescan p \<Longrightarrow> NUL \<notin> set p \<and> [ch_dot, ch_dot] \<notin> set (tl (segments p))"
proof (induction p)
  case (Cons ch p)
  then show ?case
    using hd_segments_dot_dot [of p] by (cases "segments p") (auto split: if_splits list.splits)
qed simp

lemma dot_dot_segment_append:
  "dot_dot_segment p \<Longrightarrow> length (segments p) > 1 \<Longrightarrow> dot_dot_segment (p @ q)"
  by (auto simp: dot_dot_segment_def split: list.splits)

lemma unsafe_scan_split:
  "unsafe_scan q0 p = Some (q, u, a) \<Longrightarrow>
     p = u @ (case a of None \<Rightarrow> [] | Some x \<Rightarrow> ch_quest # x) \<and> (q \<longleftrightarrow> q0 \<or> ch_percent \<in> set u) \<and> NUL \<notin> set u"
  by (induction q0 p arbitrary: u rule: unsafe_scan.induct) (fastforce split: if_splits simp: is_usual_iff)+

lemma unsafe_scan_safe:
  assumes "unsafe_scan q0 p = Some (q, u, a)"
  shows "[ch_dot, ch_dot] \<notin> set (butlast (tl (segments u))) \<and> (a = None \<longrightarrow> [ch_dot, ch_dot] \<notin> set (tl (segments u)))"
  using assms
proof (induction q0 p arbitrary: u rule: unsafe_scan.induct)
  case (2 quoted ch p)
  show ?case
  proof (cases "ch = ch_quest")
    case True
    with 2 show ?thesis by (auto simp: is_usual_iff split: if_splits)
  next
    case False
    with 2(4) obtain q' u' where u: "u = ch # u'" "unsafe_scan q' p = Some (q, u', a)" "ch = ch_slash \<Longrightarrow> \<not> dot_dot_segment p"
      "q' = True \<or> q' = quoted"
      by (auto simp: is_usual_iff split: if_splits)
    have IH: "[ch_dot, ch_dot] \<notin> set (butlast (tl (segments u'))) \<and> (a = None \<longrightarrow> [ch_dot, ch_dot] \<notin> set (tl (segments u')))"
      using 2 u False by (cases "ch = ch_percent"; cases "is_usual ch") (auto split: if_splits)
    obtain s ss where s: "segments u' = s # ss" by (cases "segments u'") auto
    show ?thesis 
    proof (cases "ch = ch_slash")
      case True
      have "s = [ch_dot, ch_dot] \<Longrightarrow> ss = [] \<and> a \<noteq> None" 
        using u(3) [OF True] hd_segments_dot_dot [of u'] s dot_dot_segment_append [of u'] unsafe_scan_split [OF u(2)]
        by (cases a) auto
      with IH True s show ?thesis by (auto simp: u(1))
    next
      case False
      with IH s show ?thesis by (simp add: u(1))
    qed
  qed
qed simp


lemma unsafe_scan_no_quest: "unsafe_scan q0 p = Some (q, u, a) \<Longrightarrow> ch_quest \<notin> set u"
  by (induction q0 p arbitrary: u rule: unsafe_scan.induct) (fastforce split: if_splits simp: is_usual_iff)+


lemma drop_stem: "\<exists>stem. xs = stem @ drop n xs"
  by (rule exI [of _ "take n xs"]) simp

lemma path_len_take: "path_len (take n uri) \<le> path_len uri"
proof (induction uri arbitrary: n)
  case (Cons ch uri)
  then show ?case by (cases n) auto
qed simp

section \<open>Properties\<close>

text \<open>
  C1. With \<open>merge_slashes\<close> on, \<open>ngx_http_parse_complex_uri\<close> computes the reference normal
  form of every URI that begins with a slash: the path is percent-decoded up to the first
  unquoted \<open>'?'\<close> or \<open>'#'\<close>, its segments are resolved on a stack, and the arguments are the
  text between \<open>'?'\<close> and \<open>'#'\<close>. It fails exactly when the decoding or the resolution does.
\<close>

theorem complex_uri_normalises:
  "map_option (\<lambda>r. (p_uri r, request_args (ch_slash # path) r))
     (ngx_http_parse_complex_uri (ch_slash # path) True pl q) =
   map_option (apsnd (map_option (takeWhile (\<lambda>ch. ch \<noteq> ch_hash)))) (normal_path path)"
proof -
  let ?c = "\<lparr>cu_state = Plain cu_usual, cu_out = [], cu_uri_ext = None, cu_plus_in_uri = pl, cu_quoted_uri = q\<rparr>"
  obtain c where "cu_rel c [] []" and c: "cu_loop True ch_slash path ?c = cu_run True path c"
    using cu_loop_first by blast
  then have n: "cu_outcome (cu_loop True ch_slash path ?c) = normal_path path"
    by (simp add: cu_run_reference path_from_def normal_path_def split: option.split)
  have a: "drop (Suc (length path) - length a) (ch_slash # path) = a"
    if "normal_path path = Some (u, Some a)" for u a
    using that decode_path_args [of path _ a]
    by (auto simp: normal_path_def Suc_diff_le split: option.splits)
  show ?thesis
    using n [symmetric] a by (cases "cu_loop True ch_slash path ?c")
      (auto simp: ngx_http_parse_complex_uri_def request_args_def takeWhile_hash)
qed

text \<open>
  C6. No directory traversal: whatever the URI and for both settings of \<open>merge_slashes\<close>, the
  normalised path begins with a slash and none of its segments but the last is \<open>"."\<close> or
  \<open>".."\<close>, nor empty when slashes are merged.
\<close>

theorem complex_uri_safe:
  assumes "ngx_http_parse_complex_uri (ch_slash # path) m pl q = Some r"
  shows "\<exists>d. p_uri r = ch_slash # d \<and>
    list_all (\<lambda>s. s \<noteq> bytes_of ''.'' \<and> s \<noteq> bytes_of ''..'' \<and> (m \<longrightarrow> s \<noteq> [])) (butlast (segments d))"
proof -
  let ?c = "\<lparr>cu_state = Plain cu_usual, cu_out = [], cu_uri_ext = None, cu_plus_in_uri = pl, cu_quoted_uri = q\<rparr>"
  obtain c where c: "cu_rel c [] []" "cu_loop m ch_slash path ?c = cu_run m path c"
    using cu_loop_first by blast
  then have "cu_safe m c"
    by (simp add: cu_rel_def cu_safe_def safe_out_def cu_plain_def join_path_def)
  then have "case cu_run m path c of End_done c' \<Rightarrow> cu_safe m c' | End_args c' _ \<Rightarrow> cu_safe m c' | End_invalid \<Rightarrow> True"
    by (cases path) (simp_all add: cu_loop_safe)
  with assms c(2) have "safe_out m (p_uri r)"
    by (auto simp: ngx_http_parse_complex_uri_def cu_safe_def split: cu_end.splits if_splits)
  then show ?thesis by (simp add: safe_out_def safe_segment_def [abs_def])
qed

theorem complex_uri_safe_witness:
  "\<exists>d. bytes_of ''/b/c'' = ch_slash # d \<and>
    list_all (\<lambda>s. s \<noteq> bytes_of ''.'' \<and> s \<noteq> bytes_of ''..'' \<and> s \<noteq> []) (butlast (segments d))"
proof -
  have "ngx_http_parse_complex_uri (ch_slash # bytes_of ''a/%2e./b//./c'') True False False =
      Some \<lparr>p_uri = bytes_of ''/b/c'', p_exten = None, p_args_start = None, p_args = None,
            p_plus_in_uri = False, p_quoted_uri = True\<rparr>"
    by code_simp
  from complex_uri_safe [OF this] show ?thesis by simp
qed

text \<open>
  The two callers of \<open>ngx_http_process_request_uri\<close>. In HTTP/2 the flags are those of
  \<open>ngx_http_parse_uri\<close>; in HTTP/1 they are left by the request line parser, whose pointers are
  counted here from \<open>uri_start\<close>.
\<close>

definition request_uri :: "bytes \<Rightarrow> request \<Rightarrow> bytes" where
  "request_uri buf r = slice (uri_start r) (uri_end r) buf"

definition request_flags :: "request \<Rightarrow> uri_flags" where
  "request_flags r = \<lparr> pu_state = pu_start, pu_complex_uri = complex_uri r, pu_quoted_uri = quoted_uri r,
     pu_plus_in_uri = plus_in_uri r, pu_space_in_uri = space_in_uri r,
     pu_uri_ext = map_option (\<lambda>x. x - uri_start r) (uri_ext r),
     pu_args_start = map_option (\<lambda>a. a - uri_start r) (args_start r) \<rparr>"

text \<open>The arguments always begin behind a question mark.\<close>

definition args_mark :: "bytes \<Rightarrow> request \<Rightarrow> bool" where
  "args_mark buf r \<longleftrightarrow> (case args_start r of None \<Rightarrow> True | Some a \<Rightarrow> 0 < a \<and> a \<le> length buf \<and> buf ! (a - 1) = ch_quest)"

definition found :: "request \<Rightarrow> rl_outcome \<Rightarrow> nat option" where
  "found r out = (case out of Go r' \<Rightarrow> args_start r' | Halt r' _ \<Rightarrow> args_start r')"

lemma rl_step_found: "found r (rl_step buf p r) = args_start r \<or> found r (rl_step buf p r) = Some (Suc p) \<and> buf ! p = ch_quest"
  by (cases "rl_state r") (simp_all add: rl_step_def rl_step_defs found_def Let_def)

lemma rl_step_mark:
  assumes "args_mark buf r" "p < length buf"
  shows "rl_step buf p r = Go r' \<Longrightarrow> args_mark buf r'" "rl_step buf p r = Halt r' x \<Longrightarrow> args_mark buf r'"
  using rl_step_found [of r buf p] assms by (auto simp: args_mark_def found_def)

lemma request_line_mark:
  assumes "ngx_http_parse_request_line new_request b = (NGX_OK, r, b')" "pos b \<le> length (data b)"
  shows "args_mark (data b) r"
proof -
  have new: "args_mark (data b) new_request" by (simp add: args_mark_def new_request_def)
  obtain q x where sc: "scan rl_step (data b) (pos b) new_request = (q, x)"
    by (cases "scan rl_step (data b) (pos b) new_request")
  have "case (q, x) of (q, Go s) \<Rightarrow> q = length (data b) \<and> args_mark (data b) s
      | (q, Halt s y) \<Rightarrow> pos b \<le> q \<and> q < length (data b) \<and> args_mark (data b) s"
    unfolding sc [symmetric]
    by (rule scan_rule [where I = "\<lambda>_. args_mark (data b)" and Q = "\<lambda>_ s _. args_mark (data b) s"])
      (fact new assms(2) | erule (2) rl_step_mark)+
  moreover from assms sc scan_rl_Return_rc [of "data b" "pos b" new_request q]
  obtain r1 where "x = Halt r1 Goto_done" "rl_done q r1 = (NGX_OK, r)"
    by (auto simp: ngx_http_parse_request_line_def split: outcome.splits loop_exit.splits prod.splits)
  ultimately show ?thesis by (auto simp: rl_done_def Let_def args_mark_def split: if_splits)
qed

lemma takeWhile_stops: "i < length xs \<Longrightarrow> \<not> P (xs ! i) \<Longrightarrow> length (takeWhile P xs) \<le> i"
proof (rule ccontr)
  assume "\<not> P (xs ! i)" "\<not> length (takeWhile P xs) \<le> i"
  then have "i < length (takeWhile P xs)" by simp
  with nth_mem [OF this] have "P (takeWhile P xs ! i)" using set_takeWhileD by fast
  with \<open>i < length (takeWhile P xs)\<close> \<open>\<not> P (xs ! i)\<close> show False by (simp add: takeWhile_nth)
qed

lemma request_line_room:
  assumes "ngx_http_parse_request_line new_request b = (NGX_OK, r, b')" "pos b \<le> length (data b)"
  shows "path_len (request_uri (data b) r) \<le> raw_uri_len (request_uri (data b) r) (request_flags r)"
proof (cases "args_start r")
  case None
  then show ?thesis by (simp add: raw_uri_len_def request_flags_def length_takeWhile_le)
next
  case (Some a)
  from request_line_accepted [OF assms] have "uri_ok (uri_end r) r" "uri_end r \<le> length (data b)"
    by (auto simp: closed_ok_def)
  with Some have a: "uri_start r < a" "a \<le> uri_end r" "uri_end r \<le> length (data b)" by (auto simp: uri_ok_def)
  have "request_uri (data b) r ! (a - 1 - uri_start r) = ch_quest"
    using request_line_mark [OF assms] Some a by (simp add: args_mark_def request_uri_def slice_def)
  then have "path_len (request_uri (data b) r) \<le> a - 1 - uri_start r"
    using a by (intro takeWhile_stops) (auto simp: request_uri_def slice_def)
  with Some show ?thesis by (simp add: raw_uri_len_def request_flags_def)
qed

lemma parse_uri_room:
  assumes "ngx_http_parse_uri uri no_uri_flags = Some f"
  shows "path_len uri \<le> raw_uri_len uri f"
  using pu_loop_args [OF assms [unfolded ngx_http_parse_uri_def]]
  by (auto simp: raw_uri_len_def no_uri_flags_def length_takeWhile_le split: option.split)

text \<open>
  C23. The buffer that \<open>ngx_http_process_request_uri\<close> allocates is enough, for both of its
  callers: with the flags that \<open>ngx_http_parse_uri\<close> leaves (HTTP/2), and with the pointers that
  the request line parser leaves when it returns \<open>NGX_OK\<close> (HTTP/1), the normaliser's output, for
  the whole URI and for each of its prefixes, is no longer than the length computed before, and
  the extension lies inside it.
\<close>

theorem complex_uri_fits:
  assumes "ngx_http_parse_uri uri no_uri_flags = Some f \<or>
      (ngx_http_parse_request_line new_request b = (NGX_OK, r, b') \<and> pos b \<le> length (data b) \<and>
       uri = request_uri (data b) r \<and> f = request_flags r)"
    and "ngx_http_parse_complex_uri (take n uri) m pl q = Some u"
  shows "length (p_uri u) \<le> raw_uri_len uri f \<and>
    (\<forall>e. p_exten u = Some e \<longrightarrow> (\<exists>stem. p_uri u = stem @ e))"
proof (cases "take n uri")
  case (Cons ch path)
  let ?c = "\<lparr>cu_state = Plain cu_usual, cu_out = [], cu_uri_ext = None, cu_plus_in_uri = pl, cu_quoted_uri = q\<rparr>"
  have "cu_small 0 ?c" by (simp add: cu_small_def)
  from cu_loop_small [OF this, where m = m and ch = ch and rest = path] assms(2) Cons
  have len: "length (p_uri u) \<le> path_len (take n uri)"
    and ext: "\<forall>e. p_exten u = Some e \<longrightarrow> (\<exists>stem. p_uri u = stem @ e)"
    by (auto simp: ngx_http_parse_complex_uri_def cu_small_def drop_stem split: cu_end.splits if_splits)
  have "path_len uri \<le> raw_uri_len uri f"
    using assms(1) parse_uri_room request_line_room by blast
  with len ext path_len_take [of n uri] show ?thesis by simp
next
  case Nil
  with assms(2) show ?thesis by (auto simp: ngx_http_parse_complex_uri_def)
qed

definition fragment_line :: ngx_buf_t where
  "fragment_line = \<lparr>data = bytes_of ''GET /ab?x#y HTTP/1.1'' @ [LF], pos = 0\<rparr>"

theorem complex_uri_fits_witness:
  "raw_uri_len (request_uri (data fragment_line) (fst (snd (ngx_http_parse_request_line new_request fragment_line))))
     (request_flags (fst (snd (ngx_http_parse_request_line new_request fragment_line)))) = 3 \<and>
   length (bytes_of ''/ab'') \<le> 3"
proof -
  define r where "r = fst (snd (ngx_http_parse_request_line new_request fragment_line))"
  have "fst (ngx_http_parse_request_line new_request fragment_line) = NGX_OK" by code_simp
  then have line: "ngx_http_parse_request_line new_request fragment_line =
      (NGX_OK, r, snd (snd (ngx_http_parse_request_line new_request fragment_line)))"
    by (metis r_def prod.collapse)
  have uri: "request_uri (data fragment_line) r = bytes_of ''/ab?x#y''" "args_start r = Some 8" "uri_start r = 4"
    unfolding r_def by (code_simp, code_simp, code_simp)
  have "ngx_http_parse_complex_uri (take 7 (request_uri (data fragment_line) r)) True False False =
      Some \<lparr>p_uri = bytes_of ''/ab'', p_exten = None, p_args_start = None, p_args = Some (bytes_of ''x''),
            p_plus_in_uri = False, p_quoted_uri = False\<rparr>"
    unfolding uri by code_simp
  moreover have "pos fragment_line \<le> length (data fragment_line)" by (simp add: fragment_line_def)
  ultimately have "length (bytes_of ''/ab'') \<le> raw_uri_len (request_uri (data fragment_line) r) (request_flags r)"
    using complex_uri_fits [OF disjI2, of fragment_line r] line by fastforce
  moreover have "raw_uri_len (request_uri (data fragment_line) r) (request_flags r) = 3"
    by (simp add: uri raw_uri_len_def request_flags_def)
  ultimately show ?thesis by (simp add: r_def)
qed

text \<open>
  C22. The fast path is right: when the scan of \<open>ngx_http_parse_uri\<close> finds neither a complex nor a
  quoted URI, taking the URI as it was sent gives the same \<open>uri\<close>, \<open>exten\<close>, \<open>args\<close> and
  \<open>unparsed_uri\<close> as running the normaliser on it, for both settings of \<open>merge_slashes\<close>.
\<close>

theorem plain_uri_fast_path:
  assumes "ngx_http_parse_uri uri no_uri_flags = Some f" "\<not> pu_complex_uri f" "\<not> pu_quoted_uri f"
    and "uri \<noteq> []"
  shows "ngx_http_process_request_uri True m uri f r =
    ngx_http_process_request_uri True m uri (f\<lparr>pu_complex_uri := True\<rparr>) r"
  using fast_path [OF assms] by simp

definition plain_example_flags :: uri_flags where
  "plain_example_flags = no_uri_flags\<lparr>pu_state := pu_uri, pu_uri_ext := Some 5, pu_args_start := Some 9\<rparr>"

definition empty_uri_result :: uri_result where
  "empty_uri_result = \<lparr>r_uri = [], r_unparsed_uri = [], r_valid_unparsed_uri = False, r_exten = [], r_args = []\<rparr>"

theorem plain_uri_fast_path_witness:
  "ngx_http_process_request_uri True False (bytes_of ''/a/b.txt?x'') plain_example_flags empty_uri_result =
   ngx_http_process_request_uri True False (bytes_of ''/a/b.txt?x'')
     (plain_example_flags\<lparr>pu_complex_uri := True\<rparr>) empty_uri_result"
proof (rule plain_uri_fast_path)
  show "ngx_http_parse_uri (bytes_of ''/a/b.txt?x'') no_uri_flags = Some plain_example_flags"
    by code_simp
qed (simp_all add: plain_example_flags_def no_uri_flags_def)

text \<open>
  \<open>ngx_http_parse_unsafe_uri\<close>: an accepted path contains no NUL and no \<open>".."\<close> segment
  before the last one; the last one is not \<open>".."\<close> either when there are no arguments or when
  the path was percent-encoded.
\<close>

theorem unsafe_uri_checked:
  assumes "ngx_http_parse_unsafe_uri alloc_ok uri = Some (path, a)"
  shows "NUL \<notin> set path \<and> bytes_of ''..'' \<notin> set (butlast (segments path)) \<and>
    (a = None \<or> ch_percent \<in> set (fst (ngx_http_split_args uri)) \<longrightarrow> bytes_of ''..'' \<notin> set (segments path))"
proof -
  from assms obtain q u where u: "unsafe_scan False uri = Some (q, u, a)" and nd: "\<not> dot_dot_segment uri"
    and uri: "uri \<noteq> []" "hd uri \<noteq> ch_quest" by (auto simp: ngx_http_parse_unsafe_uri_def Let_def split: if_splits option.splits)
  have sp: "uri = u @ (case a of None \<Rightarrow> [] | Some x \<Rightarrow> ch_quest # x)" "q \<longleftrightarrow> ch_percent \<in> set u" "NUL \<notin> set u"
    using unsafe_scan_split [OF u] by auto
  have split: "fst (ngx_http_split_args uri) = u"
    using unsafe_scan_no_quest [OF u] sp(1)
    by (cases a) (auto simp: ngx_http_split_args_def takeWhile_eq_all_conv takeWhile_append2 takeWhile_tail)
  show ?thesis
  proof (cases q)
    case True
    with assms u have "unsafe_rescan path" "\<not> dot_dot_segment path"
      by (auto simp: ngx_http_parse_unsafe_uri_def Let_def split: if_splits)
    then have "NUL \<notin> set path" "[ch_dot, ch_dot] \<notin> set (segments path)"
      using unsafe_rescan_safe [of path] hd_segments_dot_dot [of path]
      by (cases "segments path"; auto)+
    then show ?thesis by (auto dest: in_set_butlastD)
  next
    case False
    with assms u have p: "path = u" by (auto simp: ngx_http_parse_unsafe_uri_def split: if_splits)
    obtain s ss where s: "segments u = s # ss" by (cases "segments u") auto
    have "s = [ch_dot, ch_dot] \<Longrightarrow> ss = [] \<and> a \<noteq> None"
      using nd sp(1) hd_segments_dot_dot [of u] s dot_dot_segment_append [of u] by (cases a) auto
    with unsafe_scan_safe [OF u] sp s split False show ?thesis by (auto simp: p)
  qed
qed

theorem unsafe_uri_checked_witness:
  "NUL \<notin> set (bytes_of ''/a/.b'') \<and> bytes_of ''..'' \<notin> set (butlast (segments (bytes_of ''/a/.b''))) \<and>
   bytes_of ''..'' \<notin> set (segments (bytes_of ''/a/.b''))"
proof -
  have "ngx_http_parse_unsafe_uri True (bytes_of ''/a/%2eb?x'') = Some (bytes_of ''/a/.b'', Some (bytes_of ''x''))"
    by code_simp
  moreover have "ch_percent \<in> set (fst (ngx_http_split_args (bytes_of ''/a/%2eb?x'')))" by code_simp
  ultimately show ?thesis using unsafe_uri_checked by blast
qed

text \<open>
  Two checks stop short. A \<open>".."\<close> or \<open>"."\<close> at the very end of the path is not resolved by
  \<open>ngx_http_parse_complex_uri\<close>, which only acts on the slash after it, and an incomplete
  escape there is dropped; and \<open>ngx_http_parse_unsafe_uri\<close>, although it means to detect
  \<open>"/.."\<close>, accepts it in front of arguments.
\<close>

theorem trailing_dot_dot_kept:
  "map_option p_uri (ngx_http_parse_complex_uri (bytes_of ''/a/..'') True False False) = Some (bytes_of ''/a/..'') \<and>
   map_option p_uri (ngx_http_parse_complex_uri (bytes_of ''/a%4'') True False False) = Some (bytes_of ''/a'') \<and>
   ngx_http_parse_unsafe_uri True (bytes_of ''/..'') = None \<and>
   ngx_http_parse_unsafe_uri True (bytes_of ''/..?x'') = Some (bytes_of ''/..'', Some (bytes_of ''x''))"
  by code_simp

end
