(* ===== verification/Http_Header_Line.thy ===== *)
theory Http_Header_Line
  imports Http_Request_Line
begin

text \<open>
  \<open>ngx_http_parse_header_line\<close> of \<^verbatim>\<open>src/http/ngx_http_parse.c\<close>, which reads one header line of a
  request or of an upstream response. Beside the pointers to the name and the value it computes
  the hash of the lower-cased name and keeps the lower-cased name in a ring of 32 bytes, so that
  the caller (\<open>ngx_http_process_request_headers\<close>) need not look at the name again. The lemmas
  show that the pointers are ordered, that the ring index stays inside the array, and that hash
  and lower-cased name are right for every valid header.
\<close>

section \<open>State\<close>

datatype hl_state =
    hl_start | hl_name | hl_space_before_value | hl_value | hl_space_after_value
  | hl_ignore_line | hl_almost_done | hl_header_almost_done

definition NGX_HTTP_LC_HEADER_LEN :: nat where
  "NGX_HTTP_LC_HEADER_LEN = 32"

text \<open>\<open>upstream\<close> is the test \<open>r->upstream != NULL\<close>.\<close>

record header =
  hl_state :: hl_state
  header_hash :: u64
  lowcase_index :: nat
  lowcase_header :: bytes
  header_name_start :: nat
  header_name_end :: nat
  header_start :: nat
  header_end :: nat
  invalid_header :: bool
  upstream :: bool

definition new_header :: "bool \<Rightarrow> header" where
  "new_header up = \<lparr> hl_state = hl_start, header_hash = 0, lowcase_index = 0,
     lowcase_header = replicate NGX_HTTP_LC_HEADER_LEN 0, header_name_start = 0,
     header_name_end = 0, header_start = 0, header_end = 0, invalid_header = False,
     upstream = up \<rparr>"

definition ngx_hash :: "u64 \<Rightarrow> u8 \<Rightarrow> u64" where
  "ngx_hash key c = key * 31 + ucast c"

text \<open>The static table \<open>lowcase\<close>: the lower case of the bytes allowed in a header name, 0 for the others.\<close>

definition lowcase_table :: bytes where
  "lowcase_table =
     replicate 32 0 @
     replicate 13 0 @ [ch_minus] @ replicate 2 0 @ bytes_of ''0123456789'' @ replicate 6 0 @
     [0] @ bytes_of ''abcdefghijklmnopqrstuvwxyz'' @ replicate 5 0 @
     [0] @ bytes_of ''abcdefghijklmnopqrstuvwxyz'' @ replicate 5 0 @
     replicate 128 0"

definition lowcase :: "u8 \<Rightarrow> u8" where
  "lowcase ch = lowcase_table ! unat ch"

section \<open>The steps\<close>

datatype hl_exit = Hl_done | Hl_header_done | Hl_invalid

type_synonym hl_outcome = "(header, hl_exit) outcome"

abbreviation hl_goto :: "hl_state \<Rightarrow> header \<Rightarrow> hl_outcome" where
  "hl_goto st r \<equiv> Go (r\<lparr>hl_state := st\<rparr>)"

text \<open>\<open>hash = ngx_hash(0, c); lowcase_header[0] = c; i = 1\<close>\<close>

definition first_char :: "u8 \<Rightarrow> header \<Rightarrow> header" where
  "first_char c r = r\<lparr>header_hash := ngx_hash 0 c, lowcase_header := (lowcase_header r)[0 := c],
                     lowcase_index := 1\<rparr>"

text \<open>\<open>hash = ngx_hash(hash, c); lowcase_header[i++] = c; i &= NGX_HTTP_LC_HEADER_LEN - 1\<close>\<close>

definition next_char :: "u8 \<Rightarrow> header \<Rightarrow> header" where
  "next_char c r = r\<lparr>header_hash := ngx_hash (header_hash r) c,
                    lowcase_header := (lowcase_header r)[lowcase_index r := c],
                    lowcase_index := (lowcase_index r + 1) AND (NGX_HTTP_LC_HEADER_LEN - 1)\<rparr>"

definition hl_start_step :: "bool \<Rightarrow> nat \<Rightarrow> u8 \<Rightarrow> header \<Rightarrow> hl_outcome" where
  "hl_start_step allow_underscores p ch r =
     (let r = r\<lparr>header_name_start := p, invalid_header := False\<rparr> in
      if ch = CR then hl_goto hl_header_almost_done (r\<lparr>header_end := p\<rparr>)
      else if ch = LF then Halt (r\<lparr>header_end := p\<rparr>) Hl_header_done
      else let r = r\<lparr>hl_state := hl_name\<rparr>; c = lowcase ch in
        if c \<noteq> 0 then Go (first_char c r)
        else if ch = ch_underscore then
          Go (if allow_underscores then first_char ch r else r\<lparr>invalid_header := True\<rparr>)
        else if ch = NUL then Halt r Hl_invalid
        else Go (r\<lparr>invalid_header := True\<rparr>))"

definition hl_name_step :: "bool \<Rightarrow> bytes \<Rightarrow> nat \<Rightarrow> u8 \<Rightarrow> header \<Rightarrow> hl_outcome" where
  "hl_name_step allow_underscores buf p ch r =
     (let c = lowcase ch in
      if c \<noteq> 0 then Go (next_char c r)
      else if ch = ch_underscore then
        Go (if allow_underscores then next_char ch r else r\<lparr>invalid_header := True\<rparr>)
      else if ch = ch_colon then hl_goto hl_space_before_value (r\<lparr>header_name_end := p\<rparr>)
      else if ch = CR then
        hl_goto hl_almost_done (r\<lparr>header_name_end := p, header_start := p, header_end := p\<rparr>)
      else if ch = LF then
        Halt (r\<lparr>header_name_end := p, header_start := p, header_end := p\<rparr>) Hl_done
      else if ch = ch_slash \<and> upstream r \<and> p - header_name_start r = 4 \<and>
          slice (header_name_start r) p buf = bytes_of ''HTTP'' then hl_goto hl_ignore_line r
      else if ch = NUL then Halt r Hl_invalid
      else Go (r\<lparr>invalid_header := True\<rparr>))"

definition hl_space_before_value_step :: "nat \<Rightarrow> u8 \<Rightarrow> header \<Rightarrow> hl_outcome" where
  "hl_space_before_value_step p ch r =
     (if ch = SP then Go r
      else if ch = CR then hl_goto hl_almost_done (r\<lparr>header_start := p, header_end := p\<rparr>)
      else if ch = LF then Halt (r\<lparr>header_start := p, header_end := p\<rparr>) Hl_done
      else if ch = NUL then Halt r Hl_invalid
      else hl_goto hl_value (r\<lparr>header_start := p\<rparr>))"

definition hl_value_step :: "nat \<Rightarrow> u8 \<Rightarrow> header \<Rightarrow> hl_outcome" where
  "hl_value_step p ch r =
     (if ch = SP then hl_goto hl_space_after_value (r\<lparr>header_end := p\<rparr>)
      else if ch = CR then hl_goto hl_almost_done (r\<lparr>header_end := p\<rparr>)
      else if ch = LF then Halt (r\<lparr>header_end := p\<rparr>) Hl_done
      else if ch = NUL then Halt r Hl_invalid
      else Go r)"

definition hl_space_after_value_step :: "u8 \<Rightarrow> header \<Rightarrow> hl_outcome" where
  "hl_space_after_value_step ch r =
     (if ch = SP then Go r
      else if ch = CR then hl_goto hl_almost_done r
      else if ch = LF then Halt r Hl_done
      else if ch = NUL then Halt r Hl_invalid
      else hl_goto hl_value r)"

definition hl_ignore_line_step :: "u8 \<Rightarrow> header \<Rightarrow> hl_outcome" where
  "hl_ignore_line_step ch r = (if ch = LF then hl_goto hl_start r else Go r)"

definition hl_almost_done_step :: "u8 \<Rightarrow> header \<Rightarrow> hl_outcome" where
  "hl_almost_done_step ch r =
     (if ch = LF then Halt r Hl_done else if ch = CR then Go r else Halt r Hl_invalid)"

definition hl_header_almost_done_step :: "u8 \<Rightarrow> header \<Rightarrow> hl_outcome" where
  "hl_header_almost_done_step ch r =
     (if ch = LF then Halt r Hl_header_done else Halt r Hl_invalid)"

definition hl_step :: "bool \<Rightarrow> bytes \<Rightarrow> nat \<Rightarrow> header \<Rightarrow> hl_outcome" where
  "hl_step allow_underscores buf p r =
     (let ch = buf ! p in
      case hl_state r of
        hl_start \<Rightarrow> hl_start_step allow_underscores p ch r
      | hl_name \<Rightarrow> hl_name_step allow_underscores buf p ch r
      | hl_space_before_value \<Rightarrow> hl_space_before_value_step p ch r
      | hl_value \<Rightarrow> hl_value_step p ch r
      | hl_space_after_value \<Rightarrow> hl_space_after_value_step ch r
      | hl_ignore_line \<Rightarrow> hl_ignore_line_step ch r
      | hl_almost_done \<Rightarrow> hl_almost_done_step ch r
      | hl_header_almost_done \<Rightarrow> hl_header_almost_done_step ch r)"

text \<open>
  The code after the loop. \<open>hash\<close> and \<open>i\<close> are local copies: \<open>header_done\<close> and the error
  returns do not store them, and the error returns do not store the state either.
\<close>

definition ngx_http_parse_header_line ::
  "bool \<Rightarrow> header \<Rightarrow> ngx_buf_t \<Rightarrow> ngx_rc \<times> header \<times> ngx_buf_t" where
  "ngx_http_parse_header_line allow_underscores r b =
     (case scan (hl_step allow_underscores) (data b) (pos b) r of
        (p, Go r') \<Rightarrow> (NGX_AGAIN, r', b\<lparr>pos := p\<rparr>)
      | (p, Halt r' Hl_done) \<Rightarrow> (NGX_OK, r'\<lparr>hl_state := hl_start\<rparr>, b\<lparr>pos := p + 1\<rparr>)
      | (p, Halt r' Hl_header_done) \<Rightarrow>
          (NGX_HTTP_PARSE_HEADER_DONE,
           r'\<lparr>hl_state := hl_start, header_hash := header_hash r, lowcase_index := lowcase_index r\<rparr>,
           b\<lparr>pos := p + 1\<rparr>)
      | (p, Halt r' Hl_invalid) \<Rightarrow>
          (NGX_HTTP_PARSE_INVALID_HEADER,
           r'\<lparr>hl_state := hl_state r, header_hash := header_hash r, lowcase_index := lowcase_index r\<rparr>,
           b))"

lemmas hl_step_defs = hl_start_step_def hl_name_step_def hl_space_before_value_step_def
  hl_value_step_def hl_space_after_value_step_def hl_ignore_line_step_def hl_almost_done_step_def
  hl_header_almost_done_step_def

section \<open>Independence of fragmentation\<close>

text \<open>
  \<open>forget_line\<close> blanks what a return does not store: nothing with \<open>NGX_OK\<close> and \<open>NGX_AGAIN\<close>, the hash
  and the ring index at the end of the headers, and these two and the state with an error.
\<close>

definition hl_exit_code :: "nat \<Rightarrow> header \<Rightarrow> hl_exit \<Rightarrow> ngx_rc \<times> header" where
  "hl_exit_code p r x =
     (case x of Hl_done \<Rightarrow> NGX_OK | Hl_header_done \<Rightarrow> NGX_HTTP_PARSE_HEADER_DONE
              | Hl_invalid \<Rightarrow> NGX_HTTP_PARSE_INVALID_HEADER, r\<lparr>hl_state := hl_start\<rparr>)"

definition forget_line :: "ngx_rc \<times> header \<Rightarrow> ngx_rc \<times> header" where
  "forget_line x =
     (case x of
        (NGX_OK, r) \<Rightarrow> (NGX_OK, r)
      | (NGX_AGAIN, r) \<Rightarrow> (NGX_AGAIN, r)
      | (NGX_HTTP_PARSE_HEADER_DONE, r) \<Rightarrow> (NGX_HTTP_PARSE_HEADER_DONE, r\<lparr>header_hash := 0, lowcase_index := 0\<rparr>)
      | (rc, r) \<Rightarrow> (rc, r\<lparr>hl_state := hl_start, header_hash := 0, lowcase_index := 0\<rparr>))"

interpretation hl: resumable "hl_step allow_underscores" for allow_underscores
proof
  fix p and xs ys :: bytes and r
  assume "p < length xs"
  then show "hl_step allow_underscores (xs @ ys) p r = hl_step allow_underscores xs p r"
    by (cases "hl_state r") (simp_all add: hl_step_def nth_append hl_name_step_def slice_def Let_def)
qed

interpretation hl: incremental "hl_step allow_underscores" "ngx_http_parse_header_line allow_underscores"
  hl_exit_code forget_line for allow_underscores
proof
  fix b :: ngx_buf_t and r q r'
  assume "scan (hl_step allow_underscores) (data b) (pos b) r = (q, Go r')"
  then show "ngx_http_parse_header_line allow_underscores r b = (NGX_AGAIN, r', b\<lparr>pos := q\<rparr>)"
    by (simp add: ngx_http_parse_header_line_def)
next
  fix b :: ngx_buf_t and r q r' x
  assume "scan (hl_step allow_underscores) (data b) (pos b) r = (q, Halt r' x)"
  then show "forget_line (call (ngx_http_parse_header_line allow_underscores) r b) =
      forget_line (hl_exit_code q r' x)"
    by (cases x) (auto simp: call_def ngx_http_parse_header_line_def hl_exit_code_def forget_line_def)
next
  fix buf p r r' x
  show "fst (hl_exit_code p r' x) \<noteq> NGX_AGAIN"
    by (cases x) (simp_all add: hl_exit_code_def)
next
  fix x :: "ngx_rc \<times> header"
  show "fst (forget_line x) = fst x" by (simp add: forget_line_def split: prod.split ngx_rc.split)
qed

section \<open>What a valid header line leaves\<close>

definition header_char :: "bool \<Rightarrow> u8 \<Rightarrow> bool" where
  "header_char allow_underscores ch \<longleftrightarrow> lowcase ch \<noteq> 0 \<or> ch = ch_underscore \<and> allow_underscores"

definition low_char :: "u8 \<Rightarrow> u8" where
  "low_char ch = (if ch = ch_underscore then ch else lowcase ch)"

definition hash_key :: "bytes \<Rightarrow> u64" where
  "hash_key = foldl ngx_hash 0"

lemma lowcase_values:
  "lowcase ch =
    (if ch_A \<le> ch \<and> ch \<le> ch_Z then ch + 32
     else if ch_a \<le> ch \<and> ch \<le> ch_z \<or> ch_0 \<le> ch \<and> ch \<le> ch_9 \<or> ch = ch_minus then ch else 0)"
proof -
  have "\<forall>ch. lowcase ch =
    (if ch_A \<le> ch \<and> ch \<le> ch_Z then ch + 32
     else if ch_a \<le> ch \<and> ch \<le> ch_z \<or> ch_0 \<le> ch \<and> ch \<le> ch_9 \<or> ch = ch_minus then ch else 0)"
    unfolding all_bytes
    by (simp add: lowcase_def lowcase_table_def nth_append) (simp add: word_le_def)
  then show ?thesis by blast
qed

definition name_ok :: "bool \<Rightarrow> bytes \<Rightarrow> header \<Rightarrow> bool" where
  "name_ok allow_underscores nm r \<longleftrightarrow>
     (\<not> invalid_header r \<longrightarrow>
        list_all (header_char allow_underscores) nm \<and>
        header_hash r = hash_key (map low_char nm) \<and>
        lowcase_index r = length nm mod NGX_HTTP_LC_HEADER_LEN \<and>
        (length nm \<le> NGX_HTTP_LC_HEADER_LEN \<longrightarrow> take (length nm) (lowcase_header r) = map low_char nm))"

definition ring_ok :: "header \<Rightarrow> bool" where
  "ring_ok r \<longleftrightarrow> length (lowcase_header r) = NGX_HTTP_LC_HEADER_LEN \<and> lowcase_index r < NGX_HTTP_LC_HEADER_LEN"

lemma and_31: "(n::nat) AND (NGX_HTTP_LC_HEADER_LEN - 1) = n mod NGX_HTTP_LC_HEADER_LEN"
proof -
  have "(n::nat) AND mask 5 = n mod 2 ^ 5" by (simp only: take_bit_eq_mask [symmetric] take_bit_eq_mod)
  then show ?thesis by (simp add: NGX_HTTP_LC_HEADER_LEN_def mask_eq_exp_minus_1)
qed

lemmas ring_index = and_31 and_31 [unfolded One_nat_def]

lemma lc_len_pos [simp]: "0 < NGX_HTTP_LC_HEADER_LEN" "Suc 0 < NGX_HTTP_LC_HEADER_LEN"
  by (simp_all add: NGX_HTTP_LC_HEADER_LEN_def)

lemma lowcase_underscore [simp]: "lowcase ch_underscore = 0"
  by (simp add: lowcase_def lowcase_table_def nth_append)

lemma ring_ok_chars [simp]:
  "ring_ok r \<Longrightarrow> ring_ok (first_char c r)" "ring_ok r \<Longrightarrow> ring_ok (next_char c r)"
  by (simp_all add: ring_ok_def first_char_def next_char_def ring_index)

lemma char_simps [simp]:
  "hl_state (first_char c r) = hl_state r" "hl_state (next_char c r) = hl_state r"
  "header_name_start (first_char c r) = header_name_start r"
  "header_name_start (next_char c r) = header_name_start r"
  "invalid_header (first_char c r) = invalid_header r" "invalid_header (next_char c r) = invalid_header r"
  by (simp_all add: first_char_def next_char_def)

lemma name_ok_first:
  assumes "header_char au ch" "ring_ok r" "c = low_char ch"
  shows "name_ok au [ch] (first_char c r)"
proof -
  from assms(2) have "lowcase_header r \<noteq> []" by (auto simp: ring_ok_def NGX_HTTP_LC_HEADER_LEN_def)
  then show ?thesis using assms
    by (cases "lowcase_header r") (auto simp: name_ok_def first_char_def hash_key_def NGX_HTTP_LC_HEADER_LEN_def)
qed

lemma name_ok_next:
  assumes "name_ok au nm r" "header_char au ch" "ring_ok r" "c = low_char ch"
  shows "name_ok au (nm @ [ch]) (next_char c r)"
  using assms
  by (auto simp: name_ok_def next_char_def hash_key_def ring_ok_def ring_index take_Suc_conv_app_nth mod_Suc_eq)

definition hl_inv :: "bool \<Rightarrow> bytes \<Rightarrow> nat \<Rightarrow> header \<Rightarrow> bool" where
  "hl_inv au buf p r \<longleftrightarrow> ring_ok r \<and>
     (case hl_state r of
        hl_name \<Rightarrow> header_name_start r < p \<and> name_ok au (slice (header_name_start r) p buf) r
      | hl_start \<Rightarrow> True | hl_ignore_line \<Rightarrow> True | hl_header_almost_done \<Rightarrow> True
      | st \<Rightarrow> header_name_start r < header_name_end r \<and> header_name_end r < p \<and>
          name_ok au (slice (header_name_start r) (header_name_end r) buf) r \<and>
          (st \<noteq> hl_space_before_value \<longrightarrow> header_name_end r \<le> header_start r \<and> header_start r < p) \<and>
          (st \<in> {hl_space_after_value, hl_almost_done} \<longrightarrow> header_start r \<le> header_end r \<and> header_end r < p))"

definition hl_final :: "bool \<Rightarrow> bytes \<Rightarrow> nat \<Rightarrow> header \<Rightarrow> bool" where
  "hl_final au buf p r \<longleftrightarrow> ring_ok r \<and>
     header_name_start r < header_name_end r \<and> header_name_end r \<le> header_start r \<and>
     header_start r \<le> header_end r \<and> header_end r \<le> p \<and>
     name_ok au (slice (header_name_start r) (header_name_end r) buf) r"

lemma ring_ok_update [simp]:
  "ring_ok (r\<lparr>hl_state := s\<rparr>) = ring_ok r" "ring_ok (r\<lparr>header_name_start := x\<rparr>) = ring_ok r"
  "ring_ok (r\<lparr>header_name_end := x\<rparr>) = ring_ok r" "ring_ok (r\<lparr>header_start := x\<rparr>) = ring_ok r"
  "ring_ok (r\<lparr>header_end := x\<rparr>) = ring_ok r" "ring_ok (r\<lparr>invalid_header := v\<rparr>) = ring_ok r"
  by (simp_all add: ring_ok_def)

lemma name_ok_update [simp]:
  "name_ok au nm (r\<lparr>hl_state := s\<rparr>) = name_ok au nm r"
  "name_ok au nm (r\<lparr>header_name_start := x\<rparr>) = name_ok au nm r"
  "name_ok au nm (r\<lparr>header_name_end := x\<rparr>) = name_ok au nm r"
  "name_ok au nm (r\<lparr>header_start := x\<rparr>) = name_ok au nm r"
  "name_ok au nm (r\<lparr>header_end := x\<rparr>) = name_ok au nm r"
  "name_ok au nm (r\<lparr>invalid_header := True\<rparr>)"
  by (simp_all add: name_ok_def)

lemma slice_one: "p < length buf \<Longrightarrow> slice p (Suc p) buf = [buf ! p]"
  by (simp add: slice_Suc) (simp add: slice_def)

lemma hl_start_inv:
  assumes "ring_ok r" "p < length buf"
  shows "case hl_start_step au p (buf ! p) r of Go r' \<Rightarrow> hl_inv au buf (Suc p) r' | Halt r' x \<Rightarrow> x \<noteq> Hl_done"
proof -
  let ?ch = "buf ! p" and ?r = "r\<lparr>header_name_start := p, invalid_header := False, hl_state := hl_name\<rparr>"
  have f: "header_char au ?ch \<Longrightarrow> hl_inv au buf (Suc p) (first_char (low_char ?ch) ?r)"
    using assms name_ok_first [of au ?ch ?r] by (simp add: hl_inv_def slice_one)
  have g: "hl_inv au buf (Suc p) (?r\<lparr>invalid_header := True\<rparr>)"
    using assms by (simp add: hl_inv_def del: header.update_convs)
  consider "?ch = CR" | "?ch = LF" | "lowcase ?ch \<noteq> 0" "?ch \<noteq> CR" "?ch \<noteq> LF" | "?ch = ch_underscore"
    | "lowcase ?ch = 0" "?ch \<noteq> ch_underscore" "?ch \<noteq> CR" "?ch \<noteq> LF" by blast
  then show ?thesis
  proof cases
    case 3
    then have "?ch \<noteq> ch_underscore" by auto
    with 3 f show ?thesis by (simp add: hl_start_step_def Let_def header_char_def low_char_def)
  next
    case 4
    with f g show ?thesis
      by (cases au) (simp_all add: hl_start_step_def Let_def header_char_def low_char_def)
  qed (use assms g in \<open>simp_all add: hl_start_step_def Let_def hl_inv_def\<close>)
qed

lemma hl_name_inv:
  assumes "hl_inv au buf p r" "p < length buf" "hl_state r = hl_name"
  shows "case hl_name_step au buf p (buf ! p) r of
    Go r' \<Rightarrow> hl_inv au buf (Suc p) r' | Halt r' x \<Rightarrow> x = Hl_done \<longrightarrow> hl_final au buf p r'"
proof -
  let ?ch = "buf ! p"
  have f: "header_char au ?ch \<Longrightarrow> hl_inv au buf (Suc p) (next_char (low_char ?ch) r)"
    using assms name_ok_next [of au "slice (header_name_start r) p buf" r ?ch]
    by (simp add: hl_inv_def slice_Suc)
  consider "lowcase ?ch \<noteq> 0" | "?ch = ch_underscore" | "lowcase ?ch = 0" "?ch \<noteq> ch_underscore" by blast
  then show ?thesis
  proof cases
    case 1
    then have "?ch \<noteq> ch_underscore" by auto
    with 1 f show ?thesis by (simp add: hl_name_step_def Let_def header_char_def low_char_def)
  next
    case 2
    with f assms show ?thesis
      by (cases au) (simp_all add: hl_name_step_def Let_def header_char_def low_char_def hl_inv_def)
  next
    case 3
    with assms show ?thesis by (auto simp: hl_name_step_def Let_def hl_inv_def hl_final_def)
  qed
qed

lemma hl_step_inv:
  assumes "hl_inv au buf p r" "p < length buf"
  shows "case hl_step au buf p r of Go r' \<Rightarrow> hl_inv au buf (Suc p) r' | Halt r' x \<Rightarrow> x = Hl_done \<longrightarrow> hl_final au buf p r'"
proof (cases "hl_state r")
  case hl_start
  with hl_start_inv [of r p buf au] assms show ?thesis
    by (auto simp: hl_step_def hl_inv_def Let_def split: outcome.splits)
next
  case hl_name
  with hl_name_inv [OF assms] show ?thesis by (simp add: hl_step_def)
qed (use assms in \<open>auto simp: hl_step_def Let_def hl_inv_def hl_final_def hl_step_defs\<close>)

lemma hl_line_final:
  assumes "ngx_http_parse_header_line au r b = (NGX_OK, r', b')" "ring_ok r" "hl_state r = hl_start"
    "pos b \<le> length (data b)"
  shows "hl_final au (data b) (pos b' - 1) r' \<and> pos b < pos b' \<and> pos b' \<le> length (data b)"
proof -
  obtain q x where sc: "scan (hl_step au) (data b) (pos b) r = (q, x)"
    by (cases "scan (hl_step au) (data b) (pos b) r")
  have "hl_inv au (data b) (pos b) r" using assms by (simp add: hl_inv_def)
  then have "case scan (hl_step au) (data b) (pos b) r of
      (q, Go s') \<Rightarrow> q = length (data b) \<and> hl_inv au (data b) q s'
    | (q, Halt s' x) \<Rightarrow> pos b \<le> q \<and> q < length (data b) \<and> (x = Hl_done \<longrightarrow> hl_final au (data b) q s')"
    by (rule scan_rule) (use assms hl_step_inv in \<open>fastforce+\<close>)
  with assms(1) sc show ?thesis
    by (auto simp: ngx_http_parse_header_line_def hl_final_def split: outcome.splits hl_exit.splits)
qed

section \<open>Reading back a printed header line\<close>

definition value_char :: "u8 \<Rightarrow> bool" where
  "value_char ch \<longleftrightarrow> ch \<notin> {NUL, CR, LF}"

definition header_line_text :: "bytes \<Rightarrow> bytes \<Rightarrow> bytes" where
  "header_line_text nm val = nm @ [ch_colon, SP] @ val @ [CR, LF]"

lemma hl_step_name_char:
  assumes "header_char au (buf ! p)" "hl_state r = hl_name"
  shows "hl_step au buf p r = Go (next_char (low_char (buf ! p)) r)"
  using assms
  by (cases "buf ! p = ch_underscore") (simp_all add: hl_step_def hl_name_step_def header_char_def low_char_def)

lemma hl_scan_name:
  assumes "buf = pre @ nm @ post" "list_all (header_char au) nm" "hl_state r = hl_name"
  shows "\<exists>r'. scan (hl_step au) buf (length pre) r = scan (hl_step au) buf (length (pre @ nm)) r' \<and>
    hl_state r' = hl_name \<and> header_name_start r' = header_name_start r \<and> invalid_header r' = invalid_header r"
  using assms
proof (induction nm arbitrary: pre r)
  case (Cons c nm)
  define r1 where "r1 = next_char (low_char c) r"
  have "buf ! length pre = c" using Cons.prems by simp
  then have "hl_step au buf (length pre) r = Go r1"
    using hl_step_name_char [of au buf "length pre" r] Cons.prems by (simp add: r1_def)
  then have "scan (hl_step au) buf (length pre) r = scan (hl_step au) buf (length (pre @ [c])) r1"
    using Cons.prems by (intro scan_byte) auto
  with Cons.IH [of "pre @ [c]" r1] Cons.prems show ?case by (auto simp: r1_def)
qed auto

text \<open>Everything but the state and the end of the value.\<close>

definition hl_found :: "header \<Rightarrow> header" where
  "hl_found r = r\<lparr>header_end := 0, hl_state := hl_start\<rparr>"

lemma hl_step_value_char:
  assumes "value_char (buf ! p)" "hl_state r \<in> {hl_value, hl_space_after_value}"
  shows "\<exists>r'. hl_step au buf p r = Go r' \<and> hl_found r' = hl_found r \<and>
    hl_state r' = (if buf ! p = SP then hl_space_after_value else hl_value)"
proof (cases "hl_state r = hl_value")
  case True
  with assms show ?thesis by (simp add: hl_step_def hl_value_step_def value_char_def hl_found_def)
next
  case False
  with assms show ?thesis by (simp add: hl_step_def hl_space_after_value_step_def value_char_def hl_found_def)
qed

lemma hl_scan_value:
  assumes "buf = pre @ val @ post" "list_all value_char val" "hl_state r \<in> {hl_value, hl_space_after_value}"
  shows "\<exists>r'. scan (hl_step au) buf (length pre) r = scan (hl_step au) buf (length (pre @ val)) r' \<and>
    hl_found r' = hl_found r \<and>
    hl_state r' = (if val = [] then hl_state r else if last val = SP then hl_space_after_value else hl_value)"
  using assms
proof (induction val arbitrary: pre r)
  case (Cons c val)
  have c: "buf ! length pre = c" using Cons.prems by simp
  from hl_step_value_char [of buf "length pre" r au] Cons.prems obtain r1 where
    r1: "hl_step au buf (length pre) r = Go r1" "hl_found r1 = hl_found r"
      "hl_state r1 = (if c = SP then hl_space_after_value else hl_value)"
    unfolding c by auto
  then have s1: "scan (hl_step au) buf (length pre) r = scan (hl_step au) buf (length (pre @ [c])) r1"
    using Cons.prems by (intro scan_byte) auto
  from r1(3) have st1: "hl_state r1 \<in> {hl_value, hl_space_after_value}" by simp
  from Cons.IH [of "pre @ [c]" r1, OF _ _ st1] Cons.prems obtain r2 where
    "scan (hl_step au) buf (length (pre @ [c])) r1 = scan (hl_step au) buf (length ((pre @ [c]) @ val)) r2"
    "hl_found r2 = hl_found r1"
    "hl_state r2 = (if val = [] then hl_state r1 else if last val = SP then hl_space_after_value else hl_value)"
    by auto
  with s1 r1 show ?case by (intro exI [of _ r2]) auto
qed auto

lemma header_char_plain:
  "header_char au ch \<Longrightarrow> ch \<notin> {CR, LF}"
  by (auto simp: header_char_def lowcase_values)

lemma hl_scan_crlf:
  assumes "buf = pre @ CR # LF # post" "hl_state r = hl_value"
  shows "scan (hl_step au) buf (length pre) r =
    (length pre + 1, Halt (r\<lparr>header_end := length pre, hl_state := hl_almost_done\<rparr>) Hl_done)"
proof -
  let ?r = "r\<lparr>header_end := length pre, hl_state := hl_almost_done\<rparr>"
  have n: "buf ! length pre = CR" "buf ! (length pre + 1) = LF" "length pre + 1 < length buf"
    using assms(1) by (simp_all add: nth_append)
  have "hl_step au buf (length pre) r = Go ?r"
    unfolding hl_step_def n(1) using assms(2) by (simp add: hl_value_step_def)
  moreover have "hl_step au buf (length pre + 1) ?r = Halt ?r Hl_done"
    unfolding hl_step_def n(2) by (simp add: hl_almost_done_step_def)
  ultimately show ?thesis using n(3) by (simp add: scan_Go scan_Halt)
qed

lemma hl_line_read:
  assumes nm: "list_all (header_char au) nm" "nm \<noteq> []"
    and val: "list_all value_char val" "val \<noteq> []" "hd val \<noteq> SP" "last val \<noteq> SP"
    and r: "hl_state r = hl_start" "ring_ok r" and buf: "buf = header_line_text nm val @ rest"
  shows "\<exists>r'. ngx_http_parse_header_line au r \<lparr>data = buf, pos = 0\<rparr> =
      (NGX_OK, r', \<lparr>data = buf, pos = length (header_line_text nm val)\<rparr>) \<and>
    header_name_start r' = 0 \<and> header_name_end r' = length nm \<and> header_start r' = length nm + 2 \<and>
    header_end r' = length nm + 2 + length val \<and> \<not> invalid_header r'"
proof -
  obtain c nm' where c: "nm = c # nm'" "header_char au c" "list_all (header_char au) nm'"
    using nm by (cases nm) auto
  obtain v val' where v: "val = v # val'" "value_char v" "list_all value_char val'" "v \<noteq> SP"
    using val by (cases val) auto
  define r1 where "r1 = first_char (low_char c) (r\<lparr>header_name_start := 0, invalid_header := False, hl_state := hl_name\<rparr>)"
  have "hl_step au buf 0 r = Go r1"
    using c r header_char_plain [OF c(2)]
    by (cases "c = ch_underscore")
      (simp_all add: buf header_line_text_def hl_step_def hl_start_step_def header_char_def low_char_def r1_def Let_def)
  then have s1: "scan (hl_step au) buf 0 r = scan (hl_step au) buf (length [c]) r1"
    using c buf by (simp add: scan_Go header_line_text_def)
  obtain r2 where r2: "scan (hl_step au) buf (length [c]) r1 = scan (hl_step au) buf (length ([c] @ nm')) r2"
    "hl_state r2 = hl_name" "header_name_start r2 = 0" "\<not> invalid_header r2"
    using hl_scan_name [of buf "[c]" nm' _ au r1] c(3) by (auto simp: buf header_line_text_def c r1_def)
  define r3 where "r3 = r2\<lparr>header_name_end := length nm, hl_state := hl_space_before_value\<rparr>"
  have s3: "scan (hl_step au) buf (length nm) r2 = scan (hl_step au) buf (length (nm @ [ch_colon])) r3"
    using r2 by (intro scan_byte [of _ _ _ "SP # val @ [CR, LF] @ rest"])
      (simp_all add: buf header_line_text_def hl_step_def hl_name_step_def lowcase_values r3_def)
  have s4: "scan (hl_step au) buf (length (nm @ [ch_colon])) r3 = scan (hl_step au) buf (length ((nm @ [ch_colon]) @ [SP])) r3"
    by (intro scan_byte [of _ _ _ "val @ [CR, LF] @ rest"])
      (simp_all add: buf header_line_text_def hl_step_def hl_space_before_value_step_def r3_def nth_append)
  define r5 where "r5 = r3\<lparr>header_start := length nm + 2, hl_state := hl_value\<rparr>"
  have s5: "scan (hl_step au) buf (length (nm @ [ch_colon, SP])) r3 =
      scan (hl_step au) buf (length ((nm @ [ch_colon, SP]) @ [v])) r5"
    using v by (intro scan_byte [of _ _ _ "val' @ [CR, LF] @ rest"])
      (simp_all add: buf header_line_text_def hl_step_def hl_space_before_value_step_def r3_def r5_def nth_append value_char_def)
  obtain r6 where r6: "scan (hl_step au) buf (length (nm @ [ch_colon, SP, v])) r5 =
      scan (hl_step au) buf (length ((nm @ [ch_colon, SP, v]) @ val')) r6" "hl_found r6 = hl_found r5" "hl_state r6 = hl_value"
    using hl_scan_value [of buf "nm @ [ch_colon, SP, v]" val' "[CR, LF] @ rest" r5 au] v val(4)
    by (auto simp: buf header_line_text_def r5_def split: if_splits)
  let ?pre = "nm @ [ch_colon, SP, v] @ val'"
  have s7: "scan (hl_step au) buf (length ?pre) r6 =
      (length ?pre + 1, Halt (r6\<lparr>header_end := length ?pre, hl_state := hl_almost_done\<rparr>) Hl_done)"
    using r6(3) by (intro hl_scan_crlf [where post = rest]) (simp_all add: buf header_line_text_def v)
  have f: "header_name_start r6 = 0" "header_name_end r6 = length nm" "header_start r6 = length nm + 2" "\<not> invalid_header r6"
    using r6(2) r2 by (auto simp: hl_found_def r5_def r3_def dest: arg_cong [of _ _ header_name_start]
        arg_cong [of _ _ header_name_end] arg_cong [of _ _ header_start] arg_cong [of _ _ invalid_header])
  have "scan (hl_step au) buf 0 r =
      (length ?pre + 1, Halt (r6\<lparr>header_end := length ?pre, hl_state := hl_almost_done\<rparr>) Hl_done)"
    using s1 r2(1) s3 s4 s5 r6(1) s7 by (simp add: c)
  then show ?thesis using f v by (simp add: ngx_http_parse_header_line_def header_line_text_def)
qed

section \<open>Properties\<close>

text \<open>
  C25. The header line parser does not depend on how the input arrives: feeding the bytes in any
  pieces, one call per piece from the saved state, hash and ring index, ends with the same
  return code and the same request as one call on the whole input. With \<open>NGX_OK\<close> and \<open>NGX_AGAIN\<close> all
  fields are compared, the hash and the ring index included; at the end of the headers these two,
  which the code does not store there, are left out of the comparison, and with an error also the
  state.
\<close>

theorem header_line_fragmentation:
  "forget_line (feed (ngx_http_parse_header_line au) r \<lparr>data = [], pos = 0\<rparr> pieces) =
   forget_line (call (ngx_http_parse_header_line au) r \<lparr>data = concat pieces, pos = 0\<rparr>)"
  using hl.feed_concat [of 0 "[]" au r pieces] by simp

text \<open>
  C21. When the header line parser returns \<open>NGX_OK\<close> from the start state, name and value are
  ordered slices of the input that end before the new \<open>b->pos\<close>, the ring index is inside the
  array, and unless the header was flagged invalid: every byte of the name is allowed, the
  hash is that of the lower-cased name, and when the length of the name equals the ring index
  (the test of the caller) the ring holds the lower-cased name.
\<close>

theorem header_line_correct:
  assumes "ngx_http_parse_header_line au r b = (NGX_OK, r', b')"
    and "hl_state r = hl_start" "ring_ok r" "pos b \<le> length (data b)"
    and "nm = slice (header_name_start r') (header_name_end r') (data b)"
  shows "header_name_start r' < header_name_end r' \<and> header_name_end r' \<le> header_start r' \<and>
    header_start r' \<le> header_end r' \<and> header_end r' < pos b' \<and> pos b' \<le> length (data b) \<and> ring_ok r' \<and>
    (\<not> invalid_header r' \<longrightarrow>
       list_all (header_char au) nm \<and> header_hash r' = hash_key (map low_char nm) \<and>
       (length nm = lowcase_index r' \<longrightarrow> take (length nm) (lowcase_header r') = map low_char nm))"
  using hl_line_final [OF assms(1,3,2,4)] assms(5)
  by (auto simp: hl_final_def name_ok_def ring_ok_def)

text \<open>
  A printed header line is read back: for every name of allowed bytes and every value
  without CR, LF and NUL that neither begins nor ends with a space, the parser returns
  \<open>NGX_OK\<close>, consumes exactly the line, finds the name and the value, and does not flag it.
\<close>

theorem header_line_roundtrip:
  assumes "list_all (header_char au) nm" "nm \<noteq> []"
    and "list_all value_char val" "val \<noteq> []" "hd val \<noteq> SP" "last val \<noteq> SP"
  shows "\<exists>r. ngx_http_parse_header_line au (new_header up) \<lparr>data = header_line_text nm val @ rest, pos = 0\<rparr> =
      (NGX_OK, r, \<lparr>data = header_line_text nm val @ rest, pos = length (header_line_text nm val)\<rparr>) \<and>
    slice (header_name_start r) (header_name_end r) (header_line_text nm val) = nm \<and>
    slice (header_start r) (header_end r) (header_line_text nm val) = val \<and> \<not> invalid_header r \<and>
    header_hash r = hash_key (map low_char nm)"
proof -
  let ?b = "\<lparr>data = header_line_text nm val @ rest, pos = 0\<rparr>"
  have n: "hl_state (new_header up) = hl_start" "ring_ok (new_header up)"
    by (simp_all add: new_header_def ring_ok_def)
  obtain r where r: "ngx_http_parse_header_line au (new_header up) ?b =
      (NGX_OK, r, ?b\<lparr>pos := length (header_line_text nm val)\<rparr>)"
    "header_name_start r = 0" "header_name_end r = length nm" "header_start r = length nm + 2"
    "header_end r = length nm + 2 + length val" "\<not> invalid_header r"
    using hl_line_read [OF assms n refl] by auto
  have "header_hash r = hash_key (map low_char nm)"
    using hl_line_final [OF r(1) n(2,1)] r(2-6)
    by (simp add: hl_final_def name_ok_def slice_def header_line_text_def)
  with r show ?thesis by (simp add: slice_def header_line_text_def)
qed

theorem header_line_roundtrip_witness:
  "\<exists>r. ngx_http_parse_header_line False (new_header False)
      \<lparr>data = header_line_text (bytes_of ''Host'') (bytes_of ''a b''), pos = 0\<rparr> =
      (NGX_OK, r, \<lparr>data = header_line_text (bytes_of ''Host'') (bytes_of ''a b''), pos = 11\<rparr>) \<and>
    header_hash r = hash_key (bytes_of ''host'')"
  using header_line_roundtrip [of False "bytes_of ''Host''" "bytes_of ''a b''" False "[]"]
  by (auto simp: header_char_def lowcase_values value_char_def low_char_def header_line_text_def)

theorem header_line_correct_witness:
  "\<exists>r' b'. ngx_http_parse_header_line False (new_header False)
       \<lparr>data = header_line_text (bytes_of ''Host'') (bytes_of ''ab''), pos = 0\<rparr> = (NGX_OK, r', b') \<and>
     header_start r' \<le> header_end r' \<and> header_end r' < pos b' \<and> ring_ok r'"
proof -
  have n: "hl_state (new_header False) = hl_start" "ring_ok (new_header False)"
    by (simp_all add: new_header_def ring_ok_def)
  obtain r' b' where "ngx_http_parse_header_line False (new_header False)
       \<lparr>data = header_line_text (bytes_of ''Host'') (bytes_of ''ab''), pos = 0\<rparr> = (NGX_OK, r', b')"
    using hl_line_read [of False "bytes_of ''Host''" "bytes_of ''ab''" "new_header False" _ "[]"] n
    by (auto simp: header_char_def lowcase_values value_char_def)
  with header_line_correct [OF this n _ refl] show ?thesis by auto
qed

end
