(* ===== verification/Http_Status_Line.thy ===== *)
theory Http_Status_Line
  imports Http_Request_Line
begin

text \<open>
  \<open>ngx_http_parse_status_line\<close> of \<^verbatim>\<open>src/http/ngx_http_parse.c\<close>, which reads the status line of an
  upstream response: the version, the three digits of the code and the pointers to the code and
  the reason phrase.
\<close>

datatype sl_state =
    sl_start | sl_H | sl_HT | sl_HTT | sl_HTTP | sl_first_major_digit | sl_major_digit
  | sl_first_minor_digit | sl_minor_digit | sl_status | sl_space_after_status
  | sl_status_text | sl_almost_done

text \<open>The fields of \<open>ngx_http_request_t\<close> and \<open>ngx_http_status_t\<close> the function uses.\<close>

record status =
  sl_state :: sl_state
  sl_http_major :: nat
  sl_http_minor :: nat
  status_http_version :: nat
  status_code :: nat
  status_count :: nat
  status_start :: "nat option"
  status_end :: "nat option"

definition new_status :: status where
  "new_status = \<lparr> sl_state = sl_start, sl_http_major = 0, sl_http_minor = 0,
     status_http_version = 0, status_code = 0, status_count = 0, status_start = None,
     status_end = None \<rparr>"

type_synonym sl_outcome = "(status, loop_exit) outcome"

abbreviation sl_goto :: "sl_state \<Rightarrow> status \<Rightarrow> sl_outcome" where
  "sl_goto st r \<equiv> Go (r\<lparr>sl_state := st\<rparr>)"

abbreviation sl_error :: "status \<Rightarrow> sl_outcome" where
  "sl_error r \<equiv> Halt r (Return NGX_ERROR)"

definition sl_expect :: "u8 \<Rightarrow> sl_state \<Rightarrow> u8 \<Rightarrow> status \<Rightarrow> sl_outcome" where
  "sl_expect c st ch r = (if ch = c then sl_goto st r else sl_error r)"

definition sl_first_major :: "u8 \<Rightarrow> status \<Rightarrow> sl_outcome" where
  "sl_first_major ch r =
     (if ch < ch_1 \<or> ch > ch_9 then sl_error r
      else sl_goto sl_major_digit (r\<lparr>sl_http_major := unat (ch - ch_0)\<rparr>))"

definition sl_major :: "u8 \<Rightarrow> status \<Rightarrow> sl_outcome" where
  "sl_major ch r =
     (if ch = ch_dot then sl_goto sl_first_minor_digit r
      else if ch < ch_0 \<or> ch > ch_9 then sl_error r
      else if sl_http_major r > 99 then sl_error r
      else Go (r\<lparr>sl_http_major := sl_http_major r * 10 + unat (ch - ch_0)\<rparr>))"

definition sl_first_minor :: "u8 \<Rightarrow> status \<Rightarrow> sl_outcome" where
  "sl_first_minor ch r =
     (if ch < ch_0 \<or> ch > ch_9 then sl_error r
      else sl_goto sl_minor_digit (r\<lparr>sl_http_minor := unat (ch - ch_0)\<rparr>))"

definition sl_minor :: "u8 \<Rightarrow> status \<Rightarrow> sl_outcome" where
  "sl_minor ch r =
     (if ch = SP then sl_goto sl_status r
      else if ch < ch_0 \<or> ch > ch_9 then sl_error r
      else if sl_http_minor r > 99 then sl_error r
      else Go (r\<lparr>sl_http_minor := sl_http_minor r * 10 + unat (ch - ch_0)\<rparr>))"

definition sl_code :: "nat \<Rightarrow> u8 \<Rightarrow> status \<Rightarrow> sl_outcome" where
  "sl_code p ch r =
     (if ch = SP then Go r
      else if ch < ch_0 \<or> ch > ch_9 then sl_error r
      else let r = r\<lparr>status_code := status_code r * 10 + unat (ch - ch_0),
                     status_count := status_count r + 1\<rparr>
        in if status_count r = 3
           then sl_goto sl_space_after_status (r\<lparr>status_start := Some (p - 2)\<rparr>)
           else Go r)"

definition sl_after_code :: "u8 \<Rightarrow> status \<Rightarrow> sl_outcome" where
  "sl_after_code ch r =
     (if ch = SP then sl_goto sl_status_text r
      else if ch = ch_dot then sl_goto sl_status_text r
      else if ch = CR then sl_goto sl_almost_done r
      else if ch = LF then Halt r Goto_done
      else sl_error r)"

definition sl_text :: "u8 \<Rightarrow> status \<Rightarrow> sl_outcome" where
  "sl_text ch r =
     (if ch = CR then sl_goto sl_almost_done r
      else if ch = LF then Halt r Goto_done
      else Go r)"

definition sl_last :: "nat \<Rightarrow> u8 \<Rightarrow> status \<Rightarrow> sl_outcome" where
  "sl_last p ch r =
     (let r = r\<lparr>status_end := Some (p - 1)\<rparr> in
      if ch = LF then Halt r Goto_done else sl_error r)"

definition sl_step :: "bytes \<Rightarrow> nat \<Rightarrow> status \<Rightarrow> sl_outcome" where
  "sl_step buf p r =
     (let ch = buf ! p in
      case sl_state r of
        sl_start \<Rightarrow> sl_expect ch_H sl_H ch r
      | sl_H \<Rightarrow> sl_expect ch_T sl_HT ch r
      | sl_HT \<Rightarrow> sl_expect ch_T sl_HTT ch r
      | sl_HTT \<Rightarrow> sl_expect ch_P sl_HTTP ch r
      | sl_HTTP \<Rightarrow> sl_expect ch_slash sl_first_major_digit ch r
      | sl_first_major_digit \<Rightarrow> sl_first_major ch r
      | sl_major_digit \<Rightarrow> sl_major ch r
      | sl_first_minor_digit \<Rightarrow> sl_first_minor ch r
      | sl_minor_digit \<Rightarrow> sl_minor ch r
      | sl_status \<Rightarrow> sl_code p ch r
      | sl_space_after_status \<Rightarrow> sl_after_code ch r
      | sl_status_text \<Rightarrow> sl_text ch r
      | sl_almost_done \<Rightarrow> sl_last p ch r)"

definition sl_done :: "nat \<Rightarrow> status \<Rightarrow> status" where
  "sl_done p r = r\<lparr>status_end := (case status_end r of None \<Rightarrow> Some p | e \<Rightarrow> e),
                  status_http_version := sl_http_major r * 1000 + sl_http_minor r,
                  sl_state := sl_start\<rparr>"

definition ngx_http_parse_status_line :: "status \<Rightarrow> ngx_buf_t \<Rightarrow> ngx_rc \<times> status \<times> ngx_buf_t" where
  "ngx_http_parse_status_line r b =
     (case scan sl_step (data b) (pos b) r of
        (p, Go r') \<Rightarrow> (NGX_AGAIN, r', b\<lparr>pos := p\<rparr>)
      | (p, Halt r' Goto_done) \<Rightarrow> (NGX_OK, sl_done p r', b\<lparr>pos := p + 1\<rparr>)
      | (p, Halt r' (Return rc)) \<Rightarrow> (rc, r'\<lparr>sl_state := sl_state r\<rparr>, b))"

lemmas sl_step_defs = sl_expect_def sl_first_major_def sl_major_def sl_first_minor_def sl_minor_def
  sl_code_def sl_after_code_def sl_text_def sl_last_def

section \<open>Independence of fragmentation\<close>

definition sl_exit :: "nat \<Rightarrow> status \<Rightarrow> loop_exit \<Rightarrow> ngx_rc \<times> status" where
  "sl_exit p r x = (case x of Goto_done \<Rightarrow> (NGX_OK, sl_done p r) | Return rc \<Rightarrow> (rc, r))"

definition forget_sl_state :: "status \<Rightarrow> status" where
  "forget_sl_state r = r\<lparr>sl_state := sl_start\<rparr>"

lemma sl_Return_rc: "sl_step buf p r = Halt r' (Return rc) \<Longrightarrow> rc = NGX_ERROR"
  by (auto simp: sl_step_def Let_def sl_step_defs split: sl_state.splits if_splits)

interpretation sl: incremental sl_step ngx_http_parse_status_line sl_exit "apsnd forget_sl_state"
proof
  fix p and xs ys :: bytes and r
  assume "p < length xs"
  then show "sl_step (xs @ ys) p r = sl_step xs p r" by (simp add: sl_step_def nth_append)
next
  fix b :: ngx_buf_t and r q r'
  assume "scan sl_step (data b) (pos b) r = (q, Go r')"
  then show "ngx_http_parse_status_line r b = (NGX_AGAIN, r', b\<lparr>pos := q\<rparr>)"
    by (simp add: ngx_http_parse_status_line_def)
next
  fix b :: ngx_buf_t and r q r' x
  assume "scan sl_step (data b) (pos b) r = (q, Halt r' x)"
  then show "apsnd forget_sl_state (call ngx_http_parse_status_line r b) =
      apsnd forget_sl_state (sl_exit q r' x)"
    by (cases x) (auto simp: call_def ngx_http_parse_status_line_def sl_exit_def forget_sl_state_def)
next
  fix buf p r r' x
  assume "sl_step buf p r = Halt r' x"
  with sl_Return_rc [of buf p r r'] show "fst (sl_exit p r' x) \<noteq> NGX_AGAIN"
    by (cases x) (auto simp: sl_exit_def)
next
  fix x :: "ngx_rc \<times> status"
  show "fst (apsnd forget_sl_state x) = fst x" by simp
qed

section \<open>Invariant\<close>

text \<open>
  The version numbers stay below 1000, the code below 1000 with at most three digits, and once
  the third digit was read \<open>status->start\<close> points at or behind the start of the line; \<open>status->end\<close>
  is never in front of it.
\<close>

definition sl_inv :: "nat \<Rightarrow> nat \<Rightarrow> status \<Rightarrow> bool" where
  "sl_inv p0 p r \<longleftrightarrow> p0 \<le> p \<and>
     sl_http_major r \<le> 999 \<and> sl_http_minor r \<le> 999 \<and> status_code r < 10 ^ status_count r \<and>
     status_end r = None \<and>
     (if sl_state r \<in> {sl_space_after_status, sl_status_text, sl_almost_done}
      then status_count r = 3 \<and> (\<exists>s. status_start r = Some s \<and> p0 \<le> s \<and> s + 3 \<le> p \<and>
             (sl_state r = sl_almost_done \<longrightarrow> s + 4 \<le> p))
      else status_count r < 3 \<and> status_start r = None \<and>
           p0 + status_count r \<le> p)"

definition sl_final :: "nat \<Rightarrow> nat \<Rightarrow> status \<Rightarrow> bool" where
  "sl_final p0 p r \<longleftrightarrow> sl_http_major r \<le> 999 \<and> sl_http_minor r \<le> 999 \<and> status_code r < 1000 \<and>
     status_count r = 3 \<and>
     (\<exists>s e. status_start r = Some s \<and> p0 \<le> s \<and> s + 3 \<le> e \<and> e \<le> p \<and> status_end r = Some e)"

lemma digit_le_9: "\<not> (ch < ch_0 \<or> ch > ch_9) \<Longrightarrow> unat (ch - ch_0) \<le> 9"
  by (auto simp: unat_sub word_le_nat_alt not_less)

lemma code_digit: "d \<le> 9 \<Longrightarrow> c < 10 ^ n \<Longrightarrow> c * 10 + d < 10 * 10 ^ (n::nat)" for c d :: nat
  by (cases "10 ^ n :: nat") auto

lemma first_major_le_9: "\<not> (ch < ch_1 \<or> ch > ch_9) \<Longrightarrow> unat (ch - ch_0) \<le> 9"
  by (rule digit_le_9) (auto simp: not_less word_le_nat_alt)

lemma sl_step_inv:
  assumes "sl_inv p0 p r"
  shows "case sl_step buf p r of
      Go r' \<Rightarrow> sl_inv p0 (Suc p) r'
    | Halt r' x \<Rightarrow> x = Goto_done \<longrightarrow> sl_final p0 p (sl_done p r')"
proof (cases "sl_state r")
  case sl_first_major_digit
  then show ?thesis using assms first_major_le_9 [of "buf ! p"]
    by (auto simp: sl_step_def sl_first_major_def sl_inv_def not_less Let_def)
next
  case sl_major_digit
  then show ?thesis using assms digit_le_9 [of "buf ! p"]
    by (auto simp: sl_step_def sl_major_def sl_inv_def not_less Let_def)
next
  case sl_first_minor_digit
  then show ?thesis using assms digit_le_9 [of "buf ! p"]
    by (auto simp: sl_step_def sl_first_minor_def sl_inv_def not_less Let_def)
next
  case sl_minor_digit
  then show ?thesis using assms digit_le_9 [of "buf ! p"]
    by (auto simp: sl_step_def sl_minor_def sl_inv_def not_less Let_def)
next
  case sl_status
  then show ?thesis using assms digit_le_9 [of "buf ! p"] code_digit [of "unat (buf ! p - ch_0)" "status_code r" "status_count r"]
    by (auto simp: sl_step_def sl_code_def sl_inv_def Let_def not_less)
qed (use assms in \<open>auto simp: sl_step_def sl_step_defs sl_inv_def sl_final_def sl_done_def Let_def\<close>)

lemma sl_line_final:
  assumes "ngx_http_parse_status_line new_status b = (NGX_OK, r, b')" "pos b \<le> length (data b)"
  shows "sl_final (pos b) (pos b' - 1) r \<and> pos b < pos b' \<and> pos b' \<le> length (data b) \<and>
    status_http_version r = sl_http_major r * 1000 + sl_http_minor r"
proof -
  obtain q x where sc: "scan sl_step (data b) (pos b) new_status = (q, x)"
    by (cases "scan sl_step (data b) (pos b) new_status")
  have "sl_inv (pos b) (pos b) new_status" by (simp add: sl_inv_def new_status_def)
  then have "case scan sl_step (data b) (pos b) new_status of
      (q, Go s') \<Rightarrow> q = length (data b) \<and> sl_inv (pos b) q s'
    | (q, Halt s' x) \<Rightarrow> pos b \<le> q \<and> q < length (data b) \<and> (x = Goto_done \<longrightarrow> sl_final (pos b) q (sl_done q s'))"
    by (rule scan_rule) (use assms in \<open>auto dest: sl_step_inv [where buf = "data b"]\<close>)
  moreover have "x = Halt s (Return rc) \<Longrightarrow> rc = NGX_ERROR" for s rc
    using scan_halt_step sc sl_Return_rc by metis
  ultimately show ?thesis using assms(1) sc
    by (auto simp: ngx_http_parse_status_line_def sl_done_def split: outcome.splits loop_exit.splits)
qed

section \<open>Properties\<close>

text \<open>
  The status line parser does not depend on how the response arrives, and when it returns
  \<open>NGX_OK\<close> the version numbers are at most 999, the code has exactly three digits, and
  \<open>status->start\<close> and \<open>status->end\<close> delimit at least the three bytes of the code, inside
  the line.
\<close>

theorem status_line_correct:
  assumes "feed ngx_http_parse_status_line new_status \<lparr>data = [], pos = 0\<rparr> pieces = (NGX_OK, r)"
  shows "sl_http_major r \<le> 999 \<and> sl_http_minor r \<le> 999 \<and>
    status_http_version r = sl_http_major r * 1000 + sl_http_minor r \<and>
    status_count r = 3 \<and> status_code r < 1000 \<and>
    (\<exists>s e. status_start r = Some s \<and> status_end r = Some e \<and> s + 3 \<le> e \<and> e < length (concat pieces))"
proof -
  have "apsnd forget_sl_state (call ngx_http_parse_status_line new_status \<lparr>data = concat pieces, pos = 0\<rparr>) =
      (NGX_OK, forget_sl_state r)"
    using sl.feed_concat [of 0 "[]" new_status pieces] assms by simp
  then obtain r' b' where p: "ngx_http_parse_status_line new_status \<lparr>data = concat pieces, pos = 0\<rparr> = (NGX_OK, r', b')"
    "forget_sl_state r' = forget_sl_state r"
    by (auto simp: call_def split: prod.splits)
  note f = sl_line_final [OF p(1)]
  have "sl_http_major r' = sl_http_major r" "sl_http_minor r' = sl_http_minor r"
    "status_http_version r' = status_http_version r" "status_count r' = status_count r"
    "status_code r' = status_code r" "status_start r' = status_start r" "status_end r' = status_end r"
    using p(2) by (cases r, cases r', simp add: forget_sl_state_def)+
  with f show ?thesis by (auto simp: sl_final_def)
qed

theorem status_line_correct_witness:
  "\<exists>r. feed ngx_http_parse_status_line new_status \<lparr>data = [], pos = 0\<rparr>
       [bytes_of ''HTTP/1.1 2'', bytes_of ''04 No'' @ [LF]] = (NGX_OK, r) \<and>
     status_http_version r = 1001 \<and> status_code r = 204 \<and>
     (\<exists>s e. status_start r = Some s \<and> status_end r = Some e \<and> s + 3 \<le> e \<and> e < 16)"
proof -
  obtain r where r: "feed ngx_http_parse_status_line new_status \<lparr>data = [], pos = 0\<rparr>
       [bytes_of ''HTTP/1.1 2'', bytes_of ''04 No'' @ [LF]] = (NGX_OK, r)"
      "status_http_version r = 1001" "status_code r = 204"
    by (simp add: ngx_http_parse_status_line_def new_status_def scan.simps sl_step_def sl_step_defs
        sl_done_def)
  from status_line_correct [OF r(1)] r show ?thesis
    by (intro exI [of _ r] conjI) (simp_all add: numeral_eq_Suc)
qed

text \<open>
  The status code need not be contiguous: spaces between its digits are skipped, and
  \<open>status->start\<close>, computed as \<open>p - 2\<close>, then does not point at the first digit.
\<close>

theorem status_digits_spread:
  "\<exists>r b'. ngx_http_parse_status_line new_status \<lparr>data = bytes_of ''HTTP/1.1 2 0 4'' @ [LF], pos = 0\<rparr> =
     (NGX_OK, r, b') \<and> status_code r = 204 \<and> status_start r = Some 11"
  by (simp add: ngx_http_parse_status_line_def new_status_def scan.simps sl_step_def sl_step_defs sl_done_def)

end
