(* ===== verification/Http_Chunked.thy ===== *)
theory Http_Chunked
  imports Http_Scan Ngx_Numbers
begin

text \<open>
  The chunked transfer coding, both directions: \<open>ngx_http_parse_chunked\<close> of
  \<^verbatim>\<open>src/http/ngx_http_parse.c\<close>, its caller \<open>ngx_http_request_body_chunked_filter\<close> of
  \<^verbatim>\<open>src/http/ngx_http_request_body.c\<close>, which takes the data out of the buffers and enforces
  \<open>client_max_body_size\<close>, and the writer \<open>ngx_http_chunked_body_filter\<close> of
  \<^verbatim>\<open>src/http/modules/ngx_http_chunked_filter_module.c\<close>.

  The reference is a decoder that takes one byte at a time, data bytes included. The filter
  refines it, so that what a body decodes to does not depend on the buffers it came in; and what
  the writer produces is read back.
\<close>

section \<open>The parser\<close>

datatype ck_state =
    sw_chunk_start | sw_chunk_size | sw_chunk_extension | sw_chunk_extension_almost_done
  | sw_chunk_data | sw_after_data | sw_after_data_almost_done | sw_last_chunk_extension
  | sw_last_chunk_extension_almost_done | sw_trailer | sw_trailer_almost_done
  | sw_trailer_header | sw_trailer_header_almost_done

text \<open>\<open>ngx_http_chunked_t\<close>. \<open>size\<close> and \<open>length\<close> are \<open>off_t\<close> and never negative.\<close>

record chunked =
  ck_state :: ck_state
  ck_size :: nat
  ck_length :: nat

definition new_chunked :: chunked where
  "new_chunked = \<lparr> ck_state = sw_chunk_start, ck_size = 0, ck_length = 0 \<rparr>"

definition MAX_OFF :: nat where
  "MAX_OFF = nat NGX_MAX_OFF_T_VALUE"

datatype ck_exit = Ck_data | Ck_done | Ck_invalid

type_synonym ck_outcome = "(chunked, ck_exit) outcome"

abbreviation ck_goto :: "ck_state \<Rightarrow> chunked \<Rightarrow> ck_outcome" where
  "ck_goto st c \<equiv> Go (c\<lparr>ck_state := st\<rparr>)"

abbreviation ck_bad :: "chunked \<Rightarrow> ck_outcome" where
  "ck_bad c \<equiv> Halt c Ck_invalid"

definition ck_start_step :: "u8 \<Rightarrow> chunked \<Rightarrow> ck_outcome" where
  "ck_start_step ch ctx =
     (if ch_0 \<le> ch \<and> ch \<le> ch_9 then ck_goto sw_chunk_size (ctx\<lparr>ck_size := unat (ch - ch_0)\<rparr>)
      else let c = ch OR 0x20 in
        if ch_a \<le> c \<and> c \<le> ch_f then ck_goto sw_chunk_size (ctx\<lparr>ck_size := unat (c - ch_a + 10)\<rparr>)
        else ck_bad ctx)"

text \<open>After the size digits: end of line, an extension, or an error; \<open>size = 0\<close> is the last chunk.\<close>

definition ck_size_end :: "u8 \<Rightarrow> ck_state \<Rightarrow> ck_state \<Rightarrow> ck_state \<Rightarrow> chunked \<Rightarrow> ck_outcome" where
  "ck_size_end ch on_cr on_lf on_ext ctx =
     (if ch = CR then ck_goto on_cr ctx
      else if ch = LF then ck_goto on_lf ctx
      else if ch = ch_semi \<or> ch = SP \<or> ch = TAB then ck_goto on_ext ctx
      else ck_bad ctx)"

definition ck_size_step :: "u8 \<Rightarrow> chunked \<Rightarrow> ck_outcome" where
  "ck_size_step ch ctx =
     (if ck_size ctx > MAX_OFF div 16 then ck_bad ctx
      else if ch_0 \<le> ch \<and> ch \<le> ch_9 then Go (ctx\<lparr>ck_size := ck_size ctx * 16 + unat (ch - ch_0)\<rparr>)
      else let c = ch OR 0x20 in
        if ch_a \<le> c \<and> c \<le> ch_f then Go (ctx\<lparr>ck_size := ck_size ctx * 16 + unat (c - ch_a + 10)\<rparr>)
        else if ck_size ctx = 0 then
          ck_size_end ch sw_last_chunk_extension_almost_done sw_trailer sw_last_chunk_extension ctx
        else ck_size_end ch sw_chunk_extension_almost_done sw_chunk_data sw_chunk_extension ctx)"

text \<open>The states that skip to the end of a line, and those that wait for LF after CR.\<close>

definition ck_skip_line :: "u8 \<Rightarrow> ck_state \<Rightarrow> ck_state \<Rightarrow> chunked \<Rightarrow> ck_outcome" where
  "ck_skip_line ch on_cr on_lf ctx =
     (if ch = CR then ck_goto on_cr ctx else if ch = LF then ck_goto on_lf ctx else Go ctx)"

definition ck_expect_lf :: "u8 \<Rightarrow> ck_state \<Rightarrow> chunked \<Rightarrow> ck_outcome" where
  "ck_expect_lf ch st ctx = (if ch = LF then ck_goto st ctx else ck_bad ctx)"

definition ck_step :: "bytes \<Rightarrow> nat \<Rightarrow> chunked \<Rightarrow> ck_outcome" where
  "ck_step buf p ctx =
     (let ch = buf ! p in
      case ck_state ctx of
        sw_chunk_start \<Rightarrow> ck_start_step ch ctx
      | sw_chunk_size \<Rightarrow> ck_size_step ch ctx
      | sw_chunk_extension \<Rightarrow> ck_skip_line ch sw_chunk_extension_almost_done sw_chunk_data ctx
      | sw_chunk_extension_almost_done \<Rightarrow> ck_expect_lf ch sw_chunk_data ctx
      | sw_chunk_data \<Rightarrow> Halt ctx Ck_data
      | sw_after_data \<Rightarrow> ck_skip_line ch sw_after_data_almost_done sw_chunk_start ctx
      | sw_after_data_almost_done \<Rightarrow> ck_expect_lf ch sw_chunk_start ctx
      | sw_last_chunk_extension \<Rightarrow> ck_skip_line ch sw_last_chunk_extension_almost_done sw_trailer ctx
      | sw_last_chunk_extension_almost_done \<Rightarrow> ck_expect_lf ch sw_trailer ctx
      | sw_trailer \<Rightarrow>
          if ch = CR then ck_goto sw_trailer_almost_done ctx
          else if ch = LF then Halt ctx Ck_done
          else ck_goto sw_trailer_header ctx
      | sw_trailer_almost_done \<Rightarrow> if ch = LF then Halt ctx Ck_done else ck_bad ctx
      | sw_trailer_header \<Rightarrow> ck_skip_line ch sw_trailer_header_almost_done sw_trailer ctx
      | sw_trailer_header_almost_done \<Rightarrow> ck_expect_lf ch sw_trailer ctx)"

lemmas ck_step_defs = ck_step_def ck_start_step_def ck_size_step_def ck_size_end_def ck_skip_line_def
  ck_expect_lf_def Let_def

text \<open>What is still expected at least, by state; \<open>size\<close> is that of the current chunk.\<close>

definition ck_expected :: "chunked \<Rightarrow> nat" where
  "ck_expected ctx =
     (case ck_state ctx of
        sw_chunk_start \<Rightarrow> 3
      | sw_chunk_size \<Rightarrow> 1 + (if ck_size ctx \<noteq> 0 then ck_size ctx + 4 else 1)
      | sw_chunk_extension \<Rightarrow> 1 + ck_size ctx + 4
      | sw_chunk_extension_almost_done \<Rightarrow> 1 + ck_size ctx + 4
      | sw_chunk_data \<Rightarrow> ck_size ctx + 4
      | sw_after_data \<Rightarrow> 4
      | sw_after_data_almost_done \<Rightarrow> 4
      | sw_last_chunk_extension \<Rightarrow> 2
      | sw_last_chunk_extension_almost_done \<Rightarrow> 2
      | sw_trailer \<Rightarrow> 1
      | sw_trailer_almost_done \<Rightarrow> 1
      | sw_trailer_header \<Rightarrow> 2
      | sw_trailer_header_almost_done \<Rightarrow> 2)"

text \<open>The code at the label \<open>data\<close>, entered with \<open>rc\<close> and the position reached.\<close>

definition ck_leave :: "ngx_rc \<Rightarrow> nat \<Rightarrow> chunked \<Rightarrow> ngx_buf_t \<Rightarrow> ngx_rc \<times> chunked \<times> ngx_buf_t" where
  "ck_leave rc p ctx b =
     (if ck_size ctx > MAX_OFF - 5 then (NGX_ERROR, ctx, b\<lparr>pos := p\<rparr>)
      else (rc, ctx\<lparr>ck_length := ck_expected ctx\<rparr>, b\<lparr>pos := p\<rparr>))"

definition ck_resume_state :: "chunked \<Rightarrow> ck_state" where
  "ck_resume_state ctx =
     (if ck_state ctx = sw_chunk_data \<and> ck_size ctx = 0 then sw_after_data else ck_state ctx)"

definition ngx_http_parse_chunked :: "chunked \<Rightarrow> ngx_buf_t \<Rightarrow> ngx_rc \<times> chunked \<times> ngx_buf_t" where
  "ngx_http_parse_chunked ctx b =
     (case scan ck_step (data b) (pos b) (ctx\<lparr>ck_state := ck_resume_state ctx\<rparr>) of
        (p, Go c) \<Rightarrow> ck_leave NGX_AGAIN p c b
      | (p, Halt c Ck_data) \<Rightarrow> ck_leave NGX_OK p c b
      | (p, Halt c Ck_done) \<Rightarrow> (NGX_DONE, c\<lparr>ck_state := sw_chunk_start\<rparr>, b\<lparr>pos := p + 1\<rparr>)
      | (p, Halt c Ck_invalid) \<Rightarrow> (NGX_ERROR, c\<lparr>ck_state := ck_state ctx\<rparr>, b))"

section \<open>The request body filter\<close>

datatype body_status = BODY_OK | NGX_HTTP_BAD_REQUEST_400 | NGX_HTTP_REQUEST_ENTITY_TOO_LARGE

text \<open>
  \<open>max\<close> is \<open>client_max_body_size\<close>, 0 for no limit. \<open>b_out\<close> is the data in the chain \<open>out\<close>,
  \<open>b_last\<close> that the buffer with \<open>last_buf\<close> was added to it.
\<close>

record body =
  b_chunked :: chunked
  b_content_length :: nat
  b_rest :: nat
  b_out :: bytes
  b_last :: bool

definition new_body :: body where
  "new_body = \<lparr> b_chunked = new_chunked, b_content_length = 0, b_rest = 3, b_out = [], b_last = False \<rparr>"

lemma ck_steps_not_data [simp]:
  "ck_start_step ch c \<noteq> Halt c' Ck_data" "ck_size_step ch c \<noteq> Halt c' Ck_data"
  "ck_skip_line ch st1 st2 c \<noteq> Halt c' Ck_data" "ck_expect_lf ch st1 c \<noteq> Halt c' Ck_data"
  by (simp_all add: ck_start_step_def ck_size_step_def ck_size_end_def ck_skip_line_def
      ck_expect_lf_def Let_def)

lemma ck_data_state:
  assumes "ck_step buf p c = Halt c' Ck_data"
  shows "ck_state c = sw_chunk_data \<and> c' = c"
proof (rule ccontr)
  assume "\<not> (ck_state c = sw_chunk_data \<and> c' = c)"
  then have "ck_step buf p c \<noteq> Halt c' Ck_data"
    by (cases "ck_state c") (simp_all add: ck_step_def Let_def)
  with assms show False by contradiction
qed

lemma scan_ck_data:
  assumes "scan ck_step buf p c = (q, Halt c' Ck_data)"
  shows "ck_state c' = sw_chunk_data \<and> p \<le> q \<and> q < length buf \<and> (q = p \<longrightarrow> c' = c)"
proof -
  have "ck_state c' = sw_chunk_data" using scan_halt_step [OF assms] ck_data_state by blast
  moreover have "q = p \<Longrightarrow> c' = c"
  proof -
    assume "q = p"
    have lt: "p < length buf" using scan_halt_bounds [OF assms] by simp
    show "c' = c"
    proof (cases "ck_step buf p c")
      case (Go s)
      with lt assms have "scan ck_step buf (Suc p) s = (q, Halt c' Ck_data)" by (simp add: scan_Go)
      from scan_halt_bounds [OF this] \<open>q = p\<close> show ?thesis by simp
    next
      case (Halt s x)
      with lt assms have "s = c'" "x = Ck_data" by (simp_all add: scan_Halt)
      with ck_data_state [of buf p c] Halt show ?thesis by simp
    qed
  qed
  ultimately show ?thesis using scan_halt_bounds [OF assms] by blast
qed

lemma parse_chunked_ok:
  assumes "ngx_http_parse_chunked ctx b = (NGX_OK, ctx', b')"
  shows "ck_state ctx' = sw_chunk_data \<and> pos b \<le> pos b' \<and> pos b' < length (data b) \<and> data b' = data b \<and>
    ck_size ctx' \<le> MAX_OFF - 5 \<and>
    (pos b' = pos b \<longrightarrow> ck_resume_state ctx = sw_chunk_data \<and> ck_size ctx' = ck_size ctx)"
proof -
  obtain q c where sc: "scan ck_step (data b) (pos b) (ctx\<lparr>ck_state := ck_resume_state ctx\<rparr>) = (q, Halt c Ck_data)"
    and l: "ck_leave NGX_OK q c b = (NGX_OK, ctx', b')"
    using assms by (auto simp: ngx_http_parse_chunked_def ck_leave_def split: prod.splits outcome.splits
        ck_exit.splits if_splits)
  from scan_ck_data [OF sc] l show ?thesis
    by (auto simp: ck_leave_def split: if_splits)
qed

definition body_measure :: "body \<Rightarrow> ngx_buf_t \<Rightarrow> nat" where
  "body_measure rb b =
     2 * (length (data b) - pos b) + (if ck_resume_state (b_chunked rb) = sw_chunk_data then 1 else 0)"

text \<open>The loop over one buffer. The status is the return value; \<open>Inl\<close> leaves the function at once.\<close>

function body_buf :: "nat \<Rightarrow> body \<Rightarrow> ngx_buf_t \<Rightarrow> body_status + body \<times> ngx_buf_t" where
  "body_buf max_size rb b =
     (case ngx_http_parse_chunked (b_chunked rb) b of
        (rc, ctx, b') \<Rightarrow>
          if rc = NGX_OK then
            if max_size \<noteq> 0 \<and> int max_size - int (b_content_length rb) < int (ck_size ctx)
            then Inl NGX_HTTP_REQUEST_ENTITY_TOO_LARGE
            else
              let avail = length (data b') - pos b';
                  n = (if avail > ck_size ctx then ck_size ctx else avail)
              in body_buf max_size
                   (rb\<lparr>b_chunked := ctx\<lparr>ck_size := ck_size ctx - n\<rparr>,
                      b_content_length := b_content_length rb + n,
                      b_out := b_out rb @ take n (drop (pos b') (data b'))\<rparr>)
                   (b'\<lparr>pos := pos b' + n\<rparr>)
          else if rc = NGX_DONE then Inr (rb\<lparr>b_chunked := ctx, b_rest := 0, b_last := True\<rparr>, b')
          else if rc = NGX_AGAIN then Inr (rb\<lparr>b_chunked := ctx, b_rest := ck_length ctx\<rparr>, b')
          else Inl NGX_HTTP_BAD_REQUEST_400)"
  by pat_completeness auto

termination
proof (relation "measure (\<lambda>(m, rb, b). body_measure rb b)", goal_cases)
  case (2 m rb b rc y ctx b' avail n)
  then have p: "ngx_http_parse_chunked (b_chunked rb) b = (NGX_OK, ctx, b')" by simp
  note ok = parse_chunked_ok [OF p]
  show ?case
  proof (cases "ck_size ctx = 0")
    case True
    with 2 have "n = 0" by simp
    with True ok show ?thesis
      by (cases "pos b' = pos b") (auto simp: body_measure_def ck_resume_state_def)
  next
    case False
    with 2 ok have "0 < n" "n \<le> length (data b') - pos b'" by auto
    with ok show ?thesis by (auto simp: body_measure_def ck_resume_state_def)
  qed
qed simp

declare body_buf.simps [simp del]

text \<open>
  The loop over the chain, from the second call on (\<open>rb->rest\<close> set). The result is the new
  state of the body with what the chain \<open>out\<close> holds, and the buffers with what was left in them.
\<close>

fun body_chain :: "nat \<Rightarrow> body \<Rightarrow> ngx_buf_t list \<Rightarrow> body_status + body \<times> ngx_buf_t list" where
  "body_chain max_size rb [] = Inr (rb, [])"
| "body_chain max_size rb (b # cl) =
     (case body_buf max_size rb b of
        Inl e \<Rightarrow> Inl e
      | Inr (rb', b') \<Rightarrow>
          (case body_chain max_size rb' cl of
             Inl e \<Rightarrow> Inl e
           | Inr (rb'', cl') \<Rightarrow> Inr (rb'', b' # cl')))"

definition ngx_http_request_body_chunked_filter ::
  "nat \<Rightarrow> body \<Rightarrow> ngx_buf_t list \<Rightarrow> body_status + body \<times> ngx_buf_t list" where
  "ngx_http_request_body_chunked_filter max_size rb cl =
     body_chain max_size (rb\<lparr>b_out := [], b_last := False\<rparr>) cl"

section \<open>The writer\<close>

text \<open>
  \<open>ngx_http_chunked_body_filter\<close> on the flags \<open>r->chunked\<close> and \<open>r->header_only\<close>, the data of a
  chain of buffers and the \<open>last_buf\<close> flag of its last one; the result is the data of the chain
  passed on. \<open>%xO\<close> prints the size with no padding, in at most 16 of the 18 bytes allocated.
  Allocation failures are left out.
\<close>

definition ngx_http_chunked_body_filter :: "bool \<Rightarrow> bool \<Rightarrow> bytes list \<Rightarrow> bool \<Rightarrow> bytes" where
  "ngx_http_chunked_body_filter chunked header_only cl last_buf =
     (if cl = [] \<or> \<not> chunked \<or> header_only then concat cl
      else
        let sz = sum_list (map length cl);
            head = (if sz \<noteq> 0 then sprintf_digits (of_nat sz) 1 @ [CR, LF] else []);
            tail = (if last_buf then (if sz = 0 then [] else [CR, LF]) @ [ch_0, CR, LF, CR, LF]
                    else if sz > 0 then [CR, LF] else [])
        in head @ concat cl @ tail)"

section \<open>Reference: a decoder of single bytes\<close>

text \<open>A context without the fields that do not influence decoding: a chunk with no data left is behind its data.\<close>

definition ck_norm :: "chunked \<Rightarrow> chunked" where
  "ck_norm c = c\<lparr>ck_state := ck_resume_state c, ck_length := 0\<rparr>"

datatype dec_step = Dec_fail body_status | Dec_more chunked nat bytes | Dec_finished

text \<open>\<open>total\<close> is the number of data bytes so far.\<close>

definition dec_byte :: "nat \<Rightarrow> chunked \<Rightarrow> nat \<Rightarrow> u8 \<Rightarrow> dec_step" where
  "dec_byte max_size c0 len ch =
     (let c = ck_norm c0 in
      if ck_state c = sw_chunk_data then
        if max_size \<noteq> 0 \<and> max_size < len + ck_size c then Dec_fail NGX_HTTP_REQUEST_ENTITY_TOO_LARGE
        else Dec_more (c\<lparr>ck_size := ck_size c - 1\<rparr>) (len + 1) [ch]
      else case ck_step [ch] 0 c of
        Go c' \<Rightarrow> if ck_size c' > MAX_OFF - 5 then Dec_fail NGX_HTTP_BAD_REQUEST_400 else Dec_more c' len []
      | Halt c' Ck_done \<Rightarrow> Dec_finished
      | Halt c' _ \<Rightarrow> Dec_fail NGX_HTTP_BAD_REQUEST_400)"

datatype decoded =
    Bad body_status
  | Pending chunked nat bytes  \<comment> \<open>context, number of data bytes, data\<close>
  | Complete nat bytes bytes   \<comment> \<open>number of data bytes, data, bytes behind the body\<close>

fun emit :: "bytes \<Rightarrow> decoded \<Rightarrow> decoded" where
  "emit out (Bad e) = Bad e"
| "emit out (Pending c len d) = Pending c len (out @ d)"
| "emit out (Complete len d rest) = Complete len (out @ d) rest"

fun dec_run :: "nat \<Rightarrow> chunked \<Rightarrow> nat \<Rightarrow> bytes \<Rightarrow> decoded" where
  "dec_run max_size c len [] = Pending (ck_norm c) len []"
| "dec_run max_size c len (ch # rest) =
     (case dec_byte max_size c len ch of
        Dec_fail e \<Rightarrow> Bad e
      | Dec_finished \<Rightarrow> Complete len [] rest
      | Dec_more c' len' out \<Rightarrow> emit out (dec_run max_size c' len' rest))"

lemma emit_Nil [simp]: "emit [] d = d"
  by (cases d) simp_all

lemma emit_emit [simp]: "emit a (emit b d) = emit (a @ b) d"
  by (cases d) simp_all

lemma ck_norm_idem [simp]: "ck_norm (ck_norm c) = ck_norm c"
  by (simp add: ck_norm_def ck_resume_state_def)

lemma ck_norm_sel [simp]:
  "ck_size (ck_norm c) = ck_size c" "ck_state (ck_norm c) = ck_resume_state c"
  by (simp_all add: ck_norm_def)

lemma dec_byte_norm [simp]: "dec_byte m (ck_norm c) len ch = dec_byte m c len ch"
  by (simp add: dec_byte_def)

lemma dec_run_norm [simp]: "dec_run m (ck_norm c) len xs = dec_run m c len xs"
  by (cases xs) simp_all

lemma dec_run_cong: "ck_norm c = ck_norm c' \<Longrightarrow> dec_run m c len xs = dec_run m c' len xs"
  by (metis dec_run_norm)

lemma dec_run_resume [simp]: "dec_run m (c\<lparr>ck_state := ck_resume_state c\<rparr>) len xs = dec_run m c len xs"
  by (rule dec_run_cong) (simp add: ck_norm_def ck_resume_state_def)

lemma dec_run_length [simp]: "dec_run m (c\<lparr>ck_length := l\<rparr>) len xs = dec_run m c len xs"
  by (rule dec_run_cong) (simp add: ck_norm_def ck_resume_state_def)

section \<open>The parser against the reference\<close>

text \<open>The step does not look at \<open>length\<close>, and at no byte but its own.\<close>

fun ck_out_length :: "nat \<Rightarrow> ck_outcome \<Rightarrow> ck_outcome" where
  "ck_out_length l (Go c) = Go (c\<lparr>ck_length := l\<rparr>)"
| "ck_out_length l (Halt c x) = Halt (c\<lparr>ck_length := l\<rparr>) x"

lemma ck_step_length: "ck_step buf p (c\<lparr>ck_length := l\<rparr>) = ck_out_length l (ck_step buf p c)"
  by (cases "ck_state c") (simp_all add: ck_step_defs)

lemma ck_step_byte: "ck_step [buf ! p] 0 c = ck_step buf p c"
  by (simp add: ck_step_def)

lemma MAX_OFF_facts: "MAX_OFF div 16 < MAX_OFF - 5" "15 \<le> MAX_OFF div 16"
  by (simp_all add: MAX_OFF_def NGX_MAX_OFF_T_VALUE_def)

lemma hex_letter_unat: "ch_a \<le> c \<Longrightarrow> c \<le> ch_f \<Longrightarrow> unat (c - ch_a + 10) \<le> 15" for c :: u8
  by (simp add: unat_word_ariths word_le_nat_alt unat_sub)

lemma hex_digit_unat: "ch_0 \<le> c \<Longrightarrow> c \<le> ch_9 \<Longrightarrow> unat (c - ch_0) \<le> 15" for c :: u8
  by (simp add: word_le_nat_alt unat_sub)

text \<open>Only a size digit can push the size over the bound; then the next byte is refused.\<close>

definition size_ok :: "ck_outcome \<Rightarrow> bool" where
  "size_ok x = (case x of Go c \<Rightarrow> ck_size c \<le> MAX_OFF - 5 \<or> ck_state c = sw_chunk_size | Halt c _ \<Rightarrow> True)"

lemma size_ok_simps [simp]:
  "size_ok (Go c) \<longleftrightarrow> ck_size c \<le> MAX_OFF - 5 \<or> ck_state c = sw_chunk_size" "size_ok (Halt c x)"
  by (simp_all add: size_ok_def)

lemma ck_step_size:
  assumes "ck_size c \<le> MAX_OFF - 5"
  shows "size_ok (ck_step buf p c)"
proof (cases "ck_state c")
  case sw_chunk_start
  then show ?thesis using assms by (simp add: ck_step_def ck_start_step_def Let_def)
next
  case sw_chunk_size
  then show ?thesis using assms by (simp add: ck_step_def ck_size_step_def ck_size_end_def Let_def)
qed (use assms in \<open>simp_all add: ck_step_def Let_def ck_skip_line_def ck_expect_lf_def\<close>)

lemma scan_too_large:
  assumes "ck_size c > MAX_OFF - 5" "ck_state c = sw_chunk_size"
  shows "scan ck_step buf p c = (if p < length buf then (p, Halt c Ck_invalid) else (p, Go c))"
proof -
  have "ck_step buf p c = Halt c Ck_invalid"
    using assms MAX_OFF_facts by (simp add: ck_step_def ck_size_step_def)
  then show ?thesis by (simp add: scan_Halt)
qed

lemma scan_reference:
  assumes "ck_size c \<le> MAX_OFF - 5" "scan ck_step buf p c = (q, x)" "p \<le> length buf"
  shows "case x of
      Go c' \<Rightarrow> q = length buf \<and> dec_run m c len (drop p buf) =
        (if ck_size c' > MAX_OFF - 5 then Bad NGX_HTTP_BAD_REQUEST_400 else Pending (ck_norm c') len [])
    | Halt c' Ck_data \<Rightarrow> ck_size c' \<le> MAX_OFF - 5 \<and> dec_run m c len (drop p buf) = dec_run m c' len (drop q buf)
    | Halt c' Ck_done \<Rightarrow> dec_run m c len (drop p buf) = Complete len [] (drop (q + 1) buf)
    | Halt c' Ck_invalid \<Rightarrow> dec_run m c len (drop p buf) = Bad NGX_HTTP_BAD_REQUEST_400"
  using assms
proof (induction "length buf - p" arbitrary: p c)
  case 0
  then show ?case by auto
next
  case (Suc n)
  then have lt: "p < length buf" by simp
  then have d: "drop p buf = buf ! p # drop (Suc p) buf" by (simp add: Cons_nth_drop_Suc)
  show ?case
  proof (cases "ck_state c = sw_chunk_data")
    case True
    then have "ck_step buf p c = Halt c Ck_data" by (simp add: ck_step_def)
    with Suc.prems lt have "x = Halt c Ck_data" "q = p" by (auto simp: scan_Halt)
    with Suc.prems show ?thesis by simp
  next
    case False
    then have rs: "ck_resume_state c = ck_state c" by (simp add: ck_resume_state_def)
    have st: "ck_step [buf ! p] 0 (ck_norm c) = ck_out_length 0 (ck_step buf p c)"
      using rs ck_step_length [where buf = buf and p = p and c = c and l = 0] by (simp add: ck_norm_def ck_step_byte)
    show ?thesis
    proof (cases "ck_step buf p c")
      case (Halt c' y)
      with lt Suc.prems have "x = Halt c' y" "q = p" by (simp_all add: scan_Halt)
      with Halt False rs st ck_data_state [of buf p c] show ?thesis
        by (cases y) (auto simp: d dec_byte_def)
    next
      case (Go c')
      with lt Suc.prems have sc: "scan ck_step buf (Suc p) c' = (q, x)" by (simp add: scan_Go)
      have b: "dec_run m c len (drop p buf) = (if ck_size c' > MAX_OFF - 5 then Bad NGX_HTTP_BAD_REQUEST_400
          else dec_run m c' len (drop (Suc p) buf))"
        using Go False rs st by (simp add: d dec_byte_def)
      show ?thesis
      proof (cases "ck_size c' > MAX_OFF - 5")
        case True
        with ck_step_size [OF Suc.prems(1), of buf p] Go have "ck_state c' = sw_chunk_size" by simp
        with scan_too_large [OF True] sc b True lt show ?thesis by (auto split: if_splits)
      next
        case False
        with Suc.hyps(1) [of "Suc p" c'] Suc.hyps(2) sc lt show ?thesis unfolding b by simp
      qed
    qed
  qed
qed

text \<open>Runs of data bytes.\<close>

lemma dec_data:
  assumes "ck_state c = sw_chunk_data" "n \<le> ck_size c" "n \<le> length xs"
    and "m = 0 \<or> len + ck_size c \<le> m"
  shows "dec_run m c len xs =
    emit (take n xs) (dec_run m (c\<lparr>ck_size := ck_size c - n\<rparr>) (len + n) (drop n xs))"
  using assms
proof (induction n arbitrary: c len xs)
  case 0
  then show ?case by simp
next
  case (Suc n)
  then obtain ch xs' where xs: "xs = ch # xs'" by (cases xs) auto
  define c' where "c' = c\<lparr>ck_size := ck_size c - 1\<rparr>"
  from Suc.prems have rs: "ck_resume_state c = sw_chunk_data" by (simp add: ck_resume_state_def)
  have "dec_byte m c len ch = Dec_more ((ck_norm c)\<lparr>ck_size := ck_size c - 1\<rparr>) (len + 1) [ch]"
    using Suc.prems rs by (auto simp: dec_byte_def)
  moreover have "dec_run m ((ck_norm c)\<lparr>ck_size := ck_size c - 1\<rparr>) (len + 1) xs' = dec_run m c' (len + 1) xs'"
    by (rule dec_run_cong) (simp add: ck_norm_def ck_resume_state_def c'_def Suc.prems(1))
  ultimately have "dec_run m c len xs = emit [ch] (dec_run m c' (len + 1) xs')" by (simp add: xs)
  also have "dec_run m c' (len + 1) xs' =
      emit (take n xs') (dec_run m (c'\<lparr>ck_size := ck_size c' - n\<rparr>) (len + 1 + n) (drop n xs'))"
    using Suc.prems by (intro Suc.IH) (auto simp: c'_def xs)
  finally show ?case by (simp add: xs c'_def)
qed

lemma dec_data_too_large:
  assumes "ck_state c = sw_chunk_data" "ck_size c \<noteq> 0" "m \<noteq> 0" "m < len + ck_size c" "xs \<noteq> []"
  shows "dec_run m c len xs = Bad NGX_HTTP_REQUEST_ENTITY_TOO_LARGE"
  using assms by (cases xs) (auto simp: dec_byte_def ck_resume_state_def)

section \<open>The filter against the reference\<close>

definition limit_ok :: "nat \<Rightarrow> nat \<Rightarrow> bool" where
  "limit_ok m len \<longleftrightarrow> m = 0 \<or> len \<le> m"

lemma parse_chunked_reference:
  assumes "ck_size c \<le> MAX_OFF - 5" "pos b \<le> length (data b)" "ngx_http_parse_chunked c b = (rc, c', b')"
  shows "case rc of
      NGX_OK \<Rightarrow> dec_run m c len (drop (pos b) (data b)) = dec_run m c' len (drop (pos b') (data b))
    | NGX_DONE \<Rightarrow> data b' = data b \<and> dec_run m c len (drop (pos b) (data b)) = Complete len [] (drop (pos b') (data b))
    | NGX_AGAIN \<Rightarrow> ck_size c' \<le> MAX_OFF - 5 \<and> data b' = data b \<and> pos b' = length (data b) \<and>
        dec_run m c len (drop (pos b) (data b)) = Pending (ck_norm c') len []
    | _ \<Rightarrow> rc = NGX_ERROR \<and> dec_run m c len (drop (pos b) (data b)) = Bad NGX_HTTP_BAD_REQUEST_400"
proof -
  obtain q x where sc: "scan ck_step (data b) (pos b) (c\<lparr>ck_state := ck_resume_state c\<rparr>) = (q, x)"
    by (cases "scan ck_step (data b) (pos b) (c\<lparr>ck_state := ck_resume_state c\<rparr>)")
  have n: "ck_norm (c1\<lparr>ck_length := l\<rparr>) = ck_norm c1" for c1 l by (simp add: ck_norm_def ck_resume_state_def)
  note ref = scan_reference [OF _ sc assms(2), where m = m and len = len]
  show ?thesis
  proof (cases x)
    case (Go c1)
    with ref assms sc show ?thesis
      by (auto simp: ngx_http_parse_chunked_def ck_leave_def n split: if_splits)
  next
    case (Halt c1 y)
    with ref assms sc show ?thesis
      by (cases y) (auto simp: ngx_http_parse_chunked_def ck_leave_def split: if_splits)
  qed
qed

definition body_ok :: "nat \<Rightarrow> body \<Rightarrow> bool" where
  "body_ok m rb \<longleftrightarrow> ck_size (b_chunked rb) \<le> MAX_OFF - 5 \<and> limit_ok m (b_content_length rb)"

definition body_refines :: "nat \<Rightarrow> body \<Rightarrow> ngx_buf_t \<Rightarrow> decoded \<Rightarrow> body_status + body \<times> ngx_buf_t \<Rightarrow> bool" where
  "body_refines m rb b d x =
     (case x of
        Inl e \<Rightarrow> d = Bad e
      | Inr (rb', b') \<Rightarrow> \<exists>out. b_out rb' = b_out rb @ out \<and> data b' = data b \<and>
          (if b_last rb' then d = Complete (b_content_length rb') out (drop (pos b') (data b))
           else d = Pending (ck_norm (b_chunked rb')) (b_content_length rb') out \<and> body_ok m rb'))"

lemma body_refines_emit:
  assumes "body_refines m rb1 b1 d x" "b_out rb1 = b_out rb @ o1" "data b1 = data b"
  shows "body_refines m rb b (emit o1 d) x"
  using assms by (cases x) (auto simp: body_refines_def)

lemma body_buf_reference:
  assumes "body_ok m rb" "pos b \<le> length (data b)" "\<not> b_last rb"
  shows "body_refines m rb b (dec_run m (b_chunked rb) (b_content_length rb) (drop (pos b) (data b)))
    (body_buf m rb b)"
  using assms
proof (induction m rb b rule: body_buf.induct)
  case (1 m rb b)
  let ?len = "b_content_length rb"
  obtain rc c' b' where p: "ngx_http_parse_chunked (b_chunked rb) b = (rc, c', b')"
    by (cases "ngx_http_parse_chunked (b_chunked rb) b")
  from 1(2) have sz: "ck_size (b_chunked rb) \<le> MAX_OFF - 5" and lim: "limit_ok m ?len"
    by (simp_all add: body_ok_def)
  note ref = parse_chunked_reference [OF sz 1(3) p, where m = m and len = ?len]
  show ?case
  proof (cases "rc = NGX_OK")
    case False
    with ref 1(4) lim show ?thesis
      by (subst body_buf.simps) (auto simp: p body_refines_def body_ok_def split: ngx_rc.splits)
  next
    case True
    note ok = parse_chunked_ok [OF p [unfolded True]]
    let ?avail = "length (data b') - pos b'"
    define n where "n = (if ?avail > ck_size c' then ck_size c' else ?avail)"
    from ref True have e: "dec_run m (b_chunked rb) ?len (drop (pos b) (data b)) = dec_run m c' ?len (drop (pos b') (data b))"
      by simp
    show ?thesis
    proof (cases "m \<noteq> 0 \<and> int m - int ?len < int (ck_size c')")
      case large: True
      with lim have "ck_size c' \<noteq> 0" "m < ?len + ck_size c'" by (auto simp: limit_ok_def)
      with dec_data_too_large [of c' m ?len "drop (pos b') (data b)"] ok large e True show ?thesis
        by (subst body_buf.simps) (auto simp: p body_refines_def)
    next
      case small: False
      let ?rb = "rb\<lparr>b_chunked := c'\<lparr>ck_size := ck_size c' - n\<rparr>, b_content_length := ?len + n,
          b_out := b_out rb @ take n (drop (pos b') (data b'))\<rparr>"
      let ?b = "b'\<lparr>pos := pos b' + n\<rparr>"
      have n: "n \<le> ck_size c'" "n \<le> ?avail" by (auto simp: n_def)
      have m: "m = 0 \<or> ?len + ck_size c' \<le> m" using small lim by (auto simp: limit_ok_def)
      have "body_buf m rb b = body_buf m ?rb ?b"
        using small True by (subst body_buf.simps) (auto simp: p Let_def n_def)
      moreover have "body_refines m ?rb ?b
          (dec_run m (b_chunked ?rb) (b_content_length ?rb) (drop (pos ?b) (data ?b))) (body_buf m ?rb ?b)"
        using 1(4) ok n m lim small
        by (intro 1(1) [OF p [symmetric] refl True]) (auto simp: n_def body_ok_def limit_ok_def)
      moreover have "dec_run m (b_chunked rb) ?len (drop (pos b) (data b)) =
          emit (take n (drop (pos b') (data b')))
            (dec_run m (b_chunked ?rb) (b_content_length ?rb) (drop (pos ?b) (data ?b)))"
        unfolding e using dec_data [of c' n "drop (pos b') (data b)" m ?len] ok n m by (simp add: add.commute)
      ultimately show ?thesis
        using body_refines_emit [of m ?rb ?b] ok by simp
    qed
  qed
qed

lemma dec_run_append:
  "dec_run m c len (xs @ ys) =
    (case dec_run m c len xs of
       Bad e \<Rightarrow> Bad e
     | Pending c' len' out \<Rightarrow> emit out (dec_run m c' len' ys)
     | Complete len' out rest \<Rightarrow> Complete len' out (rest @ ys))"
proof (induction xs arbitrary: c len)
  case (Cons ch xs)
  have "(case emit o1 d of Bad e \<Rightarrow> Bad e | Pending c' len' out \<Rightarrow> emit out (dec_run m c' len' ys)
     | Complete len' out rest \<Rightarrow> Complete len' out (rest @ ys)) =
     emit o1 (case d of Bad e \<Rightarrow> Bad e | Pending c' len' out \<Rightarrow> emit out (dec_run m c' len' ys)
     | Complete len' out rest \<Rightarrow> Complete len' out (rest @ ys))" for o1 d
    by (cases d) simp_all
  with Cons show ?case by (simp split: dec_step.split)
qed simp

text \<open>
  The reader: one call of the filter per piece that arrived, each in a buffer of its own, until
  the body is complete or refused.
\<close>

fun body_feed :: "nat \<Rightarrow> body \<Rightarrow> bytes list \<Rightarrow> decoded" where
  "body_feed m rb [] = Pending (ck_norm (b_chunked rb)) (b_content_length rb) []"
| "body_feed m rb (piece # pieces) =
     (case ngx_http_request_body_chunked_filter m rb [\<lparr>data = piece, pos = 0\<rparr>] of
        Inl e \<Rightarrow> Bad e
      | Inr (rb', bs) \<Rightarrow>
          if b_last rb'
          then Complete (b_content_length rb') (b_out rb')
                 (concat (map (\<lambda>b. drop (pos b) (data b)) bs) @ concat pieces)
          else emit (b_out rb') (body_feed m rb' pieces))"

lemma body_feed_reference:
  "body_ok m rb \<Longrightarrow> body_feed m rb pieces = dec_run m (b_chunked rb) (b_content_length rb) (concat pieces)"
proof (induction pieces arbitrary: rb)
  case (Cons piece pieces)
  let ?rb = "rb\<lparr>b_out := [], b_last := False\<rparr>" and ?b = "\<lparr>data = piece, pos = 0\<rparr>"
  have "body_refines m ?rb ?b (dec_run m (b_chunked rb) (b_content_length rb) piece) (body_buf m ?rb ?b)"
    using body_buf_reference [of m ?rb ?b] Cons.prems by (simp add: body_ok_def)
  with Cons.IH show ?case
    by (cases "body_buf m ?rb ?b")
      (auto simp: ngx_http_request_body_chunked_filter_def body_refines_def dec_run_append split: if_splits)
qed simp

section \<open>Reading back what the writer wrote\<close>

lemma hex_digit_ck:
  assumes "hex_digit ch = Some d"
  shows "(ch_0 \<le> ch \<and> ch \<le> ch_9 \<and> int (unat (ch - ch_0)) = d) \<or>
    (\<not> (ch_0 \<le> ch \<and> ch \<le> ch_9) \<and> ch_a \<le> ch OR 0x20 \<and> ch OR 0x20 \<le> ch_f \<and>
      int (unat ((ch OR 0x20) - ch_a + 10)) = d)"
  using assms
  by (auto simp: hex_digit_def Let_def word_le_def uint_word_ariths take_bit_eq_mod split: if_splits)

declare dec_run.simps(2) [simp del]

lemma dec_size_digit:
  assumes "hex_digit ch = Some d" "ck_state c = sw_chunk_size" "ck_size c \<le> MAX_OFF div 16"
    "ck_size c * 16 + nat d \<le> MAX_OFF div 16"
  shows "dec_run m c len (ch # rest) = dec_run m (c\<lparr>ck_size := ck_size c * 16 + nat d\<rparr>) len rest"
  using hex_digit_ck [OF assms(1)] assms(2-) MAX_OFF_facts(1)
  by (auto simp: dec_run.simps dec_byte_def ck_step_def ck_size_step_def ck_norm_def ck_resume_state_def Let_def
     intro!: dec_run_cong)

lemma dec_size_digits:
  assumes "list_all (\<lambda>c. hex_digit c \<noteq> None) ds" "ck_state c = sw_chunk_size"
    "foldl (\<lambda>v c. v * 16 + the (hex_digit c)) (int (ck_size c)) ds \<le> int (MAX_OFF div 16)"
  shows "dec_run m c len (ds @ rest) =
    dec_run m (c\<lparr>ck_size := nat (foldl (\<lambda>v c. v * 16 + the (hex_digit c)) (int (ck_size c)) ds)\<rparr>) len rest"
  using assms
proof (induction ds arbitrary: c)
  case (Cons ch ds)
  then obtain d where d: "hex_digit ch = Some d" by auto
  let ?f = "foldl (\<lambda>v c. v * 16 + the (hex_digit c))"
  let ?c = "c\<lparr>ck_size := ck_size c * 16 + nat d\<rparr>"
  have d0: "0 \<le> d" using hex_digit_bounds [OF d] by simp
  then have i: "int (ck_size ?c) = int (ck_size c) * 16 + d" by simp
  have f: "?f (int (ck_size ?c)) ds = ?f (int (ck_size c)) (ch # ds)" by (simp only: i foldl.simps d option.sel)
  have "int (ck_size ?c) \<le> ?f (int (ck_size ?c)) ds"
    using Cons.prems(1) by (intro foldl_hex_ge) simp_all
  then have "int (ck_size ?c) \<le> int (MAX_OFF div 16)" using Cons.prems(3) unfolding f by (rule order_trans)
  then have b: "ck_size c * 16 + nat d \<le> MAX_OFF div 16" by (simp only: of_nat_le_iff) simp
  then have "dec_run m c len ((ch # ds) @ rest) = dec_run m ?c len (ds @ rest)"
    using dec_size_digit [OF d Cons.prems(2)] by simp
  also have "\<dots> = dec_run m (?c\<lparr>ck_size := nat (?f (int (ck_size ?c)) ds)\<rparr>) len rest"
    using Cons.prems f by (intro Cons.IH) simp_all
  finally show ?case unfolding f by simp
qed simp

lemma dec_first_digit:
  assumes "hex_digit ch = Some d" "ck_state c = sw_chunk_start"
  shows "dec_run m c len (ch # rest) = dec_run m (c\<lparr>ck_state := sw_chunk_size, ck_size := nat d\<rparr>) len rest"
proof -
  have d: "nat d \<le> MAX_OFF - 5" using hex_digit_bounds [OF assms(1)] MAX_OFF_facts by linarith
  have "ck_start_step ch (ck_norm c) = Go ((ck_norm c)\<lparr>ck_size := nat d, ck_state := sw_chunk_size\<rparr>)"
    using hex_digit_ck [OF assms(1)]
  proof
    assume "ch_0 \<le> ch \<and> ch \<le> ch_9 \<and> int (unat (ch - ch_0)) = d"
    then show ?thesis by (auto simp: ck_start_step_def)
  next
    assume a: "\<not> (ch_0 \<le> ch \<and> ch \<le> ch_9) \<and> ch_a \<le> ch OR 0x20 \<and> ch OR 0x20 \<le> ch_f \<and>
      int (unat ((ch OR 0x20) - ch_a + 10)) = d"
    then have "nat d = unat ((ch OR 0x20) - ch_a + 10)" by linarith
    with a show ?thesis unfolding ck_start_step_def Let_def by (simp only: if_False if_True simp_thms)
  qed
  then have b: "dec_byte m c len ch = Dec_more ((ck_norm c)\<lparr>ck_size := nat d, ck_state := sw_chunk_size\<rparr>) len []"
    using assms(2) d by (simp add: dec_byte_def ck_step_def ck_resume_state_def)
  show ?thesis
    unfolding dec_run.simps b by simp (rule dec_run_cong, simp add: ck_norm_def ck_resume_state_def)
qed

definition chunk_text :: "bytes \<Rightarrow> bytes" where
  "chunk_text d = sprintf_digits (of_nat (length d)) 1 @ [CR, LF] @ d @ [CR, LF]"

definition last_chunk_text :: bytes where
  "last_chunk_text = [ch_0, CR, LF, CR, LF]"

lemma chunk_size_digits:
  assumes "n \<le> MAX_OFF div 16"
  shows "\<exists>ch d ds. sprintf_digits (of_nat n) 1 = ch # ds \<and> hex_digit ch = Some d \<and>
    list_all (\<lambda>c. hex_digit c \<noteq> None) ds \<and> foldl (\<lambda>v c. v * 16 + the (hex_digit c)) d ds = int n"
proof -
  let ?ds = "sprintf_digits (of_nat n) 1"
  have u: "uint (of_nat n :: u64) = int n"
    using assms by (simp add: MAX_OFF_def NGX_MAX_OFF_T_VALUE_def unsigned_of_nat take_bit_nat_eq_self uint_nat)
  have "all_hex ?ds" "hex_value ?ds = int n" "?ds \<noteq> []"
    using sprintf_hex_digits [OF hex_tables(1), of "of_nat n"] u by (simp_all add: sprintf_digits_def)
  then show ?thesis
    by (cases ?ds) (auto simp: all_hex_def hex_value_def)
qed

lemma dec_crlf:
  assumes "ck_state c = sw_chunk_size" "0 < ck_size c" "ck_size c \<le> MAX_OFF div 16"
  shows "dec_run m c len (CR # LF # rest) = dec_run m (c\<lparr>ck_state := sw_chunk_data\<rparr>) len rest"
  using assms MAX_OFF_facts
  by (simp add: dec_run.simps dec_byte_def ck_step_defs ck_norm_def ck_resume_state_def) (rule dec_run_cong, simp add: ck_norm_def ck_resume_state_def)

lemma dec_after_data:
  assumes "ck_state c = sw_chunk_data" "ck_size c = 0"
  shows "dec_run m c len (CR # LF # rest) = dec_run m (c\<lparr>ck_state := sw_chunk_start\<rparr>) len rest"
  using assms
  by (simp add: dec_run.simps dec_byte_def ck_step_defs ck_norm_def ck_resume_state_def) (rule dec_run_cong, simp add: ck_norm_def ck_resume_state_def)

lemma dec_chunk:
  assumes "ck_state c = sw_chunk_start" "d \<noteq> []" "length d \<le> MAX_OFF div 16" "m = 0 \<or> len + length d \<le> m"
  shows "dec_run m c len (chunk_text d @ rest) =
    emit d (dec_run m (c\<lparr>ck_size := 0\<rparr>) (len + length d) rest)"
proof -
  obtain ch dg ds where ds: "sprintf_digits (of_nat (length d)) 1 = ch # ds" "hex_digit ch = Some dg"
    "list_all (\<lambda>c. hex_digit c \<noteq> None) ds" "foldl (\<lambda>v c. v * 16 + the (hex_digit c)) dg ds = int (length d)"
    using chunk_size_digits [OF assms(3)] by blast
  let ?c1 = "c\<lparr>ck_state := sw_chunk_size, ck_size := nat dg\<rparr>"
  let ?c2 = "?c1\<lparr>ck_size := length d\<rparr>" and ?r1 = "[CR, LF] @ d @ [CR, LF] @ rest"
  have c1: "int (ck_size ?c1) = dg" using hex_digit_bounds [OF ds(2)] by simp
  have t: "chunk_text d @ rest = ch # ds @ ?r1" unfolding chunk_text_def ds(1) by simp
  have "dec_run m c len (chunk_text d @ rest) = dec_run m ?c1 len (ds @ ?r1)"
    unfolding t by (rule dec_first_digit [OF ds(2) assms(1)])
  also have "\<dots> = dec_run m ?c2 len ?r1"
    using dec_size_digits [OF ds(3), of ?c1 m len ?r1] ds(4) assms(3) unfolding c1 by simp
  also have "\<dots> = dec_run m (?c2\<lparr>ck_state := sw_chunk_data\<rparr>) len (d @ [CR, LF] @ rest)"
    using assms(2,3) by (simp add: dec_crlf)
  also have "\<dots> = emit d (dec_run m (?c2\<lparr>ck_state := sw_chunk_data, ck_size := 0\<rparr>) (len + length d) ([CR, LF] @ rest))"
    using dec_data [of "?c2\<lparr>ck_state := sw_chunk_data\<rparr>" "length d" "d @ [CR, LF] @ rest" m len] assms(4) by simp
  also have "\<dots> = emit d (dec_run m (c\<lparr>ck_size := 0\<rparr>) (len + length d) rest)"
    using assms(1) by (simp add: dec_after_data) (rule arg_cong [of _ _ "emit d"], rule dec_run_cong, simp add: ck_norm_def ck_resume_state_def)
  finally show ?thesis .
qed

lemma dec_last_chunk:
  "ck_state c = sw_chunk_start \<Longrightarrow> dec_run m c len (last_chunk_text @ rest) = Complete len [] rest"
  using MAX_OFF_facts by (simp add: last_chunk_text_def dec_run.simps dec_byte_def ck_step_defs ck_norm_def ck_resume_state_def)

lemma chunked_body_filter_text:
  assumes "cl \<noteq> [] \<or> \<not> last_buf"
  shows "ngx_http_chunked_body_filter True False cl last_buf =
     (if concat cl = [] then [] else chunk_text (concat cl)) @ (if last_buf then last_chunk_text else [])"
proof -
  have "sum_list (map length cl) = length (concat cl)" by (simp add: length_concat)
  then show ?thesis
    using assms unfolding ngx_http_chunked_body_filter_def Let_def
    by (auto simp: chunk_text_def last_chunk_text_def simp del: length_concat)
qed

text \<open>
  The output of a response with chunked coding: the chains \<open>cls\<close>, and the chain whose last buffer
  has \<open>last_buf\<close>, which is a single empty buffer when there is no data in it.
\<close>

definition written_body :: "bytes list list \<Rightarrow> bytes list \<Rightarrow> bytes" where
  "written_body cls final =
     concat (map (\<lambda>cl. ngx_http_chunked_body_filter True False cl False) cls) @
     ngx_http_chunked_body_filter True False (if final = [] then [[]] else final) True"

lemma written_body_text:
  "written_body cls final =
     concat (map (\<lambda>cl. if concat cl = [] then [] else chunk_text (concat cl)) cls) @
     (if concat final = [] then [] else chunk_text (concat final)) @ last_chunk_text"
proof -
  have last: "ngx_http_chunked_body_filter True False (if final = [] then [[]] else final) True =
      (if concat final = [] then [] else chunk_text (concat final)) @ last_chunk_text"
    by (subst chunked_body_filter_text) (simp_all only: if_True concat.simps split: if_split, auto)
  show ?thesis unfolding written_body_def last by (simp add: chunked_body_filter_text)
qed

lemma dec_written:
  assumes "ck_state c = sw_chunk_start" "list_all (\<lambda>cl. length (concat cl) \<le> MAX_OFF div 16) (cls @ [final])"
    "m = 0 \<or> len + length (concat (concat (cls @ [final]))) \<le> m"
  shows "dec_run m c len (written_body cls final @ rest) =
    Complete (len + length (concat (concat (cls @ [final])))) (concat (concat (cls @ [final]))) rest"
  using assms
proof (induction cls arbitrary: c len)
  case Nil
  then show ?case
    by (cases "concat final = []")
      (auto simp: written_body_text dec_chunk dec_last_chunk simp del: concat_eq_Nil_conv)
next
  case (Cons cl cls)
  show ?case
  proof (cases "concat cl = []")
    case True
    with Cons show ?thesis by (simp add: written_body_text del: concat_eq_Nil_conv)
  next
    case False
    have "dec_run m c len (written_body (cl # cls) final @ rest) =
        emit (concat cl) (dec_run m (c\<lparr>ck_size := 0\<rparr>) (len + length (concat cl)) (written_body cls final @ rest))"
    proof -
      have "written_body (cl # cls) final @ rest = chunk_text (concat cl) @ written_body cls final @ rest"
        using False by (simp add: written_body_text del: concat_eq_Nil_conv)
      moreover have "m = 0 \<or> len + length (concat cl) \<le> m" using Cons.prems(3) by auto
      ultimately show ?thesis using False Cons.prems(1,2) dec_chunk [of c "concat cl" m len] by simp
    qed
    also have "dec_run m (c\<lparr>ck_size := 0\<rparr>) (len + length (concat cl)) (written_body cls final @ rest) =
        Complete (len + length (concat cl) + length (concat (concat (cls @ [final])))) (concat (concat (cls @ [final]))) rest"
      using Cons.prems by (intro Cons.IH) auto
    finally show ?thesis by (simp add: add.assoc)
  qed
qed

section \<open>Limits\<close>

text \<open>Every byte brings the end of the body at most one byte nearer than announced.\<close>

definition expected_ok :: "nat \<Rightarrow> ck_outcome \<Rightarrow> bool" where
  "expected_ok n x = (case x of Go c \<Rightarrow> n \<le> 1 + ck_expected c | Halt c y \<Rightarrow> y = Ck_done \<longrightarrow> n \<le> 1)"

lemma expected_ok_simps [simp]:
  "expected_ok n (Go c) \<longleftrightarrow> n \<le> 1 + ck_expected c" "expected_ok n (Halt c y) \<longleftrightarrow> (y = Ck_done \<longrightarrow> n \<le> 1)"
  by (simp_all add: expected_ok_def)

lemma ck_expected_step: "ck_state c \<noteq> sw_chunk_data \<Longrightarrow> expected_ok (ck_expected c) (ck_step buf p c)"
  by (cases "ck_state c")
    (simp_all add: ck_step_def Let_def ck_start_step_def ck_size_step_def ck_size_end_def ck_skip_line_def
      ck_expect_lf_def ck_expected_def)

lemma ck_expected_norm [simp]: "ck_expected (ck_norm c) = ck_expected c"
  by (cases "ck_state c") (simp_all add: ck_expected_def ck_norm_def ck_resume_state_def)

lemma dec_byte_expected:
  "case dec_byte m c len ch of
     Dec_more c' len' out \<Rightarrow> ck_expected c \<le> 1 + ck_expected c' \<and> len' = len + length out \<and>
       (limit_ok m len \<longrightarrow> limit_ok m len')
   | Dec_finished \<Rightarrow> ck_expected c \<le> 1
   | Dec_fail e \<Rightarrow> True"
proof (cases "ck_resume_state c = sw_chunk_data")
  case True
  then have "ck_state c = sw_chunk_data" "ck_size c \<noteq> 0" by (auto simp: ck_resume_state_def split: if_splits)
  with True show ?thesis by (auto simp: dec_byte_def ck_expected_def limit_ok_def ck_norm_def Let_def)
next
  case False
  with ck_expected_step [of "ck_norm c" "[ch]" 0] show ?thesis
    by (auto simp: dec_byte_def split: outcome.split ck_exit.split)
qed

lemma dec_run_limits:
  "case dec_run m c len xs of
     Pending c' len' out \<Rightarrow> len' = len + length out \<and> (limit_ok m len \<longrightarrow> limit_ok m len')
   | Complete len' out rest \<Rightarrow> len' = len + length out \<and> (limit_ok m len \<longrightarrow> limit_ok m len') \<and>
       ck_expected c + length rest \<le> length xs
   | Bad e \<Rightarrow> True"
proof (induction xs arbitrary: c len)
  case (Cons ch xs)
  note b = dec_byte_expected [where m = m and c = c and len = len and ch = ch]
  show ?case
  proof (cases "dec_byte m c len ch")
    case (Dec_more c' len' out)
    with b Cons [of len' c'] show ?thesis
      by (cases "dec_run m c' len' xs") (auto simp: dec_run.simps)
  qed (use b in \<open>auto simp: dec_run.simps\<close>)
qed simp

lemma ck_expected_length [simp]: "ck_expected (c\<lparr>ck_length := l\<rparr>) = ck_expected c"
  by (cases "ck_state c") (simp_all add: ck_expected_def)

lemma ck_expected_bound: "ck_expected c \<le> ck_size c + 5"
  by (cases "ck_state c") (simp_all add: ck_expected_def)

lemma parse_chunked_length:
  assumes "ngx_http_parse_chunked c b = (rc, c', b')" "rc \<in> {NGX_OK, NGX_AGAIN}"
  shows "ck_length c' = ck_expected c' \<and> ck_length c' \<le> MAX_OFF"
proof -
  obtain p c1 where "ck_leave rc p c1 b = (rc, c', b')" "rc \<noteq> NGX_ERROR"
    using assms by (auto simp: ngx_http_parse_chunked_def split: prod.splits outcome.splits ck_exit.splits)
      (auto simp: ck_leave_def split: if_splits)
  then have "c' = c1\<lparr>ck_length := ck_expected c1\<rparr>" "ck_size c1 \<le> MAX_OFF - 5"
    by (auto simp: ck_leave_def split: if_splits)
  with ck_expected_bound [of c1] MAX_OFF_facts show ?thesis by simp
qed

text \<open>
  The state of the body after the calls for \<open>pieces\<close>, while the body is neither complete nor
  refused.
\<close>

fun body_after :: "nat \<Rightarrow> body \<Rightarrow> bytes list \<Rightarrow> body option" where
  "body_after m rb [] = Some rb"
| "body_after m rb (piece # pieces) =
     (case ngx_http_request_body_chunked_filter m rb [\<lparr>data = piece, pos = 0\<rparr>] of
        Inl e \<Rightarrow> None
      | Inr (rb', bs) \<Rightarrow> if b_last rb' then None else body_after m rb' pieces)"

definition rest_ok :: "body \<Rightarrow> bool" where
  "rest_ok rb \<longleftrightarrow> b_rest rb = ck_expected (b_chunked rb)"

lemma body_buf_rest:
  "body_buf m rb b = Inr (rb', b') \<Longrightarrow> \<not> b_last rb' \<Longrightarrow> rest_ok rb'"
proof (induction m rb b rule: body_buf.induct)
  case (1 m rb b)
  obtain rc c' b1 where p: "ngx_http_parse_chunked (b_chunked rb) b = (rc, c', b1)"
    by (cases "ngx_http_parse_chunked (b_chunked rb) b")
  show ?case
  proof (cases "rc = NGX_OK")
    case True
    define n where "n = (if length (data b1) - pos b1 > ck_size c' then ck_size c' else length (data b1) - pos b1)"
    let ?rb = "rb\<lparr>b_chunked := c'\<lparr>ck_size := ck_size c' - n\<rparr>, b_content_length := b_content_length rb + n,
        b_out := b_out rb @ take n (drop (pos b1) (data b1))\<rparr>"
    have room: "\<not> (m \<noteq> 0 \<and> int m - int (b_content_length rb) < int (ck_size c'))"
      using 1(2) True by (subst (asm) body_buf.simps) (auto simp: p)
    then have "body_buf m rb b = body_buf m ?rb (b1\<lparr>pos := pos b1 + n\<rparr>)"
      using True by (subst body_buf.simps) (auto simp: p Let_def n_def)
    with 1(2) have "body_buf m ?rb (b1\<lparr>pos := pos b1 + n\<rparr>) = Inr (rb', b')" by simp
    from 1(1) [OF p [symmetric] refl True room refl n_def this 1(3)] show ?thesis .
  next
    case False
    from 1(2) have "(if rc = NGX_DONE then Inr (rb\<lparr>b_chunked := c', b_rest := 0, b_last := True\<rparr>, b1)
        else if rc = NGX_AGAIN then Inr (rb\<lparr>b_chunked := c', b_rest := ck_length c'\<rparr>, b1)
        else Inl NGX_HTTP_BAD_REQUEST_400) = Inr (rb', b')"
      using False by (subst (asm) body_buf.simps) (simp add: p)
    with 1(3) have "rc = NGX_AGAIN" "rb' = rb\<lparr>b_chunked := c', b_rest := ck_length c'\<rparr>"
      by (auto split: if_splits)
    with parse_chunked_length [OF p] show ?thesis by (simp add: rest_ok_def)
  qed
qed

lemma body_after_feed:
  "body_after m rb pieces = Some rb' \<Longrightarrow>
    \<exists>out. body_feed m rb pieces = Pending (ck_norm (b_chunked rb')) (b_content_length rb') out"
proof (induction pieces arbitrary: rb)
  case (Cons piece pieces)
  then show ?case by (fastforce split: sum.splits prod.splits if_splits)
qed simp

lemma body_after_ok:
  "body_after m rb pieces = Some rb' \<Longrightarrow> body_ok m rb \<Longrightarrow> rest_ok rb \<Longrightarrow> body_ok m rb' \<and> rest_ok rb'"
proof (induction pieces arbitrary: rb)
  case (Cons piece pieces)
  let ?rb = "rb\<lparr>b_out := [], b_last := False\<rparr>" and ?b = "\<lparr>data = piece, pos = 0\<rparr>"
  obtain rb1 b1 where f: "body_buf m ?rb ?b = Inr (rb1, b1)" "\<not> b_last rb1" "body_after m rb1 pieces = Some rb'"
    using Cons.prems(1) by (auto simp: ngx_http_request_body_chunked_filter_def split: sum.splits if_splits)
  have "body_refines m ?rb ?b (dec_run m (b_chunked rb) (b_content_length rb) piece) (body_buf m ?rb ?b)"
    using body_buf_reference [of m ?rb ?b] Cons.prems(2) by (simp add: body_ok_def)
  with f have "body_ok m rb1" by (auto simp: body_refines_def)
  with Cons.IH [OF f(3)] body_buf_rest [OF f(1,2)] show ?case by simp
qed simp

text \<open>The shortest way to end a body: empty lines, and zeros for the data of the current chunk.\<close>

definition body_end :: bytes where
  "body_end = [LF, ch_0, LF, LF]"

definition shortest_end :: "chunked \<Rightarrow> bytes" where
  "shortest_end c =
     (case ck_state c of
        sw_chunk_start \<Rightarrow> [ch_0, LF, LF]
      | sw_chunk_size \<Rightarrow> LF # (if ck_size c \<noteq> 0 then replicate (ck_size c) NUL @ body_end else [LF])
      | sw_chunk_extension \<Rightarrow> LF # replicate (ck_size c) NUL @ body_end
      | sw_chunk_extension_almost_done \<Rightarrow> LF # replicate (ck_size c) NUL @ body_end
      | sw_chunk_data \<Rightarrow> replicate (ck_size c) NUL @ body_end
      | sw_after_data \<Rightarrow> body_end
      | sw_after_data_almost_done \<Rightarrow> body_end
      | sw_last_chunk_extension \<Rightarrow> [LF, LF]
      | sw_last_chunk_extension_almost_done \<Rightarrow> [LF, LF]
      | sw_trailer \<Rightarrow> [LF]
      | sw_trailer_almost_done \<Rightarrow> [LF]
      | sw_trailer_header \<Rightarrow> [LF, LF]
      | sw_trailer_header_almost_done \<Rightarrow> [LF, LF])"

lemma shortest_end_length: "length (shortest_end c) = ck_expected c"
  by (cases "ck_state c") (simp_all add: shortest_end_def ck_expected_def body_end_def)

lemma dec_body_end:
  assumes "ck_resume_state c \<in> {sw_after_data, sw_after_data_almost_done}" "ck_size c \<le> MAX_OFF - 5"
  shows "dec_run m c len body_end = Complete len [] []"
  using assms MAX_OFF_facts
  by (auto simp: body_end_def dec_run.simps dec_byte_def ck_step_defs ck_norm_def ck_resume_state_def split: if_splits)

lemma dec_data_end:
  assumes "ck_state c = sw_chunk_data" "m = 0 \<or> len + ck_size c \<le> m"
  shows "\<exists>out. dec_run m c len (replicate (ck_size c) NUL @ body_end) = Complete (len + ck_size c) out []"
proof -
  have "dec_run m (c\<lparr>ck_size := 0\<rparr>) (len + ck_size c) body_end = Complete (len + ck_size c) [] []"
    using assms(1) by (intro dec_body_end) (simp_all add: ck_resume_state_def)
  then show ?thesis using dec_data [of c "ck_size c" "replicate (ck_size c) NUL @ body_end" m len] assms by simp
qed

definition can_end :: "nat \<Rightarrow> nat \<Rightarrow> chunked \<Rightarrow> bool" where
  "can_end m len c \<longleftrightarrow> (m = 0 \<or> len + ck_size c \<le> m) \<and> (ck_state c = sw_chunk_size \<longrightarrow> ck_size c \<le> MAX_OFF div 16)"

lemma dec_line_end:
  assumes "ck_state c \<in> {sw_chunk_size, sw_chunk_extension, sw_chunk_extension_almost_done}"
    "ck_state c = sw_chunk_size \<longrightarrow> 0 < ck_size c \<and> ck_size c \<le> MAX_OFF div 16" "ck_size c \<le> MAX_OFF - 5"
  shows "dec_run m c len (LF # rest) = dec_run m (c\<lparr>ck_state := sw_chunk_data\<rparr>) len rest"
  using assms MAX_OFF_facts
  by (auto simp: dec_run.simps(2) dec_byte_def ck_step_defs ck_norm_def ck_resume_state_def intro!: dec_run_cong)

lemma dec_shortest:
  assumes "can_end m len c" "ck_size c \<le> MAX_OFF - 5"
  shows "\<exists>len' out. dec_run m c len (shortest_end c) = Complete len' out []"
proof -
  have data: "\<exists>len' out. dec_run m c' len (replicate (ck_size c') NUL @ body_end) = Complete len' out []"
    if "c' = c\<lparr>ck_state := sw_chunk_data\<rparr>" for c'
    using dec_data_end [of c' m len] assms(1) that by (auto simp: can_end_def)
  consider "ck_state c = sw_chunk_data"
    | "ck_state c \<in> {sw_chunk_size, sw_chunk_extension, sw_chunk_extension_almost_done}" "ck_state c = sw_chunk_size \<longrightarrow> 0 < ck_size c"
    | "ck_state c = sw_chunk_size" "ck_size c = 0"
    | "ck_state c \<in> {sw_after_data, sw_after_data_almost_done}"
    | "ck_state c \<in> {sw_chunk_start, sw_last_chunk_extension, sw_last_chunk_extension_almost_done, sw_trailer,
        sw_trailer_almost_done, sw_trailer_header, sw_trailer_header_almost_done}"
    by (cases "ck_state c") auto
  then show ?thesis
  proof cases
    case 1
    then show ?thesis using dec_data_end [of c m len] assms(1) by (auto simp: can_end_def shortest_end_def)
  next
    case 2
    then have "dec_run m c len (shortest_end c) =
        dec_run m (c\<lparr>ck_state := sw_chunk_data\<rparr>) len (replicate (ck_size c) NUL @ body_end)"
      using dec_line_end [of c] assms by (auto simp: shortest_end_def can_end_def)
    then show ?thesis using data [OF refl] by simp
  next
    case 3
    then show ?thesis using MAX_OFF_facts
      by (simp add: shortest_end_def dec_run.simps dec_byte_def ck_step_defs ck_norm_def ck_resume_state_def)
  next
    case 4
    then show ?thesis using dec_body_end [of c m len] assms(2) by (auto simp: shortest_end_def ck_resume_state_def)
  next
    case 5
    then show ?thesis using assms(2) MAX_OFF_facts
      by (auto simp: shortest_end_def dec_run.simps dec_byte_def ck_step_defs ck_norm_def ck_resume_state_def)
  qed
qed

section \<open>Properties\<close>

text \<open>
  C2. \<open>ngx_http_request_body_chunked_filter\<close>, called with the body in any pieces, computes the
  byte-at-a-time reference decoder on the whole body: the same data, the same count in
  \<open>content_length_n\<close>, the same bytes left behind the body, the same error (400 or 413) or the
  same parser context. How the body was cut into buffers does not matter.
\<close>

theorem chunked_body_decodes:
  "body_feed m new_body pieces = dec_run m new_chunked 0 (concat pieces)"
  using body_feed_reference [of m new_body pieces]
  by (simp add: body_ok_def limit_ok_def new_body_def new_chunked_def)

text \<open>
  C12. What \<open>ngx_http_chunked_body_filter\<close> writes is read back: for any sequence of chains of
  buffers, each shorter than 2^59 bytes, with the end marker on the last, and any cutting of the
  output into pieces, the reader completes with exactly the data written and leaves what
  follows the body, provided that \<open>client_max_body_size\<close> is not exceeded.
\<close>

theorem chunked_roundtrip:
  assumes "concat pieces = written_body cls final @ rest"
    and "list_all (\<lambda>cl. length (concat cl) \<le> MAX_OFF div 16) (cls @ [final])"
    and "m = 0 \<or> length (concat (concat (cls @ [final]))) \<le> m"
  shows "body_feed m new_body pieces =
    Complete (length (concat (concat (cls @ [final])))) (concat (concat (cls @ [final]))) rest"
  using dec_written [of new_chunked cls final m 0 rest] assms
    body_feed_reference [of m new_body pieces]
  by (simp add: body_ok_def limit_ok_def new_body_def new_chunked_def)

theorem chunked_roundtrip_witness:
  "body_feed 8 new_body [bytes_of ''5'' @ [CR], LF # bytes_of ''ab'', bytes_of ''cde'' @ [CR, LF, ch_0, CR, LF, CR], [LF] @ bytes_of ''GET''] =
   Complete 5 (bytes_of ''abcde'') (bytes_of ''GET'')"
proof -
  have "concat [bytes_of ''5'' @ [CR], LF # bytes_of ''ab'', bytes_of ''cde'' @ [CR, LF, ch_0, CR, LF, CR], [LF] @ bytes_of ''GET''] =
      written_body [[[]]] [bytes_of ''abc'', bytes_of ''de''] @ bytes_of ''GET''"
    by (simp add: written_body_text chunk_text_def last_chunk_text_def
        sprintf_digits_def sprintf_hex.simps hex_lower_def)
  from chunked_roundtrip [OF this, of 8] MAX_OFF_facts show ?thesis by simp
qed

text \<open>
  C24. Limits, for a body that arrived in any pieces and is not yet complete (the state \<open>rb\<close>). The
  data accepted so far is counted exactly and within \<open>client_max_body_size\<close>, and \<open>rb->rest\<close>, taken
  from \<open>ctx->length\<close>, is the number of bytes that are needed at least: however the body goes on,
  when it completes at least \<open>rb->rest\<close> bytes were consumed, so that reading no more than that
  never takes bytes of the next request; and it is no smaller than it could be: there is an input of
  exactly \<open>rb->rest\<close> bytes that completes the body, unless the current chunk is beyond the limit or
  its size beyond 2^59.
\<close>

theorem chunked_limits:
  assumes "body_after m new_body pieces = Some rb"
  shows "(\<exists>out. body_feed m new_body pieces = Pending (ck_norm (b_chunked rb)) (b_content_length rb) out \<and>
      b_content_length rb = length out \<and> (m = 0 \<or> length out \<le> m)) \<and>
    (body_feed m rb more_pieces = Complete len out rest \<longrightarrow> b_rest rb + length rest \<le> length (concat more_pieces)) \<and>
    (can_end m (b_content_length rb) (b_chunked rb) \<longrightarrow>
      (\<exists>xs len out. length xs = b_rest rb \<and> body_feed m rb [xs] = Complete len out []))"
proof -
  have new: "body_ok m new_body" "rest_ok new_body"
    by (simp_all add: body_ok_def limit_ok_def rest_ok_def new_body_def new_chunked_def ck_expected_def)
  have rb: "body_ok m rb" "b_rest rb = ck_expected (b_chunked rb)"
    using body_after_ok [OF assms new] by (simp_all add: rest_ok_def)
  note feed = body_feed_reference [OF rb(1)]
  obtain d where d: "body_feed m new_body pieces = Pending (ck_norm (b_chunked rb)) (b_content_length rb) d"
    using body_after_feed [OF assms] by blast
  have "b_content_length rb = length d \<and> (m = 0 \<or> length d \<le> m)"
    using d body_feed_reference [OF new(1), of pieces]
      dec_run_limits [where m = m and c = new_chunked and len = 0 and xs = "concat pieces"]
    by (simp add: new_body_def limit_ok_def split: decoded.splits)
  with d have "\<exists>out. body_feed m new_body pieces = Pending (ck_norm (b_chunked rb)) (b_content_length rb) out \<and>
      b_content_length rb = length out \<and> (m = 0 \<or> length out \<le> m)" by blast
  moreover have "b_rest rb + length rest \<le> length (concat more_pieces)" if h: "body_feed m rb more_pieces = Complete len out rest"
    using dec_run_limits [where m = m and c = "b_chunked rb" and len = "b_content_length rb" and xs = "concat more_pieces"]
      h feed rb(2) by simp
  moreover have "\<exists>xs len out. length xs = b_rest rb \<and> body_feed m rb [xs] = Complete len out []"
    if h: "can_end m (b_content_length rb) (b_chunked rb)"
    using dec_shortest [OF h] feed [of "[shortest_end (b_chunked rb)]"] shortest_end_length [of "b_chunked rb"] rb
    by (auto simp: body_ok_def)
  ultimately show ?thesis by (intro conjI impI)
qed

text \<open>\<open>f0\<close> and a line feed announce 240 bytes of data, of which two arrived.\<close>

definition two_of_240 :: body where
  "two_of_240 = \<lparr> b_chunked = \<lparr> ck_state = sw_chunk_data, ck_size = 238, ck_length = 242 \<rparr>, b_content_length = 2,
     b_rest = 242, b_out = [ch_a, ch_b], b_last = False \<rparr>"

lemma two_of_240_reached: "body_after 0 new_body [[ch_f, ch_0, LF], [ch_a, ch_b]] = Some two_of_240"
proof -
  note parse = ngx_http_parse_chunked_def scan.simps ck_step_defs ck_resume_state_def ck_leave_def ck_expected_def
    MAX_OFF_def NGX_MAX_OFF_T_VALUE_def
  let ?c = "\<lambda>k l. \<lparr> ck_state = sw_chunk_data, ck_size = k, ck_length = l \<rparr>"
  let ?rb = "\<lambda>c n r out. \<lparr> b_chunked = c, b_content_length = n, b_rest = r, b_out = out, b_last = False \<rparr>"
  have "ngx_http_parse_chunked new_chunked \<lparr>data = [ch_f, ch_0, LF], pos = 0\<rparr> =
      (NGX_AGAIN, ?c 240 244, \<lparr>data = [ch_f, ch_0, LF], pos = 3\<rparr>)"
    by (simp add: parse new_chunked_def)
  then have one: "body_buf 0 new_body \<lparr>data = [ch_f, ch_0, LF], pos = 0\<rparr> =
      Inr (?rb (?c 240 244) 0 244 [], \<lparr>data = [ch_f, ch_0, LF], pos = 3\<rparr>)"
    by (subst body_buf.simps) (simp add: new_body_def)
  have "ngx_http_parse_chunked (?c 240 244) \<lparr>data = [ch_a, ch_b], pos = 0\<rparr> =
      (NGX_OK, ?c 240 244, \<lparr>data = [ch_a, ch_b], pos = 0\<rparr>)"
    by (simp add: parse)
  then have two: "body_buf 0 (?rb (?c 240 244) 0 244 []) \<lparr>data = [ch_a, ch_b], pos = 0\<rparr> =
      body_buf 0 (?rb (?c 238 244) 2 244 [ch_a, ch_b]) \<lparr>data = [ch_a, ch_b], pos = 2\<rparr>"
    by (subst body_buf.simps) (simp add: numeral_2_eq_2)
  have "ngx_http_parse_chunked (?c 238 244) \<lparr>data = [ch_a, ch_b], pos = 2\<rparr> =
      (NGX_AGAIN, ?c 238 242, \<lparr>data = [ch_a, ch_b], pos = 2\<rparr>)"
    by (simp add: parse)
  then have three: "body_buf 0 (?rb (?c 238 244) 2 244 [ch_a, ch_b]) \<lparr>data = [ch_a, ch_b], pos = 2\<rparr> =
      Inr (two_of_240, \<lparr>data = [ch_a, ch_b], pos = 2\<rparr>)"
    by (subst body_buf.simps) (simp add: two_of_240_def)
  have "new_body\<lparr>b_out := [], b_last := False\<rparr> = new_body" by (simp add: new_body_def)
  then show ?thesis
    using one two three by (simp add: ngx_http_request_body_chunked_filter_def two_of_240_def)
qed

theorem chunked_limits_witness:
  "body_after 0 new_body [[ch_f, ch_0, LF], [ch_a, ch_b]] = Some two_of_240 \<and>
   (\<exists>xs len out. length xs = 242 \<and> body_feed 0 two_of_240 [xs] = Complete len out [])"
  using chunked_limits [OF two_of_240_reached] two_of_240_reached by (simp add: two_of_240_def can_end_def)

text \<open>
  No overflow: whenever \<open>ngx_http_parse_chunked\<close> returns \<open>NGX_OK\<close> or \<open>NGX_AGAIN\<close>, the
  \<open>length\<close> it leaves is what the state expects and fits \<open>off_t\<close>.
\<close>

theorem chunked_length_fits:
  assumes "ngx_http_parse_chunked c b = (rc, c', b')" "rc \<in> {NGX_OK, NGX_AGAIN}"
  shows "ck_length c' = ck_expected c' \<and> ck_length c' \<le> MAX_OFF"
  using assms by (rule parse_chunked_length)

theorem chunked_length_fits_witness:
  "\<exists>c' b'. ngx_http_parse_chunked new_chunked \<lparr>data = [ch_f, ch_0, LF], pos = 0\<rparr> = (NGX_AGAIN, c', b') \<and>
     ck_length c' = 244 \<and> ck_length c' \<le> MAX_OFF"
proof -
  obtain c' b' where p: "ngx_http_parse_chunked new_chunked \<lparr>data = [ch_f, ch_0, LF], pos = 0\<rparr> = (NGX_AGAIN, c', b')"
     "ck_length c' = 244"
    by (simp add: ngx_http_parse_chunked_def new_chunked_def scan.simps ck_step_defs ck_resume_state_def
        ck_leave_def ck_expected_def MAX_OFF_def NGX_MAX_OFF_T_VALUE_def)
  from chunked_length_fits [OF p(1)] p show ?thesis by simp
qed

text \<open>
  Bytes between the data of a chunk and the end of its line are skipped silently, and a
  size that fits \<open>off_t\<close> is refused from 2^59 on, because the test for one more digit comes
  before the test for the end of the line.
\<close>

theorem chunked_lenient:
  "dec_run 0 new_chunked 0 (bytes_of ''1'' @ [LF] @ bytes_of ''aJUNK'' @ [LF] @ bytes_of ''0'' @ [LF, LF]) =
     Complete 1 (bytes_of ''a'') [] \<and>
   dec_run 0 new_chunked 0 (bytes_of ''800000000000000'' @ [CR, LF]) = Bad NGX_HTTP_BAD_REQUEST_400"
  by (simp add: dec_run.simps dec_byte_def new_chunked_def ck_norm_def ck_step_defs ck_resume_state_def
      MAX_OFF_def NGX_MAX_OFF_T_VALUE_def)

end
