(* ===== verification/Upstream_Rr.thy ===== *)
theory Upstream_Rr
  imports Prelude
begin

text \<open>
  The round robin balancer of \<^verbatim>\<open>src/http/ngx_http_upstream_round_robin.c\<close>:
  \<open>ngx_http_upstream_get_peer\<close> (smooth weighted selection),
  \<open>ngx_http_upstream_get_round_robin_peer\<close> with its fall back to the backup group, and
  \<open>ngx_http_upstream_free_round_robin_peer\<close>. A group of peers is the list that \<open>peers->peer\<close>
  and \<open>peer->next\<close> link; a pointer to a peer is its index there. The zone locks are in
  \<open>Ngx_Rwlock\<close>; here each function is one step.

  The lemmas show that the selection only takes usable peers that this request has not tried,
  that weights are conserved and bounded, and that over a full cycle every peer is selected
  exactly as often as its weight says.
\<close>

section \<open>State\<close>

record rr_peer =
  current_weight :: int
  effective_weight :: int
  weight :: int
  conns :: nat
  max_conns :: nat
  fails :: nat
  accessed :: int
  checked :: int
  max_fails :: nat
  fail_timeout :: int
  down :: bool

record rr_peers =
  single :: bool
  peer_list :: "rr_peer list"

text \<open>
  \<open>ngx_http_upstream_rr_peer_data_t\<close> and the part of \<open>ngx_peer_connection_t\<close> that is used. The
  groups that \<open>rrp->peers\<close> and \<open>next\<close> link are a list, of which those already given up are in
  \<open>rr_passed\<close>; \<open>rr_current\<close> is an index into the first of \<open>rr_groups\<close>.
\<close>

record rr_data =
  rr_passed :: "rr_peers list"
  rr_groups :: "rr_peers list"
  rr_current :: nat
  tried :: "u64 list"
  tries :: nat

section \<open>The bit map of tried peers\<close>

definition is_tried :: "u64 list \<Rightarrow> nat \<Rightarrow> bool" where
  "is_tried tr i \<longleftrightarrow> tr ! (i div 64) AND push_bit (i mod 64) 1 \<noteq> 0"

definition set_tried :: "u64 list \<Rightarrow> nat \<Rightarrow> u64 list" where
  "set_tried tr i = tr[i div 64 := tr ! (i div 64) OR push_bit (i mod 64) 1]"

text \<open>\<open>n = (number + 63) / 64\<close> words are cleared.\<close>

definition clear_tried :: "nat \<Rightarrow> u64 list \<Rightarrow> u64 list" where
  "clear_tried number tr = replicate ((number + 63) div 64) 0 @ drop ((number + 63) div 64) tr"

section \<open>Selection\<close>

definition usable :: "int \<Rightarrow> rr_peer \<Rightarrow> bool" where
  "usable now p \<longleftrightarrow>
     \<not> down p \<and>
     \<not> (max_fails p \<noteq> 0 \<and> fails p \<ge> max_fails p \<and> now - checked p \<le> fail_timeout p) \<and>
     \<not> (max_conns p \<noteq> 0 \<and> conns p \<ge> max_conns p)"

definition bump :: "rr_peer \<Rightarrow> rr_peer" where
  "bump p = p\<lparr>current_weight := current_weight p + effective_weight p,
             effective_weight := (if effective_weight p < weight p then effective_weight p + 1
                                  else effective_weight p)\<rparr>"

text \<open>The loop over the peers; \<open>best\<close> is the index and the current weight of the best so far.\<close>

fun get_peer_loop :: "int \<Rightarrow> u64 list \<Rightarrow> nat \<Rightarrow> rr_peer list \<Rightarrow> (nat \<times> int) option \<Rightarrow> int \<Rightarrow>
    rr_peer list \<times> (nat \<times> int) option \<times> int" where
  "get_peer_loop now tr i [] best tot = ([], best, tot)"
| "get_peer_loop now tr i (p # ps) best tot =
     (if is_tried tr i \<or> \<not> usable now p then
        (case get_peer_loop now tr (i + 1) ps best tot of (ps', best', tot') \<Rightarrow> (p # ps', best', tot'))
      else
        let p' = bump p;
            best' = (case best of
                       None \<Rightarrow> Some (i, current_weight p')
                     | Some (b, c) \<Rightarrow> if current_weight p' > c then Some (i, current_weight p') else best)
        in case get_peer_loop now tr (i + 1) ps best' (tot + effective_weight p) of
             (ps', best'', tot') \<Rightarrow> (p' # ps', best'', tot'))"

text \<open>The selected peer: \<open>current_weight -= total\<close> and the time of the check.\<close>

definition take_best :: "int \<Rightarrow> int \<Rightarrow> rr_peer \<Rightarrow> rr_peer" where
  "take_best now tot p =
     p\<lparr>current_weight := current_weight p - tot,
      checked := (if now - checked p > fail_timeout p then now else checked p)\<rparr>"

definition ngx_http_upstream_get_peer ::
  "int \<Rightarrow> u64 list \<Rightarrow> rr_peer list \<Rightarrow> (nat \<times> u64 list) option \<times> rr_peer list" where
  "ngx_http_upstream_get_peer now tr ps =
     (case get_peer_loop now tr 0 ps None 0 of
        (ps', None, tot) \<Rightarrow> (None, ps')
      | (ps', Some (b, c), tot) \<Rightarrow> (Some (b, set_tried tr b), ps'[b := take_best now tot (ps' ! b)]))"

text \<open>One group: the selection of a peer and \<open>peer->conns++\<close>; \<open>None\<close> is \<open>goto failed\<close>.\<close>

definition add_conn :: "rr_peer \<Rightarrow> rr_peer" where
  "add_conn p = p\<lparr>conns := conns p + 1\<rparr>"

definition select_in_group :: "int \<Rightarrow> u64 list \<Rightarrow> rr_peers \<Rightarrow> (nat \<times> u64 list) option \<times> rr_peers" where
  "select_in_group now tr g =
     (if single g then
        let p = hd (peer_list g) in
        if down p then (None, g)
        else if max_conns p \<noteq> 0 \<and> conns p \<ge> max_conns p then (None, g)
        else (Some (0, tr), g\<lparr>peer_list := add_conn p # tl (peer_list g)\<rparr>)
      else
        case ngx_http_upstream_get_peer now tr (peer_list g) of
          (None, ps) \<Rightarrow> (None, g\<lparr>peer_list := ps\<rparr>)
        | (Some (b, tr'), ps) \<Rightarrow> (Some (b, tr'), g\<lparr>peer_list := ps[b := add_conn (ps ! b)]\<rparr>))"

text \<open>The recursion over the groups that \<open>next\<close> links.\<close>

fun rr_select :: "int \<Rightarrow> rr_peers list \<Rightarrow> rr_peers list \<Rightarrow> rr_data \<Rightarrow> ngx_rc \<times> rr_data" where
  "rr_select now passed [] rrp = (NGX_BUSY, rrp)"
| "rr_select now passed (g # gs) rrp =
     (case select_in_group now (tried rrp) g of
        (Some (b, tr), g') \<Rightarrow>
          (NGX_OK, rrp\<lparr>rr_passed := passed, rr_groups := g' # gs, rr_current := b, tried := tr\<rparr>)
      | (None, g') \<Rightarrow>
          (case gs of
             [] \<Rightarrow> (NGX_BUSY, rrp\<lparr>rr_passed := passed, rr_groups := [g']\<rparr>)
           | g2 # _ \<Rightarrow>
               rr_select now (passed @ [g']) gs
                 (rrp\<lparr>tried := clear_tried (length (peer_list g2)) (tried rrp)\<rparr>)))"

definition ngx_http_upstream_get_round_robin_peer :: "int \<Rightarrow> rr_data \<Rightarrow> ngx_rc \<times> rr_data" where
  "ngx_http_upstream_get_round_robin_peer now rrp =
     rr_select now (rr_passed rrp) (rr_groups rrp) rrp"

section \<open>Releasing a peer\<close>

text \<open>
  \<open>failed\<close> is \<open>state & NGX_PEER_FAILED\<close>; integer division of \<open>weight\<close>, which is positive. The
  counters are natural numbers: \<open>conns--\<close> is only reached for a peer that was selected before, where
  it is positive (\<open>round_robin_conns\<close>).
\<close>

definition free_peer :: "int \<Rightarrow> bool \<Rightarrow> rr_peer \<Rightarrow> rr_peer" where
  "free_peer now failed p =
     (let p = (if failed then
                 let p = p\<lparr>fails := fails p + 1, accessed := now, checked := now\<rparr>;
                     p = (if max_fails p \<noteq> 0
                          then p\<lparr>effective_weight := effective_weight p - weight p div int (max_fails p)\<rparr>
                          else p)
                 in if effective_weight p < 0 then p\<lparr>effective_weight := 0\<rparr> else p
               else if accessed p < checked p then p\<lparr>fails := 0\<rparr> else p)
      in p\<lparr>conns := conns p - 1\<rparr>)"

definition ngx_http_upstream_free_round_robin_peer :: "int \<Rightarrow> bool \<Rightarrow> rr_data \<Rightarrow> rr_data" where
  "ngx_http_upstream_free_round_robin_peer now failed rrp =
     (let g = hd (rr_groups rrp); i = rr_current rrp; ps = peer_list g in
      if single g then
        rrp\<lparr>rr_groups := g\<lparr>peer_list := ps[i := (ps ! i)\<lparr>conns := conns (ps ! i) - 1\<rparr>]\<rparr> # tl (rr_groups rrp),
           tries := 0\<rparr>
      else
        rrp\<lparr>rr_groups := g\<lparr>peer_list := ps[i := free_peer now failed (ps ! i)]\<rparr> # tl (rr_groups rrp),
           tries := (if tries rrp \<noteq> 0 then tries rrp - 1 else tries rrp)\<rparr>)"

section \<open>The bit map\<close>

lemma is_tried_bit: "is_tried tr i \<longleftrightarrow> bit (tr ! (i div 64)) (i mod 64)"
  by (simp add: is_tried_def bit_iff_and_push_bit_not_eq_0)

lemma is_tried_set_tried:
  assumes "i div 64 < length tr"
  shows "is_tried (set_tried tr i) j \<longleftrightarrow> j = i \<or> is_tried tr j"
proof (cases "j div 64 = i div 64")
  case True
  then have "j = i \<longleftrightarrow> j mod 64 = i mod 64" by (metis div_mult_mod_eq)
  with True assms show ?thesis
    by (auto simp: is_tried_bit set_tried_def bit_or_iff bit_exp_iff)
next
  case False
  with assms show ?thesis by (auto simp: is_tried_bit set_tried_def)
qed

definition no_tried :: "nat \<Rightarrow> u64 list" where
  "no_tried n = replicate ((n + 63) div 64) 0"

lemma word_index: "i < n \<Longrightarrow> i div 64 < (n + 63) div 64" for i n :: nat
  using div_le_mono [of "i + 64" "n + 63" 64] by simp

lemma not_is_tried_no_tried: "i < n \<Longrightarrow> \<not> is_tried (no_tried n) i"
  using word_index [of i n] by (simp add: is_tried_def no_tried_def)

section \<open>What the loop computes\<close>

definition eligible :: "int \<Rightarrow> u64 list \<Rightarrow> nat \<Rightarrow> rr_peer \<Rightarrow> bool" where
  "eligible now tr i p \<longleftrightarrow> \<not> is_tried tr i \<and> usable now p"

definition bumped :: "int \<Rightarrow> u64 list \<Rightarrow> nat \<Rightarrow> rr_peer \<Rightarrow> rr_peer" where
  "bumped now tr i p = (if eligible now tr i p then bump p else p)"

definition drawn :: "int \<Rightarrow> u64 list \<Rightarrow> nat \<Rightarrow> rr_peer \<Rightarrow> int" where
  "drawn now tr i p = (if eligible now tr i p then effective_weight p else 0)"

lemma get_peer_loop_result:
  "get_peer_loop now tr i ps best tot =
    (map (\<lambda>(j, p). bumped now tr j p) (enumerate i ps),
     fst (snd (get_peer_loop now tr i ps best tot)),
     tot + (\<Sum>(j, p)\<leftarrow>enumerate i ps. drawn now tr j p))"
proof (induction ps arbitrary: i best tot)
  case (Cons p ps)
  show ?case
  proof (cases "eligible now tr i p")
    case True
    let ?b = "case best of None \<Rightarrow> Some (i, current_weight (bump p))
      | Some (b, c) \<Rightarrow> if current_weight (bump p) > c then Some (i, current_weight (bump p)) else best"
    from True have "get_peer_loop now tr i (p # ps) best tot =
        (case get_peer_loop now tr (i + 1) ps ?b (tot + effective_weight p) of
          (ps', best'', tot') \<Rightarrow> (bump p # ps', best'', tot'))"
      by (simp add: eligible_def Let_def)
    with True Cons [of "i + 1" ?b "tot + effective_weight p"] show ?thesis
      by (auto simp: bumped_def drawn_def split: prod.splits)
  next
    case False
    then have "get_peer_loop now tr i (p # ps) best tot =
        (case get_peer_loop now tr (i + 1) ps best tot of (ps', best', tot') \<Rightarrow> (p # ps', best', tot'))"
      by (simp add: eligible_def)
    with False Cons [of "i + 1" best tot] show ?thesis
      by (auto simp: bumped_def drawn_def split: prod.splits)
  qed
qed simp

text \<open>The best of the loop is maximal among the eligible peers and is one of them.\<close>

definition best_of :: "int \<Rightarrow> u64 list \<Rightarrow> nat \<Rightarrow> rr_peer list \<Rightarrow> (nat \<times> int) option \<Rightarrow> (nat \<times> int) option \<Rightarrow> bool" where
  "best_of now tr i ps best best' \<longleftrightarrow>
     (best' = best \<or> (\<exists>k<length ps. eligible now tr (i + k) (ps ! k) \<and>
        best' = Some (i + k, current_weight (bump (ps ! k))))) \<and>
     (\<forall>k<length ps. eligible now tr (i + k) (ps ! k) \<longrightarrow>
        (\<exists>b c. best' = Some (b, c) \<and> current_weight (bump (ps ! k)) \<le> c)) \<and>
     (\<forall>b0 c0. best = Some (b0, c0) \<longrightarrow> (\<exists>b c. best' = Some (b, c) \<and> c0 \<le> c))"

lemma best_of_step:
  assumes "best_of now tr (i + 1) ps b1 best'"
    and "b1 = best \<or> eligible now tr i p \<and> b1 = Some (i, current_weight (bump p))"
    and "eligible now tr i p \<Longrightarrow> \<exists>b c. b1 = Some (b, c) \<and> current_weight (bump p) \<le> c"
    and "\<And>b0 c0. best = Some (b0, c0) \<Longrightarrow> \<exists>b c. b1 = Some (b, c) \<and> c0 \<le> c"
  shows "best_of now tr i (p # ps) best best'"
proof -
  have all: "(\<forall>k<length (p # ps). P k) \<longleftrightarrow> P 0 \<and> (\<forall>k<length ps. P (Suc k))" for P
    by (auto simp: less_Suc_eq_0_disj)
  have ex: "(\<exists>k<length (p # ps). P k) \<longleftrightarrow> P 0 \<or> (\<exists>k<length ps. P (Suc k))" for P
    by (auto simp: less_Suc_eq_0_disj)
  have up: "\<exists>b c. best' = Some (b, c) \<and> x \<le> c" if "\<exists>b c. b1 = Some (b, c) \<and> x \<le> c" for x
  proof -
    from that obtain b c where "b1 = Some (b, c)" "x \<le> c" by blast
    moreover from this(1) assms(1) obtain b' c' where "best' = Some (b', c')" "c \<le> c'"
      by (auto simp: best_of_def)
    ultimately show ?thesis by auto
  qed
  have A: "best' = b1 \<or> (\<exists>k<length ps. eligible now tr (i + Suc k) (ps ! k) \<and>
      best' = Some (i + Suc k, current_weight (bump (ps ! k))))"
    and B: "\<forall>k<length ps. eligible now tr (i + Suc k) (ps ! k) \<longrightarrow>
      (\<exists>b c. best' = Some (b, c) \<and> current_weight (bump (ps ! k)) \<le> c)"
    using assms(1) by (simp_all add: best_of_def)
  show ?thesis
    unfolding best_of_def all ex
  proof (intro conjI)
    show "best' = best \<or>
       (eligible now tr (i + 0) ((p # ps) ! 0) \<and> best' = Some (i + 0, current_weight (bump ((p # ps) ! 0)))) \<or>
       (\<exists>k<length ps. eligible now tr (i + Suc k) ((p # ps) ! Suc k) \<and>
          best' = Some (i + Suc k, current_weight (bump ((p # ps) ! Suc k))))"
      using A assms(2) by auto
  next
    show "eligible now tr (i + 0) ((p # ps) ! 0) \<longrightarrow>
      (\<exists>b c. best' = Some (b, c) \<and> current_weight (bump ((p # ps) ! 0)) \<le> c)"
      using up [OF assms(3)] by simp
  next
    show "\<forall>k<length ps. eligible now tr (i + Suc k) ((p # ps) ! Suc k) \<longrightarrow>
      (\<exists>b c. best' = Some (b, c) \<and> current_weight (bump ((p # ps) ! Suc k)) \<le> c)"
      using B by simp
  next
    show "\<forall>b0 c0. best = Some (b0, c0) \<longrightarrow> (\<exists>b c. best' = Some (b, c) \<and> c0 \<le> c)"
      using up [OF assms(4)] by blast
  qed
qed

lemma get_peer_loop_best:
  "best_of now tr i ps best (fst (snd (get_peer_loop now tr i ps best tot)))"
proof (induction ps arbitrary: i best tot)
  case Nil
  then show ?case by (simp add: best_of_def)
next
  case (Cons p ps)
  show ?case
  proof (cases "eligible now tr i p")
    case True
    let ?b = "case best of None \<Rightarrow> Some (i, current_weight (bump p))
      | Some (b, c) \<Rightarrow> if current_weight (bump p) > c then Some (i, current_weight (bump p)) else best"
    from True have "fst (snd (get_peer_loop now tr i (p # ps) best tot)) =
        fst (snd (get_peer_loop now tr (i + 1) ps ?b (tot + effective_weight p)))"
      by (simp add: eligible_def Let_def split: prod.split)
    then show ?thesis
      using best_of_step [OF Cons [of "i + 1" ?b "tot + effective_weight p"]] True
      by (auto split: option.splits if_splits)
  next
    case False
    then have "fst (snd (get_peer_loop now tr i (p # ps) best tot)) =
        fst (snd (get_peer_loop now tr (i + 1) ps best tot))"
      by (simp add: eligible_def split: prod.split)
    then show ?thesis using best_of_step [OF Cons [of "i + 1" best tot], of best p] False by auto
  qed
qed

definition bump_all :: "int \<Rightarrow> u64 list \<Rightarrow> rr_peer list \<Rightarrow> rr_peer list" where
  "bump_all now tr ps = map (\<lambda>(j, p). bumped now tr j p) (enumerate 0 ps)"

definition draw_all :: "int \<Rightarrow> u64 list \<Rightarrow> rr_peer list \<Rightarrow> int" where
  "draw_all now tr ps = (\<Sum>(j, p)\<leftarrow>enumerate 0 ps. drawn now tr j p)"

lemma bump_all_simps [simp]:
  "length (bump_all now tr ps) = length ps"
  "i < length ps \<Longrightarrow> bump_all now tr ps ! i = bumped now tr i (ps ! i)"
  by (simp_all add: bump_all_def nth_enumerate_eq)

text \<open>The selection, summed up.\<close>

lemma get_peer_cases:
  "(ngx_http_upstream_get_peer now tr ps = (None, ps) \<and>
      (\<forall>i<length ps. \<not> eligible now tr i (ps ! i))) \<or>
   (\<exists>b<length ps. eligible now tr b (ps ! b) \<and>
      (\<forall>i<length ps. eligible now tr i (ps ! i) \<longrightarrow> current_weight (bump (ps ! i)) \<le> current_weight (bump (ps ! b))) \<and>
      ngx_http_upstream_get_peer now tr ps =
        (Some (b, set_tried tr b),
         (bump_all now tr ps)[b := take_best now (draw_all now tr ps) (bump (ps ! b))]))"
proof -
  define best where "best = fst (snd (get_peer_loop now tr 0 ps None 0))"
  have res: "get_peer_loop now tr 0 ps None 0 = (bump_all now tr ps, best, draw_all now tr ps)"
    using get_peer_loop_result [of now tr 0 ps None 0] by (simp add: best_def bump_all_def draw_all_def)
  have b: "best_of now tr 0 ps None best" unfolding best_def by (rule get_peer_loop_best)
  show ?thesis
  proof (cases best)
    case None
    with b have "\<forall>i<length ps. \<not> eligible now tr i (ps ! i)" by (simp add: best_of_def)
    moreover from this have "bump_all now tr ps = ps" by (intro nth_equalityI) (simp_all add: bumped_def)
    ultimately show ?thesis using None res by (simp add: ngx_http_upstream_get_peer_def)
  next
    case (Some x)
    with b obtain k where k: "k < length ps" "eligible now tr k (ps ! k)" "best = Some (k, current_weight (bump (ps ! k)))"
      by (auto simp: best_of_def)
    moreover from b k have "\<forall>i<length ps. eligible now tr i (ps ! i) \<longrightarrow> current_weight (bump (ps ! i)) \<le> current_weight (bump (ps ! k))"
      by (auto simp: best_of_def)
    ultimately show ?thesis using res
      by (intro disjI2) (auto simp: ngx_http_upstream_get_peer_def bumped_def intro!: exI [of _ k])
  qed
qed

section \<open>Weights\<close>

lemma sum_enumerate:
  "(\<Sum>(j, p)\<leftarrow>enumerate 0 ps. f j p) = (\<Sum>i<length ps. f i (ps ! i))"
  by (simp add: sum_list_sum_nth atLeast0LessThan nth_enumerate_eq)

lemma sum_current: "sum_list (map current_weight ps) = (\<Sum>i<length ps. current_weight (ps ! i))"
  by (simp add: sum_list_sum_nth atLeast0LessThan)

lemma current_weight_bumped: "current_weight (bumped now tr i p) = current_weight p + drawn now tr i p"
  by (simp add: bumped_def drawn_def bump_def)

lemma current_weight_take_best [simp]: "current_weight (take_best now t p) = current_weight p - t"
  by (simp add: take_best_def)

lemma weight_simps [simp]: "weight (take_best now t p) = weight p" "weight (bump p) = weight p"
  by (simp_all add: take_best_def bump_def)

text \<open>A selection moves weight between the peers but conserves its sum.\<close>

lemma get_peer_conserves:
  "sum_list (map current_weight (snd (ngx_http_upstream_get_peer now tr ps))) = sum_list (map current_weight ps)"
proof -
  have sum: "(\<Sum>i<length ps. current_weight (bump_all now tr ps ! i)) =
      (\<Sum>i<length ps. current_weight (ps ! i)) + draw_all now tr ps"
    by (simp add: draw_all_def sum_enumerate current_weight_bumped sum.distrib)
  consider "ngx_http_upstream_get_peer now tr ps = (None, ps)"
    | b where "b < length ps" "eligible now tr b (ps ! b)" "ngx_http_upstream_get_peer now tr ps =
        (Some (b, set_tried tr b), (bump_all now tr ps)[b := take_best now (draw_all now tr ps) (bump (ps ! b))])"
    using get_peer_cases [of now tr ps] by blast
  then show ?thesis
  proof cases
    case 2
    let ?d = "draw_all now tr ps" and ?q = "bump_all now tr ps"
    have b: "?q ! b = bump (ps ! b)" using 2 by (simp add: bumped_def)
    have "sum_list (map current_weight (?q[b := take_best now ?d (bump (ps ! b))])) =
        (\<Sum>i<length ps. current_weight (?q ! i) - (if i = b then ?d else 0))"
      unfolding sum_current using b by (auto simp: nth_list_update intro!: sum.cong)
    also have "\<dots> = (\<Sum>i<length ps. current_weight (?q ! i)) - ?d"
      using 2 by (simp add: sum_subtractf)
    finally show ?thesis using 2 sum by (simp add: sum_current)
  qed simp
qed

text \<open>Effective weights stay between 0 and the configured weight.\<close>

definition weights_ok :: "rr_peer \<Rightarrow> bool" where
  "weights_ok p \<longleftrightarrow> 0 \<le> effective_weight p \<and> effective_weight p \<le> weight p"

lemma weights_ok_bump: "weights_ok p \<Longrightarrow> weights_ok (bumped now tr i p)"
  by (simp add: weights_ok_def bumped_def bump_def)

lemma weights_ok_take_best [simp]: "weights_ok (take_best now t p) = weights_ok p"
  by (simp add: weights_ok_def take_best_def)

lemma get_peer_weights_ok:
  assumes "list_all weights_ok ps"
  shows "list_all weights_ok (snd (ngx_http_upstream_get_peer now tr ps))"
proof -
  have "list_all weights_ok (bump_all now tr ps)"
    using assms by (auto simp: list_all_length weights_ok_bump)
  moreover have "b < length ps \<Longrightarrow> weights_ok (bump (ps ! b))" for b
    using assms by (auto simp: list_all_length weights_ok_def bump_def)
  ultimately show ?thesis
    using get_peer_cases [of now tr ps] assms by (auto simp: list_all_length nth_list_update)
qed

lemma free_peer_weights_ok:
  assumes "weights_ok p"
  shows "weights_ok (free_peer now failed p)"
proof -
  have "0 \<le> weight p div int (max_fails p)"
    using assms by (simp add: weights_ok_def div_int_pos_iff)
  with assms show ?thesis by (auto simp: free_peer_def Let_def weights_ok_def)
qed

section \<open>A full cycle\<close>

definition healthy :: "rr_peer \<Rightarrow> bool" where
  "healthy p \<longleftrightarrow> \<not> down p \<and> max_conns p = 0 \<and> fails p = 0 \<and> effective_weight p = weight p \<and> 0 \<le> weight p"

text \<open>One selection for each new request at the times \<open>ts\<close>: the peers selected and the peers left.\<close>

fun picks :: "int list \<Rightarrow> rr_peer list \<Rightarrow> nat list \<times> rr_peer list" where
  "picks [] ps = ([], ps)"
| "picks (now # ts) ps =
     (case ngx_http_upstream_get_peer now (no_tried (length ps)) ps of
        (None, ps') \<Rightarrow> ([], ps')
      | (Some (b, tr), ps') \<Rightarrow> (case picks ts ps' of (bs, ps'') \<Rightarrow> (b # bs, ps'')))"

definition total_weight :: "rr_peer list \<Rightarrow> int" where
  "total_weight ps = sum_list (map weight ps)"

lemma healthy_eligible: "healthy p \<Longrightarrow> i < n \<Longrightarrow> eligible now (no_tried n) i p"
  by (auto simp: eligible_def healthy_def usable_def not_is_tried_no_tried)

lemma healthy_pick:
  assumes "list_all healthy ps" "0 < total_weight ps" "sum_list (map current_weight ps) = 0"
    and lower: "\<forall>i<length ps. - total_weight ps < current_weight (ps ! i)"
  obtains b ps' where
    "ngx_http_upstream_get_peer now (no_tried (length ps)) ps = (Some (b, set_tried (no_tried (length ps)) b), ps')"
    "b < length ps" "length ps' = length ps" "list_all healthy ps'" "map weight ps' = map weight ps"
    "\<forall>i<length ps. current_weight (ps' ! i) =
       current_weight (ps ! i) + weight (ps ! i) - (if i = b then total_weight ps else 0)"
    "\<forall>i<length ps. - total_weight ps < current_weight (ps' ! i)"
proof -
  let ?tr = "no_tried (length ps)" and ?W = "total_weight ps"
  have h: "healthy (ps ! i)" if "i < length ps" for i using assms(1) that by (simp add: list_all_length)
  have el: "eligible now ?tr i (ps ! i)" if "i < length ps" for i
    using h [OF that] that by (rule healthy_eligible)
  have cw: "current_weight (bump (ps ! i)) = current_weight (ps ! i) + weight (ps ! i)" if "i < length ps" for i
    using h [OF that] by (simp add: bump_def healthy_def)
  have d: "draw_all now ?tr ps = ?W"
    using el h unfolding draw_all_def sum_enumerate total_weight_def
    by (auto simp: sum_list_sum_nth atLeast0LessThan drawn_def healthy_def intro!: sum.cong)
  have "ps \<noteq> []" using assms(2) by (auto simp: total_weight_def)
  then obtain b where b: "b < length ps"
    "\<forall>i<length ps. current_weight (bump (ps ! i)) \<le> current_weight (bump (ps ! b))"
    "ngx_http_upstream_get_peer now ?tr ps =
       (Some (b, set_tried ?tr b), (bump_all now ?tr ps)[b := take_best now ?W (bump (ps ! b))])"
    using get_peer_cases [of now ?tr ps] el d by (metis length_greater_0_conv)
  let ?ps' = "(bump_all now ?tr ps)[b := take_best now ?W (bump (ps ! b))]"
  have nth: "?ps' ! i = (if i = b then take_best now ?W (bump (ps ! i)) else bump (ps ! i))" if "i < length ps" for i
    using that b(1) el by (auto simp: nth_list_update bumped_def)
  have pos: "0 < current_weight (bump (ps ! b))"
  proof (rule ccontr)
    assume "\<not> ?thesis"
    then have "\<forall>i<length ps. current_weight (ps ! i) + weight (ps ! i) \<le> 0"
      using b(2) cw by force
    then have "(\<Sum>i<length ps. current_weight (ps ! i) + weight (ps ! i)) \<le> 0"
      by (intro sum_nonpos) simp
    then show False
      using assms(2,3) by (simp add: sum.distrib total_weight_def sum_list_sum_nth atLeast0LessThan)
  qed
  have hb: "healthy p \<Longrightarrow> healthy (take_best now t (bump p))" "healthy p \<Longrightarrow> healthy (bump p)" for t p
    by (auto simp: healthy_def take_best_def bump_def)
  show ?thesis
  proof (rule that [OF b(3,1)])
    show "length ?ps' = length ps" by simp
    show "list_all healthy ?ps'"
      unfolding list_all_length length_list_update bump_all_simps(1)
    proof (intro allI impI)
      fix i
      assume "i < length ps"
      with nth [OF this] h [OF this] hb show "healthy (?ps' ! i)" by (cases "i = b") simp_all
    qed
    show "map weight ?ps' = map weight ps"
      by (rule nth_equalityI) (simp_all add: nth)
    show "\<forall>i<length ps. current_weight (?ps' ! i) =
       current_weight (ps ! i) + weight (ps ! i) - (if i = b then ?W else 0)"
      using nth cw by simp
    then show "\<forall>i<length ps. - ?W < current_weight (?ps' ! i)"
      using pos cw lower h b(1) by (auto simp: healthy_def) (smt (verit) healthy_def)
  qed
qed

lemma picks_weights:
  assumes "list_all healthy ps" "0 < total_weight ps" "sum_list (map current_weight ps) = 0"
    and "\<forall>i<length ps. - total_weight ps < current_weight (ps ! i)"
    and "picks ts ps = (bs, ps')"
  shows "length bs = length ts \<and> length ps' = length ps \<and> map weight ps' = map weight ps \<and>
    (\<forall>i<length ps. current_weight (ps' ! i) = current_weight (ps ! i) + int (length ts) * weight (ps ! i)
        - total_weight ps * int (count_list bs i) \<and> - total_weight ps < current_weight (ps' ! i)) \<and>
    sum_list (map current_weight ps') = 0"
  using assms
proof (induction ts arbitrary: ps bs)
  case (Cons now ts)
  obtain b ps1 where p1: "ngx_http_upstream_get_peer now (no_tried (length ps)) ps =
      (Some (b, set_tried (no_tried (length ps)) b), ps1)" "b < length ps" "length ps1 = length ps"
    "list_all healthy ps1" "map weight ps1 = map weight ps"
    "\<forall>i<length ps. current_weight (ps1 ! i) =
       current_weight (ps ! i) + weight (ps ! i) - (if i = b then total_weight ps else 0)"
    "\<forall>i<length ps. - total_weight ps < current_weight (ps1 ! i)"
    by (rule healthy_pick [OF Cons.prems(1-4)])
  have W: "total_weight ps1 = total_weight ps" by (simp add: total_weight_def p1(5))
  have w: "weight (ps1 ! i) = weight (ps ! i)" if "i < length ps" for i
    using p1(3,5) that by (metis nth_map)
  have s0: "sum_list (map current_weight ps1) = 0"
    using get_peer_conserves [of now "no_tried (length ps)" ps] p1(1) Cons.prems(3) by simp
  from Cons.prems(5) p1(1) obtain bs' where bs: "bs = b # bs'" "picks ts ps1 = (bs', ps')"
    by (auto split: prod.splits)
  from Cons.IH [OF p1(4) _ s0 _ bs(2)] W p1(3,7) Cons.prems(2)
  have IH: "length bs' = length ts" "length ps' = length ps" "map weight ps' = map weight ps1"
    "\<And>i. i < length ps \<Longrightarrow> current_weight (ps' ! i) = current_weight (ps1 ! i) + int (length ts) * weight (ps1 ! i)
        - total_weight ps * int (count_list bs' i) \<and> - total_weight ps < current_weight (ps' ! i)"
    "sum_list (map current_weight ps') = 0"
    by auto
  have F: "current_weight (ps' ! i) = current_weight (ps ! i) + int (length (now # ts)) * weight (ps ! i)
        - total_weight ps * int (count_list bs i) \<and> - total_weight ps < current_weight (ps' ! i)" if "i < length ps" for i
    using IH(4) [OF that] p1(6) that w [OF that] by (cases "i = b") (auto simp: bs(1) algebra_simps)
  show ?case
  proof (intro conjI)
    show "length bs = length (now # ts)" using IH(1) bs(1) by simp
    show "map weight ps' = map weight ps" using IH(3) p1(5) by simp
  qed (use F IH in blast)+
qed auto

lemma full_cycle:
  assumes "list_all healthy ps" "0 < total_weight ps" "\<forall>i<length ps. current_weight (ps ! i) = 0"
    and "picks ts ps = (bs, ps')" "int (length ts) = total_weight ps" "i < length ps"
  shows "int (count_list bs i) = weight (ps ! i) \<and> current_weight (ps' ! i) = 0"
proof -
  let ?W = "total_weight ps"
  have "sum_list (map current_weight ps) = 0" using assms(3) by (simp add: sum_current)
  from picks_weights [OF assms(1,2) this _ assms(4)] assms(2,3,5)
  have P: "length ps' = length ps" "sum_list (map current_weight ps') = 0"
    "\<And>j. j < length ps \<Longrightarrow> current_weight (ps' ! j) = ?W * (weight (ps ! j) - int (count_list bs j)) \<and>
        - ?W < current_weight (ps' ! j)"
    by (auto simp: algebra_simps)
  have nn: "0 \<le> current_weight (ps' ! j)" if "j < length ps" for j
  proof -
    have "?W * (-1) < ?W * (weight (ps ! j) - int (count_list bs j))" using P(3) [OF that] by simp
    then have "-1 < weight (ps ! j) - int (count_list bs j)"
      using mult_less_cancel_left_pos [OF assms(2)] by blast
    with P(3) [OF that] assms(2) show ?thesis by simp
  qed
  have "(\<Sum>j<length ps. current_weight (ps' ! j)) = 0" using P(1,2) by (simp add: sum_current)
  with nn assms(6) have z: "current_weight (ps' ! i) = 0"
    by (subst (asm) sum_nonneg_eq_0_iff) auto
  with P(3) [OF assms(6)] assms(2) show ?thesis by simp
qed

section \<open>Trying other peers\<close>

text \<open>The attempts of one request: selections one after the other with the same bit map.\<close>

fun attempts :: "int list \<Rightarrow> u64 list \<Rightarrow> rr_peer list \<Rightarrow> nat list" where
  "attempts [] tr ps = []"
| "attempts (now # ts) tr ps =
     (case ngx_http_upstream_get_peer now tr ps of
        (None, ps') \<Rightarrow> []
      | (Some (b, tr'), ps') \<Rightarrow> b # attempts ts tr' ps')"

lemma get_peer_length: "length (snd (ngx_http_upstream_get_peer now tr ps)) = length ps"
  using get_peer_cases [of now tr ps] by auto

lemma attempts_fresh:
  assumes "(length ps + 63) div 64 \<le> length tr" "i \<in> set (attempts ts tr ps)"
  shows "i < length ps \<and> \<not> is_tried tr i"
  using assms
proof (induction ts arbitrary: tr ps)
  case (Cons now ts)
  consider "ngx_http_upstream_get_peer now tr ps = (None, ps)"
    | b ps1 where "b < length ps" "eligible now tr b (ps ! b)" "length ps1 = length ps"
        "ngx_http_upstream_get_peer now tr ps = (Some (b, set_tried tr b), ps1)"
    using get_peer_cases [of now tr ps] by fastforce
  then show ?case
  proof cases
    case 2
    from 2(1) have lt: "b div 64 < length tr" using word_index [of b "length ps"] Cons.prems(1) by simp
    from Cons.prems(2) 2 have "i = b \<or> i \<in> set (attempts ts (set_tried tr b) ps1)" by simp
    with Cons.IH [of ps1 "set_tried tr b"] Cons.prems(1) 2 is_tried_set_tried [OF lt] show ?thesis
      by (auto simp: eligible_def set_tried_def)
  qed (use Cons in auto)
qed simp

lemma attempts_distinct:
  assumes "(length ps + 63) div 64 \<le> length tr"
  shows "distinct (attempts ts tr ps)"
  using assms
proof (induction ts arbitrary: tr ps)
  case (Cons now ts)
  consider "ngx_http_upstream_get_peer now tr ps = (None, ps)"
    | b ps1 where "b < length ps" "length ps1 = length ps"
        "ngx_http_upstream_get_peer now tr ps = (Some (b, set_tried tr b), ps1)"
    using get_peer_cases [of now tr ps] by fastforce
  then show ?case
  proof cases
    case 2
    have lt: "b div 64 < length tr" using word_index [OF 2(1)] Cons.prems by simp
    have l: "(length ps1 + 63) div 64 \<le> length (set_tried tr b)" using Cons.prems 2 by (simp add: set_tried_def)
    from attempts_fresh [OF l, of b ts] is_tried_set_tried [OF lt] have "b \<notin> set (attempts ts (set_tried tr b) ps1)" by blast
    with 2 Cons.IH [OF l] show ?thesis by simp
  qed simp
qed simp

section \<open>Connections\<close>

definition group_conns :: "rr_peers \<Rightarrow> nat" where
  "group_conns g = sum_list (map conns (peer_list g))"

definition total_conns :: "rr_data \<Rightarrow> nat" where
  "total_conns rrp = sum_list (map group_conns (rr_passed rrp @ rr_groups rrp))"

definition group_ok :: "rr_peers \<Rightarrow> bool" where
  "group_ok g \<longleftrightarrow> (single g \<longrightarrow> peer_list g \<noteq> [])"

lemma conns_simps [simp]:
  "conns (take_best now t p) = conns p" "conns (bump p) = conns p" "conns (bumped now tr i p) = conns p"
  "conns (add_conn p) = conns p + 1" "conns (free_peer now failed p) = conns p - 1"
  by (simp_all add: take_best_def bump_def bumped_def add_conn_def free_peer_def Let_def)

lemma map_conns_get_peer: "map conns (snd (ngx_http_upstream_get_peer now tr ps)) = map conns ps"
proof -
  have "map conns (bump_all now tr ps) = map conns ps" by (rule nth_equalityI) simp_all
  moreover have "map conns ((bump_all now tr ps)[b := take_best now d (bump (ps ! b))]) = map conns ps"
    if "b < length ps" for b d
    by (rule nth_equalityI) (use that in \<open>simp_all add: nth_list_update\<close>)
  ultimately show ?thesis using get_peer_cases [of now tr ps] by auto
qed

lemma sum_conns_update:
  "i < length ps \<Longrightarrow> sum_list (map conns (ps[i := p])) + conns (ps ! i) = sum_list (map conns ps) + conns p"
proof (induction ps arbitrary: i)
  case (Cons q ps)
  then show ?case by (cases i) auto
qed simp

lemma select_in_group_conns:
  assumes "select_in_group now tr g = (r, g')" "group_ok g"
  shows "case r of
      None \<Rightarrow> group_conns g' = group_conns g
    | Some (b, _) \<Rightarrow> group_conns g' = group_conns g + 1 \<and> b < length (peer_list g') \<and>
        0 < conns (peer_list g' ! b) \<and> (single g' \<longrightarrow> b = 0)"
proof (cases "single g")
  case True
  with assms obtain p ps where "peer_list g = p # ps" by (cases "peer_list g") (auto simp: group_ok_def)
  with True assms(1) show ?thesis
    by (auto simp: select_in_group_def group_conns_def Let_def split: if_splits)
next
  case False
  obtain r1 ps where g: "ngx_http_upstream_get_peer now tr (peer_list g) = (r1, ps)" by fastforce
  have c: "map conns ps = map conns (peer_list g)" using map_conns_get_peer [of now tr "peer_list g"] g by simp
  have b: "b < length ps" if "r1 = Some (b, t)" for b t
    using get_peer_cases [of now tr "peer_list g"] that g by auto
  show ?thesis
  proof (cases r1)
    case None
    with False g assms(1) c show ?thesis by (auto simp: select_in_group_def group_conns_def)
  next
    case (Some x)
    then obtain b' t where x: "r1 = Some (b', t)" by (cases x) auto
    with False g assms(1) have "r = Some (b', t)" "g' = g\<lparr>peer_list := ps[b' := add_conn (ps ! b')]\<rparr>"
      by (auto simp: select_in_group_def)
    with sum_conns_update [OF b [OF x], of "add_conn (ps ! b')"] b [OF x] c False show ?thesis
      by (simp add: group_conns_def)
  qed
qed

lemma rr_select_conns:
  assumes "rr_select now passed gs rrp = (rc, rrp')" "list_all group_ok gs" "gs \<noteq> []"
  shows "if rc = NGX_OK
    then total_conns rrp' = sum_list (map group_conns (passed @ gs)) + 1 \<and>
      (\<exists>g gs'. rr_groups rrp' = g # gs' \<and> rr_current rrp' < length (peer_list g) \<and>
         0 < conns (peer_list g ! rr_current rrp'))
    else rc = NGX_BUSY \<and> total_conns rrp' = sum_list (map group_conns (passed @ gs))"
  using assms
proof (induction gs arbitrary: passed rrp)
  case (Cons g gs)
  obtain r g' where s: "select_in_group now (tried rrp) g = (r, g')" by fastforce
  note c = select_in_group_conns [OF s]
  show ?case
  proof (cases r)
    case (Some x)
    then show ?thesis using Cons.prems s c by (cases x) (auto simp: total_conns_def)
  next
    case None
    show ?thesis
    proof (cases gs)
      case Nil
      with None Cons.prems s c show ?thesis by (auto simp: total_conns_def)
    next
      case (Cons g2 gs2)
      with None Cons.prems s c Cons.IH [of "passed @ [g']" "rrp\<lparr>tried := clear_tried (length (peer_list g2)) (tried rrp)\<rparr>"]
      show ?thesis by (auto split: if_splits)
    qed
  qed
qed simp

lemma free_conns:
  assumes "rr_groups rrp = g # gs" "rr_current rrp < length (peer_list g)" "0 < conns (peer_list g ! rr_current rrp)"
  shows "total_conns (ngx_http_upstream_free_round_robin_peer now failed rrp) + 1 = total_conns rrp"
proof -
  let ?i = "rr_current rrp" and ?ps = "peer_list g"
  have "sum_list (map conns (?ps[?i := p])) + 1 = sum_list (map conns ?ps)" if "conns p = conns (?ps ! ?i) - 1" for p
    using sum_conns_update [OF assms(2), of p] assms(3) that by simp
  with assms(1) show ?thesis
    by (simp add: ngx_http_upstream_free_round_robin_peer_def total_conns_def group_conns_def Let_def)
qed

section \<open>Properties\<close>

text \<open>
  C14. Weighted round robin is exact: over a full cycle of as many requests as the sum of the
  weights, from balanced healthy peers and at any times, every peer is selected exactly as
  often as its weight says, and the current weights are balanced again.
\<close>

theorem round_robin_full_cycle:
  assumes "list_all healthy ps" "0 < total_weight ps" "\<forall>i<length ps. current_weight (ps ! i) = 0"
    and "picks ts ps = (bs, ps')" "int (length ts) = total_weight ps" "i < length ps"
  shows "int (count_list bs i) = weight (ps ! i) \<and> current_weight (ps' ! i) = 0"
  using assms by (rule full_cycle)

definition fresh_peer :: "int \<Rightarrow> rr_peer" where
  "fresh_peer w = \<lparr> current_weight = 0, effective_weight = w, weight = w, conns = 0, max_conns = 0,
     fails = 0, accessed = 0, checked = 0, max_fails = 1, fail_timeout = 10, down = False \<rparr>"

theorem round_robin_full_cycle_witness:
  "count_list (fst (picks [5, 6, 7, 8, 9, 10, 11] [fresh_peer 5, fresh_peer 1, fresh_peer 1])) 0 = 5"
proof -
  let ?ps = "[fresh_peer 5, fresh_peer 1, fresh_peer 1]" and ?ts = "[5, 6, 7, 8, 9, 10, 11]"
  obtain bs ps' where "picks ?ts ?ps = (bs, ps')" by fastforce
  moreover have "int (count_list bs 0) = weight (?ps ! 0) \<and> current_weight (ps' ! 0) = 0"
    by (rule round_robin_full_cycle [of ?ps ?ts bs ps' 0])
      (use calculation in \<open>auto simp: healthy_def fresh_peer_def total_weight_def less_Suc_eq_0_disj\<close>)
  ultimately show ?thesis by (simp add: fresh_peer_def)
qed

text \<open>
  \<open>ngx_http_upstream_get_peer\<close> returns \<open>NULL\<close> exactly when no peer is eligible (not tried by
  this request, not down, not failed recently, below its connection limit), leaving the peers
  alone; otherwise it returns an eligible peer whose increased current weight is maximal among
  the eligible ones, marks it as tried, and conserves the sum of the current weights.
\<close>

theorem get_peer_selects:
  "case ngx_http_upstream_get_peer now tr ps of
     (None, ps') \<Rightarrow> ps' = ps \<and> filter (\<lambda>i. eligible now tr i (ps ! i)) [0..<length ps] = []
   | (Some (b, tr'), ps') \<Rightarrow>
       b < length ps \<and> eligible now tr b (ps ! b) \<and> tr' = set_tried tr b \<and>
       list_all (\<lambda>i. current_weight (bump (ps ! i)) \<le> current_weight (bump (ps ! b)))
         (filter (\<lambda>i. eligible now tr i (ps ! i)) [0..<length ps]) \<and>
       sum_list (map current_weight ps') = sum_list (map current_weight ps)"
  using get_peer_cases [of now tr ps] get_peer_conserves [of now tr ps]
  by (auto simp: filter_empty_conv list_all_iff)

text \<open>
  The attempts of one request never go to the same peer twice, whatever happens to the
  peers in between: the bit map has a bit of its own for every peer.
\<close>

theorem attempts_never_repeat:
  "distinct (attempts ts (no_tried (length ps)) ps) \<and>
   list_all (\<lambda>i. i < length ps) (attempts ts (no_tried (length ps)) ps)"
  using attempts_distinct [of ps "no_tried (length ps)" ts] attempts_fresh [of ps "no_tried (length ps)" _ ts]
  by (auto simp: no_tried_def list_all_iff)

text \<open>
  Connections are accounted for: a successful \<open>ngx_http_upstream_get_round_robin_peer\<close> adds
  one connection in all groups together, \<open>NGX_BUSY\<close> adds none, and
  \<open>ngx_http_upstream_free_round_robin_peer\<close> takes exactly the one back, failed or not.
\<close>

theorem round_robin_conns:
  assumes "list_all group_ok (rr_groups rrp)" "rr_groups rrp \<noteq> []"
    and "ngx_http_upstream_get_round_robin_peer now rrp = (rc, rrp')"
  shows "if rc = NGX_OK
    then total_conns rrp' = total_conns rrp + 1 \<and>
      total_conns (ngx_http_upstream_free_round_robin_peer now' failed rrp') = total_conns rrp
    else rc = NGX_BUSY \<and> total_conns rrp' = total_conns rrp"
  using rr_select_conns [of now "rr_passed rrp" "rr_groups rrp" rrp rc rrp'] assms
    free_conns [of rrp' _ _ now' failed]
  by (auto simp: ngx_http_upstream_get_round_robin_peer_def total_conns_def split: if_splits)

theorem round_robin_conns_witness:
  "\<exists>rrp'. ngx_http_upstream_get_round_robin_peer 1
      \<lparr>rr_passed = [], rr_groups = [\<lparr>single = True, peer_list = [(fresh_peer 1)\<lparr>down := True\<rparr>]\<rparr>,
        \<lparr>single = False, peer_list = [fresh_peer 1, fresh_peer 2]\<rparr>], rr_current = 0, tried = [0], tries = 3\<rparr> = (NGX_OK, rrp') \<and>
    total_conns rrp' = 1 \<and> total_conns (ngx_http_upstream_free_round_robin_peer 2 True rrp') = 0"
proof -
  let ?rrp = "\<lparr>rr_passed = [], rr_groups = [\<lparr>single = True, peer_list = [(fresh_peer 1)\<lparr>down := True\<rparr>]\<rparr>,
        \<lparr>single = False, peer_list = [fresh_peer 1, fresh_peer 2]\<rparr>], rr_current = 0, tried = [0], tries = 3\<rparr>"
  obtain rc rrp' where g: "ngx_http_upstream_get_round_robin_peer 1 ?rrp = (rc, rrp')" by fastforce
  have "fst (ngx_http_upstream_get_round_robin_peer 1 ?rrp) = NGX_OK" by code_simp
  then have "rc = NGX_OK" using g by simp
  moreover have "total_conns ?rrp = 0" by code_simp
  ultimately show ?thesis
    using round_robin_conns [of ?rrp 1 rc rrp' 2 True] g by (auto simp: group_ok_def)
qed

end
