(* ===== verification/Ngx_Rwlock.thy ===== *)
theory Ngx_Rwlock
  imports Prelude
begin

text \<open>
  The reader-writer spin lock of \<^verbatim>\<open>src/core/ngx_rwlock.c\<close>, used by worker processes on shared
  memory. The processes interleave at the granularity of their atomic actions: a load of
  \<open>*lock\<close>, an \<open>ngx_atomic_cmp_set\<close>, a store. The spinning with \<open>ngx_cpu_pause\<close> and the
  \<open>ngx_sched_yield\<close> between two attempts only pass time and are no steps of their own.

  A process is described by where it is: outside, inside one of the three functions, or holding
  the lock between them. The lemmas show mutual exclusion for every interleaving, that the lock
  word is exactly the number of readers (or the write mark), and that a free lock can be taken
  and a held one released.
\<close>

section \<open>Model\<close>

definition NGX_RWLOCK_WLOCK :: u64 where
  "NGX_RWLOCK_WLOCK = -1"

text \<open>
  \<open>U_load w\<close> is the start of \<open>ngx_rwlock_unlock\<close>; the flag, which the code does not have,
  records whether the caller held the write lock.
\<close>

datatype rw_pc =
    Outside
  | W_load | W_cas | W_held
  | R_load | R_cas u64 | R_held
  | U_load bool | U_store | U_cas u64 | U_reload

record rw =
  lock :: u64
  at :: "nat \<Rightarrow> rw_pc"

definition jump :: "nat \<Rightarrow> rw_pc \<Rightarrow> rw \<Rightarrow> rw" where
  "jump i pc s = s\<lparr>at := (at s)(i := pc)\<rparr>"

text \<open>\<open>rw_act i\<close> are the steps of the process \<open>i\<close>, as its program has them.\<close>

inductive rw_act :: "nat \<Rightarrow> rw \<Rightarrow> rw \<Rightarrow> bool" for i where
  call_wlock: "at s i = Outside \<Longrightarrow> rw_act i s (jump i W_load s)"
| wlock_load: "at s i = W_load \<Longrightarrow>
    rw_act i s (jump i (if lock s = 0 then W_cas else W_load) s)"
| wlock_cas: "at s i = W_cas \<Longrightarrow>
    rw_act i s (if lock s = 0 then jump i W_held (s\<lparr>lock := NGX_RWLOCK_WLOCK\<rparr>) else jump i W_load s)"
| call_rlock: "at s i = Outside \<Longrightarrow> rw_act i s (jump i R_load s)"
| rlock_load: "at s i = R_load \<Longrightarrow>
    rw_act i s (jump i (if lock s \<noteq> NGX_RWLOCK_WLOCK then R_cas (lock s) else R_load) s)"
| rlock_cas: "at s i = R_cas readers \<Longrightarrow>
    rw_act i s (if lock s = readers then jump i R_held (s\<lparr>lock := readers + 1\<rparr>) else jump i R_load s)"
| call_unlock_w: "at s i = W_held \<Longrightarrow> rw_act i s (jump i (U_load True) s)"
| call_unlock_r: "at s i = R_held \<Longrightarrow> rw_act i s (jump i (U_load False) s)"
| unlock_load: "at s i = U_load w \<Longrightarrow>
    rw_act i s (jump i (if lock s = NGX_RWLOCK_WLOCK then U_store else U_cas (lock s)) s)"
| unlock_store: "at s i = U_store \<Longrightarrow> rw_act i s (jump i Outside (s\<lparr>lock := 0\<rparr>))"
| unlock_cas: "at s i = U_cas readers \<Longrightarrow>
    rw_act i s (if lock s = readers then jump i Outside (s\<lparr>lock := readers - 1\<rparr>)
                else jump i U_reload s)"
| unlock_reload: "at s i = U_reload \<Longrightarrow> rw_act i s (jump i (U_cas (lock s)) s)"

text \<open>A step of the system of \<open>n\<close> processes is a step of one of them.\<close>

definition rw_step :: "nat \<Rightarrow> rw \<Rightarrow> rw \<Rightarrow> bool" where
  "rw_step n s s' \<longleftrightarrow> (\<exists>i<n. rw_act i s s')"

definition rw_init :: rw where
  "rw_init = \<lparr> lock = 0, at = (\<lambda>_. Outside) \<rparr>"

inductive rw_reachable :: "nat \<Rightarrow> rw \<Rightarrow> bool" for n where
  reach_init: "rw_reachable n rw_init"
| reach_step: "rw_reachable n s \<Longrightarrow> rw_step n s s' \<Longrightarrow> rw_reachable n s'"

section \<open>Invariant\<close>

definition writes :: "rw_pc \<Rightarrow> bool" where
  "writes pc \<longleftrightarrow> pc = W_held \<or> pc = U_load True \<or> pc = U_store"

definition reads :: "rw_pc \<Rightarrow> bool" where
  "reads pc \<longleftrightarrow> pc = R_held \<or> pc = U_load False \<or> pc = U_reload \<or> (\<exists>k. pc = U_cas k)"

definition writers :: "nat \<Rightarrow> rw \<Rightarrow> nat set" where
  "writers n s = {i. i < n \<and> writes (at s i)}"

definition readers :: "nat \<Rightarrow> rw \<Rightarrow> nat set" where
  "readers n s = {i. i < n \<and> reads (at s i)}"

text \<open>The lock word is the write mark with one writer and no reader, or else the number of
  readers; a reader never tries to increment the write mark.\<close>

definition rw_inv :: "nat \<Rightarrow> rw \<Rightarrow> bool" where
  "rw_inv n s \<longleftrightarrow>
     ((\<exists>i. writers n s = {i} \<and> readers n s = {} \<and> lock s = NGX_RWLOCK_WLOCK) \<or>
      (writers n s = {} \<and> lock s = of_nat (card (readers n s)))) \<and>
     (\<forall>i<n. \<forall>k. at s i = R_cas k \<longrightarrow> k \<noteq> NGX_RWLOCK_WLOCK)"

lemma finite_holders [simp]: "finite (writers n s)" "finite (readers n s)"
  by (simp_all add: writers_def readers_def)

lemma card_readers: "card (readers n s) \<le> n"
proof -
  have "readers n s \<subseteq> {..<n}" by (auto simp: readers_def)
  from card_mono [OF _ this] show ?thesis by simp
qed

lemma holders_jump:
  assumes "i < n"
  shows "writers n (jump i pc s) = (if writes pc then insert i (writers n s) else writers n s - {i})"
    and "readers n (jump i pc s) = (if reads pc then insert i (readers n s) else readers n s - {i})"
  using assms by (auto simp: writers_def readers_def jump_def)

lemma holders_lock [simp]: "writers n (s\<lparr>lock := l\<rparr>) = writers n s" "readers n (s\<lparr>lock := l\<rparr>) = readers n s"
  by (simp_all add: writers_def readers_def)

lemma lock_jump [simp]: "lock (jump i pc s) = lock s"
  by (simp add: jump_def)

lemma pc_kinds [simp]:
  "\<not> writes Outside" "\<not> writes W_load" "\<not> writes W_cas" "writes W_held" "\<not> writes R_load" "\<not> writes (R_cas k)"
  "\<not> writes R_held" "writes (U_load b) = b" "writes U_store" "\<not> writes (U_cas k)" "\<not> writes U_reload"
  "\<not> reads Outside" "\<not> reads W_load" "\<not> reads W_cas" "\<not> reads W_held" "\<not> reads R_load" "\<not> reads (R_cas k)"
  "reads R_held" "reads (U_load b) = (\<not> b)" "\<not> reads U_store" "reads (U_cas k)" "reads U_reload"
  by (auto simp: writes_def reads_def)

lemma of_nat_not_wlock: "k \<le> n \<Longrightarrow> n < 2 ^ 64 - 1 \<Longrightarrow> (of_nat k :: u64) \<noteq> NGX_RWLOCK_WLOCK"
proof
  assume "k \<le> n" "n < 2 ^ 64 - 1" "(of_nat k :: u64) = NGX_RWLOCK_WLOCK"
  then have "unat (of_nat k :: u64) = unat (- 1 :: u64)" by (simp add: NGX_RWLOCK_WLOCK_def)
  then have "k mod 2 ^ 64 = 2 ^ 64 - 1" by (simp add: unat_of_nat unsigned_minus_1_eq_mask mask_eq_exp_minus_1)
  with \<open>k \<le> n\<close> \<open>n < 2 ^ 64 - 1\<close> show False by simp
qed


lemma of_nat_card_zero: "card (readers n s) \<le> n \<Longrightarrow> n < 2 ^ 64 - 1 \<Longrightarrow>
    (of_nat (card (readers n s)) :: u64) = 0 \<Longrightarrow> readers n s = {}"
proof -
  assume "card (readers n s) \<le> n" "n < 2 ^ 64 - 1" "(of_nat (card (readers n s)) :: u64) = 0"
  then have "card (readers n s) mod 2 ^ 64 = 0" by (simp add: of_nat_eq_0_iff dvd_imp_mod_0 word_of_nat_eq_0_iff)
  with \<open>card (readers n s) \<le> n\<close> \<open>n < 2 ^ 64 - 1\<close> show ?thesis by simp
qed

lemma at_jump [simp]: "at (jump i pc s) j = (if j = i then pc else at s j)"
  by (simp add: jump_def)

lemma holders_same:
  assumes "i < n" "writes pc = writes (at s i)" "reads pc = reads (at s i)"
  shows "writers n (jump i pc s) = writers n s" "readers n (jump i pc s) = readers n s"
  using assms by (auto simp: holders_jump writers_def readers_def)

lemma rw_inv_same:
  assumes "rw_inv n s" "i < n" "writes pc = writes (at s i)" "reads pc = reads (at s i)"
    and "\<And>k. pc = R_cas k \<Longrightarrow> k \<noteq> NGX_RWLOCK_WLOCK"
  shows "rw_inv n (jump i pc s)"
  using assms by (auto simp: rw_inv_def holders_same [OF assms(2-4)])

lemma rw_inv_writer:
  assumes "rw_inv n s" "i < n" "writes (at s i)"
  shows "writers n s = {i} \<and> readers n s = {} \<and> lock s = NGX_RWLOCK_WLOCK"
proof -
  have "i \<in> writers n s" using assms by (simp add: writers_def)
  with assms(1) show ?thesis by (auto simp: rw_inv_def)
qed

lemma rw_inv_reader:
  assumes "rw_inv n s" "i < n" "reads (at s i)"
  shows "writers n s = {} \<and> i \<in> readers n s \<and> lock s = of_nat (card (readers n s))"
proof -
  have "i \<in> readers n s" using assms by (simp add: readers_def)
  with assms(1) show ?thesis by (auto simp: rw_inv_def)
qed

lemma rw_inv_act:
  assumes "rw_act i s s'" "rw_inv n s" and n: "n < 2 ^ 64 - 1" and i: "i < n"
  shows "rw_inv n s'"
  using assms(1)
proof cases
  case wlock_cas
  show ?thesis
  proof (cases "lock s = 0")
    case True
    with assms(2) have w: "writers n s = {}" "(of_nat (card (readers n s)) :: u64) = 0"
      by (auto simp: rw_inv_def NGX_RWLOCK_WLOCK_def)
    with of_nat_card_zero [OF card_readers n] have "readers n s = {}" by simp
    with True wlock_cas i w assms(2) show ?thesis by (auto simp: rw_inv_def holders_jump)
  next
    case False
    have "rw_inv n (jump i W_load s)" by (rule rw_inv_same [OF assms(2)]) (use wlock_cas i in simp_all)
    with False wlock_cas(1) show ?thesis by simp
  qed
next
  case (rlock_cas k)
  show ?thesis
  proof (cases "lock s = k")
    case True
    from assms(2) rlock_cas i have "k \<noteq> NGX_RWLOCK_WLOCK" by (simp add: rw_inv_def)
    with True assms(2) have w: "writers n s = {}" "lock s = of_nat (card (readers n s))"
      by (auto simp: rw_inv_def)
    have "i \<notin> readers n s" using rlock_cas by (simp add: readers_def)
    with True rlock_cas i w assms(2) show ?thesis by (auto simp: rw_inv_def holders_jump)
  next
    case False
    have "rw_inv n (jump i R_load s)" by (rule rw_inv_same [OF assms(2)]) (use rlock_cas i in simp_all)
    with False rlock_cas(1) show ?thesis by simp
  qed
next
  case (unlock_load w)
  show ?thesis
  proof (cases w)
    case True
    with unlock_load assms(2) rw_inv_writer [OF assms(2) i] show ?thesis using i by (auto intro!: rw_inv_same)
  next
    case False
    with unlock_load rw_inv_reader [OF assms(2) i] of_nat_not_wlock [OF card_readers n, of s]
    show ?thesis using assms(2) i by (auto intro!: rw_inv_same)
  qed
next
  case unlock_store
  with rw_inv_writer [OF assms(2) i] assms(2) i show ?thesis
    by (auto simp: rw_inv_def holders_jump)
next
  case (unlock_cas k)
  show ?thesis
  proof (cases "lock s = k")
    case True
    from rw_inv_reader [OF assms(2) i] unlock_cas have r: "writers n s = {}" "i \<in> readers n s"
      "lock s = of_nat (card (readers n s))" by auto
    from r(2) have "0 < card (readers n s)" by (auto simp: card_gt_0_iff)
    then have "(of_nat (card (readers n s - {i})) :: u64) = of_nat (card (readers n s)) - 1"
      using r(2) by (simp add: of_nat_diff)
    with True unlock_cas i r assms(2) show ?thesis by (auto simp: rw_inv_def holders_jump)
  next
    case False
    have "rw_inv n (jump i U_reload s)" by (rule rw_inv_same [OF assms(2)]) (use unlock_cas i in simp_all)
    with False unlock_cas(1) show ?thesis by simp
  qed
qed (use assms(2) i in \<open>auto intro!: rw_inv_same\<close>)

lemma rw_inv_step: "rw_step n s s' \<Longrightarrow> rw_inv n s \<Longrightarrow> n < 2 ^ 64 - 1 \<Longrightarrow> rw_inv n s'"
  unfolding rw_step_def using rw_inv_act by blast

lemma rw_reachable_inv: "rw_reachable n s \<Longrightarrow> n < 2 ^ 64 - 1 \<Longrightarrow> rw_inv n s"
proof (induction rule: rw_reachable.induct)
  case reach_init
  show ?case by (simp add: rw_inv_def rw_init_def writers_def readers_def)
next
  case (reach_step s s')
  then show ?case using rw_inv_step by blast
qed

section \<open>Properties\<close>

text \<open>
  C15. Mutual exclusion, in every interleaving of any number of processes below 2^64 - 1: while
  a process is between the return of \<open>ngx_rwlock_wlock\<close> and the last store of its unlock, no
  other process holds the lock for writing or reading; otherwise the lock word counts the
  readers.
\<close>

theorem rwlock_exclusion:
  assumes "rw_reachable n s" "n < 2 ^ 64 - 1" "i < n" "j < n" "i \<noteq> j"
  shows "\<not> (at s i = W_held \<and> (at s j = W_held \<or> at s j = R_held)) \<and>
    (lock s = NGX_RWLOCK_WLOCK \<or> lock s = of_nat (card (readers n s)))"
proof -
  have inv: "rw_inv n s" using rw_reachable_inv [OF assms(1,2)] .
  have "j \<notin> writers n s \<and> j \<notin> readers n s" if "at s i = W_held"
    using rw_inv_writer [OF inv assms(3)] that assms(5) by simp
  then have "\<not> (at s i = W_held \<and> (at s j = W_held \<or> at s j = R_held))"
    using assms(4) by (auto simp: writers_def readers_def)
  moreover have "lock s = NGX_RWLOCK_WLOCK \<or> lock s = of_nat (card (readers n s))"
    using inv by (auto simp: rw_inv_def)
  ultimately show ?thesis ..
qed

definition taken_for_writing :: rw where
  "taken_for_writing = jump 1 R_load (jump 0 W_held (rw_init\<lparr>lock := NGX_RWLOCK_WLOCK\<rparr>))"

lemma jump_jump [simp]: "jump i p (jump i q s) = jump i p s"
  by (simp add: jump_def)

text \<open>Up to three steps of the process \<open>i\<close>, with no other process moving.\<close>

definition own_steps :: "nat \<Rightarrow> rw \<Rightarrow> rw \<Rightarrow> bool" where
  "own_steps i s s' \<longleftrightarrow> (\<exists>k\<le>3. (rw_act i ^^ k) s s')"

lemma own_one: "rw_act i s t \<Longrightarrow> own_steps i s t"
  unfolding own_steps_def by (rule exI [of _ "Suc 0"]) (auto simp: eq_OO)

lemma own_two: "rw_act i s t \<Longrightarrow> rw_act i t u \<Longrightarrow> own_steps i s u"
  unfolding own_steps_def by (rule exI [of _ 2]) (auto simp: numeral_2_eq_2 eq_OO)

lemma own_three: "rw_act i s t \<Longrightarrow> rw_act i t u \<Longrightarrow> rw_act i u v \<Longrightarrow> own_steps i s v"
  unfolding own_steps_def by (rule exI [of _ 3]) (auto simp: numeral_3_eq_3 eq_OO)

text \<open>The single attempts, from the state in which the comparison succeeds.\<close>

lemma wlock_load_free: "at s i = W_load \<Longrightarrow> lock s = 0 \<Longrightarrow> rw_act i s (jump i W_cas s)"
  using rw_act.wlock_load [of s i] by simp

lemma wlock_cas_free: "at s i = W_cas \<Longrightarrow> lock s = 0 \<Longrightarrow>
    rw_act i s (jump i W_held (s\<lparr>lock := NGX_RWLOCK_WLOCK\<rparr>))"
  using rw_act.wlock_cas [of s i] by simp

lemma rlock_load_free: "at s i = R_load \<Longrightarrow> lock s \<noteq> NGX_RWLOCK_WLOCK \<Longrightarrow> rw_act i s (jump i (R_cas (lock s)) s)"
  using rw_act.rlock_load [of s i] by simp

lemma rlock_cas_free: "at s i = R_cas (lock s) \<Longrightarrow> rw_act i s (jump i R_held (s\<lparr>lock := lock s + 1\<rparr>))"
  using rw_act.rlock_cas [of s i "lock s"] by simp

lemma rlock_cas_stale: "at s i = R_cas k \<Longrightarrow> k \<noteq> lock s \<Longrightarrow> rw_act i s (jump i R_load s)"
  using rw_act.rlock_cas [of s i k] by simp

lemma unlock_load_read: "at s i = U_load w \<Longrightarrow> lock s \<noteq> NGX_RWLOCK_WLOCK \<Longrightarrow> rw_act i s (jump i (U_cas (lock s)) s)"
  using rw_act.unlock_load [of s i w] by simp

lemma unlock_load_write: "at s i = U_load w \<Longrightarrow> lock s = NGX_RWLOCK_WLOCK \<Longrightarrow> rw_act i s (jump i U_store s)"
  using rw_act.unlock_load [of s i w] by simp

lemma unlock_cas_fresh: "at s i = U_cas (lock s) \<Longrightarrow> rw_act i s (jump i Outside (s\<lparr>lock := lock s - 1\<rparr>))"
  using rw_act.unlock_cas [of s i "lock s"] by simp

lemma unlock_cas_stale: "at s i = U_cas k \<Longrightarrow> k \<noteq> lock s \<Longrightarrow> rw_act i s (jump i U_reload s)"
  using rw_act.unlock_cas [of s i k] by simp

lemma jump_lock [simp]: "jump i p ((jump i q s)\<lparr>lock := l\<rparr>) = jump i p (s\<lparr>lock := l\<rparr>)"
  by (simp add: jump_def)

lemma take_write:
  assumes "at s i = W_load \<or> at s i = W_cas" "lock s = 0"
  shows "own_steps i s (jump i W_held (s\<lparr>lock := NGX_RWLOCK_WLOCK\<rparr>))"
proof -
  have "rw_act i (jump i W_cas s) (jump i W_held (s\<lparr>lock := NGX_RWLOCK_WLOCK\<rparr>))"
    using wlock_cas_free [of "jump i W_cas s" i] assms by simp
  with assms show ?thesis using own_two [OF wlock_load_free] own_one [OF wlock_cas_free] by blast
qed

lemma take_read:
  assumes "at s i = R_load \<or> at s i = R_cas k" "lock s \<noteq> NGX_RWLOCK_WLOCK"
  shows "own_steps i s (jump i R_held (s\<lparr>lock := lock s + 1\<rparr>))"
proof -
  have cas: "rw_act i (jump i (R_cas (lock s)) s) (jump i R_held (s\<lparr>lock := lock s + 1\<rparr>))"
    using rlock_cas_free [of "jump i (R_cas (lock s)) s" i] by simp
  have load: "rw_act i (jump i R_load s) (jump i (R_cas (lock s)) s)"
    using rlock_load_free [of "jump i R_load s" i] assms(2) by simp
  consider "at s i = R_load" | "at s i = R_cas (lock s)" | "at s i = R_cas k" "k \<noteq> lock s"
    using assms(1) by fastforce
  then show ?thesis
    using own_two [OF rlock_load_free [OF _ assms(2)] cas] own_one [OF rlock_cas_free]
      own_three [OF rlock_cas_stale load cas] by cases blast+
qed

lemma release_write:
  assumes "writes (at s i)" "lock s = NGX_RWLOCK_WLOCK"
  shows "own_steps i s (jump i Outside (s\<lparr>lock := 0\<rparr>))"
proof -
  have load: "rw_act i (jump i (U_load True) s) (jump i U_store s)"
    using unlock_load_write [of "jump i (U_load True) s" i True] assms by simp
  have store: "rw_act i (jump i U_store s) (jump i Outside (s\<lparr>lock := 0\<rparr>))"
    using unlock_store [of "jump i U_store s" i] by simp
  from assms(1) show ?thesis
    using own_three [OF call_unlock_w load store] own_two [OF unlock_load_write [OF _ assms(2)] store]
      own_one [OF unlock_store] by (auto simp: writes_def)
qed

lemma release_read:
  assumes "reads (at s i)" "lock s \<noteq> NGX_RWLOCK_WLOCK"
  shows "own_steps i s (jump i Outside (s\<lparr>lock := lock s - 1\<rparr>))"
proof -
  have load: "rw_act i (jump i (U_load False) s) (jump i (U_cas (lock s)) s)"
    using unlock_load_read [of "jump i (U_load False) s" i False] assms by simp
  have cas: "rw_act i (jump i (U_cas (lock s)) s) (jump i Outside (s\<lparr>lock := lock s - 1\<rparr>))"
    using unlock_cas_fresh [of "jump i (U_cas (lock s)) s" i] by simp
  have reload: "rw_act i (jump i U_reload s) (jump i (U_cas (lock s)) s)"
    using unlock_reload [of "jump i U_reload s" i] by simp
  consider "at s i = R_held" | "at s i = U_load False" | "at s i = U_reload" | "at s i = U_cas (lock s)"
    | k where "at s i = U_cas k" "k \<noteq> lock s"
    using assms(1) by (auto simp: reads_def)
  then show ?thesis
  proof cases
    case 1
    then show ?thesis by (rule own_three [OF call_unlock_r load cas])
  next
    case 2
    then show ?thesis by (rule own_two [OF unlock_load_read [OF _ assms(2)] cas])
  next
    case 3
    then show ?thesis by (rule own_two [OF unlock_reload cas])
  next
    case 4
    then show ?thesis by (rule own_one [OF unlock_cas_fresh])
  next
    case 5
    then show ?thesis by (rule own_three [OF unlock_cas_stale reload cas])
  qed
qed

text \<open>Inside a function the next step of a process is determined by its program, so that what it
  can do alone it does alone.\<close>

inductive_cases rw_actE: "rw_act i s s'"

lemma rw_act_total: "\<exists>s'. rw_act i s s'"
  by (cases "at s i") (auto intro: rw_act.intros)

lemma rw_act_unique: "rw_act i s t \<Longrightarrow> rw_act i s t' \<Longrightarrow> at s i \<noteq> Outside \<Longrightarrow> t = t'"
  by (elim rw_actE) auto

lemma reach_act:
  assumes "rw_reachable n s" "i < n" "rw_act i s s'"
  shows "rw_reachable n s'"
proof -
  have "rw_step n s s'" using assms(2,3) by (auto simp: rw_step_def)
  with assms(1) show ?thesis by (rule reach_step)
qed

lemma own_reachable:
  assumes "own_steps i s s'" "rw_reachable n s" "i < n"
  shows "rw_reachable n s'"
proof -
  from assms(1) obtain k where "(rw_act i ^^ k) s s'" by (auto simp: own_steps_def)
  then show ?thesis
  proof (induction k arbitrary: s')
    case 0
    with assms(2) show ?case by simp
  next
    case (Suc k)
    then obtain t where "(rw_act i ^^ k) s t" "rw_act i t s'" by auto
    with Suc.IH assms(3) show ?case using reach_act by blast
  qed
qed

lemma taken_for_writing_reachable: "rw_reachable 2 taken_for_writing"
proof -
  define a where "a = jump 1 R_load (jump 0 W_load rw_init)"
  have "rw_reachable 2 (jump 0 W_load rw_init)"
    by (rule reach_act [OF reach_init, of 0], simp, rule call_wlock) (simp add: rw_init_def)
  then have "rw_reachable 2 a" unfolding a_def
    by (rule reach_act [of _ _ 1]) (simp_all add: call_rlock rw_init_def)
  moreover have "taken_for_writing = jump 0 W_held (a\<lparr>lock := NGX_RWLOCK_WLOCK\<rparr>)"
    by (simp add: taken_for_writing_def a_def jump_def rw_init_def fun_eq_iff)
  moreover have "at a 0 = W_load" "lock a = 0" by (simp_all add: a_def rw_init_def)
  ultimately show ?thesis using own_reachable [OF take_write [of a 0]] by simp
qed

theorem rwlock_exclusion_witness:
  "rw_reachable 2 taken_for_writing \<and> at taken_for_writing 0 = W_held \<and>
   \<not> (at taken_for_writing 1 = W_held \<or> at taken_for_writing 1 = R_held)"
  using rwlock_exclusion [OF taken_for_writing_reachable, of 0 1] taken_for_writing_reachable
  by (simp add: taken_for_writing_def)

text \<open>
  C26. A process that runs alone gets through, from every reachable state and wherever it is in
  the three functions, also with an outdated value of the lock word in its hand: in
  \<open>ngx_rwlock_wlock\<close>, while nobody holds the lock, it takes it for writing within three of its own
  steps; in \<open>ngx_rwlock_rlock\<close>, while nobody writes, it takes it for reading; a writer or a reader,
  also in the middle of \<open>ngx_rwlock_unlock\<close>, releases it, a writer leaving 0 in the lock word and a
  reader one less. No other process moves meanwhile, and inside the functions the process has
  exactly one next step, so that these runs are the ones it makes.
\<close>

theorem rwlock_progress:
  assumes "rw_reachable n s" "n < 2 ^ 64 - 1" "i < n"
  shows "((at s i = W_load \<or> at s i = W_cas) \<and> writers n s = {} \<and> readers n s = {} \<longrightarrow>
      own_steps i s (jump i W_held (s\<lparr>lock := NGX_RWLOCK_WLOCK\<rparr>))) \<and>
    ((at s i = R_load \<or> at s i = R_cas k) \<and> writers n s = {} \<longrightarrow>
      own_steps i s (jump i R_held (s\<lparr>lock := lock s + 1\<rparr>))) \<and>
    (writes (at s i) \<longrightarrow> own_steps i s (jump i Outside (s\<lparr>lock := 0\<rparr>))) \<and>
    (reads (at s i) \<longrightarrow> own_steps i s (jump i Outside (s\<lparr>lock := lock s - 1\<rparr>))) \<and>
    (at s i \<noteq> Outside \<longrightarrow> (\<exists>!s'. rw_act i s s'))"
proof (intro conjI impI)
  have inv: "rw_inv n s" using rw_reachable_inv [OF assms(1,2)] .
  have word: "lock s = of_nat (card (readers n s)) \<and> lock s \<noteq> NGX_RWLOCK_WLOCK" if "writers n s = {}"
    using inv that of_nat_not_wlock [OF card_readers assms(2), of s] by (auto simp: rw_inv_def)
  show "own_steps i s (jump i W_held (s\<lparr>lock := NGX_RWLOCK_WLOCK\<rparr>))"
    if "(at s i = W_load \<or> at s i = W_cas) \<and> writers n s = {} \<and> readers n s = {}"
    using that word by (intro take_write) auto
  show "own_steps i s (jump i R_held (s\<lparr>lock := lock s + 1\<rparr>))"
    if "(at s i = R_load \<or> at s i = R_cas k) \<and> writers n s = {}"
    using that word by (intro take_read) auto
  show "own_steps i s (jump i Outside (s\<lparr>lock := 0\<rparr>))" if "writes (at s i)"
    using that rw_inv_writer [OF inv assms(3)] by (intro release_write) auto
  show "own_steps i s (jump i Outside (s\<lparr>lock := lock s - 1\<rparr>))" if "reads (at s i)"
    using that word rw_inv_reader [OF inv assms(3)] by (intro release_read) auto
  show "\<exists>!s'. rw_act i s s'" if "at s i \<noteq> Outside"
    using that rw_act_total [of i s] rw_act_unique by blast
qed

theorem rwlock_progress_witness:
  "own_steps 0 taken_for_writing (jump 0 Outside (taken_for_writing\<lparr>lock := 0\<rparr>))"
  using rwlock_progress [OF taken_for_writing_reachable, of 0] by (simp add: taken_for_writing_def)

end
