(* ===== verification/Ngx_Sprintf.thy ===== *)
theory Ngx_Sprintf
  imports Ngx_Numbers
begin

text \<open>
  The format interpreter \<open>ngx_vslprintf\<close> of \<^verbatim>\<open>src/core/ngx_string.c\<close>, on top of the number
  printer of \<open>Ngx_Numbers\<close>. A format is the list of its bytes (a NUL ends it too), the variable
  arguments are a list, and the result is what is written from \<open>buf\<close> on. Where C leaves the
  behaviour undefined (an argument of the wrong kind or missing, a format that ends inside a
  conversion) the result is \<open>None\<close>.

  The lemmas show that the output never exceeds the room up to \<open>last\<close>, and that a small buffer
  gets exactly the beginning of what a large one would get.
\<close>

section \<open>Arguments and conversions\<close>

text \<open>
  The integer types are passed as 64 bits, of which \<open>%d\<close>, \<open>%D\<close> and \<open>%P\<close> use the lower 32. A
  \<open>double\<close> is what the code asks of it: its sign, the integral part of its absolute value and,
  for a scale, the rounded fraction.
\<close>

datatype arg = Arg_int u64 | Arg_str bytes | Arg_double bool u64 "nat \<Rightarrow> u64"

record conv =
  c_zero :: u8
  c_width :: nat
  c_sign :: bool
  c_hex :: nat
  c_max_width :: bool
  c_frac_width :: nat
  c_slen :: u64

fun fmt_number :: "nat \<Rightarrow> bytes \<Rightarrow> nat \<times> bytes" where
  "fmt_number n [] = (n, [])"
| "fmt_number n (c # fmt) = (if is_digit c then fmt_number (n * 10 + nat (digit_val c)) fmt else (n, c # fmt))"

text \<open>The loop over the modifiers.\<close>

fun fmt_flags :: "conv \<Rightarrow> bytes \<Rightarrow> arg list \<Rightarrow> (conv \<times> bytes \<times> arg list) option" where
  "fmt_flags cv [] args = Some (cv, [], args)"
| "fmt_flags cv (c # fmt) args =
     (if c = ch_u then fmt_flags (cv\<lparr>c_sign := False\<rparr>) fmt args
      else if c = ch_m then fmt_flags (cv\<lparr>c_max_width := True\<rparr>) fmt args
      else if c = ch_X then fmt_flags (cv\<lparr>c_hex := 2, c_sign := False\<rparr>) fmt args
      else if c = ch_x then fmt_flags (cv\<lparr>c_hex := 1, c_sign := False\<rparr>) fmt args
      else if c = ch_dot then
        (case fmt_number (c_frac_width cv) fmt of (n, fmt') \<Rightarrow> Some (cv\<lparr>c_frac_width := n\<rparr>, fmt', args))
      else if c = ch_star then
        (case args of Arg_int n # args' \<Rightarrow> fmt_flags (cv\<lparr>c_slen := n\<rparr>) fmt args' | _ \<Rightarrow> None)
      else Some (cv, c # fmt, args))"

definition fmt_spec :: "bytes \<Rightarrow> arg list \<Rightarrow> (conv \<times> bytes \<times> arg list) option" where
  "fmt_spec fmt args =
     (case fmt_number 0 fmt of (width, fmt') \<Rightarrow>
        fmt_flags \<lparr> c_zero = (if fmt \<noteq> [] \<and> hd fmt = ch_0 then ch_0 else SP), c_width = width, c_sign = True,
                    c_hex = 0, c_max_width = False, c_frac_width = 0, c_slen = -1 \<rparr> fmt' args)"

text \<open>The code after the switch; \<open>n\<close> is \<open>i64\<close> or \<open>ui64\<close>, whichever was set.\<close>

definition put_number :: "nat \<Rightarrow> conv \<Rightarrow> u64 \<Rightarrow> bytes" where
  "put_number room cv n =
     (if c_sign cv \<and> sint n < 0
      then ch_minus # ngx_sprintf_num (room - 1) (- n) (c_zero cv) (c_hex cv) (c_width cv)
      else ngx_sprintf_num room n (c_zero cv) (c_hex cv) (c_width cv))"

definition NGX_INT_T_LEN :: nat where
  "NGX_INT_T_LEN = 20"

definition NGX_ATOMIC_T_LEN :: nat where
  "NGX_ATOMIC_T_LEN = 20"

text \<open>The sign or zero extension of the lower 32 bits.\<close>

definition arg32 :: "bool \<Rightarrow> u64 \<Rightarrow> u64" where
  "arg32 sign n = (if sign then scast (ucast n :: u32) else ucast (ucast n :: u32))"

definition put_fixed :: "nat \<Rightarrow> conv \<Rightarrow> u64 \<Rightarrow> u64 \<Rightarrow> bytes" where
  "put_fixed room cv whole frac =
     (let a = ngx_sprintf_num room whole (c_zero cv) 0 (c_width cv)
      in if c_frac_width cv \<noteq> 0 then
           let dot = (if length a < room then [ch_dot] else [])
           in a @ dot @ ngx_sprintf_num (room - length a - length dot) frac ch_0 0 (c_frac_width cv)
         else a)"

definition put_double :: "nat \<Rightarrow> conv \<Rightarrow> bool \<Rightarrow> u64 \<Rightarrow> (nat \<Rightarrow> u64) \<Rightarrow> bytes" where
  "put_double room cv negative whole fraction =
     (let scale = 10 ^ c_frac_width cv;
          frac = (if c_frac_width cv \<noteq> 0 then fraction scale else 0);
          carry = (c_frac_width cv \<noteq> 0 \<and> frac = of_nat scale);
          w = (if carry then whole + 1 else whole);
          f = (if carry then 0 else frac)
      in if negative then ch_minus # put_fixed (room - 1) cv w f else put_fixed room cv w f)"

text \<open>The switch over the conversion character, with at least one byte of room.\<close>

definition fmt_convert :: "nat \<Rightarrow> conv \<Rightarrow> u8 \<Rightarrow> arg list \<Rightarrow> (bytes \<times> arg list) option" where
  "fmt_convert room cv k args =
     (if k = ch_V \<or> k = ch_v then
        (case args of Arg_str v # args' \<Rightarrow> Some (take (min room (length v)) v, args') | _ \<Rightarrow> None)
      else if k = ch_s then
        (case args of
           Arg_str p # args' \<Rightarrow>
             (if c_slen cv = - 1 then Some (take room (takeWhile (\<lambda>c. c \<noteq> NUL) p), args')
              else if unat (c_slen cv) \<le> length p then Some (take (min room (unat (c_slen cv))) p, args')
              else None)
         | _ \<Rightarrow> None)
      else if k = ch_O \<or> k = ch_T \<or> k = ch_r then
        (case args of Arg_int n # args' \<Rightarrow> Some (put_number room (cv\<lparr>c_sign := True\<rparr>) n, args') | _ \<Rightarrow> None)
      else if k = ch_P then
        (case args of Arg_int n # args' \<Rightarrow> Some (put_number room (cv\<lparr>c_sign := True\<rparr>) (arg32 True n), args')
                    | _ \<Rightarrow> None)
      else if k = ch_M then
        (case args of Arg_int n # args' \<Rightarrow> Some (put_number room (cv\<lparr>c_sign := (n = - 1)\<rparr>) n, args') | _ \<Rightarrow> None)
      else if k = ch_z \<or> k = ch_l \<or> k = ch_L then
        (case args of Arg_int n # args' \<Rightarrow> Some (put_number room cv n, args') | _ \<Rightarrow> None)
      else if k = ch_i then
        (case args of
           Arg_int n # args' \<Rightarrow>
             Some (put_number room (if c_max_width cv then cv\<lparr>c_width := NGX_INT_T_LEN\<rparr> else cv) n, args')
         | _ \<Rightarrow> None)
      else if k = ch_d \<or> k = ch_D then
        (case args of Arg_int n # args' \<Rightarrow> Some (put_number room cv (arg32 (c_sign cv) n), args') | _ \<Rightarrow> None)
      else if k = ch_A then
        (case args of
           Arg_int n # args' \<Rightarrow>
             Some (put_number room (if c_max_width cv then cv\<lparr>c_width := NGX_ATOMIC_T_LEN\<rparr> else cv) n, args')
         | _ \<Rightarrow> None)
      else if k = ch_f then
        (case args of
           Arg_double negative whole fraction # args' \<Rightarrow> Some (put_double room cv negative whole fraction, args')
         | _ \<Rightarrow> None)
      else if k = ch_p then
        (case args of
           Arg_int n # args' \<Rightarrow>
             Some (put_number room (cv\<lparr>c_hex := 2, c_sign := False, c_zero := ch_0, c_width := 16\<rparr>) n, args')
         | _ \<Rightarrow> None)
      else if k = ch_c then
        (case args of Arg_int d # args' \<Rightarrow> Some ([ucast (d AND 0xff)], args') | _ \<Rightarrow> None)
      else if k = ch_Z then Some ([NUL], args)
      else if k = ch_N then Some ([LF], args)
      else if k = ch_percent then Some ([ch_percent], args)
      else if k = NUL then None
      else Some ([k], args))"

section \<open>The interpreter\<close>

lemma fmt_number_length: "length (snd (fmt_number n fmt)) \<le> length fmt"
  by (induction n fmt rule: fmt_number.induct) auto

lemma fmt_flags_length: "fmt_flags cv fmt args = Some (cv', fmt', args') \<Longrightarrow> length fmt' \<le> length fmt"
proof (induction cv fmt args rule: fmt_flags.induct)
  case (2 cv c fmt args)
  then show ?case
    using fmt_number_length [of "c_frac_width cv" fmt]
    by (auto split: if_splits list.splits arg.splits prod.splits)
qed simp

lemma fmt_spec_length: "fmt_spec fmt args = Some (cv, fmt', args') \<Longrightarrow> length fmt' \<le> length fmt"
  using fmt_flags_length fmt_number_length [of 0 fmt]
  by (fastforce simp: fmt_spec_def split: prod.splits)

function ngx_vslprintf :: "nat \<Rightarrow> bytes \<Rightarrow> arg list \<Rightarrow> bytes option" where
  "ngx_vslprintf room [] args = Some []"
| "ngx_vslprintf room (c # fmt) args =
     (if c = NUL \<or> room = 0 then Some []
      else if c \<noteq> ch_percent then map_option ((#) c) (ngx_vslprintf (room - 1) fmt args)
      else
        case fmt_spec fmt args of
          None \<Rightarrow> None
        | Some (cv, [], args') \<Rightarrow> None
        | Some (cv, k # fmt', args') \<Rightarrow>
            (case fmt_convert room cv k args' of
               None \<Rightarrow> None
             | Some (out, args'') \<Rightarrow> map_option ((@) out) (ngx_vslprintf (room - length out) fmt' args'')))"
  by pat_completeness auto
termination
  by (relation "measure (\<lambda>(room, fmt, args). length fmt)") (auto dest: fmt_spec_length)

declare ngx_vslprintf.simps(2) [simp del]

text \<open>
  \<open>ngx_sprintf\<close> passes \<open>(void *) -1\<close> as \<open>last\<close>: the room is the rest of the address space, more
  than half of it for a buffer in user space.
\<close>

definition ngx_sprintf :: "bytes \<Rightarrow> arg list \<Rightarrow> bytes option" where
  "ngx_sprintf fmt args = ngx_vslprintf (2 ^ 63) fmt args"

definition ngx_snprintf :: "nat \<Rightarrow> bytes \<Rightarrow> arg list \<Rightarrow> bytes option" where
  "ngx_snprintf n fmt args = ngx_vslprintf n fmt args"

section \<open>Reference: rendering without a limit\<close>

definition pad_number :: "u8 \<Rightarrow> nat \<Rightarrow> nat \<Rightarrow> u64 \<Rightarrow> bytes" where
  "pad_number zero h w n =
     replicate (w - length (sprintf_digits n h)) zero @ sprintf_digits n h"

definition render_number :: "conv \<Rightarrow> u64 \<Rightarrow> bytes" where
  "render_number cv n =
     (if c_sign cv \<and> sint n < 0 then ch_minus # pad_number (c_zero cv) (c_hex cv) (c_width cv) (- n)
      else pad_number (c_zero cv) (c_hex cv) (c_width cv) n)"

definition render_double :: "conv \<Rightarrow> bool \<Rightarrow> u64 \<Rightarrow> (nat \<Rightarrow> u64) \<Rightarrow> bytes" where
  "render_double cv negative whole fraction =
     (let k = c_frac_width cv; carry = (k \<noteq> 0 \<and> fraction (10 ^ k) = of_nat (10 ^ k)) in
      (if negative then [ch_minus] else []) @
      pad_number (c_zero cv) 0 (c_width cv) (if carry then whole + 1 else whole) @
      (if k = 0 then [] else ch_dot # pad_number ch_0 0 k (if carry then 0 else fraction (10 ^ k))))"

text \<open>Which integer conversion prints what: the adjusted conversion and the extended value.\<close>

definition int_conversion :: "conv \<Rightarrow> u8 \<Rightarrow> u64 \<Rightarrow> (conv \<times> u64) option" where
  "int_conversion cv k n =
     (if k \<in> {ch_O, ch_T, ch_r} then Some (cv\<lparr>c_sign := True\<rparr>, n)
      else if k = ch_P then Some (cv\<lparr>c_sign := True\<rparr>, arg32 True n)
      else if k = ch_M then Some (cv\<lparr>c_sign := (n = - 1)\<rparr>, n)
      else if k \<in> {ch_z, ch_l, ch_L} then Some (cv, n)
      else if k \<in> {ch_i, ch_A} then Some (if c_max_width cv then cv\<lparr>c_width := 20\<rparr> else cv, n)
      else if k \<in> {ch_d, ch_D} then Some (cv, arg32 (c_sign cv) n)
      else if k = ch_p then Some (cv\<lparr>c_hex := 2, c_sign := False, c_zero := ch_0, c_width := 16\<rparr>, n)
      else None)"

fun render_convert :: "conv \<Rightarrow> u8 \<Rightarrow> arg list \<Rightarrow> (bytes \<times> arg list) option" where
  "render_convert cv k (Arg_int n # args) =
     (case int_conversion cv k n of
        Some (cv', m) \<Rightarrow> Some (render_number cv' m, args)
      | None \<Rightarrow> if k = ch_c then Some ([ucast (n AND 0xff)], args) else map_option (\<lambda>(w, _). (w, Arg_int n # args)) (render_convert cv k []))"
| "render_convert cv k (Arg_str v # args) =
     (if k = ch_V \<or> k = ch_v then Some (v, args)
      else if k = ch_s then
        (if c_slen cv = - 1 then Some (takeWhile (\<lambda>c. c \<noteq> NUL) v, args)
         else if unat (c_slen cv) \<le> length v then Some (take (unat (c_slen cv)) v, args) else None)
      else map_option (\<lambda>(w, _). (w, Arg_str v # args)) (render_convert cv k []))"
| "render_convert cv k (Arg_double ng w fr # args) =
     (if k = ch_f then Some (render_double cv ng w fr, args)
      else map_option (\<lambda>(w', _). (w', Arg_double ng w fr # args)) (render_convert cv k []))"
| "render_convert cv k [] =
     (if k = ch_Z then Some ([NUL], []) else if k = ch_N then Some ([LF], [])
      else if k \<in> {NUL, ch_V, ch_v, ch_s, ch_O, ch_T, ch_r, ch_P, ch_M, ch_z, ch_l, ch_L, ch_i, ch_d, ch_D, ch_A, ch_f, ch_p, ch_c}
      then None else Some ([k], []))"

function render :: "bytes \<Rightarrow> arg list \<Rightarrow> bytes option" where
  "render [] args = Some []"
| "render (c # fmt) args =
     (if c = NUL then Some []
      else if c \<noteq> ch_percent then map_option ((#) c) (render fmt args)
      else
        case fmt_spec fmt args of
          None \<Rightarrow> None
        | Some (cv, [], args') \<Rightarrow> None
        | Some (cv, k # fmt', args') \<Rightarrow>
            (case render_convert cv k args' of
               None \<Rightarrow> None
             | Some (out, args'') \<Rightarrow> map_option ((@) out) (render fmt' args'')))"
  by pat_completeness auto
termination
  by (relation "measure (\<lambda>(fmt, args). length fmt)") (auto dest: fmt_spec_length)

declare render.simps(2) [simp del]

section \<open>The interpreter truncates the reference\<close>

lemma sprintf_num_pad: "ngx_sprintf_num room n zero h w = take room (pad_number zero h w n)"
  by (auto simp: ngx_sprintf_num_def pad_number_def Let_def min_def take_append)

lemma put_number_render: "0 < room \<Longrightarrow> put_number room cv n = take room (render_number cv n)"
  by (cases room) (simp_all add: put_number_def render_number_def sprintf_num_pad)

lemma put_fixed_render: "put_fixed room cv w f =
  take room (pad_number (c_zero cv) 0 (c_width cv) w @
    (if c_frac_width cv = 0 then [] else ch_dot # pad_number ch_0 0 (c_frac_width cv) f))"
  by (auto simp: put_fixed_def Let_def sprintf_num_pad take_Cons')

lemma put_double_render: "0 < room \<Longrightarrow> put_double room cv ng w fr = take room (render_double cv ng w fr)"
  by (cases room) (simp_all add: put_double_def render_double_def Let_def put_fixed_render)

lemma fmt_convert_render:
  assumes "0 < room"
  shows "fmt_convert room cv k args = map_option (map_prod (take room) id) (render_convert cv k args)"
proof -
  have one: "take room [c] = [c]" for c :: u8 using assms by (simp add: take_Cons')
  have all: "take (min room (length v)) v = take room v" for v :: bytes by (simp add: min_def)
  note eqs = fmt_convert_def one all put_number_render [OF assms] put_double_render [OF assms]
    int_conversion_def NGX_INT_T_LEN_def NGX_ATOMIC_T_LEN_def
  show ?thesis
  proof (cases args)
    case (Cons a as)
    then show ?thesis by (cases a) (simp_all add: eqs)
  qed (simp add: eqs)
qed


lemma vslprintf_0 [simp]: "ngx_vslprintf 0 fmt args = Some []"
  by (cases fmt) (simp_all add: ngx_vslprintf.simps)

lemma vslprintf_render: "render fmt args = Some out \<Longrightarrow> ngx_vslprintf room fmt args = Some (take room out)"
proof (induction fmt args arbitrary: room out rule: render.induct)
  case (2 c fmt args)
  consider "c = NUL \<or> room = 0" | "c \<noteq> NUL" "0 < room" "c \<noteq> ch_percent" | "c \<noteq> NUL" "0 < room" "c = ch_percent"
    by auto
  then show ?case
  proof cases
    case 1
    with 2 show ?thesis by (auto simp: ngx_vslprintf.simps render.simps split: if_splits)
  next
    case 2
    with "2.prems" obtain o1 where o1: "render fmt args = Some o1" "out = c # o1"
      by (auto simp: render.simps)
    with "2.IH"(1) [of o1 "room - 1"] 2 show ?thesis
      by (simp add: ngx_vslprintf.simps take_Cons')
  next
    case 3
    with "2.prems" obtain cv k fmt' args' w args'' o1
      where s: "fmt_spec fmt args = Some (cv, k # fmt', args')" "render_convert cv k args' = Some (w, args'')"
        "render fmt' args'' = Some o1" "out = w @ o1"
      by (auto simp: render.simps split: option.splits list.splits)
    have w: "fmt_convert room cv k args' = Some (take room w, args'')"
      using fmt_convert_render [OF 3(2)] s(2) by simp
    have "ngx_vslprintf (room - length w) fmt' args'' = Some (take (room - length w) o1)"
      using "2.IH"(2) [OF _ _ s(1) refl refl refl s(2) refl s(3)] 3 by simp
    then show ?thesis using 3 s w by (auto simp: ngx_vslprintf.simps min_def)
  qed
qed simp

lemma vslprintf_length: "ngx_vslprintf room fmt args = Some out \<Longrightarrow> length out \<le> room"
proof (induction room fmt args arbitrary: out rule: ngx_vslprintf.induct)
  case (2 room c fmt args)
  consider "c = NUL \<or> room = 0" | "c \<noteq> NUL" "0 < room" "c \<noteq> ch_percent" | "c \<noteq> NUL" "0 < room" "c = ch_percent"
    by auto
  then show ?case
  proof cases
    case 1
    with 2 show ?thesis by (auto simp: ngx_vslprintf.simps)
  next
    case 2
    with "2.prems" obtain o1 where o1: "ngx_vslprintf (room - 1) fmt args = Some o1" "out = c # o1"
      by (auto simp: ngx_vslprintf.simps)
    with "2.IH"(1) [of o1] 2 show ?thesis by simp
  next
    case 3
    with "2.prems" obtain cv k fmt' args' w args'' o1
      where s: "fmt_spec fmt args = Some (cv, k # fmt', args')" "fmt_convert room cv k args' = Some (w, args'')"
        "ngx_vslprintf (room - length w) fmt' args'' = Some o1" "out = w @ o1"
      by (auto simp: ngx_vslprintf.simps split: option.splits list.splits)
    have "length w \<le> room"
      using fmt_convert_render [OF 3(2), of cv k args'] s(2) by (cases "render_convert cv k args'") auto
    moreover have "length o1 \<le> room - length w"
      using "2.IH"(2) [OF _ _ s(1) refl refl refl s(2) refl s(3)] 3 by simp
    ultimately show ?thesis using s(4) by simp
  qed
qed simp

text \<open>Evaluation of a format: literal bytes and conversions.\<close>

lemma render_char: "c \<noteq> NUL \<Longrightarrow> c \<noteq> ch_percent \<Longrightarrow> render (c # fmt) args = map_option ((#) c) (render fmt args)"
  by (simp add: render.simps)

lemma render_conversion:
  "fmt_spec fmt args = Some (cv, k # fmt', args') \<Longrightarrow> render_convert cv k args' = Some (w, args'') \<Longrightarrow>
    render (ch_percent # fmt) args = map_option ((@) w) (render fmt' args'')"
  by (simp add: render.simps)

lemma sprintf_render: "render fmt args = Some out \<Longrightarrow> length out \<le> 2 ^ 63 \<Longrightarrow> ngx_sprintf fmt args = Some out"
  using vslprintf_render [of fmt args out "2 ^ 63"] by (simp add: ngx_sprintf_def)

section \<open>Properties\<close>

text \<open>
  C20. The formatted output is safe and exact: whatever the format and the arguments,
  \<open>ngx_vslprintf\<close> writes at most up to \<open>last\<close>, and where the unlimited rendering of the format is
  defined, it writes exactly the beginning of it that fits, in whatever room it is given:
  padding, sign, digits, strings and the fraction of \<open>%f\<close> are cut at the limit and nowhere
  else.
\<close>

theorem vslprintf_truncates:
  "(ngx_vslprintf room fmt args = Some w \<longrightarrow> length w \<le> room) \<and>
   (render fmt args = Some out \<longrightarrow> ngx_vslprintf room fmt args = Some (take room out))"
  using vslprintf_length vslprintf_render by blast

theorem vslprintf_truncates_witness:
  "render (bytes_of ''bytes %O-%03uA/%V'') [Arg_int (-5), Arg_int 7, Arg_str (bytes_of ''x'')]
     = Some (bytes_of ''bytes -5-007/x'') \<and>
   ngx_vslprintf 11 (bytes_of ''bytes %O-%03uA/%V'') [Arg_int (-5), Arg_int 7, Arg_str (bytes_of ''x'')]
     = Some (bytes_of ''bytes -5-00'')"
proof -
  have r: "render (bytes_of ''bytes %O-%03uA/%V'') [Arg_int (-5), Arg_int 7, Arg_str (bytes_of ''x'')]
     = Some (bytes_of ''bytes -5-007/x'')"
    by code_simp
  then show ?thesis using vslprintf_truncates [of 11 "bytes_of ''bytes %O-%03uA/%V''"
     "[Arg_int (-5), Arg_int 7, Arg_str (bytes_of ''x'')]"] by simp
qed

end
