(* ===== verification/Ngx_Time.thy ===== *)
theory Ngx_Time
  imports Ngx_Sprintf
begin

text \<open>
  Calendar arithmetic: \<open>ngx_gmtime\<close>, \<open>ngx_http_time\<close> and \<open>ngx_http_cookie_time\<close> of
  \<^verbatim>\<open>src/core/ngx_times.c\<close> and the reader \<open>ngx_parse_http_time\<close> of \<^verbatim>\<open>src/core/ngx_parse_time.c\<close>.

  The reference is the Gregorian calendar itself: leap years, lengths of months, and the number
  of days before a date as a sum over years and months. The lemmas show that the closed formulas
  of the code (Gauss' formula and its empirical inverse) compute exactly that, that what is
  printed is read back, and that the reader never looks beyond the end of its input.
\<close>

section \<open>From seconds to a date\<close>

record ngx_tm =
  tm_sec :: int
  tm_min :: int
  tm_hour :: int
  tm_mday :: int
  tm_mon :: int
  tm_year :: int
  tm_wday :: int

text \<open>The conversion of an \<open>ngx_uint_t\<close> to the type \<open>int\<close> of the fields.\<close>

definition to_int :: "nat \<Rightarrow> int" where
  "to_int n = sint (of_nat n :: 32 word)"

text \<open>The year that begins on 1 March and the day in it, from the days since 1 March, 1 BC.\<close>

definition split_days :: "nat \<Rightarrow> nat \<times> nat" where
  "split_days days =
     (let year = (days + 2) * 400 div (365 * 400 + 100 - 4 + 1);
          yday = int days - int (365 * year + year div 4 - year div 100 + year div 400);
          leap = (if year mod 4 = 0 \<and> (year mod 100 \<noteq> 0 \<or> year mod 400 = 0) then 1 else 0)
      in if yday < 0 then (year - 1, nat (365 + leap + yday)) else (year, nat yday))"

definition ngx_gmtime :: "int \<Rightarrow> ngx_tm" where
  "ngx_gmtime t =
     (let n = nat (t mod 2 ^ 64);
          days = n div 86400;
          wday = (4 + days) mod 7;
          n = n mod 86400;
          hour = n div 3600;
          n = n mod 3600;
          minute = n div 60;
          sec = n mod 60;
          days = days + 719527 - (31 + 28);
          (year, yday) = split_days days;
          mon = (yday + 31) * 10 div 306;
          mday = yday + 1 - (367 * mon div 12 - 30);
          (year, mon) = (if yday \<ge> 306 then (year + 1, mon - 10) else (year, mon + 2))
      in \<lparr> tm_sec = to_int sec, tm_min = to_int minute, tm_hour = to_int hour, tm_mday = to_int mday,
           tm_mon = to_int mon, tm_year = to_int year, tm_wday = to_int wday \<rparr>)"

definition week :: "bytes list" where
  "week = map bytes_of [''Sun'', ''Mon'', ''Tue'', ''Wed'', ''Thu'', ''Fri'', ''Sat'']"

definition months :: "bytes list" where
  "months = map bytes_of [''Jan'', ''Feb'', ''Mar'', ''Apr'', ''May'', ''Jun'',
                          ''Jul'', ''Aug'', ''Sep'', ''Oct'', ''Nov'', ''Dec'']"

abbreviation arg_int :: "int \<Rightarrow> arg" where
  "arg_int i \<equiv> Arg_int (word_of_int i)"

definition ngx_http_time :: "int \<Rightarrow> bytes option" where
  "ngx_http_time t =
     (let tm = ngx_gmtime t in
      ngx_sprintf (bytes_of ''%s, %02d %s %4d %02d:%02d:%02d GMT'')
        [Arg_str (week ! nat (tm_wday tm)), arg_int (tm_mday tm), Arg_str (months ! nat (tm_mon tm - 1)),
         arg_int (tm_year tm), arg_int (tm_hour tm), arg_int (tm_min tm), arg_int (tm_sec tm)])"

definition ngx_http_cookie_time :: "int \<Rightarrow> bytes option" where
  "ngx_http_cookie_time t =
     (let tm = ngx_gmtime t in
      ngx_sprintf (if tm_year tm > 2037 then bytes_of ''%s, %02d-%s-%d %02d:%02d:%02d GMT''
                   else bytes_of ''%s, %02d-%s-%02d %02d:%02d:%02d GMT'')
        [Arg_str (week ! nat (tm_wday tm)), arg_int (tm_mday tm), Arg_str (months ! nat (tm_mon tm - 1)),
         arg_int (if tm_year tm > 2037 then tm_year tm else tm_year tm mod 100),
         arg_int (tm_hour tm), arg_int (tm_min tm), arg_int (tm_sec tm)])"

section \<open>Reading a date\<close>

text \<open>
  Every access \<open>*(p + k)\<close> is a read that may fail: \<open>Overread\<close> is an access at or beyond \<open>end\<close>,
  \<open>Fail\<close> the return of \<open>NGX_ERROR\<close>.
\<close>

datatype 'a read = Got 'a | Fail | Overread

fun rd_bind :: "'a read \<Rightarrow> ('a \<Rightarrow> 'b read) \<Rightarrow> 'b read" where
  "rd_bind (Got x) f = f x"
| "rd_bind Fail f = Fail"
| "rd_bind Overread f = Overread"

definition rd :: "bytes \<Rightarrow> nat \<Rightarrow> u8 read" where
  "rd v p = (if p < length v then Got (v ! p) else Overread)"

definition rd_digit :: "bytes \<Rightarrow> nat \<Rightarrow> nat read" where
  "rd_digit v p = rd_bind (rd v p) (\<lambda>c. if c < ch_0 \<or> c > ch_9 then Fail else Got (unat (c - ch_0)))"

definition rd_expect :: "bytes \<Rightarrow> nat \<Rightarrow> u8 \<Rightarrow> unit read" where
  "rd_expect v p ch = rd_bind (rd v p) (\<lambda>c. if c \<noteq> ch then Fail else Got ())"

definition rd_two :: "bytes \<Rightarrow> nat \<Rightarrow> nat read" where
  "rd_two v p = rd_bind (rd_digit v p) (\<lambda>a. rd_bind (rd_digit v (p + 1)) (\<lambda>b. Got (a * 10 + b)))"

definition rd_four :: "bytes \<Rightarrow> nat \<Rightarrow> nat read" where
  "rd_four v p =
     rd_bind (rd_digit v p) (\<lambda>a. rd_bind (rd_digit v (p + 1)) (\<lambda>b.
     rd_bind (rd_digit v (p + 2)) (\<lambda>c. rd_bind (rd_digit v (p + 3)) (\<lambda>d.
       Got (a * 1000 + b * 100 + c * 10 + d)))))"

definition rd_month :: "bytes \<Rightarrow> nat \<Rightarrow> nat read" where
  "rd_month v p = rd_bind (rd v p) (\<lambda>c.
     if c = ch_J then
       rd_bind (rd v (p + 1)) (\<lambda>a. if a = ch_a then Got 0
                                   else rd_bind (rd v (p + 2)) (\<lambda>b. Got (if b = ch_n then 5 else 6)))
     else if c = ch_F then Got 1
     else if c = ch_M then rd_bind (rd v (p + 2)) (\<lambda>b. Got (if b = ch_r then 2 else 4))
     else if c = ch_A then rd_bind (rd v (p + 1)) (\<lambda>a. Got (if a = ch_p then 3 else 7))
     else if c = ch_S then Got 8
     else if c = ch_O then Got 9
     else if c = ch_N then Got 10
     else if c = ch_D then Got 11
     else Fail)"

datatype time_fmt = rfc822 | rfc850 | isoc

text \<open>The two loops at the start: where the date begins, and whether a space came first.\<close>

definition time_start :: "bytes \<Rightarrow> bool \<times> nat" where
  "time_start v =
     (let p = length (takeWhile (\<lambda>c. c \<noteq> ch_comma \<and> c \<noteq> SP) v);
          sp = (p < length v \<and> v ! p = SP);
          p = p + 1
      in (sp, p + length (takeWhile (\<lambda>c. c = SP) (drop p v))))"

text \<open>The day in front of the month, for the two formats that begin with a comma.\<close>

definition rd_day :: "bytes \<Rightarrow> bool \<Rightarrow> nat \<Rightarrow> (time_fmt \<times> nat \<times> nat) read" where
  "rd_day v sp p =
     (if sp then Got (isoc, 0, p)
      else rd_bind (rd_two v p) (\<lambda>day. rd_bind (rd v (p + 2)) (\<lambda>c.
        if c = SP then (if length v < p + 2 + 18 then Fail else Got (rfc822, day, p + 3))
        else if c = ch_minus then Got (rfc850, day, p + 3)
        else Fail)))"

text \<open>The year after the month, or the day for the third format.\<close>

definition rd_year_day :: "bytes \<Rightarrow> time_fmt \<Rightarrow> nat \<Rightarrow> nat \<Rightarrow> (nat \<times> nat \<times> nat) read" where
  "rd_year_day v fmt day p =
     (case fmt of
        rfc822 \<Rightarrow> rd_bind (rd_four v p) (\<lambda>year. Got (year, day, p + 4))
      | rfc850 \<Rightarrow> rd_bind (rd_two v p) (\<lambda>y. Got (y + (if y < 70 then 2000 else 1900), day, p + 2))
      | isoc \<Rightarrow>
          rd_bind (rd v p) (\<lambda>c.
          let p = (if c = SP then p + 1 else p) in
          rd_bind (rd_digit v p) (\<lambda>d. rd_bind (rd v (p + 1)) (\<lambda>c.
          rd_bind (if c \<noteq> SP then rd_bind (rd_digit v (p + 1)) (\<lambda>e. Got (d * 10 + e, p + 2)) else Got (d, p + 1))
            (\<lambda>(day, p). if length v < p + 14 then Fail else Got (0, day, p))))))"

definition mday :: "nat list" where
  "mday = [31, 28, 31, 30, 31, 30, 31, 31, 30, 31, 30, 31]"

text \<open>The checks and Gauss' formula, in unsigned arithmetic; the result is a \<open>time_t\<close>.\<close>

definition to_time_t :: "int \<Rightarrow> int" where
  "to_time_t x = (x + 2 ^ 63) mod 2 ^ 64 - 2 ^ 63"

definition gauss_time :: "nat \<Rightarrow> nat \<Rightarrow> nat \<Rightarrow> nat \<Rightarrow> nat \<Rightarrow> nat \<Rightarrow> int read" where
  "gauss_time year month day hour minute sec =
     (if hour > 23 \<or> minute > 59 \<or> sec > 59 then Fail
      else if day = 29 \<and> month = 1 \<and> (year AND 3 \<noteq> 0 \<or> (year mod 100 = 0 \<and> year mod 400 \<noteq> 0)) then Fail
      else if \<not> (day = 29 \<and> month = 1) \<and> day > mday ! month then Fail
      else
        let (month, year) = (if int month - 1 \<le> 0 then (int month - 1 + 12, (int year - 1) mod 2 ^ 64)
                             else (int month - 1, int year))
        in Got (to_time_t
             ((365 * year + year div 4 - year div 100 + year div 400 + 367 * month div 12 - 30
               + int day - 1 - 719527 + 31 + 28) * 86400
              + int hour * 3600 + int minute * 60 + int sec)))"

definition read_http_time :: "bytes \<Rightarrow> int read" where
  "read_http_time v =
     (let (sp, p) = time_start v in
      if length v < p + 18 then Fail
      else rd_bind (rd_day v sp p) (\<lambda>(fmt, day, p).
        rd_bind (rd_month v p) (\<lambda>month.
        rd_bind (if fmt = rfc822 then rd_expect v (p + 3) SP
                 else if fmt = rfc850 then rd_expect v (p + 3) ch_minus else Got ()) (\<lambda>_.
        rd_bind (rd_year_day v fmt day (p + 4)) (\<lambda>(year, day, p).
        rd_bind (rd_expect v p SP) (\<lambda>_.
        rd_bind (rd_two v (p + 1)) (\<lambda>hour.
        rd_bind (rd_expect v (p + 3) ch_colon) (\<lambda>_.
        rd_bind (rd_two v (p + 4)) (\<lambda>minute.
        rd_bind (rd_expect v (p + 6) ch_colon) (\<lambda>_.
        rd_bind (rd_two v (p + 7)) (\<lambda>sec.
        rd_bind (if fmt = isoc then rd_bind (rd_expect v (p + 9) SP) (\<lambda>_. rd_four v (p + 10)) else Got year) (\<lambda>year.
          gauss_time year month day hour minute sec))))))))))))"

text \<open>The code has one value for every error; \<open>None\<close> is an access beyond the end.\<close>

definition ngx_parse_http_time :: "bytes \<Rightarrow> int option" where
  "ngx_parse_http_time v =
     (case read_http_time v of Got t \<Rightarrow> Some t | Fail \<Rightarrow> Some (- 1) | Overread \<Rightarrow> None)"

section \<open>The calendar\<close>

definition leap_year :: "nat \<Rightarrow> bool" where
  "leap_year y \<longleftrightarrow> y mod 4 = 0 \<and> (y mod 100 \<noteq> 0 \<or> y mod 400 = 0)"

definition month_length :: "nat \<Rightarrow> nat \<Rightarrow> nat" where
  "month_length y m = (if m = 2 \<and> leap_year y then 29 else mday ! (m - 1))"

text \<open>Days from 1 January of the year 0, for months and days counted from 1.\<close>

definition days_before_year :: "nat \<Rightarrow> nat" where
  "days_before_year y = (\<Sum>i<y. if leap_year i then 366 else 365)"

definition day_number :: "nat \<Rightarrow> nat \<Rightarrow> nat \<Rightarrow> nat" where
  "day_number y m d = days_before_year y + (\<Sum>i\<in>{1..<m}. month_length y i) + d - 1"

definition valid_date :: "nat \<Rightarrow> nat \<Rightarrow> nat \<Rightarrow> bool" where
  "valid_date y m d \<longleftrightarrow> 1 \<le> m \<and> m \<le> 12 \<and> 1 \<le> d \<and> d \<le> month_length y m"

text \<open>Days before 1 March of the year, less 60: the years of Gauss' formula.\<close>

definition gauss_year :: "nat \<Rightarrow> nat" where
  "gauss_year y = 365 * y + y div 4 - y div 100 + y div 400"

lemma gauss_year_int: "int (gauss_year y) = 365 * int y + int y div 4 - int y div 100 + int y div 400"
proof -
  have "y div 100 \<le> y div 4" by (rule div_le_mono2) simp_all
  then show ?thesis by (simp add: gauss_year_def zdiv_int of_nat_diff)
qed

lemma gauss_year_0 [simp]: "gauss_year 0 = 0"
  by (simp add: gauss_year_def)

lemma div_Suc_int:
  fixes k :: nat
  assumes "1 < k"
  shows "Suc y div k = y div k + (if Suc y mod k = 0 then 1 else 0)"
  using assms by (simp add: div_Suc)

lemma gauss_year_Suc: "gauss_year (Suc y) = gauss_year y + (if leap_year (Suc y) then 366 else 365)"
proof -
  have "y div 100 \<le> y div 4" by (rule div_le_mono2) simp_all
  moreover have "Suc y mod 400 = 0 \<Longrightarrow> Suc y mod 100 = 0" "Suc y mod 100 = 0 \<Longrightarrow> Suc y mod 4 = 0"
    by (auto simp flip: dvd_eq_mod_eq_0 intro: dvd_trans [of 100 400] dvd_trans [of 4 100])
  ultimately show ?thesis by (auto simp: gauss_year_def leap_year_def div_Suc algebra_simps)
qed

lemma days_before_year_eq: "days_before_year (Suc y) = gauss_year y + 366"
proof (induction y)
  case 0
  show ?case by (simp add: days_before_year_def leap_year_def)
next
  case (Suc y)
  then show ?case by (auto simp: days_before_year_def gauss_year_Suc)
qed

lemma days_before_1970 [simp]: "day_number 1970 1 1 = 719528"
  using days_before_year_eq [of 1969] by (simp add: day_number_def gauss_year_def)

text \<open>The year estimated from a day number is at most two days off.\<close>

lemma gauss_year_estimate:
  assumes "y = (d + 2) * 400 div 146097"
  shows "int (gauss_year y) - 2 \<le> int d" "int d \<le> int (gauss_year y) + 364"
proof -
  have "146097 * y \<le> (d + 2) * 400" "(d + 2) * 400 < 146097 * y + 146097"
    using div_times_less_eq_dividend [of "(d + 2) * 400" 146097] dividend_less_div_times [of 146097 "(d + 2) * 400"]
    by (simp_all only: assms mult.commute [of 146097] add.commute [of _ 146097])
  then have y: "146097 * int y \<le> (int d + 2) * 400" "(int d + 2) * 400 < 146097 * int y + 146097" by simp_all
  have bound: "365 * y' + a - b + c - 2 \<le> d' \<and> d' \<le> 365 * y' + a - b + c + 364"
    if "y' = 4 * a + k" "y' = 100 * b + l" "y' = 400 * c + m" "0 \<le> k" "k \<le> 3" "0 \<le> l" "l \<le> 99"
      "l \<le> m" "m \<le> 300 + l" "146097 * y' \<le> (d' + 2) * 400" "(d' + 2) * 400 < 146097 * y' + 146097"
    for y' a b c d' k l m :: int
  proof -
    define B where "B = 365 * y' + a - b + c"
    have "400 * B = 146097 * y' - 100 * k + 4 * l - m" using that(1-3) unfolding B_def by algebra
    with that(4-11) have "400 * B \<le> 400 * d' + 1100 \<and> 400 * d' < 400 * B + 146000" by simp
    then have "B - 2 \<le> d' \<and> d' \<le> B + 364" by simp
    then show ?thesis unfolding B_def .
  qed
  have "int y mod 400 mod 100 = int y mod 100" by (simp add: mod_mod_cancel)
  moreover have "x mod 100 \<le> x \<and> x \<le> 300 + x mod 100" if "0 \<le> x" "x < 400" for x :: int
  proof -
    have "x div 100 < 4" "0 \<le> x div 100" using that by (simp_all add: div_less_iff_less_mult pos_imp_zdiv_nonneg_iff)
    moreover have "x = 100 * (x div 100) + x mod 100" by simp
    ultimately show ?thesis by linarith
  qed
  ultimately have "int y mod 100 \<le> int y mod 400 \<and> int y mod 400 \<le> 300 + int y mod 100"
    by (metis pos_mod_bound pos_mod_sign zero_less_numeral)
  then show "int (gauss_year y) - 2 \<le> int d" "int d \<le> int (gauss_year y) + 364"
    using y bound [of "int y" "int y div 4" "int y mod 4" "int y div 100" "int y mod 100" "int y div 400" "int y mod 400" "int d"]
    unfolding gauss_year_int by simp_all
qed

lemma gauss_year_pred: "0 < y \<Longrightarrow> gauss_year y = gauss_year (y - 1) + (if leap_year y then 366 else 365)"
  using gauss_year_Suc [of "y - 1"] by simp

lemma month_cases:
  assumes "1 \<le> m" "m \<le> (12::nat)"
  shows "m = 1 \<or> m = 2 \<or> m = 3 \<or> m = 4 \<or> m = 5 \<or> m = 6 \<or> m = 7 \<or> m = 8 \<or> m = 9 \<or> m = 10 \<or> m = 11 \<or> m = 12"
  using assms by presburger

lemma mon_table:
  assumes "yday < 366" "mon = (yday + 31) * 10 div 306"
  shows "1 \<le> mon" "mon \<le> 12" "367 * mon div 12 - 30 \<le> yday" "(306 \<le> yday) = (11 \<le> mon)"
    "yday - (367 * mon div 12 - 30) < [31, 30, 31, 30, 31, 31, 30, 31, 30, 31, 31, 29] ! (mon - 1)"
    "mon = 12 \<Longrightarrow> yday - (367 * mon div 12 - 30) = 28 \<Longrightarrow> yday = 365"
proof -
  have m: "306 * mon \<le> (yday + 31) * 10" "(yday + 31) * 10 < 306 * mon + 306"
    using assms(2) div_times_less_eq_dividend [of "(yday + 31) * 10" 306]
      dividend_less_div_times [of 306 "(yday + 31) * 10"] by (simp_all add: mult.commute)
  with assms(1) have r: "1 \<le> mon" "mon \<le> 12" by simp_all
  have "367 * mon div 12 - 30 \<le> yday \<and> (306 \<le> yday) = (11 \<le> mon) \<and>
    yday - (367 * mon div 12 - 30) < [31, 30, 31, 30, 31, 31, 30, 31, 30, 31, 31, 29] ! (mon - 1) \<and>
    (mon = 12 \<longrightarrow> yday - (367 * mon div 12 - 30) = 28 \<longrightarrow> yday = 365)"
    using month_cases [OF r] m assms(1) by (elim disjE) (simp; linarith)+
  then show "1 \<le> mon" "mon \<le> 12" "367 * mon div 12 - 30 \<le> yday" "(306 \<le> yday) = (11 \<le> mon)"
    "yday - (367 * mon div 12 - 30) < [31, 30, 31, 30, 31, 31, 30, 31, 30, 31, 31, 29] ! (mon - 1)"
    "mon = 12 \<Longrightarrow> yday - (367 * mon div 12 - 30) = 28 \<Longrightarrow> yday = 365" using r by blast+
qed

text \<open>Gauss' formula counts the days of the calendar.\<close>

lemma day_number_gauss:
  assumes "valid_date y m d"
  shows "day_number y m d =
    (if m \<le> 2 then (if y = 0 then day_number 0 m d else gauss_year (y - 1) + (367 * (m + 10) div 12 - 30) + d + 59)
     else gauss_year y + (367 * (m - 2) div 12 - 30) + d + 59)"
proof -
  have m: "1 \<le> m" "m \<le> 12" "1 \<le> d" using assms by (auto simp: valid_date_def)
  show ?thesis
  proof (cases "y = 0")
    case True
    then show ?thesis using month_cases [OF m(1,2)] m(3)
      by (elim disjE) (simp_all add: day_number_def days_before_year_def month_length_def mday_def
          leap_year_def gauss_year_def atLeastLessThan_nat_numeral)
  next
    case False
    then have y: "days_before_year y = gauss_year (y - 1) + 366" using days_before_year_eq [of "y - 1"] by simp
    show ?thesis using month_cases [OF m(1,2)] m(3) False
      by (elim disjE) (simp_all add: day_number_def y gauss_year_pred [of y] month_length_def mday_def
          atLeastLessThan_nat_numeral)
  qed
qed

lemma to_int_small:
  assumes "n < 2 ^ 31"
  shows "to_int n = int n"
proof -
  have "take_bit 32 n = n" using assms by (simp add: take_bit_nat_eq_self)
  moreover have "signed_take_bit 31 (int n) = int n" using assms by (simp add: signed_take_bit_int_eq_self)
  ultimately show ?thesis by (simp add: to_int_def sint_uint unsigned_of_nat)
qed

lemma split_days_correct:
  assumes "split_days days = (y, yday)" "367 \<le> days"
  shows "gauss_year y + yday = days" "yday < (if leap_year (Suc y) then 366 else 365)"
proof -
  define year where "year = (days + 2) * 400 div 146097"
  have pos: "0 < year" unfolding year_def using assms(2) by (simp add: div_greater_zero_iff)
  have "int (gauss_year year) - 2 \<le> int days" "int days \<le> int (gauss_year year) + 364"
    using gauss_year_estimate [of year days] by (simp_all add: year_def)
  moreover have "split_days days = (if int days - int (gauss_year year) < 0
      then (year - 1, nat (365 + (if leap_year year then 1 else 0) + (int days - int (gauss_year year))))
      else (year, nat (int days - int (gauss_year year))))"
    unfolding split_days_def year_def Let_def gauss_year_def leap_year_def by simp
  ultimately have "gauss_year y + yday = days \<and> yday < (if leap_year (Suc y) then 366 else 365)"
    using assms(1) gauss_year_pred [OF pos] pos by (auto split: if_splits)
  then show "gauss_year y + yday = days" "yday < (if leap_year (Suc y) then 366 else 365)" by blast+
qed

text \<open>Month (from January) and day of the month.\<close>

lemma date_of_yday:
  assumes "yday < (if leap_year (Suc y) then 366 else 365)" "mon = (yday + 31) * 10 div 306"
    and "d = yday + 1 - (367 * mon div 12 - 30)"
    and "(y', m) = (if 306 \<le> yday then (Suc y, mon - 10) else (y, mon + 2))"
  shows "valid_date y' m d" "day_number y' m d = gauss_year y + yday + 60"
proof -
  have "yday < 366" using assms(1) by (simp split: if_splits)
  note t = mon_table [OF this assms(2)]
  have d: "d = Suc (yday - (367 * mon div 12 - 30))" using assms(3) t(3) by (simp add: Suc_diff_le)
  show v: "valid_date y' m d"
    using month_cases [OF t(1,2)] t(3-6) assms(1,4) d
    by (elim disjE) (auto simp: valid_date_def month_length_def mday_def split: if_splits)
  show "day_number y' m d = gauss_year y + yday + 60"
    unfolding day_number_gauss [OF v] using month_cases [OF t(1,2)] t(3,4) assms(4) d
    by (elim disjE) (auto split: if_splits)
qed

lemma gmtime_split:
  assumes "0 \<le> t" "t < 2 ^ 64" "split_days (nat t div 86400 + 719468) = (y, yday)"
  shows "ngx_gmtime t =
    (let mon = (yday + 31) * 10 div 306; n = nat t mod 86400 in
     \<lparr> tm_sec = to_int (n mod 3600 mod 60), tm_min = to_int (n mod 3600 div 60), tm_hour = to_int (n div 3600),
       tm_mday = to_int (yday + 1 - (367 * mon div 12 - 30)),
       tm_mon = to_int (if 306 \<le> yday then mon - 10 else mon + 2),
       tm_year = to_int (if 306 \<le> yday then y + 1 else y), tm_wday = to_int ((4 + nat t div 86400) mod 7) \<rparr>)"
proof -
  have n: "nat (t mod 2 ^ 64) = nat t" using assms(1,2) by simp
  have days: "nat t div 86400 + 719527 - (31 + 28) = nat t div 86400 + 719468" by simp
  show ?thesis
    unfolding ngx_gmtime_def Let_def n days assms(3) prod.case by (cases "306 \<le> yday") simp_all
qed

lemma time_parts:
  "to_int (k mod 86400 mod 3600 mod 60) = int k mod 60"
  "to_int (k mod 86400 mod 3600 div 60) = int k mod 3600 div 60"
  "to_int (k mod 86400 div 3600) = int k mod 86400 div 3600"
  "to_int ((4 + k div 86400) mod 7) = (4 + int k div 86400) mod 7"
proof -
  have b: "k mod 60 < 2 ^ 31" "k mod 3600 div 60 < 2 ^ 31" "k mod 86400 div 3600 < 2 ^ 31"
    "(4 + k div 86400) mod 7 < 2 ^ 31"
    by (rule order_less_trans [of _ 86400]; simp add: div_less_iff_less_mult less_trans [OF mod_less_divisor])+
  have "k mod 86400 mod 3600 = k mod 3600" "k mod 3600 mod 60 = k mod 60" by (simp_all add: mod_mod_cancel)
  then show "to_int (k mod 86400 mod 3600 mod 60) = int k mod 60"
    "to_int (k mod 86400 mod 3600 div 60) = int k mod 3600 div 60"
    "to_int (k mod 86400 div 3600) = int k mod 86400 div 3600"
    "to_int ((4 + k div 86400) mod 7) = (4 + int k div 86400) mod 7"
    by (simp_all only: to_int_small [OF b(1)] to_int_small [OF b(2)] to_int_small [OF b(3)] to_int_small [OF b(4)]
        of_nat_mod of_nat_div of_nat_add of_nat_numeral)
qed

lemma gmtime_fields:
  assumes "0 \<le> t" "t < 2 ^ 55"
  obtains y m d where "valid_date y m d" "day_number y m d = nat t div 86400 + 719528"
    "ngx_gmtime t = \<lparr> tm_sec = t mod 60, tm_min = t mod 3600 div 60, tm_hour = t mod 86400 div 3600,
      tm_mday = int d, tm_mon = int m, tm_year = int y, tm_wday = (4 + t div 86400) mod 7 \<rparr>"
proof -
  define days where "days = nat t div 86400 + 719468"
  obtain y yday where sp: "split_days days = (y, yday)" by fastforce
  note s = split_days_correct [OF sp]
  define mon where "mon = (yday + 31) * 10 div 306"
  obtain y' m where ym: "(y', m) = (if 306 \<le> yday then (Suc y, mon - 10) else (y, mon + 2))"
    by (metis surj_pair)
  define d where "d = yday + 1 - (367 * mon div 12 - 30)"
  have "367 \<le> days" by (simp add: days_def)
  note s = s [OF this]
  note v = date_of_yday [OF s(2) mon_def d_def ym]
  have "gauss_year y \<le> days" using s(1) by simp
  moreover have "365 * y \<le> gauss_year y"
    using div_le_mono2 [of 4 100 y] by (simp add: gauss_year_def)
  ultimately have "365 * y \<le> days" by simp
  moreover have "days < 417000000000 + 719468"
    using assms(2) by (simp add: days_def)
  ultimately have small: "y' < 2 ^ 31" using ym by (auto split: if_splits)
  have "d \<le> 31" "m \<le> 12" using v(1) by (auto simp: valid_date_def month_length_def mday_def nth_Cons' split: if_splits)
  with small have ti: "to_int y' = int y'" "to_int m = int m" "to_int d = int d" by (simp_all add: to_int_small)
  have m: "m = (if 306 \<le> yday then mon - 10 else mon + 2)" "y' = (if 306 \<le> yday then y + 1 else y)"
    using ym by (auto split: if_splits)
  have t64: "t < 2 ^ 64" using assms(2) by simp
  have parts: "to_int (nat t mod 86400 mod 3600 mod 60) = t mod 60"
    "to_int (nat t mod 86400 mod 3600 div 60) = t mod 3600 div 60"
    "to_int (nat t mod 86400 div 3600) = t mod 86400 div 3600"
    "to_int ((4 + nat t div 86400) mod 7) = (4 + t div 86400) mod 7"
    using time_parts [of "nat t"] unfolding int_nat_eq if_P [OF assms(1)] .
  have "ngx_gmtime t = \<lparr> tm_sec = t mod 60, tm_min = t mod 3600 div 60, tm_hour = t mod 86400 div 3600,
      tm_mday = int d, tm_mon = int m, tm_year = int y', tm_wday = (4 + t div 86400) mod 7 \<rparr>"
    unfolding gmtime_split [OF assms(1) t64 sp [unfolded days_def]] Let_def parts mon_def [symmetric] d_def [symmetric]
      m [symmetric] ti ..
  moreover have "day_number y' m d = nat t div 86400 + 719528" using v(2) s(1) by (simp add: days_def)
  ultimately show thesis using that [of y' m d] v(1) by blast
qed

section \<open>Reading and printing dates\<close>

lemma and_3_mod_4: "(n::nat) AND 3 = n mod 4"
  using take_bit_eq_mask [of 2 n] by (simp add: take_bit_eq_mod mask_eq_exp_minus_1)

lemma gauss_year_bound: "gauss_year y \<le> 366 * y"
  by (induction y) (auto simp: gauss_year_Suc)

lemma to_time_t_small: "- (2 ^ 63) \<le> x \<Longrightarrow> x < 2 ^ 63 \<Longrightarrow> to_time_t x = x"
  by (simp add: to_time_t_def)

lemma gauss_time_days:
  assumes "valid_date y m d" "1 \<le> y" "y < 10000" "h < 24" "mi < 60" "s < 60"
  shows "gauss_time y (m - 1) d h mi s =
    Got ((int (day_number y m d) - 719528) * 86400 + int h * 3600 + int mi * 60 + int s)"
proof -
  have m: "1 \<le> m" "m \<le> 12" "1 \<le> d" "d \<le> month_length y m" using assms(1) by (auto simp: valid_date_def)
  have guards: "\<not> (d = 29 \<and> m - 1 = 1 \<and> (y AND 3 \<noteq> 0 \<or> (y mod 100 = 0 \<and> y mod 400 \<noteq> 0)))"
    "\<not> (\<not> (d = 29 \<and> m - 1 = 1) \<and> d > mday ! (m - 1))"
    using m by (auto simp: month_length_def leap_year_def and_3_mod_4 mday_def split: if_splits)
  define k where "k = (if m \<le> 2 then m + 10 else m - 2)"
  define y' where "y' = (if m \<le> 2 then y - 1 else y)"
  define q where "q = 367 * k div 12"
  have y0: "y \<noteq> 0" using assms(2) by simp
  have dn: "day_number y m d = gauss_year y' + (q - 30) + d + 59"
    unfolding day_number_gauss [OF assms(1)] k_def y'_def q_def
    by (cases "m \<le> 2") (simp_all only: y0 if_True if_False)
  have shift: "(if int (m - 1) - 1 \<le> 0 then (int (m - 1) - 1 + 12, (int y - 1) mod 2 ^ 64)
                             else (int (m - 1) - 1, int y)) = (int k, int y')"
    using m assms(2,3) by (auto simp: k_def y'_def)
  have k: "30 \<le> q \<and> q \<le> 367" using month_cases [OF m(1,2)] by (auto simp: k_def q_def)
  have q: "367 * int k div 12 = int q" by (simp only: q_def of_nat_div of_nat_mult of_nat_numeral)
  have "gauss_year y' \<le> 366 * 10000"
    using gauss_year_bound [of y'] assms(3) by (auto simp: y'_def)
  moreover have "d \<le> 31" using month_cases [OF m(1,2)] m(4) by (auto simp: month_length_def mday_def split: if_splits)
  ultimately have bound: "int (day_number y m d) \<le> 4000000" unfolding dn using k by simp
  have e: "365 * int y' + int y' div 4 - int y' div 100 + int y' div 400 + 367 * int k div 12 - 30
               + int d - 1 - 719527 + 31 + 28 = int (day_number y m d) - 719528"
    unfolding dn gauss_year_int [symmetric] q using k by (simp only: of_nat_add of_nat_diff of_nat_numeral)
  have "to_time_t ((int (day_number y m d) - 719528) * 86400 + int h * 3600 + int mi * 60 + int s) =
      (int (day_number y m d) - 719528) * 86400 + int h * 3600 + int mi * 60 + int s"
    by (rule to_time_t_small) (use bound assms(4-6) in simp_all)
  moreover have "\<not> (h > 23 \<or> mi > 59 \<or> s > 59)" using assms(4-6) by simp
  ultimately show ?thesis
    unfolding gauss_time_def shift prod.case Let_def e using guards by (simp only: if_False)
qed

definition two :: "nat \<Rightarrow> bytes" where
  "two n = [digit_char (n div 10), digit_char (n mod 10)]"

definition four :: "nat \<Rightarrow> bytes" where
  "four n = [digit_char (n div 1000), digit_char (n div 100 mod 10), digit_char (n div 10 mod 10), digit_char (n mod 10)]"

lemma arg32_small:
  assumes "n < 2 ^ 31"
  shows "arg32 True (of_nat n) = of_nat n"
proof -
  have "take_bit 64 n = n" using assms by (simp add: take_bit_nat_eq_self)
  then have "(ucast (of_nat n :: u64) :: u32) = of_nat n" by (simp add: unsigned_of_nat)
  moreover have "sint (of_nat n :: u32) = int n" using to_int_small [OF assms] by (simp add: to_int_def)
  ultimately show ?thesis by (simp add: arg32_def scast_eq)
qed

lemma sprintf_dec_two: "n < 10 \<Longrightarrow> sprintf_dec n [] = [digit_char n]" "10 \<le> n \<Longrightarrow> n < 100 \<Longrightarrow> sprintf_dec n [] = two n"
  by (simp_all add: sprintf_dec.simps [of n] sprintf_dec.simps [of "n div 10"] two_def div_eq_0_iff)

lemma sprintf_dec_four:
  assumes "1000 \<le> n" "n < 10000"
  shows "sprintf_dec n [] = four n"
proof -
  have "n div 10 div 10 div 10 = n div 1000" "n div 10 div 10 = n div 100" by (simp_all add: div_mult2_eq [symmetric])
  moreover have "n div 1000 < 10" "n div 1000 \<noteq> 0" "n div 100 \<noteq> 0" "n div 10 \<noteq> 0" using assms by (auto simp: div_eq_0_iff)
  ultimately show ?thesis
    by (simp add: sprintf_dec.simps [of n] sprintf_dec.simps [of "n div 10"] sprintf_dec.simps [of "n div 100"]
        sprintf_dec.simps [of "n div 1000"] four_def)
qed

lemma digits_of_nat: "n < 2 ^ 31 \<Longrightarrow> sprintf_digits (of_nat n) 0 = sprintf_dec n []"
  by (simp add: sprintf_digits_dec unsigned_of_nat take_bit_nat_eq_self)

lemma pad_two: "n < 100 \<Longrightarrow> pad_number ch_0 0 2 (of_nat n) = two n"
  by (cases "n < 10") (simp_all add: pad_number_def digits_of_nat sprintf_dec_two two_def digit_char_def)

lemma pad_four: "1000 \<le> n \<Longrightarrow> n < 10000 \<Longrightarrow> pad_number SP 0 4 (of_nat n) = four n"
  "1000 \<le> n \<Longrightarrow> n < 10000 \<Longrightarrow> pad_number SP 0 0 (of_nat n) = four n"
  by (simp_all add: pad_number_def digits_of_nat sprintf_dec_four) (simp_all add: four_def)

text \<open>The conversions that the formats use.\<close>

lemma fmt_spec_02d:
  "fmt_spec (ch_0 # ch_2 # ch_d # fmt) args = Some (\<lparr> c_zero = ch_0, c_width = 2, c_sign = True, c_hex = 0,
     c_max_width = False, c_frac_width = 0, c_slen = -1 \<rparr>, ch_d # fmt, args)"
  "fmt_spec (ch_4 # ch_d # fmt) args = Some (\<lparr> c_zero = SP, c_width = 4, c_sign = True, c_hex = 0,
     c_max_width = False, c_frac_width = 0, c_slen = -1 \<rparr>, ch_d # fmt, args)"
  "fmt_spec (ch_s # fmt) args = Some (\<lparr> c_zero = SP, c_width = 0, c_sign = True, c_hex = 0,
     c_max_width = False, c_frac_width = 0, c_slen = -1 \<rparr>, ch_s # fmt, args)"
  "fmt_spec (ch_d # fmt) args = Some (\<lparr> c_zero = SP, c_width = 0, c_sign = True, c_hex = 0,
     c_max_width = False, c_frac_width = 0, c_slen = -1 \<rparr>, ch_d # fmt, args)"
  by (simp_all add: fmt_spec_def is_digit_def digit_val_def)

lemma sint_of_nat_nonneg: "n < 2 ^ 31 \<Longrightarrow> \<not> sint (of_nat n :: u64) < 0"
  by (simp add: sint_uint unsigned_of_nat take_bit_nat_eq_self signed_take_bit_int_eq_self)

lemma render_02d: "n < 100 \<Longrightarrow> render (ch_percent # ch_0 # ch_2 # ch_d # fmt) (arg_int (int n) # args) =
    map_option ((@) (two n)) (render fmt args)"
  using sint_of_nat_nonneg [of n]
  by (simp add: render_conversion [OF fmt_spec_02d(1)] int_conversion_def arg32_small render_number_def pad_two)

lemma render_4d: "1000 \<le> n \<Longrightarrow> n < 10000 \<Longrightarrow> render (ch_percent # ch_4 # ch_d # fmt) (arg_int (int n) # args) =
    map_option ((@) (four n)) (render fmt args)"
  using sint_of_nat_nonneg [of n]
  by (simp add: render_conversion [OF fmt_spec_02d(2)] int_conversion_def arg32_small render_number_def pad_four)

lemma render_d: "1000 \<le> n \<Longrightarrow> n < 10000 \<Longrightarrow> render (ch_percent # ch_d # fmt) (arg_int (int n) # args) =
    map_option ((@) (four n)) (render fmt args)"
  using sint_of_nat_nonneg [of n]
  by (simp add: render_conversion [OF fmt_spec_02d(4)] int_conversion_def arg32_small render_number_def pad_four)

lemma render_s:
  assumes "NUL \<notin> set v"
  shows "render (ch_percent # ch_s # fmt) (Arg_str v # args) = map_option ((@) v) (render fmt args)"
proof -
  have "takeWhile (\<lambda>c. c \<noteq> NUL) v = v" using assms by (auto simp: takeWhile_eq_all_conv)
  then show ?thesis by (simp add: render_conversion [OF fmt_spec_02d(3)] del: takeWhile_eq_all_conv)
qed

lemma names:
  "w < 7 \<Longrightarrow> \<exists>a b c. week ! w = [a, b, c] \<and> {NUL, ch_comma, SP} \<inter> {a, b, c} = {}"
  "m < 12 \<Longrightarrow> \<exists>a b c. months ! m = [a, b, c] \<and> NUL \<notin> {a, b, c} \<and>
     (\<forall>v p. p + 2 < length v \<longrightarrow> v ! p = a \<longrightarrow> v ! (p + 1) = b \<longrightarrow> v ! (p + 2) = c \<longrightarrow> rd_month v p = Got m)"
proof -
  assume "w < 7"
  then have "w = 0 \<or> w = 1 \<or> w = 2 \<or> w = 3 \<or> w = 4 \<or> w = 5 \<or> w = 6" by presburger
  then show "\<exists>a b c. week ! w = [a, b, c] \<and> {NUL, ch_comma, SP} \<inter> {a, b, c} = {}"
    by (elim disjE) (simp_all add: week_def)
next
  assume "m < 12"
  then have "m = 0 \<or> m = 1 \<or> m = 2 \<or> m = 3 \<or> m = 4 \<or> m = 5 \<or> m = 6 \<or> m = 7 \<or> m = 8 \<or> m = 9 \<or> m = 10 \<or> m = 11"
    by presburger
  then show "\<exists>a b c. months ! m = [a, b, c] \<and> NUL \<notin> {a, b, c} \<and>
     (\<forall>v p. p + 2 < length v \<longrightarrow> v ! p = a \<longrightarrow> v ! (p + 1) = b \<longrightarrow> v ! (p + 2) = c \<longrightarrow> rd_month v p = Got m)"
    by (elim disjE) (simp_all add: months_def rd_month_def rd_def)
qed

lemma rd_digit_char: "p < length v \<Longrightarrow> v ! p = digit_char d \<Longrightarrow> d < 10 \<Longrightarrow> rd_digit v p = Got d"
proof -
  assume v: "p < length v" "v ! p = digit_char d" "d < 10"
  have "is_digit (digit_char d)" using v(3) by simp
  moreover have "unat (digit_char d - ch_0) = d" using v(3) by (simp add: digit_char_def unsigned_of_nat take_bit_nat_eq_self)
  ultimately show ?thesis using v by (simp add: rd_digit_def rd_def not_digit_iff)
qed

lemma rd_two_text: "p + 1 < length v \<Longrightarrow> n < 100 \<Longrightarrow> v ! p = digit_char (n div 10) \<Longrightarrow>
    v ! (p + 1) = digit_char (n mod 10) \<Longrightarrow> rd_two v p = Got n"
  by (simp add: rd_two_def rd_digit_char)

lemma four_digits: "(n div 1000) * 1000 + (n div 100 mod 10) * 100 + (n div 10 mod 10) * 10 + n mod 10 = (n::nat)"
proof -
  have "n div 10 div 10 = n div 100" "n div 100 div 10 = n div 1000" by (simp_all add: div_mult2_eq [symmetric])
  then have "n = n div 10 * 10 + n mod 10" "n div 10 = n div 100 * 10 + n div 10 mod 10"
    "n div 100 = n div 1000 * 10 + n div 100 mod 10"
    by (metis div_mult_mod_eq)+
  then show ?thesis by linarith
qed

lemma rd_four_text: "p + 3 < length v \<Longrightarrow> n < 10000 \<Longrightarrow> v ! p = digit_char (n div 1000) \<Longrightarrow>
    v ! (p + 1) = digit_char (n div 100 mod 10) \<Longrightarrow> v ! (p + 2) = digit_char (n div 10 mod 10) \<Longrightarrow>
    v ! (p + 3) = digit_char (n mod 10) \<Longrightarrow> rd_four v p = Got n"
  using four_digits [of n] by (simp add: rd_four_def rd_digit_char)

lemma digit_char_not_sp: "d < 100 \<Longrightarrow> digit_char (d div 10) \<noteq> SP"
proof -
  assume "d < 100"
  then have "d div 10 \<le> 9" by simp
  from is_digit_digit_char [OF this] show ?thesis by (auto simp: is_digit_def)
qed

definition http_date :: "bytes \<Rightarrow> nat \<Rightarrow> bytes \<Rightarrow> nat \<Rightarrow> nat \<Rightarrow> nat \<Rightarrow> nat \<Rightarrow> bytes" where
  "http_date wd d mon y h mi s =
     wd @ [ch_comma, SP] @ two d @ [SP] @ mon @ [SP] @ four y @ [SP] @ two h @ [ch_colon] @ two mi @ [ch_colon] @ two s
     @ [SP, ch_G, ch_M, ch_T]"

lemma read_http_date:
  assumes "w < 7" "m < 12" "d < 100" "y < 10000" "h < 100" "mi < 100" "s < 100"
  shows "read_http_time (http_date (week ! w) d (months ! m) y h mi s) = gauss_time y m d h mi s"
proof -
  from names(1) [OF assms(1)] obtain a b c where w: "week ! w = [a, b, c]" "{NUL, ch_comma, SP} \<inter> {a, b, c} = {}" by blast
  from names(2) [OF assms(2)] obtain e f g where mo: "months ! m = [e, f, g]"
    "\<And>v p. p + 2 < length v \<Longrightarrow> v ! p = e \<Longrightarrow> v ! (p + 1) = f \<Longrightarrow> v ! (p + 2) = g \<Longrightarrow> rd_month v p = Got m" by blast
  define v where "v = http_date (week ! w) d (months ! m) y h mi s"
  have v: "v = [a, b, c, ch_comma, SP, digit_char (d div 10), digit_char (d mod 10), SP, e, f, g, SP,
      digit_char (y div 1000), digit_char (y div 100 mod 10), digit_char (y div 10 mod 10), digit_char (y mod 10), SP,
      digit_char (h div 10), digit_char (h mod 10), ch_colon, digit_char (mi div 10), digit_char (mi mod 10), ch_colon,
      digit_char (s div 10), digit_char (s mod 10), SP, ch_G, ch_M, ch_T]"
    by (simp add: v_def http_date_def w mo(1) two_def four_def)
  have "digit_char (d div 10) \<noteq> SP" using digit_char_not_sp [OF assms(3)] .
  with w(2) have st: "time_start v = (False, 5)" by (auto simp: v time_start_def)
  have "rd_two v 5 = Got d" "rd_four v 12 = Got y" "rd_two v 17 = Got h" "rd_two v 20 = Got mi" "rd_two v 23 = Got s"
    using assms by (auto intro!: rd_two_text rd_four_text simp: v)
  moreover have "rd_month v 8 = Got m" by (rule mo(2)) (simp_all add: v)
  ultimately show ?thesis
    unfolding v_def [symmetric] read_http_time_def st
    by (simp add: rd_day_def rd_year_day_def rd_expect_def rd_def v)
qed

definition cookie_date :: "bytes \<Rightarrow> nat \<Rightarrow> bytes \<Rightarrow> nat \<Rightarrow> nat \<Rightarrow> nat \<Rightarrow> nat \<Rightarrow> bytes" where
  "cookie_date wd d mon y h mi s =
     wd @ [ch_comma, SP] @ two d @ [ch_minus] @ mon @ [ch_minus] @ two y @ [SP] @ two h @ [ch_colon] @ two mi @ [ch_colon] @ two s
     @ [SP, ch_G, ch_M, ch_T]"

lemma read_cookie_date:
  assumes "w < 7" "m < 12" "d < 100" "y < 100" "h < 100" "mi < 100" "s < 100"
  shows "read_http_time (cookie_date (week ! w) d (months ! m) y h mi s) =
    gauss_time (y + (if y < 70 then 2000 else 1900)) m d h mi s"
proof -
  from names(1) [OF assms(1)] obtain a b c where w: "week ! w = [a, b, c]" "{NUL, ch_comma, SP} \<inter> {a, b, c} = {}" by blast
  from names(2) [OF assms(2)] obtain e f g where mo: "months ! m = [e, f, g]"
    "\<And>v p. p + 2 < length v \<Longrightarrow> v ! p = e \<Longrightarrow> v ! (p + 1) = f \<Longrightarrow> v ! (p + 2) = g \<Longrightarrow> rd_month v p = Got m" by blast
  define v where "v = cookie_date (week ! w) d (months ! m) y h mi s"
  have v: "v = [a, b, c, ch_comma, SP, digit_char (d div 10), digit_char (d mod 10), ch_minus, e, f, g, ch_minus,
      digit_char (y div 10), digit_char (y mod 10), SP,
      digit_char (h div 10), digit_char (h mod 10), ch_colon, digit_char (mi div 10), digit_char (mi mod 10), ch_colon,
      digit_char (s div 10), digit_char (s mod 10), SP, ch_G, ch_M, ch_T]"
    by (simp add: v_def cookie_date_def w mo(1) two_def)
  have "digit_char (d div 10) \<noteq> SP" using digit_char_not_sp [OF assms(3)] .
  with w(2) have st: "time_start v = (False, 5)" by (auto simp: v time_start_def)
  have "rd_two v 5 = Got d" "rd_two v 12 = Got y" "rd_two v 15 = Got h" "rd_two v 18 = Got mi" "rd_two v 21 = Got s"
    using assms by (auto intro!: rd_two_text simp: v)
  moreover have "rd_month v 8 = Got m" by (rule mo(2)) (simp_all add: v)
  ultimately show ?thesis
    unfolding v_def [symmetric] read_http_time_def st
    by (simp add: rd_day_def rd_year_day_def rd_expect_def rd_def v)
qed

text \<open>The cookie date after 2037, with a year of four digits.\<close>

definition late_cookie_date :: "bytes \<Rightarrow> nat \<Rightarrow> bytes \<Rightarrow> nat \<Rightarrow> nat \<Rightarrow> nat \<Rightarrow> nat \<Rightarrow> bytes" where
  "late_cookie_date wd d mon y h mi s =
     wd @ [ch_comma, SP] @ two d @ [ch_minus] @ mon @ [ch_minus] @ four y @ [SP] @ two h @ [ch_colon] @ two mi @ [ch_colon] @ two s
     @ [SP, ch_G, ch_M, ch_T]"

lemma read_late_cookie_date:
  assumes "w < 7" "m < 12" "d < 100" "1000 \<le> y" "y < 10000"
  shows "read_http_time (late_cookie_date (week ! w) d (months ! m) y h mi s) = Fail"
proof -
  from names(1) [OF assms(1)] obtain a b c where w: "week ! w = [a, b, c]" "{NUL, ch_comma, SP} \<inter> {a, b, c} = {}" by blast
  from names(2) [OF assms(2)] obtain e f g where mo: "months ! m = [e, f, g]"
    "\<And>v p. p + 2 < length v \<Longrightarrow> v ! p = e \<Longrightarrow> v ! (p + 1) = f \<Longrightarrow> v ! (p + 2) = g \<Longrightarrow> rd_month v p = Got m" by blast
  define v where "v = late_cookie_date (week ! w) d (months ! m) y h mi s"
  have v: "v = [a, b, c, ch_comma, SP, digit_char (d div 10), digit_char (d mod 10), ch_minus, e, f, g, ch_minus,
      digit_char (y div 1000), digit_char (y div 100 mod 10), digit_char (y div 10 mod 10), digit_char (y mod 10), SP,
      digit_char (h div 10), digit_char (h mod 10), ch_colon, digit_char (mi div 10), digit_char (mi mod 10), ch_colon,
      digit_char (s div 10), digit_char (s mod 10), SP, ch_G, ch_M, ch_T]"
    by (simp add: v_def late_cookie_date_def w mo(1) two_def four_def)
  have "digit_char (d div 10) \<noteq> SP" using digit_char_not_sp [OF assms(3)] .
  with w(2) have st: "time_start v = (False, 5)" by (auto simp: v time_start_def)
  have year: "(y div 100) div 10 = y div 1000" "y div 100 < 100" using assms(5) by (simp_all add: div_mult2_eq [symmetric] less_mult_imp_div_less)
  have tens: "digit_char (y div 10 mod 10) \<noteq> SP"
    using digit_char_not_sp [of "y div 10 mod 10 * 10"] by simp
  have "rd_two v 5 = Got d" using assms by (auto intro!: rd_two_text simp: v)
  moreover have "rd_two v 12 = Got (y div 100)"
    by (rule rd_two_text) (simp_all add: v year)
  moreover have "rd_month v 8 = Got m" by (rule mo(2)) (simp_all add: v)
  ultimately show ?thesis
    unfolding v_def [symmetric] read_http_time_def st
    using tens by (simp add: rd_day_def rd_year_day_def rd_expect_def rd_def v)
qed

lemma names_NUL: "w < 7 \<Longrightarrow> NUL \<notin> set (week ! w)" "m < 12 \<Longrightarrow> NUL \<notin> set (months ! m)"
  using names [of w] names(2) [of m] by (force, force)

lemma print_http_date:
  assumes "w < 7" "m < 12" "d < 100" "1000 \<le> y" "y < 10000" "h < 100" "mi < 100" "s < 100"
  shows "ngx_sprintf (bytes_of ''%s, %02d %s %4d %02d:%02d:%02d GMT'')
      [Arg_str (week ! w), arg_int (int d), Arg_str (months ! m), arg_int (int y), arg_int (int h), arg_int (int mi),
       arg_int (int s)] = Some (http_date (week ! w) d (months ! m) y h mi s)"
proof (rule sprintf_render)
  show "render (bytes_of ''%s, %02d %s %4d %02d:%02d:%02d GMT'')
      [Arg_str (week ! w), arg_int (int d), Arg_str (months ! m), arg_int (int y), arg_int (int h), arg_int (int mi),
       arg_int (int s)] = Some (http_date (week ! w) d (months ! m) y h mi s)"
    using assms names_NUL(1) [OF assms(1)] names_NUL(2) [OF assms(2)]
    by (simp add: render_s render_02d render_4d render_char http_date_def del: of_int_of_nat_eq)
  show "length (http_date (week ! w) d (months ! m) y h mi s) \<le> 2 ^ 63"
    using names(1) [OF assms(1)] names(2) [OF assms(2)] by (auto simp: http_date_def two_def four_def)
qed

section \<open>No access beyond the end\<close>

lemma rd_over: "rd v p = Overread \<longleftrightarrow> length v \<le> p" "rd v p \<noteq> Fail"
  by (auto simp: rd_def)

lemma rd_bind_over: "rd_bind m f = Overread \<longleftrightarrow> m = Overread \<or> (\<exists>x. m = Got x \<and> f x = Overread)"
  by (cases m) auto

lemma rd_digit_over: "rd_digit v p = Overread \<longleftrightarrow> length v \<le> p"
  by (auto simp: rd_digit_def rd_bind_over rd_over split: if_splits)

lemma rd_inside:
  "p + 1 < length v \<Longrightarrow> rd_two v p \<noteq> Overread"
  "p + 3 < length v \<Longrightarrow> rd_four v p \<noteq> Overread"
  "p + 2 < length v \<Longrightarrow> rd_month v p \<noteq> Overread"
  "p < length v \<Longrightarrow> rd_expect v p ch \<noteq> Overread"
  by (auto simp: rd_two_def rd_four_def rd_month_def rd_expect_def rd_bind_over rd_digit_over rd_over split: if_splits)

lemma gauss_time_over: "gauss_time y m d h mi s \<noteq> Overread"
  by (simp add: gauss_time_def split: prod.split)

lemma rd_day_inside: "p + 18 \<le> length v \<Longrightarrow> rd_day v sp p \<noteq> Overread"
  using rd_inside(1) [of p v] by (auto simp: rd_day_def rd_bind_over rd_over split: if_splits)

text \<open>How many bytes are left for the rest of the date, for each format.\<close>

lemma rd_day_left:
  "rd_day v sp p = Got (fmt, day, p') \<Longrightarrow> p + 18 \<le> length v \<Longrightarrow>
    p' + (case fmt of rfc822 \<Rightarrow> 17 | rfc850 \<Rightarrow> 15 | isoc \<Rightarrow> 18) \<le> length v"
  by (cases "rd_two v p"; cases "rd v (p + 2)") (auto simp: rd_day_def split: if_splits)

lemma rd_year_day_inside:
  assumes "p + (case fmt of rfc822 \<Rightarrow> 17 | rfc850 \<Rightarrow> 15 | isoc \<Rightarrow> 18) \<le> length v"
  shows "rd_year_day v fmt day (p + 4) \<noteq> Overread"
  using assms rd_inside(1,2) [of "p + 4" v]
  by (auto simp: rd_year_day_def rd_bind_over rd_over rd_digit_over Let_def split: time_fmt.splits if_splits)

lemma rd_year_day_left:
  assumes "rd_year_day v fmt day (p + 4) = Got (year, day', p')"
    and "p + (case fmt of rfc822 \<Rightarrow> 17 | rfc850 \<Rightarrow> 15 | isoc \<Rightarrow> 18) \<le> length v"
  shows "p' + (if fmt = isoc then 14 else 9) \<le> length v"
proof (cases fmt)
  case rfc822
  with assms show ?thesis by (cases "rd_four v (p + 4)") (auto simp: rd_year_day_def)
next
  case rfc850
  with assms show ?thesis by (cases "rd_two v (p + 4)") (auto simp: rd_year_day_def)
next
  case isoc
  have got: "rd_bind m f = Got x \<longleftrightarrow> (\<exists>y. m = Got y \<and> f y = Got x)" for m :: "'a read" and f :: "'a \<Rightarrow> 'b read" and x
    by (cases m) auto
  from isoc assms show ?thesis by (auto simp: rd_year_day_def got Let_def split: if_splits)
qed

lemma read_http_time_inside: "read_http_time v \<noteq> Overread"
proof
  assume over: "read_http_time v = Overread"
  obtain sp p where st: "time_start v = (sp, p)" by fastforce
  from over st have len: "p + 18 \<le> length v" by (auto simp: read_http_time_def split: if_splits)
  show False
  proof (cases "rd_day v sp p")
    case (Got a)
    obtain fmt day q where a: "a = (fmt, day, q)" by (cases a) auto
    note left = rd_day_left [OF Got [unfolded a] len]
    have "q + 15 \<le> length v" using left by (cases fmt) auto
    then have 1: "rd_month v q \<noteq> Overread" "rd_expect v (q + 3) ch \<noteq> Overread" for ch by (simp_all add: rd_inside)
    note 2 = rd_year_day_inside [OF left]
    have 3: "rd_expect v q' SP \<noteq> Overread" "rd_two v (q' + 1) \<noteq> Overread" "rd_expect v (q' + 3) ch \<noteq> Overread"
      "rd_two v (q' + 4) \<noteq> Overread" "rd_expect v (q' + 6) ch \<noteq> Overread" "rd_two v (q' + 7) \<noteq> Overread"
      "fmt = isoc \<Longrightarrow> rd_expect v (q' + 9) SP \<noteq> Overread" "fmt = isoc \<Longrightarrow> rd_four v (q' + 10) \<noteq> Overread"
      if "rd_year_day v fmt day (q + 4) = Got (year, day', q')" for year day' q' ch
      using rd_year_day_left [OF that left] by (auto intro!: rd_inside split: if_splits)
    from over st len Got a 1 2 3 show False
      by (auto simp: read_http_time_def rd_bind_over gauss_time_over split: if_splits)
  qed (use over st len rd_day_inside in \<open>auto simp: read_http_time_def\<close>)
qed

lemma print_cookie_date:
  assumes "w < 7" "m < 12" "d < 100" "y < 100" "h < 100" "mi < 100" "s < 100"
  shows "ngx_sprintf (bytes_of ''%s, %02d-%s-%02d %02d:%02d:%02d GMT'')
      [Arg_str (week ! w), arg_int (int d), Arg_str (months ! m), arg_int (int y), arg_int (int h), arg_int (int mi),
       arg_int (int s)] = Some (cookie_date (week ! w) d (months ! m) y h mi s)"
proof (rule sprintf_render)
  show "render (bytes_of ''%s, %02d-%s-%02d %02d:%02d:%02d GMT'')
      [Arg_str (week ! w), arg_int (int d), Arg_str (months ! m), arg_int (int y), arg_int (int h), arg_int (int mi),
       arg_int (int s)] = Some (cookie_date (week ! w) d (months ! m) y h mi s)"
    using assms names_NUL(1) [OF assms(1)] names_NUL(2) [OF assms(2)]
    by (simp add: render_s render_02d render_char cookie_date_def del: of_int_of_nat_eq)
  show "length (cookie_date (week ! w) d (months ! m) y h mi s) \<le> 2 ^ 63"
    using names(1) [OF assms(1)] names(2) [OF assms(2)] by (auto simp: cookie_date_def two_def)
qed

lemma print_late_cookie_date:
  assumes "w < 7" "m < 12" "d < 100" "1000 \<le> y" "y < 10000" "h < 100" "mi < 100" "s < 100"
  shows "ngx_sprintf (bytes_of ''%s, %02d-%s-%d %02d:%02d:%02d GMT'')
      [Arg_str (week ! w), arg_int (int d), Arg_str (months ! m), arg_int (int y), arg_int (int h), arg_int (int mi),
       arg_int (int s)] = Some (late_cookie_date (week ! w) d (months ! m) y h mi s)"
proof (rule sprintf_render)
  show "render (bytes_of ''%s, %02d-%s-%d %02d:%02d:%02d GMT'')
      [Arg_str (week ! w), arg_int (int d), Arg_str (months ! m), arg_int (int y), arg_int (int h), arg_int (int mi),
       arg_int (int s)] = Some (late_cookie_date (week ! w) d (months ! m) y h mi s)"
    using assms names_NUL(1) [OF assms(1)] names_NUL(2) [OF assms(2)]
    by (simp add: render_s render_02d render_d render_char late_cookie_date_def del: of_int_of_nat_eq)
  show "length (late_cookie_date (week ! w) d (months ! m) y h mi s) \<le> 2 ^ 63"
    using names(1) [OF assms(1)] names(2) [OF assms(2)] by (auto simp: late_cookie_date_def two_def four_def)
qed

lemma day_number_strict: "valid_date y m d \<Longrightarrow> days_before_year y \<le> day_number y m d \<and> day_number y m d < days_before_year (Suc y)"
proof -
  assume v: "valid_date y m d"
  have m: "1 \<le> m" "m \<le> 12" "1 \<le> d" "d \<le> month_length y m" using v by (auto simp: valid_date_def)
  from month_cases [OF m(1,2)] m(3,4) show ?thesis
    by (elim disjE) (auto simp: day_number_def days_before_year_def month_length_def mday_def
        atLeastLessThan_nat_numeral split: if_splits)
qed

lemma days_before_year_mono: "y \<le> y' \<Longrightarrow> days_before_year y \<le> days_before_year y'"
  by (auto simp: days_before_year_def intro!: sum_mono2)

text \<open>The year of a day number lies between those of two dates.\<close>

lemma year_bounds:
  assumes "valid_date y m d" "days_before_year a \<le> day_number y m d" "day_number y m d < days_before_year b"
  shows "a \<le> y" "y < b"
proof -
  note d = day_number_strict [OF assms(1)]
  show "a \<le> y"
  proof (rule ccontr)
    assume "\<not> a \<le> y"
    then have "days_before_year (Suc y) \<le> days_before_year a" by (intro days_before_year_mono) simp
    with d assms(2) show False by simp
  qed
  show "y < b"
  proof (rule ccontr)
    assume "\<not> y < b"
    then have "days_before_year b \<le> days_before_year y" by (intro days_before_year_mono) simp
    with d assms(3) show False by simp
  qed
qed

lemma year_starts:
  "days_before_year 1970 = 719528" "days_before_year 2038 = 744365" "days_before_year 10000 = 3652425"
  using days_before_year_eq [of 1969] days_before_year_eq [of 2037] days_before_year_eq [of 9999]
  by (simp_all add: gauss_year_def)

lemma time_of_parts:
  "(k::nat) div 86400 * 86400 + k mod 86400 div 3600 * 3600 + k mod 3600 div 60 * 60 + k mod 60 = k"
proof -
  have "k mod 86400 mod 3600 = k mod 3600" "k mod 3600 mod 60 = k mod 60" by (simp_all add: mod_mod_cancel)
  then have "k = k div 86400 * 86400 + k mod 86400" "k mod 86400 = k mod 86400 div 3600 * 3600 + k mod 3600"
    "k mod 3600 = k mod 3600 div 60 * 60 + k mod 60"
    by (metis div_mult_mod_eq)+
  then show ?thesis by linarith
qed

lemma part_bounds:
  "(k::nat) mod 86400 div 3600 < 24" "k mod 3600 div 60 < 60" "k mod 60 < 60" "(4 + k div 86400) mod 7 < 7"
  by (simp_all add: less_mult_imp_div_less)

lemma weekday_shift: "(4 + x) mod 7 = (x + 719534) mod (7::int)"
proof -
  have "x + 719534 = (4 + x) + 102790 * 7" by simp
  then show ?thesis by (simp only: mod_mult_self1)
qed

lemma mod_100_of_year:
  assumes "100 * c \<le> (y::nat)" "y < 100 * c + 100"
  shows "y mod 100 = y - 100 * c"
proof -
  from assms(1) obtain r where "y = r + 100 * c" using le_Suc_ex by (metis add.commute)
  with assms(2) show ?thesis by simp
qed

lemma days_before_1970_Suc [simp]: "day_number 1970 (Suc 0) (Suc 0) = 719528"
  using days_before_1970 by simp

lemma gmtime_parts:
  assumes "0 \<le> t" "t < 2 ^ 55"
  obtains y m d w h mi s where "valid_date y m d" "day_number y m d = nat t div 86400 + 719528"
    "w < 7" "h < 24" "mi < 60" "s < 60" "t = int (nat t div 86400) * 86400 + int h * 3600 + int mi * 60 + int s"
    "ngx_gmtime t = \<lparr> tm_sec = int s, tm_min = int mi, tm_hour = int h,
      tm_mday = int d, tm_mon = int m, tm_year = int y, tm_wday = int w \<rparr>"
proof -
  from gmtime_fields [OF assms] obtain y m d where v: "valid_date y m d" "day_number y m d = nat t div 86400 + 719528"
    "ngx_gmtime t = \<lparr> tm_sec = t mod 60, tm_min = t mod 3600 div 60, tm_hour = t mod 86400 div 3600,
      tm_mday = int d, tm_mon = int m, tm_year = int y, tm_wday = (4 + t div 86400) mod 7 \<rparr>" .
  obtain k where k: "t = int k" using assms(1) nonneg_int_cases by blast
  have g: "ngx_gmtime t = \<lparr> tm_sec = int (k mod 60), tm_min = int (k mod 3600 div 60), tm_hour = int (k mod 86400 div 3600),
      tm_mday = int d, tm_mon = int m, tm_year = int y, tm_wday = int ((4 + k div 86400) mod 7) \<rparr>"
    using v(3) unfolding k by (simp only: of_nat_mod of_nat_div of_nat_add of_nat_numeral)
  have "nat t = k" using k by simp
  moreover have "t = int (k div 86400) * 86400 + int (k mod 86400 div 3600) * 3600 + int (k mod 3600 div 60) * 60 + int (k mod 60)"
    using arg_cong [OF time_of_parts [of k], of int] unfolding k by (simp only: of_nat_add of_nat_mult of_nat_numeral)
  ultimately show thesis using that [OF v(1,2) part_bounds(4,1,2,3) _ g] by (simp only:)
qed

section \<open>Properties\<close>

text \<open>
  C18. \<open>ngx_gmtime\<close> computes the Gregorian calendar: for every time from 1970 on (up to the year
  in which the field of type \<open>int\<close> would overflow) month and day form a valid date, the number of
  days that the calendar counts from 1 January 1970 to it is the number of whole days in the
  time, hour, minute and second are the rest of it, and the day of the week is right. Gauss'
  formula and the empirical formula for the month therefore have no exception.
\<close>

theorem gmtime_calendar:
  assumes "0 \<le> t" "t < 2 ^ 55" "tm = ngx_gmtime t"
  shows "valid_date (nat (tm_year tm)) (nat (tm_mon tm)) (nat (tm_mday tm)) \<and>
    t = (int (day_number (nat (tm_year tm)) (nat (tm_mon tm)) (nat (tm_mday tm))) - int (day_number 1970 1 1)) * 86400
        + tm_hour tm * 3600 + tm_min tm * 60 + tm_sec tm \<and>
    0 \<le> tm_hour tm \<and> tm_hour tm < 24 \<and> 0 \<le> tm_min tm \<and> tm_min tm < 60 \<and> 0 \<le> tm_sec tm \<and> tm_sec tm < 60 \<and>
    tm_wday tm = (int (day_number (nat (tm_year tm)) (nat (tm_mon tm)) (nat (tm_mday tm))) + 6) mod 7"
proof -
  from gmtime_fields [OF assms(1,2)] obtain y m d where
    f: "ngx_gmtime t = \<lparr> tm_sec = t mod 60, tm_min = t mod 3600 div 60, tm_hour = t mod 86400 div 3600,
      tm_mday = int d, tm_mon = int m, tm_year = int y, tm_wday = (4 + t div 86400) mod 7 \<rparr>" .
  from gmtime_parts [OF assms(1,2)] obtain y m d w h mi s where
    v: "valid_date y m d" "day_number y m d = nat t div 86400 + 719528" "w < 7" "h < 24" "mi < 60" "s < 60"
    "t = int (nat t div 86400) * 86400 + int h * 3600 + int mi * 60 + int s"
    "ngx_gmtime t = \<lparr> tm_sec = int s, tm_min = int mi, tm_hour = int h,
      tm_mday = int d, tm_mon = int m, tm_year = int y, tm_wday = int w \<rparr>" .
  have days: "int (nat t div 86400) = t div 86400" using assms(1) by (simp add: zdiv_int)
  have "int w = (4 + t div 86400) mod 7" using f v(8) by simp
  also have "\<dots> = (t div 86400 + 719534) mod 7" by (rule weekday_shift)
  finally have "int w = (int (day_number y m d) + 6) mod 7" using v(2) days by (simp add: add.commute)
  then show ?thesis using assms(3) v by simp
qed

theorem gmtime_calendar_witness:
  "tm_year (ngx_gmtime 951782400) = 2000 \<and> tm_mon (ngx_gmtime 951782400) = 2 \<and> tm_mday (ngx_gmtime 951782400) = 29 \<and>
   valid_date 2000 2 29 \<and> 951782400 = (int (day_number 2000 2 29) - int (day_number 1970 1 1)) * 86400"
proof -
  have "tm_year (ngx_gmtime 951782400) = 2000" "tm_mon (ngx_gmtime 951782400) = 2" "tm_mday (ngx_gmtime 951782400) = 29"
    "tm_hour (ngx_gmtime 951782400) = 0" "tm_min (ngx_gmtime 951782400) = 0" "tm_sec (ngx_gmtime 951782400) = 0"
    by (simp_all add: ngx_gmtime_def split_days_def Let_def to_int_def)
  then show ?thesis using gmtime_calendar [of 951782400 "ngx_gmtime 951782400"] by simp
qed

text \<open>The parts of a time before the year 10000, as the printers get them.\<close>

lemma printed_parts:
  assumes "0 \<le> t" "t < 253402300800"
  obtains y m d w h mi s where "w < 7" "m < 12" "d < 100" "1970 \<le> y" "y < 10000" "h < 100" "mi < 100" "s < 100"
    "ngx_gmtime t = \<lparr> tm_sec = int s, tm_min = int mi, tm_hour = int h,
      tm_mday = int d, tm_mon = int (Suc m), tm_year = int y, tm_wday = int w \<rparr>"
    "gauss_time y m d h mi s = Got t" "t < 2145916800 \<longleftrightarrow> y < 2038"
proof -
  have t': "t < 2 ^ 55" using assms(2) by simp
  from gmtime_parts [OF assms(1) t'] obtain y m d w h mi s where
    v: "valid_date y m d" "day_number y m d = nat t div 86400 + 719528" "w < 7" "h < 24" "mi < 60" "s < 60"
    "t = int (nat t div 86400) * 86400 + int h * 3600 + int mi * 60 + int s"
    "ngx_gmtime t = \<lparr> tm_sec = int s, tm_min = int mi, tm_hour = int h,
      tm_mday = int d, tm_mon = int m, tm_year = int y, tm_wday = int w \<rparr>" .
  have m: "1 \<le> m" "m \<le> 12" "d < 100"
    using v(1) month_cases [of m] by (auto simp: valid_date_def month_length_def mday_def split: if_splits)
  have lt: "day_number y m d < 719528 + k \<longleftrightarrow> t < int k * 86400" for k
    using assms(1) unfolding v(2) by (auto simp: div_less_iff_less_mult nat_less_iff)
  have y: "1970 \<le> y" "y < 10000"
    using year_bounds [OF v(1), of 1970 10000] lt [of 2932897] assms(2) v(2) by (simp_all add: year_starts)
  have y8: "t < 2145916800 \<longleftrightarrow> y < 2038"
  proof
    assume "t < 2145916800"
    then show "y < 2038" using year_bounds(2) [OF v(1), of 1970 2038] lt [of 24837] v(2) by (simp add: year_starts)
  next
    assume "y < 2038"
    then have "day_number y m d < days_before_year 2038"
      using day_number_strict [OF v(1)] days_before_year_mono [of "Suc y" 2038] by simp
    then show "t < 2145916800" using lt [of 24837] by (simp add: year_starts)
  qed
  have "gauss_time y (m - 1) d h mi s = Got t" using gauss_time_days [OF v(1), of h mi s] y v by simp
  then show ?thesis using that [of w "m - 1" d y h mi s] v m y y8 by simp
qed

lemma two_digit_year:
  assumes "1970 \<le> (y::nat)" "y < 2038"
  shows "y mod 100 + (if y mod 100 < 70 then 2000 else 1900) = y"
proof (cases "y < 2000")
  case True
  with assms have "y mod 100 = y - 1900" using mod_100_of_year [of 19 y] by simp
  with True assms show ?thesis by simp
next
  case False
  with assms have "y mod 100 = y - 2000" using mod_100_of_year [of 20 y] by simp
  with False assms show ?thesis by simp
qed

text \<open>
  C19. What is printed is read back: the date that \<open>ngx_http_time\<close> writes for a time before the
  year 10000 is parsed by \<open>ngx_parse_http_time\<close> into that time, and so is the cookie date of
  \<open>ngx_http_cookie_time\<close> for a time before 2038. From 2038 on the cookie date has a year of four
  digits, which \<open>ngx_parse_http_time\<close> refuses (the result is \<open>NGX_ERROR\<close>).
\<close>

theorem http_time_roundtrip:
  assumes "0 \<le> t" "t < 253402300800"
  shows "(\<exists>date. ngx_http_time t = Some date \<and> ngx_parse_http_time date = Some t) \<and>
    (\<exists>date. ngx_http_cookie_time t = Some date \<and>
      ngx_parse_http_time date = Some (if t < 2145916800 then t else - 1))"
proof -
  from printed_parts [OF assms] obtain y m d w h mi s where
    v: "w < 7" "m < 12" "d < 100" "1970 \<le> y" "y < 10000" "h < 100" "mi < 100" "s < 100"
    "ngx_gmtime t = \<lparr> tm_sec = int s, tm_min = int mi, tm_hour = int h,
      tm_mday = int d, tm_mon = int (Suc m), tm_year = int y, tm_wday = int w \<rparr>"
    "gauss_time y m d h mi s = Got t" "t < 2145916800 \<longleftrightarrow> y < 2038" .
  have "ngx_http_time t = Some (http_date (week ! w) d (months ! m) y h mi s)"
    using print_http_date [of w m d y h mi s] v by (simp add: ngx_http_time_def Let_def)
  moreover have "ngx_parse_http_time (http_date (week ! w) d (months ! m) y h mi s) = Some t"
    using read_http_date [of w m d y h mi s] v by (simp add: ngx_parse_http_time_def)
  moreover have "ngx_http_cookie_time t = Some (if y < 2038 then cookie_date (week ! w) d (months ! m) (y mod 100) h mi s
      else late_cookie_date (week ! w) d (months ! m) y h mi s)"
    using print_cookie_date [of w m d "y mod 100" h mi s] print_late_cookie_date [of w m d y h mi s] v
    by (simp add: ngx_http_cookie_time_def Let_def zmod_int)
  moreover have "ngx_parse_http_time (cookie_date (week ! w) d (months ! m) (y mod 100) h mi s) = Some t" if "y < 2038"
    using read_cookie_date [of w m d "y mod 100" h mi s] two_digit_year [of y] that v by (simp add: ngx_parse_http_time_def)
  moreover have "ngx_parse_http_time (late_cookie_date (week ! w) d (months ! m) y h mi s) = Some (- 1)"
    using read_late_cookie_date [of w m d y h mi s] v by (simp add: ngx_parse_http_time_def)
  ultimately show ?thesis using v(11) by simp
qed

theorem http_time_roundtrip_witness:
  "ngx_http_time 784111777 = Some (bytes_of ''Sun, 06 Nov 1994 08:49:37 GMT'') \<and>
   ngx_parse_http_time (bytes_of ''Sun, 06 Nov 1994 08:49:37 GMT'') = Some 784111777"
proof -
  have "ngx_gmtime 784111777 = \<lparr> tm_sec = 37, tm_min = 49, tm_hour = 8, tm_mday = 6, tm_mon = 11, tm_year = 1994, tm_wday = 0 \<rparr>"
    by (simp add: ngx_gmtime_def split_days_def Let_def to_int_def)
  then have "ngx_http_time 784111777 = Some (bytes_of ''Sun, 06 Nov 1994 08:49:37 GMT'')"
    using print_http_date [of 0 10 6 1994 8 49 37]
    by (simp add: ngx_http_time_def Let_def http_date_def week_def months_def two_def four_def digit_char_def)
  then show ?thesis using http_time_roundtrip [of 784111777] by simp
qed

text \<open>
  \<open>ngx_parse_http_time\<close> never reads at or beyond the end of its input, whatever the input is;
  and a date whose fields are in range is converted to the number of seconds that the calendar
  gives it (the formula is exact for the years 1 to 9999).
\<close>

theorem parse_http_time_safe:
  "ngx_parse_http_time v \<noteq> None \<and>
   (valid_date y m d \<and> 1 \<le> y \<and> y < 10000 \<and> h < 24 \<and> mi < 60 \<and> s < 60 \<longrightarrow>
     gauss_time y (m - 1) d h mi s =
       Got ((int (day_number y m d) - int (day_number 1970 1 1)) * 86400 + int h * 3600 + int mi * 60 + int s))"
  using read_http_time_inside [of v] gauss_time_days [of y m d h mi s]
  by (auto simp: ngx_parse_http_time_def split: read.split)

theorem parse_http_time_safe_witness:
  "ngx_parse_http_time [] \<noteq> None \<and> gauss_time 2000 1 29 0 0 0 = Got 951782400"
proof -
  have "valid_date 2000 2 29" by (simp add: valid_date_def month_length_def leap_year_def)
  moreover have "day_number 2000 2 29 = 730544"
    using days_before_year_eq [of 1999] by (simp add: day_number_def gauss_year_def month_length_def mday_def)
  ultimately show ?thesis using parse_http_time_safe [of "[]" 2000 2 29 0 0 0] by simp
qed

text \<open>
  The day 0 of a month is accepted as a date (it is read as the last day of the month
  before), because only an upper bound is checked.
\<close>

theorem day_zero_accepted:
  "ngx_parse_http_time (bytes_of ''Sun, 00 Nov 1994 08:49:37 GMT'') =
   ngx_parse_http_time (bytes_of ''Mon, 31 Oct 1994 08:49:37 GMT'')"
  by code_simp

end
