(* ===== verification/Ngx_Strings.thy ===== *)
theory Ngx_Strings
  imports Prelude
begin

text \<open>
  Comparing and searching strings that end with a NUL, from \<^verbatim>\<open>src/core/ngx_string.c\<close>:
  \<open>ngx_strncasecmp\<close>, \<open>ngx_strstrn\<close> and \<open>ngx_strcasestrn\<close>. A string is the bytes before its NUL;
  reading behind them gives the NUL. The lemmas show that the two searches find the first occurrence
  of the word that their callers look for, and no other.
\<close>

section \<open>Comparison\<close>

text \<open>The byte that \<open>*p\<close> reads in a string that ends with a NUL.\<close>

definition peek :: "bytes \<Rightarrow> u8" where
  "peek p = (case p of [] \<Rightarrow> NUL | c # _ \<Rightarrow> c)"

definition lower :: "u8 \<Rightarrow> u8" where
  "lower c = (if c \<ge> ch_A \<and> c \<le> ch_Z then c OR 0x20 else c)"

fun ngx_strncasecmp :: "bytes \<Rightarrow> bytes \<Rightarrow> nat \<Rightarrow> int" where
  "ngx_strncasecmp s1 s2 0 = 0"
| "ngx_strncasecmp s1 s2 (Suc n) =
     (let c1 = lower (peek s1); c2 = lower (peek s2) in
      if c1 = c2 then (if c1 \<noteq> NUL then ngx_strncasecmp (tl s1) (tl s2) n else 0)
      else uint c1 - uint c2)"

text \<open>\<open>strncmp\<close> of the C library, which \<open>ngx_strncmp\<close> is.\<close>

fun ngx_strncmp :: "bytes \<Rightarrow> bytes \<Rightarrow> nat \<Rightarrow> int" where
  "ngx_strncmp s1 s2 0 = 0"
| "ngx_strncmp s1 s2 (Suc n) =
     (let c1 = peek s1; c2 = peek s2 in
      if c1 = c2 then (if c1 \<noteq> NUL then ngx_strncmp (tl s1) (tl s2) n else 0)
      else uint c1 - uint c2)"

section \<open>Search\<close>

text \<open>
  \<open>c2\<close> is the first byte of the word and \<open>s2\<close> the rest of it; the result is the string from the
  place that was found on, \<open>None\<close> for \<open>NULL\<close>.
\<close>

fun strstrn_loop :: "u8 \<Rightarrow> bytes \<Rightarrow> nat \<Rightarrow> bytes \<Rightarrow> bytes option" where
  "strstrn_loop c2 s2 n [] = None"
| "strstrn_loop c2 s2 n (c1 # s1) =
     (if c1 = NUL then None
      else if c1 \<noteq> c2 then strstrn_loop c2 s2 n s1
      else if ngx_strncmp s1 s2 n \<noteq> 0 then strstrn_loop c2 s2 n s1
      else Some (c1 # s1))"

definition ngx_strstrn :: "bytes \<Rightarrow> bytes \<Rightarrow> nat \<Rightarrow> bytes option" where
  "ngx_strstrn s1 s2 n = strstrn_loop (peek s2) (tl s2) n s1"

fun strcasestrn_loop :: "u8 \<Rightarrow> bytes \<Rightarrow> nat \<Rightarrow> bytes \<Rightarrow> bytes option" where
  "strcasestrn_loop c2 s2 n [] = None"
| "strcasestrn_loop c2 s2 n (c1 # s1) =
     (if c1 = NUL then None
      else if lower c1 \<noteq> c2 then strcasestrn_loop c2 s2 n s1
      else if ngx_strncasecmp s1 s2 n \<noteq> 0 then strcasestrn_loop c2 s2 n s1
      else Some (c1 # s1))"

definition ngx_strcasestrn :: "bytes \<Rightarrow> bytes \<Rightarrow> nat \<Rightarrow> bytes option" where
  "ngx_strcasestrn s1 s2 n = strcasestrn_loop (lower (peek s2)) (tl s2) n s1"

section \<open>The first occurrence\<close>

lemma peek_simps [simp]: "peek [] = NUL" "peek (c # s) = c"
  by (simp_all add: peek_def)

lemma lower_NUL [simp]: "lower NUL = NUL" "lower c = NUL \<longleftrightarrow> c = NUL"
proof -
  have "\<forall>c. lower c = NUL \<longleftrightarrow> c = NUL" unfolding all_bytes by (simp add: lower_def)
  then show "lower c = NUL \<longleftrightarrow> c = NUL" by blast
qed (simp add: lower_def)

lemma uint_diff_zero [simp]: "uint a - uint b = 0 \<longleftrightarrow> a = b" "uint a = 0 \<longleftrightarrow> a = 0" for a b :: u8
  by (auto simp: word_uint_eq_iff)

lemma strncmp_prefix:
  assumes "NUL \<notin> set s2"
  shows "ngx_strncmp s1 s2 (length s2) = 0 \<longleftrightarrow> take (length s2) s1 = s2"
  using assms
proof (induction s2 arbitrary: s1)
  case (Cons c s2)
  then show ?case by (cases s1) (auto simp: Let_def simp del: right_minus_eq eq_iff_diff_eq_0)
qed simp

lemma strncasecmp_prefix:
  assumes "NUL \<notin> set s2"
  shows "ngx_strncasecmp s1 s2 (length s2) = 0 \<longleftrightarrow> map lower (take (length s2) s1) = map lower s2"
  using assms
proof (induction s2 arbitrary: s1)
  case (Cons c s2)
  then show ?case by (cases s1) (auto simp: Let_def simp del: right_minus_eq eq_iff_diff_eq_0)
qed simp

lemma strncmp_cons: "NUL \<notin> set w \<Longrightarrow> w \<noteq> [] \<Longrightarrow>
    take (length w) (c # s) = w \<longleftrightarrow> c = peek w \<and> ngx_strncmp s (tl w) (length w - 1) = 0"
  using strncmp_prefix [of "tl w" s] by (cases w) auto

lemma strncasecmp_cons: "NUL \<notin> set w \<Longrightarrow> w \<noteq> [] \<Longrightarrow>
    map lower (take (length w) (c # s)) = map lower w \<longleftrightarrow>
    lower c = lower (peek w) \<and> ngx_strncasecmp s (tl w) (length w - 1) = 0"
  using strncasecmp_prefix [of "tl w" s] by (cases w) auto

lemma strstrn_first:
  assumes "NUL \<notin> set w" "w \<noteq> []" "NUL \<notin> set s"
  shows "case ngx_strstrn s w (length w - 1) of
      None \<Rightarrow> \<nexists>pre post. s = pre @ w @ post
    | Some t \<Rightarrow> \<exists>pre post. s = pre @ t \<and> t = w @ post \<and> (\<forall>pre' post'. s = pre' @ w @ post' \<longrightarrow> length pre \<le> length pre')"
  using assms(3)
proof (induction s)
  case Nil
  with assms(2) show ?case by (simp add: ngx_strstrn_def)
next
  case (Cons c s)
  show ?case
  proof (cases "take (length w) (c # s) = w")
    case True
    then have t: "ngx_strstrn (c # s) w (length w - 1) = Some (c # s)"
      using strncmp_cons [OF assms(1,2), of c s] Cons.prems by (simp add: ngx_strstrn_def)
    have "c # s = w @ drop (length w) (c # s)" using True append_take_drop_id by metis
    with t show ?thesis by fastforce
  next
    case False
    then have step: "ngx_strstrn (c # s) w (length w - 1) = ngx_strstrn s w (length w - 1)"
      using strncmp_cons [OF assms(1,2), of c s] Cons.prems by (auto simp: ngx_strstrn_def)
    have tl: "\<exists>pre2. pre' = c # pre2 \<and> s = pre2 @ w @ post'" if h: "c # s = pre' @ w @ post'" for pre' post'
      using h False by (cases pre') auto
    show ?thesis
    proof (cases "ngx_strstrn s w (length w - 1)")
      case None
      with Cons step tl show ?thesis by fastforce
    next
      case (Some t)
      with Cons obtain pre post where p: "s = pre @ t" "t = w @ post"
        "\<forall>pre' post'. s = pre' @ w @ post' \<longrightarrow> length pre \<le> length pre'" by auto
      have "length (c # pre) \<le> length pre'" if h: "c # s = pre' @ w @ post'" for pre' post'
        using tl [OF h] p(3) by auto
      moreover have "c # s = (c # pre) @ t" using p(1) by simp
      ultimately show ?thesis unfolding step Some option.case using p(2) by blast
    qed
  qed
qed

text \<open>Whether a word occurs, in any mixture of cases.\<close>

lemma strcasestrn_occurs:
  assumes "NUL \<notin> set w" "w \<noteq> []" "NUL \<notin> set s"
  shows "ngx_strcasestrn s w (length w - 1) \<noteq> None \<longleftrightarrow> (\<exists>pre post. map lower s = pre @ map lower w @ post)"
  using assms(3)
proof (induction s)
  case Nil
  with assms(2) show ?case by (simp add: ngx_strcasestrn_def)
next
  case (Cons c s)
  show ?case
  proof (cases "map lower (take (length w) (c # s)) = map lower w")
    case True
    then have "ngx_strcasestrn (c # s) w (length w - 1) = Some (c # s)"
      using strncasecmp_cons [OF assms(1,2), of c s] Cons.prems by (simp add: ngx_strcasestrn_def)
    moreover have "map lower (c # s) = [] @ map lower w @ map lower (drop (length w) (c # s))"
      using True append_take_drop_id map_append by (metis append_Nil)
    ultimately show ?thesis by blast
  next
    case False
    then have step: "ngx_strcasestrn (c # s) w (length w - 1) = ngx_strcasestrn s w (length w - 1)"
      using strncasecmp_cons [OF assms(1,2), of c s] Cons.prems by (auto simp: ngx_strcasestrn_def)
    have "map lower (take (length w) (c # s)) = take (length w) (map lower (c # s))" by (simp only: take_map)
    with False have tl: "\<exists>pre2. pre' = lower c # pre2 \<and> map lower s = pre2 @ map lower w @ post'"
      if h: "map lower (c # s) = pre' @ map lower w @ post'" for pre' post'
      using h by (cases pre') auto
    have "map lower (c # s) = (lower c # pre') @ map lower w @ post'" if h: "map lower s = pre' @ map lower w @ post'" for pre' post'
      using h by simp
    with Cons step tl show ?thesis by fastforce
  qed
qed

end
