(* ===== verification/Http_Range.thy ===== *)
theory Http_Range
  imports Ngx_Time Ngx_Strings
begin

text \<open>
  The range filter, \<^verbatim>\<open>src/http/modules/ngx_http_range_filter_module.c\<close>: the header filter with
  \<open>ngx_http_range_parse\<close>, the single part and multipart headers, and the body filters that cut the
  ranges out of the buffers of a response. The functions that answer by calling the next filter
  return what they pass to it. A failing allocation makes every one of them return \<open>NGX_ERROR\<close> at
  once; these branches are left out.

  The lemmas show that an accepted set of ranges lies inside the resource and is no larger than
  it (the sum of the sizes cannot overflow, whatever the client sends), that a well-formed header is
  understood as written, that the single part filter passes on exactly the bytes of the range
  however the body is cut into buffers and calls, and that the announced length of a multipart
  answer is the number of bytes sent.
\<close>

section \<open>Parsing the header\<close>

type_synonym http_range = "int \<times> int"

text \<open>The value that a computation leaves in an \<open>off_t\<close>, in two's complement.\<close>

definition off_t :: "int \<Rightarrow> int" where
  "off_t x = (x + 2 ^ 63) mod 2 ^ 64 - 2 ^ 63"

text \<open>
  The two loops over digits; \<open>None\<close> is the test against \<open>cutoff\<close> and \<open>cutlim\<close>. The expression
  \<open>start * 10 + *p - '0'\<close> is evaluated from left to right.
\<close>

fun range_digits :: "int \<Rightarrow> bytes \<Rightarrow> (int \<times> bytes) option" where
  "range_digits n [] = Some (n, [])"
| "range_digits n (c # p) =
     (if c \<ge> ch_0 \<and> c \<le> ch_9 then
        if n \<ge> NGX_MAX_OFF_T_VALUE div 10 \<and>
           (n > NGX_MAX_OFF_T_VALUE div 10 \<or> uint c - 48 > NGX_MAX_OFF_T_VALUE mod 10)
        then None
        else range_digits (off_t (off_t (off_t (n * 10) + uint c) - 48)) p
      else Some (n, c # p))"

definition skip_sp :: "bytes \<Rightarrow> bytes" where
  "skip_sp p = dropWhile (\<lambda>c. c = SP) p"

text \<open>
  The second half of the body of the loop, from the digits of \<open>end\<close> on; the result is \<open>start\<close>,
  \<open>end\<close> and the rest, \<open>None\<close> the return of \<open>NGX_HTTP_RANGE_NOT_SATISFIABLE\<close>.
\<close>

definition range_end :: "int \<Rightarrow> int \<Rightarrow> bool \<Rightarrow> bytes \<Rightarrow> (int \<times> int \<times> bytes) option" where
  "range_end content_length start suffix p =
     (if peek p < ch_0 \<or> peek p > ch_9 then None
      else case range_digits 0 p of
        None \<Rightarrow> None
      | Some (end', p) \<Rightarrow>
          let p = skip_sp p in
          if peek p \<noteq> ch_comma \<and> peek p \<noteq> NUL then None
          else
            let (start, end') = (if suffix then (content_length - end', content_length - 1) else (start, end'));
                end' = (if end' \<ge> content_length then content_length else end' + 1)
            in Some (start, end', p))"

definition range_one :: "int \<Rightarrow> bytes \<Rightarrow> (int \<times> int \<times> bytes) option" where
  "range_one content_length p =
     (let p = skip_sp p in
      if peek p \<noteq> ch_minus then
        (if peek p < ch_0 \<or> peek p > ch_9 then None
         else case range_digits 0 p of
           None \<Rightarrow> None
         | Some (start, p) \<Rightarrow>
             let p = skip_sp p in
             if peek p \<noteq> ch_minus then None
             else
               let p = skip_sp (tl p) in
               if peek p = ch_comma \<or> peek p = NUL then Some (start, content_length, p)
               else range_end content_length start False p)
      else range_end content_length 0 True (tl p))"

lemma off_t_fits: "- (2 ^ 63) \<le> x \<Longrightarrow> x < 2 ^ 63 \<Longrightarrow> off_t x = x"
  by (simp add: off_t_def)

lemma off_t_digit:
  assumes "0 \<le> n" "n * 10 + (d - 48) \<le> NGX_MAX_OFF_T_VALUE" "48 \<le> d"
  shows "off_t (off_t (off_t (n * 10) + d) - 48) = n * 10 + (d - 48)"
proof -
  have "off_t (off_t (off_t (n * 10) + d) - 48) = off_t (n * 10 + d - 48)"
    unfolding off_t_def by (simp add: mod_simps algebra_simps)
  also have "\<dots> = n * 10 + (d - 48)" using assms by (subst off_t_fits) (simp_all add: ngx_limits)
  finally show ?thesis .
qed

lemma range_digits_length: "range_digits n p = Some (m, p') \<Longrightarrow> length p' \<le> length p"
  by (induction p arbitrary: n) (fastforce split: if_splits)+

lemma skip_sp_length: "length (skip_sp p) \<le> length p"
  by (simp add: skip_sp_def length_dropWhile_le)

lemma range_end_length: "range_end cl s suffix p = Some (s', e, p') \<Longrightarrow> length p' \<le> length p"
  using skip_sp_length range_digits_length
  by (fastforce simp: range_end_def Let_def split: if_splits option.splits intro: order_trans)

lemma range_one_length:
  assumes "range_one cl p = Some (s, e, p')"
  shows "length p' \<le> length p"
proof -
  define q where "q = skip_sp p"
  have q: "length q \<le> length p" by (simp add: q_def skip_sp_length)
  show ?thesis
  proof (cases "peek q = ch_minus")
    case True
    with assms have "range_end cl 0 True (tl q) = Some (s, e, p')" by (simp add: range_one_def Let_def q_def)
    from range_end_length [OF this] q show ?thesis by simp
  next
    case False
    with assms obtain n r where r: "range_digits 0 q = Some (n, r)"
      by (auto simp: range_one_def Let_def q_def split: if_splits option.splits)
    define u where "u = skip_sp (tl (skip_sp r))"
    have "length u \<le> length q"
      using skip_sp_length [of "tl (skip_sp r)"] skip_sp_length [of r] range_digits_length [OF r] by (simp add: u_def)
    moreover have "p' = u \<or> range_end cl n False u = Some (s, e, p')"
      using assms False r by (auto simp: range_one_def Let_def q_def u_def split: if_splits)
    ultimately show ?thesis using range_end_length q by fastforce
  qed
qed

text \<open>
  The loop. \<open>acc\<close> is \<open>ctx->ranges\<close>. A range is pushed before the sizes are added and the number
  of ranges is checked.
\<close>

function range_loop :: "int \<Rightarrow> nat \<Rightarrow> http_range list \<Rightarrow> int \<Rightarrow> bytes \<Rightarrow> ngx_rc \<times> http_range list" where
  "range_loop content_length ranges acc sz p =
     (case range_one content_length p of
        None \<Rightarrow> (NGX_HTTP_STATUS 416, acc)
      | Some (start, end', p) \<Rightarrow>
          let push = start < end' in
          let acc = (if push then acc @ [(start, end')] else acc) in
          if push \<and> sz > NGX_MAX_OFF_T_VALUE - (end' - start) then (NGX_HTTP_STATUS 416, acc)
          else
            let sz = (if push then sz + (end' - start) else sz) in
            if push \<and> ranges = 0 then (NGX_DECLINED, acc)
            else
              let ranges = (if push then ranges - 1 else ranges) in
              if peek p = ch_comma then range_loop content_length ranges acc sz (tl p)
              else if acc = [] then (NGX_HTTP_STATUS 416, acc)
              else if sz > content_length then (NGX_DECLINED, acc)
              else (NGX_OK, acc))"
  by pat_completeness auto
termination
proof (relation "measure (\<lambda>(cl, ranges, acc, sz, p). length p)", simp, goal_cases)
  case (1 cl ranges acc sz p a start b end' q)
  then have "range_one cl p = Some (start, end', q)" "peek q = ch_comma" by auto
  then have "length q \<le> length p" "q \<noteq> []" using range_one_length by (auto simp: peek_def)
  then show ?case by (cases q) auto
qed

declare range_loop.simps [simp del]

section \<open>The header filter\<close>

record range_req =
  http_version :: nat
  status :: nat
  is_main :: bool
  subrequest_ranges :: bool
  content_length_n :: int
  allow_ranges :: bool
  max_ranges :: nat
  in_range :: "bytes option"
  in_if_range :: "bytes option"
  etag :: "bytes option"
  last_modified_time :: int
  single_range :: bool
  content_offset :: int
  content_type :: bytes
  content_type_len :: nat
  charset :: bytes
  content_range :: "bytes option"
  accept_ranges :: bool

record range_ctx =
  offset :: int
  boundary_header :: bytes
  ranges_of :: "(http_range \<times> bytes) list"

text \<open>\<open>mctx\<close> are the ranges that the main request has, when there is a context of it.\<close>

definition ngx_http_range_parse :: "range_req \<Rightarrow> http_range list option \<Rightarrow> nat \<Rightarrow> ngx_rc \<times> http_range list" where
  "ngx_http_range_parse r mctx ranges =
     (case (if is_main r then None else mctx) of
        Some rs \<Rightarrow> (NGX_OK, rs)
      | None \<Rightarrow> range_loop (content_length_n r) ranges [] 0 (drop 6 (the (in_range r))))"

datatype filtered = Next_filter range_req | Return ngx_rc range_req

definition ngx_http_range_singlepart_header :: "range_req \<Rightarrow> http_range \<Rightarrow> filtered" where
  "ngx_http_range_singlepart_header r rg =
     (if \<not> is_main r then Next_filter r
      else case rg of (start, end') \<Rightarrow>
        Next_filter (r\<lparr>content_range := ngx_sprintf (bytes_of ''bytes %O-%O/%O'')
                                          [arg_int start, arg_int (end' - 1), arg_int (content_length_n r)],
                       content_length_n := end' - start,
                       content_offset := start\<rparr>))"

text \<open>\<open>%0muA\<close> prints the boundary with leading zeros to \<open>NGX_ATOMIC_T_LEN\<close> digits.\<close>

definition boundary_header_of :: "range_req \<Rightarrow> u64 \<Rightarrow> bytes option" where
  "boundary_header_of r boundary =
     (if content_type_len r = length (content_type r) \<and> charset r \<noteq> [] then
        ngx_sprintf ([CR, LF] @ bytes_of ''--%0muA'' @ [CR, LF] @ bytes_of ''Content-Type: %V; charset=%V'' @ [CR, LF]
                     @ bytes_of ''Content-Range: bytes '')
          [Arg_int boundary, Arg_str (content_type r), Arg_str (charset r)]
      else if content_type r \<noteq> [] then
        ngx_sprintf ([CR, LF] @ bytes_of ''--%0muA'' @ [CR, LF] @ bytes_of ''Content-Type: %V'' @ [CR, LF]
                     @ bytes_of ''Content-Range: bytes '')
          [Arg_int boundary, Arg_str (content_type r)]
      else
        ngx_sprintf ([CR, LF] @ bytes_of ''--%0muA'' @ [CR, LF] @ bytes_of ''Content-Range: bytes '') [Arg_int boundary])"

definition range_line :: "int \<Rightarrow> http_range \<Rightarrow> bytes option" where
  "range_line content_length rg =
     ngx_sprintf (bytes_of ''%O-%O/%O'' @ [CR, LF, CR, LF])
       [arg_int (fst rg), arg_int (snd rg - 1), arg_int content_length]"

definition multipart_len :: "bytes \<Rightarrow> (http_range \<times> bytes) list \<Rightarrow> int" where
  "multipart_len header rs =
     4 + int NGX_ATOMIC_T_LEN + 4 +
     (\<Sum>(rg, line) \<leftarrow> rs. int (length header) + int (length line) + (snd rg - fst rg))"

definition ngx_http_range_multipart_header :: "range_req \<Rightarrow> u64 \<Rightarrow> range_ctx \<Rightarrow> filtered \<times> range_ctx" where
  "ngx_http_range_multipart_header r boundary ctx =
     (let header = the (boundary_header_of r boundary);
          rs = map (\<lambda>(rg, _). (rg, the (range_line (content_length_n r) rg))) (ranges_of ctx);
          ctype = the (ngx_sprintf (bytes_of ''multipart/byteranges; boundary=%0muA'') [Arg_int boundary])
      in (Next_filter (r\<lparr>content_type := ctype, content_type_len := length ctype, charset := [],
                        content_length_n := multipart_len header rs\<rparr>),
          ctx\<lparr>boundary_header := header, ranges_of := rs\<rparr>))"

definition ngx_http_range_not_satisfiable :: "range_req \<Rightarrow> filtered" where
  "ngx_http_range_not_satisfiable r =
     Return (NGX_HTTP_STATUS 416)
       (r\<lparr>status := 416,
         content_range := ngx_sprintf (bytes_of ''bytes */%O'') [arg_int (content_length_n r)],
         content_length_n := - 1\<rparr>)"

text \<open>The tests of \<open>If-Range\<close>: an entity tag, or a date.\<close>

definition if_range_fails :: "range_req \<Rightarrow> bool" where
  "if_range_fails r =
     (case in_if_range r of
        None \<Rightarrow> False
      | Some ir \<Rightarrow>
          if length ir \<ge> 2 \<and> last ir = ch_dquote then
            (case etag r of None \<Rightarrow> True | Some e \<Rightarrow> ir \<noteq> e)
          else
            last_modified_time r = - 1 \<or> ngx_parse_http_time ir \<noteq> Some (last_modified_time r))"

definition ngx_http_range_header_filter ::
  "u64 \<Rightarrow> http_range list option \<Rightarrow> range_req \<Rightarrow> filtered \<times> range_ctx option" where
  "ngx_http_range_header_filter boundary mctx r =
     (if http_version r < 1000 \<or> status r \<noteq> 200 \<or> (\<not> is_main r \<and> \<not> subrequest_ranges r)
         \<or> content_length_n r = - 1 \<or> \<not> allow_ranges r
      then (Next_filter r, None)
      else if max_ranges r = 0 then (Next_filter r, None)
      else
        let next_filter = (Next_filter (r\<lparr>accept_ranges := True\<rparr>), None) in
        case in_range r of
          None \<Rightarrow> next_filter
        | Some v \<Rightarrow>
            if length v < 7 \<or> ngx_strncasecmp v (bytes_of ''bytes='') 6 \<noteq> 0 then next_filter
            else if if_range_fails r then next_filter
            else
              case ngx_http_range_parse r mctx (if single_range r then 1 else max_ranges r) of
                (NGX_OK, rs) \<Rightarrow>
                  let r = r\<lparr>status := 206\<rparr>;
                      ctx = \<lparr> offset = content_offset r, boundary_header = [], ranges_of = map (\<lambda>x. (x, [])) rs \<rparr>
                  in if length rs = 1 then (ngx_http_range_singlepart_header r (hd rs), Some ctx)
                     else (case ngx_http_range_multipart_header r boundary ctx of (f, ctx) \<Rightarrow> (f, Some ctx))
              | (NGX_HTTP_STATUS n, rs) \<Rightarrow> (ngx_http_range_not_satisfiable r, None)
              | (NGX_ERROR, rs) \<Rightarrow> (Return NGX_ERROR r, None)
              | _ \<Rightarrow> next_filter)"

section \<open>The body filter\<close>

text \<open>
  A buffer: whether its contents are in memory or in a file, the contents between the two
  pointers, and the flags. When both are present the code moves both pairs of pointers alike.
\<close>

record rbuf =
  in_memory :: bool
  in_file :: bool
  contents :: bytes
  flush :: bool
  sync :: bool
  last_buf :: bool
  last_in_chain :: bool

definition ngx_buf_special :: "rbuf \<Rightarrow> bool" where
  "ngx_buf_special b \<longleftrightarrow> (flush b \<or> last_buf b \<or> sync b) \<and> \<not> in_memory b \<and> \<not> in_file b"

definition ngx_buf_size :: "rbuf \<Rightarrow> int" where
  "ngx_buf_size b = int (length (contents b))"

text \<open>
  The loop over the chain. A buffer that is skipped is emptied; it leaves the chain unless a
  buffer before it was kept and none after it is (\<open>*ll\<close> is not changed), which is what
  \<open>pending\<close> is for.
\<close>

fun singlepart_loop :: "bool \<Rightarrow> http_range \<Rightarrow> int \<Rightarrow> rbuf list \<Rightarrow> rbuf list \<Rightarrow> rbuf list \<Rightarrow> int \<times> rbuf list" where
  "singlepart_loop main rg off out pending [] = (off, if out = [] then [] else out @ pending)"
| "singlepart_loop main rg off out pending (buf # cl) =
     (let start = off; last = off + ngx_buf_size buf in
      if ngx_buf_special buf then singlepart_loop main rg last (out @ [buf]) [] cl
      else if snd rg \<le> start \<or> fst rg \<ge> last then
        singlepart_loop main rg last out (pending @ [buf\<lparr>contents := [], sync := True\<rparr>]) cl
      else
        let n = (if fst rg > start then fst rg - start else 0);
            buf = buf\<lparr>contents := drop (nat n) (contents buf)\<rparr>
        in if snd rg \<le> last then
             (last, out @ [buf\<lparr>contents := take (length (contents buf) - nat (last - snd rg)) (contents buf),
                               last_buf := main, last_in_chain := True\<rparr>])
           else singlepart_loop main rg last (out @ [buf]) [] cl)"

definition ngx_http_range_singlepart_body :: "bool \<Rightarrow> range_ctx \<Rightarrow> rbuf list \<Rightarrow> range_ctx \<times> rbuf list" where
  "ngx_http_range_singlepart_body main ctx chain =
     (case singlepart_loop main (fst (hd (ranges_of ctx))) (offset ctx) [] [] chain of
        (off, out) \<Rightarrow> (ctx\<lparr>offset := off\<rparr>, out))"

definition ngx_http_range_test_overlapped :: "range_ctx \<Rightarrow> rbuf \<Rightarrow> range_ctx option" where
  "ngx_http_range_test_overlapped ctx buf =
     (if offset ctx \<noteq> 0 then None
      else if \<not> last_buf buf \<and>
              list_ex (\<lambda>(rg, _). offset ctx > fst rg \<or> offset ctx + ngx_buf_size buf < snd rg) (ranges_of ctx)
      then None
      else Some (ctx\<lparr>offset := ngx_buf_size buf\<rparr>))"

definition memory_buf :: "bytes \<Rightarrow> rbuf" where
  "memory_buf d = \<lparr> in_memory = True, in_file = False, contents = d, flush = False, sync = False,
                   last_buf = False, last_in_chain = False \<rparr>"

definition range_part :: "range_ctx \<Rightarrow> rbuf \<Rightarrow> http_range \<times> bytes \<Rightarrow> rbuf list" where
  "range_part ctx buf part =
     (case part of ((start, end'), line) \<Rightarrow>
        [memory_buf (boundary_header ctx), memory_buf line,
         \<lparr> in_memory = in_memory buf, in_file = in_file buf,
           contents = take (nat end' - nat start) (drop (nat start) (contents buf)),
           flush = False, sync = False, last_buf = False, last_in_chain = False \<rparr>])"

definition ngx_http_range_multipart_body :: "range_ctx \<Rightarrow> rbuf \<Rightarrow> rbuf list" where
  "ngx_http_range_multipart_body ctx buf =
     concat (map (range_part ctx buf) (ranges_of ctx)) @
     [(memory_buf (take (4 + NGX_ATOMIC_T_LEN) (boundary_header ctx) @ [ch_minus, ch_minus, CR, LF]))\<lparr>last_buf := True\<rparr>]"

text \<open>\<open>None\<close> is \<open>NGX_ERROR\<close>; otherwise the context and the chain given to the next filter.\<close>

definition ngx_http_range_body_filter ::
  "bool \<Rightarrow> range_ctx option \<Rightarrow> rbuf list \<Rightarrow> (range_ctx option \<times> rbuf list) option" where
  "ngx_http_range_body_filter main ctx chain =
     (case (chain, ctx) of
        ([], _) \<Rightarrow> Some (ctx, chain)
      | (_, None) \<Rightarrow> Some (ctx, chain)
      | (buf # _, Some c) \<Rightarrow>
          if length (ranges_of c) = 1 then
            (case ngx_http_range_singlepart_body main c chain of (c, out) \<Rightarrow> Some (Some c, out))
          else if ngx_buf_special buf then Some (ctx, chain)
          else case ngx_http_range_test_overlapped c buf of
                 None \<Rightarrow> None
               | Some c \<Rightarrow> Some (Some c, ngx_http_range_multipart_body c buf))"

section \<open>Accepted ranges\<close>

lemma range_digits_bounds:
  "range_digits n p = Some (m, p') \<Longrightarrow> 0 \<le> n \<Longrightarrow> n \<le> NGX_MAX_OFF_T_VALUE \<Longrightarrow> n \<le> m \<and> m \<le> NGX_MAX_OFF_T_VALUE"
proof (induction p arbitrary: n)
  case (Cons c p)
  show ?case
  proof (cases "c \<ge> ch_0 \<and> c \<le> ch_9")
    case True
    then have d: "0 \<le> uint c - 48" "uint c - 48 \<le> 9" using digit_val_bounds [of c] by (simp_all add: is_digit_def digit_val_def)
    note cut = dec_cutoff [OF ngx_limits_nonneg(3) d, of n]
    from Cons.prems(1) True cut have le: "n * 10 + (uint c - 48) \<le> NGX_MAX_OFF_T_VALUE"
      and run: "range_digits (off_t (off_t (off_t (n * 10) + uint c) - 48)) p = Some (m, p')"
      unfolding range_digits.simps if_P [OF True] by (auto simp del: not_le split: if_splits)
    have "off_t (off_t (off_t (n * 10) + uint c) - 48) = n * 10 + (uint c - 48)"
      using le d Cons.prems(2) by (intro off_t_digit) simp_all
    with Cons.IH [OF run] Cons.prems(2) d le show ?thesis by simp
  qed (use Cons.prems in auto)
qed auto

definition span_ok :: "int \<Rightarrow> http_range \<Rightarrow> bool" where
  "span_ok cl rg \<longleftrightarrow> snd rg \<le> cl \<and> (0 \<le> fst rg \<or> snd rg = cl) \<and> - NGX_MAX_OFF_T_VALUE \<le> fst rg \<and>
     fst rg \<le> NGX_MAX_OFF_T_VALUE \<and> snd rg - fst rg \<le> NGX_MAX_OFF_T_VALUE"

lemma range_end_span:
  assumes "range_end cl s suffix p = Some (s', e, p')" "0 \<le> s" "s \<le> NGX_MAX_OFF_T_VALUE" "0 \<le> cl" "cl \<le> NGX_MAX_OFF_T_VALUE"
  shows "span_ok cl (s', e)"
proof -
  from assms(1) obtain n q where n: "range_digits 0 p = Some (n, q)"
    by (auto simp: range_end_def split: if_splits option.splits)
  with assms(1) have "(s', e) = (if suffix then (cl - n, cl) else (s, if n \<ge> cl then cl else n + 1))"
    by (auto simp: range_end_def Let_def split: if_splits)
  with range_digits_bounds [OF n] assms(2-5) show ?thesis
    by (cases suffix) (auto simp: span_ok_def split: if_splits)
qed

lemma range_one_span:
  assumes "range_one cl p = Some (s, e, p')" "0 \<le> cl" "cl \<le> NGX_MAX_OFF_T_VALUE"
  shows "span_ok cl (s, e)"
proof (cases "peek (skip_sp p) = ch_minus")
  case True
  with assms(1) have "range_end cl 0 True (tl (skip_sp p)) = Some (s, e, p')" by (simp add: range_one_def Let_def)
  from range_end_span [OF this] assms(2,3) show ?thesis by simp
next
  case False
  with assms(1) obtain n r where r: "range_digits 0 (skip_sp p) = Some (n, r)"
    by (auto simp: range_one_def Let_def split: if_splits option.splits)
  from range_digits_bounds [OF r] have n: "0 \<le> n" "n \<le> NGX_MAX_OFF_T_VALUE" by simp_all
  from assms(1) False r have "(s, e) = (n, cl) \<or> range_end cl n False (skip_sp (tl (skip_sp r))) = Some (s, e, p')"
    by (auto simp: range_one_def Let_def split: if_splits)
  then show ?thesis
  proof
    assume "(s, e) = (n, cl)"
    with n assms(2,3) show ?thesis by (simp add: span_ok_def)
  qed (rule range_end_span [OF _ n assms(2,3)])
qed

definition spans :: "http_range list \<Rightarrow> int" where
  "spans rs = (\<Sum>rg\<leftarrow>rs. snd rg - fst rg)"

lemma spans_simps [simp]: "spans [] = 0" "spans (rs @ [rg]) = spans rs + (snd rg - fst rg)"
  "spans (rg # rs) = snd rg - fst rg + spans rs"
  by (simp_all add: spans_def)


text \<open>One round of the loop that ends in \<open>NGX_OK\<close>.\<close>

lemma range_loop_OK:
  assumes "range_loop cl n acc sz p = (NGX_OK, rs)"
  obtains s e q acc' sz' n' where "range_one cl p = Some (s, e, q)"
    "(s < e \<and> n = Suc n' \<and> acc' = acc @ [(s, e)] \<and> sz' = sz + (e - s) \<and> sz + (e - s) \<le> NGX_MAX_OFF_T_VALUE) \<or>
     (\<not> s < e \<and> n' = n \<and> acc' = acc \<and> sz' = sz)"
    "(peek q = ch_comma \<and> range_loop cl n' acc' sz' (tl q) = (NGX_OK, rs)) \<or> (acc' \<noteq> [] \<and> sz' \<le> cl \<and> rs = acc')"
proof -
  from assms obtain s e q where one: "range_one cl p = Some (s, e, q)"
    by (subst (asm) range_loop.simps) (auto split: option.splits)
  show thesis
  proof (cases "s < e")
    case True
    with assms one have n: "n \<noteq> 0" "sz + (e - s) \<le> NGX_MAX_OFF_T_VALUE"
      by (auto simp: range_loop.simps [of cl n] Let_def split: if_splits)
    show thesis
      by (rule that [OF one, of "n - 1" "acc @ [(s, e)]" "sz + (e - s)"])
        (use assms one True n in \<open>auto simp: range_loop.simps [of cl n] Let_def split: if_splits\<close>)
  next
    case False
    show thesis
      by (rule that [OF one, of n acc sz])
        (use assms one False in \<open>auto simp: range_loop.simps [of cl n acc sz p] Let_def split: if_splits\<close>)
  qed
qed

lemma range_loop_safe:
  assumes "range_loop cl n acc sz p = (NGX_OK, rs)" "0 \<le> cl" "cl \<le> NGX_MAX_OFF_T_VALUE"
    and "sz = spans acc" "\<And>rg. rg \<in> set acc \<Longrightarrow> fst rg < snd rg \<and> span_ok cl rg"
  shows "rs \<noteq> [] \<and> spans rs \<le> cl \<and> length rs \<le> length acc + n \<and> (\<forall>rg\<in>set rs. fst rg < snd rg \<and> span_ok cl rg)"
  using assms(1,4,5)
proof (induction "length p" arbitrary: n acc sz p rule: less_induct)
  case less
  from range_loop_OK [OF less.prems(1)] obtain s e q acc' sz' n' where
    one: "range_one cl p = Some (s, e, q)" and
    upd: "(s < e \<and> n = Suc n' \<and> acc' = acc @ [(s, e)] \<and> sz' = sz + (e - s) \<and> sz + (e - s) \<le> NGX_MAX_OFF_T_VALUE) \<or>
     (\<not> s < e \<and> n' = n \<and> acc' = acc \<and> sz' = sz)" and
    rest: "(peek q = ch_comma \<and> range_loop cl n' acc' sz' (tl q) = (NGX_OK, rs)) \<or> (acc' \<noteq> [] \<and> sz' \<le> cl \<and> rs = acc')" .
  note ok = range_one_span [OF one assms(2,3)]
  have inv: "sz' = spans acc'" "length acc' + n' = length acc + n" "\<And>rg. rg \<in> set acc' \<Longrightarrow> fst rg < snd rg \<and> span_ok cl rg"
    using upd ok less.prems(2,3) by auto
  from rest show ?case
  proof
    assume c: "peek q = ch_comma \<and> range_loop cl n' acc' sz' (tl q) = (NGX_OK, rs)"
    then have "length (tl q) < length p"
      using range_one_length [OF one] by (cases q) (auto simp: peek_def)
    from less.hyps [OF this conjunct2 [OF c] inv(1,3)] inv(2) show ?thesis by simp
  next
    assume "acc' \<noteq> [] \<and> sz' \<le> cl \<and> rs = acc'"
    with inv show ?thesis by auto
  qed
qed

lemma span_le_spans: "rg \<in> set rs \<Longrightarrow> (\<And>x. x \<in> set rs \<Longrightarrow> fst x < snd x) \<Longrightarrow> snd rg - fst rg \<le> spans rs"
proof (induction rs)
  case (Cons x rs)
  have "0 \<le> spans rs" using Cons.prems(2) by (force simp: spans_def intro!: sum_list_nonneg)
  with Cons show ?case by fastforce
qed simp

lemma range_parse_inside:
  assumes "range_loop cl n [] 0 p = (NGX_OK, rs)" "0 \<le> cl" "cl \<le> NGX_MAX_OFF_T_VALUE" "rg \<in> set rs"
  shows "0 \<le> fst rg \<and> fst rg < snd rg \<and> snd rg \<le> cl"
proof -
  note r = range_loop_safe [OF assms(1-3), simplified]
  have "snd rg - fst rg \<le> cl" using span_le_spans [OF assms(4)] r by force
  with r assms(4) show ?thesis by (auto simp: span_ok_def)
qed

section \<open>Well-formed headers\<close>

text \<open>Reference: the three forms of a range, what is written and what is meant.\<close>

datatype range_spec = From_to nat nat | From nat | Suffix nat

fun print_spec :: "range_spec \<Rightarrow> bytes" where
  "print_spec (From_to a b) = sprintf_dec a [] @ ch_minus # sprintf_dec b []"
| "print_spec (From a) = sprintf_dec a [] @ [ch_minus]"
| "print_spec (Suffix n) = ch_minus # sprintf_dec n []"

fun print_specs :: "range_spec list \<Rightarrow> bytes" where
  "print_specs [] = []"
| "print_specs [x] = print_spec x"
| "print_specs (x # xs) = print_spec x @ ch_comma # print_specs xs"

fun resolve :: "int \<Rightarrow> range_spec \<Rightarrow> http_range" where
  "resolve cl (From_to a b) = (int a, min (int b + 1) cl)"
| "resolve cl (From a) = (int a, cl)"
| "resolve cl (Suffix n) = (cl - int n, cl)"

definition satisfiable :: "int \<Rightarrow> range_spec list \<Rightarrow> http_range list" where
  "satisfiable cl specs = filter (\<lambda>rg. fst rg < snd rg) (map (resolve cl) specs)"

fun spec_fits :: "range_spec \<Rightarrow> bool" where
  "spec_fits (From_to a b) \<longleftrightarrow> int a \<le> NGX_MAX_OFF_T_VALUE \<and> int b \<le> NGX_MAX_OFF_T_VALUE"
| "spec_fits (From a) \<longleftrightarrow> int a \<le> NGX_MAX_OFF_T_VALUE"
| "spec_fits (Suffix n) \<longleftrightarrow> int n \<le> NGX_MAX_OFF_T_VALUE"

lemma range_digits_run:
  assumes "all_digits ds" "rest = [] \<or> \<not> is_digit (hd rest)" "0 \<le> n"
    "foldl (\<lambda>v c. v * 10 + digit_val c) n ds \<le> NGX_MAX_OFF_T_VALUE"
  shows "range_digits n (ds @ rest) = Some (foldl (\<lambda>v c. v * 10 + digit_val c) n ds, rest)"
  using assms
proof (induction ds arbitrary: n)
  case Nil
  then show ?case by (cases rest) (auto simp: is_digit_def)
next
  case (Cons c ds)
  then have c: "is_digit c" "all_digits ds" by (auto simp: all_digits_def)
  have d: "0 \<le> digit_val c" "digit_val c \<le> 9" using digit_val_bounds [OF c(1)] .
  have "n * 10 + digit_val c \<le> foldl (\<lambda>v c. v * 10 + digit_val c) n (c # ds)"
    using foldl_dec_ge [of ds "n * 10 + digit_val c"] c(2) d Cons.prems(3) by (simp add: all_digits_def)
  then have le: "n * 10 + digit_val c \<le> NGX_MAX_OFF_T_VALUE" using Cons.prems(4) by simp
  then have "\<not> (n \<ge> NGX_MAX_OFF_T_VALUE div 10 \<and> (n > NGX_MAX_OFF_T_VALUE div 10 \<or> digit_val c > NGX_MAX_OFF_T_VALUE mod 10))"
    using dec_cutoff [OF ngx_limits_nonneg(3) d, of n] by simp
  moreover have "off_t (off_t (off_t (n * 10) + uint c) - 48) = n * 10 + digit_val c"
    using off_t_digit [of n "uint c"] le d Cons.prems(3) by (simp add: digit_val_def)
  ultimately show ?case using Cons c d by (simp add: is_digit_def digit_val_def)
qed

lemma range_digits_print:
  "int n \<le> NGX_MAX_OFF_T_VALUE \<Longrightarrow> rest = [] \<or> \<not> is_digit (hd rest) \<Longrightarrow>
    range_digits 0 (sprintf_dec n [] @ rest) = Some (int n, rest)"
  using range_digits_run [of "sprintf_dec n []" rest 0] sprintf_dec_digits [of n] by (simp add: dec_value_def)

lemma dec_head: "\<exists>c ds. sprintf_dec n [] = c # ds \<and> is_digit c"
  using sprintf_dec_digits [of n] by (cases "sprintf_dec n []") (auto simp: all_digits_def)

lemma digit_not: "is_digit c \<Longrightarrow> c \<noteq> SP \<and> c \<noteq> ch_minus \<and> c \<noteq> ch_comma \<and> c \<noteq> NUL"
  by (auto simp: is_digit_def)

definition stops :: "bytes \<Rightarrow> bool" where
  "stops rest \<longleftrightarrow> rest = [] \<or> hd rest = ch_comma"

lemma stops_peek: "stops rest \<Longrightarrow> peek rest = ch_comma \<or> peek rest = NUL" "stops rest \<Longrightarrow> skip_sp rest = rest"
  "stops rest \<Longrightarrow> rest = [] \<or> \<not> is_digit (hd rest)"
  by (cases rest; auto simp: stops_def peek_def skip_sp_def is_digit_def)+

lemma range_end_print:
  assumes "int b \<le> NGX_MAX_OFF_T_VALUE" "stops rest"
  shows "range_end cl s suffix (sprintf_dec b [] @ rest) =
    Some (if suffix then (cl - int b, cl, rest) else (s, min (int b + 1) cl, rest))"
proof -
  obtain c ds where "sprintf_dec b [] = c # ds" "is_digit c" using dec_head by blast
  then have "\<not> (peek (sprintf_dec b [] @ rest) < ch_0 \<or> peek (sprintf_dec b [] @ rest) > ch_9)"
    using not_digit_iff [of c] by (simp add: peek_def)
  with range_digits_print [OF assms(1) stops_peek(3) [OF assms(2)]] stops_peek(1,2) [OF assms(2)] show ?thesis
    by (auto simp: range_end_def Let_def)
qed

lemma range_one_print:
  assumes "spec_fits x" "stops rest"
  shows "range_one cl (print_spec x @ rest) = Some (fst (resolve cl x), snd (resolve cl x), rest)"
proof -
  have num: "skip_sp (sprintf_dec a [] @ r) = sprintf_dec a [] @ r \<and> peek (sprintf_dec a [] @ r) \<noteq> ch_minus \<and>
      peek (sprintf_dec a [] @ r) \<noteq> ch_comma \<and> peek (sprintf_dec a [] @ r) \<noteq> NUL \<and>
      \<not> (peek (sprintf_dec a [] @ r) < ch_0 \<or> peek (sprintf_dec a [] @ r) > ch_9)" for a r
  proof -
    obtain c ds where "sprintf_dec a [] = c # ds" "is_digit c" using dec_head by blast
    then show ?thesis using digit_not by (auto simp: peek_def skip_sp_def is_digit_def)
  qed
  have dash: "\<not> is_digit ch_minus" by (simp add: is_digit_def)
  show ?thesis
  proof (cases x)
    case (From_to a b)
    then have r: "range_digits 0 (sprintf_dec a [] @ ch_minus # sprintf_dec b [] @ rest) = Some (int a, ch_minus # sprintf_dec b [] @ rest)"
      using assms(1) dash by (intro range_digits_print) auto
    have "peek (ch_minus # sprintf_dec b [] @ rest) = ch_minus" "skip_sp (ch_minus # q) = ch_minus # q" for q
      by (simp_all add: peek_def skip_sp_def)
    then show ?thesis
      using From_to num [of a "ch_minus # sprintf_dec b [] @ rest"] num [of b rest] r assms
        range_end_print [of b rest cl "int a" False]
      by (simp add: range_one_def Let_def)
  next
    case (From a)
    then have r: "range_digits 0 (sprintf_dec a [] @ ch_minus # rest) = Some (int a, ch_minus # rest)"
      using assms(1) dash by (intro range_digits_print) auto
    have "peek (ch_minus # q) = ch_minus" "skip_sp (ch_minus # q) = ch_minus # q" for q
      by (simp_all add: peek_def skip_sp_def)
    then show ?thesis
      using From num [of a "ch_minus # rest"] r stops_peek(1,2) [OF assms(2)] by (simp add: range_one_def Let_def)
  next
    case (Suffix n)
    have "peek (ch_minus # q) = ch_minus" "skip_sp (ch_minus # q) = ch_minus # q" for q
      by (simp_all add: peek_def skip_sp_def)
    then show ?thesis using Suffix assms range_end_print [of n rest cl 0 True] by (simp add: range_one_def Let_def)
  qed
qed

lemma satisfiable_Cons: "satisfiable cl (x # xs) =
    (if fst (resolve cl x) < snd (resolve cl x) then resolve cl x # satisfiable cl xs else satisfiable cl xs)"
  by (simp add: satisfiable_def)

lemma spans_nonneg: "0 \<le> spans (satisfiable cl xs)"
  by (induction xs) (auto simp: satisfiable_Cons, simp add: satisfiable_def)

definition verdict :: "int \<Rightarrow> nat \<Rightarrow> http_range list \<Rightarrow> http_range list \<Rightarrow> ngx_rc \<times> http_range list" where
  "verdict cl n acc rs =
     (if acc @ rs = [] then (NGX_HTTP_STATUS 416, [])
      else if n < length rs then (NGX_DECLINED, acc @ take (n + 1) rs)
      else if cl < spans (acc @ rs) then (NGX_DECLINED, acc @ rs)
      else (NGX_OK, acc @ rs))"

lemma spans_append: "spans (xs @ ys) = spans xs + spans ys"
  by (simp add: spans_def)

lemma range_loop_print:
  assumes "list_all spec_fits specs" "specs \<noteq> []" "spans acc + spans (satisfiable cl specs) \<le> NGX_MAX_OFF_T_VALUE"
  shows "range_loop cl n acc (spans acc) (print_specs specs) = verdict cl n acc (satisfiable cl specs)"
  using assms
proof (induction specs arbitrary: n acc rule: print_specs.induct)
  case (2 x)
  have one: "range_one cl (print_spec x) = Some (fst (resolve cl x), snd (resolve cl x), [])"
    using range_one_print [of x "[]" cl] 2 by (simp add: stops_def)
  show ?case
    using 2 by (subst range_loop.simps)
      (auto simp: one Let_def verdict_def satisfiable_def peek_def spans_append split: if_splits)
next
  case (3 x y ys)
  let ?xs = "y # ys"
  have one: "range_one cl (print_spec x @ ch_comma # print_specs ?xs) =
      Some (fst (resolve cl x), snd (resolve cl x), ch_comma # print_specs ?xs)"
    using range_one_print [of x "ch_comma # print_specs ?xs" cl] 3 by (simp add: stops_def)
  show ?case
  proof (cases "fst (resolve cl x) < snd (resolve cl x)")
    case True
    then have sz: "spans acc + (snd (resolve cl x) - fst (resolve cl x)) + spans (satisfiable cl ?xs) \<le> NGX_MAX_OFF_T_VALUE"
      using 3(4) by (simp add: satisfiable_Cons [of cl x])
    have ih: "range_loop cl (n - 1) (acc @ [resolve cl x]) (spans (acc @ [resolve cl x])) (print_specs ?xs) =
        verdict cl (n - 1) (acc @ [resolve cl x]) (satisfiable cl ?xs)"
      using 3(2,4) sz by (intro 3(1)) (auto simp: spans_append)
    from True sz spans_nonneg [of cl ?xs] ih show ?thesis
      by (subst range_loop.simps)
        (auto simp: one Let_def verdict_def satisfiable_Cons [of cl x] peek_def)
  next
    case False
    have ih: "range_loop cl n acc (spans acc) (print_specs ?xs) = verdict cl n acc (satisfiable cl ?xs)"
      using 3(2,4) False by (intro 3(1)) (auto simp: satisfiable_Cons [of cl x])
    with False show ?thesis
      by (subst range_loop.simps) (simp add: one Let_def satisfiable_Cons [of cl x] peek_def)
  qed
qed simp

section \<open>Cutting the range out of the body\<close>

definition body_of :: "rbuf list \<Rightarrow> bytes" where
  "body_of chain = concat (map contents chain)"

lemma body_of_simps [simp]: "body_of [] = []" "body_of (b # c) = contents b @ body_of c" "body_of (c @ d) = body_of c @ body_of d"
  by (simp_all add: body_of_def)

text \<open>The bytes of a range in a stretch of the body that begins at \<open>off\<close>.\<close>

definition window :: "int \<Rightarrow> http_range \<Rightarrow> bytes \<Rightarrow> bytes" where
  "window off rg xs = take (nat (snd rg - off) - nat (fst rg - off)) (drop (nat (fst rg - off)) xs)"

lemma window_Nil [simp]: "window off rg [] = []"
  by (simp add: window_def)

lemma window_append: "window off rg (xs @ ys) = window off rg xs @ window (off + int (length xs)) rg ys"
proof -
  have n: "nat (a - (off + int k)) = nat (a - off) - k" for a k by simp
  show ?thesis
    unfolding window_def n
    by (cases "nat (fst rg - off) \<le> length xs") (auto simp: take_append drop_append, (rule arg_cong2 [of _ _ _ _ take]; simp)?)
qed

lemma window_past: "snd rg \<le> off \<Longrightarrow> window off rg xs = []"
  by (simp add: window_def)

lemma window_before: "off + int (length xs) \<le> fst rg \<Longrightarrow> window off rg xs = []"
  by (simp add: window_def)

definition proper :: "rbuf list \<Rightarrow> bool" where
  "proper chain \<longleftrightarrow> list_all (\<lambda>b. ngx_buf_special b \<longrightarrow> contents b = []) chain"

lemma singlepart_loop_window:
  assumes "singlepart_loop main rg off out pending chain = (off', out')" "proper chain" "body_of pending = []"
    and "fst rg < snd rg"
  shows "body_of out' = body_of out @ window off rg (body_of chain) \<and>
    (off' = off + int (length (body_of chain)) \<or> snd rg \<le> off' \<and> off' \<le> off + int (length (body_of chain)))"
  using assms
proof (induction chain arbitrary: off out pending)
  case Nil
  then show ?case by (auto split: if_splits)
next
  case (Cons buf cl)
  define last where "last = off + ngx_buf_size buf"
  have pr: "proper cl" using Cons.prems(2) by (simp add: proper_def)
  have size: "last = off + int (length (contents buf))" by (simp add: last_def ngx_buf_size_def)
  consider (special) "ngx_buf_special buf"
    | (skip) "\<not> ngx_buf_special buf" "snd rg \<le> off \<or> fst rg \<ge> last"
    | (fin) "\<not> ngx_buf_special buf" "off < snd rg" "fst rg < last" "snd rg \<le> last"
    | (keep) "\<not> ngx_buf_special buf" "off < snd rg" "fst rg < last" "last < snd rg"
    by linarith
  then show ?case
  proof cases
    case special
    with Cons.prems(2) have e: "contents buf = []" by (simp add: proper_def)
    from Cons.prems(1) special have "singlepart_loop main rg last (out @ [buf]) [] cl = (off', out')"
      by (simp add: Let_def last_def)
    from Cons.IH [OF this pr] Cons.prems(4) e size show ?thesis by simp
  next
    case skip
    let ?b = "buf\<lparr>contents := [], sync := True\<rparr>"
    from Cons.prems(1) skip have "singlepart_loop main rg last out (pending @ [?b]) cl = (off', out')"
      by (simp add: Let_def last_def)
    moreover have "window off rg (contents buf) = []" using skip(2) size window_past window_before by blast
    ultimately show ?thesis using Cons.IH [of last out "pending @ [?b]"] pr Cons.prems(3,4) size by (auto simp: window_append)
  next
    case fin
    from Cons.prems(1) fin have r: "off' = last" "body_of out' = body_of out @
        take (length (contents buf) - nat (fst rg - off) - nat (last - snd rg)) (drop (nat (fst rg - off)) (contents buf))"
      by (auto simp: Let_def last_def not_le split: if_splits)
    have "length (contents buf) - nat (fst rg - off) - nat (last - snd rg) = nat (snd rg - off) - nat (fst rg - off)"
      using fin Cons.prems(4) size by linarith
    with r fin size show ?thesis by (simp add: window_append window_past window_def)
  next
    case keep
    let ?b = "buf\<lparr>contents := drop (nat (fst rg - off)) (contents buf)\<rparr>"
    have n: "nat (if off < fst rg then fst rg - off else 0) = nat (fst rg - off)" by simp
    from Cons.prems(1) keep have "singlepart_loop main rg last (out @ [?b]) [] cl = (off', out')"
      by (simp add: Let_def last_def not_le n del: nat_0_iff)
    moreover have "window off rg (contents buf) = contents ?b" using keep size by (simp add: window_def)
    ultimately show ?thesis using Cons.IH [of last "out @ [?b]" "[]"] pr Cons.prems(4) size by (auto simp: window_append)
  qed
qed

text \<open>The calls of the filter for one response, each with its chain of buffers.\<close>

fun singlepart_calls :: "bool \<Rightarrow> range_ctx \<Rightarrow> rbuf list list \<Rightarrow> rbuf list" where
  "singlepart_calls main ctx [] = []"
| "singlepart_calls main ctx (chain # inputs) =
     (case ngx_http_range_singlepart_body main ctx chain of
        (ctx', out) \<Rightarrow> out @ singlepart_calls main ctx' inputs)"

lemma singlepart_calls_window:
  assumes "ranges_of ctx = [(rg, line)]" "fst rg < snd rg" "list_all proper inputs"
  shows "body_of (singlepart_calls main ctx inputs) = window (offset ctx) rg (body_of (concat inputs))"
  using assms(1,3)
proof (induction inputs arbitrary: ctx)
  case (Cons chain inputs)
  obtain off out where l: "singlepart_loop main rg (offset ctx) [] [] chain = (off, out)" by fastforce
  note w = singlepart_loop_window [OF l]
  let ?ctx = "ctx\<lparr>offset := off\<rparr>"
  from l Cons.prems have b: "ngx_http_range_singlepart_body main ctx chain = (?ctx, out)"
    by (simp add: ngx_http_range_singlepart_body_def)
  from Cons.IH [of ?ctx] Cons.prems
  have ih: "body_of (singlepart_calls main ?ctx inputs) = window off rg (body_of (concat inputs))" by simp
  have "window off rg ys = window (offset ctx + int (length (body_of chain))) rg ys" for ys
    using w Cons.prems(2) assms(2) window_past [of rg off ys] window_past [of rg "offset ctx + int (length (body_of chain))" ys]
    by auto
  with w b ih Cons.prems(2) assms(2) show ?case by (simp add: window_append)
qed simp

lemma window_whole: "0 \<le> fst rg \<Longrightarrow> window 0 rg xs = take (nat (snd rg) - nat (fst rg)) (drop (nat (fst rg)) xs)"
  by (simp add: window_def)

lemma length_window:
  assumes "0 \<le> fst rg" "fst rg < snd rg" "snd rg \<le> int (length xs)"
  shows "int (length (window 0 rg xs)) = snd rg - fst rg"
proof -
  have "nat (snd rg) - nat (fst rg) \<le> length xs - nat (fst rg)" using assms by linarith
  then show ?thesis using assms by (simp add: window_whole min_absorb2)
qed

section \<open>The length of a multipart answer\<close>

lemma fmt_spec_0muA:
  "fmt_spec (ch_0 # ch_m # ch_u # ch_A # fmt) args = Some (\<lparr> c_zero = ch_0, c_width = 0, c_sign = False, c_hex = 0,
     c_max_width = True, c_frac_width = 0, c_slen = -1 \<rparr>, ch_A # fmt, args)"
  by (simp add: fmt_spec_def is_digit_def digit_val_def)

lemma render_0muA: "render (ch_percent # ch_0 # ch_m # ch_u # ch_A # fmt) (Arg_int n # args) =
    map_option ((@) (pad_number ch_0 0 20 n)) (render fmt args)"
  by (simp add: render_conversion [OF fmt_spec_0muA] int_conversion_def render_number_def)

lemma fmt_spec_V: "fmt_spec (ch_V # fmt) args = Some (\<lparr> c_zero = SP, c_width = 0, c_sign = True, c_hex = 0,
     c_max_width = False, c_frac_width = 0, c_slen = -1 \<rparr>, ch_V # fmt, args)"
  by (simp add: fmt_spec_def is_digit_def digit_val_def)

lemma render_V: "render (ch_percent # ch_V # fmt) (Arg_str v # args) = map_option ((@) v) (render fmt args)"
  by (simp add: render_conversion [OF fmt_spec_V])

lemma length_pad_20: "length (pad_number ch_0 0 20 n) = 20"
  using sprintf_digits_length [of n 0] by (simp add: pad_number_def NGX_INT64_LEN_def)

lemma boundary_header_start:
  "\<exists>rest. boundary_header_of r boundary = Some ([CR, LF, ch_minus, ch_minus] @ pad_number ch_0 0 20 boundary @ rest)"
proof -
  have start: "\<exists>rest. ngx_sprintf ([CR, LF] @ bytes_of ''--%0muA'' @ fmt) (Arg_int boundary # args) =
      Some ([CR, LF, ch_minus, ch_minus] @ pad_number ch_0 0 20 boundary @ rest)"
    if "render fmt args = Some out" for fmt args out
  proof -
    have "render ([CR, LF] @ bytes_of ''--%0muA'' @ fmt) (Arg_int boundary # args) =
        Some ([CR, LF, ch_minus, ch_minus] @ pad_number ch_0 0 20 boundary @ out)"
      using that by (simp add: render_char render_0muA)
    from vslprintf_render [OF this, of "2 ^ 63"] show ?thesis
      unfolding ngx_sprintf_def by (simp add: length_pad_20)
  qed
  have "\<exists>out. render ([CR, LF] @ bytes_of ''Content-Type: %V; charset=%V'' @ [CR, LF]
                     @ bytes_of ''Content-Range: bytes '') [Arg_str (content_type r), Arg_str (charset r)] = Some out"
    "\<exists>out. render ([CR, LF] @ bytes_of ''Content-Type: %V'' @ [CR, LF]
                     @ bytes_of ''Content-Range: bytes '') [Arg_str (content_type r)] = Some out"
    "\<exists>out. render ([CR, LF] @ bytes_of ''Content-Range: bytes '') [] = Some out"
    by (simp_all add: render_char render_V)
  then show ?thesis using start by (auto simp only: boundary_header_of_def split: if_split)
qed

lemma multipart_body_length:
  assumes "\<And>rg line. (rg, line) \<in> set rs \<Longrightarrow> 0 \<le> fst rg \<and> fst rg < snd rg \<and> snd rg \<le> ngx_buf_size buf"
    and "ranges_of ctx = rs" "4 + NGX_ATOMIC_T_LEN \<le> length (boundary_header ctx)"
  shows "int (length (body_of (ngx_http_range_multipart_body ctx buf))) = multipart_len (boundary_header ctx) rs"
proof -
  have part: "int (length (body_of (range_part ctx buf (rg, line)))) =
      int (length (boundary_header ctx)) + int (length line) + (snd rg - fst rg)"
    if "0 \<le> fst rg \<and> fst rg < snd rg \<and> snd rg \<le> ngx_buf_size buf" for rg line
    using that by (cases rg) (auto simp: range_part_def memory_buf_def ngx_buf_size_def)
  have "int (length (body_of (concat (map (range_part ctx buf) rs)))) =
      (\<Sum>(rg, line) \<leftarrow> rs. int (length (boundary_header ctx)) + int (length line) + (snd rg - fst rg))"
    using assms(1)
  proof (induction rs)
    case (Cons x rs)
    then show ?case using part [of "fst x" "snd x"] by (cases x) fastforce
  qed simp
  with assms(2,3) show ?thesis
    by (simp add: ngx_http_range_multipart_body_def multipart_len_def memory_buf_def)
qed

text \<open>What the header filter has done when it hands on a context.\<close>

lemma range_header_filter_ctx:
  assumes "ngx_http_range_header_filter boundary mctx r = (f, Some ctx)" "is_main r"
  obtains n rs where "range_loop (content_length_n r) n [] 0 (drop 6 (the (in_range r))) = (NGX_OK, rs)"
    "map fst (ranges_of ctx) = rs" "offset ctx = content_offset r"
    "length rs = 1 \<longrightarrow> f = ngx_http_range_singlepart_header (r\<lparr>status := 206\<rparr>) (hd rs)"
    "length rs \<noteq> 1 \<longrightarrow> (\<exists>r'. f = Next_filter r' \<and> content_length_n r' = multipart_len (boundary_header ctx) (ranges_of ctx) \<and>
       boundary_header_of (r\<lparr>status := 206\<rparr>) boundary = Some (boundary_header ctx))"
proof -
  let ?n = "if single_range r then 1 else max_ranges r"
  obtain rc rs where p: "ngx_http_range_parse r mctx ?n = (rc, rs)" by fastforce
  have ok: "rc = NGX_OK"
    using assms(1) p by (cases rc) (auto simp: ngx_http_range_header_filter_def Let_def split: if_splits option.splits)
  have l: "range_loop (content_length_n r) ?n [] 0 (drop 6 (the (in_range r))) = (NGX_OK, rs)"
    using p ok assms(2) by (simp add: ngx_http_range_parse_def)
  define r2 where "r2 = r\<lparr>status := 206\<rparr>"
  define c0 where "c0 = \<lparr> offset = content_offset r, boundary_header = [], ranges_of = map (\<lambda>x. (x, [])) rs \<rparr>"
  have f: "(f, Some ctx) = (if length rs = 1 then (ngx_http_range_singlepart_header r2 (hd rs), Some c0)
      else (case ngx_http_range_multipart_header r2 boundary c0 of (f, ctx) \<Rightarrow> (f, Some ctx)))"
    using assms(1) p ok
    by (auto simp: ngx_http_range_header_filter_def Let_def r2_def c0_def split: if_splits option.splits)
  have m0: "map fst (ranges_of c0) = rs" "offset c0 = content_offset r" by (simp_all add: c0_def comp_def)
  show thesis
  proof (rule that [OF l])
    show "map fst (ranges_of ctx) = rs" "offset ctx = content_offset r"
      using f m0 by (auto simp: ngx_http_range_multipart_header_def Let_def comp_def case_prod_beta split: if_splits)
    show "length rs = 1 \<longrightarrow> f = ngx_http_range_singlepart_header (r\<lparr>status := 206\<rparr>) (hd rs)"
      using f by (auto simp: r2_def split: if_splits)
    show "length rs \<noteq> 1 \<longrightarrow> (\<exists>r'. f = Next_filter r' \<and> content_length_n r' = multipart_len (boundary_header ctx) (ranges_of ctx) \<and>
       boundary_header_of (r\<lparr>status := 206\<rparr>) boundary = Some (boundary_header ctx))"
      using f boundary_header_start [of r2 boundary]
      by (auto simp: ngx_http_range_multipart_header_def Let_def r2_def)
  qed
qed

section \<open>Properties\<close>

text \<open>
  C16. A set of ranges that \<open>ngx_http_range_parse\<close> accepts is safe, whatever bytes the client
  sent: there is at least one range and at most as many as the limit, every range lies inside the
  resource (in particular no start is negative, although a suffix longer than the resource makes
  the computed start negative), and together they are no larger than the resource. The start, the
  end and the length that are computed for a range, accepted or not, are within the bounds of
  \<open>off_t\<close>, so that the sums of lengths in the loop do not overflow.
\<close>

theorem range_parse_safe:
  assumes "0 \<le> cl" "cl \<le> NGX_MAX_OFF_T_VALUE"
  shows "(range_loop cl n [] 0 p = (NGX_OK, rs) \<longrightarrow>
      rs \<noteq> [] \<and> length rs \<le> n \<and> (\<forall>rg \<in> set rs. 0 \<le> fst rg \<and> fst rg < snd rg \<and> snd rg \<le> cl) \<and> spans rs \<le> cl) \<and>
    (range_one cl p = Some (s, e, q) \<longrightarrow>
      - NGX_MAX_OFF_T_VALUE \<le> s \<and> s \<le> NGX_MAX_OFF_T_VALUE \<and> e \<le> NGX_MAX_OFF_T_VALUE \<and> e - s \<le> NGX_MAX_OFF_T_VALUE)"
proof (rule conjI; rule impI)
  assume "range_loop cl n [] 0 p = (NGX_OK, rs)"
  from range_loop_safe [OF this assms] range_parse_inside [OF this assms]
  show "rs \<noteq> [] \<and> length rs \<le> n \<and> (\<forall>rg \<in> set rs. 0 \<le> fst rg \<and> fst rg < snd rg \<and> snd rg \<le> cl) \<and> spans rs \<le> cl"
    by simp
next
  assume "range_one cl p = Some (s, e, q)"
  from range_one_span [OF this assms] assms
  show "- NGX_MAX_OFF_T_VALUE \<le> s \<and> s \<le> NGX_MAX_OFF_T_VALUE \<and> e \<le> NGX_MAX_OFF_T_VALUE \<and> e - s \<le> NGX_MAX_OFF_T_VALUE"
    by (auto simp: span_ok_def)
qed

theorem range_parse_safe_witness:
  "range_loop 100 2 [] 0 (bytes_of ''0-9,-5'') = (NGX_OK, [(0, 10), (95, 100)]) \<and>
   spans [(0, 10), (95, 100)] \<le> 100"
proof -
  have "range_loop 100 2 [] 0 (bytes_of ''0-9,-5'') = (NGX_OK, [(0, 10), (95, 100)])"
    by code_simp
  then show ?thesis using range_parse_safe [of 100 2 "bytes_of ''0-9,-5''" "[(0, 10), (95, 100)]"] by (simp add: ngx_limits)
qed

text \<open>
  The intermediate sum does overflow: the test lets the largest number through, whose last digit is
  added as a character before \<open>'0'\<close> is subtracted. In two's complement the result is right
  nevertheless.
\<close>

theorem range_digit_sum_overflows:
  "922337203685477580 * 10 + uint ch_7 > NGX_MAX_OFF_T_VALUE \<and> off_t (922337203685477580 * 10 + uint ch_7) < 0 \<and>
   range_digits 922337203685477580 [ch_7] = Some (NGX_MAX_OFF_T_VALUE, [])"
  by (simp add: ngx_limits off_t_def)

text \<open>
  A well-formed header is understood as it is written: for every list of ranges (first and
  last byte, first byte, or suffix) whose numbers fit \<open>off_t\<close>, the parser computes the list of the
  ranges that are not empty in the resource; it answers 416 when there is none, declines when
  there are more than the limit or when they are together larger than the resource, and accepts
  them in every other case.
\<close>

theorem range_parse_wellformed:
  assumes "list_all spec_fits specs" "specs \<noteq> []" "spans (satisfiable cl specs) \<le> NGX_MAX_OFF_T_VALUE"
  shows "range_loop cl n [] 0 (print_specs specs) =
    (let rs = satisfiable cl specs in
     if rs = [] then (NGX_HTTP_STATUS 416, [])
     else if n < length rs then (NGX_DECLINED, take (n + 1) rs)
     else if cl < spans rs then (NGX_DECLINED, rs)
     else (NGX_OK, rs))"
  using range_loop_print [of specs "[]" cl n] assms by (simp add: verdict_def Let_def)

theorem range_parse_wellformed_witness:
  "range_loop 1000 5 [] 0 (print_specs [From_to 10 19, From 990]) = (NGX_OK, [(10, 20), (990, 1000)])"
  using range_parse_wellformed [of "[From_to 10 19, From 990]" 1000 5] by (simp add: satisfiable_def ngx_limits)

text \<open>
  The single part filter passes on exactly the bytes of the range: however the body is cut
  into buffers, and the buffers into calls of the filter, with special buffers anywhere, what is
  handed to the next filter is the part of the body between the two offsets.
\<close>

theorem singlepart_body_exact:
  assumes "ranges_of ctx = [(rg, line)]" "0 \<le> fst rg" "fst rg < snd rg" "offset ctx = 0" "list_all proper inputs"
  shows "body_of (singlepart_calls main ctx inputs) =
    take (nat (snd rg) - nat (fst rg)) (drop (nat (fst rg)) (body_of (concat inputs)))"
  using singlepart_calls_window [OF assms(1,3,5), of main] assms(2,4) by (simp add: window_whole)

definition two_bufs :: "rbuf list list" where
  "two_bufs = [[memory_buf (bytes_of ''hello ''), memory_buf (bytes_of ''wor'')], [memory_buf (bytes_of ''ld'')]]"

theorem singlepart_body_exact_witness:
  "body_of (singlepart_calls True \<lparr> offset = 0, boundary_header = [], ranges_of = [((3, 10), [])] \<rparr> two_bufs) =
    bytes_of ''lo worl''"
  using singlepart_body_exact [of "\<lparr> offset = 0, boundary_header = [], ranges_of = [((3, 10), [])] \<rparr>" "(3, 10)" "[]" two_bufs True]
  by (simp add: two_bufs_def proper_def memory_buf_def ngx_buf_special_def)

text \<open>
  C17. Header and body agree: when the header filter has accepted ranges for a response of
  \<open>content_length_n\<close> bytes, the length that it announces in their place is the number of bytes
  that the body filter hands on: for one range over any cutting of the body, for several ranges
  when the whole body is in one buffer (the only case that the filter supports, and it does not
  refuse it).
\<close>

theorem range_response_length:
  assumes "ngx_http_range_header_filter boundary None r = (Next_filter r', Some ctx)"
    and "is_main r" "content_offset r = 0" "0 \<le> content_length_n r" "content_length_n r \<le> NGX_MAX_OFF_T_VALUE"
  shows "(length (ranges_of ctx) = 1 \<and> list_all proper inputs \<and> int (length (body_of (concat inputs))) = content_length_n r \<longrightarrow>
      int (length (body_of (singlepart_calls True ctx inputs))) = content_length_n r') \<and>
    (length (ranges_of ctx) \<noteq> 1 \<and> \<not> ngx_buf_special buf \<and> ngx_buf_size buf = content_length_n r \<longrightarrow>
      (\<exists>ctx' out. ngx_http_range_body_filter True (Some ctx) [buf] = Some (ctx', out) \<and>
        int (length (body_of out)) = content_length_n r'))"
proof -
  from range_header_filter_ctx [OF assms(1,2)] obtain n rs where
    l: "range_loop (content_length_n r) n [] 0 (drop 6 (the (in_range r))) = (NGX_OK, rs)" and
    m: "map fst (ranges_of ctx) = rs" "offset ctx = content_offset r" and
    one: "length rs = 1 \<longrightarrow> Next_filter r' = ngx_http_range_singlepart_header (r\<lparr>status := 206\<rparr>) (hd rs)" and
    many: "length rs \<noteq> 1 \<longrightarrow> (\<exists>r''. Next_filter r' = Next_filter r'' \<and> content_length_n r'' = multipart_len (boundary_header ctx) (ranges_of ctx) \<and>
       boundary_header_of (r\<lparr>status := 206\<rparr>) boundary = Some (boundary_header ctx))" .
  note inside = range_parse_inside [OF l assms(4,5)]
  have len: "length rs = length (ranges_of ctx)" using m(1) by auto
  show ?thesis
  proof (intro conjI impI)
    assume a: "length (ranges_of ctx) = 1 \<and> list_all proper inputs \<and> int (length (body_of (concat inputs))) = content_length_n r"
    then obtain rg line where c: "ranges_of ctx = [(rg, line)]" by (cases "ranges_of ctx") auto
    with m(1) have rs: "rs = [rg]" by simp
    have i: "0 \<le> fst rg" "fst rg < snd rg" "snd rg \<le> content_length_n r" using inside [of rg] rs by simp_all
    have "content_length_n r' = snd rg - fst rg"
      using one rs assms(2) by (cases rg) (simp add: ngx_http_range_singlepart_header_def)
    moreover have "body_of (singlepart_calls True ctx inputs) = window 0 rg (body_of (concat inputs))"
      using singlepart_calls_window [OF c i(2)] a m(2) assms(3) by simp
    ultimately show "int (length (body_of (singlepart_calls True ctx inputs))) = content_length_n r'"
      using i a length_window [of rg "body_of (concat inputs)"] by simp
  next
    assume a: "length (ranges_of ctx) \<noteq> 1 \<and> \<not> ngx_buf_special buf \<and> ngx_buf_size buf = content_length_n r"
    with many len have h: "content_length_n r' = multipart_len (boundary_header ctx) (ranges_of ctx)"
      "boundary_header_of (r\<lparr>status := 206\<rparr>) boundary = Some (boundary_header ctx)" by auto
    have in': "0 \<le> fst rg \<and> fst rg < snd rg \<and> snd rg \<le> ngx_buf_size buf" if "(rg, line) \<in> set (ranges_of ctx)" for rg line
      using inside [of rg] that m(1) a by force
    let ?c = "ctx\<lparr>offset := ngx_buf_size buf\<rparr>"
    have "\<not> list_ex (\<lambda>(rg, _). offset ctx > fst rg \<or> offset ctx + ngx_buf_size buf < snd rg) (ranges_of ctx)"
      using in' m(2) assms(3) by (force simp: list_ex_iff)
    then have "ngx_http_range_test_overlapped ctx buf = Some ?c"
      using m(2) assms(3) by (simp add: ngx_http_range_test_overlapped_def)
    then have "ngx_http_range_body_filter True (Some ctx) [buf] = Some (Some ?c, ngx_http_range_multipart_body ?c buf)"
      using a by (simp add: ngx_http_range_body_filter_def)
    moreover have "4 + NGX_ATOMIC_T_LEN \<le> length (boundary_header ctx)"
      using boundary_header_start [of "r\<lparr>status := 206\<rparr>" boundary] h(2) by (auto simp: length_pad_20 NGX_ATOMIC_T_LEN_def)
    then have "int (length (body_of (ngx_http_range_multipart_body ?c buf))) = content_length_n r'"
      using multipart_body_length [of "ranges_of ctx" buf ?c] in' h(1) by simp
    ultimately show "\<exists>ctx' out. ngx_http_range_body_filter True (Some ctx) [buf] = Some (ctx', out) \<and>
        int (length (body_of out)) = content_length_n r'" by blast
  qed
qed

definition sample_request :: range_req where
  "sample_request =
     \<lparr> http_version = 1001, status = 200, is_main = True, subrequest_ranges = False, content_length_n = 11,
       allow_ranges = True, max_ranges = 10, in_range = Some (bytes_of ''bytes=3-9''), in_if_range = None, etag = None,
       last_modified_time = - 1, single_range = False, content_offset = 0, content_type = [], content_type_len = 0,
       charset = [], content_range = None, accept_ranges = False \<rparr>"

lemma sample_parse: "range_loop 11 10 [] 0 (bytes_of ''3-9'') = (NGX_OK, [(3, 10)])"
  by code_simp

lemma sample_filter:
  "\<exists>r'. ngx_http_range_header_filter 7 None sample_request =
     (Next_filter r', Some \<lparr> offset = 0, boundary_header = [], ranges_of = [((3, 10), [])] \<rparr>) \<and> content_length_n r' = 7"
  using sample_parse
  by (simp add: ngx_http_range_header_filter_def sample_request_def ngx_http_range_parse_def if_range_fails_def
      ngx_http_range_singlepart_header_def Let_def peek_def lower_def numeral_eq_Suc)

theorem range_response_length_witness:
  "\<exists>r'. ngx_http_range_header_filter 7 None sample_request =
     (Next_filter r', Some \<lparr> offset = 0, boundary_header = [], ranges_of = [((3, 10), [])] \<rparr>) \<and>
     int (length (body_of (singlepart_calls True \<lparr> offset = 0, boundary_header = [], ranges_of = [((3, 10), [])] \<rparr> two_bufs)))
       = content_length_n r'"
proof -
  from sample_filter obtain r' where f: "ngx_http_range_header_filter 7 None sample_request =
     (Next_filter r', Some \<lparr> offset = 0, boundary_header = [], ranges_of = [((3, 10), [])] \<rparr>)" by blast
  have "list_all proper two_bufs" "length (body_of (concat two_bufs)) = 11"
    by (simp_all add: two_bufs_def proper_def memory_buf_def ngx_buf_special_def)
  with range_response_length [OF f, of two_bufs] f show ?thesis
    by (simp add: sample_request_def ngx_limits)
qed

end
