(* ===== verification/Hpack_Table.thy ===== *)
theory Hpack_Table
  imports Prelude
begin

text \<open>
  The header table of an HTTP/2 connection, \<^verbatim>\<open>src/http/v2/ngx_http_v2_table.c\<close>: the static table,
  \<open>ngx_http_v2_get_indexed_header\<close>, \<open>ngx_http_v2_add_header\<close>, \<open>ngx_http_v2_table_account\<close> and
  \<open>ngx_http_v2_table_size\<close>. The names and values live in a ring of 4096 bytes (\<open>storage\<close>), the
  entries are structures reached through a ring of pointers (\<open>entries\<close>) that grows by 64 and whose
  deleted structures are used again. Structures are addressed by numbers in a heap; \<open>fresh\<close> is the
  next one that \<open>ngx_palloc\<close> returns (failures of allocation are left out).

  The reference is the dynamic table of RFC 7541: a list of fields, newest first, with a limit on
  its size. The lemmas show that the code refines it: neither ring ever overwrites anything that
  is still in the table.
\<close>

section \<open>State\<close>

definition NGX_HTTP_V2_TABLE_SIZE :: nat where
  "NGX_HTTP_V2_TABLE_SIZE = 4096"

type_synonym field = "bytes \<times> bytes"

definition ngx_http_v2_static_table :: "field list" where
  "ngx_http_v2_static_table =
    [(bytes_of '':authority'', []),
     (bytes_of '':method'', bytes_of ''GET''),
     (bytes_of '':method'', bytes_of ''POST''),
     (bytes_of '':path'', bytes_of ''/''),
     (bytes_of '':path'', bytes_of ''/index.html''),
     (bytes_of '':scheme'', bytes_of ''http''),
     (bytes_of '':scheme'', bytes_of ''https''),
     (bytes_of '':status'', bytes_of ''200''),
     (bytes_of '':status'', bytes_of ''204''),
     (bytes_of '':status'', bytes_of ''206''),
     (bytes_of '':status'', bytes_of ''304''),
     (bytes_of '':status'', bytes_of ''400''),
     (bytes_of '':status'', bytes_of ''404''),
     (bytes_of '':status'', bytes_of ''500''),
     (bytes_of ''accept-charset'', []),
     (bytes_of ''accept-encoding'', bytes_of ''gzip, deflate''),
     (bytes_of ''accept-language'', []),
     (bytes_of ''accept-ranges'', []),
     (bytes_of ''accept'', []),
     (bytes_of ''access-control-allow-origin'', []),
     (bytes_of ''age'', []),
     (bytes_of ''allow'', []),
     (bytes_of ''authorization'', []),
     (bytes_of ''cache-control'', []),
     (bytes_of ''content-disposition'', []),
     (bytes_of ''content-encoding'', []),
     (bytes_of ''content-language'', []),
     (bytes_of ''content-length'', []),
     (bytes_of ''content-location'', []),
     (bytes_of ''content-range'', []),
     (bytes_of ''content-type'', []),
     (bytes_of ''cookie'', []),
     (bytes_of ''date'', []),
     (bytes_of ''etag'', []),
     (bytes_of ''expect'', []),
     (bytes_of ''expires'', []),
     (bytes_of ''from'', []),
     (bytes_of ''host'', []),
     (bytes_of ''if-match'', []),
     (bytes_of ''if-modified-since'', []),
     (bytes_of ''if-none-match'', []),
     (bytes_of ''if-range'', []),
     (bytes_of ''if-unmodified-since'', []),
     (bytes_of ''last-modified'', []),
     (bytes_of ''link'', []),
     (bytes_of ''location'', []),
     (bytes_of ''max-forwards'', []),
     (bytes_of ''proxy-authenticate'', []),
     (bytes_of ''proxy-authorization'', []),
     (bytes_of ''range'', []),
     (bytes_of ''referer'', []),
     (bytes_of ''refresh'', []),
     (bytes_of ''retry-after'', []),
     (bytes_of ''server'', []),
     (bytes_of ''set-cookie'', []),
     (bytes_of ''strict-transport-security'', []),
     (bytes_of ''transfer-encoding'', []),
     (bytes_of ''user-agent'', []),
     (bytes_of ''vary'', []),
     (bytes_of ''via'', []),
     (bytes_of ''www-authenticate'', [])]"

text \<open>An entry: offsets into the storage and lengths.\<close>

record hentry =
  name_data :: nat
  name_len :: nat
  value_data :: nat
  value_len :: nat

record hpack =
  entries :: "nat list option"
  added :: nat
  deleted :: nat
  reused :: nat
  allocated :: nat
  tsize :: nat
  tfree :: nat
  storage :: bytes
  hpos :: nat
  heap :: "nat \<Rightarrow> hentry"
  fresh :: nat

definition slot :: "hpack \<Rightarrow> nat \<Rightarrow> nat" where
  "slot h j = the (entries h) ! (j mod allocated h)"

definition entry_at :: "hpack \<Rightarrow> nat \<Rightarrow> hentry" where
  "entry_at h j = heap h (slot h j)"

section \<open>Lookup\<close>

text \<open>The copy out of the storage, in two pieces when the text runs over the end.\<close>

definition copy_text :: "bytes \<Rightarrow> nat \<Rightarrow> nat \<Rightarrow> bytes" where
  "copy_text st off len =
     (let rest = NGX_HTTP_V2_TABLE_SIZE - off in
      if len > rest then take rest (drop off st) @ take (len - rest) st
      else take len (drop off st))"

text \<open>
  \<open>None\<close> is \<open>NGX_ERROR\<close>. With \<open>name_only\<close> the value of a dynamic entry is not copied; a static
  entry is assigned as a whole.
\<close>

definition ngx_http_v2_get_indexed_header :: "hpack \<Rightarrow> nat \<Rightarrow> bool \<Rightarrow> (bytes \<times> bytes option) option" where
  "ngx_http_v2_get_indexed_header h index name_only =
     (if index = 0 then None
      else
        let index = index - 1; n = length ngx_http_v2_static_table in
        if index < n then
          Some (fst (ngx_http_v2_static_table ! index), Some (snd (ngx_http_v2_static_table ! index)))
        else
          let index = index - n in
          if index < added h - deleted h then
            let e = entry_at h (added h - index - 1);
                name = copy_text (storage h) (name_data e) (name_len e)
            in Some (name, if name_only then None else Some (copy_text (storage h) (value_data e) (value_len e)))
          else None)"

section \<open>Adding and removing\<close>

definition evict :: "hpack \<Rightarrow> hpack" where
  "evict h =
     (let e = entry_at h (deleted h) in
      h\<lparr>deleted := deleted h + 1, tfree := tfree h + 32 + name_len e + value_len e\<rparr>)"

lemma evict_free: "tfree h < tfree (evict h)"
  by (simp add: evict_def Let_def)

text \<open>\<open>do ... while (size > free)\<close>.\<close>

function account_loop :: "nat \<Rightarrow> hpack \<Rightarrow> hpack" where
  "account_loop sz h = (let h = evict h in if sz > tfree h then account_loop sz h else h)"
  by pat_completeness auto
termination
  using evict_free by (relation "measure (\<lambda>(sz, h). sz - tfree h)") (auto intro: diff_less_mono2 less_trans)

declare account_loop.simps [simp del]

definition ngx_http_v2_table_account :: "nat \<Rightarrow> hpack \<Rightarrow> ngx_rc \<times> hpack" where
  "ngx_http_v2_table_account sz h =
     (let sz = sz + 32 in
      if sz \<le> tfree h then (NGX_OK, h\<lparr>tfree := tfree h - sz\<rparr>)
      else if sz > tsize h then (NGX_DECLINED, h\<lparr>deleted := added h, tfree := tsize h\<rparr>)
      else
        let h = account_loop sz h in (NGX_OK, h\<lparr>tfree := tfree h - sz\<rparr>))"

definition memcpy :: "bytes \<Rightarrow> nat \<Rightarrow> bytes \<Rightarrow> bytes" where
  "memcpy st off xs = take off st @ xs @ drop (off + length xs) st"

text \<open>Write \<open>xs\<close> at \<open>pos\<close>, where \<open>avail\<close> bytes are left before the end: storage and new \<open>pos\<close>.\<close>

definition put_text :: "bytes \<Rightarrow> nat \<Rightarrow> nat \<Rightarrow> bytes \<Rightarrow> bytes \<times> nat" where
  "put_text st pos avail xs =
     (if avail \<ge> length xs then (memcpy st pos xs, pos + length xs)
      else (memcpy (memcpy st pos (take avail xs)) 0 (drop avail xs), length xs - avail))"

text \<open>The first use of the table, lines 186 to 205.\<close>

definition table_init :: "hpack \<Rightarrow> hpack" where
  "table_init h =
     (case entries h of
        Some _ \<Rightarrow> h
      | None \<Rightarrow> h\<lparr>allocated := 64, tsize := NGX_HTTP_V2_TABLE_SIZE, tfree := NGX_HTTP_V2_TABLE_SIZE,
                 entries := Some (replicate 64 0), storage := replicate NGX_HTTP_V2_TABLE_SIZE 0, hpos := 0\<rparr>)"

text \<open>The structure for the new entry: a new one, or that of a deleted entry.\<close>

definition new_entry :: "hpack \<Rightarrow> nat \<times> hpack" where
  "new_entry h =
     (if reused h = deleted h then (fresh h, h\<lparr>fresh := fresh h + 1\<rparr>)
      else (slot h (reused h), h\<lparr>reused := reused h + 1\<rparr>))"

definition fill_entry :: "nat \<Rightarrow> field \<Rightarrow> hpack \<Rightarrow> hpack" where
  "fill_entry entry header h =
     (let name = fst header; value = snd header;
          avail = NGX_HTTP_V2_TABLE_SIZE - hpos h;
          (st, pos) = put_text (storage h) (hpos h) avail name;
          avail = (if avail \<ge> length name then avail else NGX_HTTP_V2_TABLE_SIZE) - length name;
          (st2, pos2) = put_text st pos avail value
      in h\<lparr>heap := (heap h)(entry := \<lparr> name_data = hpos h, name_len = length name,
                                       value_data = pos, value_len = length value \<rparr>),
           storage := st2, hpos := pos2\<rparr>)"

definition grow :: "hpack \<Rightarrow> hpack" where
  "grow h =
     (if allocated h = added h - deleted h then
        let index = deleted h mod allocated h; es = the (entries h)
        in h\<lparr>entries := Some (drop index es @ take index es @ replicate 64 0),
             added := allocated h, deleted := 0, reused := 0, allocated := allocated h + 64\<rparr>
      else h)"

definition push_entry :: "nat \<Rightarrow> hpack \<Rightarrow> hpack" where
  "push_entry entry h =
     h\<lparr>entries := Some ((the (entries h))[added h mod allocated h := entry]), added := added h + 1\<rparr>"

definition ngx_http_v2_add_header :: "field \<Rightarrow> hpack \<Rightarrow> hpack" where
  "ngx_http_v2_add_header header h =
     (case ngx_http_v2_table_account (length (fst header) + length (snd header)) (table_init h) of
        (NGX_OK, h) \<Rightarrow>
          (case new_entry h of (entry, h) \<Rightarrow> push_entry entry (grow (fill_entry entry header h)))
      | (_, h) \<Rightarrow> h)"

function size_loop :: "int \<Rightarrow> hpack \<Rightarrow> hpack" where
  "size_loop needed h = (if needed > int (tfree h) then size_loop needed (evict h) else h)"
  by pat_completeness auto
termination
  using evict_free by (relation "measure (\<lambda>(needed, h). nat (needed - int (tfree h)))") (auto simp: less_imp_of_nat_less)

declare size_loop.simps [simp del]

text \<open>\<open>None\<close> is \<open>NGX_ERROR\<close>.\<close>

definition ngx_http_v2_table_size :: "nat \<Rightarrow> hpack \<Rightarrow> hpack option" where
  "ngx_http_v2_table_size sz h =
     (if sz > NGX_HTTP_V2_TABLE_SIZE then None
      else
        let needed = int (tsize h) - int sz;
            h = size_loop needed h
        in Some (h\<lparr>tsize := sz, tfree := nat (int (tfree h) - needed)\<rparr>))"

section \<open>The ring of bytes\<close>

abbreviation N :: nat where "N \<equiv> NGX_HTTP_V2_TABLE_SIZE"

lemma N_pos [simp]: "0 < N"
  by (simp add: NGX_HTTP_V2_TABLE_SIZE_def)

text \<open>The text at a virtual position, counted without wrapping round.\<close>

definition ring_text :: "bytes \<Rightarrow> nat \<Rightarrow> nat \<Rightarrow> bytes" where
  "ring_text st v len = map (\<lambda>i. st ! ((v + i) mod N)) [0..<len]"

lemma ring_text_length [simp]: "length (ring_text st v len) = len"
  by (simp add: ring_text_def)

lemma ring_text_nth [simp]: "i < len \<Longrightarrow> ring_text st v len ! i = st ! ((v + i) mod N)"
  by (simp add: ring_text_def)

lemma ring_text_cong_mod: "u mod N = v mod N \<Longrightarrow> ring_text st u len = ring_text st v len"
  unfolding ring_text_def by (metis mod_add_left_eq)

lemma copy_text_ring:
  assumes "length st = N" "off \<le> N" "len \<le> N"
  shows "copy_text st off len = ring_text st off len"
proof (rule nth_equalityI)
  show "length (copy_text st off len) = length (ring_text st off len)"
    using assms by (auto simp: copy_text_def Let_def)
next
  fix i assume "i < length (copy_text st off len)"
  with assms have i: "i < len" by (auto simp: copy_text_def Let_def split: if_splits)
  show "copy_text st off len ! i = ring_text st off len ! i"
  proof (cases "off + i < N")
    case True
    with i assms show ?thesis by (auto simp: copy_text_def Let_def nth_append)
  next
    case False
    with i assms have "(off + i) mod N = off + i - N" by (simp add: mod_if)
    with False i assms show ?thesis by (auto simp: copy_text_def Let_def nth_append add.commute)
  qed
qed

lemma memcpy_length: "off + length xs \<le> length st \<Longrightarrow> length (memcpy st off xs) = length st"
  by (simp add: memcpy_def)

lemma memcpy_nth: "off + length xs \<le> length st \<Longrightarrow> i < length st \<Longrightarrow>
    memcpy st off xs ! i = (if off \<le> i \<and> i < off + length xs then xs ! (i - off) else st ! i)"
  by (auto simp: memcpy_def nth_append)

lemma put_text_ring:
  assumes "length st = N" "pos \<le> N" "avail = N - pos" "length xs \<le> N" "put_text st pos avail xs = (st', pos')"
  shows "length st' = N" "pos' \<le> N" "pos' mod N = (pos + length xs) mod N"
    "\<And>k. k < length xs \<Longrightarrow> st' ! ((pos + k) mod N) = xs ! k"
    "\<And>i. i < N \<Longrightarrow> (\<And>k. k < length xs \<Longrightarrow> i \<noteq> (pos + k) mod N) \<Longrightarrow> st' ! i = st ! i"
proof -
  have "length st' = N \<and> pos' \<le> N \<and> pos' mod N = (pos + length xs) mod N \<and>
    (\<forall>k < length xs. st' ! ((pos + k) mod N) = xs ! k) \<and>
    (\<forall>i < N. (\<forall>k < length xs. i \<noteq> (pos + k) mod N) \<longrightarrow> st' ! i = st ! i)"
  proof (cases "length xs \<le> avail")
    case True
    with assms have r: "st' = memcpy st pos xs" "pos' = pos + length xs" "pos + length xs \<le> N"
      by (auto simp: put_text_def)
    have "st' ! i = st ! i" if "i < N" "\<forall>k < length xs. i \<noteq> (pos + k) mod N" for i
    proof -
      have "\<not> (pos \<le> i \<and> i < pos + length xs)" using that(2) [rule_format, of "i - pos"] that(1) by (auto simp: less_diff_conv2 add.commute)
      with r that assms(1) show ?thesis by (auto simp: memcpy_nth)
    qed
    with r assms(1) show ?thesis by (auto simp: memcpy_length memcpy_nth)
  next
    case False
    define a where "a = avail"
    have a: "pos + a = N" using assms(2,3) by (simp add: a_def)
    let ?s = "memcpy st pos (take a xs)"
    have r: "st' = memcpy ?s 0 (drop a xs)" "pos' = length xs - a" using False assms(5) by (auto simp: put_text_def a_def)
    have l: "length ?s = N" using False assms(1) a by (simp add: memcpy_length a_def)
    have n: "st' ! i = (if i < length xs - a then xs ! (a + i) else if pos \<le> i then xs ! (i - pos) else st ! i)" if "i < N" for i
      using that False a assms(1,4) l unfolding r by (auto simp: memcpy_nth a_def)
    have wrap: "(pos + k) mod N = (if k < a then pos + k else k - a)" if "k < length xs" for k
      using that a assms(4) by (auto simp: mod_if)
    have "pos + length xs = pos' + N" using r(2) a False by (simp add: a_def)
    then have "pos' mod N = (pos + length xs) mod N" by simp
    moreover have "st' ! ((pos + k) mod N) = xs ! k" if "k < length xs" for k
    proof (cases "k < a")
      case True
      have "pos + k < N" "\<not> pos + k < length xs - a" using True a assms(4) by simp_all
      with n [of "pos + k"] True wrap [OF that] show ?thesis by simp
    next
      case False
      have "k - a < N" "k - a < length xs - a" "a + (k - a) = k" using False that a assms(4) by simp_all
      with n [of "k - a"] False wrap [OF that] show ?thesis by simp
    qed
    moreover have "st' ! i = st ! i" if i: "i < N" "\<forall>k < length xs. i \<noteq> (pos + k) mod N" for i
    proof -
      have "\<not> i < length xs - a"
      proof
        assume "i < length xs - a"
        then have "a + i < length xs" "\<not> a + i < a" by simp_all
        with wrap [of "a + i"] i(2) show False by auto
      qed
      moreover have "\<not> pos \<le> i"
      proof
        assume p: "pos \<le> i"
        then have "i - pos < a" using i(1) a by simp
        moreover have "a \<le> length xs" using False by (simp add: a_def)
        ultimately show False using i(1) i(2) [rule_format, of "i - pos"] p by simp
      qed
      ultimately show ?thesis using n [OF i(1)] by simp
    qed
    moreover have "length st' = N" using l a assms(4) unfolding r by (simp add: memcpy_length)
    ultimately show ?thesis using r(2) assms(4) by auto
  qed
  then show "length st' = N" "pos' \<le> N" "pos' mod N = (pos + length xs) mod N"
    "\<And>k. k < length xs \<Longrightarrow> st' ! ((pos + k) mod N) = xs ! k"
    "\<And>i. i < N \<Longrightarrow> (\<And>k. k < length xs \<Longrightarrow> i \<noteq> (pos + k) mod N) \<Longrightarrow> st' ! i = st ! i" by blast+
qed

lemma ring_text_put:
  assumes "length st = N" "pos \<le> N" "avail = N - pos" "length xs \<le> N" "put_text st pos avail xs = (st', pos')"
    and "w mod N = pos mod N"
  shows "ring_text st' w (length xs) = xs"
    "\<And>v len. v + len \<le> w \<Longrightarrow> w + length xs \<le> v + N \<Longrightarrow> ring_text st' v len = ring_text st v len"
proof -
  note put = put_text_ring [OF assms(1-5)]
  have m: "(w + k) mod N = (pos + k) mod N" for k using assms(6) by (metis mod_add_left_eq)
  show "ring_text st' w (length xs) = xs"
    by (rule nth_equalityI) (use put(4) m in simp_all)
  fix v len assume v: "v + len \<le> w" "w + length xs \<le> v + N"
  show "ring_text st' v len = ring_text st v len"
  proof (rule nth_equalityI)
    fix i assume "i < length (ring_text st' v len)"
    then have i: "i < len" by simp
    have "(v + i) mod N \<noteq> (pos + k) mod N" if "k < length xs" for k
    proof
      assume "(v + i) mod N = (pos + k) mod N"
      then have "(w + k) mod N = (v + i) mod N" using m by simp
      moreover have "v + i \<le> w + k" using i v by simp
      ultimately have "N dvd (w + k) - (v + i)" using mod_eq_dvd_iff_nat [of "v + i" "w + k" N] by simp
      moreover have "0 < (w + k) - (v + i)" "(w + k) - (v + i) < N" using i v that by simp_all
      ultimately show False by (simp add: nat_dvd_not_less)
    qed
    then have "st' ! ((v + i) mod N) = st ! ((v + i) mod N)" by (intro put(5)) auto
    then show "ring_text st' v len ! i = ring_text st v len ! i" using i by simp
  qed simp
qed

section \<open>Reference: the dynamic table of RFC 7541\<close>

definition field_size :: "field \<Rightarrow> nat" where
  "field_size f = length (fst f) + length (snd f) + 32"

definition table_bytes :: "field list \<Rightarrow> nat" where
  "table_bytes t = sum_list (map field_size t)"

text \<open>Newest first; entries are evicted from the end until the rest fits.\<close>

function evict_to :: "nat \<Rightarrow> field list \<Rightarrow> field list" where
  "evict_to k t = (if table_bytes t \<le> k \<or> t = [] then t else evict_to k (butlast t))"
  by pat_completeness auto
termination
  by (relation "measure (\<lambda>(k, t). length t)") auto

declare evict_to.simps [simp del]

definition table_add :: "nat \<Rightarrow> field \<Rightarrow> field list \<Rightarrow> field list" where
  "table_add limit f t = (if field_size f > limit then [] else f # evict_to (limit - field_size f) t)"

section \<open>Invariant and abstraction\<close>

definition text_sizes :: "hpack \<Rightarrow> nat" where
  "text_sizes h = (\<Sum>j = deleted h..<added h. name_len (entry_at h j) + value_len (entry_at h j) + 32)"

text \<open>\<open>v j\<close> is the virtual position of the text of entry \<open>j\<close>, \<open>v (added h)\<close> that of \<open>hpos\<close>.\<close>

definition placed :: "hpack \<Rightarrow> (nat \<Rightarrow> nat) \<Rightarrow> bool" where
  "placed h v \<longleftrightarrow>
     (\<forall>j. deleted h \<le> j \<and> j < added h \<longrightarrow>
        (let e = entry_at h j in
         name_data e \<le> N \<and> value_data e \<le> N \<and> name_data e mod N = v j mod N \<and>
         value_data e mod N = (v j + name_len e) mod N \<and> v (Suc j) = v j + name_len e + value_len e)) \<and>
     hpos h \<le> N \<and> hpos h mod N = v (added h) mod N"

definition hpack_inv :: "hpack \<Rightarrow> bool" where
  "hpack_inv h \<longleftrightarrow>
     (\<exists>es. entries h = Some es \<and> length es = allocated h) \<and> 0 < allocated h \<and> length (storage h) = N \<and>
     reused h \<le> deleted h \<and> deleted h \<le> added h \<and> added h - reused h \<le> allocated h \<and>
     inj_on (slot h) {reused h..<added h} \<and> (\<forall>j \<in> {reused h..<added h}. slot h j < fresh h) \<and>
     tsize h \<le> N \<and> tfree h + text_sizes h = tsize h \<and> (\<exists>v. placed h v)"

definition field_at :: "hpack \<Rightarrow> nat \<Rightarrow> field" where
  "field_at h j =
     (copy_text (storage h) (name_data (entry_at h j)) (name_len (entry_at h j)),
      copy_text (storage h) (value_data (entry_at h j)) (value_len (entry_at h j)))"

definition table_of :: "hpack \<Rightarrow> field list" where
  "table_of h = rev (map (field_at h) [deleted h..<added h])"

lemma invD:
  assumes "hpack_inv h"
  obtains es v where "entries h = Some es" "length es = allocated h" "0 < allocated h" "length (storage h) = N"
    "reused h \<le> deleted h" "deleted h \<le> added h" "added h - reused h \<le> allocated h" "inj_on (slot h) {reused h..<added h}"
    "\<And>j. reused h \<le> j \<Longrightarrow> j < added h \<Longrightarrow> slot h j < fresh h" "tsize h \<le> N" "tfree h + text_sizes h = tsize h" "placed h v"
  using assms unfolding hpack_inv_def by auto

lemma placed_sum:
  assumes "placed h v" "deleted h \<le> i" "i \<le> j" "j \<le> added h"
  shows "v j = v i + (\<Sum>k = i..<j. name_len (entry_at h k) + value_len (entry_at h k))"
  using assms(3,4)
proof (induction j rule: dec_induct)
  case (step n)
  then show ?case using assms(1,2) by (simp add: placed_def Let_def)
qed simp

lemma sizes_split: "text_sizes h = (\<Sum>k = deleted h..<added h. name_len (entry_at h k) + value_len (entry_at h k))
    + 32 * (added h - deleted h)"
  by (simp add: text_sizes_def sum.distrib)

text \<open>Lengths of live texts fit the ring, and reading them is reading the ring.\<close>

lemma field_at_ring:
  assumes "hpack_inv h" "placed h v" "deleted h \<le> j" "j < added h"
  shows "field_at h j = (ring_text (storage h) (v j) (name_len (entry_at h j)),
                         ring_text (storage h) (v j + name_len (entry_at h j)) (value_len (entry_at h j)))"
proof -
  have "name_len (entry_at h j) + value_len (entry_at h j) + 32 \<le> text_sizes h"
    unfolding text_sizes_def using assms(3,4) by (intro member_le_sum [of j _ "\<lambda>j. name_len (entry_at h j) + value_len (entry_at h j) + 32"]) auto
  moreover have "text_sizes h \<le> N" using assms(1) by (auto simp: hpack_inv_def)
  ultimately have "name_len (entry_at h j) \<le> N" "value_len (entry_at h j) \<le> N" by simp_all
  moreover have "length (storage h) = N" using assms(1) by (simp add: hpack_inv_def)
  moreover have p: "name_data (entry_at h j) \<le> N" "value_data (entry_at h j) \<le> N"
    "name_data (entry_at h j) mod N = v j mod N" "value_data (entry_at h j) mod N = (v j + name_len (entry_at h j)) mod N"
    using assms(2-4) by (auto simp: placed_def Let_def)
  ultimately show ?thesis
    by (simp add: field_at_def copy_text_ring ring_text_cong_mod [OF p(3)] ring_text_cong_mod [OF p(4)])
qed

section \<open>Eviction\<close>

lemma view_updates [simp]:
  "slot (h\<lparr>deleted := d\<rparr>) = slot h" "slot (h\<lparr>tfree := f\<rparr>) = slot h" "slot (h\<lparr>tsize := s\<rparr>) = slot h"
  "slot (h\<lparr>reused := r\<rparr>) = slot h" "slot (h\<lparr>fresh := n\<rparr>) = slot h" "slot (h\<lparr>storage := st\<rparr>) = slot h"
  "slot (h\<lparr>hpos := p\<rparr>) = slot h" "slot (h\<lparr>heap := hp\<rparr>) = slot h"
  by (simp_all add: slot_def fun_eq_iff)

lemma entry_updates [simp]:
  "entry_at (h\<lparr>deleted := d\<rparr>) = entry_at h" "entry_at (h\<lparr>tfree := f\<rparr>) = entry_at h" "entry_at (h\<lparr>tsize := s\<rparr>) = entry_at h"
  by (simp_all add: entry_at_def fun_eq_iff)

lemma field_updates [simp]:
  "field_at (h\<lparr>deleted := d\<rparr>) = field_at h" "field_at (h\<lparr>tfree := f\<rparr>) = field_at h" "field_at (h\<lparr>tsize := s\<rparr>) = field_at h"
  by (simp_all add: field_at_def fun_eq_iff)

lemma text_lengths:
  assumes "hpack_inv h" "deleted h \<le> j" "j < added h"
  shows "length (fst (field_at h j)) = name_len (entry_at h j)" "length (snd (field_at h j)) = value_len (entry_at h j)"
proof -
  obtain v where "placed h v" using assms(1) by (auto simp: hpack_inv_def)
  from field_at_ring [OF assms(1) this assms(2,3)]
  show "length (fst (field_at h j)) = name_len (entry_at h j)" "length (snd (field_at h j)) = value_len (entry_at h j)" by simp_all
qed

lemma table_bytes_sizes:
  assumes "hpack_inv h"
  shows "table_bytes (table_of h) = text_sizes h"
proof -
  have "table_bytes (table_of h) = sum_list (map (\<lambda>j. field_size (field_at h j)) [deleted h..<added h])"
    by (simp add: table_bytes_def table_of_def comp_def sum_list_rev flip: rev_map)
  also have "\<dots> = text_sizes h"
    unfolding text_sizes_def interv_sum_list_conv_sum_set_nat
    using text_lengths [OF assms] by (intro sum.cong) (auto simp: field_size_def)
  finally show ?thesis .
qed

lemma evict_refines:
  assumes "hpack_inv h" "deleted h < added h"
  shows "hpack_inv (evict h)" "table_of (evict h) = butlast (table_of h)" "tsize (evict h) = tsize h"
proof -
  from assms(1) obtain es v where i: "entries h = Some es" "length es = allocated h" "0 < allocated h" "length (storage h) = N"
    "reused h \<le> deleted h" "deleted h \<le> added h" "added h - reused h \<le> allocated h" "inj_on (slot h) {reused h..<added h}"
    "\<And>j. reused h \<le> j \<Longrightarrow> j < added h \<Longrightarrow> slot h j < fresh h" "tsize h \<le> N" "tfree h + text_sizes h = tsize h" "placed h v"
    by (rule invD) blast
  have "text_sizes h = name_len (entry_at h (deleted h)) + value_len (entry_at h (deleted h)) + 32 + text_sizes (h\<lparr>deleted := Suc (deleted h)\<rparr>)"
    using assms(2) by (simp add: text_sizes_def sum.atLeast_Suc_lessThan)
  moreover have "placed (evict h) v" using i(12) by (simp add: placed_def evict_def Let_def)
  ultimately show "hpack_inv (evict h)"
    using i assms(2) unfolding hpack_inv_def by (auto simp: evict_def Let_def text_sizes_def)
  have "[deleted h..<added h] = deleted h # [Suc (deleted h)..<added h]" using assms(2) by (simp add: upt_conv_Cons)
  then show "table_of (evict h) = butlast (table_of h)" by (simp add: table_of_def evict_def Let_def)
  show "tsize (evict h) = tsize h" by (simp add: evict_def Let_def)
qed

lemma nonempty_if_short:
  assumes "hpack_inv h" "tfree h < tsize h"
  shows "deleted h < added h"
proof (rule ccontr)
  assume "\<not> deleted h < added h"
  then have "text_sizes h = 0" by (simp add: text_sizes_def)
  with assms show False by (simp add: hpack_inv_def)
qed

lemma evict_to_step:
  assumes "hpack_inv h" "tfree h < sz" "sz \<le> tsize h"
  shows "evict_to (tsize h - sz) (table_of h) = evict_to (tsize h - sz) (table_of (evict h))"
proof -
  have "deleted h < added h" using nonempty_if_short [OF assms(1)] assms(2,3) by simp
  moreover then have "table_of h \<noteq> []" by (simp add: table_of_def)
  moreover have "\<not> table_bytes (table_of h) \<le> tsize h - sz"
    using assms table_bytes_sizes [OF assms(1)] by (auto simp: hpack_inv_def)
  ultimately show ?thesis using evict_refines(2) [OF assms(1)] by (simp add: evict_to.simps [of _ "table_of h"])
qed

lemma evict_to_done:
  assumes "hpack_inv h" "sz \<le> tfree h"
  shows "evict_to (tsize h - sz) (table_of h) = table_of h"
  using assms table_bytes_sizes [OF assms(1)] by (auto simp: evict_to.simps [of _ "table_of h"] hpack_inv_def)

lemma account_loop_refines:
  assumes "hpack_inv h" "tfree h < sz" "sz \<le> tsize h"
  shows "hpack_inv (account_loop sz h) \<and> sz \<le> tfree (account_loop sz h) \<and> tsize (account_loop sz h) = tsize h \<and>
    table_of (account_loop sz h) = evict_to (tsize h - sz) (table_of h)"
  using assms
proof (induction sz h rule: account_loop.induct)
  case (1 sz h)
  have ne: "deleted h < added h" using nonempty_if_short [OF 1(2)] 1(3,4) by simp
  note e = evict_refines [OF 1(2) ne]
  show ?case
  proof (cases "sz > tfree (evict h)")
    case True
    with 1(1) [OF refl True e(1)] 1(4) e(3) evict_to_step [OF 1(2-4)] show ?thesis
      by (subst (1 2 3 4) account_loop.simps) (simp add: Let_def)
  next
    case False
    with e evict_to_step [OF 1(2-4)] evict_to_done [OF e(1), of sz] show ?thesis
      by (subst (1 2 3 4) account_loop.simps) (simp add: Let_def)
  qed
qed

lemma size_loop_refines:
  assumes "hpack_inv h" "sz \<le> tsize h"
  shows "hpack_inv (size_loop (int (tsize h) - int sz) h) \<and> tsize (size_loop (int (tsize h) - int sz) h) = tsize h \<and>
    tsize h - sz \<le> tfree (size_loop (int (tsize h) - int sz) h) \<and>
    table_of (size_loop (int (tsize h) - int sz) h) = evict_to sz (table_of h)"
  using assms
proof (induction "tsize h - tfree h" arbitrary: h rule: less_induct)
  case less
  have eq: "tsize h - (tsize h - sz) = sz" using less.prems(2) by simp
  show ?case
  proof (cases "int (tsize h) - int sz > int (tfree h)")
    case True
    then have short: "tfree h < tsize h - sz" by simp
    have ne: "deleted h < added h" using nonempty_if_short [OF less.prems(1)] short by simp
    note e = evict_refines [OF less.prems(1) ne]
    have "tsize (evict h) - tfree (evict h) < tsize h - tfree h" using e(3) evict_free [of h] short by simp
    from less.hyps [OF this e(1)] less.prems(2) e(3) True evict_to_step [OF less.prems(1) short] eq
    show ?thesis by (subst (1 2 3 4) size_loop.simps) simp
  next
    case False
    then have "tsize h - sz \<le> tfree h" by simp
    with False less.prems evict_to_done [OF less.prems(1), of "tsize h - sz"] eq show ?thesis
      by (subst (1 2 3 4) size_loop.simps) simp
  qed
qed

section \<open>Adding an entry\<close>

lemma new_entry_fresh:
  assumes "hpack_inv h" "new_entry h = (p, h2)"
  shows "p < fresh h2" "p \<notin> slot h ` {reused h2..<added h}" "reused h2 \<le> deleted h" "reused h \<le> reused h2"
    "fresh h \<le> fresh h2" "added h - reused h2 < allocated h \<or> (reused h2 = deleted h \<and> added h - deleted h = allocated h)"
    "h2 = h\<lparr>fresh := fresh h2, reused := reused h2\<rparr>"
proof -
  from assms(1) obtain es v where i: "entries h = Some es" "length es = allocated h" "0 < allocated h" "length (storage h) = N"
    "reused h \<le> deleted h" "deleted h \<le> added h" "added h - reused h \<le> allocated h" "inj_on (slot h) {reused h..<added h}"
    "\<And>j. reused h \<le> j \<Longrightarrow> j < added h \<Longrightarrow> slot h j < fresh h" "tsize h \<le> N" "tfree h + text_sizes h = tsize h" "placed h v"
    by (rule invD) blast
  have "p < fresh h2 \<and> p \<notin> slot h ` {reused h2..<added h} \<and> reused h2 \<le> deleted h \<and> reused h \<le> reused h2 \<and>
    fresh h \<le> fresh h2 \<and> (added h - reused h2 < allocated h \<or> (reused h2 = deleted h \<and> added h - deleted h = allocated h)) \<and>
    h2 = h\<lparr>fresh := fresh h2, reused := reused h2\<rparr>"
  proof (cases "reused h = deleted h")
    case True
    with assms(2) have "p = fresh h" "h2 = h\<lparr>fresh := fresh h + 1\<rparr>" by (auto simp: new_entry_def)
    with True i(6,7,9) show ?thesis by fastforce
  next
    case False
    with assms(2) have r: "p = slot h (reused h)" "h2 = h\<lparr>reused := reused h + 1\<rparr>" by (auto simp: new_entry_def)
    have "slot h (reused h) \<notin> slot h ` {Suc (reused h)..<added h}"
    proof
      assume "slot h (reused h) \<in> slot h ` {Suc (reused h)..<added h}"
      then obtain x where x: "slot h (reused h) = slot h x" "Suc (reused h) \<le> x" "x < added h" by auto
      with inj_onD [OF i(8) x(1)] show False by auto
    qed
    moreover have "slot h (reused h) < fresh h" using i(9) [of "reused h"] False i(5,6) by simp
    ultimately show ?thesis using r False i(5-7) by auto
  qed
  then show "p < fresh h2" "p \<notin> slot h ` {reused h2..<added h}" "reused h2 \<le> deleted h" "reused h \<le> reused h2"
    "fresh h \<le> fresh h2" "added h - reused h2 < allocated h \<or> (reused h2 = deleted h \<and> added h - deleted h = allocated h)"
    "h2 = h\<lparr>fresh := fresh h2, reused := reused h2\<rparr>" by blast+
qed

text \<open>
  The two writes of a new entry: its texts can be read back at the next virtual position, and
  every text within the last \<open>N - L\<close> bytes is unchanged.
\<close>

lemma fill_entry_ring:
  assumes "length (storage h) = N" "hpos h \<le> N" "w mod N = hpos h mod N" "length name + length value \<le> N"
    and "h3 = fill_entry p (name, value) h"
  shows "length (storage h3) = N" "hpos h3 \<le> N" "hpos h3 mod N = (w + length name + length value) mod N"
    "\<exists>e. h3 = h\<lparr>heap := (heap h)(p := e), storage := storage h3, hpos := hpos h3\<rparr> \<and> name_len e = length name \<and>
       value_len e = length value \<and> name_data e \<le> N \<and> value_data e \<le> N \<and> name_data e mod N = w mod N \<and>
       value_data e mod N = (w + length name) mod N"
    "ring_text (storage h3) w (length name) = name" "ring_text (storage h3) (w + length name) (length value) = value"
    "\<And>v len. v + len \<le> w \<Longrightarrow> w + (length name + length value) \<le> v + N \<Longrightarrow>
       ring_text (storage h3) v len = ring_text (storage h) v len"
proof -
  define a where "a = N - hpos h"
  obtain st pos where p1: "put_text (storage h) (hpos h) a name = (st, pos)" by fastforce
  define b where "b = (if a \<ge> length name then a else N) - length name"
  obtain st2 pos2 where p2: "put_text st pos b value = (st2, pos2)" by fastforce
  have ln: "length name \<le> N" and lv: "length value \<le> N" using assms(4) by simp_all
  note r1 = put_text_ring [OF assms(1,2) a_def ln p1]
  have b2: "put_text st pos (N - pos) value = (st2, pos2)"
  proof (cases "length name \<le> a")
    case True
    then have "pos = hpos h + length name" using p1 by (simp add: put_text_def)
    then have "b = N - pos" using True by (simp add: b_def a_def)
    then show ?thesis using p2 by simp
  next
    case False
    then have "pos = length name - a" using p1 by (simp add: put_text_def)
    moreover have "length value \<le> b" using False assms(4) by (simp add: b_def)
    ultimately show ?thesis using p2 assms(4) False by (auto simp: put_text_def)
  qed
  note r2 = put_text_ring [OF r1(1,2) refl lv b2]
  have w2: "(w + length name) mod N = pos mod N" using r1(3) assms(3) by (metis mod_add_left_eq)
  note t1 = ring_text_put [OF assms(1,2) a_def ln p1 assms(3)]
  note t2 = ring_text_put [OF r1(1,2) refl lv b2 w2]
  have h3: "h3 = h\<lparr>heap := (heap h)(p := \<lparr> name_data = hpos h, name_len = length name, value_data = pos, value_len = length value \<rparr>),
      storage := st2, hpos := pos2\<rparr>"
    unfolding assms(5) fill_entry_def using p1 [unfolded a_def] p2 [unfolded b_def a_def] by (simp add: Let_def)
  show "length (storage h3) = N" "hpos h3 \<le> N" using h3 r2 by simp_all
  show "hpos h3 mod N = (w + length name + length value) mod N"
    using h3 r2(3) mod_add_cong [OF w2 refl, of "length value"] by simp
  show "\<exists>e. h3 = h\<lparr>heap := (heap h)(p := e), storage := storage h3, hpos := hpos h3\<rparr> \<and> name_len e = length name \<and>
       value_len e = length value \<and> name_data e \<le> N \<and> value_data e \<le> N \<and> name_data e mod N = w mod N \<and>
       value_data e mod N = (w + length name) mod N"
    by (rule exI [of _ "\<lparr> name_data = hpos h, name_len = length name, value_data = pos, value_len = length value \<rparr>"])
      (use h3 assms(2,3) w2 r1(2) in simp)
  show "ring_text (storage h3) w (length name) = name"
    using t1(1) t2(2) [of w "length name"] assms(4) h3 by simp
  show "ring_text (storage h3) (w + length name) (length value) = value" using t2(1) h3 by simp
  show "ring_text (storage h3) v len = ring_text (storage h) v len"
    if "v + len \<le> w" "w + (length name + length value) \<le> v + N" for v len
    using t1(2) [of v len] t2(2) [of v len] that h3 by simp
qed

lemma mod_wrap: "(A::nat) \<le> x \<Longrightarrow> x < 2 * A \<Longrightarrow> x mod A = x - A"
  by (simp add: le_mod_geq)

text \<open>Growing the ring of pointers and storing the new one: what the slots hold afterwards.\<close>

lemma push_grow_slots:
  assumes "entries h = Some es" "length es = allocated h" "0 < allocated h" "reused h \<le> deleted h" "deleted h \<le> added h"
    and "added h - reused h < allocated h \<or> (reused h = deleted h \<and> added h - deleted h = allocated h)"
    and "h4 = push_entry p (grow h)"
  shows "\<exists>s es4. entries h4 = Some es4 \<and> length es4 = allocated h4 \<and> 0 < allocated h4 \<and> added h4 - reused h4 \<le> allocated h4 \<and>
    deleted h4 + s = deleted h \<and> added h4 + s = Suc (added h) \<and> reused h4 + s = reused h \<and>
    (\<forall>j. reused h4 \<le> j \<and> Suc j < added h4 \<longrightarrow> slot h4 j = slot h (j + s)) \<and> slot h4 (added h4 - 1) = p \<and>
    h4 = h\<lparr>entries := entries h4, added := added h4, deleted := deleted h4, reused := reused h4, allocated := allocated h4\<rparr>"
proof (cases "allocated h = added h - deleted h")
  case False
  then have lt: "added h - reused h < allocated h" using assms(6) by simp
  have g: "grow h = h" using False by (simp add: grow_def)
  have "(added h) mod allocated h \<noteq> j mod allocated h" if "reused h \<le> j" "j < added h" for j
  proof
    assume "added h mod allocated h = j mod allocated h"
    then have "allocated h dvd added h - j" using that mod_eq_dvd_iff_nat [of j "added h" "allocated h"] by simp
    moreover have "0 < added h - j" "added h - j < allocated h" using that lt by simp_all
    ultimately show False by (simp add: nat_dvd_not_less)
  qed
  then show ?thesis
    using assms lt unfolding assms(7) g
    by (intro exI [of _ 0] exI [of _ "es[added h mod allocated h := p]"]) (auto simp: push_entry_def slot_def nth_list_update)
next
  case True
  define A where "A = allocated h"
  have r: "reused h = deleted h" using assms(4,6) True by auto
  let ?i = "deleted h mod A"
  let ?es = "drop ?i es @ take ?i es @ replicate 64 0"
  have g: "grow h = h\<lparr>entries := Some ?es, added := A, deleted := 0, reused := 0, allocated := A + 64\<rparr>"
    using True assms(1) by (simp add: grow_def Let_def A_def)
  have i: "?i < A" using assms(3) by (simp add: A_def)
  have nth: "?es ! j = slot h (j + deleted h)" if "j < A" for j
  proof (cases "j < A - ?i")
    case True
    have "(j + deleted h) mod A = (j + ?i) mod A" by (simp add: mod_add_right_eq)
    also have "\<dots> = j + ?i" using True i by simp
    finally show ?thesis using True that assms(1,2) i by (simp add: nth_append slot_def A_def add.commute)
  next
    case False
    have "(j + deleted h) mod A = (j + ?i) mod A" by (simp add: mod_add_right_eq)
    also have "\<dots> = j + ?i - A" using False that i by (intro mod_wrap; linarith)
    finally have "(j + deleted h) mod A = j + ?i - A" .
    moreover have "j + ?i - A < ?i" using that False i by linarith
    ultimately show ?thesis using False that assms(1,2) by (simp add: nth_append slot_def A_def)
  qed
  have len: "length ?es = A + 64" using assms(2) i by (simp add: A_def)
  have h4: "h4 = h\<lparr>entries := Some (?es[A := p]), added := Suc A, deleted := 0, reused := 0, allocated := A + 64\<rparr>"
    unfolding assms(7) g by (simp add: push_entry_def)
  have s1: "slot h4 j = slot h (j + deleted h)" if "j < A" for j
  proof -
    have "slot h4 j = ?es ! j" using that unfolding h4 slot_def by simp
    then show ?thesis by (simp only: nth [OF that])
  qed
  have s2: "slot h4 A = p" using len unfolding h4 slot_def by simp
  have s3: "added h = A + deleted h" using True assms(5) by (simp add: A_def)
  have s4: "entries h4 = Some (?es[A := p])" "added h4 = Suc A" "deleted h4 = 0" "reused h4 = 0" "allocated h4 = A + 64"
    unfolding h4 by simp_all
  have self: "h4 = h\<lparr>entries := entries h4, added := added h4, deleted := deleted h4, reused := reused h4, allocated := allocated h4\<rparr>"
    unfolding h4 by simp
  have s5: "length (?es[A := p]) = A + 64" using len by simp
  show ?thesis
    by (intro exI [of _ "deleted h"] exI [of _ "?es[A := p]"] conjI; (rule self)?; simp only: s2 s3 s4 s5 r diff_Suc_1; simp add: s1)
qed

lemma new_entry_free: "new_entry h = (p, h2) \<Longrightarrow> new_entry (h\<lparr>tfree := f\<rparr>) = (p, h2\<lparr>tfree := f\<rparr>)"
  by (auto simp: new_entry_def split: if_splits)

lemma add_entry_refines:
  assumes "hpack_inv h" "field_size f \<le> tfree h"
    and "new_entry (h\<lparr>tfree := tfree h - field_size f\<rparr>) = (p, h2)" "h4 = push_entry p (grow (fill_entry p f h2))"
  shows "hpack_inv h4" "table_of h4 = f # table_of h" "tsize h4 = tsize h"
proof -
  obtain name val where f: "f = (name, val)" by fastforce
  let ?L = "length name + length val"
  have fs: "field_size f = ?L + 32" by (simp add: f field_size_def)
  from assms(1) obtain es v where i: "entries h = Some es" "length es = allocated h" "0 < allocated h" "length (storage h) = N"
    "reused h \<le> deleted h" "deleted h \<le> added h" "added h - reused h \<le> allocated h" "inj_on (slot h) {reused h..<added h}"
    "\<And>j. reused h \<le> j \<Longrightarrow> j < added h \<Longrightarrow> slot h j < fresh h" "tsize h \<le> N" "tfree h + text_sizes h = tsize h" "placed h v"
    by (rule invD) blast
  obtain k where k: "new_entry h = (p, k)" "h2 = k\<lparr>tfree := tfree h - field_size f\<rparr>"
    using new_entry_free assms(3) by (metis prod.inject surj_pair)
  note n = new_entry_fresh [OF assms(1) k(1)]
  define w where "w = v (added h)"
  have h2: "h2 = h\<lparr>tfree := tfree h - field_size f, fresh := fresh k, reused := reused k\<rparr>"
    unfolding k(2) by (subst n(7)) simp
  have sw: "length (storage h2) = N" "hpos h2 \<le> N" "w mod N = hpos h2 mod N" "?L \<le> N"
    using i(4,10-12) assms(2) fs by (simp_all add: h2 placed_def w_def)
  define h3 where "h3 = fill_entry p f h2"
  note r = fill_entry_ring [OF sw h3_def [unfolded f]]
  from r(4) obtain e where e: "h3 = h2\<lparr>heap := (heap h2)(p := e), storage := storage h3, hpos := hpos h3\<rparr>"
    "name_len e = length name" "value_len e = length val" "name_data e \<le> N" "value_data e \<le> N"
    "name_data e mod N = w mod N" "value_data e mod N = (w + length name) mod N" by blast
  have h3: "entries h3 = Some es" "allocated h3 = allocated h" "reused h3 = reused k" "deleted h3 = deleted h" "added h3 = added h"
    "slot h3 = slot h" "fresh h3 = fresh k" "tsize h3 = tsize h" "tfree h3 = tfree h - field_size f" "heap h3 = (heap h)(p := e)"
    by (subst e(1); simp add: h2 i(1))+
  have "\<exists>s es4. entries h4 = Some es4 \<and> length es4 = allocated h4 \<and> 0 < allocated h4 \<and> added h4 - reused h4 \<le> allocated h4 \<and>
    deleted h4 + s = deleted h3 \<and> added h4 + s = Suc (added h3) \<and> reused h4 + s = reused h3 \<and>
    (\<forall>j. reused h4 \<le> j \<and> Suc j < added h4 \<longrightarrow> slot h4 j = slot h3 (j + s)) \<and> slot h4 (added h4 - 1) = p \<and>
    h4 = h3\<lparr>entries := entries h4, added := added h4, deleted := deleted h4, reused := reused h4, allocated := allocated h4\<rparr>"
    by (rule push_grow_slots) (use h3 i n(3,6) assms(4) h3_def in simp_all)
  then obtain s es4 where g: "entries h4 = Some es4" "length es4 = allocated h4" "0 < allocated h4" "added h4 - reused h4 \<le> allocated h4"
    "deleted h4 + s = deleted h" "added h4 + s = Suc (added h)" "reused h4 + s = reused k"
    "\<And>j. reused h4 \<le> j \<Longrightarrow> Suc j < added h4 \<Longrightarrow> slot h4 j = slot h (j + s)" "slot h4 (added h4 - 1) = p"
    "h4 = h3\<lparr>entries := entries h4, added := added h4, deleted := deleted h4, reused := reused h4, allocated := allocated h4\<rparr>"
    unfolding h3 by blast
  have h4: "storage h4 = storage h3" "hpos h4 = hpos h3" "heap h4 = (heap h)(p := e)" "fresh h4 = fresh k" "tsize h4 = tsize h"
    "tfree h4 = tfree h - field_size f"
    by (subst g(10); simp add: h3)+
  define a where "a = added h4 - 1"
  have a: "added h4 = Suc a" "a + s = added h" "deleted h4 \<le> a" "reused h4 \<le> deleted h4"
    using g(5-7) i(6) n(3) by (simp_all add: a_def)
  have live: "entry_at h4 j = entry_at h (j + s)" if "deleted h4 \<le> j" "j < a" for j
  proof -
    have "slot h (j + s) \<in> slot h ` {reused k..<added h}" using that a g(7) by auto
    then have "slot h (j + s) \<noteq> p" using n(2) by auto
    then show ?thesis using g(8) [of j] that a h4(3) by (simp add: entry_at_def)
  qed
  have ptr: "slot h4 a = p" using g(9) unfolding a_def .
  have new: "entry_at h4 a = e" by (simp add: entry_at_def ptr h4(3))
  define v4 where "v4 = (\<lambda>j. if j = Suc a then w + ?L else v (j + s))"
  have "placed h4 v4"
    unfolding placed_def
  proof (intro conjI allI impI)
    fix j assume j: "deleted h4 \<le> j \<and> j < added h4"
    show "let e = entry_at h4 j in name_data e \<le> N \<and> value_data e \<le> N \<and> name_data e mod N = v4 j mod N \<and>
         value_data e mod N = (v4 j + name_len e) mod N \<and> v4 (Suc j) = v4 j + name_len e + value_len e"
    proof (cases "j = a")
      case True
      then show ?thesis using new e a(2) by (simp add: v4_def w_def Let_def)
    next
      case False
      with j a have j': "deleted h4 \<le> j" "j < a" "deleted h \<le> j + s" "j + s < added h" using g(5) by simp_all
      then show ?thesis using live [OF j'(1,2)] i(12) by (simp add: v4_def placed_def Let_def)
    qed
  next
    show "hpos h4 \<le> N" "hpos h4 mod N = v4 (added h4) mod N" using h4(2) r(2,3) a(1) by (simp_all add: v4_def add.assoc)
  qed
  moreover have "text_sizes h4 = text_sizes h + field_size f"
  proof -
    have "text_sizes h4 = (\<Sum>j = deleted h4..<a. name_len (entry_at h4 j) + value_len (entry_at h4 j) + 32) + field_size f"
      using a new e by (simp add: text_sizes_def fs)
    also have "(\<Sum>j = deleted h4..<a. name_len (entry_at h4 j) + value_len (entry_at h4 j) + 32) =
        (\<Sum>j = deleted h4..<a. name_len (entry_at h (j + s)) + value_len (entry_at h (j + s)) + 32)"
      using live by (intro sum.cong) auto
    also have "\<dots> = text_sizes h"
      unfolding text_sizes_def g(5) [symmetric] a(2) [symmetric] by (simp only: sum.shift_bounds_nat_ivl)
    finally show ?thesis .
  qed
  moreover have "inj_on (slot h4) {reused h4..<added h4} \<and> (\<forall>j \<in> {reused h4..<added h4}. slot h4 j < fresh h4)"
  proof -
    have old: "slot h4 j = slot h (j + s)" "j + s \<in> {reused k..<added h}" if "reused h4 \<le> j" "j < a" for j
      using g(8) [of j] that a g(7) by simp_all
    have "inj_on (slot h4) {reused h4..<a}"
    proof (rule inj_onI)
      fix x y assume xy: "x \<in> {reused h4..<a}" "y \<in> {reused h4..<a}" "slot h4 x = slot h4 y"
      then have "slot h (x + s) = slot h (y + s)" using old by simp
      moreover have "x + s \<in> {reused h..<added h}" "y + s \<in> {reused h..<added h}" using xy old(2) n(4) by force+
      ultimately show "x = y" using inj_onD [OF i(8)] by fastforce
    qed
    moreover have "p \<notin> slot h4 ` {reused h4..<a}" using n(2) old by auto
    moreover have "{reused h4..<added h4} = insert a {reused h4..<a}" using a by auto
    moreover note ptr
    moreover have "slot h4 j < fresh h4" if "j \<in> {reused h4..<a}" for j
    proof -
      have "reused h \<le> j + s" "j + s < added h" using old(2) [of j] that n(4) by auto
      with i(9) [of "j + s"] old(1) [of j] that n(5) h4(4) show ?thesis by simp
    qed
    ultimately show ?thesis using n(1) h4(4) by (auto simp: inj_on_insert)
  qed
  ultimately show inv4: "hpack_inv h4"
    using g(1-4) a h4 r(1) i(10,11) assms(2) unfolding hpack_inv_def by auto
  show "tsize h4 = tsize h" by (rule h4(5))
  have same: "field_at h4 j = field_at h (j + s)" if "deleted h4 \<le> j" "j < a" for j
  proof -
    have js: "deleted h \<le> j + s" "j + s < added h" using that a g(5) by simp_all
    have le: "v (j + s) + (name_len (entry_at h (j + s)) + value_len (entry_at h (j + s))) \<le> w"
      using placed_sum [OF i(12), of "Suc (j + s)" "added h"] placed_sum [OF i(12), of "j + s" "Suc (j + s)"] js by (simp add: w_def)
    have "w \<le> v (j + s) + text_sizes h"
    proof -
      have "w = v (deleted h) + (\<Sum>k = deleted h..<added h. name_len (entry_at h k) + value_len (entry_at h k))"
        using placed_sum [OF i(12), of "deleted h" "added h"] i(6) by (simp add: w_def)
      moreover have "v (deleted h) \<le> v (j + s)" using placed_sum [OF i(12), of "deleted h" "j + s"] js by simp
      ultimately show ?thesis unfolding sizes_split by linarith
    qed
    then have far: "w + ?L \<le> v (j + s) + N" using i(10,11) assms(2) fs by linarith
    have "storage h2 = storage h" by (simp add: h2)
    then show ?thesis
      using field_at_ring [OF inv4 \<open>placed h4 v4\<close>, of j] field_at_ring [OF assms(1) i(12) js] live [OF that] that a(1)
        r(7) [of "v (j + s)" "name_len (entry_at h (j + s))"]
        r(7) [of "v (j + s) + name_len (entry_at h (j + s))" "value_len (entry_at h (j + s))"] le far h4(1)
      by (simp add: v4_def)
  qed
  have "field_at h4 a = f"
    using field_at_ring [OF inv4 \<open>placed h4 v4\<close>, of a] a new e r(5,6) h4(1) by (simp add: v4_def w_def f)
  moreover have "map (field_at h4) [deleted h4..<a] = map (field_at h) [deleted h..<added h]"
  proof (rule nth_equalityI)
    show "length (map (field_at h4) [deleted h4..<a]) = length (map (field_at h) [deleted h..<added h])"
      unfolding length_map length_upt a(2) [symmetric] g(5) [symmetric] by simp
    fix i assume "i < length (map (field_at h4) [deleted h4..<a])"
    then have i: "i < a - deleted h4" by simp
    have q: "deleted h4 + i + s = deleted h + i" and l: "i < added h - deleted h" using i a(2) g(5) by simp_all
    have "field_at h4 (deleted h4 + i) = field_at h (deleted h + i)"
      using same [of "deleted h4 + i"] i unfolding q by simp
    with i l show "map (field_at h4) [deleted h4..<a] ! i = map (field_at h) [deleted h..<added h] ! i" by simp
  qed
  ultimately show "table_of h4 = f # table_of h" using a by (simp add: table_of_def)
qed

section \<open>Operations and the reference\<close>

lemma account_refines:
  assumes "hpack_inv h"
  shows "ngx_http_v2_table_account (length (fst f) + length (snd f)) h =
      (if field_size f > tsize h then (NGX_DECLINED, h\<lparr>deleted := added h, tfree := tsize h\<rparr>)
       else let h' = (if field_size f \<le> tfree h then h else account_loop (field_size f) h)
            in (NGX_OK, h'\<lparr>tfree := tfree h' - field_size f\<rparr>))"
proof -
  have "tfree h \<le> tsize h" using assms by (auto simp: hpack_inv_def)
  then show ?thesis by (auto simp: ngx_http_v2_table_account_def field_size_def Let_def)
qed

lemma clear_inv:
  assumes "hpack_inv h"
  shows "hpack_inv (h\<lparr>deleted := added h, tfree := tsize h\<rparr>)" "table_of (h\<lparr>deleted := added h, tfree := tsize h\<rparr>) = []"
  using assms by (auto simp: hpack_inv_def placed_def text_sizes_def table_of_def)

lemma add_header_refines:
  assumes "hpack_inv h"
  shows "hpack_inv (ngx_http_v2_add_header f h)" "table_of (ngx_http_v2_add_header f h) = table_add (tsize h) f (table_of h)"
    "tsize (ngx_http_v2_add_header f h) = tsize h"
proof -
  have init: "table_init h = h" using assms by (auto simp: table_init_def hpack_inv_def)
  have "hpack_inv (ngx_http_v2_add_header f h) \<and> table_of (ngx_http_v2_add_header f h) = table_add (tsize h) f (table_of h) \<and>
    tsize (ngx_http_v2_add_header f h) = tsize h"
  proof (cases "field_size f > tsize h")
    case True
    with account_refines [OF assms, of f] clear_inv [OF assms] show ?thesis
      by (simp add: ngx_http_v2_add_header_def init table_add_def)
  next
    case False
    define h' where "h' = (if field_size f \<le> tfree h then h else account_loop (field_size f) h)"
    have h': "hpack_inv h'" "field_size f \<le> tfree h'" "tsize h' = tsize h"
      "table_of h' = evict_to (tsize h - field_size f) (table_of h)"
      using account_loop_refines [OF assms, of "field_size f"] evict_to_done [OF assms, of "field_size f"] False assms
      by (auto simp: h'_def)
    obtain p h2 where n: "new_entry (h'\<lparr>tfree := tfree h' - field_size f\<rparr>) = (p, h2)" by fastforce
    have "ngx_http_v2_add_header f h = push_entry p (grow (fill_entry p f h2))"
      using account_refines [OF assms, of f] False n by (simp add: ngx_http_v2_add_header_def init h'_def Let_def split: if_splits)
    with add_entry_refines [OF h'(1,2) n refl] h'(3,4) False show ?thesis by (simp add: table_add_def)
  qed
  then show "hpack_inv (ngx_http_v2_add_header f h)" "table_of (ngx_http_v2_add_header f h) = table_add (tsize h) f (table_of h)"
    "tsize (ngx_http_v2_add_header f h) = tsize h" by blast+
qed

lemma table_size_refines:
  assumes "hpack_inv h" "sz \<le> N"
  shows "\<exists>h'. ngx_http_v2_table_size sz h = Some h' \<and> hpack_inv h' \<and> table_of h' = evict_to sz (table_of h) \<and> tsize h' = sz"
proof (cases "sz \<le> tsize h")
  case True
  define k where "k = size_loop (int (tsize h) - int sz) h"
  note r = size_loop_refines [OF assms(1) True, folded k_def]
  let ?h = "k\<lparr>tsize := sz, tfree := tfree k - (tsize h - sz)\<rparr>"
  have "nat (int (tfree k) - (int (tsize h) - int sz)) = tfree k - (tsize h - sz)" using True by simp
  then have "ngx_http_v2_table_size sz h = Some ?h"
    using assms(2) by (simp add: ngx_http_v2_table_size_def Let_def k_def)
  moreover have "hpack_inv ?h"
    using r True assms(2) by (auto simp: hpack_inv_def placed_def text_sizes_def)
  moreover have "table_of ?h = evict_to sz (table_of h)" using r by (simp add: table_of_def)
  ultimately show ?thesis by auto
next
  case False
  have "size_loop (int (tsize h) - int sz) h = h" using False by (subst size_loop.simps) simp
  moreover have "nat (int (tfree h) - (int (tsize h) - int sz)) = tfree h + (sz - tsize h)" using False by simp
  ultimately have "ngx_http_v2_table_size sz h = Some (h\<lparr>tsize := sz, tfree := tfree h + (sz - tsize h)\<rparr>)"
    using assms(2) by (simp add: ngx_http_v2_table_size_def Let_def)
  moreover have "hpack_inv (h\<lparr>tsize := sz, tfree := tfree h + (sz - tsize h)\<rparr>)"
    using assms False by (auto simp: hpack_inv_def placed_def text_sizes_def)
  moreover have "evict_to sz (table_of h) = table_of h"
    using table_bytes_sizes [OF assms(1)] assms(1) False by (auto simp: evict_to.simps [of sz] hpack_inv_def)
  ultimately show ?thesis by (auto simp: table_of_def)
qed

lemma get_indexed_refines:
  assumes "hpack_inv h" "length ngx_http_v2_static_table < index"
  shows "ngx_http_v2_get_indexed_header h index name_only =
    (let i = index - 1 - length ngx_http_v2_static_table; t = table_of h in
     if i < length t then Some (fst (t ! i), if name_only then None else Some (snd (t ! i))) else None)"
proof -
  let ?i = "index - 1 - length ngx_http_v2_static_table"
  have "table_of h ! ?i = field_at h (added h - ?i - 1)" if "?i < added h - deleted h"
    using that by (simp add: table_of_def rev_nth)
  moreover have "length (table_of h) = added h - deleted h" by (simp add: table_of_def)
  ultimately show ?thesis using assms(2)
    by (auto simp: ngx_http_v2_get_indexed_header_def Let_def field_at_def)
qed

section \<open>The contract of a header table\<close>

text \<open>
  What the decoder of header blocks relies on: additions and changes of the limit keep the
  invariant and act on the abstract table as RFC 7541 says, and a lookup reads the abstract
  table. Then every sequence of operations does.
\<close>

datatype table_op = Add field | Resize nat

fun table_run :: "(field \<Rightarrow> 'h \<Rightarrow> 'h) \<Rightarrow> (nat \<Rightarrow> 'h \<Rightarrow> 'h option) \<Rightarrow> table_op list \<Rightarrow> 'h \<Rightarrow> 'h option" where
  "table_run add resize [] h = Some h"
| "table_run add resize (Add f # ops) h = table_run add resize ops (add f h)"
| "table_run add resize (Resize n # ops) h =
     (case resize n h of None \<Rightarrow> None | Some h' \<Rightarrow> table_run add resize ops h')"

definition reference_add :: "field \<Rightarrow> nat \<times> field list \<Rightarrow> nat \<times> field list" where
  "reference_add f s = (fst s, table_add (fst s) f (snd s))"

definition reference_resize :: "nat \<Rightarrow> nat \<times> field list \<Rightarrow> (nat \<times> field list) option" where
  "reference_resize n s = (if n > N then None else Some (n, evict_to n (snd s)))"

definition reference_get :: "field list \<Rightarrow> nat \<Rightarrow> bool \<Rightarrow> (bytes \<times> bytes option) option" where
  "reference_get t index name_only =
     (let k = length ngx_http_v2_static_table in
      if index = 0 then None
      else if index \<le> k then Some (fst (ngx_http_v2_static_table ! (index - 1)), Some (snd (ngx_http_v2_static_table ! (index - 1))))
      else if index - 1 - k < length t then
        Some (fst (t ! (index - 1 - k)), if name_only then None else Some (snd (t ! (index - 1 - k))))
      else None)"

locale header_table =
  fixes inv :: "'h \<Rightarrow> bool"
    and abs :: "'h \<Rightarrow> nat \<times> field list"
    and add :: "field \<Rightarrow> 'h \<Rightarrow> 'h"
    and resize :: "nat \<Rightarrow> 'h \<Rightarrow> 'h option"
    and get :: "'h \<Rightarrow> nat \<Rightarrow> bool \<Rightarrow> (bytes \<times> bytes option) option"
  assumes add_ok: "inv h \<Longrightarrow> inv (add f h) \<and> abs (add f h) = reference_add f (abs h)"
    and resize_ok: "inv h \<Longrightarrow> rel_option (\<lambda>h' s. inv h' \<and> abs h' = s) (resize n h) (reference_resize n (abs h))"
    and get_ok: "inv h \<Longrightarrow> get h index name_only = reference_get (snd (abs h)) index name_only"
begin

lemma run_refines:
  "inv h \<Longrightarrow> rel_option (\<lambda>h' s. inv h' \<and> abs h' = s) (table_run add resize ops h)
    (table_run reference_add reference_resize ops (abs h))"
proof (induction ops arbitrary: h)
  case (Cons x ops)
  show ?case
  proof (cases x)
    case (Add f)
    with add_ok [OF Cons.prems, of f] Cons.IH [of "add f h"] show ?thesis by simp
  next
    case (Resize n)
    show ?thesis
    proof (cases "resize n h")
      case None
      then show ?thesis using resize_ok [OF Cons.prems, of n] Resize by simp
    next
      case (Some h')
      then obtain "reference_resize n (abs h) = Some (abs h')" "inv h'"
        using resize_ok [OF Cons.prems, of n] by (auto simp: option_rel_Some1)
      then show ?thesis using Cons.IH [of h'] Some Resize by simp
    qed
  qed
qed simp

lemma run_lookup:
  assumes "inv h" "table_run add resize ops h = Some h'"
  shows "\<exists>s. table_run reference_add reference_resize ops (abs h) = Some s \<and>
    (\<forall>index name_only. get h' index name_only = reference_get (snd s) index name_only)"
proof -
  from run_refines [OF assms(1), of ops] assms(2) obtain s where
    "table_run reference_add reference_resize ops (abs h) = Some s" "inv h'" "abs h' = s"
    by (auto simp: option_rel_Some1)
  then show ?thesis using get_ok by auto
qed

end

interpretation ht: header_table hpack_inv "\<lambda>h. (tsize h, table_of h)" ngx_http_v2_add_header ngx_http_v2_table_size
  ngx_http_v2_get_indexed_header
proof
  fix h f assume "hpack_inv h"
  then show "hpack_inv (ngx_http_v2_add_header f h) \<and> (tsize (ngx_http_v2_add_header f h), table_of (ngx_http_v2_add_header f h)) =
      reference_add f (tsize h, table_of h)"
    by (simp add: add_header_refines reference_add_def)
next
  fix h n assume i: "hpack_inv h"
  show "rel_option (\<lambda>h' s. hpack_inv h' \<and> (tsize h', table_of h') = s) (ngx_http_v2_table_size n h)
      (reference_resize n (tsize h, table_of h))"
  proof (cases "n \<le> N")
    case True
    then show ?thesis using table_size_refines [OF i True] by (auto simp: reference_resize_def)
  next
    case False
    then show ?thesis by (simp add: reference_resize_def ngx_http_v2_table_size_def)
  qed
next
  fix h index name_only assume i: "hpack_inv h"
  show "ngx_http_v2_get_indexed_header h index name_only = reference_get (snd (tsize h, table_of h)) index name_only"
  proof (cases "length ngx_http_v2_static_table < index")
    case True
    then show ?thesis using get_indexed_refines [OF i True] by (auto simp: reference_get_def Let_def)
  next
    case False
    then show ?thesis by (auto simp: reference_get_def ngx_http_v2_get_indexed_header_def Let_def)
  qed
qed

section \<open>Properties\<close>

text \<open>The table of a new connection: zeroed, with whatever structures the allocator will return.\<close>

definition hpack_new :: "(nat \<Rightarrow> hentry) \<Rightarrow> hpack" where
  "hpack_new hp = \<lparr> entries = None, added = 0, deleted = 0, reused = 0, allocated = 0, tsize = 0, tfree = 0, storage = [],
                   hpos = 0, heap = hp, fresh = 0 \<rparr>"

lemma table_init_new: "hpack_inv (table_init (hpack_new hp))" "table_of (table_init (hpack_new hp)) = []"
  "tsize (table_init (hpack_new hp)) = N"
  by (simp_all add: hpack_new_def table_init_def hpack_inv_def table_of_def text_sizes_def placed_def exI [of _ "\<lambda>_. 0"])

lemma add_header_init: "ngx_http_v2_add_header f h = ngx_http_v2_add_header f (table_init h)"
  by (simp add: ngx_http_v2_add_header_def table_init_def split: option.split)

text \<open>
  Before the first addition there is no table, only a size: an update changes the size and nothing
  else, and the first addition forgets it.
\<close>

definition no_table :: "(nat \<Rightarrow> hentry) \<Rightarrow> nat \<Rightarrow> hpack" where
  "no_table hp n = (hpack_new hp)\<lparr>tsize := n, tfree := n\<rparr>"

lemma no_table_size:
  "ngx_http_v2_table_size m (no_table hp n) = (if m > N then None else Some (no_table hp m))"
proof -
  have "size_loop (int n - int m) (no_table hp n) = no_table hp n"
    by (subst size_loop.simps) (simp add: no_table_def)
  then show ?thesis by (simp add: ngx_http_v2_table_size_def no_table_def hpack_new_def Let_def)
qed

lemma no_table_init: "table_init (no_table hp n) = table_init (hpack_new hp)"
  by (simp add: no_table_def table_init_def hpack_new_def)

lemma no_table_get: "ngx_http_v2_get_indexed_header (no_table hp n) index name_only = reference_get [] index name_only"
  by (auto simp: ngx_http_v2_get_indexed_header_def reference_get_def no_table_def hpack_new_def Let_def)

text \<open>
  What the code makes of a sequence of operations in the terms of the reference: the first
  addition is preceded by an update to 4096 bytes.
\<close>

fun first_add_resets :: "table_op list \<Rightarrow> table_op list" where
  "first_add_resets [] = []"
| "first_add_resets (Resize n # ops) = Resize n # first_add_resets ops"
| "first_add_resets (Add f # ops) = Resize NGX_HTTP_V2_TABLE_SIZE # Add f # ops"

lemma evict_to_empty [simp]: "evict_to n [] = []"
  by (subst evict_to.simps) simp

lemma run_no_table:
  "rel_option (\<lambda>h s. \<forall>index name_only. ngx_http_v2_get_indexed_header h index name_only = reference_get (snd s) index name_only)
     (table_run ngx_http_v2_add_header ngx_http_v2_table_size ops (no_table hp n))
     (table_run reference_add reference_resize (first_add_resets ops) (n, []))"
proof (induction ops arbitrary: n rule: first_add_resets.induct)
  case (3 f ops)
  let ?h = "table_init (hpack_new hp)"
  have init: "ngx_http_v2_add_header f (no_table hp n) = ngx_http_v2_add_header f ?h"
    by (simp add: add_header_init [of f "no_table hp n"] add_header_init [of f "hpack_new hp"] no_table_init)
  have ref: "table_run reference_add reference_resize (Resize N # Add f # ops) (n, []) =
      table_run reference_add reference_resize (Add f # ops) (N, [])"
    by (simp add: reference_resize_def)
  show ?case
    using ht.run_refines [OF table_init_new(1) [of hp], of "Add f # ops"]
      ht.run_lookup [OF table_init_new(1) [of hp], of "Add f # ops"]
    unfolding first_add_resets.simps ref
    by (cases "table_run ngx_http_v2_add_header ngx_http_v2_table_size (Add f # ops) ?h")
      (auto simp: table_init_new init)
qed (auto simp: no_table_get no_table_size reference_resize_def)

text \<open>
  C8. The header table of HTTP/2 against the dynamic table of RFC 7541, for every sequence of
  additions and size updates of a connection: the code refuses exactly the updates beyond 4096
  bytes, and every lookup by index (static and dynamic, name only or with the value) returns what
  the reference returns, which is a plain list with eviction from the end and in which the first
  addition is preceded by an update to 4096 bytes: the size updates before it are forgotten, the
  later ones are all in force, and without earlier updates it is the table of the RFC itself
  (second part). In particular the ring of bytes and the ring of reused entry structures never
  overwrite a field that is still in the table, also while the ring of pointers grows.
\<close>

theorem hpack_table_refines:
  "(case table_run ngx_http_v2_add_header ngx_http_v2_table_size ops (hpack_new hp) of
      None \<Rightarrow> table_run reference_add reference_resize (first_add_resets ops) (NGX_HTTP_V2_TABLE_SIZE, []) = None
    | Some h \<Rightarrow> (\<exists>s. table_run reference_add reference_resize (first_add_resets ops) (NGX_HTTP_V2_TABLE_SIZE, []) = Some s \<and>
        (\<forall>index name_only. ngx_http_v2_get_indexed_header h index name_only = reference_get (snd s) index name_only))) \<and>
   table_run reference_add reference_resize (first_add_resets (Add f # ops)) (NGX_HTTP_V2_TABLE_SIZE, []) =
     table_run reference_add reference_resize (Add f # ops) (NGX_HTTP_V2_TABLE_SIZE, [])"
proof -
  have new: "hpack_new hp = no_table hp 0" by (simp add: no_table_def hpack_new_def)
  have size: "table_run reference_add reference_resize (first_add_resets ops) (n, []) =
      table_run reference_add reference_resize (first_add_resets ops) (m, [])" if "ops \<noteq> []" for n m
    using that by (cases ops rule: first_add_resets.cases) (auto simp: reference_resize_def)
  have "rel_option (\<lambda>h s. \<forall>index name_only. ngx_http_v2_get_indexed_header h index name_only = reference_get (snd s) index name_only)
      (table_run ngx_http_v2_add_header ngx_http_v2_table_size ops (hpack_new hp))
      (table_run reference_add reference_resize (first_add_resets ops) (NGX_HTTP_V2_TABLE_SIZE, []))"
  proof (cases "ops = []")
    case True
    then show ?thesis by (simp add: new no_table_get)
  next
    case False
    then show ?thesis using run_no_table [of ops hp 0] size [of 0 N] by (simp add: new)
  qed
  then have "case table_run ngx_http_v2_add_header ngx_http_v2_table_size ops (hpack_new hp) of
      None \<Rightarrow> table_run reference_add reference_resize (first_add_resets ops) (NGX_HTTP_V2_TABLE_SIZE, []) = None
    | Some h \<Rightarrow> (\<exists>s. table_run reference_add reference_resize (first_add_resets ops) (NGX_HTTP_V2_TABLE_SIZE, []) = Some s \<and>
        (\<forall>index name_only. ngx_http_v2_get_indexed_header h index name_only = reference_get (snd s) index name_only))"
    by (auto simp: option_rel_Some1 split: option.split)
  then show ?thesis by (simp add: reference_resize_def)
qed

text \<open>
  A size update that arrives before the first header is added is forgotten: the first addition
  sets the limit to 4096 again.
\<close>

theorem early_size_update_lost:
  "map_option (\<lambda>h. tsize (ngx_http_v2_add_header f h)) (ngx_http_v2_table_size 0 (hpack_new hp)) = Some NGX_HTTP_V2_TABLE_SIZE"
proof -
  have "hpack_new hp = no_table hp 0" by (simp add: no_table_def hpack_new_def)
  then have "ngx_http_v2_table_size 0 (hpack_new hp) = Some (hpack_new hp)" by (simp add: no_table_size)
  then show ?thesis using add_header_init [of f "hpack_new hp"] add_header_refines(3) [OF table_init_new(1), of f hp]
    by (simp add: table_init_new)
qed

end
