(* ===== verification/Hpack_Huffman.thy ===== *)
theory Hpack_Huffman
  imports Huff_Tables
begin

text \<open>
  The Huffman code of HPACK: \<open>ngx_http_v2_huff_encode\<close>, which collects the codes in a 64-bit
  accumulator (\<^verbatim>\<open>src/http/v2/ngx_http_v2_huff_encode.c\<close>), and \<open>ngx_http_v2_huff_decode\<close>, an
  automaton that reads four bits a step (\<^verbatim>\<open>src/http/v2/ngx_http_v2_huff_decode.c\<close>). Bits are lists
  of booleans, the most significant first. The lemmas show that the encoder writes the codes one
  after the other and pads them with ones, that the table of the decoder is the prefix tree of the
  table of the encoder four levels at a time, and hence exactly which inputs the decoder accepts.

  The output areas are byte lists that grow. On an error the decoder's caller closes the
  connection, so that the error is \<open>None\<close> and the half-updated state is left out.
\<close>

section \<open>Bits\<close>

definition msb_bits :: "nat \<Rightarrow> 'a::semiring_bits \<Rightarrow> bool list" where
  "msb_bits n w = map (bit w) (rev [0..<n])"

definition byte_bits :: "bytes \<Rightarrow> bool list" where
  "byte_bits bs = concat (map (msb_bits 8) bs)"

lemma length_msb_bits [simp]: "length (msb_bits n w) = n"
  by (simp add: msb_bits_def)

lemma nth_msb_bits [simp]: "i < n \<Longrightarrow> msb_bits n w ! i = bit w (n - 1 - i)"
  by (simp add: msb_bits_def rev_nth)

lemma byte_bits_simps [simp]:
  "byte_bits [] = []" "byte_bits (b # bs) = msb_bits 8 b @ byte_bits bs"
  "byte_bits (as @ bs) = byte_bits as @ byte_bits bs"
  by (simp_all add: byte_bits_def)

lemma length_byte_bits [simp]: "length (byte_bits bs) = 8 * length bs"
  by (induction bs) simp_all

section \<open>The encoder\<close>

definition huff_encode_buf :: "u64 \<Rightarrow> bytes" where
  "huff_encode_buf buf =
     [ucast (drop_bit 56 buf), ucast (drop_bit 48 buf), ucast (drop_bit 40 buf), ucast (drop_bit 32 buf),
      ucast (drop_bit 24 buf), ucast (drop_bit 16 buf), ucast (drop_bit 8 buf), ucast buf]"

fun huff_encode_loop :: "huff_encode_code list \<Rightarrow> nat \<Rightarrow> bytes \<Rightarrow> bytes \<Rightarrow> u64 \<Rightarrow> nat \<Rightarrow> (bytes \<times> u64 \<times> nat) option" where
  "huff_encode_loop table len [] dst buf pending = Some (dst, buf, pending)"
| "huff_encode_loop table len (ch # src) dst buf pending =
     (let code = of_nat (fst (table ! unat ch)) :: u64;
          pending = pending + snd (table ! unat ch)
      in if pending < 64 then huff_encode_loop table len src dst (buf OR push_bit (64 - pending) code) pending
         else if length dst + 8 \<ge> len then None
         else let pending = pending - 64
              in huff_encode_loop table len src (dst @ huff_encode_buf (buf OR drop_bit pending code))
                   (if pending \<noteq> 0 then push_bit (64 - pending) code else 0) pending)"

function huff_tail :: "u64 \<Rightarrow> nat \<Rightarrow> bytes" where
  "huff_tail buf pending =
     (let p = pending - 8 in ucast (drop_bit p buf) # (if p = 0 then [] else huff_tail buf p))"
  by pat_completeness auto
termination by (relation "measure snd") auto

declare huff_tail.simps [simp del]

text \<open>The bytes \<open>dst[0..hlen)\<close>; the return value 0 (the encoding is not shorter) is the empty list.\<close>

definition ngx_http_v2_huff_encode :: "bytes \<Rightarrow> bool \<Rightarrow> bytes" where
  "ngx_http_v2_huff_encode src lower =
     (let table = (if lower then ngx_http_v2_huff_encode_table_lc else ngx_http_v2_huff_encode_table);
          len = length src
      in case huff_encode_loop table len src [] 0 0 of
        None \<Rightarrow> []
      | Some (dst, buf, pending) \<Rightarrow>
          if pending = 0 then dst
          else let buf = buf OR drop_bit pending (- 1);
                   pending = (pending + 7) div 8 * 8
               in if length dst + pending div 8 \<ge> len then []
                  else dst @ huff_tail (drop_bit (64 - pending) buf) pending)"

section \<open>The decoder\<close>

definition ngx_http_v2_huff_decode_bits :: "nat \<Rightarrow> nat \<Rightarrow> bytes \<Rightarrow> (nat \<times> bool \<times> bytes) option" where
  "ngx_http_v2_huff_decode_bits state bits dst =
     (case ngx_http_v2_huff_decode_codes ! state ! bits of (next, emit, symb, ending) \<Rightarrow>
        if next = state then None
        else Some (next, ending \<noteq> 0, if emit \<noteq> 0 then dst @ [of_nat symb] else dst))"

fun huff_decode_loop :: "nat \<Rightarrow> bool \<Rightarrow> bytes \<Rightarrow> bytes \<Rightarrow> (nat \<times> bool \<times> bytes) option" where
  "huff_decode_loop state ending [] dst = Some (state, ending, dst)"
| "huff_decode_loop state ending (ch # src) dst =
     (case ngx_http_v2_huff_decode_bits state (unat (drop_bit 4 ch)) dst of
        None \<Rightarrow> None
      | Some (state, _, dst) \<Rightarrow>
          (case ngx_http_v2_huff_decode_bits state (unat (ch AND 0xf)) dst of
             None \<Rightarrow> None
           | Some (state, ending, dst) \<Rightarrow> huff_decode_loop state ending src dst))"

definition ngx_http_v2_huff_decode :: "nat \<Rightarrow> bytes \<Rightarrow> bytes \<Rightarrow> bool \<Rightarrow> (nat \<times> bytes) option" where
  "ngx_http_v2_huff_decode state src dst is_last =
     (case huff_decode_loop state True src dst of
        None \<Rightarrow> None
      | Some (state, ending, dst) \<Rightarrow>
          if is_last then (if \<not> ending then None else Some (0, dst)) else Some (state, dst))"

section \<open>The prefix tree\<close>

text \<open>
  The prefix tree of the code, with its 256 inner nodes numbered as the decoder numbers its states:
  below node \<open>s\<close> the left and the right child, another node (\<open>Inl\<close>) or a symbol (\<open>Inr\<close>; 256 is
  EOS), and the bits that lead to the node.
\<close>

definition huff_children :: "((nat + nat) \<times> (nat + nat)) list" where
  "huff_children =
    [(Inl 1, Inl 22), (Inl 2, Inl 9), (Inl 3, Inl 6), (Inl 4, Inl 5),
     (Inr 48, Inr 49), (Inr 50, Inr 97), (Inl 7, Inl 8), (Inr 99, Inr 101),
     (Inr 105, Inr 111), (Inl 10, Inl 15), (Inl 11, Inl 12), (Inr 115, Inr 116),
     (Inl 13, Inl 14), (Inr 32, Inr 37), (Inr 45, Inr 46), (Inl 16, Inl 19),
     (Inl 17, Inl 18), (Inr 47, Inr 51), (Inr 52, Inr 53), (Inl 20, Inl 21),
     (Inr 54, Inr 55), (Inr 56, Inr 57), (Inl 23, Inl 40), (Inl 24, Inl 31),
     (Inl 25, Inl 28), (Inl 26, Inl 27), (Inr 61, Inr 65), (Inr 95, Inr 98),
     (Inl 29, Inl 30), (Inr 100, Inr 102), (Inr 103, Inr 104), (Inl 32, Inl 35),
     (Inl 33, Inl 34), (Inr 108, Inr 109), (Inr 110, Inr 112), (Inl 36, Inl 37),
     (Inr 114, Inr 117), (Inl 38, Inl 39), (Inr 58, Inr 66), (Inr 67, Inr 68),
     (Inl 41, Inl 56), (Inl 42, Inl 49), (Inl 43, Inl 46), (Inl 44, Inl 45),
     (Inr 69, Inr 70), (Inr 71, Inr 72), (Inl 47, Inl 48), (Inr 73, Inr 74),
     (Inr 75, Inr 76), (Inl 50, Inl 53), (Inl 51, Inl 52), (Inr 77, Inr 78),
     (Inr 79, Inr 80), (Inl 54, Inl 55), (Inr 81, Inr 82), (Inr 83, Inr 84),
     (Inl 57, Inl 64), (Inl 58, Inl 61), (Inl 59, Inl 60), (Inr 85, Inr 86),
     (Inr 87, Inr 89), (Inl 62, Inl 63), (Inr 106, Inr 107), (Inr 113, Inr 118),
     (Inl 65, Inl 68), (Inl 66, Inl 67), (Inr 119, Inr 120), (Inr 121, Inr 122),
     (Inl 69, Inl 72), (Inl 70, Inl 71), (Inr 38, Inr 42), (Inr 44, Inr 59),
     (Inl 73, Inl 74), (Inr 88, Inr 90), (Inl 75, Inl 78), (Inl 76, Inl 77),
     (Inr 33, Inr 34), (Inr 40, Inr 41), (Inl 79, Inl 81), (Inr 63, Inl 80),
     (Inr 39, Inr 43), (Inl 82, Inl 84), (Inr 124, Inl 83), (Inr 35, Inr 62),
     (Inl 85, Inl 88), (Inl 86, Inl 87), (Inr 0, Inr 36), (Inr 64, Inr 91),
     (Inl 89, Inl 90), (Inr 93, Inr 126), (Inl 91, Inl 92), (Inr 94, Inr 125),
     (Inl 93, Inl 94), (Inr 60, Inr 96), (Inr 123, Inl 95), (Inl 96, Inl 110),
     (Inl 97, Inl 101), (Inl 98, Inl 99), (Inr 92, Inr 195), (Inr 208, Inl 100),
     (Inr 128, Inr 130), (Inl 102, Inl 105), (Inl 103, Inl 104), (Inr 131, Inr 162),
     (Inr 184, Inr 194), (Inl 106, Inl 107), (Inr 224, Inr 226), (Inl 108, Inl 109),
     (Inr 153, Inr 161), (Inr 167, Inr 172), (Inl 111, Inl 133), (Inl 112, Inl 119),
     (Inl 113, Inl 116), (Inl 114, Inl 115), (Inr 176, Inr 177), (Inr 179, Inr 209),
     (Inl 117, Inl 118), (Inr 216, Inr 217), (Inr 227, Inr 229), (Inl 120, Inl 126),
     (Inl 121, Inl 123), (Inr 230, Inl 122), (Inr 129, Inr 132), (Inl 124, Inl 125),
     (Inr 133, Inr 134), (Inr 136, Inr 146), (Inl 127, Inl 130), (Inl 128, Inl 129),
     (Inr 154, Inr 156), (Inr 160, Inr 163), (Inl 131, Inl 132), (Inr 164, Inr 169),
     (Inr 170, Inr 173), (Inl 134, Inl 153), (Inl 135, Inl 142), (Inl 136, Inl 139),
     (Inl 137, Inl 138), (Inr 178, Inr 181), (Inr 185, Inr 186), (Inl 140, Inl 141),
     (Inr 187, Inr 189), (Inr 190, Inr 196), (Inl 143, Inl 146), (Inl 144, Inl 145),
     (Inr 198, Inr 228), (Inr 232, Inr 233), (Inl 147, Inl 150), (Inl 148, Inl 149),
     (Inr 1, Inr 135), (Inr 137, Inr 138), (Inl 151, Inl 152), (Inr 139, Inr 140),
     (Inr 141, Inr 143), (Inl 154, Inl 169), (Inl 155, Inl 162), (Inl 156, Inl 159),
     (Inl 157, Inl 158), (Inr 147, Inr 149), (Inr 150, Inr 151), (Inl 160, Inl 161),
     (Inr 152, Inr 155), (Inr 157, Inr 158), (Inl 163, Inl 166), (Inl 164, Inl 165),
     (Inr 165, Inr 166), (Inr 168, Inr 174), (Inl 167, Inl 168), (Inr 175, Inr 180),
     (Inr 182, Inr 183), (Inl 170, Inl 180), (Inl 171, Inl 174), (Inl 172, Inl 173),
     (Inr 188, Inr 191), (Inr 197, Inr 231), (Inl 175, Inl 177), (Inr 239, Inl 176),
     (Inr 9, Inr 142), (Inl 178, Inl 179), (Inr 144, Inr 145), (Inr 148, Inr 159),
     (Inl 181, Inl 190), (Inl 182, Inl 185), (Inl 183, Inl 184), (Inr 171, Inr 206),
     (Inr 215, Inr 225), (Inl 186, Inl 187), (Inr 236, Inr 237), (Inl 188, Inl 189),
     (Inr 199, Inr 207), (Inr 234, Inr 235), (Inl 191, Inl 207), (Inl 192, Inl 199),
     (Inl 193, Inl 196), (Inl 194, Inl 195), (Inr 192, Inr 193), (Inr 200, Inr 201),
     (Inl 197, Inl 198), (Inr 202, Inr 205), (Inr 210, Inr 213), (Inl 200, Inl 203),
     (Inl 201, Inl 202), (Inr 218, Inr 219), (Inr 238, Inr 240), (Inl 204, Inl 205),
     (Inr 242, Inr 243), (Inr 255, Inl 206), (Inr 203, Inr 204), (Inl 208, Inl 223),
     (Inl 209, Inl 216), (Inl 210, Inl 213), (Inl 211, Inl 212), (Inr 211, Inr 212),
     (Inr 214, Inr 221), (Inl 214, Inl 215), (Inr 222, Inr 223), (Inr 241, Inr 244),
     (Inl 217, Inl 220), (Inl 218, Inl 219), (Inr 245, Inr 246), (Inr 247, Inr 248),
     (Inl 221, Inl 222), (Inr 250, Inr 251), (Inr 252, Inr 253), (Inl 224, Inl 238),
     (Inl 225, Inl 231), (Inl 226, Inl 228), (Inr 254, Inl 227), (Inr 2, Inr 3),
     (Inl 229, Inl 230), (Inr 4, Inr 5), (Inr 6, Inr 7), (Inl 232, Inl 235),
     (Inl 233, Inl 234), (Inr 8, Inr 11), (Inr 12, Inr 14), (Inl 236, Inl 237),
     (Inr 15, Inr 16), (Inr 17, Inr 18), (Inl 239, Inl 246), (Inl 240, Inl 243),
     (Inl 241, Inl 242), (Inr 19, Inr 20), (Inr 21, Inr 23), (Inl 244, Inl 245),
     (Inr 24, Inr 25), (Inr 26, Inr 27), (Inl 247, Inl 250), (Inl 248, Inl 249),
     (Inr 28, Inr 29), (Inr 30, Inr 31), (Inl 251, Inl 252), (Inr 127, Inr 220),
     (Inr 249, Inl 253), (Inl 254, Inl 255), (Inr 10, Inr 13), (Inr 22, Inr 256)]"

definition huff_prefixes :: "huff_encode_code list" where
  "huff_prefixes =
    [(0, 0), (0, 1), (0, 2), (0, 3), (0, 4), (1, 4),
     (1, 3), (2, 4), (3, 4), (1, 2), (2, 3), (4, 4),
     (5, 4), (10, 5), (11, 5), (3, 3), (6, 4), (12, 5),
     (13, 5), (7, 4), (14, 5), (15, 5), (1, 1), (2, 2),
     (4, 3), (8, 4), (16, 5), (17, 5), (9, 4), (18, 5),
     (19, 5), (5, 3), (10, 4), (20, 5), (21, 5), (11, 4),
     (22, 5), (23, 5), (46, 6), (47, 6), (3, 2), (6, 3),
     (12, 4), (24, 5), (48, 6), (49, 6), (25, 5), (50, 6),
     (51, 6), (13, 4), (26, 5), (52, 6), (53, 6), (27, 5),
     (54, 6), (55, 6), (7, 3), (14, 4), (28, 5), (56, 6),
     (57, 6), (29, 5), (58, 6), (59, 6), (15, 4), (30, 5),
     (60, 6), (61, 6), (31, 5), (62, 6), (124, 7), (125, 7),
     (63, 6), (126, 7), (127, 7), (254, 8), (508, 9), (509, 9),
     (255, 8), (510, 9), (1021, 10), (511, 9), (1022, 10), (2045, 11),
     (1023, 10), (2046, 11), (4092, 12), (4093, 12), (2047, 11), (4094, 12),
     (4095, 12), (8190, 13), (8191, 13), (16382, 14), (16383, 14), (32767, 15),
     (65534, 16), (131068, 17), (262136, 18), (262137, 18), (524275, 19), (131069, 17),
     (262138, 18), (524276, 19), (524277, 19), (262139, 18), (524278, 19), (524279, 19),
     (1048558, 20), (1048559, 20), (65535, 16), (131070, 17), (262140, 18), (524280, 19),
     (1048560, 20), (1048561, 20), (524281, 19), (1048562, 20), (1048563, 20), (262141, 18),
     (524282, 19), (1048564, 20), (2097129, 21), (1048565, 20), (2097130, 21), (2097131, 21),
     (524283, 19), (1048566, 20), (2097132, 21), (2097133, 21), (1048567, 20), (2097134, 21),
     (2097135, 21), (131071, 17), (262142, 18), (524284, 19), (1048568, 20), (2097136, 21),
     (2097137, 21), (1048569, 20), (2097138, 21), (2097139, 21), (524285, 19), (1048570, 20),
     (2097140, 21), (2097141, 21), (1048571, 20), (2097142, 21), (4194284, 22), (4194285, 22),
     (2097143, 21), (4194286, 22), (4194287, 22), (262143, 18), (524286, 19), (1048572, 20),
     (2097144, 21), (4194288, 22), (4194289, 22), (2097145, 21), (4194290, 22), (4194291, 22),
     (1048573, 20), (2097146, 21), (4194292, 22), (4194293, 22), (2097147, 21), (4194294, 22),
     (4194295, 22), (524287, 19), (1048574, 20), (2097148, 21), (4194296, 22), (4194297, 22),
     (2097149, 21), (4194298, 22), (8388597, 23), (4194299, 22), (8388598, 23), (8388599, 23),
     (1048575, 20), (2097150, 21), (4194300, 22), (8388600, 23), (8388601, 23), (4194301, 22),
     (8388602, 23), (8388603, 23), (16777206, 24), (16777207, 24), (2097151, 21), (4194302, 22),
     (8388604, 23), (16777208, 24), (33554416, 25), (33554417, 25), (16777209, 24), (33554418, 25),
     (33554419, 25), (8388605, 23), (16777210, 24), (33554420, 25), (33554421, 25), (16777211, 24),
     (33554422, 25), (33554423, 25), (67108847, 26), (4194303, 22), (8388606, 23), (16777212, 24),
     (33554424, 25), (67108848, 26), (67108849, 26), (33554425, 25), (67108850, 26), (67108851, 26),
     (16777213, 24), (33554426, 25), (67108852, 26), (67108853, 26), (33554427, 25), (67108854, 26),
     (67108855, 26), (8388607, 23), (16777214, 24), (33554428, 25), (67108856, 26), (134217713, 27),
     (67108857, 26), (134217714, 27), (134217715, 27), (33554429, 25), (67108858, 26), (134217716, 27),
     (134217717, 27), (67108859, 26), (134217718, 27), (134217719, 27), (16777215, 24), (33554430, 25),
     (67108860, 26), (134217720, 27), (134217721, 27), (67108861, 26), (134217722, 27), (134217723, 27),
     (33554431, 25), (67108862, 26), (134217724, 27), (134217725, 27), (67108863, 26), (134217726, 27),
     (134217727, 27), (268435455, 28), (536870910, 29), (536870911, 29)]"

definition huff_child :: "nat \<Rightarrow> bool \<Rightarrow> nat + nat" where
  "huff_child s b = (if b then snd else fst) (huff_children ! s)"

definition huff_prefix :: "nat \<Rightarrow> bool list" where
  "huff_prefix s = msb_bits (snd (huff_prefixes ! s)) (fst (huff_prefixes ! s))"

definition code_bits :: "huff_encode_code \<Rightarrow> bool list" where
  "code_bits e = msb_bits (snd e) (fst e)"

definition huff_code :: "nat \<Rightarrow> bool list" where
  "huff_code c = (if c < 256 then code_bits (ngx_http_v2_huff_encode_table ! c) else replicate 30 True)"

text \<open>The reference decoder: one bit a step down the tree; reaching EOS is an error.\<close>

fun bit_run :: "nat \<Rightarrow> bool list \<Rightarrow> (nat list \<times> nat) option" where
  "bit_run s [] = Some ([], s)"
| "bit_run s (b # bs) =
     (case huff_child s b of
        Inl s' \<Rightarrow> bit_run s' bs
      | Inr c \<Rightarrow> if c < 256 then map_option (\<lambda>(cs, s'). (c # cs, s')) (bit_run 0 bs) else None)"

section \<open>What the encoder writes\<close>

text \<open>The first \<open>p\<close> bits of the accumulator.\<close>

definition top_bits :: "nat \<Rightarrow> u64 \<Rightarrow> bool list" where
  "top_bits p w = map (\<lambda>i. bit w (63 - i)) [0..<p]"

lemma top_bits_0 [simp]: "top_bits 0 w = []"
  by (simp add: top_bits_def)

lemma length_top_bits [simp]: "length (top_bits p w) = p"
  by (simp add: top_bits_def)

lemma nth_top_bits [simp]: "i < p \<Longrightarrow> top_bits p w ! i = bit w (63 - i)"
  by (simp add: top_bits_def)

lemma bit_of_nat_u64: "bit (of_nat c :: u64) i \<longleftrightarrow> i < 64 \<and> bit c i"
  by (simp add: bit_of_nat_iff)

lemma bit_beyond: "c < 2 ^ l \<Longrightarrow> l \<le> i \<Longrightarrow> \<not> bit (c::nat) i"
  by (metis bit_take_bit_iff linorder_not_less take_bit_nat_eq_self)

lemma byte_bits_encode_buf: "byte_bits (huff_encode_buf w) = top_bits 64 w"
  by (simp add: huff_encode_buf_def byte_bits_def msb_bits_def top_bits_def bit_ucast_iff bit_drop_bit_eq
      upt_rec [of _ 64] upt_rec [of _ 8] upt_conv_Cons)
    (simp add: numeral_eq_Suc)

text \<open>A code joins the accumulator, or fills it and leaves a remainder.\<close>

lemma top_bits_join:
  assumes "\<forall>i < 64 - p. \<not> bit buf i" "c < 2 ^ l" "p + l < 64"
  shows "top_bits (p + l) (buf OR push_bit (64 - (p + l)) (of_nat c)) = top_bits p buf @ msb_bits l c"
    "\<forall>i < 64 - (p + l). \<not> bit (buf OR push_bit (64 - (p + l)) (of_nat c)) i"
proof -
  show "top_bits (p + l) (buf OR push_bit (64 - (p + l)) (of_nat c)) = top_bits p buf @ msb_bits l c"
  proof (rule nth_equalityI)
    fix i assume "i < length (top_bits (p + l) (buf OR push_bit (64 - (p + l)) (of_nat c)))"
    then have i: "i < p + l" by simp
    have e: "63 - i - (64 - (p + l)) = p + l - 1 - i" using i assms(3) by simp
    show "top_bits (p + l) (buf OR push_bit (64 - (p + l)) (of_nat c)) ! i = (top_bits p buf @ msb_bits l c) ! i"
    proof (cases "i < p")
      case True
      then have "\<not> bit c (p + l - 1 - i)" using bit_beyond [OF assms(2)] by simp
      then show ?thesis using True i assms(3) e by (simp add: nth_append bit_or_iff bit_push_bit_iff bit_of_nat_u64)
    next
      case False
      then have "\<not> bit buf (63 - i)" using assms(1,3) i by simp
      moreover have "l - 1 - (i - p) = p + l - 1 - i" using False i by simp
      ultimately show ?thesis using False i assms(3) e
        by (auto simp add: nth_append bit_or_iff bit_push_bit_iff bit_of_nat_u64)
    qed
  qed simp
  show "\<forall>i < 64 - (p + l). \<not> bit (buf OR push_bit (64 - (p + l)) (of_nat c)) i"
    using assms(1) by (auto simp: bit_or_iff bit_push_bit_iff)
qed

lemma top_bits_fill:
  assumes "\<forall>i < 64 - p. \<not> bit buf i" "c < 2 ^ l" "p < 64" "l \<le> 64" "p + l = 64 + q"
  shows "top_bits 64 (buf OR drop_bit q (of_nat c)) @ top_bits q (push_bit (64 - q) (of_nat c)) = top_bits p buf @ msb_bits l c"
    (is "?a @ ?b = ?c")
proof (rule nth_equalityI)
  fix i assume "i < length (?a @ ?b)"
  then have i: "i < 64 + q" by simp
  consider "i < p" | "p \<le> i" "i < 64" | "64 \<le> i" by linarith
  then show "(?a @ ?b) ! i = ?c ! i"
  proof cases
    case 1
    then have "\<not> bit c (q + (63 - i))" using bit_beyond [OF assms(2)] assms(5) by simp
    then show ?thesis using 1 assms(3) by (simp add: nth_append bit_or_iff bit_drop_bit_eq bit_of_nat_u64)
  next
    case 2
    then have "\<not> bit buf (63 - i)" using assms(1) by simp
    moreover have "q + (63 - i) = l - 1 - (i - p)" using 2 assms(5) by simp
    moreover have "l - 1 - (i - p) < 64" using assms(4) 2 assms(3,5) by simp
    ultimately show ?thesis using 2 assms(3,5) by (simp add: nth_append bit_or_iff bit_drop_bit_eq bit_of_nat_u64)
  next
    case 3
    have "63 - (i - 64) - (64 - q) = l - 1 - (i - p)" using 3 i assms by simp
    moreover have "l - 1 - (i - p) < 64" using assms(4) 3 i assms(3,5) by simp
    ultimately show ?thesis using 3 i assms(3,4,5) by (auto simp add: nth_append bit_push_bit_iff bit_of_nat_u64)
  qed
qed (use assms in simp)

section \<open>The loops of the encoder\<close>

definition table_ok :: "huff_encode_code list \<Rightarrow> bool" where
  "table_ok t \<longleftrightarrow> length t = 256 \<and> list_all (\<lambda>(c, l). c < 2 ^ l \<and> 5 \<le> l \<and> l \<le> 30) t"

definition codes_bits :: "huff_encode_code list \<Rightarrow> bytes \<Rightarrow> bool list" where
  "codes_bits t src = concat (map (\<lambda>ch. code_bits (t ! unat ch)) src)"

lemma codes_bits_simps [simp]:
  "codes_bits t [] = []" "codes_bits t (ch # src) = code_bits (t ! unat ch) @ codes_bits t src"
  "codes_bits t (as @ bs) = codes_bits t as @ codes_bits t bs"
  by (simp_all add: codes_bits_def)

lemma table_okD:
  assumes "table_ok t"
  shows "fst (t ! unat (ch::u8)) < 2 ^ snd (t ! unat ch)" "5 \<le> snd (t ! unat ch)" "snd (t ! unat ch) \<le> 30"
proof -
  have "unat ch < length t" using assms unsigned_less [of ch] by (simp add: table_ok_def)
  then have "(\<lambda>(c, l). c < 2 ^ l \<and> 5 \<le> l \<and> l \<le> 30) (t ! unat ch)"
    using assms by (simp add: table_ok_def list_all_length)
  then show "fst (t ! unat ch) < 2 ^ snd (t ! unat ch)" "5 \<le> snd (t ! unat ch)" "snd (t ! unat ch) \<le> 30"
    by (simp_all add: case_prod_beta)
qed

text \<open>
  The loop keeps the codes read so far in \<open>dst\<close> and the top of the accumulator. It gives up only
  when the codes fill as many bytes as the source has.
\<close>

lemma huff_encode_loop_bits:
  assumes "table_ok t" "pending < 64" "\<forall>i < 64 - pending. \<not> bit buf i" "dst = [] \<or> length dst < len"
  shows "case huff_encode_loop t len src dst buf pending of
      None \<Rightarrow> 8 * len \<le> 8 * length dst + pending + length (codes_bits t src)
    | Some (dst', buf', pending') \<Rightarrow>
        byte_bits dst' @ top_bits pending' buf' = byte_bits dst @ top_bits pending buf @ codes_bits t src \<and>
        pending' < 64 \<and> (dst' = [] \<or> length dst' < len)"
  using assms(2-)
proof (induction src arbitrary: dst buf pending)
  case (Cons ch src)
  define c l where "c = fst (t ! unat ch)" and "l = snd (t ! unat ch)"
  have ok: "c < 2 ^ l" "5 \<le> l" "l \<le> 30" using table_okD [OF assms(1)] by (simp_all add: c_def l_def)
  have code: "code_bits (t ! unat ch) = msb_bits l c" by (simp add: code_bits_def c_def l_def)
  show ?case
  proof (cases "pending + l < 64")
    case True
    note j = top_bits_join [OF Cons.prems(2) ok(1) True]
    show ?thesis using Cons.IH [OF True j(2) Cons.prems(3)] True
      by (auto simp: c_def [symmetric] l_def [symmetric] code j(1) Let_def add.assoc split: option.splits)
  next
    case False
    define q where "q = pending + l - 64"
    have q: "pending + l = 64 + q" "q < 64" using False Cons.prems(1) ok by (simp_all add: q_def)
    show ?thesis
    proof (cases "len \<le> length dst + 8")
      case True
      then show ?thesis using False
        by (simp add: c_def [symmetric] l_def [symmetric] code Let_def)
    next
      case short: False
      let ?buf = "if q \<noteq> 0 then push_bit (64 - q) (of_nat c) else 0 :: u64"
      let ?dst = "dst @ huff_encode_buf (buf OR drop_bit q (of_nat c))"
      have low: "\<forall>i < 64 - q. \<not> bit ?buf i" by (simp add: bit_push_bit_iff)
      have "top_bits q ?buf = top_bits q (push_bit (64 - q) (of_nat c))" by simp
      then have bits: "byte_bits ?dst @ top_bits q ?buf = byte_bits dst @ top_bits pending buf @ msb_bits l c"
        using top_bits_fill [OF Cons.prems(2) ok(1) Cons.prems(1) _ q(1)] ok(3)
        by (simp add: byte_bits_encode_buf del: append_eq_append_conv)
      have len: "length ?dst = length dst + 8" by (simp add: huff_encode_buf_def)
      have eq: "huff_encode_loop t len (ch # src) dst buf pending = huff_encode_loop t len src ?dst ?buf q"
        using False short by (simp add: c_def [symmetric] l_def [symmetric] q_def Let_def)
      have "8 * length ?dst + q = 8 * length dst + pending + l" using len q(1) by simp
      moreover have "?dst = [] \<or> length ?dst < len" using len short by simp
      ultimately show ?thesis
        using Cons.IH [OF q(2) low, of ?dst] bits unfolding eq
        by (auto simp: code split: option.splits)
    qed
  qed
qed simp

lemma huff_tail_bits: "byte_bits (huff_tail w (8 * Suc n)) = msb_bits (8 * Suc n) w \<and> length (huff_tail w (8 * Suc n)) = Suc n"
proof (induction n)
  case 0
  then show ?case by (simp add: huff_tail.simps [of w 8] msb_bits_def bit_ucast_iff bit_drop_bit_eq upt_rec [of _ 8] upt_conv_Cons)
next
  case (Suc n)
  have "msb_bits 8 (ucast (drop_bit (8 * Suc n) w) :: u8) @ msb_bits (8 * Suc n) w = msb_bits (8 * Suc (Suc n)) w"
    by (rule nth_equalityI) (auto simp: nth_append bit_ucast_iff bit_drop_bit_eq algebra_simps Suc_diff_le)
  then show ?case using Suc.IH
    by (subst (1 2) huff_tail.simps) (simp add: Let_def)
qed

lemma table_code_length: "table_ok t \<Longrightarrow> 5 * length src \<le> length (codes_bits t src)"
proof (induction src)
  case (Cons ch src)
  then show ?case using table_okD(2) [OF Cons.prems, of ch] by (simp add: code_bits_def)
qed simp

text \<open>The bytes of the padded accumulator.\<close>

lemma padded_bits:
  assumes "p \<le> a" "a \<le> 64"
  shows "msb_bits a (drop_bit (64 - a) (buf OR drop_bit p (- 1))) = top_bits p buf @ replicate (a - p) True"
proof (rule nth_equalityI)
  fix i assume "i < length (msb_bits a (drop_bit (64 - a) (buf OR drop_bit p (- 1))))"
  then have i: "i < a" by simp
  then have e: "64 - a + (a - 1 - i) = 63 - i" using assms by simp
  show "msb_bits a (drop_bit (64 - a) (buf OR drop_bit p (- 1))) ! i = (top_bits p buf @ replicate (a - p) True) ! i"
  proof (cases "i < p")
    case True
    then show ?thesis using i assms by (auto simp: nth_append bit_drop_bit_eq bit_or_iff bit_mask_iff e)
  next
    case False
    then show ?thesis using i assms by (auto simp: nth_append bit_drop_bit_eq bit_or_iff bit_mask_iff e)
  qed
qed (use assms in simp)

text \<open>
  The encoder writes the codes and fills the last byte with ones, when that is shorter than the
  source; otherwise it writes nothing.
\<close>

definition encode_table :: "bool \<Rightarrow> huff_encode_code list" where
  "encode_table lower = (if lower then ngx_http_v2_huff_encode_table_lc else ngx_http_v2_huff_encode_table)"

lemma huff_encode_bits:
  assumes "table_ok (encode_table lower)" "src \<noteq> []"
  defines "codes \<equiv> codes_bits (encode_table lower) src"
  shows "if (length codes + 7) div 8 < length src
    then byte_bits (ngx_http_v2_huff_encode src lower) =
      codes @ replicate (8 * ((length codes + 7) div 8) - length codes) True
    else ngx_http_v2_huff_encode src lower = []"
proof -
  let ?r = "huff_encode_loop (encode_table lower) (length src) src [] 0 0"
  have loop: "case ?r of
      None \<Rightarrow> 8 * length src \<le> length codes
    | Some (dst, buf, pending) \<Rightarrow> byte_bits dst @ top_bits pending buf = codes \<and> pending < 64 \<and> (dst = [] \<or> length dst < length src)"
    using huff_encode_loop_bits [OF assms(1), of 0 0 "[]" "length src" src]
    by (auto simp: codes_def split: option.splits)
  have pos: "codes \<noteq> []" using table_code_length [OF assms(1), of src] assms(2) by (auto simp: codes_def)
  show ?thesis
  proof (cases ?r)
    case None
    then have "\<not> (length codes + 7) div 8 < length src" using loop by auto
    then show ?thesis using None by (simp add: ngx_http_v2_huff_encode_def encode_table_def Let_def)
  next
    case (Some x)
    then obtain dst buf p where x: "?r = Some (dst, buf, p)" by (cases x) auto
    with loop have l: "byte_bits dst @ top_bits p buf = codes" "p < 64" "dst = [] \<or> length dst < length src" by auto
    have len: "length codes = 8 * length dst + p" using arg_cong [OF l(1), of length] by simp
    show ?thesis
    proof (cases "p = 0")
      case True
      then show ?thesis using x l len pos by (auto simp: ngx_http_v2_huff_encode_def encode_table_def Let_def)
    next
      case False
      define n where "n = (p + 7) div 8 - 1"
      have n: "(p + 7) div 8 = Suc n" using False by (simp add: n_def)
      then have a: "(p + 7) div 8 * 8 = 8 * Suc n" by simp
      have bytes: "(length codes + 7) div 8 = length dst + Suc n" using n len by simp
      have "p + 7 = Suc n * 8 + (p + 7) mod 8" "(p + 7) mod 8 < 8" using div_mult_mod_eq [of "p + 7" 8] n by simp_all
      then have "p \<le> 8 * Suc n" "8 * Suc n \<le> 64" using l(2) by simp_all
      then have pad: "msb_bits (8 * Suc n) (drop_bit (64 - 8 * Suc n) (buf OR drop_bit p (- 1))) =
          top_bits p buf @ replicate (8 * Suc n - p) True"
        using padded_bits by blast
      have "ngx_http_v2_huff_encode src lower =
          (if length src \<le> length dst + Suc n then [] else dst @ huff_tail (drop_bit (64 - 8 * Suc n) (buf OR drop_bit p (- 1))) (8 * Suc n))"
        using x False a unfolding ngx_http_v2_huff_encode_def encode_table_def Let_def by simp
      moreover have "8 * (length dst + Suc n) - length codes = 8 * Suc n - p" using len by simp
      ultimately show ?thesis using bytes pad huff_tail_bits [of _ n] l(1)
        by auto
    qed
  qed
qed

lemma huff_encode_empty: "ngx_http_v2_huff_encode [] lower = []"
  by (simp add: ngx_http_v2_huff_encode_def Let_def)

end
