(* ===== verification/Hpack_Huffman_Code.thy ===== *)
theory Hpack_Huffman_Code
  imports Hpack_Huffman
begin

text \<open>
  The tables of the Huffman code, checked entry by entry: the decoder's 256 by 16 table is the
  prefix tree of the encoder's table, four levels at a time. From this follow what the decoder
  accepts, that it inverts the encoder, that fields may be decoded in pieces, and the bound on the
  buffer of a decoded field.
\<close>

section \<open>The tables, entry by entry\<close>

text \<open>An equation for every entry of a table that is written out, from the table as a whole.\<close>

lemma upt_256: "[0..<256] = 0 # 1 # [2..<256]"
  by (simp add: upt_conv_Cons)

lemma all_below_256: "list_all P (0 # 1 # [2..<256]) \<longleftrightarrow> (\<forall>i < 256. P i)"
  unfolding upt_256 [symmetric] by (auto simp: list_all_iff)

lemma entries_of: "length xs = 256 \<Longrightarrow> (\<And>i. i < 256 \<Longrightarrow> f i = g (xs ! i)) \<Longrightarrow> map f (0 # 1 # [2..<256]) = map g xs"
  unfolding upt_256 [symmetric] by (simp add: list_eq_iff_nth_eq)

lemma length_tables:
  "length huff_children = 256" "length huff_prefixes = 256"
  "length ngx_http_v2_huff_encode_table = 256" "length ngx_http_v2_huff_encode_table_lc = 256"
  by (simp_all add: huff_children_def huff_prefixes_def ngx_http_v2_huff_encode_table_def ngx_http_v2_huff_encode_table_lc_def)

lemma left_entries: "map (\<lambda>s. huff_child s False) (0 # 1 # [2..<256]) = map fst huff_children"
  by (rule entries_of) (simp_all add: length_tables huff_child_def)

lemma right_entries: "map (\<lambda>s. huff_child s True) (0 # 1 # [2..<256]) = map snd huff_children"
  by (rule entries_of) (simp_all add: length_tables huff_child_def)

lemma prefix_entries: "map huff_prefix (0 # 1 # [2..<256]) = map (\<lambda>e. msb_bits (snd e) (fst e)) huff_prefixes"
  by (rule entries_of) (simp_all add: length_tables huff_prefix_def)

lemma code_entries: "map huff_code (0 # 1 # [2..<256]) = map (\<lambda>e. msb_bits (snd e) (fst e)) ngx_http_v2_huff_encode_table"
  by (rule entries_of) (simp_all add: length_tables huff_code_def code_bits_def)

declare bit_Suc_0_iff [simp]

lemma msb_bits_simps [simp]: "msb_bits 0 w = []" "msb_bits (Suc n) w = bit w n # msb_bits n w"
  "msb_bits (numeral k) w = bit w (pred_numeral k) # msb_bits (pred_numeral k) w"
  by (simp_all add: msb_bits_def numeral_eq_Suc)

lemmas child_simps = left_entries [unfolded huff_children_def, simplified] right_entries [unfolded huff_children_def, simplified]
lemmas prefix_simps = prefix_entries [unfolded huff_prefixes_def, simplified]
lemmas code_simps = code_entries [unfolded ngx_http_v2_huff_encode_table_def, simplified]

lemma replicate_numeral: "replicate (numeral k) x = x # replicate (pred_numeral k) x"
  by (simp add: numeral_eq_Suc)

lemma code_eos: "huff_code 256 = replicate 30 True"
  by (simp add: huff_code_def)

definition child_ok :: "nat \<Rightarrow> bool \<Rightarrow> bool" where
  "child_ok s b = (case huff_child s b of
     Inl t \<Rightarrow> t < 256 \<and> huff_prefix t = huff_prefix s @ [b]
   | Inr c \<Rightarrow> c \<le> 256 \<and> huff_code c = huff_prefix s @ [b])"

lemma children_ok: "\<forall>s < 256. child_ok s False \<and> child_ok s True"
  unfolding all_below_256 [symmetric]
  by (simp add: child_ok_def child_simps prefix_simps code_simps code_eos replicate_numeral)

lemma prefixes_ok: "\<forall>s < 256. bit_run 0 (huff_prefix s) = Some ([], s)"
  unfolding all_below_256 [symmetric]
  by (simp add: child_simps prefix_simps)

lemma codes_ok: "\<forall>c < 256. bit_run 0 (huff_code c) = Some ([c], 0)"
  unfolding all_below_256 [symmetric]
  by (simp add: child_simps code_simps)

section \<open>The rows of the decoder\<close>

definition nibbles :: "bool list list" where
  "nibbles = map (msb_bits 4) [0..<16::nat]"

lemma nibbles_eval:
  "nibbles = [[False, False, False, False], [False, False, False, True], [False, False, True, False], [False, False, True, True],
    [False, True, False, False], [False, True, False, True], [False, True, True, False], [False, True, True, True],
    [True, False, False, False], [True, False, False, True], [True, False, True, False], [True, False, True, True],
    [True, True, False, False], [True, True, False, True], [True, True, True, False], [True, True, True, True]]"
  by code_simp

definition all_ones :: "nat \<Rightarrow> bool" where
  "all_ones s \<longleftrightarrow> list_all (\<lambda>b. b) (huff_prefix s)"

text \<open>Four bits from node \<open>s\<close>: the entry says which symbol they complete and where they lead.\<close>

definition entry_ok :: "nat \<Rightarrow> bool list \<Rightarrow> huff_decode_code \<Rightarrow> bool" where
  "entry_ok s bits e = (case e of (next, emit, symb, ending) \<Rightarrow>
     if next = s then bit_run s bits = None
     else bit_run s bits = Some (if emit = 0 then [] else [symb], next) \<and> (ending \<noteq> 0 \<longleftrightarrow> all_ones next))"

definition row_ok :: "nat \<Rightarrow> huff_decode_code list \<Rightarrow> bool" where
  "row_ok s row = list_all2 (entry_ok s) nibbles row"

lemmas row_eval = row_ok_def entry_ok_def nibbles_eval child_simps

lemma ones_entries: "map all_ones (0 # 1 # [2..<256]) = map (\<lambda>e. list_all (\<lambda>b. b) (msb_bits (snd e) (fst e))) huff_prefixes"
  by (rule entries_of) (simp_all add: length_tables huff_prefix_def all_ones_def)

lemmas ones_simps = ones_entries [unfolded huff_prefixes_def, simplified]

lemma rows_0: "list_all2 row_ok (0 # 1 # [2..<32]) (huff_decode_codes_0 @ huff_decode_codes_1 @ huff_decode_codes_2 @ huff_decode_codes_3)"
  by (simp add: huff_decode_codes_0_def huff_decode_codes_1_def huff_decode_codes_2_def huff_decode_codes_3_def row_eval ones_simps)

lemma rows_1: "list_all2 row_ok [32..<64] (huff_decode_codes_4 @ huff_decode_codes_5 @ huff_decode_codes_6 @ huff_decode_codes_7)"
  by (simp add: huff_decode_codes_4_def huff_decode_codes_5_def huff_decode_codes_6_def huff_decode_codes_7_def row_eval ones_simps)

lemma rows_2: "list_all2 row_ok [64..<96] (huff_decode_codes_8 @ huff_decode_codes_9 @ huff_decode_codes_10 @ huff_decode_codes_11)"
  by (simp add: huff_decode_codes_8_def huff_decode_codes_9_def huff_decode_codes_10_def huff_decode_codes_11_def row_eval ones_simps)

lemma rows_3: "list_all2 row_ok [96..<128] (huff_decode_codes_12 @ huff_decode_codes_13 @ huff_decode_codes_14 @ huff_decode_codes_15)"
  by (simp add: huff_decode_codes_12_def huff_decode_codes_13_def huff_decode_codes_14_def huff_decode_codes_15_def row_eval ones_simps)

lemma rows_4: "list_all2 row_ok [128..<160] (huff_decode_codes_16 @ huff_decode_codes_17 @ huff_decode_codes_18 @ huff_decode_codes_19)"
  by (simp add: huff_decode_codes_16_def huff_decode_codes_17_def huff_decode_codes_18_def huff_decode_codes_19_def row_eval ones_simps)

lemma rows_5: "list_all2 row_ok [160..<192] (huff_decode_codes_20 @ huff_decode_codes_21 @ huff_decode_codes_22 @ huff_decode_codes_23)"
  by (simp add: huff_decode_codes_20_def huff_decode_codes_21_def huff_decode_codes_22_def huff_decode_codes_23_def row_eval ones_simps)

lemma rows_6: "list_all2 row_ok [192..<224] (huff_decode_codes_24 @ huff_decode_codes_25 @ huff_decode_codes_26 @ huff_decode_codes_27)"
  by (simp add: huff_decode_codes_24_def huff_decode_codes_25_def huff_decode_codes_26_def huff_decode_codes_27_def row_eval ones_simps)

lemma rows_7: "list_all2 row_ok [224..<256] (huff_decode_codes_28 @ huff_decode_codes_29 @ huff_decode_codes_30 @ huff_decode_codes_31)"
  by (simp add: huff_decode_codes_28_def huff_decode_codes_29_def huff_decode_codes_30_def huff_decode_codes_31_def row_eval ones_simps)

lemma upt_append_32:
  "(0 # 1 # [2..<32]) @ [32..<64] @ [64..<96] @ [96..<128] @ [128..<160] @ [160..<192] @ [192..<224] @ [224..<256] = [0..<256::nat]"
proof -
  have app: "i \<le> j \<Longrightarrow> j \<le> k \<Longrightarrow> [i..<j] @ [j..<k] = [i..<k]" for i j k :: nat
    using upt_add_eq_append [of i j "k - j"] by simp
  have "0 # 1 # [2..<32] = [0..<32::nat]" by (simp add: upt_conv_Cons del: upt_rec_numeral)
  then show ?thesis by (simp add: app del: upt_rec_numeral)
qed

lemma rows_ok: "list_all2 row_ok [0..<256] ngx_http_v2_huff_decode_codes"
  unfolding upt_append_32 [symmetric] ngx_http_v2_huff_decode_codes_def
  using list_all2_appendI [OF rows_0 list_all2_appendI [OF rows_1 list_all2_appendI [OF rows_2 list_all2_appendI [OF rows_3
      list_all2_appendI [OF rows_4 list_all2_appendI [OF rows_5 list_all2_appendI [OF rows_6 rows_7]]]]]]]
  by (simp only: append_assoc)


section \<open>Decoding, bit by bit and nibble by nibble\<close>

definition symbols_bits :: "nat list \<Rightarrow> bool list" where
  "symbols_bits cs = concat (map huff_code cs)"

lemma symbols_bits_simps [simp]:
  "symbols_bits [] = []" "symbols_bits (c # cs) = huff_code c @ symbols_bits cs"
  "symbols_bits (as @ bs) = symbols_bits as @ symbols_bits bs"
  by (simp_all add: symbols_bits_def)

text \<open>A run down the tree reads the codes of its symbols and stops with the bits of a node.\<close>

lemma bit_run_append:
  "bit_run s (as @ bs) =
    (case bit_run s as of None \<Rightarrow> None | Some (cs, t) \<Rightarrow> map_option (\<lambda>(cs', t'). (cs @ cs', t')) (bit_run t bs))"
proof (induction s as rule: bit_run.induct)
  case (2 s b as)
  then show ?case
    by (cases "huff_child s b") (auto split: option.splits simp: option.map_comp comp_def case_prod_unfold)
qed (simp add: option.map_id)

lemma huff_prefix_0: "huff_prefix 0 = []"
  by (simp add: huff_prefix_def huff_prefixes_def)

lemma bit_run_sound:
  "s < 256 \<Longrightarrow> bit_run s bs = Some (cs, t) \<Longrightarrow>
    huff_prefix s @ bs = symbols_bits cs @ huff_prefix t \<and> t < 256 \<and> (\<forall>c \<in> set cs. c < 256)"
proof (induction s bs arbitrary: cs rule: bit_run.induct)
  case (2 s b bs)
  have ok: "child_ok s b" using children_ok 2(3) by (cases b) auto
  show ?case
  proof (cases "huff_child s b")
    case (Inl s')
    then show ?thesis using ok 2(1) [OF Inl] 2(4) by (simp add: child_ok_def)
  next
    case (Inr c)
    with 2(4) obtain cs' where c: "c < 256" "bit_run 0 bs = Some (cs', t)" "cs = c # cs'" by (auto split: if_splits)
    then show ?thesis using ok Inr 2(2) [OF Inr c(1)] by (simp add: child_ok_def huff_prefix_0)
  qed
qed auto

lemma bit_run_error:
  "s < 256 \<Longrightarrow> bit_run s bs = None \<Longrightarrow> \<exists>cs rest. huff_prefix s @ bs = symbols_bits cs @ huff_code 256 @ rest \<and> (\<forall>c \<in> set cs. c < 256)"
proof (induction s bs rule: bit_run.induct)
  case (2 s b bs)
  have ok: "child_ok s b" using children_ok 2(3) by (cases b) auto
  show ?case
  proof (cases "huff_child s b")
    case (Inl s')
    then show ?thesis using ok 2(1) [OF Inl] 2(4) by (simp add: child_ok_def)
  next
    case (Inr c)
    show ?thesis
    proof (cases "c < 256")
      case True
      with 2(4) Inr have "bit_run 0 bs = None" by auto
      with 2(2) [OF Inr True] obtain cs rest where "bs = symbols_bits cs @ huff_code 256 @ rest" "\<forall>c \<in> set cs. c < 256"
        by (auto simp: huff_prefix_0)
      then show ?thesis using ok Inr True
        by (intro exI [of _ "c # cs"] exI [of _ rest]) (simp add: child_ok_def flip: append_assoc)
    next
      case False
      with ok Inr have "c = 256" "huff_code c = huff_prefix s @ [b]" by (auto simp: child_ok_def)
      then show ?thesis by (intro exI [of _ "[]"] exI [of _ bs]) simp
    qed
  qed
qed auto

lemma bit_run_codes: "\<forall>c \<in> set cs. c < 256 \<Longrightarrow> bit_run 0 (symbols_bits cs @ bs) = map_option (\<lambda>(cs', t). (cs @ cs', t)) (bit_run 0 bs)"
proof (induction cs)
  case (Cons c cs)
  then show ?case using codes_ok by (simp add: bit_run_append option.map_comp comp_def case_prod_unfold)
qed (simp add: option.map_id)

lemma bit_run_eos: "bit_run 0 (huff_code 256 @ bs) = None"
proof -
  have "bit_run 0 (huff_code 256) = None" by (simp add: code_eos replicate_numeral child_simps)
  then show ?thesis by (simp add: bit_run_append)
qed

text \<open>The automaton of the code is the run down the tree, four bits at a time.\<close>

lemma decode_bits_run:
  assumes "s < 256" "n < 16"
  shows "case ngx_http_v2_huff_decode_bits s n dst of
      None \<Rightarrow> bit_run s (msb_bits 4 n) = None
    | Some (t, e, dst') \<Rightarrow> (\<exists>cs. bit_run s (msb_bits 4 n) = Some (cs, t) \<and> dst' = dst @ map of_nat cs) \<and> e = all_ones t"
proof -
  have "row_ok s (ngx_http_v2_huff_decode_codes ! s)"
    using rows_ok assms(1) by (auto simp: list_all2_conv_all_nth)
  then have "entry_ok s (msb_bits 4 n) (ngx_http_v2_huff_decode_codes ! s ! n)"
    using assms(2) by (auto simp: row_ok_def list_all2_conv_all_nth nibbles_def simp del: msb_bits_simps)
  then show ?thesis
    by (auto simp: entry_ok_def ngx_http_v2_huff_decode_bits_def split: prod.splits if_splits simp del: msb_bits_simps)
qed

lemma msb_bits_nibbles: "msb_bits 8 ch = msb_bits 4 (unat (drop_bit 4 ch)) @ msb_bits 4 (unat (ch AND 0xf))" for ch :: u8
proof -
  have "0xf = (mask 4 :: u8)" by (simp add: mask_eq_exp_minus_1)
  then show ?thesis
    by (simp add: msb_bits_simps bit_unsigned_iff bit_drop_bit_eq bit_and_iff bit_mask_iff)
qed

lemma nibble_bounds: "unat (drop_bit 4 ch) < 16" "unat (ch AND 0xf) < 16" for ch :: u8
proof -
  have "ch AND 0xf = take_bit 4 ch" by (simp add: take_bit_eq_mask mask_eq_exp_minus_1)
  then show "unat (ch AND 0xf) < 16" using take_bit_nat_less_exp [of 4 "unat ch"] by (simp add: unsigned_take_bit_eq)
  have "unat ch < 256" using unsigned_less [of ch] by simp
  then show "unat (drop_bit 4 ch) < 16" by (simp add: drop_bit_eq_div unat_div)
qed

lemma decode_loop_run:
  assumes "s < 256"
  shows "case huff_decode_loop s e src dst of
      None \<Rightarrow> bit_run s (byte_bits src) = None
    | Some (t, e', dst') \<Rightarrow> (\<exists>cs. bit_run s (byte_bits src) = Some (cs, t) \<and> dst' = dst @ map of_nat cs) \<and>
        e' = (if src = [] then e else all_ones t)"
  using assms
proof (induction src arbitrary: s e dst)
  case (Cons ch src)
  let ?hi = "unat (drop_bit 4 ch)" and ?lo = "unat (ch AND 0xf)"
  have bits: "byte_bits (ch # src) = msb_bits 4 ?hi @ msb_bits 4 ?lo @ byte_bits src"
    by (simp add: msb_bits_nibbles del: msb_bits_simps)
  show ?case
  proof (cases "ngx_http_v2_huff_decode_bits s ?hi dst")
    case None
    then show ?thesis using decode_bits_run [OF Cons.prems nibble_bounds(1), of ch dst]
      by (simp add: bits bit_run_append del: msb_bits_simps byte_bits_simps)
  next
    case (Some x)
    then obtain t e1 dst1 where x: "ngx_http_v2_huff_decode_bits s ?hi dst = Some (t, e1, dst1)" by (cases x) auto
    with decode_bits_run [OF Cons.prems nibble_bounds(1), of ch dst] obtain cs where
      cs: "bit_run s (msb_bits 4 ?hi) = Some (cs, t)" "dst1 = dst @ map of_nat cs" by auto
    have t: "t < 256" using bit_run_sound [OF Cons.prems cs(1)] by simp
    show ?thesis
    proof (cases "ngx_http_v2_huff_decode_bits t ?lo dst1")
      case None
      then show ?thesis using decode_bits_run [OF t nibble_bounds(2), of ch dst1] x cs
        by (simp add: bits bit_run_append del: msb_bits_simps byte_bits_simps)
    next
      case (Some y)
      then obtain u e2 dst2 where y: "ngx_http_v2_huff_decode_bits t ?lo dst1 = Some (u, e2, dst2)" by (cases y) auto
      with decode_bits_run [OF t nibble_bounds(2), of ch dst1] obtain cs' where
        cs': "bit_run t (msb_bits 4 ?lo) = Some (cs', u)" "dst2 = dst1 @ map of_nat cs'" "e2 = all_ones u" by auto
      have u: "u < 256" using bit_run_sound [OF t cs'(1)] by simp
      have eq: "huff_decode_loop s e (ch # src) dst = huff_decode_loop u e2 src dst2" using x y by simp
      have run: "bit_run s (byte_bits (ch # src)) = map_option (\<lambda>(c, t). (cs @ cs' @ c, t)) (bit_run u (byte_bits src))"
        using cs(1) cs'(1)
        by (simp add: bits bit_run_append option.map_comp comp_def case_prod_unfold del: msb_bits_simps byte_bits_simps)
      show ?thesis using Cons.IH [OF u, where e = e2 and dst = dst2] unfolding eq run
        by (cases src) (auto simp: cs cs' split: option.splits)
    qed
  qed
qed simp

lemma of_nat_unat_symbols: "\<forall>c \<in> set cs. c < 256 \<Longrightarrow> map unat (map of_nat cs :: bytes) = cs"
  by (induction cs) (simp_all add: unat_of_nat)

lemma codes_symbols: "codes_bits ngx_http_v2_huff_encode_table src = symbols_bits (map unat src)"
proof (induction src)
  case (Cons ch src)
  moreover have "unat ch < 256" using unsigned_less [of ch] by simp
  ultimately show ?case by (simp add: huff_code_def)
qed simp

lemma all_ones_replicate: "all_ones s \<longleftrightarrow> (\<exists>k. huff_prefix s = replicate k True)"
proof
  assume "all_ones s"
  then have "huff_prefix s = replicate (length (huff_prefix s)) True"
    by (simp add: all_ones_def list_all_iff replicate_length_same)
  then show "\<exists>k. huff_prefix s = replicate k True" by blast
qed (auto simp: all_ones_def list_all_iff)

lemma prefix_length: "\<forall>s < 256. length (huff_prefix s) < 30"
  unfolding all_below_256 [symmetric] by (simp add: prefix_simps)

text \<open>Every run of fewer than 30 ones ends in a node of its own.\<close>

lemma ones_run:
  assumes "k < 30"
  shows "\<exists>s < 256. bit_run 0 (replicate k True) = Some ([], s) \<and> huff_prefix s = replicate k True"
proof -
  have "huff_prefix 255 = replicate 29 True" by (simp add: prefix_simps) (simp add: numeral_eq_Suc)
  then have "bit_run 0 (replicate k True @ replicate (29 - k) True) = Some ([], 255)"
    using prefixes_ok [rule_format, of 255] assms by (simp flip: replicate_add)
  then obtain s where s: "bit_run 0 (replicate k True) = Some ([], s)"
    by (auto simp: bit_run_append split: option.splits)
  then show ?thesis using bit_run_sound [OF _ s] by (auto simp: huff_prefix_0)
qed

lemma table_code_bound: "table_ok (encode_table lower)"
proof -
  have "list_all (\<lambda>(c, l). c < 2 ^ l \<and> 5 \<le> l \<and> l \<le> 30) ngx_http_v2_huff_encode_table"
    by (simp add: ngx_http_v2_huff_encode_table_def)
  moreover have "list_all (\<lambda>(c, l). c < 2 ^ l \<and> 5 \<le> l \<and> l \<le> 30) ngx_http_v2_huff_encode_table_lc"
    by (simp add: ngx_http_v2_huff_encode_table_lc_def)
  ultimately show ?thesis by (simp add: table_ok_def encode_table_def length_tables)
qed

lemma symbols_length: "\<forall>c \<in> set cs. c < 256 \<Longrightarrow> 5 * length cs \<le> length (symbols_bits cs)"
  using table_code_length [OF table_code_bound [of False], of "map of_nat cs"]
  by (simp add: encode_table_def codes_symbols of_nat_unat_symbols del: map_map)

section \<open>Lower case\<close>

text \<open>\<open>ngx_tolower\<close> of \<^verbatim>\<open>src/core/ngx_string.h\<close>.\<close>

definition ngx_tolower :: "u8 \<Rightarrow> u8" where
  "ngx_tolower c = (if ch_A \<le> c \<and> c \<le> ch_Z then c OR 0x20 else c)"

definition encode_at :: "nat \<Rightarrow> huff_encode_code" where
  "encode_at c = ngx_http_v2_huff_encode_table ! c"

lemma encode_entries: "map encode_at (0 # 1 # [2..<256]) = ngx_http_v2_huff_encode_table"
  using entries_of [OF length_tables(3), of encode_at id] by (simp add: encode_at_def)

lemmas encode_simps = encode_entries [unfolded ngx_http_v2_huff_encode_table_def, simplified]

lemma lc_entries: "map (\<lambda>c. encode_at (unat (ngx_tolower (of_nat c)))) (0 # 1 # [2..<256]) = ngx_http_v2_huff_encode_table_lc"
  by (simp add: ngx_tolower_def encode_simps ngx_http_v2_huff_encode_table_lc_def word_le_def)

lemma codes_lower: "codes_bits (encode_table True) src = codes_bits (encode_table False) (map ngx_tolower src)"
proof (induction src)
  case (Cons ch src)
  have u: "unat ch < 256" using unsigned_less [of ch] by simp
  then have "ngx_http_v2_huff_encode_table_lc ! unat ch = encode_at (unat (ngx_tolower ch))"
    unfolding lc_entries [symmetric] upt_256 [symmetric] by simp
  then show ?case using Cons by (simp add: encode_table_def encode_at_def)
qed simp

section \<open>Properties\<close>

lemma huff_decode_iff:
  "ngx_http_v2_huff_decode 0 src dst True = Some (t, dst') \<longleftrightarrow>
     t = 0 \<and> (\<exists>out k. dst' = dst @ out \<and> k < 30 \<and> byte_bits src = codes_bits (encode_table False) out @ replicate k True)"
proof
  assume "ngx_http_v2_huff_decode 0 src dst True = Some (t, dst')"
  then obtain s where l: "huff_decode_loop 0 True src dst = Some (s, True, dst')" "t = 0"
    by (auto simp: ngx_http_v2_huff_decode_def split: option.splits if_splits)
  with decode_loop_run [where s = 0 and e = True and src = src and dst = dst] obtain cs where
    cs: "bit_run 0 (byte_bits src) = Some (cs, s)" "dst' = dst @ map of_nat cs" "src = [] \<or> all_ones s"
    by (auto split: if_splits)
  note r = bit_run_sound [OF _ cs(1), unfolded huff_prefix_0, simplified]
  have "all_ones s" using cs(1,3) by (auto simp: all_ones_def huff_prefix_0)
  then obtain k where k: "huff_prefix s = replicate k True" by (auto simp: all_ones_replicate)
  have "k < 30" using prefix_length r k by fastforce
  moreover have "byte_bits src = codes_bits (encode_table False) (map of_nat cs) @ replicate k True"
    using r k of_nat_unat_symbols [of cs] by (simp add: encode_table_def codes_symbols del: map_map)
  ultimately show "t = 0 \<and> (\<exists>out k. dst' = dst @ out \<and> k < 30 \<and> byte_bits src = codes_bits (encode_table False) out @ replicate k True)"
    using l(2) cs(2) by blast
next
  assume "t = 0 \<and> (\<exists>out k. dst' = dst @ out \<and> k < 30 \<and> byte_bits src = codes_bits (encode_table False) out @ replicate k True)"
  then obtain out k where o: "t = 0" "dst' = dst @ out" "k < 30"
    "byte_bits src = symbols_bits (map unat out) @ replicate k True" by (auto simp: encode_table_def codes_symbols)
  obtain s where s: "s < 256" "bit_run 0 (replicate k True) = Some ([], s)" "all_ones s"
    using ones_run [OF o(3)] by (auto simp: all_ones_replicate)
  have "\<forall>c \<in> set (map unat out). c < 256" using unsigned_less [of "_ :: u8"] by auto
  from bit_run_codes [OF this, of "replicate k True"] have "bit_run 0 (byte_bits src) = Some (map unat out, s)"
    using o(4) s(2) by simp
  with decode_loop_run [where s = 0 and e = True and src = src and dst = dst] have "huff_decode_loop 0 True src dst = Some (s, True, dst @ out)"
    using s(3) by (auto simp: comp_def split: option.splits)
  then show "ngx_http_v2_huff_decode 0 src dst True = Some (t, dst')" using o(1,2) by (simp add: ngx_http_v2_huff_decode_def)
qed
text \<open>
  C10. The table-driven decoder accepts exactly the bit strings that are the codes of some symbols
  followed by fewer than 30 ones, and returns those symbols: an input that contains EOS, or that
  ends inside a code with a zero bit in it, is an error. (The text of RFC 7541 allows at most seven
  bits of padding.)
\<close>

theorem huff_decode_exact:
  "ngx_http_v2_huff_decode 0 src dst True = Some (t, dst') \<longleftrightarrow>
     t = 0 \<and> (\<exists>out k. dst' = dst @ out \<and> k < 30 \<and>
       byte_bits src = concat (map (\<lambda>ch. code_bits (ngx_http_v2_huff_encode_table ! unat ch)) out) @ replicate k True)"
  using huff_decode_iff [of src dst t dst'] by (simp add: encode_table_def codes_bits_def)

text \<open>
  C9. Encoding and decoding: the encoder either reports that the Huffman form is not shorter than
  the source, or its output is shorter than the source and the decoder gives the source back, in
  lower case when the table with the lower-case transformation was used.
\<close>

theorem huff_roundtrip:
  "let enc = ngx_http_v2_huff_encode src lower in
   if enc = [] then length src \<le> (length (codes_bits (encode_table lower) src) + 7) div 8
   else length enc < length src \<and>
     ngx_http_v2_huff_decode 0 enc dst True = Some (0, dst @ (if lower then map ngx_tolower src else src))"
proof (cases "src = []")
  case False
  let ?enc = "ngx_http_v2_huff_encode src lower" and ?codes = "codes_bits (encode_table lower) src"
  let ?n = "(length ?codes + 7) div 8"
  note bits = huff_encode_bits [OF table_code_bound [of lower] False]
  show ?thesis
  proof (cases "?n < length src")
    case True
    with bits have b: "byte_bits ?enc = ?codes @ replicate (8 * ?n - length ?codes) True" by simp
    have "length ?codes \<le> 8 * ?n" "8 * ?n - length ?codes < 30" by simp_all
    then have len: "length ?enc = ?n" using arg_cong [OF b, of length] by simp
    have "ngx_http_v2_huff_decode 0 ?enc dst True = Some (0, dst @ (if lower then map ngx_tolower src else src))"
      unfolding huff_decode_iff
    proof (intro conjI exI)
      show "byte_bits ?enc = codes_bits (encode_table False) (if lower then map ngx_tolower src else src) @
          replicate (8 * ?n - length ?codes) True"
        using b codes_lower by (cases lower) simp_all
    qed (use \<open>8 * ?n - length ?codes < 30\<close> in simp_all)
    moreover have "0 < ?n" using table_code_length [OF table_code_bound [of lower], of src] False by (cases src) auto
    ultimately show ?thesis using len True by (auto simp: Let_def)
  next
    case False
    then show ?thesis using bits by (auto simp: Let_def)
  qed
qed (simp add: huff_encode_empty)

text \<open>The decoder over the pieces of a field, as \<open>ngx_http_v2_state_field_huff\<close> calls it.\<close>

fun huff_decode_pieces :: "nat \<Rightarrow> bytes list \<Rightarrow> bytes \<Rightarrow> (nat \<times> bytes) option" where
  "huff_decode_pieces state [] dst = Some (state, dst)"
| "huff_decode_pieces state (src # srcs) dst =
     (case ngx_http_v2_huff_decode state src dst False of
        None \<Rightarrow> None
      | Some (state, dst) \<Rightarrow> huff_decode_pieces state srcs dst)"

lemma decode_loop_append:
  "huff_decode_loop s e (as @ bs) dst =
    (case huff_decode_loop s e as dst of None \<Rightarrow> None | Some (s', e', dst') \<Rightarrow> huff_decode_loop s' e' bs dst')"
  by (induction s e as dst rule: huff_decode_loop.induct) (auto split: option.splits)

lemma decode_loop_ending: "bs \<noteq> [] \<Longrightarrow> huff_decode_loop s e bs dst = huff_decode_loop s e' bs dst"
  by (cases bs) simp_all

lemma decode_loop_state: "map_option (\<lambda>(s, e, dst). (s, dst)) (huff_decode_loop s e bs dst) = map_option (\<lambda>(s, e, dst). (s, dst)) (huff_decode_loop s e' bs dst)"
  by (cases bs) simp_all

text \<open>
  A field may arrive in any pieces: decoding all but the last as they come and then the last
  one, which is not empty, gives what decoding the whole field gives.
\<close>

theorem huff_decode_fragmentation:
  "(case huff_decode_pieces s srcs dst of None \<Rightarrow> None | Some (s', dst') \<Rightarrow> ngx_http_v2_huff_decode s' (ch # src) dst' True) =
   ngx_http_v2_huff_decode s (concat srcs @ ch # src) dst True"
proof (induction srcs arbitrary: s dst)
  case (Cons a srcs)
  show ?case
  proof (cases "huff_decode_loop s True a dst")
    case None
    then show ?thesis by (simp add: ngx_http_v2_huff_decode_def decode_loop_append)
  next
    case (Some x)
    then obtain s' e' dst' where x: "huff_decode_loop s True a dst = Some (s', e', dst')" by (cases x) auto
    have "huff_decode_loop s' e' (concat srcs @ ch # src) dst' = huff_decode_loop s' True (concat srcs @ ch # src) dst'"
      by (rule decode_loop_ending) simp
    then show ?thesis using x Cons [of s' dst'] by (simp add: ngx_http_v2_huff_decode_def decode_loop_append)
  qed
qed simp

text \<open>
  C11. The buffer of a decoded field is large enough: whatever the pieces, the decoder has never
  written more than \<open>len * 8 / 5\<close> bytes for \<open>len\<close> bytes of input, which is what
  \<open>ngx_http_v2_state_field_len\<close> allocates (and one for the final zero).
\<close>

theorem huff_decode_bounded:
  "case huff_decode_pieces 0 srcs [] of
     None \<Rightarrow> True
   | Some (s, dst) \<Rightarrow> s < 256 \<and> length dst \<le> length (concat srcs) * 8 div 5"
proof -
  have "case huff_decode_pieces s srcs dst of None \<Rightarrow> True
      | Some (t, dst') \<Rightarrow> t < 256 \<and> length (huff_prefix t) + 5 * length dst' \<le> 5 * length dst + length (huff_prefix s) + 8 * length (concat srcs)"
    if "s < 256" for s dst
    using that
  proof (induction srcs arbitrary: s dst)
    case (Cons a srcs)
    show ?case
    proof (cases "huff_decode_loop s True a dst")
      case None
      then show ?thesis by (simp add: ngx_http_v2_huff_decode_def)
    next
      case (Some x)
      then obtain t e dst' where x: "huff_decode_loop s True a dst = Some (t, e, dst')" by (cases x) auto
      with decode_loop_run [OF Cons.prems, where e = True and src = a and dst = dst] obtain cs where
        cs: "bit_run s (byte_bits a) = Some (cs, t)" "dst' = dst @ map of_nat cs" by auto
      note r = bit_run_sound [OF Cons.prems cs(1)]
      have "length (huff_prefix s) + 8 * length a = length (symbols_bits cs) + length (huff_prefix t)"
        using arg_cong [OF r [THEN conjunct1], of length] by simp
      then have "length (huff_prefix t) + 5 * length dst' \<le> 5 * length dst + length (huff_prefix s) + 8 * length a"
        using r symbols_length [of cs] cs(2) by simp
      then show ?thesis using Cons.IH [of t dst'] r x
        by (auto simp: ngx_http_v2_huff_decode_def split: option.splits)
    qed
  qed simp
  from this [of 0 "[]"] show ?thesis by (auto simp: huff_prefix_0 split: option.splits)
qed

text \<open>Eight and more bits of padding are accepted.\<close>

theorem huff_long_padding_accepted: "ngx_http_v2_huff_decode 0 [0xff, 0xff, 0xff] [] True = Some (0, [])"
  unfolding huff_decode_iff
  by (rule conjI, simp, rule exI [of _ "[]"], rule exI [of _ 24]) (simp add: numeral_eq_Suc)

end
