(* ===== verification/Http_V2_Loop.thy ===== *)
theory Http_V2_Loop
  imports Prelude
begin

text \<open>
  The read loop of an HTTP/2 connection, \<open>ngx_http_v2_read_handler\<close> of \<^verbatim>\<open>src/http/v2/ngx_http_v2.c\<close>,
  over any set of handlers: bytes are received in pieces, the current handler gets what was saved
  and what has arrived, and handlers follow each other until the bytes are used. The interface
  \<open>interruptible\<close> says what the handlers have to satisfy so that the cutting into pieces does not
  matter and the loop returns. The events around it (timeouts, closing) are left out.
\<close>

section \<open>Outcomes of a handler\<close>

text \<open>Another handler at a position, saved bytes, or an error that closes the connection.\<close>

datatype ('h, 's) handled = Goto 'h 's bytes | Save 'h 's bytes | Fail nat

section \<open>The read loop\<close>

text \<open>
  The inner loop of \<open>ngx_http_v2_read_handler\<close>, over any handlers: it goes on until a handler fails,
  all bytes are used or saved, or (for the model of a single frame) a final handler is set.
\<close>

partial_function (option) read_loop ::
  "('h \<Rightarrow> 's \<Rightarrow> bytes \<Rightarrow> ('h, 's) handled) \<Rightarrow> ('h \<Rightarrow> bool) \<Rightarrow> 'h \<Rightarrow> 's \<Rightarrow> bytes \<Rightarrow> ('h, 's) handled option" where
  "read_loop handle final h s bs =
     (case handle h s bs of
        Goto h' s' rest \<Rightarrow>
          if rest = [] \<or> final h' then Some (Goto h' s' rest) else read_loop handle final h' s' rest
      | Save h' s' left \<Rightarrow> Some (Save h' s' left)
      | Fail e \<Rightarrow> Some (Fail e))"

text \<open>
  The outer loop: what was saved and the next bytes received go to the inner loop. \<open>Save\<close> is the
  state in which the connection waits for more.
\<close>

fun receive ::
  "('h \<Rightarrow> 's \<Rightarrow> bytes \<Rightarrow> ('h, 's) handled) \<Rightarrow> ('h \<Rightarrow> bool) \<Rightarrow> 'h \<Rightarrow> 's \<Rightarrow> bytes \<Rightarrow> bytes list \<Rightarrow> ('h, 's) handled option" where
  "receive handle final h s left [] = Some (Save h s left)"
| "receive handle final h s left (p # ps) =
     (if p = [] then receive handle final h s left ps
      else case read_loop handle final h s (left @ p) of
        None \<Rightarrow> None
      | Some (Fail e) \<Rightarrow> Some (Fail e)
      | Some (Save h' s' left') \<Rightarrow> receive handle final h' s' left' ps
      | Some (Goto h' s' rest) \<Rightarrow>
          if final h' then Some (Goto h' s' (rest @ concat ps)) else receive handle final h' s' rest ps)"

text \<open>Waiting for more, whether bytes were saved or all were used.\<close>

definition waiting :: "('h \<Rightarrow> bool) \<Rightarrow> ('h, 's) handled \<Rightarrow> ('h, 's) handled" where
  "waiting final r = (case r of Goto h s rest \<Rightarrow> if final h then r else Save h s rest | _ \<Rightarrow> r)"

text \<open>An outcome, up to what \<open>norm\<close> hides; and the law on later bytes, of a single function.\<close>

definition view :: "('h \<Rightarrow> 's \<Rightarrow> 's) \<Rightarrow> ('h, 's) handled \<Rightarrow> ('h, 's) handled" where
  "view norm r = (case r of Goto h s rest \<Rightarrow> Goto h (norm h s) rest | _ \<Rightarrow> r)"

lemma view_simps [simp]:
  "view norm (Goto h s rest) = Goto h (norm h s) rest" "view norm (Save h s left) = Save h s left" "view norm (Fail e) = Fail e"
  by (simp_all add: view_def)

definition goes_on ::
  "('h \<Rightarrow> 's \<Rightarrow> bytes \<Rightarrow> ('h, 's) handled) \<Rightarrow> ('h \<Rightarrow> 's \<Rightarrow> 's) \<Rightarrow> (bytes \<Rightarrow> ('h, 's) handled) \<Rightarrow> bool" where
  "goes_on handle norm f \<longleftrightarrow> (\<forall>bs later. view norm (f (bs @ later)) =
     (case f bs of
        Goto h s rest \<Rightarrow> Goto h (norm h s) (rest @ later)
      | Save h s left \<Rightarrow> view norm (handle h s (left @ later))
      | Fail e \<Rightarrow> Fail e))"

lemma goes_onD: "goes_on handle norm f \<Longrightarrow> view norm (f (bs @ later)) =
  (case f bs of
     Goto h s rest \<Rightarrow> Goto h (norm h s) (rest @ later)
   | Save h s left \<Rightarrow> view norm (handle h s (left @ later))
   | Fail e \<Rightarrow> Fail e)"
  by (simp add: goes_on_def)

lemma goes_on_const [simp]: "goes_on handle norm (\<lambda>_. Fail e)" "goes_on handle norm (Goto h s)"
  by (simp_all add: goes_on_def)

section \<open>Handlers that can be interrupted\<close>

text \<open>
  What the read loop relies on: bytes that arrive later change nothing of what a handler did, other
  than that a handler which saved its bytes goes on with them; and a handler that is followed by
  another one has used a byte, or is followed by one of lower rank. Outcomes are compared up to
  \<open>norm\<close>, which hides what is left over in the state once a final handler is set.
\<close>

locale interruptible =
  fixes handle :: "'h \<Rightarrow> 's \<Rightarrow> bytes \<Rightarrow> ('h, 's) handled"
    and final :: "'h \<Rightarrow> bool"
    and norm :: "'h \<Rightarrow> 's \<Rightarrow> 's"
    and rank :: "'h \<Rightarrow> nat"
  assumes handle_goes_on: "goes_on handle norm (handle h s)"
    and norm_inner: "\<not> final h \<Longrightarrow> norm h s = s"
    and progress: "handle h s bs = Goto h' s' rest \<Longrightarrow>
      final h' \<or> length rest < length bs \<or> length rest = length bs \<and> rank h' < rank h"
begin

lemma loop_induct [case_names step]:
  assumes "\<And>h s bs. (\<And>h' s' rest. handle h s bs = Goto h' s' rest \<Longrightarrow> \<not> final h' \<Longrightarrow> P h' s' rest) \<Longrightarrow> P h s bs"
  shows "P h s bs"
proof (induction "(length bs, rank h)" arbitrary: h s bs rule: wf_induct_rule [OF wf_lex_prod [OF wf_less_than wf_less_than]])
  case 1
  show ?case
  proof (rule assms)
    fix h' s' rest assume "handle h s bs = Goto h' s' rest" "\<not> final h'"
    then show "P h' s' rest" using progress [of h s bs h' s' rest] by (intro 1) auto
  qed
qed

lemma read_loop_returns: "\<exists>r. read_loop handle final h s bs = Some r"
proof (induction h s bs rule: loop_induct)
  case (step h s bs)
  then show ?case by (subst read_loop.simps) (auto split: handled.split)
qed

lemma read_loop_next: "read_loop handle final h s bs = Some (Goto h' s' rest) \<Longrightarrow> rest = [] \<or> final h'"
proof (induction h s bs rule: loop_induct)
  case (step h s bs)
  from step(2) show ?case
    by (subst (asm) read_loop.simps) (auto split: handled.splits if_splits dest: step(1))
qed

lemma view_eq:
  "view norm r = view norm r' \<Longrightarrow> (\<exists>h s rest. r = Goto h s rest \<and> \<not> final h) \<Longrightarrow> r = r'"
  using norm_inner by (cases r; cases r') auto

lemma read_loop_view:
  assumes "view norm (handle h s bs) = view norm (handle h' s' bs')"
  shows "map_option (view norm) (read_loop handle final h s bs) = map_option (view norm) (read_loop handle final h' s' bs')"
  using assms norm_inner
  by (cases "handle h s bs"; cases "handle h' s' bs'")
    (auto simp: read_loop.simps [of handle final h s] read_loop.simps [of handle final h' s'])

text \<open>More bytes at the end of the input: the loop goes on from where it stopped.\<close>

lemma read_loop_more:
  assumes "later \<noteq> []"
  shows "map_option (view norm) (read_loop handle final h s (bs @ later)) =
    map_option (view norm) (case read_loop handle final h s bs of
       None \<Rightarrow> None
     | Some (Fail e) \<Rightarrow> Some (Fail e)
     | Some (Save h' s' left) \<Rightarrow> read_loop handle final h' s' (left @ later)
     | Some (Goto h' s' rest) \<Rightarrow>
         if final h' then Some (Goto h' s' (rest @ later)) else read_loop handle final h' s' (rest @ later))"
proof (induction h s bs rule: loop_induct)
  case (step h s bs)
  note law = goes_onD [OF handle_goes_on [of h s], of bs later]
  show ?case
  proof (cases "handle h s bs")
    case (Goto h' s' rest)
    then obtain s'' where g: "handle h s (bs @ later) = Goto h' s'' (rest @ later)" "norm h' s'' = norm h' s'"
      using law by (cases "handle h s (bs @ later)") auto
    show ?thesis
    proof (cases "final h'")
      case True
      then show ?thesis using Goto g by (simp add: read_loop.simps [of handle final h s])
    next
      case False
      then have "s'' = s'" using g(2) norm_inner by simp
      then show ?thesis using Goto g False assms step [OF Goto False]
        by (cases "rest = []") (simp_all add: read_loop.simps [of handle final h s])
    qed
  next
    case (Save h' s' left)
    then have "view norm (handle h s (bs @ later)) = view norm (handle h' s' (left @ later))" using law by simp
    from read_loop_view [OF this] show ?thesis using Save by (simp add: read_loop.simps [of handle final h s bs])
  next
    case (Fail e)
    then have "handle h s (bs @ later) = Fail e" using law by (cases "handle h s (bs @ later)") auto
    then show ?thesis using Fail by (simp add: read_loop.simps [of handle final h s])
  qed
qed

text \<open>What \<open>receive\<close> answers, up to what \<open>norm\<close> hides.\<close>

lemma view_waiting: "view norm (waiting final r) = waiting final (view norm r)"
  using norm_inner by (auto simp: waiting_def split: handled.split)

lemma receive_one: "p \<noteq> [] \<Longrightarrow> receive handle final h s left [p] = map_option (waiting final) (read_loop handle final h s (left @ p))"
  by (auto simp: waiting_def split: option.split handled.split)

lemma receive_joined:
  "p \<noteq> [] \<Longrightarrow> map_option (view norm) (receive handle final h s left (p # ps)) =
    map_option (waiting final) (map_option (view norm) (read_loop handle final h s (left @ p @ concat ps)))"
proof (induction ps arbitrary: h s left p)
  case Nil
  then show ?case by (simp add: receive_one option.map_comp comp_def view_waiting del: receive.simps)
next
  case (Cons q ps)
  show ?case
  proof (cases "q = []")
    case True
    have "receive handle final h s left (p # [] # ps) = receive handle final h s left (p # ps)"
      using Cons.prems by (auto split: option.split handled.split)
    then show ?thesis using True Cons by simp
  next
    case False
    obtain r where r: "read_loop handle final h s (left @ p) = Some r" using read_loop_returns by blast
    have m: "q @ concat ps \<noteq> []" using False by simp
    have eq: "left @ p @ concat (q # ps) = (left @ p) @ (q @ concat ps)" by simp
    note later = read_loop_more [OF m, of h s "left @ p"]
    show ?thesis
    proof (cases r)
      case (Goto h' s' rest)
      then show ?thesis using r later Cons.prems False Cons.IH [OF False, of h' s' rest] unfolding eq
        by (auto simp: waiting_def)
    next
      case (Save h' s' left')
      then show ?thesis using r later Cons.prems False Cons.IH [OF False, of h' s' left'] unfolding eq by simp
    next
      case (Fail e)
      then show ?thesis using r later Cons.prems unfolding eq by (auto simp: waiting_def)
    qed
  qed
qed

lemma receive_concat:
  "map_option (view norm) (receive handle final h s left ps) = map_option (view norm) (receive handle final h s left [concat ps])"
proof (induction ps)
  case (Cons p ps)
  show ?case
  proof (cases "p = []")
    case False
    then show ?thesis using receive_joined [OF False, of h s left ps] receive_joined [of "p @ concat ps" h s left "[]"] by simp
  qed (use Cons in simp)
qed simp

end

end
