(* ===== verification/Http_Headers_In.thy ===== *)
theory Http_Headers_In
  imports Ngx_Strings
begin

text \<open>
  The handlers of known request headers of \<^verbatim>\<open>src/http/ngx_http_request.c\<close>: the table
  \<open>ngx_http_headers_in\<close>, the functions it names, and below \<open>ngx_http_process_host\<close> the check and
  normalisation of the host name (\<open>ngx_http_validate_host\<close>) and the choice of the virtual server
  (\<open>ngx_http_set_virtual_server\<close>). The handlers set fields of \<open>r->headers_in\<close> or refuse the header,
  after which the request has been finalized or closed. Allocation failures are left out.

  The table is that of a build with all optional modules. It is searched through a hash of the
  lower-cased names that is built at start-up; here it is searched directly.

  The lemmas show that an accepted host name is a non-empty, lower-cased prefix of what was sent,
  without NUL and slash, and that no handler keeps a byte that breaks a line unless it was sent.
\<close>

section \<open>Bytes that break a line\<close>

definition breaks_line :: "u8 \<Rightarrow> bool" where
  "breaks_line ch \<longleftrightarrow> ch = NUL \<or> ch = LF \<or> ch = CR"

definition clean :: "bytes \<Rightarrow> bool" where
  "clean s \<longleftrightarrow> (\<forall>ch \<in> set s. \<not> breaks_line ch)"

lemma clean_simps [simp]:
  "clean []" "clean (ch # s) \<longleftrightarrow> \<not> breaks_line ch \<and> clean s" "clean (s @ t) \<longleftrightarrow> clean s \<and> clean t"
  by (auto simp: clean_def)

lemma clean_take [simp]: "clean s \<Longrightarrow> clean (take n s)"
  by (auto simp: clean_def dest: in_set_takeD)

lemma breaks_line_lower [simp]: "breaks_line (lower c) = breaks_line c"
proof -
  have "\<forall>c. breaks_line (lower c) = breaks_line c" unfolding all_bytes by (simp add: breaks_line_def lower_def)
  then show ?thesis by blast
qed

lemma clean_lower [simp]: "clean (map lower s) = clean s"
  by (simp add: clean_def)

section \<open>The host name\<close>

datatype host_state = host_usual | host_literal | host_rest

record host_scan =
  vh_state :: host_state
  vh_dot_pos :: nat
  vh_host_len :: nat
  vh_alloc :: bool

text \<open>
  The body of the loop; \<open>None\<close> is the return of \<open>NGX_DECLINED\<close>. \<open>dot_pos == i - 1\<close> in \<open>size_t\<close> is
  \<open>dot_pos + 1 = i\<close>, as \<open>dot_pos\<close> is at most the length of the name.
\<close>

definition host_char :: "nat \<Rightarrow> u8 \<Rightarrow> host_scan \<Rightarrow> host_scan option" where
  "host_char i ch s =
     (if ch = ch_dot then (if vh_dot_pos s + 1 = i then None else Some (s\<lparr>vh_dot_pos := i\<rparr>))
      else if ch = ch_colon then
        Some (if vh_state s = host_usual then s\<lparr>vh_host_len := i, vh_state := host_rest\<rparr> else s)
      else if ch = ch_lbracket then Some (if i = 0 then s\<lparr>vh_state := host_literal\<rparr> else s)
      else if ch = ch_rbracket then
        Some (if vh_state s = host_literal then s\<lparr>vh_host_len := i + 1, vh_state := host_rest\<rparr> else s)
      else if ch = NUL then None
      else if ch = ch_slash then None
      else Some (if ch \<ge> ch_A \<and> ch \<le> ch_Z then s\<lparr>vh_alloc := True\<rparr> else s))"

fun host_loop :: "nat \<Rightarrow> bytes \<Rightarrow> host_scan \<Rightarrow> host_scan option" where
  "host_loop i [] s = Some s"
| "host_loop i (ch # h) s = (case host_char i ch s of None \<Rightarrow> None | Some s \<Rightarrow> host_loop (i + 1) h s)"

text \<open>The result is the code and the new value of \<open>*host\<close>.\<close>

definition ngx_http_validate_host :: "bytes \<Rightarrow> bool \<Rightarrow> ngx_rc \<times> bytes" where
  "ngx_http_validate_host host alloc =
     (case host_loop 0 host \<lparr> vh_state = host_usual, vh_dot_pos = length host, vh_host_len = length host, vh_alloc = alloc \<rparr> of
        None \<Rightarrow> (NGX_DECLINED, host)
      | Some s \<Rightarrow>
          let host_len = (if vh_dot_pos s + 1 = vh_host_len s then vh_host_len s - 1 else vh_host_len s) in
          if host_len = 0 then (NGX_DECLINED, host)
          else (NGX_OK, if vh_alloc s then map lower (take host_len host) else take host_len host))"

section \<open>The virtual server\<close>

text \<open>
  The configuration of the connection: the server name of TLS with the result of matching its
  regular expression (true without one), the search of \<open>ngx_http_find_virtual_server\<close> in the names
  of the configuration, the default server, and \<open>sscf->verify\<close>. Servers are numbers.
\<close>

record virtual_servers =
  vs_ssl_servername :: "bytes option"
  vs_ssl_regex_ok :: bool
  vs_find :: "bytes \<Rightarrow> ngx_rc \<times> nat"
  vs_default :: nat
  vs_verify :: "nat \<Rightarrow> bool"

text \<open>\<open>None\<close> is \<open>NGX_ERROR\<close>, otherwise the server that is selected, if one is.\<close>

definition ngx_http_set_virtual_server :: "virtual_servers \<Rightarrow> bytes \<Rightarrow> nat option option" where
  "ngx_http_set_virtual_server vs host =
     (if vs_ssl_servername vs = Some host then (if vs_ssl_regex_ok vs then Some None else None)
      else case vs_find vs host of
        (NGX_ERROR, _) \<Rightarrow> None
      | (rc, cscf) \<Rightarrow>
          let (rc, cscf) = (if vs_ssl_servername vs \<noteq> None \<and> rc = NGX_DECLINED then (NGX_OK, vs_default vs) else (rc, cscf)) in
          if vs_ssl_servername vs \<noteq> None \<and> vs_verify vs cscf then None
          else if rc = NGX_DECLINED then Some None
          else Some (Some cscf))"

section \<open>The handlers\<close>

datatype connection_type = No_connection_type | NGX_HTTP_CONNECTION_CLOSE | NGX_HTTP_CONNECTION_KEEP_ALIVE

text \<open>
  \<open>r->headers_in\<close> and the server that was selected. The pointers to header lines are indexed by the
  lower-cased name in the place of the offset; so are the arrays of the two headers that may be
  repeated.
\<close>

type_synonym header_line = "bytes \<times> bytes"

record headers_in =
  hi_line :: "bytes \<Rightarrow> header_line option"
  hi_lines :: "bytes \<Rightarrow> header_line list"
  hi_server :: bytes
  hi_connection_type :: connection_type
  hi_msie :: bool
  hi_msie6 :: bool
  hi_opera :: bool
  hi_gecko :: bool
  hi_chrome :: bool
  hi_safari :: bool
  hi_konqueror :: bool
  hi_srv_conf :: "nat option"

definition new_headers_in :: headers_in where
  "new_headers_in = \<lparr> hi_line = (\<lambda>_. None), hi_lines = (\<lambda>_. []), hi_server = [], hi_connection_type = No_connection_type,
     hi_msie = False, hi_msie6 = False, hi_opera = False, hi_gecko = False, hi_chrome = False, hi_safari = False,
     hi_konqueror = False, hi_srv_conf = None \<rparr>"

definition set_line :: "bytes \<Rightarrow> header_line \<Rightarrow> headers_in \<Rightarrow> headers_in" where
  "set_line offset h r = r\<lparr>hi_line := (hi_line r)(offset := Some h)\<rparr>"

definition ngx_http_process_header_line :: "bytes \<Rightarrow> header_line \<Rightarrow> headers_in \<Rightarrow> headers_in option" where
  "ngx_http_process_header_line offset h r =
     (case hi_line r offset of None \<Rightarrow> Some (set_line offset h r) | Some _ \<Rightarrow> Some r)"

definition ngx_http_process_unique_header_line :: "bytes \<Rightarrow> header_line \<Rightarrow> headers_in \<Rightarrow> headers_in option" where
  "ngx_http_process_unique_header_line offset h r =
     (case hi_line r offset of None \<Rightarrow> Some (set_line offset h r) | Some _ \<Rightarrow> None)"

definition ngx_http_process_host :: "virtual_servers \<Rightarrow> header_line \<Rightarrow> headers_in \<Rightarrow> headers_in option" where
  "ngx_http_process_host vs h r =
     (let r = (if hi_line r (bytes_of ''host'') = None then set_line (bytes_of ''host'') h r else r) in
      case ngx_http_validate_host (snd h) False of
        (NGX_OK, host) \<Rightarrow>
          if hi_server r \<noteq> [] then Some r
          else
            (case ngx_http_set_virtual_server vs host of
               None \<Rightarrow> None
             | Some cscf \<Rightarrow> Some (r\<lparr>hi_server := host, hi_srv_conf := (case cscf of None \<Rightarrow> hi_srv_conf r | Some n \<Rightarrow> Some n)\<rparr>))
      | _ \<Rightarrow> None)"

definition ngx_http_process_connection :: "header_line \<Rightarrow> headers_in \<Rightarrow> headers_in option" where
  "ngx_http_process_connection h r =
     Some (if ngx_strcasestrn (snd h) (bytes_of ''close'') 4 \<noteq> None then r\<lparr>hi_connection_type := NGX_HTTP_CONNECTION_CLOSE\<rparr>
           else if ngx_strcasestrn (snd h) (bytes_of ''keep-alive'') 9 \<noteq> None
           then r\<lparr>hi_connection_type := NGX_HTTP_CONNECTION_KEEP_ALIVE\<rparr>
           else r)"

text \<open>The tests for browsers: MSIE with its version, Opera, and the others.\<close>

definition user_agent_msie :: "bytes \<Rightarrow> headers_in \<Rightarrow> headers_in" where
  "user_agent_msie user_agent r =
     (case ngx_strstrn user_agent (bytes_of ''MSIE '') 4 of
        None \<Rightarrow> r
      | Some msie \<Rightarrow>
          if length msie > 7 then
            let r = r\<lparr>hi_msie := True\<rparr> in
            if msie ! 6 = ch_dot then
              (if msie ! 5 = ch_4 \<or> msie ! 5 = ch_5 then r\<lparr>hi_msie6 := True\<rparr>
               else if msie ! 5 = ch_6 \<and> ngx_strstrn (drop 8 msie) (bytes_of ''SV1'') 2 = None then r\<lparr>hi_msie6 := True\<rparr>
               else r)
            else r
          else r)"

definition user_agent_others :: "bytes \<Rightarrow> headers_in \<Rightarrow> headers_in" where
  "user_agent_others user_agent r =
     (if hi_msie r \<or> hi_opera r then r
      else if ngx_strstrn user_agent (bytes_of ''Gecko/'') 5 \<noteq> None then r\<lparr>hi_gecko := True\<rparr>
      else if ngx_strstrn user_agent (bytes_of ''Chrome/'') 6 \<noteq> None then r\<lparr>hi_chrome := True\<rparr>
      else if ngx_strstrn user_agent (bytes_of ''Safari/'') 6 \<noteq> None \<and> ngx_strstrn user_agent (bytes_of ''Mac OS X'') 7 \<noteq> None
      then r\<lparr>hi_safari := True\<rparr>
      else if ngx_strstrn user_agent (bytes_of ''Konqueror'') 8 \<noteq> None then r\<lparr>hi_konqueror := True\<rparr>
      else r)"

definition ngx_http_process_user_agent :: "header_line \<Rightarrow> headers_in \<Rightarrow> headers_in option" where
  "ngx_http_process_user_agent h r =
     (if hi_line r (bytes_of ''user-agent'') \<noteq> None then Some r
      else
        let r = user_agent_msie (snd h) (set_line (bytes_of ''user-agent'') h r);
            r = (if ngx_strstrn (snd h) (bytes_of ''Opera'') 4 \<noteq> None
                 then r\<lparr>hi_opera := True, hi_msie := False, hi_msie6 := False\<rparr> else r)
        in Some (user_agent_others (snd h) r))"

definition ngx_http_process_multi_header_lines :: "bytes \<Rightarrow> header_line \<Rightarrow> headers_in \<Rightarrow> headers_in option" where
  "ngx_http_process_multi_header_lines offset h r =
     Some (r\<lparr>hi_lines := (hi_lines r)(offset := hi_lines r offset @ [h])\<rparr>)"

section \<open>The table\<close>

datatype header_handler =
  Process_host | Process_connection | Process_user_agent | Process_line | Process_unique_line | Process_multi_lines

definition ngx_http_headers_in :: "(bytes \<times> header_handler) list" where
  "ngx_http_headers_in =
     [(bytes_of ''Host'', Process_host),
      (bytes_of ''Connection'', Process_connection),
      (bytes_of ''If-Modified-Since'', Process_unique_line),
      (bytes_of ''If-Unmodified-Since'', Process_unique_line),
      (bytes_of ''If-Match'', Process_unique_line),
      (bytes_of ''If-None-Match'', Process_unique_line),
      (bytes_of ''User-Agent'', Process_user_agent),
      (bytes_of ''Referer'', Process_line),
      (bytes_of ''Content-Length'', Process_unique_line),
      (bytes_of ''Content-Range'', Process_unique_line),
      (bytes_of ''Content-Type'', Process_line),
      (bytes_of ''Range'', Process_line),
      (bytes_of ''If-Range'', Process_unique_line),
      (bytes_of ''Transfer-Encoding'', Process_line),
      (bytes_of ''Expect'', Process_unique_line),
      (bytes_of ''Upgrade'', Process_line),
      (bytes_of ''Accept-Encoding'', Process_line),
      (bytes_of ''Via'', Process_line),
      (bytes_of ''Authorization'', Process_unique_line),
      (bytes_of ''Keep-Alive'', Process_line),
      (bytes_of ''X-Forwarded-For'', Process_multi_lines),
      (bytes_of ''X-Real-IP'', Process_line),
      (bytes_of ''Accept'', Process_line),
      (bytes_of ''Accept-Language'', Process_line),
      (bytes_of ''Depth'', Process_line),
      (bytes_of ''Destination'', Process_line),
      (bytes_of ''Overwrite'', Process_line),
      (bytes_of ''Date'', Process_line),
      (bytes_of ''Cookie'', Process_multi_lines)]"

text \<open>The search for a name and the call of the handler that was found.\<close>

definition find_handler :: "bytes \<Rightarrow> header_handler option" where
  "find_handler name = map_of (map (apfst (map lower)) ngx_http_headers_in) name"

fun call_handler :: "virtual_servers \<Rightarrow> header_handler \<Rightarrow> header_line \<Rightarrow> headers_in \<Rightarrow> headers_in option" where
  "call_handler vs Process_host h r = ngx_http_process_host vs h r"
| "call_handler vs Process_connection h r = ngx_http_process_connection h r"
| "call_handler vs Process_user_agent h r = ngx_http_process_user_agent h r"
| "call_handler vs Process_line h r = ngx_http_process_header_line (fst h) h r"
| "call_handler vs Process_unique_line h r = ngx_http_process_unique_header_line (fst h) h r"
| "call_handler vs Process_multi_lines h r = ngx_http_process_multi_header_lines (fst h) h r"

section \<open>What an accepted host name is\<close>

lemma host_char_plain: "host_char i ch s = Some s' \<Longrightarrow> ch \<noteq> NUL \<and> ch \<noteq> ch_slash"
  by (auto simp: host_char_def split: if_splits)

lemma host_loop_plain: "host_loop i h s = Some s' \<Longrightarrow> NUL \<notin> set h \<and> ch_slash \<notin> set h"
  by (induction i h s rule: host_loop.induct) (auto split: option.splits dest: host_char_plain)

lemma host_loop_alloc:
  "host_loop i h s = Some s' \<Longrightarrow> (vh_alloc s \<longrightarrow> vh_alloc s') \<and> (\<forall>ch \<in> set h. ch \<ge> ch_A \<and> ch \<le> ch_Z \<longrightarrow> vh_alloc s')"
proof (induction i h s rule: host_loop.induct)
  case (2 i ch h s)
  then obtain s1 where s1: "host_char i ch s = Some s1" "host_loop (i + 1) h s1 = Some s'" by (auto split: option.splits)
  have "(vh_alloc s \<longrightarrow> vh_alloc s1) \<and> (ch \<ge> ch_A \<and> ch \<le> ch_Z \<longrightarrow> vh_alloc s1)"
    using s1(1) by (auto simp: host_char_def word_le_def split: if_splits)
  with 2(1) [OF s1] show ?case by auto
qed simp

lemma lower_plain: "\<not> (c \<ge> ch_A \<and> c \<le> ch_Z) \<Longrightarrow> lower c = c"
  by (auto simp: lower_def)

lemma lower_slash [simp]: "lower c = ch_slash \<longleftrightarrow> c = ch_slash"
proof -
  have "\<forall>c. lower c = ch_slash \<longleftrightarrow> c = ch_slash" unfolding all_bytes by (simp add: lower_def)
  then show ?thesis by blast
qed

text \<open>
  An accepted host name is not empty, is a prefix of what was sent with capital letters replaced, and
  has neither NUL nor slash.
\<close>

lemma validate_host_ok:
  assumes "ngx_http_validate_host host alloc = (NGX_OK, name)"
  shows "\<exists>n. name = map lower (take n host) \<and> 0 < n \<and> host \<noteq> []" "NUL \<notin> set name \<and> ch_slash \<notin> set name"
proof -
  define s0 where "s0 = \<lparr> vh_state = host_usual, vh_dot_pos = length host, vh_host_len = length host, vh_alloc = alloc \<rparr>"
  obtain s n where s: "host_loop 0 host s0 = Some s" "0 < n"
    "name = (if vh_alloc s then map lower (take n host) else take n host)"
    using assms by (auto simp: ngx_http_validate_host_def s0_def Let_def split: option.splits if_splits)
  have low: "name = map lower (take n host)"
  proof (cases "vh_alloc s")
    case False
    with host_loop_alloc [OF s(1)] have "\<forall>ch \<in> set (take n host). lower ch = ch"
      by (auto intro: lower_plain dest: in_set_takeD)
    then have "map lower (take n host) = take n host" by (simp add: map_idI)
    with False s(3) show ?thesis by simp
  qed (use s(3) in simp)
  have "host \<noteq> []" using assms by (auto simp: ngx_http_validate_host_def)
  with s(2) low show "\<exists>n. name = map lower (take n host) \<and> 0 < n \<and> host \<noteq> []" by blast
  show "NUL \<notin> set name \<and> ch_slash \<notin> set name"
    using host_loop_plain [OF s(1)] set_take_subset [of n host] unfolding low by (auto simp: image_iff)
qed

section \<open>What the handlers keep\<close>

definition line_clean :: "header_line \<Rightarrow> bool" where
  "line_clean h \<longleftrightarrow> clean (fst h) \<and> clean (snd h)"

definition headers_in_clean :: "headers_in \<Rightarrow> bool" where
  "headers_in_clean r \<longleftrightarrow> clean (hi_server r) \<and>
     (\<forall>offset. pred_option line_clean (hi_line r offset)) \<and> (\<forall>offset. list_all line_clean (hi_lines r offset))"

lemma headers_in_clean_set:
  "headers_in_clean r \<Longrightarrow> line_clean h \<Longrightarrow> headers_in_clean (set_line offset h r)"
  by (auto simp: headers_in_clean_def set_line_def)

lemma headers_in_clean_flags [simp]:
  "headers_in_clean (r\<lparr>hi_connection_type := x\<rparr>) = headers_in_clean r" "headers_in_clean (r\<lparr>hi_msie := b\<rparr>) = headers_in_clean r"
  "headers_in_clean (r\<lparr>hi_msie6 := b\<rparr>) = headers_in_clean r" "headers_in_clean (r\<lparr>hi_opera := b\<rparr>) = headers_in_clean r"
  "headers_in_clean (r\<lparr>hi_gecko := b\<rparr>) = headers_in_clean r" "headers_in_clean (r\<lparr>hi_chrome := b\<rparr>) = headers_in_clean r"
  "headers_in_clean (r\<lparr>hi_safari := b\<rparr>) = headers_in_clean r" "headers_in_clean (r\<lparr>hi_konqueror := b\<rparr>) = headers_in_clean r"
  "headers_in_clean (r\<lparr>hi_srv_conf := n\<rparr>) = headers_in_clean r"
  by (simp_all add: headers_in_clean_def)

lemma user_agent_clean [simp]:
  "headers_in_clean (user_agent_msie v r) = headers_in_clean r" "headers_in_clean (user_agent_others v r) = headers_in_clean r"
  by (simp_all add: user_agent_msie_def user_agent_others_def Let_def split: option.split)

lemma process_host_clean:
  assumes "ngx_http_process_host vs h r = Some r'" "headers_in_clean r" "line_clean h"
  shows "headers_in_clean r'"
proof -
  define r1 where "r1 = (if hi_line r (bytes_of ''host'') = None then set_line (bytes_of ''host'') h r else r)"
  have r1: "headers_in_clean r1" using assms(2,3) by (simp add: r1_def headers_in_clean_set)
  obtain host where host: "ngx_http_validate_host (snd h) False = (NGX_OK, host)"
    using assms(1) by (auto simp: ngx_http_process_host_def Let_def split: prod.splits ngx_rc.splits)
  have "clean host" using validate_host_ok(1) [OF host] assms(3) by (auto simp: line_clean_def)
  with assms(1) r1 host show ?thesis
    unfolding ngx_http_process_host_def r1_def [symmetric]
    by (auto simp: Let_def headers_in_clean_def split: if_splits option.splits)
qed

lemma call_handler_clean:
  assumes "call_handler vs f h r = Some r'" "headers_in_clean r" "line_clean h"
  shows "headers_in_clean r'"
proof (cases f)
  case Process_host
  with assms process_host_clean show ?thesis by simp
next
  case Process_connection
  with assms show ?thesis by (auto simp: ngx_http_process_connection_def split: if_splits)
next
  case Process_user_agent
  with assms show ?thesis
    by (auto simp: ngx_http_process_user_agent_def Let_def headers_in_clean_set split: if_splits)
next
  case Process_multi_lines
  with assms show ?thesis by (auto simp: ngx_http_process_multi_header_lines_def headers_in_clean_def split: if_splits)
qed (use assms in \<open>auto simp: ngx_http_process_header_line_def ngx_http_process_unique_header_line_def
    headers_in_clean_set split: option.splits\<close>)

lemma new_headers_in_clean: "headers_in_clean new_headers_in"
  by (simp add: headers_in_clean_def new_headers_in_def)

end
