(* ===== verification/Http_V2_Request.thy ===== *)
theory Http_V2_Request
  imports Http_Uri Http_Header_Line Http_Headers_In Hpack_Table
begin

text \<open>
  What the server does with one decoded header of an HTTP/2 request (\<^verbatim>\<open>src/http/v2/ngx_http_v2.c\<close>):
  the checks of \<open>ngx_http_v2_validate_header\<close>, the pseudo-headers (\<open>ngx_http_v2_pseudo_header\<close> and
  the four functions below it), the cookies, and the part of \<open>ngx_http_v2_state_process_header\<close>
  that acts on the request; then the request line and the cookie header that
  \<open>ngx_http_v2_run_request\<close> builds when all headers have arrived.

  Known headers go to the handlers of \<open>Http_Headers_In\<close>, which set fields of \<open>r->headers_in\<close>; the
  argument \<open>vs\<close> holds what the choice of the virtual server depends on.
\<close>

section \<open>State\<close>

record h2_request =
  r2_uri :: uri_result
  r2_method_name :: bytes
  r2_method :: http_method
  r2_schema :: "bytes option"
  r2_headers :: "(u64 \<times> bytes \<times> bytes) list"
  r2_cookies :: "bytes list"
  r2_headers_in :: headers_in
  r2_invalid_header :: bool
  r2_request_length :: nat

record h2_conf =
  underscores_in_headers :: bool
  ignore_invalid_headers :: bool
  merge_slashes :: bool
  max_field_size :: nat
  max_header_size :: nat

text \<open>\<open>hh->handler(r, h, hh->offset)\<close>; \<open>None\<close> when it does not return \<open>NGX_OK\<close>.\<close>

definition run_handler :: "virtual_servers \<Rightarrow> header_handler \<Rightarrow> header_line \<Rightarrow> h2_request \<Rightarrow> h2_request option" where
  "run_handler vs handler h r = map_option (\<lambda>hi. r\<lparr>r2_headers_in := hi\<rparr>) (call_handler vs handler h (r2_headers_in r))"

definition ngx_hash_key :: "bytes \<Rightarrow> u64" where
  "ngx_hash_key s = foldl ngx_hash 0 s"

section \<open>Validation\<close>

text \<open>The loop over the name: \<open>None\<close> is \<open>NGX_ERROR\<close>, otherwise the flag \<open>r->invalid_header\<close>.\<close>

fun validate_name :: "bool \<Rightarrow> bytes \<Rightarrow> bool \<Rightarrow> bool option" where
  "validate_name underscores [] invalid = Some invalid"
| "validate_name underscores (ch # name) invalid =
     (if (ch \<ge> ch_a \<and> ch \<le> ch_z) \<or> ch = ch_minus \<or> (ch \<ge> ch_0 \<and> ch \<le> ch_9) \<or> (ch = ch_underscore \<and> underscores)
      then validate_name underscores name invalid
      else if ch = NUL \<or> ch = LF \<or> ch = CR \<or> ch = ch_colon then None
      else if ch \<ge> ch_A \<and> ch \<le> ch_Z then None
      else validate_name underscores name True)"

definition ngx_http_v2_validate_header :: "h2_conf \<Rightarrow> field \<Rightarrow> h2_request \<Rightarrow> h2_request option" where
  "ngx_http_v2_validate_header conf header r =
     (if fst header = [] then None
      else let r = r\<lparr>r2_invalid_header := False\<rparr>;
               name = (if hd (fst header) = ch_colon then tl (fst header) else fst header)
           in case validate_name (underscores_in_headers conf) name False of
                None \<Rightarrow> None
              | Some invalid \<Rightarrow>
                  if list_ex (\<lambda>ch. ch = NUL \<or> ch = LF \<or> ch = CR) (snd header) then None
                  else Some (r\<lparr>r2_invalid_header := invalid\<rparr>))"

section \<open>Pseudo-headers\<close>

definition ngx_http_v2_parse_path :: "h2_conf \<Rightarrow> bytes \<Rightarrow> h2_request \<Rightarrow> ngx_rc \<times> h2_request" where
  "ngx_http_v2_parse_path conf v r =
     (if r_unparsed_uri (r2_uri r) \<noteq> [] then (NGX_DECLINED, r)
      else if v = [] then (NGX_DECLINED, r)
      else case ngx_http_parse_uri v no_uri_flags of
        None \<Rightarrow> (NGX_DECLINED, r)
      | Some f \<Rightarrow>
          (case ngx_http_process_request_uri True (merge_slashes conf) v f (r2_uri r) of
             Inl _ \<Rightarrow> (NGX_ABORT, r)
           | Inr u \<Rightarrow> (NGX_OK, r\<lparr>r2_uri := u\<rparr>)))"

definition h2_methods :: "(bytes \<times> http_method) list" where
  "h2_methods =
     [(bytes_of ''GET'', NGX_HTTP_GET), (bytes_of ''POST'', NGX_HTTP_POST), (bytes_of ''HEAD'', NGX_HTTP_HEAD),
      (bytes_of ''OPTIONS'', NGX_HTTP_OPTIONS), (bytes_of ''PROPFIND'', NGX_HTTP_PROPFIND),
      (bytes_of ''PUT'', NGX_HTTP_PUT), (bytes_of ''MKCOL'', NGX_HTTP_MKCOL), (bytes_of ''DELETE'', NGX_HTTP_DELETE),
      (bytes_of ''COPY'', NGX_HTTP_COPY), (bytes_of ''MOVE'', NGX_HTTP_MOVE),
      (bytes_of ''PROPPATCH'', NGX_HTTP_PROPPATCH), (bytes_of ''LOCK'', NGX_HTTP_LOCK),
      (bytes_of ''UNLOCK'', NGX_HTTP_UNLOCK), (bytes_of ''PATCH'', NGX_HTTP_PATCH), (bytes_of ''TRACE'', NGX_HTTP_TRACE)]"

definition ngx_http_v2_parse_method :: "bytes \<Rightarrow> h2_request \<Rightarrow> ngx_rc \<times> h2_request" where
  "ngx_http_v2_parse_method v r =
     (if r2_method_name r \<noteq> [] then (NGX_DECLINED, r)
      else if v = [] then (NGX_DECLINED, r)
      else let r = r\<lparr>r2_method_name := v\<rparr> in
        case map_of h2_methods v of
          Some m \<Rightarrow> (NGX_OK, r\<lparr>r2_method := m\<rparr>)
        | None \<Rightarrow>
            if list_ex (\<lambda>ch. (ch < ch_A \<or> ch > ch_Z) \<and> ch \<noteq> ch_underscore \<and> ch \<noteq> ch_minus) v
            then (NGX_DECLINED, r) else (NGX_OK, r))"

definition ngx_http_v2_parse_scheme :: "bytes \<Rightarrow> h2_request \<Rightarrow> ngx_rc \<times> h2_request" where
  "ngx_http_v2_parse_scheme v r =
     (if r2_schema r \<noteq> None then (NGX_DECLINED, r)
      else if v = [] then (NGX_DECLINED, r)
      else (NGX_OK, r\<lparr>r2_schema := Some v\<rparr>))"

definition push_header :: "bytes \<Rightarrow> bytes \<Rightarrow> h2_request \<Rightarrow> h2_request" where
  "push_header key v r = r\<lparr>r2_headers := r2_headers r @ [(ngx_hash_key key, key, v)]\<rparr>"

definition ngx_http_v2_parse_authority :: "virtual_servers \<Rightarrow> bytes \<Rightarrow> h2_request \<Rightarrow> ngx_rc \<times> h2_request" where
  "ngx_http_v2_parse_authority vs v r =
     (let r = push_header (bytes_of ''host'') v r in
      case find_handler (bytes_of ''host'') of
        None \<Rightarrow> (NGX_ERROR, r)
      | Some handler \<Rightarrow>
          (case run_handler vs handler (bytes_of ''host'', v) r of None \<Rightarrow> (NGX_ABORT, r) | Some r \<Rightarrow> (NGX_OK, r)))"

definition ngx_http_v2_pseudo_header :: "h2_conf \<Rightarrow> virtual_servers \<Rightarrow> field \<Rightarrow> h2_request \<Rightarrow> ngx_rc \<times> h2_request" where
  "ngx_http_v2_pseudo_header conf vs header r =
     (let name = tl (fst header); v = snd header in
      if name = bytes_of ''path'' then ngx_http_v2_parse_path conf v r
      else if name = bytes_of ''method'' then ngx_http_v2_parse_method v r
      else if name = bytes_of ''scheme'' then ngx_http_v2_parse_scheme v r
      else if name = bytes_of ''authority'' then ngx_http_v2_parse_authority vs v r
      else (NGX_DECLINED, r))"

section \<open>One header\<close>

definition ngx_http_v2_cookie :: "bytes \<Rightarrow> h2_request \<Rightarrow> h2_request" where
  "ngx_http_v2_cookie v r = r\<lparr>r2_cookies := r2_cookies r @ [v]\<rparr>"

text \<open>
  What becomes of the stream: it goes on, it is given up (\<open>goto error\<close>: with an RST_STREAM of the
  given code, or because the request has been finalized already), or the connection is closed.
\<close>

datatype stream_fate = Stream_on h2_request | Stream_reset nat | Stream_finalized | Connection_error nat

definition NGX_HTTP_V2_NO_ERROR :: nat where "NGX_HTTP_V2_NO_ERROR = 0"
definition NGX_HTTP_V2_PROTOCOL_ERROR :: nat where "NGX_HTTP_V2_PROTOCOL_ERROR = 1"
definition NGX_HTTP_V2_INTERNAL_ERROR :: nat where "NGX_HTTP_V2_INTERNAL_ERROR = 2"

definition ngx_http_v2_request_header :: "h2_conf \<Rightarrow> virtual_servers \<Rightarrow> field \<Rightarrow> h2_request \<Rightarrow> stream_fate" where
  "ngx_http_v2_request_header conf vs header r =
     (case ngx_http_v2_validate_header conf header r of
        None \<Rightarrow> Stream_reset NGX_HTTP_V2_PROTOCOL_ERROR
      | Some r \<Rightarrow>
          if hd (fst header) = ch_colon then
            (case ngx_http_v2_pseudo_header conf vs header r of
               (NGX_OK, r) \<Rightarrow> Stream_on r
             | (NGX_ABORT, _) \<Rightarrow> Stream_finalized
             | (NGX_DECLINED, _) \<Rightarrow> Stream_reset NGX_HTTP_V2_PROTOCOL_ERROR
             | _ \<Rightarrow> Connection_error NGX_HTTP_V2_INTERNAL_ERROR)
          else if r2_invalid_header r \<and> ignore_invalid_headers conf then Stream_on r
          else if fst header = bytes_of ''cookie'' then Stream_on (ngx_http_v2_cookie (snd header) r)
          else
            let r = push_header (fst header) (snd header) r in
            case find_handler (fst header) of
              None \<Rightarrow> Stream_on r
            | Some handler \<Rightarrow> (case run_handler vs handler header r of None \<Rightarrow> Stream_finalized | Some r \<Rightarrow> Stream_on r))"

section \<open>The end of the headers\<close>

definition ngx_http_v2_construct_request_line :: "h2_request \<Rightarrow> bytes option" where
  "ngx_http_v2_construct_request_line r =
     (if r2_method_name r = [] \<or> r_unparsed_uri (r2_uri r) = [] then None
      else Some (r2_method_name r @ [SP] @ r_unparsed_uri (r2_uri r) @ bytes_of '' HTTP/2.0''))"

text \<open>The loop that fills the buffer of \<open>len\<close> bytes; it stops when the buffer is full.\<close>

fun cookie_fill :: "nat \<Rightarrow> bytes \<Rightarrow> bytes list \<Rightarrow> bytes option" where
  "cookie_fill len buf [] = None"
| "cookie_fill len buf (val # vals) =
     (let buf = buf @ val in
      if length buf = len then Some buf else cookie_fill len (buf @ [ch_semi, SP]) vals)"

definition ngx_http_v2_construct_cookie_header :: "virtual_servers \<Rightarrow> h2_request \<Rightarrow> h2_request option" where
  "ngx_http_v2_construct_cookie_header vs r =
     (if r2_cookies r = [] then Some r
      else let len = sum_list (map (\<lambda>v. length v + 2) (r2_cookies r)) - 2 in
        case cookie_fill len [] (r2_cookies r) of
          None \<Rightarrow> None
        | Some buf \<Rightarrow>
            let r = push_header (bytes_of ''cookie'') buf r in
            case find_handler (bytes_of ''cookie'') of
              None \<Rightarrow> None
            | Some handler \<Rightarrow> run_handler vs handler (bytes_of ''cookie'', buf) r)"

section \<open>Lemmas\<close>

lemma validate_name_clean: "validate_name u name i = Some j \<Longrightarrow> clean name \<and> ch_colon \<notin> set name"
  by (induction u name i rule: validate_name.induct)
    (auto simp: breaks_line_def word_le_def split: if_splits)

lemma validate_header_clean:
  assumes "ngx_http_v2_validate_header conf header r = Some r'"
  shows "clean (fst header)" "clean (snd header)" "fst header \<noteq> []" "\<exists>i. r' = r\<lparr>r2_invalid_header := i\<rparr>"
proof -
  obtain name v where h: "header = (name, v)" by (cases header)
  from assms h obtain i where i: "name \<noteq> []" "validate_name (underscores_in_headers conf) (if hd name = ch_colon then tl name else name) False = Some i"
    "\<not> list_ex (\<lambda>ch. ch = NUL \<or> ch = LF \<or> ch = CR) v" "r' = r\<lparr>r2_invalid_header := i\<rparr>"
    by (auto simp: ngx_http_v2_validate_header_def Let_def split: if_splits option.splits)
  have "clean name" using validate_name_clean [OF i(2)] i(1) by (cases name) (auto simp: breaks_line_def split: if_splits)
  moreover have "clean v" using i(3) by (auto simp: clean_def breaks_line_def list_ex_iff)
  ultimately show "clean (fst header)" "clean (snd header)" "fst header \<noteq> []" "\<exists>i. r' = r\<lparr>r2_invalid_header := i\<rparr>"
    using i h by auto
qed

text \<open>The reference of the cookie loop: the values joined by \<open>"; "\<close>.\<close>

fun join_cookies :: "bytes list \<Rightarrow> bytes" where
  "join_cookies [] = []"
| "join_cookies [v] = v"
| "join_cookies (v # w # vs) = v @ [ch_semi, SP] @ join_cookies (w # vs)"

lemma join_cookies_length: "vs \<noteq> [] \<Longrightarrow> length (join_cookies vs) = sum_list (map (\<lambda>v. length v + 2) vs) - 2"
proof (induction vs rule: join_cookies.induct)
  case (3 v w vs)
  have "2 \<le> sum_list (map (\<lambda>v. length v + 2) (w # vs))" by simp
  then show ?case using 3 by simp
qed simp_all

lemma cookie_fill_join: "vs \<noteq> [] \<Longrightarrow> cookie_fill (length buf + length (join_cookies vs)) buf vs = Some (buf @ join_cookies vs)"
proof (induction vs arbitrary: buf rule: join_cookies.induct)
  case (3 v w vs)
  from 3(1) [of "buf @ v @ [ch_semi, SP]"] show ?case by (simp add: add.assoc)
qed simp_all

lemma clean_join: "(\<forall>v \<in> set vs. clean v) \<Longrightarrow> clean (join_cookies vs)"
  by (induction vs rule: join_cookies.induct) (auto simp: breaks_line_def)

text \<open>
  The invariant: nothing that is kept of the request as the client sent it can break a line. The
  decoded path (\<open>r_uri\<close>, with \<open>r_exten\<close>) is not part of it: \<open>%0a\<close> is decoded to a line feed.
\<close>

definition request_clean :: "h2_request \<Rightarrow> bool" where
  "request_clean r \<longleftrightarrow> clean (r_unparsed_uri (r2_uri r)) \<and> clean (r2_method_name r) \<and> pred_option clean (r2_schema r) \<and>
     (\<forall>(h, k, v) \<in> set (r2_headers r). k \<noteq> [] \<and> clean k \<and> clean v \<and> h = ngx_hash_key k) \<and> (\<forall>v \<in> set (r2_cookies r). clean v) \<and>
     headers_in_clean (r2_headers_in r)"

lemma run_handler_clean:
  assumes "run_handler vs f h r = Some r'" "request_clean r" "line_clean h"
  shows "request_clean r'"
  using assms call_handler_clean [of vs f h "r2_headers_in r"] by (auto simp: run_handler_def request_clean_def)

lemma finish_unparsed [simp]: "r_unparsed_uri (finish_request_uri uri sp e a r) = uri"
  by (simp add: finish_request_uri_def Let_def split: option.splits)

lemma process_uri_unparsed: "ngx_http_process_request_uri ok m uri f r = Inr u \<Longrightarrow> r_unparsed_uri u = uri"
  by (auto simp: ngx_http_process_request_uri_def Let_def split: if_splits option.splits)

lemma push_header_clean: "request_clean r \<Longrightarrow> k \<noteq> [] \<Longrightarrow> clean k \<Longrightarrow> clean v \<Longrightarrow> request_clean (push_header k v r)"
  by (auto simp: request_clean_def push_header_def)

lemma pseudo_header_clean:
  assumes "ngx_http_v2_pseudo_header conf vs header r = (NGX_OK, r')" "request_clean r" "clean (snd header)"
  shows "request_clean r'"
proof -
  let ?v = "snd header"
  have "request_clean r'" if "ngx_http_v2_parse_path conf ?v r = (NGX_OK, r')"
    using that assms(2,3) by (auto simp: ngx_http_v2_parse_path_def request_clean_def process_uri_unparsed
        split: if_splits option.splits sum.splits)
  moreover have "request_clean r'" if "ngx_http_v2_parse_method ?v r = (NGX_OK, r')"
    using that assms(2,3) by (auto simp: ngx_http_v2_parse_method_def request_clean_def Let_def split: if_splits option.splits)
  moreover have "request_clean r'" if "ngx_http_v2_parse_scheme ?v r = (NGX_OK, r')"
    using that assms(2,3) by (auto simp: ngx_http_v2_parse_scheme_def request_clean_def split: if_splits)
  moreover have "request_clean r'" if "ngx_http_v2_parse_authority vs ?v r = (NGX_OK, r')"
  proof -
    have "request_clean (push_header (bytes_of ''host'') ?v r)"
      by (rule push_header_clean [OF assms(2)]) (use assms(3) in \<open>simp_all add: breaks_line_def\<close>)
    moreover have "line_clean (bytes_of ''host'', ?v)" using assms(3) by (simp add: line_clean_def breaks_line_def)
    ultimately show ?thesis using that
      by (auto simp: ngx_http_v2_parse_authority_def Let_def split: option.splits intro: run_handler_clean)
  qed
  ultimately show ?thesis using assms(1) by (simp add: ngx_http_v2_pseudo_header_def Let_def split: if_splits)
qed

lemma request_header_clean:
  assumes "request_clean r" "ngx_http_v2_request_header conf vs header r = Stream_on r'"
  shows "request_clean r'"
proof -
  from assms(2) obtain r1 where v: "ngx_http_v2_validate_header conf header r = Some r1"
    by (auto simp: ngx_http_v2_request_header_def split: option.splits)
  note c = validate_header_clean [OF v]
  have r1: "request_clean r1" using assms(1) c(4) by (auto simp: request_clean_def)
  show ?thesis
  proof (cases "hd (fst header) = ch_colon")
    case True
    then have "ngx_http_v2_pseudo_header conf vs header r1 = (NGX_OK, r')"
      using assms(2) v by (auto simp: ngx_http_v2_request_header_def split: prod.splits ngx_rc.splits)
    then show ?thesis using pseudo_header_clean r1 c(2) by blast
  next
    case False
    have p: "request_clean (push_header (fst header) (snd header) r1)" using push_header_clean r1 c by blast
    have "request_clean (ngx_http_v2_cookie (snd header) r1)" using r1 c(2) by (auto simp: request_clean_def ngx_http_v2_cookie_def)
    moreover have "line_clean header" using c(1,2) by (simp add: line_clean_def)
    ultimately show ?thesis using assms(2) v False r1 p
      by (auto simp: ngx_http_v2_request_header_def Let_def split: if_splits option.splits intro: run_handler_clean)
  qed
qed

text \<open>A stream as \<open>ngx_http_v2_create_stream\<close> leaves it, and the headers of its block one after the other.\<close>

definition new_h2_request :: h2_request where
  "new_h2_request = \<lparr>r2_uri = \<lparr>r_uri = [], r_unparsed_uri = [], r_valid_unparsed_uri = False, r_exten = [], r_args = []\<rparr>,
     r2_method_name = [], r2_method = NGX_HTTP_UNKNOWN, r2_schema = None, r2_headers = [], r2_cookies = [],
     r2_headers_in = new_headers_in, r2_invalid_header = False, r2_request_length = 0\<rparr>"

fun request_headers :: "h2_conf \<Rightarrow> virtual_servers \<Rightarrow> field list \<Rightarrow> h2_request \<Rightarrow> stream_fate" where
  "request_headers conf vs [] r = Stream_on r"
| "request_headers conf vs (h # hs) r =
     (case ngx_http_v2_request_header conf vs h r of
        Stream_on r \<Rightarrow> request_headers conf vs hs r
      | fate \<Rightarrow> fate)"

lemma request_headers_clean:
  "request_headers conf vs hs r = Stream_on r' \<Longrightarrow> request_clean r \<Longrightarrow> request_clean r'"
proof (induction hs arbitrary: r)
  case (Cons h hs)
  then show ?case using request_header_clean by (auto split: stream_fate.splits)
qed simp

lemma new_h2_request_clean: "request_clean new_h2_request"
  by (simp add: request_clean_def new_h2_request_def new_headers_in_clean)

text \<open>
  The cookie header is built exactly: the loop fills its buffer to the last byte with the
  values joined by a semicolon and a space, whatever the values (also empty ones), and never runs
  past the last cookie.
\<close>

lemma cookie_header_joined:
  "ngx_http_v2_construct_cookie_header vs r =
     (if r2_cookies r = [] then Some r
      else case find_handler (bytes_of ''cookie'') of
        None \<Rightarrow> None
      | Some handler \<Rightarrow> run_handler vs handler (bytes_of ''cookie'', join_cookies (r2_cookies r))
                           (push_header (bytes_of ''cookie'') (join_cookies (r2_cookies r)) r))"
  using cookie_fill_join [of "r2_cookies r" "[]"] join_cookies_length [of "r2_cookies r"]
  by (simp add: ngx_http_v2_construct_cookie_header_def Let_def del: bytes_of_simps)

lemma cookie_header_clean:
  assumes "ngx_http_v2_construct_cookie_header vs r = Some r'" "request_clean r"
  shows "request_clean r'"
proof (cases "r2_cookies r = []")
  case False
  let ?v = "join_cookies (r2_cookies r)"
  have v: "clean ?v" using assms(2) by (intro clean_join) (simp add: request_clean_def)
  then have "request_clean (push_header (bytes_of ''cookie'') ?v r)"
    by (intro push_header_clean assms(2)) (simp_all add: breaks_line_def)
  moreover have "line_clean (bytes_of ''cookie'', ?v)" using v by (simp add: line_clean_def breaks_line_def)
  ultimately show ?thesis using assms(1) False
    by (auto simp: cookie_header_joined simp del: bytes_of_simps split: option.splits intro: run_handler_clean)
qed (use assms in \<open>simp add: cookie_header_joined\<close>)

lemma request_line_clean:
  "ngx_http_v2_construct_request_line r = Some line \<Longrightarrow> request_clean r \<Longrightarrow> clean line"
  by (auto simp: ngx_http_v2_construct_request_line_def request_clean_def breaks_line_def split: if_splits)

text \<open>
  C29. No line breaks reach the rest of the server: whatever headers a client sends over HTTP/2, as
  long as the stream goes on, no name, value or cookie, neither the method, the scheme nor the URI
  as it was sent, and nothing that the handlers of known headers keep in \<open>r->headers_in\<close> (the host
  name included) holds a NUL, CR or LF; names are not empty and carry their hash. The same holds
  of the request line and the cookie header that are built at the end, so that no line that is
  passed on can be split in two. (The decoded path may hold such bytes: \<open>%0a\<close> is decoded.)
\<close>

theorem h2_request_clean:
  assumes "request_headers conf vs hs new_h2_request = Stream_on r"
  shows "request_clean r \<and>
    (ngx_http_v2_construct_request_line r = Some line \<longrightarrow> clean line) \<and>
    (ngx_http_v2_construct_cookie_header vs r = Some r' \<longrightarrow> request_clean r')"
  using request_headers_clean [OF assms new_h2_request_clean] request_line_clean cookie_header_clean by blast

definition plain_conf :: h2_conf where
  "plain_conf = \<lparr>underscores_in_headers = False, ignore_invalid_headers = True, merge_slashes = True,
     max_field_size = 4096, max_header_size = 16384\<rparr>"

definition one_server :: virtual_servers where
  "one_server = \<lparr>vs_ssl_servername = None, vs_ssl_regex_ok = True, vs_find = (\<lambda>_. (NGX_DECLINED, 0)), vs_default = 0,
     vs_verify = (\<lambda>_. False)\<rparr>"

definition small_block :: "field list" where
  "small_block = [(bytes_of '':method'', bytes_of ''GET''), (bytes_of '':path'', bytes_of ''/%0a''),
     (bytes_of '':authority'', bytes_of ''Ab.c:80''), (bytes_of ''connection'', bytes_of ''Keep-Alive''),
     (bytes_of ''cookie'', bytes_of ''a=1''), (bytes_of ''cookie'', bytes_of ''b=2'')]"

theorem h2_request_clean_witness:
  "\<exists>r. request_headers plain_conf one_server small_block new_h2_request = Stream_on r \<and> request_clean r \<and>
    hi_server (r2_headers_in r) = bytes_of ''ab.c'' \<and> r_uri (r2_uri r) = [ch_slash, LF] \<and>
    hi_connection_type (r2_headers_in r) = NGX_HTTP_CONNECTION_KEEP_ALIVE"
proof -
  let ?f = "\<lambda>r. (hi_server (r2_headers_in r), r_uri (r2_uri r), hi_connection_type (r2_headers_in r))"
  have "(case request_headers plain_conf one_server small_block new_h2_request of Stream_on r \<Rightarrow> Some (?f r) | _ \<Rightarrow> None) =
      Some (bytes_of ''ab.c'', [ch_slash, LF], NGX_HTTP_CONNECTION_KEEP_ALIVE)"
    by code_simp
  then obtain r where r: "request_headers plain_conf one_server small_block new_h2_request = Stream_on r"
    "?f r = (bytes_of ''ab.c'', [ch_slash, LF], NGX_HTTP_CONNECTION_KEEP_ALIVE)"
    by (cases "request_headers plain_conf one_server small_block new_h2_request") auto
  then show ?thesis using h2_request_clean [OF r(1)] by auto
qed

lemma h2_methods_same: "map_of h2_methods v = map_of method_table v"
  by (simp add: h2_methods_def method_table_def fun_upd_def)

text \<open>
  Both versions of the protocol agree on methods: when a \<open>:method\<close> header is accepted, the
  request has the method that the HTTP/1 request line parser gives to the same name.
\<close>

theorem h2_method_agrees:
  "case ngx_http_v2_parse_method v r of
     (NGX_OK, r') \<Rightarrow> v \<noteq> [] \<and> r2_method_name r = [] \<and> r2_method_name r' = v \<and> r2_method r' = ngx_http_method v (r2_method r)
   | (rc, _) \<Rightarrow> rc = NGX_DECLINED"
  by (auto simp: ngx_http_v2_parse_method_def ngx_http_method_table h2_methods_same Let_def split: option.splits)

end
