(* ===== verification/Hpack_Int.thy ===== *)
theory Hpack_Int
  imports Hpack_Huffman
begin

text \<open>
  The integers of HPACK: \<open>ngx_http_v2_parse_int\<close> (\<^verbatim>\<open>src/http/v2/ngx_http_v2.c\<close>) and
  \<open>ngx_http_v2_write_int\<close> (\<^verbatim>\<open>src/http/v2/ngx_http_v2_filter_module.c\<close>). The bytes from \<open>*pos\<close> to
  \<open>end\<close> are a list; a successful call returns the value, the bytes that are left and the new
  \<open>h2c->state.length\<close>.
\<close>

section \<open>Definitions\<close>

definition NGX_HTTP_V2_INT_OCTETS :: nat where
  "NGX_HTTP_V2_INT_OCTETS = 4"

definition ngx_http_v2_prefix :: "nat \<Rightarrow> u8" where
  "ngx_http_v2_prefix bits = 2 ^ bits - 1"

datatype int_result = Int_value nat bytes nat | Int_rc ngx_rc

text \<open>
  The loop from the second octet on: \<open>n\<close> octets have been read, \<open>rest\<close> is what is left up to the
  shortened \<open>end\<close>. The value and the number of octets, or \<open>None\<close> when the loop reaches \<open>end\<close>.
\<close>

fun parse_int_loop :: "nat \<Rightarrow> nat \<Rightarrow> nat \<Rightarrow> bytes \<Rightarrow> (nat \<times> nat) option" where
  "parse_int_loop shift value n [] = None"
| "parse_int_loop shift value n (octet # rest) =
     (let value = value + unat (octet AND 0x7f) * 2 ^ shift in
      if octet < 128 then Some (value, n + 1)
      else parse_int_loop (shift + 7) value (n + 1) rest)"

fun ngx_http_v2_parse_int :: "u8 \<Rightarrow> bytes \<Rightarrow> nat \<Rightarrow> int_result" where
  "ngx_http_v2_parse_int prefix [] len = Int_rc NGX_ERROR"
| "ngx_http_v2_parse_int prefix (octet # rest) len =
     (let value = octet AND prefix in
      if value \<noteq> prefix then
        (if len = 0 then Int_rc NGX_ERROR else Int_value (unat value) rest (len - 1))
      else
        let start = take NGX_HTTP_V2_INT_OCTETS (octet # rest) in
        case parse_int_loop 0 (unat value) 1 (tl start) of
          Some (value, n) \<Rightarrow>
            if n > len then Int_rc NGX_ERROR else Int_value value (drop n (octet # rest)) (len - n)
        | None \<Rightarrow>
            if length start \<ge> len then Int_rc NGX_ERROR
            else if length start = NGX_HTTP_V2_INT_OCTETS then Int_rc NGX_DECLINED
            else Int_rc NGX_AGAIN)"

text \<open>The writer: the octets written after the first, and the first one, which already holds flags.\<close>

fun write_int_loop :: "nat \<Rightarrow> bytes" where
  "write_int_loop value =
     (if value \<ge> 128 then of_nat (value mod 128 + 128) # write_int_loop (value div 128) else [of_nat value])"

declare write_int_loop.simps [simp del]

definition ngx_http_v2_write_int :: "u8 \<Rightarrow> u8 \<Rightarrow> nat \<Rightarrow> bytes" where
  "ngx_http_v2_write_int first prefix value =
     (if value < unat prefix then [first OR of_nat value]
      else (first OR prefix) # write_int_loop (value - unat prefix))"

section \<open>Lemmas\<close>

lemma low7: "unat (octet AND 0x7f) = unat octet mod 128" for octet :: u8
proof -
  have "octet AND 0x7f = take_bit 7 octet" by (simp add: take_bit_eq_mask mask_eq_exp_minus_1)
  then show ?thesis by (simp add: take_bit_eq_mod unat_mod)
qed

lemma small_octet: "octet < 128 \<longleftrightarrow> unat octet < 128" for octet :: u8
  by (simp add: word_less_nat_alt)

lemma parse_write_loop:
  "v < 128 ^ k \<Longrightarrow> parse_int_loop shift acc n (write_int_loop v @ rest) = Some (acc + v * 2 ^ shift, n + length (write_int_loop v)) \<and>
     length (write_int_loop v) \<le> max 1 k"
proof (induction k arbitrary: v shift acc n)
  case 0
  then show ?case by (simp add: write_int_loop.simps [of 0])
next
  case (Suc k)
  show ?case
  proof (cases "v < 128")
    case True
    then show ?thesis by (simp add: write_int_loop.simps [of v] low7 small_octet unat_of_nat)
  next
    case False
    have k: "v div 128 < 128 ^ k" using Suc.prems by (simp add: less_mult_imp_div_less mult.commute)
    have "0 < v div 128" using False by simp
    then have "0 < k" using k by (cases k) auto
    have eq: "write_int_loop v = of_nat (v mod 128 + 128) # write_int_loop (v div 128)"
      using False by (subst write_int_loop.simps) simp
    have o: "unat (of_nat (v mod 128 + 128) :: u8) = v mod 128 + 128" unfolding unat_of_nat by simp
    have "r * 2 ^ shift + q * 2 ^ (shift + 7) = (q * 128 + r) * 2 ^ shift" for q r :: nat
      by (simp add: power_add algebra_simps)
    from this [of "v mod 128" "v div 128"] have "v mod 128 * 2 ^ shift + v div 128 * 2 ^ (shift + 7) = v * 2 ^ shift"
      by simp
    then show ?thesis using Suc.IH [OF k, of "shift + 7" "acc + v mod 128 * 2 ^ shift" "n + 1"] \<open>0 < k\<close>
      by (simp add: eq low7 small_octet o Let_def del: of_nat_add)
  qed
qed

lemma parse_int_loop_take:
  "parse_int_loop shift acc n xs = Some (v, m) \<Longrightarrow> m \<le> n + length xs \<and> n < m"
  by (induction shift acc n xs rule: parse_int_loop.induct) (auto simp: Let_def split: if_splits)

text \<open>Flags in front of a prefix: the first octet of the writer has none of the prefix bits set.\<close>

definition flags_of :: "u8 \<Rightarrow> nat \<Rightarrow> bool" where
  "flags_of first bits \<longleftrightarrow> first AND ngx_http_v2_prefix bits = 0"

lemma prefix_mask: "ngx_http_v2_prefix bits = mask bits"
  by (simp add: ngx_http_v2_prefix_def mask_eq_exp_minus_1)

lemma unat_prefix: "bits \<le> 7 \<Longrightarrow> unat (ngx_http_v2_prefix bits) = 2 ^ bits - 1"
proof -
  assume "bits \<le> 7"
  then have "bits = 0 \<or> bits = 1 \<or> bits = 2 \<or> bits = 3 \<or> bits = 4 \<or> bits = 5 \<or> bits = 6 \<or> bits = 7" by linarith
  then show ?thesis by (elim disjE) (simp_all add: ngx_http_v2_prefix_def)
qed

lemma first_octet_value:
  assumes "flags_of first bits" "bits \<le> 7" "v < 2 ^ bits"
  shows "unat ((first OR of_nat v) AND ngx_http_v2_prefix bits) = v"
proof -
  have "(first OR of_nat v) AND ngx_http_v2_prefix bits = of_nat v AND ngx_http_v2_prefix bits"
    using assms(1) by (simp add: flags_of_def bit.conj_disj_distrib2)
  also have "\<dots> = take_bit bits (of_nat v)" by (simp add: prefix_mask take_bit_eq_mask)
  also have "unat \<dots> = take_bit bits v mod 256" by (simp add: take_bit_of_nat unat_of_nat)
  also have "\<dots> = take_bit bits v"
    by (rule mod_less, rule less_le_trans [OF take_bit_nat_less_exp])
      (use power_increasing [OF assms(2), of "2 :: nat"] in simp)
  finally show ?thesis using assms(3) by (simp add: take_bit_nat_eq_self)
qed

section \<open>Properties\<close>

text \<open>
  C30. What \<open>ngx_http_v2_write_int\<close> writes, \<open>ngx_http_v2_parse_int\<close> reads back, for every prefix of
  at most seven bits, whatever flags share the first octet and whatever follows: the value, the
  bytes after the integer and the remaining length, for values up to the prefix
  plus \<open>2^21 - 1\<close> (\<open>NGX_HTTP_V2_MAX_FIELD\<close>); an integer longer than the rest of the frame is an error.
\<close>

theorem int_roundtrip:
  assumes "flags_of first bits" "0 < bits" "bits \<le> 7" "v < 2 ^ bits - 1 + 2 ^ 21"
  defines "enc \<equiv> ngx_http_v2_write_int first (ngx_http_v2_prefix bits) v"
  shows "ngx_http_v2_parse_int (ngx_http_v2_prefix bits) (enc @ rest) len =
    (if length enc \<le> len then Int_value v rest (len - length enc) else Int_rc NGX_ERROR)"
proof -
  let ?p = "ngx_http_v2_prefix bits"
  have p: "unat ?p = 2 ^ bits - 1" using assms(3) by (rule unat_prefix)
  show ?thesis
  proof (cases "v < unat ?p")
    case True
    then have v: "unat ((first OR of_nat v) AND ?p) = v" using first_octet_value [OF assms(1,3), of v] p by simp
    then have "(first OR of_nat v) AND ?p \<noteq> ?p" using True by (metis less_irrefl)
    then show ?thesis using True v by (auto simp: enc_def ngx_http_v2_write_int_def Let_def)
  next
    case False
    have f: "(first OR ?p) AND ?p = ?p" by (simp add: bit.conj_disj_distrib2)
    let ?v = "v - unat ?p" and ?tail = "write_int_loop (v - unat ?p)"
    have enc: "enc = (first OR ?p) # ?tail" using False by (simp add: enc_def ngx_http_v2_write_int_def)
    have "?v < 128 ^ 3" using assms(4) p False by simp
    note r = parse_write_loop [OF this]
    have three: "length ?tail \<le> 3" using r [of 0 0 0] by simp
    then have "take 3 (?tail @ rest) = ?tail @ take (3 - length ?tail) rest" by simp
    then have "parse_int_loop 0 (unat ?p) 1 (take 3 (?tail @ rest)) = Some (v, 1 + length ?tail)"
      using r [of 0 "unat ?p" 1 "take (3 - length ?tail) rest"] False by simp
    then show ?thesis
      by (simp add: enc f Let_def NGX_HTTP_V2_INT_OCTETS_def take_Cons' numeral_eq_Suc)
  qed
qed

theorem int_roundtrip_witness:
  "ngx_http_v2_parse_int (ngx_http_v2_prefix 5) (ngx_http_v2_write_int 0x20 (ngx_http_v2_prefix 5) 1337 @ [7]) 10 =
     Int_value 1337 [7] 7"
proof -
  have "flags_of 0x20 5" by (simp add: flags_of_def ngx_http_v2_prefix_def)
  moreover have "length (ngx_http_v2_write_int 0x20 (ngx_http_v2_prefix 5) 1337) = 3"
    by (simp add: ngx_http_v2_write_int_def unat_prefix write_int_loop.simps)
  ultimately show ?thesis using int_roundtrip [of "0x20" 5 1337 "[7]" 10] by simp
qed

section \<open>More input, and the remaining length\<close>

lemma parse_int_loop_append:
  "parse_int_loop shift acc n xs = Some r \<Longrightarrow> parse_int_loop shift acc n (xs @ ys) = Some r"
  by (induction shift acc n xs rule: parse_int_loop.induct) (auto simp: Let_def split: if_splits)

lemma parse_int_loop_bound:
  "parse_int_loop shift acc n xs = Some (v, m) \<Longrightarrow> v + 2 ^ shift \<le> acc + 2 ^ (shift + 7 * length xs)"
proof (induction shift acc n xs rule: parse_int_loop.induct)
  case (2 shift acc n octet rest)
  let ?d = "unat octet mod 128"
  have d: "?d * 2 ^ shift + 2 ^ shift \<le> 2 ^ (shift + 7)"
    using mult_le_mono1 [of "?d + 1" 128 "2 ^ shift"] by (simp add: power_add)
  have e: "shift + 7 * length (octet # rest) = shift + 7 + 7 * length rest" by simp
  show ?case
  proof (cases "octet < 128")
    case True
    then have "v = acc + ?d * 2 ^ shift" using 2(2) by (simp add: low7)
    moreover have "(2::nat) ^ (shift + 7) \<le> 2 ^ (shift + 7 + 7 * length rest)" by (rule power_increasing) simp_all
    ultimately show ?thesis unfolding e using d by linarith
  next
    case False
    then have "v + 2 ^ (shift + 7) \<le> acc + ?d * 2 ^ shift + 2 ^ (shift + 7 + 7 * length rest)" using 2 by (simp add: low7 Let_def)
    then show ?thesis unfolding e using d by linarith
  qed
qed simp

lemma parse_int_loop_octets: "parse_int_loop shift acc n xs = Some (v, m) \<Longrightarrow> n < m \<and> m \<le> n + length xs"
  by (induction shift acc n xs rule: parse_int_loop.induct) (auto simp: Let_def split: if_splits)

lemma take_int_octets: "take NGX_HTTP_V2_INT_OCTETS (x # xs) = x # take 3 xs"
  by (simp add: NGX_HTTP_V2_INT_OCTETS_def take_Cons' numeral_eq_Suc)

lemma parse_int_value:
  assumes "ngx_http_v2_parse_int p bs len = Int_value v rest len'"
  shows "length rest < length bs \<and> len' + (length bs - length rest) = len \<and> len' < len \<and>
    rest = drop (length bs - length rest) bs \<and> v < unat p + 2 ^ 21"
proof (cases bs)
  case (Cons octet xs)
  let ?v = "octet AND p"
  show ?thesis
  proof (cases "?v = p")
    case False
    have "unat ?v \<le> unat p" by (simp add: word_and_le1 flip: word_le_nat_alt)
    then show ?thesis using assms Cons False by (auto simp: Let_def split: if_splits)
  next
    case True
    with assms Cons obtain n where n: "parse_int_loop 0 (unat p) 1 (take 3 xs) = Some (v, n)" "n \<le> len"
      "rest = drop n (octet # xs)" "len' = len - n"
      by (auto simp: Let_def take_int_octets split: option.splits if_splits)
    have m: "1 < n" "n \<le> Suc (length xs)" using parse_int_loop_octets [OF n(1)] by auto
    have "v < unat p + 2 ^ (7 * length (take 3 xs))" using parse_int_loop_bound [OF n(1)] by simp
    moreover have "(2::nat) ^ (7 * length (take 3 xs)) \<le> 2 ^ 21" by (rule power_increasing) simp_all
    ultimately show ?thesis using n m Cons by auto
  qed
qed (use assms in simp)

lemma parse_int_loop_later:
  "parse_int_loop shift acc n xs = None \<Longrightarrow> parse_int_loop shift acc n (xs @ ys) = Some (v, m) \<Longrightarrow> n + length xs < m"
proof (induction shift acc n xs rule: parse_int_loop.induct)
  case (1 shift acc n)
  then show ?case using parse_int_loop_octets by auto
next
  case (2 shift acc n octet rest)
  then show ?case by (auto simp: Let_def split: if_splits)
qed

lemma parse_int_Cons:
  "ngx_http_v2_parse_int p (x # xs) len =
    (if x AND p \<noteq> p then (if len = 0 then Int_rc NGX_ERROR else Int_value (unat (x AND p)) xs (len - 1))
     else case parse_int_loop 0 (unat p) 1 (take 3 xs) of
       Some (v, n) \<Rightarrow> if n > len then Int_rc NGX_ERROR else Int_value v (drop n (x # xs)) (len - n)
     | None \<Rightarrow> if min 4 (Suc (length xs)) \<ge> len then Int_rc NGX_ERROR
         else if 3 \<le> length xs then Int_rc NGX_DECLINED else Int_rc NGX_AGAIN)"
proof -
  have "min 3 (length xs) = 3 \<longleftrightarrow> 3 \<le> length xs" by auto
  then show ?thesis
    by (auto simp: Let_def take_int_octets NGX_HTTP_V2_INT_OCTETS_def min_def not_le split: option.split)
qed

declare ngx_http_v2_parse_int.simps(2) [simp del]

lemma parse_int_again:
  "ngx_http_v2_parse_int p bs len = Int_rc NGX_AGAIN \<Longrightarrow> length bs < 4 \<and> length bs < len"
  by (cases bs) (auto simp: parse_int_Cons split: if_splits option.splits)

text \<open>Bytes that arrive later change nothing but the answer \<open>NGX_AGAIN\<close>.\<close>

lemma parse_int_append_value:
  assumes "ngx_http_v2_parse_int p bs len = Int_value v rest len'"
  shows "ngx_http_v2_parse_int p (bs @ more) len = Int_value v (rest @ more) len'"
proof -
  obtain x xs where bs: "bs = x # xs" using assms by (cases bs) auto
  show ?thesis
  proof (cases "x AND p = p")
    case True
    with assms bs obtain n where n: "parse_int_loop 0 (unat p) 1 (take 3 xs) = Some (v, n)" "n \<le> len"
      "rest = drop n (x # xs)" "len' = len - n"
      by (auto simp: parse_int_Cons split: option.splits if_splits)
    then have "parse_int_loop 0 (unat p) 1 (take 3 (xs @ more)) = Some (v, n)" by (simp add: parse_int_loop_append)
    moreover have "drop n (x # xs @ more) = rest @ more" using n(3) parse_int_loop_octets [OF n(1)] by (cases n) simp_all
    ultimately show ?thesis using True n(2,4) bs by (simp add: parse_int_Cons)
  next
    case False
    then show ?thesis using assms bs by (auto simp: parse_int_Cons split: if_splits)
  qed
qed

lemma parse_int_append_rc:
  assumes "bs \<noteq> []" "ngx_http_v2_parse_int p bs len = Int_rc rc" "rc \<noteq> NGX_AGAIN"
  shows "ngx_http_v2_parse_int p (bs @ more) len = Int_rc rc"
proof -
  obtain x xs where bs: "bs = x # xs" using assms(1) by (cases bs) auto
  show ?thesis
  proof (cases "x AND p = p")
    case True
    show ?thesis
    proof (cases "parse_int_loop 0 (unat p) 1 (take 3 xs)")
      case None
      show ?thesis
      proof (cases "3 \<le> length xs")
        case True
        then show ?thesis using assms(2,3) None bs by (auto simp: parse_int_Cons split: if_splits)
      next
        case False
        then have l: "len \<le> Suc (length xs)" "rc = NGX_ERROR"
          using assms(2,3) None True bs by (auto simp: parse_int_Cons split: if_splits)
        have t: "take 3 (xs @ more) = xs @ take (3 - length xs) more" "take 3 xs = xs" using False by simp_all
        have "len < n" if "parse_int_loop 0 (unat p) 1 (take 3 (xs @ more)) = Some (v, n)" for v n
          using parse_int_loop_later [of 0 "unat p" 1 xs "take (3 - length xs) more"] that None l(1) t by simp
        then show ?thesis using True l False bs by (auto simp: parse_int_Cons split: option.split)
      qed
    next
      case (Some r)
      then have "parse_int_loop 0 (unat p) 1 (take 3 (xs @ more)) = Some r" by (simp add: parse_int_loop_append)
      then show ?thesis using assms(2) True Some bs by (auto simp: parse_int_Cons split: if_splits prod.splits)
    qed
  next
    case False
    then show ?thesis using assms(2) bs by (auto simp: parse_int_Cons split: if_splits)
  qed
qed

end
