(* ===== verification/Http_V2_Block.thy ===== *)
theory Http_V2_Block
  imports Http_V2_Loop Http_V2_Request Hpack_Int Hpack_Huffman_Code
begin

text \<open>
  The decoder of header blocks of an HTTP/2 connection (\<^verbatim>\<open>src/http/v2/ngx_http_v2.c\<close>), from
  \<open>ngx_http_v2_state_header_block\<close> to \<open>ngx_http_v2_state_header_complete\<close>, with CONTINUATION frames,
  padding and the skipping of what is left of a frame. A handler gets the bytes from \<open>pos\<close> to \<open>end\<close>
  and ends in one of three ways: it sets the next handler and returns a position, it saves the bytes
  that are left until more arrive (\<open>ngx_http_v2_state_save\<close>), or it closes the connection with an
  error code. Tail calls of the code are calls here.

  \<open>s_field\<close> is the area from \<open>field_start\<close> to \<open>field_end\<close> and \<open>s_field_alloc\<close> the size that was
  allocated for it. \<open>s_stream\<close> is the request of \<open>h2c->state.stream\<close>; requests that are run and
  streams that are reset are recorded in \<open>s_events\<close>. Timers and pools are left out.
\<close>

section \<open>State\<close>

datatype h2_event = Run_request h2_request | Rst_stream nat nat

record h2_state =
  s_length :: nat
  s_padding :: nat
  s_flags :: u8
  s_sid :: u32
  s_index :: bool
  s_parse_name :: bool
  s_parse_value :: bool
  s_name :: bytes
  s_value :: bytes
  s_header_limit :: nat
  s_field_state :: nat
  s_field :: bytes
  s_field_alloc :: nat
  s_field_rest :: nat
  s_stream :: "h2_request option"
  s_hpack :: hpack
  s_events :: "h2_event list"

datatype h2_handler = H_head | H_skip | H_header_block | H_field_len | H_field_huff | H_field_raw | H_field_skip | H_header_complete

type_synonym h2_handled = "(h2_handler, h2_state) handled"

definition NGX_HTTP_V2_SIZE_ERROR :: nat where "NGX_HTTP_V2_SIZE_ERROR = 6"
definition NGX_HTTP_V2_COMP_ERROR :: nat where "NGX_HTTP_V2_COMP_ERROR = 9"
definition NGX_HTTP_V2_ENHANCE_YOUR_CALM :: nat where "NGX_HTTP_V2_ENHANCE_YOUR_CALM = 11"
definition NGX_HTTP_V2_STATE_BUFFER_SIZE :: nat where "NGX_HTTP_V2_STATE_BUFFER_SIZE = 16"
definition NGX_HTTP_V2_FRAME_HEADER_SIZE :: nat where "NGX_HTTP_V2_FRAME_HEADER_SIZE = 9"
definition NGX_HTTP_V2_CONTINUATION_FRAME :: u32 where "NGX_HTTP_V2_CONTINUATION_FRAME = 9"
definition NGX_HTTP_V2_END_HEADERS_FLAG :: u8 where "NGX_HTTP_V2_END_HEADERS_FLAG = 4"

definition end_headers :: "h2_state \<Rightarrow> bool" where
  "end_headers st \<longleftrightarrow> s_flags st AND NGX_HTTP_V2_END_HEADERS_FLAG \<noteq> 0"

section \<open>Leaving a frame\<close>

definition ngx_http_v2_state_save :: "h2_handler \<Rightarrow> h2_state \<Rightarrow> bytes \<Rightarrow> h2_handled" where
  "ngx_http_v2_state_save handler st bs =
     (if length bs > NGX_HTTP_V2_STATE_BUFFER_SIZE then Fail NGX_HTTP_V2_INTERNAL_ERROR else Save handler st bs)"

definition ngx_http_v2_state_complete :: "h2_state \<Rightarrow> bytes \<Rightarrow> h2_handled" where
  "ngx_http_v2_state_complete st bs = Goto H_head (st\<lparr>s_stream := None\<rparr>) bs"

definition ngx_http_v2_state_skip :: "h2_state \<Rightarrow> bytes \<Rightarrow> h2_handled" where
  "ngx_http_v2_state_skip st bs =
     (if length bs < s_length st then ngx_http_v2_state_save H_skip (st\<lparr>s_length := s_length st - length bs\<rparr>) []
      else ngx_http_v2_state_complete st (drop (s_length st) bs))"

definition ngx_http_v2_state_skip_padded :: "h2_state \<Rightarrow> bytes \<Rightarrow> h2_handled" where
  "ngx_http_v2_state_skip_padded st bs =
     ngx_http_v2_state_skip (st\<lparr>s_length := s_length st + s_padding st, s_padding := 0\<rparr>) bs"

definition ngx_http_v2_parse_uint32 :: "bytes \<Rightarrow> u32" where
  "ngx_http_v2_parse_uint32 p =
     push_bit 24 (ucast (p ! 0)) OR push_bit 16 (ucast (p ! 1)) OR push_bit 8 (ucast (p ! 2)) OR ucast (p ! 3)"

definition ngx_http_v2_parse_sid :: "bytes \<Rightarrow> u32" where
  "ngx_http_v2_parse_sid p = ngx_http_v2_parse_uint32 p AND 0x7fffffff"

text \<open>
  The bytes of the block that are left (\<open>s_length\<close> of them), the rest of the padding and the header
  of the next frame follow each other in the buffer; the code closes the gap by moving the first.
\<close>

definition close_gap :: "nat \<Rightarrow> nat \<times> bytes \<Rightarrow> nat \<times> bytes" where
  "close_gap len x =
     (let padding = fst x; bs = snd x;
          skip = (if padding \<noteq> 0 \<and> length bs > len then min padding (length bs - len) else 0)
      in (padding - skip, take len bs @ drop (len + skip) bs))"

definition next_frame :: "h2_handler \<Rightarrow> h2_state \<Rightarrow> nat \<times> bytes \<Rightarrow> h2_handled" where
  "next_frame handler st x =
     (let len = s_length st; st = st\<lparr>s_padding := fst x\<rparr>; bs = snd x in
      if length bs < len + NGX_HTTP_V2_FRAME_HEADER_SIZE then ngx_http_v2_state_save handler st bs
      else let p = drop len bs; head = ngx_http_v2_parse_uint32 p in
        if head AND 0xff \<noteq> NGX_HTTP_V2_CONTINUATION_FRAME then Fail NGX_HTTP_V2_PROTOCOL_ERROR
        else let st = st\<lparr>s_flags := s_flags st OR p ! 4\<rparr> in
          if s_sid st \<noteq> ngx_http_v2_parse_sid (drop 5 p) then Fail NGX_HTTP_V2_PROTOCOL_ERROR
          else let flen = unat (drop_bit 8 head);
                   st = st\<lparr>s_length := s_length st + flen,
                           s_stream := map_option (\<lambda>r. r\<lparr>r2_request_length := r2_request_length r + flen\<rparr>) (s_stream st)\<rparr>
               in Goto handler st (take len bs @ drop NGX_HTTP_V2_FRAME_HEADER_SIZE p))"

definition ngx_http_v2_handle_continuation :: "h2_handler \<Rightarrow> h2_state \<Rightarrow> bytes \<Rightarrow> h2_handled" where
  "ngx_http_v2_handle_continuation handler st bs = next_frame handler st (close_gap (s_length st) (s_padding st, bs))"

definition ngx_http_v2_state_header_complete :: "h2_state \<Rightarrow> bytes \<Rightarrow> h2_handled" where
  "ngx_http_v2_state_header_complete st bs =
     (if s_length st \<noteq> 0 then Goto H_header_block st bs
      else if \<not> end_headers st then ngx_http_v2_handle_continuation H_header_complete st bs
      else let st = (case s_stream st of None \<Rightarrow> st | Some r \<Rightarrow> st\<lparr>s_events := s_events st @ [Run_request r]\<rparr>) in
        if s_padding st \<noteq> 0 then ngx_http_v2_state_skip_padded st bs else ngx_http_v2_state_complete st bs)"

section \<open>Fields\<close>

text \<open>What \<open>ngx_http_v2_state_process_header\<close> does with a complete header.\<close>

definition deliver_header :: "h2_conf \<Rightarrow> virtual_servers \<Rightarrow> h2_state \<Rightarrow> bytes \<Rightarrow> h2_handled" where
  "deliver_header conf vs st bs =
     (let len = length (s_name st) + length (s_value st) in
      if len > s_header_limit st then Fail NGX_HTTP_V2_ENHANCE_YOUR_CALM
      else
        let st = st\<lparr>s_header_limit := s_header_limit st - len\<rparr>;
            st = (if s_index st then st\<lparr>s_hpack := ngx_http_v2_add_header (s_name st, s_value st) (s_hpack st), s_index := False\<rparr> else st)
        in case s_stream st of
             None \<Rightarrow> ngx_http_v2_state_header_complete st bs
           | Some r \<Rightarrow>
               (case ngx_http_v2_request_header conf vs (s_name st, s_value st) r of
                  Stream_on r' \<Rightarrow> ngx_http_v2_state_header_complete (st\<lparr>s_stream := Some r'\<rparr>) bs
                | Stream_reset code \<Rightarrow>
                    ngx_http_v2_state_header_complete
                      (st\<lparr>s_stream := None, s_events := s_events st @ [Rst_stream (unat (s_sid st)) code]\<rparr>) bs
                | Stream_finalized \<Rightarrow> ngx_http_v2_state_header_complete (st\<lparr>s_stream := None\<rparr>) bs
                | Connection_error code \<Rightarrow> Fail code))"

text \<open>The bytes of a field that are in this frame and have arrived.\<close>

definition field_bytes :: "h2_state \<Rightarrow> bytes \<Rightarrow> nat" where
  "field_bytes st bs = min (min (length bs) (s_field_rest st)) (s_length st)"

definition take_field :: "h2_state \<Rightarrow> bytes \<Rightarrow> h2_state" where
  "take_field st bs = st\<lparr>s_length := s_length st - field_bytes st bs, s_field_rest := s_field_rest st - field_bytes st bs\<rparr>"

text \<open>What the three field handlers do after they have taken their bytes, when the field is not complete.\<close>

definition field_more :: "h2_handler \<Rightarrow> h2_state \<Rightarrow> bytes \<Rightarrow> h2_handled" where
  "field_more handler st bs =
     (if s_length st \<noteq> 0 then ngx_http_v2_state_save handler st bs
      else if end_headers st then Fail NGX_HTTP_V2_SIZE_ERROR
      else ngx_http_v2_handle_continuation handler st bs)"

definition field_rank :: "nat \<Rightarrow> h2_state \<Rightarrow> nat" where
  "field_rank n st = n + (if s_parse_name st then 3 else 0)"

definition set_header :: "bytes \<times> bytes option \<Rightarrow> h2_state \<Rightarrow> h2_state" where
  "set_header h st = st\<lparr>s_name := fst h, s_value := (case snd h of None \<Rightarrow> s_value st | Some v \<Rightarrow> v)\<rparr>"

function (sequential)
  ngx_http_v2_state_process_header :: "h2_conf \<Rightarrow> virtual_servers \<Rightarrow> h2_state \<Rightarrow> bytes \<Rightarrow> h2_handled" and
  ngx_http_v2_state_field_len :: "h2_conf \<Rightarrow> virtual_servers \<Rightarrow> h2_state \<Rightarrow> bytes \<Rightarrow> h2_handled" and
  ngx_http_v2_state_field_huff :: "h2_conf \<Rightarrow> virtual_servers \<Rightarrow> h2_state \<Rightarrow> bytes \<Rightarrow> h2_handled" and
  ngx_http_v2_state_field_raw :: "h2_conf \<Rightarrow> virtual_servers \<Rightarrow> h2_state \<Rightarrow> bytes \<Rightarrow> h2_handled" and
  ngx_http_v2_state_field_skip :: "h2_conf \<Rightarrow> virtual_servers \<Rightarrow> h2_state \<Rightarrow> bytes \<Rightarrow> h2_handled" where
  "ngx_http_v2_state_process_header conf vs st bs =
     (if s_parse_name st then
        ngx_http_v2_state_field_len conf vs (st\<lparr>s_parse_name := False, s_name := s_field st\<rparr>) bs
      else if s_parse_value st then
        deliver_header conf vs (st\<lparr>s_parse_value := False, s_value := s_field st\<rparr>) bs
      else deliver_header conf vs st bs)"
| "ngx_http_v2_state_field_len conf vs st bs =
     (if \<not> end_headers st \<and> s_length st < NGX_HTTP_V2_INT_OCTETS then ngx_http_v2_handle_continuation H_field_len st bs
      else if s_length st < 1 then Fail NGX_HTTP_V2_SIZE_ERROR
      else if bs = [] then ngx_http_v2_state_save H_field_len st bs
      else
        case ngx_http_v2_parse_int (ngx_http_v2_prefix 7) bs (s_length st) of
          Int_rc rc \<Rightarrow>
            if rc = NGX_AGAIN then ngx_http_v2_state_save H_field_len st bs
            else if rc = NGX_DECLINED then Fail NGX_HTTP_V2_COMP_ERROR
            else Fail NGX_HTTP_V2_SIZE_ERROR
        | Int_value len rest slen \<Rightarrow>
            let huff = (drop_bit 7 (hd bs) \<noteq> 0) in
            if len > max_field_size conf then Fail NGX_HTTP_V2_ENHANCE_YOUR_CALM
            else
              let st = st\<lparr>s_length := slen, s_field_rest := len\<rparr> in
              if s_stream st = None \<and> \<not> s_index st then ngx_http_v2_state_field_skip conf vs st rest
              else
                let st = st\<lparr>s_field_alloc := (if huff then len * 8 div 5 else len) + 1, s_field := []\<rparr> in
                if huff then ngx_http_v2_state_field_huff conf vs st rest
                else ngx_http_v2_state_field_raw conf vs st rest)"
| "ngx_http_v2_state_field_huff conf vs st bs =
     (case ngx_http_v2_huff_decode (s_field_state st) (take (field_bytes st bs) bs) (s_field st)
             (s_field_rest (take_field st bs) = 0) of
        None \<Rightarrow> Fail NGX_HTTP_V2_COMP_ERROR
      | Some (fs, field) \<Rightarrow>
          let st' = (take_field st bs)\<lparr>s_field_state := fs, s_field := field\<rparr>; rest = drop (field_bytes st bs) bs in
          if s_field_rest st' = 0 then ngx_http_v2_state_process_header conf vs st' rest
          else field_more H_field_huff st' rest)"
| "ngx_http_v2_state_field_raw conf vs st bs =
     (let st' = (take_field st bs)\<lparr>s_field := s_field st @ take (field_bytes st bs) bs\<rparr>; rest = drop (field_bytes st bs) bs in
      if s_field_rest st' = 0 then ngx_http_v2_state_process_header conf vs st' rest
      else field_more H_field_raw st' rest)"
| "ngx_http_v2_state_field_skip conf vs st bs =
     (let st' = take_field st bs; rest = drop (field_bytes st bs) bs in
      if s_field_rest st' = 0 then ngx_http_v2_state_process_header conf vs st' rest
      else field_more H_field_skip st' rest)"
  by pat_completeness auto
termination
  by (relation "measure (case_sum (case_sum (\<lambda>(_, _, st, _). field_rank 0 st) (\<lambda>(_, _, st, _). field_rank 2 st))
      (case_sum (\<lambda>(_, _, st, _). field_rank 1 st) (case_sum (\<lambda>(_, _, st, _). field_rank 1 st) (\<lambda>(_, _, st, _). field_rank 1 st))))")
    (auto simp: field_rank_def take_field_def)

declare ngx_http_v2_state_process_header.simps [simp del] ngx_http_v2_state_field_len.simps [simp del]
  ngx_http_v2_state_field_huff.simps [simp del] ngx_http_v2_state_field_raw.simps [simp del] ngx_http_v2_state_field_skip.simps [simp del]

section \<open>Header blocks\<close>

text \<open>What the first byte of a representation says, and what is done with the integer after it.\<close>

definition block_prefix :: "u8 \<Rightarrow> nat" where
  "block_prefix ch = (if ch \<ge> 0x80 then 7 else if ch \<ge> 0x40 then 6 else if ch \<ge> 0x20 then 5 else 4)"

definition block_state :: "u8 \<Rightarrow> h2_state \<Rightarrow> h2_state" where
  "block_state ch st = (if \<not> ch \<ge> 0x80 \<and> ch \<ge> 0x40 then st\<lparr>s_index := True\<rparr> else st)"

definition block_value :: "h2_conf \<Rightarrow> virtual_servers \<Rightarrow> u8 \<Rightarrow> nat \<Rightarrow> h2_state \<Rightarrow> bytes \<Rightarrow> h2_handled" where
  "block_value conf vs ch v st rest =
     (if ch \<ge> 0x80 then
        (case ngx_http_v2_get_indexed_header (s_hpack st) v False of
           None \<Rightarrow> Fail NGX_HTTP_V2_COMP_ERROR
         | Some h \<Rightarrow> ngx_http_v2_state_process_header conf vs (set_header h st) rest)
      else if \<not> ch \<ge> 0x40 \<and> ch \<ge> 0x20 then
        (case ngx_http_v2_table_size v (s_hpack st) of
           None \<Rightarrow> Fail NGX_HTTP_V2_COMP_ERROR
         | Some t \<Rightarrow> ngx_http_v2_state_header_complete (st\<lparr>s_hpack := t\<rparr>) rest)
      else if v = 0 then ngx_http_v2_state_field_len conf vs (st\<lparr>s_parse_name := True, s_parse_value := True\<rparr>) rest
      else
        (case ngx_http_v2_get_indexed_header (s_hpack st) v True of
           None \<Rightarrow> Fail NGX_HTTP_V2_COMP_ERROR
         | Some h \<Rightarrow> ngx_http_v2_state_field_len conf vs ((set_header h st)\<lparr>s_parse_value := True\<rparr>) rest))"

definition ngx_http_v2_state_header_block :: "h2_conf \<Rightarrow> virtual_servers \<Rightarrow> h2_state \<Rightarrow> bytes \<Rightarrow> h2_handled" where
  "ngx_http_v2_state_header_block conf vs st bs =
     (if bs = [] then ngx_http_v2_state_save H_header_block st bs
      else if \<not> end_headers st \<and> s_length st < NGX_HTTP_V2_INT_OCTETS then ngx_http_v2_handle_continuation H_header_block st bs
      else
        let ch = hd bs; st = block_state ch st in
        case ngx_http_v2_parse_int (ngx_http_v2_prefix (block_prefix ch)) bs (s_length st) of
          Int_rc rc \<Rightarrow>
            if rc = NGX_AGAIN then ngx_http_v2_state_save H_header_block st bs
            else if rc = NGX_DECLINED then Fail NGX_HTTP_V2_COMP_ERROR
            else Fail NGX_HTTP_V2_SIZE_ERROR
        | Int_value v rest slen \<Rightarrow> block_value conf vs ch v (st\<lparr>s_length := slen\<rparr>) rest)"

text \<open>\<open>h2c->state.handler\<close>, called with the connection. The next frame is not part of this model.\<close>

definition h2_handle :: "h2_conf \<Rightarrow> virtual_servers \<Rightarrow> h2_handler \<Rightarrow> h2_state \<Rightarrow> bytes \<Rightarrow> h2_handled" where
  "h2_handle conf vs h st bs =
     (case h of
        H_head \<Rightarrow> Save H_head st bs
      | H_skip \<Rightarrow> ngx_http_v2_state_skip st bs
      | H_header_block \<Rightarrow> ngx_http_v2_state_header_block conf vs st bs
      | H_field_len \<Rightarrow> ngx_http_v2_state_field_len conf vs st bs
      | H_field_huff \<Rightarrow> ngx_http_v2_state_field_huff conf vs st bs
      | H_field_raw \<Rightarrow> ngx_http_v2_state_field_raw conf vs st bs
      | H_field_skip \<Rightarrow> ngx_http_v2_state_field_skip conf vs st bs
      | H_header_complete \<Rightarrow> ngx_http_v2_state_header_complete st bs)"

section \<open>Later bytes\<close>

text \<open>
  Once a frame is complete, \<open>h2c->state.length\<close> is left over; \<open>ngx_http_v2_state_head\<close> sets it again.
\<close>

definition h2_norm :: "h2_handler \<Rightarrow> h2_state \<Rightarrow> h2_state" where
  "h2_norm h st = (if h = H_head then st\<lparr>s_length := 0\<rparr> else st)"

lemma complete_goes_on: "goes_on handle h2_norm (ngx_http_v2_state_complete st)"
  by (simp add: goes_on_def ngx_http_v2_state_complete_def)

lemma skip_goes_on: "goes_on (h2_handle conf vs) h2_norm (ngx_http_v2_state_skip st)"
  unfolding goes_on_def
proof (intro allI)
  fix bs later
  show "view h2_norm (ngx_http_v2_state_skip st (bs @ later)) = (case ngx_http_v2_state_skip st bs of
      Goto h s rest \<Rightarrow> Goto h (h2_norm h s) (rest @ later) | Save h s left \<Rightarrow> view h2_norm (h2_handle conf vs h s (left @ later)) | Fail e \<Rightarrow> Fail e)"
    by (cases "length bs < s_length st")
      (auto simp: ngx_http_v2_state_skip_def ngx_http_v2_state_save_def ngx_http_v2_state_complete_def h2_handle_def h2_norm_def)
qed

lemma close_gap_later:
  assumes "close_gap len (pad, bs) = (pad', left)"
  shows "close_gap len (pad, bs @ later) = close_gap len (pad', left @ later)"
proof (cases "pad \<noteq> 0 \<and> length bs > len")
  case True
  show ?thesis
  proof (cases "pad \<le> length bs - len")
    case le: True
    then have "pad' = 0" "left = take len bs @ drop (len + pad) bs" using assms True by (auto simp: close_gap_def)
    then show ?thesis using True le by (auto simp: close_gap_def)
  next
    case False
    then have l: "pad' = pad - (length bs - len)" "left = take len bs" using assms True by (auto simp: close_gap_def)
    have "length left = len" using l True by simp
    moreover have "len + pad - length bs = pad + len - length bs" by simp
    ultimately show ?thesis using l True False by (auto simp: close_gap_def min_def)
  qed
next
  case False
  then show ?thesis using assms by (auto simp: close_gap_def)
qed

lemma parse_uint32_append: "4 \<le> length p \<Longrightarrow> ngx_http_v2_parse_uint32 (p @ later) = ngx_http_v2_parse_uint32 p"
  by (cases p) (auto simp: ngx_http_v2_parse_uint32_def nth_append)

lemma parse_sid_append: "4 \<le> length p \<Longrightarrow> ngx_http_v2_parse_sid (p @ later) = ngx_http_v2_parse_sid p"
  by (simp add: ngx_http_v2_parse_sid_def parse_uint32_append)

lemma next_frame_later:
  assumes "s_length st + NGX_HTTP_V2_FRAME_HEADER_SIZE \<le> length left"
  shows "next_frame h st (pad, left @ later) =
    (case next_frame h st (pad, left) of Goto h s rest \<Rightarrow> Goto h s (rest @ later) | r \<Rightarrow> r)"
proof -
  let ?p = "drop (s_length st) left"
  have p: "9 \<le> length ?p" using assms by (simp add: NGX_HTTP_V2_FRAME_HEADER_SIZE_def)
  have "drop (s_length st) (left @ later) = ?p @ later" "drop 5 (?p @ later) = drop 5 ?p @ later"
    "drop 9 (?p @ later) = drop 9 ?p @ later" "take (s_length st) (left @ later) = take (s_length st) left"
    "(?p @ later) ! 4 = ?p ! 4"
    using assms p by (auto simp: nth_append)
  then show ?thesis using assms p
    by (simp add: next_frame_def Let_def parse_uint32_append parse_sid_append NGX_HTTP_V2_FRAME_HEADER_SIZE_def
        del: drop_append take_append drop_drop nth_drop)
qed

lemma next_frame_saves:
  "s_length st < NGX_HTTP_V2_INT_OCTETS \<Longrightarrow> length left < s_length st + NGX_HTTP_V2_FRAME_HEADER_SIZE \<Longrightarrow>
    next_frame h st (pad, left) = Save h (st\<lparr>s_padding := pad\<rparr>) left"
  by (simp add: next_frame_def Let_def ngx_http_v2_state_save_def NGX_HTTP_V2_FRAME_HEADER_SIZE_def
      NGX_HTTP_V2_STATE_BUFFER_SIZE_def NGX_HTTP_V2_INT_OCTETS_def)

lemma close_gap_full:
  assumes "close_gap len (pad, bs) = (pad', left)" "len < length left"
  shows "close_gap len (pad', left @ later) = (pad', left @ later)"
proof -
  have "pad' = 0 \<or> length bs \<le> len" using assms by (auto simp: close_gap_def Let_def min_def split: if_splits)
  moreover have "length left = length bs" if "length bs \<le> len" using assms(1) that by (auto simp: close_gap_def Let_def)
  ultimately have "pad' = 0" using assms(2) by auto
  then show ?thesis using assms(2) by (simp add: close_gap_def)
qed

lemma continuation_goes_on:
  assumes re: "\<And>p bs. handle h (st\<lparr>s_padding := p\<rparr>) bs = ngx_http_v2_handle_continuation h (st\<lparr>s_padding := p\<rparr>) bs"
    and len: "s_length st < NGX_HTTP_V2_INT_OCTETS"
  shows "goes_on handle h2_norm (ngx_http_v2_handle_continuation h st)"
  unfolding goes_on_def
proof (intro allI)
  fix bs later
  let ?f = "ngx_http_v2_handle_continuation h st"
  obtain pad left where g: "close_gap (s_length st) (s_padding st, bs) = (pad, left)" by fastforce
  note later = close_gap_later [OF g, of later]
  show "view h2_norm (?f (bs @ later)) =
      (case ?f bs of Goto h s rest \<Rightarrow> Goto h (h2_norm h s) (rest @ later) | Save h s left \<Rightarrow> view h2_norm (handle h s (left @ later)) | Fail e \<Rightarrow> Fail e)"
  proof (cases "length left < s_length st + NGX_HTTP_V2_FRAME_HEADER_SIZE")
    case True
    have "next_frame h (st\<lparr>s_padding := pad\<rparr>) x = next_frame h st x" for x by (simp add: next_frame_def)
    then show ?thesis using re [of pad] next_frame_saves [OF len True, of h pad]
      by (simp add: ngx_http_v2_handle_continuation_def later g)
  next
    case False
    then have "s_length st < length left" by (simp add: NGX_HTTP_V2_FRAME_HEADER_SIZE_def)
    note full = close_gap_full [OF g this, of later]
    have no_save: "next_frame h st (pad, left) \<noteq> Save h' s' l" for h' s' l
      using False by (auto simp: next_frame_def Let_def)
    show ?thesis using False next_frame_later [of st left h pad later] no_save
      by (cases "next_frame h st (pad, left)") (auto simp: ngx_http_v2_handle_continuation_def later g full)
  qed
qed

lemma header_complete_goes_on: "goes_on (h2_handle conf vs) h2_norm (ngx_http_v2_state_header_complete st)"
proof (cases "s_length st \<noteq> 0")
  case True
  then show ?thesis by (simp add: goes_on_def ngx_http_v2_state_header_complete_def)
next
  case False
  let ?st = "case s_stream st of None \<Rightarrow> st | Some r \<Rightarrow> st\<lparr>s_events := s_events st @ [Run_request r]\<rparr>"
  have "ngx_http_v2_state_header_complete st =
      (if \<not> end_headers st then ngx_http_v2_handle_continuation H_header_complete st
       else if s_padding ?st \<noteq> 0 then ngx_http_v2_state_skip_padded ?st else ngx_http_v2_state_complete ?st)"
    using False by (intro ext) (simp add: ngx_http_v2_state_header_complete_def Let_def)
  moreover have "goes_on (h2_handle conf vs) h2_norm (ngx_http_v2_handle_continuation H_header_complete st)" if "\<not> end_headers st"
    using that False
    by (intro continuation_goes_on)
      (simp_all add: h2_handle_def ngx_http_v2_state_header_complete_def end_headers_def NGX_HTTP_V2_INT_OCTETS_def)
  moreover have "goes_on (h2_handle conf vs) h2_norm (ngx_http_v2_state_skip_padded ?st)"
    using skip_goes_on by (simp add: ngx_http_v2_state_skip_padded_def [abs_def])
  ultimately show ?thesis using complete_goes_on by simp
qed

lemma deliver_shape:
  "(\<exists>e. \<forall>bs. deliver_header conf vs st bs = Fail e) \<or> (\<exists>st'. \<forall>bs. deliver_header conf vs st bs = ngx_http_v2_state_header_complete st' bs)"
proof (cases "length (s_name st) + length (s_value st) > s_header_limit st")
  case True
  then show ?thesis by (simp add: deliver_header_def)
next
  case False
  define st1 where "st1 = (let st = st\<lparr>s_header_limit := s_header_limit st - (length (s_name st) + length (s_value st))\<rparr> in
    if s_index st then st\<lparr>s_hpack := ngx_http_v2_add_header (s_name st, s_value st) (s_hpack st), s_index := False\<rparr> else st)"
  have d: "deliver_header conf vs st bs = (case s_stream st1 of
       None \<Rightarrow> ngx_http_v2_state_header_complete st1 bs
     | Some r \<Rightarrow> (case ngx_http_v2_request_header conf vs (s_name st1, s_value st1) r of
          Stream_on r' \<Rightarrow> ngx_http_v2_state_header_complete (st1\<lparr>s_stream := Some r'\<rparr>) bs
        | Stream_reset code \<Rightarrow> ngx_http_v2_state_header_complete
            (st1\<lparr>s_stream := None, s_events := s_events st1 @ [Rst_stream (unat (s_sid st1)) code]\<rparr>) bs
        | Stream_finalized \<Rightarrow> ngx_http_v2_state_header_complete (st1\<lparr>s_stream := None\<rparr>) bs
        | Connection_error code \<Rightarrow> Fail code))" for bs
    by (simp only: deliver_header_def st1_def Let_def if_not_P [OF False])
  show ?thesis
  proof (cases "s_stream st1")
    case (Some r)
    then show ?thesis by (cases "ngx_http_v2_request_header conf vs (s_name st1, s_value st1) r") (auto simp: d)
  qed (auto simp: d)
qed

lemma deliver_goes_on: "goes_on (h2_handle conf vs) h2_norm (deliver_header conf vs st)"
  using deliver_shape [of conf vs st] header_complete_goes_on by (auto simp: goes_on_def)

text \<open>Taking the bytes of a field in one go or in two.\<close>

lemma field_bytes_later:
  assumes "length bs < s_field_rest st" "length bs < s_length st"
  shows "field_bytes st bs = length bs"
    "field_bytes st (bs @ later) = length bs + field_bytes (take_field st bs) later"
    "take_field st (bs @ later) = take_field (take_field st bs) later"
proof -
  have "s_field_rest st = length bs + (s_field_rest st - length bs)" "s_length st = length bs + (s_length st - length bs)"
    using assms by simp_all
  then obtain R L where "s_field_rest st = length bs + R" "s_length st = length bs + L" by blast
  then show "field_bytes st bs = length bs"
    "field_bytes st (bs @ later) = length bs + field_bytes (take_field st bs) later"
    "take_field st (bs @ later) = take_field (take_field st bs) later"
    by (simp_all add: field_bytes_def take_field_def flip: min_add_distrib_right)
qed

lemma field_bytes_enough:
  assumes "\<not> (length bs < s_field_rest st \<and> length bs < s_length st)"
  shows "field_bytes st (bs @ later) = field_bytes st bs" "take_field st (bs @ later) = take_field st bs"
    "field_bytes st bs \<le> length bs" "s_field_rest (take_field st bs) \<noteq> 0 \<Longrightarrow> s_length (take_field st bs) = 0"
proof -
  have "field_bytes st bs = min (s_field_rest st) (s_length st)" "field_bytes st (bs @ later) = min (s_field_rest st) (s_length st)" for later
    using assms by (auto simp: field_bytes_def)
  then show "field_bytes st (bs @ later) = field_bytes st bs" "take_field st (bs @ later) = take_field st bs"
    "field_bytes st bs \<le> length bs" "s_field_rest (take_field st bs) \<noteq> 0 \<Longrightarrow> s_length (take_field st bs) = 0"
    using assms by (auto simp: take_field_def min_def)
qed

lemma field_bytes_stuck: "s_length st = 0 \<Longrightarrow> field_bytes st bs = 0 \<and> take_field st bs = st"
  by (simp add: field_bytes_def take_field_def)

lemma take_field_same:
  assumes "s_length st' = s_length st" "s_field_rest st' = s_field_rest st"
  shows "field_bytes st' bs = field_bytes st bs"
    "take_field st' bs = st'\<lparr>s_length := s_length (take_field st bs), s_field_rest := s_field_rest (take_field st bs)\<rparr>"
  using assms by (simp_all add: field_bytes_def take_field_def)

text \<open>
  The three field handlers have one shape: \<open>eat\<close> is what they do with the bytes they take (\<open>None\<close>
  when that fails), \<open>h\<close> is their own handler.
\<close>

definition field_shape ::
  "h2_conf \<Rightarrow> virtual_servers \<Rightarrow> h2_handler \<Rightarrow> (h2_state \<Rightarrow> bytes \<Rightarrow> bool \<Rightarrow> h2_state option) \<Rightarrow> h2_state \<Rightarrow> bytes \<Rightarrow> h2_handled" where
  "field_shape conf vs h eat st bs =
     (case eat (take_field st bs) (take (field_bytes st bs) bs) (s_field_rest (take_field st bs) = 0) of
        None \<Rightarrow> Fail NGX_HTTP_V2_COMP_ERROR
      | Some st' \<Rightarrow>
          if s_field_rest (take_field st bs) = 0 then ngx_http_v2_state_process_header conf vs st' (drop (field_bytes st bs) bs)
          else field_more h st' (drop (field_bytes st bs) bs))"

definition eats_well :: "(h2_state \<Rightarrow> bytes \<Rightarrow> bool \<Rightarrow> h2_state option) \<Rightarrow> bool" where
  "eats_well eat \<longleftrightarrow>
     (\<forall>st bs st' fin. eat st bs fin = Some st' \<longrightarrow> s_length st' = s_length st \<and> s_field_rest st' = s_field_rest st \<and>
        s_flags st' = s_flags st \<and> s_parse_name st' = s_parse_name st) \<and>
     (\<forall>st. eat st [] False = Some st) \<and>
     (\<forall>st bs cs fin l m. (fin \<longrightarrow> cs \<noteq> []) \<longrightarrow>
        eat (st\<lparr>s_length := l, s_field_rest := m\<rparr>) (bs @ cs) fin =
        (case eat st bs False of None \<Rightarrow> None | Some st' \<Rightarrow> eat (st'\<lparr>s_length := l, s_field_rest := m\<rparr>) cs fin))"

lemma eats_wellD:
  "eats_well eat \<Longrightarrow> eat st bs fin = Some st' \<Longrightarrow> s_length st' = s_length st \<and> s_field_rest st' = s_field_rest st \<and>
    s_flags st' = s_flags st \<and> s_parse_name st' = s_parse_name st"
  "eats_well eat \<Longrightarrow> eat st [] False = Some st"
  "eats_well eat \<Longrightarrow> (fin \<Longrightarrow> cs \<noteq> []) \<Longrightarrow> eat (st\<lparr>s_length := l, s_field_rest := m\<rparr>) (bs @ cs) fin =
    (case eat st bs False of None \<Rightarrow> None | Some st' \<Rightarrow> eat (st'\<lparr>s_length := l, s_field_rest := m\<rparr>) cs fin)"
  unfolding eats_well_def by blast+

lemma field_shape_goes_on:
  assumes eat: "eats_well eat"
    and self: "\<And>st bs. h2_handle conf vs h st bs = field_shape conf vs h eat st bs"
    and process: "\<And>st'. s_parse_name st' = s_parse_name st \<Longrightarrow>
      goes_on (h2_handle conf vs) h2_norm (ngx_http_v2_state_process_header conf vs st')"
  shows "goes_on (h2_handle conf vs) h2_norm (field_shape conf vs h eat st)"
  unfolding goes_on_def
proof (intro allI)
  fix bs later
  let ?f = "field_shape conf vs h eat st"
  let ?n = "field_bytes st bs" and ?t = "take_field st bs"
  have pn: "s_parse_name ?t = s_parse_name st" by (simp add: take_field_def)
  show "view h2_norm (?f (bs @ later)) = (case ?f bs of Goto h s rest \<Rightarrow> Goto h (h2_norm h s) (rest @ later)
      | Save h s left \<Rightarrow> view h2_norm (h2_handle conf vs h s (left @ later)) | Fail e \<Rightarrow> Fail e)"
  proof (cases "length bs < s_field_rest st \<and> length bs < s_length st")
    case True
    note split = field_bytes_later [OF True [THEN conjunct1] True [THEN conjunct2]]
    have r: "s_field_rest ?t \<noteq> 0" "s_length ?t \<noteq> 0" using True by (simp_all add: take_field_def split)
    let ?m = "field_bytes ?t later"
    let ?u = "take_field ?t later"
    have fin: "s_field_rest ?u = 0 \<longrightarrow> take ?m later \<noteq> []" using r by (auto simp: take_field_def field_bytes_def min_def split: if_splits)
    have u: "?t\<lparr>s_length := s_length ?u, s_field_rest := s_field_rest ?u\<rparr> = ?u" by (simp add: take_field_def)
    have eq: "eat ?u (bs @ take ?m later) (s_field_rest ?u = 0) = (case eat ?t bs False of None \<Rightarrow> None
        | Some st' \<Rightarrow> eat (st'\<lparr>s_length := s_length ?u, s_field_rest := s_field_rest ?u\<rparr>) (take ?m later) (s_field_rest ?u = 0))"
      using eats_wellD(3) [OF eat, where fin = "s_field_rest ?u = 0" and cs = "take ?m later" and st = ?t
          and l = "s_length ?u" and m = "s_field_rest ?u" and bs = bs] fin u by simp
    show ?thesis
    proof (cases "eat ?t bs False")
      case None
      then show ?thesis using r eq by (simp add: field_shape_def split)
    next
      case (Some st')
      then have s: "s_length st' = s_length ?t" "s_field_rest st' = s_field_rest ?t" using eats_wellD(1) [OF eat] by simp_all
      then have m: "field_bytes st' later = ?m" "take_field st' later = st'\<lparr>s_length := s_length ?u, s_field_rest := s_field_rest ?u\<rparr>"
        by (rule take_field_same)+
      have "?f bs = Save h st' []" using Some r s by (simp add: field_shape_def split field_more_def ngx_http_v2_state_save_def)
      moreover have "?f (bs @ later) = field_shape conf vs h eat st' later"
        using eq Some m by (simp add: field_shape_def split split: option.split)
      ultimately show ?thesis by (simp add: self)
    qed
  next
    case False
    note e = field_bytes_enough [OF False]
    have d: "drop ?n (bs @ later) = drop ?n bs @ later" "take ?n (bs @ later) = take ?n bs" using e(3) by simp_all
    show ?thesis
    proof (cases "eat ?t (take ?n bs) (s_field_rest ?t = 0)")
      case None
      then show ?thesis by (simp add: field_shape_def e d del: drop_append take_append)
    next
      case (Some st')
      then have s: "s_length st' = s_length ?t" "s_field_rest st' = s_field_rest ?t" "s_parse_name st' = s_parse_name st" "s_flags st' = s_flags ?t"
        using eats_wellD(1) [OF eat Some] pn by simp_all
      show ?thesis
      proof (cases "s_field_rest ?t = 0")
        case True
        then show ?thesis using goes_onD [OF process [OF s(3)], of "drop ?n bs" later] Some
          by (simp add: field_shape_def e d del: drop_append take_append)
      next
        case rest: False
        then have z: "s_length st' = 0" using s e(4) by simp
        have f: "?f bs = field_more h st' (drop ?n bs)" "?f (bs @ later) = field_more h st' (drop ?n bs @ later)"
          using Some rest by (simp_all add: field_shape_def e d del: drop_append take_append)
        show ?thesis
        proof (cases "end_headers st'")
          case True
          then show ?thesis using z f by (simp add: field_more_def)
        next
          case no_end: False
          have "goes_on (h2_handle conf vs) h2_norm (ngx_http_v2_handle_continuation h st')"
          proof (rule continuation_goes_on)
            fix p bs
            let ?s = "st'\<lparr>s_padding := p\<rparr>"
            have "field_bytes ?s bs = 0 \<and> take_field ?s bs = ?s" using z by (intro field_bytes_stuck) simp
            moreover have "eat ?s [] False = Some ?s" using eats_wellD(2) [OF eat] by simp
            ultimately show "h2_handle conf vs h ?s bs = ngx_http_v2_handle_continuation h ?s bs"
              using rest s z no_end by (simp add: self field_shape_def field_more_def end_headers_def)
          qed (simp add: z NGX_HTTP_V2_INT_OCTETS_def)
          from goes_onD [OF this, of "drop ?n bs" later] show ?thesis using z f no_end by (simp add: field_more_def)
        qed
      qed
    qed
  qed
qed
text \<open>The three field handlers.\<close>

definition eat_huff :: "h2_state \<Rightarrow> bytes \<Rightarrow> bool \<Rightarrow> h2_state option" where
  "eat_huff st bs fin = map_option (\<lambda>(fs, field). st\<lparr>s_field_state := fs, s_field := field\<rparr>)
     (ngx_http_v2_huff_decode (s_field_state st) bs (s_field st) fin)"

definition eat_raw :: "h2_state \<Rightarrow> bytes \<Rightarrow> bool \<Rightarrow> h2_state option" where
  "eat_raw st bs fin = Some (st\<lparr>s_field := s_field st @ bs\<rparr>)"

definition eat_skip :: "h2_state \<Rightarrow> bytes \<Rightarrow> bool \<Rightarrow> h2_state option" where
  "eat_skip st bs fin = Some st"

lemma field_huff_shape: "ngx_http_v2_state_field_huff conf vs st bs = field_shape conf vs H_field_huff eat_huff st bs"
  by (simp add: ngx_http_v2_state_field_huff.simps [of conf vs st bs] field_shape_def eat_huff_def take_field_def Let_def case_prod_unfold
      split: option.split)

lemma field_raw_shape: "ngx_http_v2_state_field_raw conf vs st bs = field_shape conf vs H_field_raw eat_raw st bs"
  by (simp add: ngx_http_v2_state_field_raw.simps [of conf vs st bs] field_shape_def eat_raw_def take_field_def Let_def)

lemma field_skip_shape: "ngx_http_v2_state_field_skip conf vs st bs = field_shape conf vs H_field_skip eat_skip st bs"
  by (simp add: ngx_http_v2_state_field_skip.simps [of conf vs st bs] field_shape_def eat_skip_def Let_def)

lemma huff_decode_append:
  assumes "fin \<Longrightarrow> cs \<noteq> []"
  shows "ngx_http_v2_huff_decode s (bs @ cs) dst fin =
    (case ngx_http_v2_huff_decode s bs dst False of None \<Rightarrow> None | Some (s', dst') \<Rightarrow> ngx_http_v2_huff_decode s' cs dst' fin)"
proof (cases "huff_decode_loop s True bs dst")
  case None
  then show ?thesis by (simp add: ngx_http_v2_huff_decode_def decode_loop_append)
next
  case (Some x)
  then obtain s' e' dst' where x: "huff_decode_loop s True bs dst = Some (s', e', dst')" by (cases x) auto
  show ?thesis
  proof (cases "cs = []")
    case True
    then show ?thesis using x assms by (auto simp: ngx_http_v2_huff_decode_def)
  next
    case False
    then show ?thesis using x decode_loop_ending [of cs s' e' dst' True]
      by (simp add: ngx_http_v2_huff_decode_def decode_loop_append)
  qed
qed

lemma eats_well_all: "eats_well eat_huff" "eats_well eat_raw" "eats_well eat_skip"
proof -
  show "eats_well eat_raw" by (simp add: eats_well_def eat_raw_def)
  show "eats_well eat_skip" by (simp add: eats_well_def eat_skip_def)
  have "eat_huff st [] False = Some st" for st by (simp add: eat_huff_def ngx_http_v2_huff_decode_def)
  moreover have "eat_huff (st\<lparr>s_length := l, s_field_rest := m\<rparr>) (bs @ cs) fin =
      (case eat_huff st bs False of None \<Rightarrow> None | Some st' \<Rightarrow> eat_huff (st'\<lparr>s_length := l, s_field_rest := m\<rparr>) cs fin)"
    if "fin \<longrightarrow> cs \<noteq> []" for st bs cs fin l m
    using that huff_decode_append [of fin cs "s_field_state st" bs "s_field st"]
    by (auto simp: eat_huff_def option.map_comp comp_def case_prod_unfold split: option.split)
  ultimately show "eats_well eat_huff" unfolding eats_well_def by (auto simp: eat_huff_def)
qed

lemma fields_go_on:
  assumes "\<And>st'. s_parse_name st' = s_parse_name st \<Longrightarrow> goes_on (h2_handle conf vs) h2_norm (ngx_http_v2_state_process_header conf vs st')"
  shows "goes_on (h2_handle conf vs) h2_norm (ngx_http_v2_state_field_huff conf vs st)"
    "goes_on (h2_handle conf vs) h2_norm (ngx_http_v2_state_field_raw conf vs st)"
    "goes_on (h2_handle conf vs) h2_norm (ngx_http_v2_state_field_skip conf vs st)"
proof -
  have "ngx_http_v2_state_field_huff conf vs st = field_shape conf vs H_field_huff eat_huff st"
    "ngx_http_v2_state_field_raw conf vs st = field_shape conf vs H_field_raw eat_raw st"
    "ngx_http_v2_state_field_skip conf vs st = field_shape conf vs H_field_skip eat_skip st"
    by (intro ext, simp add: field_huff_shape field_raw_shape field_skip_shape)+
  then show "goes_on (h2_handle conf vs) h2_norm (ngx_http_v2_state_field_huff conf vs st)"
    "goes_on (h2_handle conf vs) h2_norm (ngx_http_v2_state_field_raw conf vs st)"
    "goes_on (h2_handle conf vs) h2_norm (ngx_http_v2_state_field_skip conf vs st)"
    using assms eats_well_all
    by (auto intro!: field_shape_goes_on simp: h2_handle_def field_huff_shape field_raw_shape field_skip_shape)
qed

lemma save_small: "length bs \<le> 16 \<Longrightarrow> ngx_http_v2_state_save h st bs = Save h st bs"
  by (simp add: ngx_http_v2_state_save_def NGX_HTTP_V2_STATE_BUFFER_SIZE_def)

lemma field_len_goes_on:
  assumes "\<And>st'. s_parse_name st' = s_parse_name st \<Longrightarrow> goes_on (h2_handle conf vs) h2_norm (ngx_http_v2_state_process_header conf vs st')"
  shows "goes_on (h2_handle conf vs) h2_norm (ngx_http_v2_state_field_len conf vs st)"
proof (cases "\<not> end_headers st \<and> s_length st < NGX_HTTP_V2_INT_OCTETS")
  case True
  then have "ngx_http_v2_state_field_len conf vs st = ngx_http_v2_handle_continuation H_field_len st"
    by (intro ext) (simp add: ngx_http_v2_state_field_len.simps [of conf vs st])
  moreover have "goes_on (h2_handle conf vs) h2_norm (ngx_http_v2_handle_continuation H_field_len st)"
    using True by (intro continuation_goes_on)
      (simp_all add: h2_handle_def ngx_http_v2_state_field_len.simps [of conf vs "st\<lparr>s_padding := p\<rparr>" for p] end_headers_def)
  ultimately show ?thesis by simp
next
  case False
  let ?f = "ngx_http_v2_state_field_len conf vs st"
  have u: "?f bs = (if s_length st < 1 then Fail NGX_HTTP_V2_SIZE_ERROR
      else if bs = [] then Save H_field_len st bs
      else case ngx_http_v2_parse_int (ngx_http_v2_prefix 7) bs (s_length st) of
          Int_rc rc \<Rightarrow>
            if rc = NGX_AGAIN then Save H_field_len st bs
            else if rc = NGX_DECLINED then Fail NGX_HTTP_V2_COMP_ERROR
            else Fail NGX_HTTP_V2_SIZE_ERROR
        | Int_value len rest slen \<Rightarrow>
            let huff = (drop_bit 7 (hd bs) \<noteq> 0) in
            if len > max_field_size conf then Fail NGX_HTTP_V2_ENHANCE_YOUR_CALM
            else
              let st = st\<lparr>s_length := slen, s_field_rest := len\<rparr> in
              if s_stream st = None \<and> \<not> s_index st then ngx_http_v2_state_field_skip conf vs st rest
              else
                let st = st\<lparr>s_field_alloc := (if huff then len * 8 div 5 else len) + 1, s_field := []\<rparr> in
                if huff then ngx_http_v2_state_field_huff conf vs st rest
                else ngx_http_v2_state_field_raw conf vs st rest)" for bs
  proof -
    have s: "ngx_http_v2_state_save H_field_len st [] = Save H_field_len st []" by (simp add: save_small)
    show ?thesis
    proof (cases "ngx_http_v2_parse_int (ngx_http_v2_prefix 7) bs (s_length st) = Int_rc NGX_AGAIN")
      case True
      then have "ngx_http_v2_state_save H_field_len st bs = Save H_field_len st bs"
        using parse_int_again [OF True] by (intro save_small) simp
      then show ?thesis using True by (simp only: ngx_http_v2_state_field_len.simps [of conf vs st bs] if_not_P [OF False] int_result.case)
    next
      case no: False
      then show ?thesis
        by (cases "ngx_http_v2_parse_int (ngx_http_v2_prefix 7) bs (s_length st)")
          (auto simp only: ngx_http_v2_state_field_len.simps [of conf vs st bs] if_not_P [OF False] int_result.case s split: if_split)
    qed
  qed
  show ?thesis unfolding goes_on_def
  proof (intro allI)
    fix bs later
    show "view h2_norm (?f (bs @ later)) = (case ?f bs of Goto h s rest \<Rightarrow> Goto h (h2_norm h s) (rest @ later)
        | Save h s left \<Rightarrow> view h2_norm (h2_handle conf vs h s (left @ later)) | Fail e \<Rightarrow> Fail e)"
    proof (cases "s_length st < 1 \<or> bs = []")
      case True
      then show ?thesis by (cases "s_length st < 1") (simp add: u, simp add: u [of "[]"] h2_handle_def)
    next
      case go: False
      show ?thesis
      proof (cases "ngx_http_v2_parse_int (ngx_http_v2_prefix 7) bs (s_length st)")
        case (Int_rc rc)
        then show ?thesis using go parse_int_append_rc [of bs "ngx_http_v2_prefix 7" "s_length st" rc later]
          by (cases "rc = NGX_AGAIN") (auto simp: u h2_handle_def)
      next
        case (Int_value len rest slen)
        note more = parse_int_append_value [OF Int_value, of later]
        let ?st1 = "st\<lparr>s_length := slen, s_field_rest := len\<rparr>"
        let ?st2 = "\<lambda>a. ?st1\<lparr>s_field_alloc := a, s_field := []\<rparr>"
        have g: "goes_on (h2_handle conf vs) h2_norm (ngx_http_v2_state_field_skip conf vs ?st1)"
          "goes_on (h2_handle conf vs) h2_norm (ngx_http_v2_state_field_huff conf vs (?st2 a))"
          "goes_on (h2_handle conf vs) h2_norm (ngx_http_v2_state_field_raw conf vs (?st2 a))" for a
          using assms by (auto intro!: fields_go_on)
        have "hd (bs @ later) = hd bs" using go by simp
        then show ?thesis using go Int_value more goes_onD [OF g(1), of rest later] goes_onD [OF g(2), of _ rest later]
            goes_onD [OF g(3), of _ rest later]
          by (simp add: u Let_def)
      qed
    qed
  qed
qed

lemma process_header_goes_on: "goes_on (h2_handle conf vs) h2_norm (ngx_http_v2_state_process_header conf vs st)"
proof -
  have plain: "goes_on (h2_handle conf vs) h2_norm (ngx_http_v2_state_process_header conf vs st)" if "\<not> s_parse_name st" for st
  proof -
    have "ngx_http_v2_state_process_header conf vs st =
        deliver_header conf vs (if s_parse_value st then st\<lparr>s_parse_value := False, s_value := s_field st\<rparr> else st)"
      using that by (intro ext) (simp add: ngx_http_v2_state_process_header.simps [of conf vs st])
    then show ?thesis using deliver_goes_on by simp
  qed
  show ?thesis
  proof (cases "s_parse_name st")
    case True
    let ?st = "st\<lparr>s_parse_name := False, s_name := s_field st\<rparr>"
    have "ngx_http_v2_state_process_header conf vs st = ngx_http_v2_state_field_len conf vs ?st"
      using True by (intro ext) (simp add: ngx_http_v2_state_process_header.simps [of conf vs st])
    then show ?thesis using field_len_goes_on [of ?st] plain by simp
  next
    case False
    then show ?thesis by (rule plain)
  qed
qed

lemma field_handlers_go_on:
  "goes_on (h2_handle conf vs) h2_norm (ngx_http_v2_state_field_huff conf vs st)"
  "goes_on (h2_handle conf vs) h2_norm (ngx_http_v2_state_field_raw conf vs st)"
  "goes_on (h2_handle conf vs) h2_norm (ngx_http_v2_state_field_skip conf vs st)"
  "goes_on (h2_handle conf vs) h2_norm (ngx_http_v2_state_field_len conf vs st)"
  using process_header_goes_on by (auto intro: fields_go_on field_len_goes_on)

lemma header_block_eq:
  "ngx_http_v2_state_header_block conf vs st bs =
     (if bs = [] then Save H_header_block st []
      else if \<not> end_headers st \<and> s_length st < NGX_HTTP_V2_INT_OCTETS then ngx_http_v2_handle_continuation H_header_block st bs
      else case ngx_http_v2_parse_int (ngx_http_v2_prefix (block_prefix (hd bs))) bs (s_length st) of
             Int_rc rc \<Rightarrow>
               if rc = NGX_AGAIN then Save H_header_block (block_state (hd bs) st) bs
               else if rc = NGX_DECLINED then Fail NGX_HTTP_V2_COMP_ERROR
               else Fail NGX_HTTP_V2_SIZE_ERROR
           | Int_value v rest slen \<Rightarrow> block_value conf vs (hd bs) v ((block_state (hd bs) st)\<lparr>s_length := slen\<rparr>) rest)"
proof -
  have sl: "s_length (block_state ch st) = s_length st" for ch by (simp add: block_state_def)
  have s: "ngx_http_v2_state_save H_header_block st' bs = Save H_header_block st' bs"
    if "ngx_http_v2_parse_int p bs l = Int_rc NGX_AGAIN" for st' p l
    using parse_int_again [OF that] by (intro save_small) simp
  show ?thesis unfolding ngx_http_v2_state_header_block_def Let_def sl
    by (cases "ngx_http_v2_parse_int (ngx_http_v2_prefix (block_prefix (hd bs))) bs (s_length st)")
      (auto simp: save_small s)
qed

lemma block_value_goes_on: "goes_on (h2_handle conf vs) h2_norm (block_value conf vs ch v st)"
proof -
  note laws = process_header_goes_on [of conf vs] field_handlers_go_on(4) [of conf vs] header_complete_goes_on [of conf vs]
  have if_goes_on: "goes_on (h2_handle conf vs) h2_norm (\<lambda>bs. if b then f bs else g bs)"
    if "b \<Longrightarrow> goes_on (h2_handle conf vs) h2_norm f" "\<not> b \<Longrightarrow> goes_on (h2_handle conf vs) h2_norm g" for b f g
    using that by (cases b) (simp_all cong: if_cong)
  have case_goes_on: "goes_on (h2_handle conf vs) h2_norm (\<lambda>bs. case x of None \<Rightarrow> Fail e | Some y \<Rightarrow> f y bs)"
    if "\<And>y. goes_on (h2_handle conf vs) h2_norm (f y)" for x e and f :: "'c \<Rightarrow> bytes \<Rightarrow> h2_handled"
    using that by (cases x) simp_all
  show ?thesis unfolding block_value_def [abs_def] using laws by (intro if_goes_on case_goes_on)
qed

lemma header_block_again:
  assumes "xs \<noteq> []" "ch = hd xs" "\<not> (\<not> end_headers st \<and> s_length st < NGX_HTTP_V2_INT_OCTETS)"
  shows "ngx_http_v2_state_header_block conf vs (block_state ch st) xs = ngx_http_v2_state_header_block conf vs st xs"
proof -
  have "block_state ch (block_state ch st) = block_state ch st" "s_length (block_state ch st) = s_length st"
    "end_headers (block_state ch st) = end_headers st"
    by (simp_all add: block_state_def end_headers_def)
  then show ?thesis using assms by (auto simp: header_block_eq split: int_result.split)
qed

lemma header_block_goes_on: "goes_on (h2_handle conf vs) h2_norm (ngx_http_v2_state_header_block conf vs st)"
  unfolding goes_on_def
proof (intro allI)
  fix bs later
  let ?f = "ngx_http_v2_state_header_block conf vs st"
  show "view h2_norm (?f (bs @ later)) = (case ?f bs of Goto h s rest \<Rightarrow> Goto h (h2_norm h s) (rest @ later)
      | Save h s left \<Rightarrow> view h2_norm (h2_handle conf vs h s (left @ later)) | Fail e \<Rightarrow> Fail e)"
  proof (cases "bs = []")
    case True
    then show ?thesis by (simp add: header_block_eq [of _ _ _ "[]"] h2_handle_def)
  next
    case ne: False
    then have hd: "hd (bs @ later) = hd bs" by simp
    show ?thesis
    proof (cases "\<not> end_headers st \<and> s_length st < NGX_HTTP_V2_INT_OCTETS")
      case True
      have "goes_on (h2_handle conf vs) h2_norm (ngx_http_v2_handle_continuation H_header_block st)"
      proof (rule continuation_goes_on)
        fix p bs
        let ?st = "st\<lparr>s_padding := p\<rparr>"
        have "close_gap (s_length ?st) (p, []) = (p, [])" by (simp add: close_gap_def)
        then have "ngx_http_v2_handle_continuation H_header_block ?st [] = Save H_header_block ?st []"
          using next_frame_saves [of ?st "[]" H_header_block p] True
          by (simp add: ngx_http_v2_handle_continuation_def NGX_HTTP_V2_FRAME_HEADER_SIZE_def)
        then show "h2_handle conf vs H_header_block ?st bs = ngx_http_v2_handle_continuation H_header_block ?st bs"
          using True by (cases "bs = []") (simp_all add: h2_handle_def header_block_eq end_headers_def)
      qed (use True in simp)
      from goes_onD [OF this, of bs later] show ?thesis using ne True by (simp add: header_block_eq)
    next
      case False
      let ?p = "ngx_http_v2_prefix (block_prefix (hd bs))"
      show ?thesis
      proof (cases "ngx_http_v2_parse_int ?p bs (s_length st)")
        case (Int_rc rc)
        have again: "ngx_http_v2_state_header_block conf vs (block_state (hd bs) st) (bs @ later) = ?f (bs @ later)"
          using ne False by (intro header_block_again) simp_all
        then show ?thesis using Int_rc ne False parse_int_append_rc [of bs ?p "s_length st" rc later]
          by (cases "rc = NGX_AGAIN") (auto simp: header_block_eq [of _ _ _ bs] h2_handle_def, simp_all add: header_block_eq)
      next
        case (Int_value v rest slen)
        then show ?thesis using ne False parse_int_append_value [OF Int_value, of later]
            goes_onD [OF block_value_goes_on, of conf vs "hd bs" v "(block_state (hd bs) st)\<lparr>s_length := slen\<rparr>" rest later]
          by (auto simp: header_block_eq)
      qed
    qed
  qed
qed

lemma h2_handle_goes_on: "goes_on (h2_handle conf vs) h2_norm (h2_handle conf vs h st)"
proof (cases h)
  case H_head
  then have "h2_handle conf vs h st = Save H_head st" by (intro ext) (simp add: h2_handle_def)
  then show ?thesis by (simp add: goes_on_def h2_handle_def)
qed (use skip_goes_on header_block_goes_on field_handlers_go_on header_complete_goes_on in \<open>simp_all add: h2_handle_def [abs_def]\<close>)

section \<open>Progress\<close>

definition h2_final :: "h2_handler \<Rightarrow> bool" where
  "h2_final h \<longleftrightarrow> h = H_head"

definition h2_rank :: "h2_handler \<Rightarrow> nat" where
  "h2_rank h = (if h = H_header_block then 0 else 1)"

text \<open>A function that leaves at most the bytes it got, and fewer unless it sets the handler of blocks.\<close>

definition moves :: "(bytes \<Rightarrow> h2_handled) \<Rightarrow> bool" where
  "moves f \<longleftrightarrow> (\<forall>bs h s rest. f bs = Goto h s rest \<longrightarrow>
     h2_final h \<or> length rest < length bs \<or> length rest = length bs \<and> h = H_header_block)"

lemma moves_shorter:
  assumes "moves f" "f rest' = Goto h s rest" "length rest' < length bs"
  shows "h2_final h \<or> length rest < length bs"
  using assms unfolding moves_def by fastforce

lemma save_not_goto [simp]: "ngx_http_v2_state_save h st bs \<noteq> Goto h' s rest"
  by (simp add: ngx_http_v2_state_save_def)

lemma skip_moves: "moves (ngx_http_v2_state_skip st)" "moves (ngx_http_v2_state_skip_padded st)" "moves (ngx_http_v2_state_complete st)"
  by (auto simp: moves_def ngx_http_v2_state_skip_padded_def ngx_http_v2_state_skip_def ngx_http_v2_state_complete_def h2_final_def)

lemma continuation_shorter:
  assumes "ngx_http_v2_handle_continuation h st bs = Goto h' s rest"
  shows "length rest < length bs"
proof -
  have gap: "length (snd (close_gap len (pad, bs))) \<le> length bs" for len pad bs
    by (simp add: close_gap_def Let_def)
  have "length rest < length left" if "next_frame h st (pad, left) = Goto h' s rest" for h' s rest pad left
    using that by (auto simp: next_frame_def Let_def NGX_HTTP_V2_FRAME_HEADER_SIZE_def split: if_splits)
  then show ?thesis using assms gap unfolding ngx_http_v2_handle_continuation_def by (metis less_le_trans prod.collapse)
qed

lemma continuation_moves: "moves (ngx_http_v2_handle_continuation h st)"
  using continuation_shorter by (fastforce simp: moves_def)

lemma header_complete_moves: "moves (ngx_http_v2_state_header_complete st)"
  using continuation_moves skip_moves
  by (fastforce simp: moves_def ngx_http_v2_state_header_complete_def Let_def split: if_splits option.splits)

lemma deliver_moves: "moves (deliver_header conf vs st)"
proof -
  consider e where "\<forall>bs. deliver_header conf vs st bs = Fail e" |
    st' where "\<forall>bs. deliver_header conf vs st bs = ngx_http_v2_state_header_complete st' bs"
    using deliver_shape [of conf vs st] by blast
  then show ?thesis
  proof cases
    case (2 st')
    then show ?thesis using header_complete_moves [of st'] by (simp add: moves_def)
  qed (simp add: moves_def)
qed

lemma field_more_moves: "moves (field_more h st)"
  using continuation_moves by (auto simp: moves_def field_more_def split: if_splits)

lemma field_shape_moves:
  assumes "\<And>st'. s_parse_name st' = s_parse_name st \<Longrightarrow> moves (ngx_http_v2_state_process_header conf vs st')" "eats_well eat"
  shows "moves (field_shape conf vs h eat st)"
  unfolding moves_def
proof (intro allI impI)
  fix bs h' s rest assume g: "field_shape conf vs h eat st bs = Goto h' s rest"
  let ?n = "field_bytes st bs"
  obtain st' where st': "eat (take_field st bs) (take ?n bs) (s_field_rest (take_field st bs) = 0) = Some st'"
    using g by (auto simp: field_shape_def split: option.splits)
  have "s_parse_name st' = s_parse_name st" using eats_wellD(1) [OF assms(2) st'] by (simp add: take_field_def)
  then have "moves (ngx_http_v2_state_process_header conf vs st')" "moves (field_more h st')" using assms(1) field_more_moves by blast+
  moreover have "length (drop ?n bs) \<le> length bs" by simp
  ultimately show "h2_final h' \<or> length rest < length bs \<or> length rest = length bs \<and> h' = H_header_block"
    using g st' unfolding moves_def by (fastforce simp: field_shape_def split: if_splits)
qed

lemma fields_move:
  assumes "\<And>st'. s_parse_name st' = s_parse_name st \<Longrightarrow> moves (ngx_http_v2_state_process_header conf vs st')"
  shows "moves (ngx_http_v2_state_field_huff conf vs st)" "moves (ngx_http_v2_state_field_raw conf vs st)"
    "moves (ngx_http_v2_state_field_skip conf vs st)"
proof -
  note shape = field_shape_moves [where conf = conf and vs = vs and st = st]
  show "moves (ngx_http_v2_state_field_huff conf vs st)"
    using shape [OF assms eats_well_all(1), of H_field_huff] by (simp add: moves_def field_huff_shape)
  show "moves (ngx_http_v2_state_field_raw conf vs st)"
    using shape [OF assms eats_well_all(2), of H_field_raw] by (simp add: moves_def field_raw_shape)
  show "moves (ngx_http_v2_state_field_skip conf vs st)"
    using shape [OF assms eats_well_all(3), of H_field_skip] by (simp add: moves_def field_skip_shape)
qed

lemma field_len_moves:
  assumes "\<And>st'. s_parse_name st' = s_parse_name st \<Longrightarrow> moves (ngx_http_v2_state_process_header conf vs st')"
  shows "moves (ngx_http_v2_state_field_len conf vs st)"
  unfolding moves_def
proof (intro allI impI)
  fix bs h s rest assume g: "ngx_http_v2_state_field_len conf vs st bs = Goto h s rest"
  show "h2_final h \<or> length rest < length bs \<or> length rest = length bs \<and> h = H_header_block"
  proof (cases "\<not> end_headers st \<and> s_length st < NGX_HTTP_V2_INT_OCTETS")
    case True
    then show ?thesis using g continuation_moves [of H_field_len st]
      by (simp add: ngx_http_v2_state_field_len.simps [of conf vs st] moves_def)
  next
    case False
    have go: "0 < s_length st" "bs \<noteq> []"
      using g False by (auto simp: ngx_http_v2_state_field_len.simps [of conf vs st] split: if_splits)
    from g False go obtain len rest' slen where p: "ngx_http_v2_parse_int (ngx_http_v2_prefix 7) bs (s_length st) = Int_value len rest' slen"
      by (auto simp: ngx_http_v2_state_field_len.simps [of conf vs st] split: if_splits int_result.splits)
    let ?st1 = "st\<lparr>s_length := slen, s_field_rest := len\<rparr>"
    let ?st2 = "\<lambda>a. ?st1\<lparr>s_field_alloc := a, s_field := []\<rparr>"
    have "moves (ngx_http_v2_state_field_skip conf vs ?st1)" "moves (ngx_http_v2_state_field_huff conf vs (?st2 a))"
      "moves (ngx_http_v2_state_field_raw conf vs (?st2 a))" for a
      using assms by (auto intro!: fields_move)
    moreover have "length rest' < length bs" using parse_int_value [OF p] by simp
    moreover have "ngx_http_v2_state_field_skip conf vs ?st1 rest' = Goto h s rest \<or>
        (\<exists>a. ngx_http_v2_state_field_huff conf vs (?st2 a) rest' = Goto h s rest) \<or>
        (\<exists>a. ngx_http_v2_state_field_raw conf vs (?st2 a) rest' = Goto h s rest)"
      using g False go p by (auto simp: ngx_http_v2_state_field_len.simps [of conf vs st] Let_def split: if_splits)
    ultimately show ?thesis using moves_shorter by blast
  qed
qed

lemma process_header_moves: "moves (ngx_http_v2_state_process_header conf vs st)"
proof -
  have plain: "moves (ngx_http_v2_state_process_header conf vs st)" if "\<not> s_parse_name st" for st
    using that deliver_moves [of conf vs] by (simp add: moves_def ngx_http_v2_state_process_header.simps [of conf vs st])
  show ?thesis
  proof (cases "s_parse_name st")
    case True
    then show ?thesis using field_len_moves [of "st\<lparr>s_parse_name := False, s_name := s_field st\<rparr>" conf vs] plain
      by (simp add: moves_def ngx_http_v2_state_process_header.simps [of conf vs st])
  qed (rule plain)
qed

lemma field_handlers_move:
  "moves (ngx_http_v2_state_field_huff conf vs st)" "moves (ngx_http_v2_state_field_raw conf vs st)"
  "moves (ngx_http_v2_state_field_skip conf vs st)" "moves (ngx_http_v2_state_field_len conf vs st)"
  using process_header_moves by (auto intro: fields_move field_len_moves)

lemma block_value_moves: "moves (block_value conf vs ch v st)"
  using process_header_moves [of conf vs] field_handlers_move(4) [of conf vs] header_complete_moves
  unfolding moves_def block_value_def by (simp split: option.split)

lemma header_block_moves:
  assumes "ngx_http_v2_state_header_block conf vs st bs = Goto h s rest"
  shows "h2_final h \<or> length rest < length bs"
proof (cases "bs = [] \<or> \<not> end_headers st \<and> s_length st < NGX_HTTP_V2_INT_OCTETS")
  case True
  then show ?thesis using assms continuation_shorter by (auto simp: header_block_eq split: if_splits)
next
  case False
  then obtain v rest' slen where p: "ngx_http_v2_parse_int (ngx_http_v2_prefix (block_prefix (hd bs))) bs (s_length st) = Int_value v rest' slen"
    "block_value conf vs (hd bs) v ((block_state (hd bs) st)\<lparr>s_length := slen\<rparr>) rest' = Goto h s rest"
    using assms by (auto simp: header_block_eq split: int_result.splits if_splits)
  then show ?thesis using moves_shorter [OF block_value_moves p(2)] parse_int_value [OF p(1)] by blast
qed

lemma h2_progress:
  assumes "h2_handle conf vs h st bs = Goto h' s rest"
  shows "h2_final h' \<or> length rest < length bs \<or> length rest = length bs \<and> h2_rank h' < h2_rank h"
proof (cases "h = H_header_block")
  case True
  then have "ngx_http_v2_state_header_block conf vs st bs = Goto h' s rest" using assms by (simp add: h2_handle_def)
  from header_block_moves [OF this] show ?thesis by blast
next
  case False
  have "moves (h2_handle conf vs h st)"
    using False by (cases h) (simp_all add: h2_handle_def [abs_def] skip_moves field_handlers_move header_complete_moves, simp add: moves_def)
  then show ?thesis using assms False unfolding moves_def by (auto simp: h2_rank_def)
qed

interpretation h2: interruptible "h2_handle conf vs" h2_final h2_norm h2_rank for conf vs
proof
  show "goes_on (h2_handle conf vs) h2_norm (h2_handle conf vs h s)" for h s by (rule h2_handle_goes_on)
  show "h2_norm h s = s" if "\<not> h2_final h" for h s using that by (simp add: h2_norm_def h2_final_def)
  show "h2_final h' \<or> length rest < length bs \<or> length rest = length bs \<and> h2_rank h' < h2_rank h"
    if "h2_handle conf vs h s bs = Goto h' s' rest" for h s bs h' s' rest
    using that by (rule h2_progress)
qed

section \<open>Properties\<close>

text \<open>
  C27. A header block may arrive in any pieces: whatever bytes follow, however the block is cut into
  frames, and however those bytes are cut into pieces by the network, the connection ends with the
  error, the requests, the header table and the remaining bytes that it ends with when all bytes
  arrive at once (up to the left-over length of a complete frame).
\<close>

theorem header_block_fragmentation:
  "map_option (view h2_norm) (receive (h2_handle conf vs) h2_final h st left pieces) =
   map_option (view h2_norm) (receive (h2_handle conf vs) h2_final h st left [concat pieces])"
  by (rule h2.receive_concat)

text \<open>
  C28. The read loop of a connection returns: from every handler of a header block and every state,
  on every input.
\<close>

theorem header_block_returns: "\<exists>r. read_loop (h2_handle conf vs) h2_final h st bs = Some r"
  by (rule h2.read_loop_returns)

end
