(* ===== verification/Ngx_Rbtree.thy ===== *)
theory Ngx_Rbtree
  imports Prelude "HOL-Library.Monad_Syntax"
begin

text \<open>
  The red-black tree of \<^verbatim>\<open>src/core/ngx_rbtree.c\<close> and \<^verbatim>\<open>src/core/ngx_rbtree.h\<close>, on which the timers, the
  caches, the limits and the resolver are built. Nodes are structures in an explicit heap, linked by
  pointers (numbers, \<open>NULL\<close> is 0); the sentinel is a node as well. Every read and write goes through
  \<open>rb_get\<close> and \<open>rb_put\<close>, which have no value where nothing is allocated, and loops are partial
  functions into options: that an operation returns a value says that it ends and that it never
  follows a pointer to nowhere. The field \<open>data\<close>, which this code does not use, is left out.

  The theory holds the operations, the abstraction of the heap by trees of addresses (with a hole,
  for the place where a loop works), and the lemmas on painting and rotating.
\<close>

section \<open>Nodes and trees\<close>

record rb_node =
  nd_key :: u64
  nd_left :: nat
  nd_right :: nat
  nd_parent :: nat
  nd_red :: bool

record rbtree =
  rb_heap :: "nat \<rightharpoonup> rb_node"
  rb_root :: nat
  rb_sentinel :: nat

text \<open>\<open>NULL\<close>, and reading and writing a field through a pointer: no value when nothing is there.\<close>

abbreviation null_ptr :: nat where "null_ptr \<equiv> 0"

definition rb_get :: "(rb_node \<Rightarrow> 'a) \<Rightarrow> nat \<Rightarrow> rbtree \<Rightarrow> 'a option" where
  "rb_get f a T = map_option f (rb_heap T a)"

definition rb_put :: "(rb_node \<Rightarrow> rb_node) \<Rightarrow> nat \<Rightarrow> rbtree \<Rightarrow> rbtree option" where
  "rb_put f a T = (case rb_heap T a of None \<Rightarrow> None | Some n \<Rightarrow> Some (T\<lparr>rb_heap := (rb_heap T)(a \<mapsto> f n)\<rparr>))"

abbreviation set_left :: "nat \<Rightarrow> nat \<Rightarrow> rbtree \<Rightarrow> rbtree option" where "set_left a p \<equiv> rb_put (nd_left_update (\<lambda>_. p)) a"
abbreviation set_right :: "nat \<Rightarrow> nat \<Rightarrow> rbtree \<Rightarrow> rbtree option" where "set_right a p \<equiv> rb_put (nd_right_update (\<lambda>_. p)) a"
abbreviation set_parent :: "nat \<Rightarrow> nat \<Rightarrow> rbtree \<Rightarrow> rbtree option" where "set_parent a p \<equiv> rb_put (nd_parent_update (\<lambda>_. p)) a"
abbreviation set_key :: "nat \<Rightarrow> u64 \<Rightarrow> rbtree \<Rightarrow> rbtree option" where "set_key a k \<equiv> rb_put (nd_key_update (\<lambda>_. k)) a"

definition ngx_rbt_red :: "nat \<Rightarrow> rbtree \<Rightarrow> rbtree option" where
  "ngx_rbt_red a = rb_put (nd_red_update (\<lambda>_. True)) a"

definition ngx_rbt_black :: "nat \<Rightarrow> rbtree \<Rightarrow> rbtree option" where
  "ngx_rbt_black a = rb_put (nd_red_update (\<lambda>_. False)) a"

definition ngx_rbt_is_red :: "nat \<Rightarrow> rbtree \<Rightarrow> bool option" where
  "ngx_rbt_is_red a T = rb_get nd_red a T"

definition ngx_rbt_copy_color :: "nat \<Rightarrow> nat \<Rightarrow> rbtree \<Rightarrow> rbtree option" where
  "ngx_rbt_copy_color a b T = do { c \<leftarrow> rb_get nd_red b T; rb_put (nd_red_update (\<lambda>_. c)) a T }"

text \<open>An empty tree: the sentinel is black.\<close>

definition ngx_rbtree_init :: "(nat \<rightharpoonup> rb_node) \<Rightarrow> nat \<Rightarrow> rbtree option" where
  "ngx_rbtree_init h s = ngx_rbt_black s \<lparr>rb_heap = h, rb_root = s, rb_sentinel = s\<rparr>"

partial_function (option) ngx_rbtree_min :: "nat \<Rightarrow> rbtree \<Rightarrow> nat option" where
  "ngx_rbtree_min node T = do {
     l \<leftarrow> rb_get nd_left node T;
     if l = rb_sentinel T then Some node else ngx_rbtree_min l T }"

section \<open>Rotations\<close>

definition ngx_rbtree_left_rotate :: "nat \<Rightarrow> rbtree \<Rightarrow> rbtree option" where
  "ngx_rbtree_left_rotate node T = do {
     temp \<leftarrow> rb_get nd_right node T;
     targ \<leftarrow> rb_get nd_left temp T;
     T \<leftarrow> set_right node targ T;
     T \<leftarrow> (if targ \<noteq> rb_sentinel T then set_parent targ node T else Some T);
     up \<leftarrow> rb_get nd_parent node T;
     T \<leftarrow> set_parent temp up T;
     T \<leftarrow> (if node = rb_root T then Some (T\<lparr>rb_root := temp\<rparr>)
           else do {
             l \<leftarrow> rb_get nd_left up T;
             if node = l then set_left up temp T else set_right up temp T });
     T \<leftarrow> set_left temp node T;
     set_parent node temp T }"

definition ngx_rbtree_right_rotate :: "nat \<Rightarrow> rbtree \<Rightarrow> rbtree option" where
  "ngx_rbtree_right_rotate node T = do {
     temp \<leftarrow> rb_get nd_left node T;
     targ \<leftarrow> rb_get nd_right temp T;
     T \<leftarrow> set_left node targ T;
     T \<leftarrow> (if targ \<noteq> rb_sentinel T then set_parent targ node T else Some T);
     up \<leftarrow> rb_get nd_parent node T;
     T \<leftarrow> set_parent temp up T;
     T \<leftarrow> (if node = rb_root T then Some (T\<lparr>rb_root := temp\<rparr>)
           else do {
             r \<leftarrow> rb_get nd_right up T;
             if node = r then set_right up temp T else set_left up temp T });
     T \<leftarrow> set_right temp node T;
     set_parent node temp T }"

section \<open>Sides\<close>

text \<open>
  The code treats the two sides of a node by two branches that are mirror images of each other;
  they are one definition with the side as an argument.
\<close>

datatype side = Left_side | Right_side

fun other :: "side \<Rightarrow> side" where
  "other Left_side = Right_side"
| "other Right_side = Left_side"

fun kid :: "side \<Rightarrow> rb_node \<Rightarrow> nat" where
  "kid Left_side n = nd_left n"
| "kid Right_side n = nd_right n"

fun rotate :: "side \<Rightarrow> nat \<Rightarrow> rbtree \<Rightarrow> rbtree option" where
  "rotate Left_side = ngx_rbtree_left_rotate"
| "rotate Right_side = ngx_rbtree_right_rotate"

section \<open>Insertion\<close>

text \<open>
  The walk of \<open>ngx_rbtree_insert_value\<close> and \<open>ngx_rbtree_insert_timer_value\<close>, which differ in the
  comparison of keys only.
\<close>

partial_function (option) insert_walk :: "(u64 \<Rightarrow> u64 \<Rightarrow> bool) \<Rightarrow> nat \<Rightarrow> nat \<Rightarrow> rbtree \<Rightarrow> rbtree option" where
  "insert_walk lt temp node T = do {
     nk \<leftarrow> rb_get nd_key node T;
     tk \<leftarrow> rb_get nd_key temp T;
     let d = (if lt nk tk then Left_side else Right_side);
     p \<leftarrow> rb_get (kid d) temp T;
     if p = rb_sentinel T then do {
       T \<leftarrow> (if d = Left_side then set_left temp node T else set_right temp node T);
       T \<leftarrow> set_parent node temp T;
       T \<leftarrow> set_left node (rb_sentinel T) T;
       T \<leftarrow> set_right node (rb_sentinel T) T;
       ngx_rbt_red node T }
     else insert_walk lt p node T }"

definition ngx_rbtree_insert_value :: "nat \<Rightarrow> nat \<Rightarrow> rbtree \<Rightarrow> rbtree option" where
  "ngx_rbtree_insert_value = insert_walk (\<lambda>k t. k < t)"

text \<open>\<open>(ngx_rbtree_key_int_t) (node->key - temp->key) < 0\<close>: the sign bit of the wrapped difference.\<close>

definition timer_less :: "u64 \<Rightarrow> u64 \<Rightarrow> bool" where
  "timer_less k t \<longleftrightarrow> sint (k - t) < 0"

definition ngx_rbtree_insert_timer_value :: "nat \<Rightarrow> nat \<Rightarrow> rbtree \<Rightarrow> rbtree option" where
  "ngx_rbtree_insert_timer_value = insert_walk timer_less"

text \<open>One turn of the loop, for a parent that is the child on side \<open>d\<close> of the grandparent.\<close>

definition insert_turn :: "side \<Rightarrow> nat \<Rightarrow> nat \<Rightarrow> nat \<Rightarrow> rbtree \<Rightarrow> (nat \<times> rbtree) option" where
  "insert_turn d node par grand T = do {
     temp \<leftarrow> rb_get (kid (other d)) grand T;
     red \<leftarrow> ngx_rbt_is_red temp T;
     if red then do {
       T \<leftarrow> ngx_rbt_black par T;
       T \<leftarrow> ngx_rbt_black temp T;
       T \<leftarrow> ngx_rbt_red grand T;
       Some (grand, T) }
     else do {
       inner \<leftarrow> rb_get (kid (other d)) par T;
       (node, T) \<leftarrow> (if node = inner then do { T \<leftarrow> rotate d par T; Some (par, T) } else Some (node, T));
       par \<leftarrow> rb_get nd_parent node T;
       T \<leftarrow> ngx_rbt_black par T;
       grand \<leftarrow> rb_get nd_parent par T;
       T \<leftarrow> ngx_rbt_red grand T;
       T \<leftarrow> rotate (other d) grand T;
       Some (node, T) } }"

partial_function (option) insert_loop :: "nat \<Rightarrow> rbtree \<Rightarrow> rbtree option" where
  "insert_loop node T =
     (if node = rb_root T then Some T
      else do {
        par \<leftarrow> rb_get nd_parent node T;
        red \<leftarrow> ngx_rbt_is_red par T;
        if \<not> red then Some T
        else do {
          grand \<leftarrow> rb_get nd_parent par T;
          l \<leftarrow> rb_get nd_left grand T;
          (node, T) \<leftarrow> insert_turn (if par = l then Left_side else Right_side) node par grand T;
          insert_loop node T } })"

text \<open>The callback \<open>tree->insert\<close> is an argument.\<close>

definition ngx_rbtree_insert :: "(nat \<Rightarrow> nat \<Rightarrow> rbtree \<Rightarrow> rbtree option) \<Rightarrow> nat \<Rightarrow> rbtree \<Rightarrow> rbtree option" where
  "ngx_rbtree_insert ins node T =
     (if rb_root T = rb_sentinel T then do {
        T \<leftarrow> set_parent node null_ptr T;
        T \<leftarrow> set_left node (rb_sentinel T) T;
        T \<leftarrow> set_right node (rb_sentinel T) T;
        T \<leftarrow> ngx_rbt_black node T;
        Some (T\<lparr>rb_root := node\<rparr>) }
      else do {
        T \<leftarrow> ins (rb_root T) node T;
        T \<leftarrow> insert_loop node T;
        ngx_rbt_black (rb_root T) T })"

section \<open>Deletion\<close>

text \<open>The node that leaves its place (\<open>subst\<close>) and the child that takes that place (\<open>temp\<close>).\<close>

definition delete_choose :: "nat \<Rightarrow> rbtree \<Rightarrow> (nat \<times> nat) option" where
  "delete_choose node T = do {
     l \<leftarrow> rb_get nd_left node T;
     r \<leftarrow> rb_get nd_right node T;
     if l = rb_sentinel T then Some (node, r)
     else if r = rb_sentinel T then Some (node, l)
     else do {
       subst \<leftarrow> ngx_rbtree_min r T;
       sl \<leftarrow> rb_get nd_left subst T;
       if sl \<noteq> rb_sentinel T then Some (subst, sl)
       else do { sr \<leftarrow> rb_get nd_right subst T; Some (subst, sr) } } }"

text \<open>\<open>temp\<close> takes the place of \<open>subst\<close>; then \<open>subst\<close>, when it is another node, that of \<open>node\<close>.\<close>

definition delete_unlink :: "nat \<Rightarrow> nat \<Rightarrow> rbtree \<Rightarrow> rbtree option" where
  "delete_unlink subst temp T = do {
     up \<leftarrow> rb_get nd_parent subst T;
     l \<leftarrow> rb_get nd_left up T;
     if subst = l then set_left up temp T else set_right up temp T }"

definition delete_inherit :: "nat \<Rightarrow> nat \<Rightarrow> rbtree \<Rightarrow> rbtree option" where
  "delete_inherit node subst T = do {
     l \<leftarrow> rb_get nd_left node T;
     T \<leftarrow> set_left subst l T;
     r \<leftarrow> rb_get nd_right node T;
     T \<leftarrow> set_right subst r T;
     p \<leftarrow> rb_get nd_parent node T;
     T \<leftarrow> set_parent subst p T;
     T \<leftarrow> ngx_rbt_copy_color subst node T;
     T \<leftarrow> (if node = rb_root T then Some (T\<lparr>rb_root := subst\<rparr>)
           else do {
             pl \<leftarrow> rb_get nd_left p T;
             if node = pl then set_left p subst T else set_right p subst T });
     l \<leftarrow> rb_get nd_left subst T;
     T \<leftarrow> (if l \<noteq> rb_sentinel T then set_parent l subst T else Some T);
     r \<leftarrow> rb_get nd_right subst T;
     if r \<noteq> rb_sentinel T then set_parent r subst T else Some T }"

definition delete_replace :: "nat \<Rightarrow> nat \<Rightarrow> nat \<Rightarrow> rbtree \<Rightarrow> rbtree option" where
  "delete_replace node subst temp T = do {
     up \<leftarrow> rb_get nd_parent subst T;
     T \<leftarrow> set_parent temp (if up = node then subst else up) T;
     delete_inherit node subst T }"

definition delete_clear :: "nat \<Rightarrow> rbtree \<Rightarrow> rbtree option" where
  "delete_clear node T = do {
     T \<leftarrow> set_left node null_ptr T;
     T \<leftarrow> set_right node null_ptr T;
     T \<leftarrow> set_parent node null_ptr T;
     set_key node 0 T }"

text \<open>
  One turn of the fix-up, for \<open>temp\<close> on side \<open>d\<close> of its parent: a black sibling, and the next \<open>temp\<close>.
\<close>

definition delete_sibling :: "side \<Rightarrow> nat \<Rightarrow> rbtree \<Rightarrow> (nat \<times> rbtree) option" where
  "delete_sibling d temp T = do {
     up \<leftarrow> rb_get nd_parent temp T;
     w \<leftarrow> rb_get (kid (other d)) up T;
     red \<leftarrow> ngx_rbt_is_red w T;
     if red then do {
       T \<leftarrow> ngx_rbt_black w T;
       T \<leftarrow> ngx_rbt_red up T;
       T \<leftarrow> rotate d up T;
       up \<leftarrow> rb_get nd_parent temp T;
       w \<leftarrow> rb_get (kid (other d)) up T;
       Some (w, T) }
     else Some (w, T) }"

definition delete_outer :: "side \<Rightarrow> nat \<Rightarrow> nat \<Rightarrow> rbtree \<Rightarrow> (nat \<times> rbtree) option" where
  "delete_outer d temp w T = do {
     up \<leftarrow> rb_get nd_parent temp T;
     T \<leftarrow> ngx_rbt_copy_color w up T;
     T \<leftarrow> ngx_rbt_black up T;
     outer \<leftarrow> rb_get (kid (other d)) w T;
     T \<leftarrow> ngx_rbt_black outer T;
     T \<leftarrow> rotate d up T;
     Some (rb_root T, T) }"

definition delete_turn :: "side \<Rightarrow> nat \<Rightarrow> rbtree \<Rightarrow> (nat \<times> rbtree) option" where
  "delete_turn d temp T = do {
     (w, T) \<leftarrow> delete_sibling d temp T;
     inner \<leftarrow> rb_get (kid d) w T;
     outer \<leftarrow> rb_get (kid (other d)) w T;
     inner_red \<leftarrow> ngx_rbt_is_red inner T;
     outer_red \<leftarrow> ngx_rbt_is_red outer T;
     if \<not> inner_red \<and> \<not> outer_red then do {
       T \<leftarrow> ngx_rbt_red w T;
       up \<leftarrow> rb_get nd_parent temp T;
       Some (up, T) }
     else if \<not> outer_red then do {
       T \<leftarrow> ngx_rbt_black inner T;
       T \<leftarrow> ngx_rbt_red w T;
       T \<leftarrow> rotate (other d) w T;
       up \<leftarrow> rb_get nd_parent temp T;
       w \<leftarrow> rb_get (kid (other d)) up T;
       delete_outer d temp w T }
     else delete_outer d temp w T }"

partial_function (option) delete_loop :: "nat \<Rightarrow> rbtree \<Rightarrow> (nat \<times> rbtree) option" where
  "delete_loop temp T =
     (if temp = rb_root T then Some (temp, T)
      else do {
        red \<leftarrow> ngx_rbt_is_red temp T;
        if red then Some (temp, T)
        else do {
          up \<leftarrow> rb_get nd_parent temp T;
          l \<leftarrow> rb_get nd_left up T;
          (temp, T) \<leftarrow> delete_turn (if temp = l then Left_side else Right_side) temp T;
          delete_loop temp T } })"

definition ngx_rbtree_delete :: "nat \<Rightarrow> rbtree \<Rightarrow> rbtree option" where
  "ngx_rbtree_delete node T = do {
     (subst, temp) \<leftarrow> delete_choose node T;
     if subst = rb_root T then do {
       T \<leftarrow> ngx_rbt_black temp (T\<lparr>rb_root := temp\<rparr>);
       delete_clear node T }
     else do {
       red \<leftarrow> ngx_rbt_is_red subst T;
       T \<leftarrow> delete_unlink subst temp T;
       T \<leftarrow> (if subst = node then do { up \<leftarrow> rb_get nd_parent subst T; set_parent temp up T }
             else delete_replace node subst temp T);
       T \<leftarrow> delete_clear node T;
       if red then Some T
       else do {
         (temp, T) \<leftarrow> delete_loop temp T;
         ngx_rbt_black temp T } } }"

section \<open>Order\<close>

partial_function (option) next_up :: "nat \<Rightarrow> rbtree \<Rightarrow> nat option" where
  "next_up node T = do {
     up \<leftarrow> rb_get nd_parent node T;
     if node = rb_root T then Some null_ptr
     else do {
       l \<leftarrow> rb_get nd_left up T;
       if node = l then Some up else next_up up T } }"

definition ngx_rbtree_next :: "nat \<Rightarrow> rbtree \<Rightarrow> nat option" where
  "ngx_rbtree_next node T = do {
     r \<leftarrow> rb_get nd_right node T;
     if r \<noteq> rb_sentinel T then ngx_rbtree_min r T else next_up node T }"

section \<open>The tree in the heap\<close>

text \<open>
  What the heap holds: a tree of addresses with colours. \<open>ptr\<close> is the pointer to a tree,
  \<open>tree_at h s up t\<close> says that the nodes of \<open>t\<close> are linked that way, with \<open>up\<close> above its root.
\<close>

datatype rbt = Lf | Nd bool rbt nat rbt

fun inorder :: "rbt \<Rightarrow> nat list" where
  "inorder Lf = []"
| "inorder (Nd c l a r) = inorder l @ a # inorder r"

fun ptr :: "nat \<Rightarrow> rbt \<Rightarrow> nat" where
  "ptr s Lf = s"
| "ptr s (Nd c l a r) = a"

fun tree_at :: "(nat \<rightharpoonup> rb_node) \<Rightarrow> nat \<Rightarrow> nat \<Rightarrow> rbt \<Rightarrow> bool" where
  "tree_at h s up Lf \<longleftrightarrow> True"
| "tree_at h s up (Nd c l a r) \<longleftrightarrow>
     (\<exists>k. h a = Some \<lparr>nd_key = k, nd_left = ptr s l, nd_right = ptr s r, nd_parent = up, nd_red = c\<rparr>) \<and>
     tree_at h s a l \<and> tree_at h s a r"

text \<open>A tree with a hole: the nodes above it, each with the side of the hole, from the hole up.\<close>

datatype crumb = Crumb (crumb_side: side) (crumb_red: bool) (crumb_addr: nat) (crumb_kid: rbt)

fun mk :: "side \<Rightarrow> bool \<Rightarrow> rbt \<Rightarrow> nat \<Rightarrow> rbt \<Rightarrow> rbt" where
  "mk Left_side c x a y = Nd c x a y"
| "mk Right_side c x a y = Nd c y a x"

fun plug :: "rbt \<Rightarrow> crumb list \<Rightarrow> rbt" where
  "plug t [] = t"
| "plug t (Crumb d c a y # \<pi>) = plug (mk d c t a y) \<pi>"

fun path_addrs :: "crumb list \<Rightarrow> nat list" where
  "path_addrs [] = []"
| "path_addrs (Crumb d c a y # \<pi>) = a # inorder y @ path_addrs \<pi>"

fun above :: "nat \<Rightarrow> crumb list \<Rightarrow> nat" where
  "above up [] = up"
| "above up (c # \<pi>) = crumb_addr c"

fun path_at :: "(nat \<rightharpoonup> rb_node) \<Rightarrow> nat \<Rightarrow> nat \<Rightarrow> nat \<Rightarrow> crumb list \<Rightarrow> bool" where
  "path_at h s up q [] \<longleftrightarrow> True"
| "path_at h s up q (Crumb d c a y # \<pi>) \<longleftrightarrow>
     (\<exists>k. h a = Some \<lparr>nd_key = k, nd_left = (if d = Left_side then q else ptr s y), nd_right = (if d = Left_side then ptr s y else q),
        nd_parent = above up \<pi>, nd_red = c\<rparr>) \<and> tree_at h s a y \<and> path_at h s up a \<pi>"

lemma mk_inorder: "inorder (mk d c x a y) = (if d = Left_side then inorder x @ a # inorder y else inorder y @ a # inorder x)"
  by (cases d) auto

lemma set_plug: "set (inorder (plug t \<pi>)) = set (inorder t) \<union> set (path_addrs \<pi>)"
  by (induction t \<pi> rule: plug.induct) (auto simp: mk_inorder)

lemma distinct_plug:
  "distinct (inorder (plug t \<pi>)) \<longleftrightarrow> distinct (inorder t) \<and> distinct (path_addrs \<pi>) \<and> set (inorder t) \<inter> set (path_addrs \<pi>) = {}"
  by (induction t \<pi> rule: plug.induct) (auto simp: mk_inorder)

lemma ptr_mk [simp]: "ptr s (mk d c x a y) = a"
  by (cases d) auto

lemma tree_at_mk:
  "tree_at h s up (mk d c x a y) \<longleftrightarrow>
     (\<exists>k. h a = Some \<lparr>nd_key = k, nd_left = (if d = Left_side then ptr s x else ptr s y),
        nd_right = (if d = Left_side then ptr s y else ptr s x), nd_parent = up, nd_red = c\<rparr>) \<and>
     tree_at h s a x \<and> tree_at h s a y"
  by (cases d) auto

lemma tree_at_plug: "tree_at h s up (plug t \<pi>) \<longleftrightarrow> tree_at h s (above up \<pi>) t \<and> path_at h s up (ptr s t) \<pi>"
  by (induction t \<pi> rule: plug.induct) (auto simp: tree_at_mk)

lemma ptr_plug: "ptr s (plug t \<pi>) = (if \<pi> = [] then ptr s t else crumb_addr (last \<pi>))"
  by (induction t \<pi> rule: plug.induct) auto

lemma tree_at_frame [simp]: "x \<notin> set (inorder t) \<Longrightarrow> tree_at (h(x := n)) s up t \<longleftrightarrow> tree_at h s up t"
  by (induction t arbitrary: up) auto

lemma path_at_frame [simp]: "x \<notin> set (path_addrs \<pi>) \<Longrightarrow> path_at (h(x := n)) s up q \<pi> \<longleftrightarrow> path_at h s up q \<pi>"
  by (induction h s up q \<pi> rule: path_at.induct) auto

text \<open>A tree of the model, with its sentinel.\<close>

definition rb_tree :: "rbtree \<Rightarrow> rbt \<Rightarrow> bool" where
  "rb_tree T t \<longleftrightarrow> rb_root T = ptr (rb_sentinel T) t \<and> (\<exists>up. tree_at (rb_heap T) (rb_sentinel T) up t) \<and>
     distinct (inorder t) \<and> rb_sentinel T \<notin> set (inorder t) \<and>
     (\<exists>n. rb_heap T (rb_sentinel T) = Some n \<and> \<not> nd_red n)"

text \<open>What the steps of the rebalancing leave alone: the keys, the sentinel, and that a node is there.\<close>

definition kept :: "rbtree \<Rightarrow> rbtree \<Rightarrow> bool" where
  "kept T T' \<longleftrightarrow> rb_sentinel T' = rb_sentinel T \<and> rb_heap T' (rb_sentinel T) = rb_heap T (rb_sentinel T) \<and>
     (\<forall>a. map_option nd_key (rb_heap T' a) = map_option nd_key (rb_heap T a))"

lemma kept_refl [simp]: "kept T T"
  by (simp add: kept_def)

lemma kept_trans: "kept T T' \<Longrightarrow> kept T' T'' \<Longrightarrow> kept T T''"
  by (simp add: kept_def)

definition rb_at :: "rbtree \<Rightarrow> nat \<Rightarrow> rbt \<Rightarrow> crumb list \<Rightarrow> bool" where
  "rb_at T up t \<pi> \<longleftrightarrow> rb_root T = (if \<pi> = [] then ptr (rb_sentinel T) t else crumb_addr (last \<pi>)) \<and>
     tree_at (rb_heap T) (rb_sentinel T) (above up \<pi>) t \<and> path_at (rb_heap T) (rb_sentinel T) up (ptr (rb_sentinel T) t) \<pi> \<and>
     distinct (inorder t) \<and> distinct (path_addrs \<pi>) \<and> set (inorder t) \<inter> set (path_addrs \<pi>) = {} \<and>
     rb_sentinel T \<notin> set (inorder t) \<and> rb_sentinel T \<notin> set (path_addrs \<pi>) \<and>
     (\<exists>n. rb_heap T (rb_sentinel T) = Some n \<and> \<not> nd_red n)"

lemma rb_tree_plug: "rb_tree T (plug t \<pi>) \<longleftrightarrow> (\<exists>up. rb_at T up t \<pi>)"
  unfolding rb_at_def rb_tree_def set_plug distinct_plug tree_at_plug ptr_plug by auto

lemma ptr_neq: "a \<notin> set (inorder t) \<Longrightarrow> a \<noteq> s \<Longrightarrow> ptr s t \<noteq> a" "a \<notin> set (inorder t) \<Longrightarrow> a \<noteq> s \<Longrightarrow> a \<noteq> ptr s t"
  by (cases t; auto)+

lemma last_crumb: "\<pi> \<noteq> [] \<Longrightarrow> crumb_addr (last \<pi>) \<in> set (path_addrs \<pi>)"
  by (induction \<pi> rule: path_addrs.induct) auto

section \<open>Reading and painting a node\<close>

lemma rb_get_node:
  assumes "rb_tree T (plug (mk d c x a y) \<pi>)"
  shows "rb_get (kid d) a T = Some (ptr (rb_sentinel T) x)" "rb_get (kid (other d)) a T = Some (ptr (rb_sentinel T) y)"
    "ngx_rbt_is_red a T = Some c" "\<pi> \<noteq> [] \<Longrightarrow> rb_get nd_parent a T = Some (crumb_addr (hd \<pi>))"
    "a \<noteq> rb_sentinel T" "rb_root T = a \<longleftrightarrow> \<pi> = []"
proof -
  obtain up k where h: "rb_heap T a = Some \<lparr>nd_key = k, nd_left = (if d = Left_side then ptr (rb_sentinel T) x else ptr (rb_sentinel T) y),
        nd_right = (if d = Left_side then ptr (rb_sentinel T) y else ptr (rb_sentinel T) x), nd_parent = above up \<pi>, nd_red = c\<rparr>"
    using assms by (auto simp: rb_tree_plug rb_at_def tree_at_mk)
  show "rb_get (kid d) a T = Some (ptr (rb_sentinel T) x)" "rb_get (kid (other d)) a T = Some (ptr (rb_sentinel T) y)"
    "ngx_rbt_is_red a T = Some c"
    using h by (cases d; simp add: rb_get_def ngx_rbt_is_red_def)+
  show "rb_get nd_parent a T = Some (crumb_addr (hd \<pi>))" if "\<pi> \<noteq> []"
    using h that by (cases \<pi>) (simp_all add: rb_get_def)
  show "a \<noteq> rb_sentinel T" using assms by (auto simp: rb_tree_plug rb_at_def mk_inorder split: if_splits)
  show "rb_root T = a \<longleftrightarrow> \<pi> = []" using assms last_crumb [of \<pi>] by (auto simp: rb_tree_plug rb_at_def mk_inorder split: if_splits)
qed

lemma rb_paint:
  assumes "rb_tree T (plug (mk d c x a y) \<pi>)"
  shows "\<exists>T'. rb_put (nd_red_update (\<lambda>_. c')) a T = Some T' \<and> rb_tree T' (plug (mk d c' x a y) \<pi>) \<and> kept T T'"
proof -
  obtain up where at: "rb_at T up (mk d c x a y) \<pi>" using assms rb_tree_plug by blast
  then have x: "a \<notin> set (inorder x)" "a \<notin> set (inorder y)" "a \<notin> set (path_addrs \<pi>)" "a \<noteq> rb_sentinel T"
    by (auto simp: rb_at_def mk_inorder split: if_splits)
  obtain n where n: "rb_heap T a = Some n" using at by (auto simp: rb_at_def tree_at_mk)
  define T' where "T' = T\<lparr>rb_heap := (rb_heap T)(a \<mapsto> n\<lparr>nd_red := c'\<rparr>)\<rparr>"
  have "rb_at T' up (mk d c' x a y) \<pi>"
    using at x n by (auto simp: rb_at_def tree_at_mk mk_inorder T'_def split: if_splits)
  then show ?thesis using n x by (auto simp: T'_def rb_put_def rb_tree_plug kept_def)
qed

section \<open>Rotation\<close>

fun set_kid :: "side \<Rightarrow> nat \<Rightarrow> nat \<Rightarrow> rbtree \<Rightarrow> rbtree option" where
  "set_kid Left_side a p = set_left a p"
| "set_kid Right_side a p = set_right a p"

lemma kid_eta: "kid Left_side = nd_left" "kid Right_side = nd_right"
  by auto

lemma rotate_eq:
  "rotate d node T = do {
     temp \<leftarrow> rb_get (kid (other d)) node T;
     targ \<leftarrow> rb_get (kid d) temp T;
     T \<leftarrow> set_kid (other d) node targ T;
     T \<leftarrow> (if targ \<noteq> rb_sentinel T then set_parent targ node T else Some T);
     up \<leftarrow> rb_get nd_parent node T;
     T \<leftarrow> set_parent temp up T;
     T \<leftarrow> (if node = rb_root T then Some (T\<lparr>rb_root := temp\<rparr>)
           else do {
             k \<leftarrow> rb_get (kid d) up T;
             if node = k then set_kid d up temp T else set_kid (other d) up temp T });
     T \<leftarrow> set_kid d temp node T;
     set_parent node temp T }"
  by (induct d) (simp_all add: ngx_rbtree_left_rotate_def ngx_rbtree_right_rotate_def kid_eta cong: if_cong)

declare rotate.simps [simp del]

text \<open>The heap after a rotation: the moved subtree, the two nodes, and the node above.\<close>

fun reparent :: "rbt \<Rightarrow> nat \<Rightarrow> (nat \<rightharpoonup> rb_node) \<Rightarrow> (nat \<rightharpoonup> rb_node)" where
  "reparent Lf q h = h"
| "reparent (Nd c l a r) q h = h(a := map_option (nd_parent_update (\<lambda>_. q)) (h a))"

fun relink :: "crumb list \<Rightarrow> nat \<Rightarrow> (nat \<rightharpoonup> rb_node) \<Rightarrow> (nat \<rightharpoonup> rb_node)" where
  "relink [] q h = h"
| "relink (Crumb Left_side c a y # \<pi>) q h = h(a := map_option (nd_left_update (\<lambda>_. q)) (h a))"
| "relink (Crumb Right_side c a y # \<pi>) q h = h(a := map_option (nd_right_update (\<lambda>_. q)) (h a))"

lemma tree_at_reparent: "distinct (inorder t) \<Longrightarrow> tree_at h s up t \<Longrightarrow> tree_at (reparent t q h) s q t"
  by (cases t) auto

lemma path_at_relink: "distinct (path_addrs \<pi>) \<Longrightarrow> path_at h s up q \<pi> \<Longrightarrow> path_at (relink \<pi> q' h) s up q' \<pi>"
  by (cases "(\<pi>, q', h)" rule: relink.cases) auto

lemma reparent_other [simp]: "x \<notin> set (inorder t) \<Longrightarrow> reparent t q h x = h x"
  by (cases t) auto

lemma relink_other [simp]: "x \<notin> set (path_addrs \<pi>) \<Longrightarrow> relink \<pi> q h x = h x"
  by (cases "(\<pi>, q, h)" rule: relink.cases) auto

lemma relink_cong: "(\<And>x. x \<in> set (path_addrs \<pi>) \<Longrightarrow> h' x = h x) \<Longrightarrow> x \<in> set (path_addrs \<pi>) \<Longrightarrow> relink \<pi> q h' x = relink \<pi> q h x"
  by (cases "(\<pi>, q, h)" rule: relink.cases) auto

lemma tree_at_other: "(\<And>x. x \<in> set (inorder t) \<Longrightarrow> h' x = h x) \<Longrightarrow> tree_at h' s up t \<longleftrightarrow> tree_at h s up t"
  by (induction t arbitrary: up) auto

lemma path_at_other: "(\<And>x. x \<in> set (path_addrs \<pi>) \<Longrightarrow> h' x = h x) \<Longrightarrow> path_at h' s up q \<pi> \<longleftrightarrow> path_at h s up q \<pi>"
proof (induction \<pi> arbitrary: q)
  case (Cons cr \<pi>)
  obtain d c a y where cr: "cr = Crumb d c a y" by (cases cr)
  have "h' a = h a" "tree_at h' s a y = tree_at h s a y" "\<And>q. path_at h' s up q \<pi> = path_at h s up q \<pi>"
    using Cons.prems Cons.IH tree_at_other [of y h' h] by (simp_all add: cr)
  then show ?case by (simp add: cr)
qed simp

lemma reparent_key [simp]: "map_option nd_key (reparent t q h x) = map_option nd_key (h x)"
  by (cases t) (auto simp: option.map_comp comp_def)

lemma relink_key [simp]: "map_option nd_key (relink \<pi> q h x) = map_option nd_key (h x)"
  by (cases "(\<pi>, q, h)" rule: relink.cases) (auto simp: option.map_comp comp_def)

lemma rotate_heap:
  assumes at: "rb_at T up (mk d c x a (mk d c' y b z)) \<pi>"
  shows "\<exists>na nb. rb_heap T a = Some na \<and> rb_heap T b = Some nb \<and>
    rotate d a T = Some (T\<lparr>rb_root := (if \<pi> = [] then b else rb_root T),
      rb_heap := (relink \<pi> b (reparent y a (rb_heap T)))
        (b \<mapsto> (if d = Left_side then nb\<lparr>nd_parent := nd_parent na, nd_left := a\<rparr> else nb\<lparr>nd_parent := nd_parent na, nd_right := a\<rparr>),
         a \<mapsto> (if d = Left_side then na\<lparr>nd_right := ptr (rb_sentinel T) y, nd_parent := b\<rparr> else na\<lparr>nd_left := ptr (rb_sentinel T) y, nd_parent := b\<rparr>))\<rparr>)"
proof -
  define s where "s = rb_sentinel T"
  obtain na nb where n: "rb_heap T a = Some na" "rb_heap T b = Some nb"
    and f: "kid (other d) na = b" "kid d nb = ptr s y" "nd_parent na = above up \<pi>"
    using at by (cases d) (auto simp: rb_at_def tree_at_mk s_def)
  have ne: "a \<noteq> b" "b \<noteq> a" "a \<noteq> s" "b \<noteq> s" "a \<notin> set (inorder y)" "b \<notin> set (inorder y)" "s \<notin> set (inorder y)"
    "a \<notin> set (path_addrs \<pi>)" "b \<notin> set (path_addrs \<pi>)" "set (inorder y) \<inter> set (path_addrs \<pi>) = {}"
    using at by (auto simp: rb_at_def mk_inorder s_def split: if_splits)
  have root: "rb_root T = a \<longleftrightarrow> \<pi> = []" "a = rb_root T \<longleftrightarrow> \<pi> = []"
    using rb_get_node(6) at rb_tree_plug by blast+
  have y: "y = Lf \<or> (\<exists>yc yl ya yr ny. y = Nd yc yl ya yr \<and> rb_heap T ya = Some ny)"
    using at by (cases y; cases d) (auto simp: rb_at_def tree_at_mk)
  have p: "\<pi> = [] \<or> (\<exists>pd pc p w \<pi>' np. \<pi> = Crumb pd pc p w # \<pi>' \<and> rb_heap T p = Some np \<and> kid pd np = a \<and> kid (other pd) np \<noteq> a)"
  proof (cases \<pi>)
    case (Cons cr \<pi>')
    obtain pd pc p w where cr: "cr = Crumb pd pc p w" by (cases cr)
    have "ptr s w \<noteq> a" using ne Cons cr by (intro ptr_neq) auto
    then show ?thesis using at Cons cr by (cases pd) (auto simp: rb_at_def s_def)
  qed simp
  show ?thesis
    using y
  proof (elim disjE exE conjE)
    assume y: "y = Lf"
    show ?thesis using p
    proof (elim disjE exE conjE)
      assume "\<pi> = []"
      then show ?thesis using n f ne root y by (cases d) (simp_all add: rotate_eq rb_get_def rb_put_def s_def)
    next
      fix pd pc p w \<pi>' np
      assume "\<pi> = Crumb pd pc p w # \<pi>'" "rb_heap T p = Some np" "kid pd np = a" "kid (other pd) np \<noteq> a"
      then show ?thesis using n f ne root y by (cases d; cases pd) (simp_all add: rotate_eq rb_get_def rb_put_def s_def)
    qed
  next
    fix yc yl ya yr ny
    assume y: "y = Nd yc yl ya yr" "rb_heap T ya = Some ny"
    have ya: "ya \<noteq> a" "a \<noteq> ya" "ya \<noteq> b" "b \<noteq> ya" "ya \<noteq> s" "ya \<notin> set (path_addrs \<pi>)" using y ne by auto
    show ?thesis using p
    proof (elim disjE exE conjE)
      assume "\<pi> = []"
      then show ?thesis using n f ne(1-4) ya root y by (cases d) (auto simp: rotate_eq rb_get_def rb_put_def s_def intro!: rbtree.fold_congs)
    next
      fix pd pc p w \<pi>' np
      assume p: "\<pi> = Crumb pd pc p w # \<pi>'" "rb_heap T p = Some np" "kid pd np = a" "kid (other pd) np \<noteq> a"
      then have "p \<noteq> a" "p \<noteq> b" "p \<noteq> ya" "a \<noteq> p" "b \<noteq> p" "ya \<noteq> p" using ne ya by auto
      then show ?thesis using p n f ne(1-4) ya(1-5) root y by (cases d; cases pd) (simp_all add: rotate_eq rb_get_def rb_put_def s_def)
    qed
  qed
qed

lemma rb_rotate:
  assumes "rb_tree T (plug (mk d c x a (mk d c' y b z)) \<pi>)"
  shows "\<exists>T'. rotate d a T = Some T' \<and> rb_tree T' (plug (mk d c' (mk d c x a y) b z) \<pi>) \<and> kept T T'"
proof -
  obtain up where at: "rb_at T up (mk d c x a (mk d c' y b z)) \<pi>" using assms rb_tree_plug by blast
  obtain na nb T' where n: "rb_heap T a = Some na" "rb_heap T b = Some nb" and rot: "rotate d a T = Some T'"
    and T': "T' = T\<lparr>rb_root := (if \<pi> = [] then b else rb_root T), rb_heap := (relink \<pi> b (reparent y a (rb_heap T)))
        (b \<mapsto> (if d = Left_side then nb\<lparr>nd_parent := nd_parent na, nd_left := a\<rparr> else nb\<lparr>nd_parent := nd_parent na, nd_right := a\<rparr>),
         a \<mapsto> (if d = Left_side then na\<lparr>nd_right := ptr (rb_sentinel T) y, nd_parent := b\<rparr> else na\<lparr>nd_left := ptr (rb_sentinel T) y, nd_parent := b\<rparr>))\<rparr>"
    using rotate_heap [OF at] by auto
  let ?s = "rb_sentinel T" and ?h = "rb_heap T" and ?h' = "rb_heap T'"
  have ne: "a \<noteq> b" "b \<noteq> a" "a \<notin> set (inorder x)" "a \<notin> set (inorder y)" "a \<notin> set (inorder z)" "b \<notin> set (inorder x)"
    "b \<notin> set (inorder y)" "b \<notin> set (inorder z)" "a \<notin> set (path_addrs \<pi>)" "b \<notin> set (path_addrs \<pi>)"
    and dj: "set (inorder x) \<inter> set (inorder y) = {}" "set (inorder x) \<inter> set (inorder z) = {}" "set (inorder y) \<inter> set (inorder z) = {}"
    "set (inorder x) \<inter> set (path_addrs \<pi>) = {}" "set (inorder y) \<inter> set (path_addrs \<pi>) = {}" "set (inorder z) \<inter> set (path_addrs \<pi>) = {}"
    and di: "distinct (inorder x)" "distinct (inorder y)" "distinct (inorder z)" "distinct (path_addrs \<pi>)"
    and s: "?s \<notin> set (inorder x)" "?s \<notin> set (inorder y)" "?s \<notin> set (inorder z)" "?s \<notin> set (path_addrs \<pi>)" "?s \<noteq> a" "?s \<noteq> b"
    using at by (auto simp: rb_at_def mk_inorder split: if_splits)
  have t: "tree_at ?h ?s a x" "tree_at ?h ?s b y" "tree_at ?h ?s b z" "path_at ?h ?s up a \<pi>"
    using at by (simp_all add: rb_at_def tree_at_mk)
  have other: "?h' q = ?h q" if "q \<noteq> a" "q \<noteq> b" "q \<notin> set (inorder y)" "q \<notin> set (path_addrs \<pi>)" for q
    using that by (simp add: T')
  have x: "q \<noteq> a \<and> q \<noteq> b \<and> q \<notin> set (inorder y) \<and> q \<notin> set (path_addrs \<pi>)" if "q \<in> set (inorder x) \<or> q \<in> set (inorder z)" for q
    using that ne(3,5,6,8) dj(1,3-4,6) by (metis disjoint_iff)
  have y: "?h' q = reparent y a ?h q" if "q \<in> set (inorder y)" for q
  proof -
    have "q \<noteq> a" "q \<noteq> b" "q \<notin> set (path_addrs \<pi>)" using that ne(4,7) dj(5) by (metis disjoint_iff)+
    then show ?thesis by (simp add: T')
  qed
  have p: "?h' q = relink \<pi> b ?h q" if "q \<in> set (path_addrs \<pi>)" for q
  proof -
    have q: "q \<noteq> a" "q \<noteq> b" "\<And>q. q \<in> set (path_addrs \<pi>) \<Longrightarrow> q \<notin> set (inorder y)" using that ne(9,10) dj(5) by (metis disjoint_iff)+
    then have "relink \<pi> b (reparent y a ?h) q = relink \<pi> b ?h q" using that by (intro relink_cong) simp_all
    then show ?thesis using q(1,2) by (simp add: T')
  qed
  have "tree_at ?h' ?s a x" "tree_at ?h' ?s b z"
    using t(1,3) tree_at_other [of x ?h' ?h] tree_at_other [of z ?h' ?h] other x by blast+
  moreover have "tree_at ?h' ?s a y"
    using tree_at_reparent [OF di(2) t(2)] tree_at_other [of y ?h' "reparent y a ?h"] y by blast
  moreover have "path_at ?h' ?s up b \<pi>"
    using path_at_relink [OF di(4) t(4)] path_at_other [of \<pi> ?h' "relink \<pi> b ?h"] p by blast
  ultimately have "rb_at T' up (mk d c' (mk d c x a y) b z) \<pi>"
    using at n ne dj di s by (cases d) (auto simp: rb_at_def T')
  then show ?thesis using rot n ne s by (auto simp: rb_tree_plug kept_def T')
qed

end
