(* ===== verification/Ngx_Rbtree_Balance.thy ===== *)
theory Ngx_Rbtree_Balance
  imports Ngx_Rbtree
begin

text \<open>
  Correctness of the red-black tree of \<^verbatim>\<open>src/core/ngx_rbtree.c\<close>: insertion and deletion return, keep
  the links, the colours and the number of black nodes on every way down, and change the order of
  the nodes by the one node that is inserted or deleted.
\<close>

section \<open>Red-black trees\<close>

fun red :: "rbt \<Rightarrow> bool" where
  "red Lf \<longleftrightarrow> False"
| "red (Nd c l a r) \<longleftrightarrow> c"

text \<open>The number of black nodes on every way down, and no red node with a red child.\<close>

fun bal :: "rbt \<Rightarrow> nat \<Rightarrow> bool" where
  "bal Lf n \<longleftrightarrow> n = 0"
| "bal (Nd c l a r) n \<longleftrightarrow> (if c then bal l n \<and> bal r n else (\<exists>m. n = Suc m \<and> bal l m \<and> bal r m))"

fun calm :: "rbt \<Rightarrow> bool" where
  "calm Lf \<longleftrightarrow> True"
| "calm (Nd c l a r) \<longleftrightarrow> (c \<longrightarrow> \<not> red l \<and> \<not> red r) \<and> calm l \<and> calm r"

definition rb_ok :: "rbt \<Rightarrow> bool" where
  "rb_ok t \<longleftrightarrow> (\<exists>n. bal t n) \<and> calm t \<and> \<not> red t"

text \<open>The same of a path, for a hole of the given number of black nodes and colour.\<close>

fun path_bal :: "crumb list \<Rightarrow> nat \<Rightarrow> bool" where
  "path_bal [] n \<longleftrightarrow> True"
| "path_bal (Crumb d c a y # \<pi>) n \<longleftrightarrow> bal y n \<and> path_bal \<pi> (if c then n else Suc n)"

fun path_calm :: "crumb list \<Rightarrow> bool \<Rightarrow> bool" where
  "path_calm [] c \<longleftrightarrow> True"
| "path_calm (Crumb d c' a y # \<pi>) c \<longleftrightarrow> (c' \<longrightarrow> \<not> c \<and> \<not> red y) \<and> calm y \<and> path_calm \<pi> c'"

definition top_black :: "crumb list \<Rightarrow> bool" where
  "top_black \<pi> \<longleftrightarrow> (\<pi> \<noteq> [] \<longrightarrow> \<not> crumb_red (last \<pi>))"

lemma red_mk [simp]: "red (mk d c x a y) \<longleftrightarrow> c"
  by (cases d) auto

lemma bal_mk [simp]: "bal (mk d c x a y) n \<longleftrightarrow> (if c then bal x n \<and> bal y n else (\<exists>m. n = Suc m \<and> bal x m \<and> bal y m))"
  by (cases d) auto

lemma calm_mk [simp]: "calm (mk d c x a y) \<longleftrightarrow> (c \<longrightarrow> \<not> red x \<and> \<not> red y) \<and> calm x \<and> calm y"
  by (cases d) auto

lemma bal_plug: "(\<exists>n. bal (plug t \<pi>) n) \<longleftrightarrow> (\<exists>n. bal t n \<and> path_bal \<pi> n)"
  by (induction t \<pi> rule: plug.induct) auto

lemma calm_plug: "calm (plug t \<pi>) \<longleftrightarrow> calm t \<and> path_calm \<pi> (red t)"
  by (induction t \<pi> rule: plug.induct) auto

lemma red_plug: "red (plug t \<pi>) \<longleftrightarrow> (if \<pi> = [] then red t else crumb_red (last \<pi>))"
  by (induction t \<pi> rule: plug.induct) auto

lemma top_black_Cons: "top_black (c # \<pi>) \<longleftrightarrow> (if \<pi> = [] then \<not> crumb_red c else top_black \<pi>)"
  by (simp add: top_black_def)

lemma mk_other: "mk (other d) c x a y = mk d c y a x"
  by (cases d) auto

lemma mk_any: "\<exists>x' y'. mk d c x a y = mk d' c x' a y' \<and> (x' = x \<and> y' = y \<or> x' = y \<and> y' = x)"
  by (cases d; cases d') auto

lemma other_other [simp]: "other (other d) = d"
  by (cases d) auto

lemma side_cases: "d' = d \<or> d' = other d"
  by (cases d; cases d') auto

lemma nonempty_mk: "t \<noteq> Lf \<Longrightarrow> \<exists>c x a y. t = mk d c x a y"
  by (cases t; cases d; simp)

lemma inorder_rotated: "inorder (mk d c' (mk d c x a y) b z) = inorder (mk d c x a (mk d c' y b z))"
  by (cases d) auto

lemma inorder_mk_cong: "inorder x = inorder x' \<Longrightarrow> inorder y = inorder y' \<Longrightarrow> inorder (mk d c x a y) = inorder (mk d c' x' a y')"
  by (cases d) auto

lemma inorder_plug_cong: "inorder t = inorder t' \<Longrightarrow> inorder (plug t \<pi>) = inorder (plug t' \<pi>)"
proof (induction \<pi> arbitrary: t t')
  case (Cons cr \<pi>)
  obtain d c a y where cr: "cr = Crumb d c a y" by (cases cr)
  have "inorder (mk d c t a y) = inorder (mk d c t' a y)" using Cons.prems by (rule inorder_mk_cong) simp
  from Cons.IH [OF this] show ?case by (simp only: cr plug.simps)
qed simp

section \<open>Insertion\<close>

lemma black_node:
  assumes "rb_tree T (plug (mk d c x a y) \<pi>)"
  shows "\<exists>T'. ngx_rbt_black a T = Some T' \<and> rb_tree T' (plug (mk d False x a y) \<pi>) \<and> kept T T'"
  using rb_paint [OF assms] by (simp add: ngx_rbt_black_def)

lemma red_node:
  assumes "rb_tree T (plug (mk d c x a y) \<pi>)"
  shows "\<exists>T'. ngx_rbt_red a T = Some T' \<and> rb_tree T' (plug (mk d True x a y) \<pi>) \<and> kept T T'"
  using rb_paint [OF assms] by (simp add: ngx_rbt_red_def)

lemma red_at:
  assumes "rb_tree T (plug t \<pi>)"
  shows "ngx_rbt_is_red (ptr (rb_sentinel T) t) T = Some (red t)"
proof (cases t)
  case Lf
  then show ?thesis using assms by (auto simp: rb_tree_plug rb_at_def ngx_rbt_is_red_def rb_get_def)
next
  case (Nd c l a r)
  then show ?thesis using rb_get_node(3) [of T Left_side c l a r \<pi>] assms by simp
qed

lemma ptr_disjoint: "s \<notin> set (inorder x) \<Longrightarrow> s \<notin> set (inorder y) \<Longrightarrow> set (inorder x) \<inter> set (inorder y) = {} \<Longrightarrow> x \<noteq> Lf \<or> y \<noteq> Lf
  \<Longrightarrow> ptr s x \<noteq> ptr s y"
  by (cases x; cases y) auto

lemma kids_differ:
  assumes "rb_tree T (plug (mk d c x a y) \<pi>)" "x \<noteq> Lf \<or> y \<noteq> Lf"
  shows "ptr (rb_sentinel T) x \<noteq> ptr (rb_sentinel T) y"
  using assms by (intro ptr_disjoint) (auto simp: rb_tree_plug rb_at_def mk_inorder split: if_splits)

text \<open>The test for the left child tells the side.\<close>

lemma side_test:
  assumes "rb_tree T (plug (mk d c x a y) \<pi>)" "x \<noteq> Lf \<or> y \<noteq> Lf"
  shows "\<exists>l. rb_get nd_left a T = Some l \<and> (if ptr (rb_sentinel T) x = l then Left_side else Right_side) = d"
  using rb_get_node(1,2) [OF assms(1)] kids_differ [OF assms] by (cases d) (auto simp: kid_eta)

text \<open>The red uncle: both change colour with the grandparent.\<close>

lemma insert_turn_recolor:
  assumes "rb_tree T (plug (mk d False (mk d1 True t p y) g (mk e True u b v)) \<pi>)"
  shows "\<exists>T'. insert_turn d a p g T = Some (g, T') \<and> rb_tree T' (plug (mk d True (mk d1 False t p y) g (mk e False u b v)) \<pi>) \<and> kept T T'"
proof -
  let ?P = "\<lambda>c. mk d1 c t p y" and ?U = "\<lambda>c. mk e c u b v"
  have 0: "rb_tree T (plug (?P True) (Crumb d False g (?U True) # \<pi>))" using assms by simp
  obtain T1 where 1: "ngx_rbt_black p T = Some T1" "rb_tree T1 (plug (mk d False (?P False) g (?U True)) \<pi>)" "kept T T1"
    using black_node [OF 0] by auto
  have "rb_tree T1 (plug (?U True) (Crumb (other d) False g (?P False) # \<pi>))" using 1(2) by (simp add: mk_other)
  from black_node [OF this] obtain T2 where 2: "ngx_rbt_black b T1 = Some T2" "rb_tree T2 (plug (mk d False (?P False) g (?U False)) \<pi>)" "kept T1 T2"
    by (auto simp: mk_other)
  obtain T3 where 3: "ngx_rbt_red g T2 = Some T3" "rb_tree T3 (plug (mk d True (?P False) g (?U False)) \<pi>)" "kept T2 T3"
    using red_node [OF 2(2)] by auto
  have "ngx_rbt_is_red b T = Some True"
    using red_at [of T "?U True" "Crumb (other d) False g (?P True) # \<pi>"] assms by (simp add: mk_other)
  then have "insert_turn d a p g T = Some (g, T3)"
    using rb_get_node(2) [OF assms] 1(1) 2(1) 3(1) by (simp add: insert_turn_def)
  then show ?thesis using 1(3) 2(3) 3(2,3) kept_trans by blast
qed

text \<open>The black uncle: one or two rotations.\<close>

lemma insert_finish:
  assumes "rb_tree T (plug (mk d False (mk d True (mk e True u a v) p y) g w) \<pi>)"
  shows "\<exists>T'. do { par \<leftarrow> rb_get nd_parent a T; T \<leftarrow> ngx_rbt_black par T; grand \<leftarrow> rb_get nd_parent par T;
      T \<leftarrow> ngx_rbt_red grand T; T \<leftarrow> rotate (other d) grand T; Some (a, T) } = Some (a, T') \<and>
    rb_tree T' (plug (mk d False (mk e True u a v) p (mk d True y g w)) \<pi>) \<and> kept T T'"
proof -
  let ?N = "mk e True u a v"
  have 0: "rb_tree T (plug (mk d True ?N p y) (Crumb d False g w # \<pi>))" using assms by simp
  obtain T1 where 1: "ngx_rbt_black p T = Some T1" "rb_tree T1 (plug (mk d False (mk d False ?N p y) g w) \<pi>)" "kept T T1"
    using black_node [OF 0] by auto
  obtain T2 where 2: "ngx_rbt_red g T1 = Some T2" "rb_tree T2 (plug (mk d True (mk d False ?N p y) g w) \<pi>)" "kept T1 T2"
    using red_node [OF 1(2)] by auto
  have "rb_tree T2 (plug (mk (other d) True w g (mk (other d) False y p ?N)) \<pi>)" using 2(2) by (simp add: mk_other)
  from rb_rotate [OF this] obtain T3 where 3: "rotate (other d) g T2 = Some T3" "rb_tree T3 (plug (mk d False ?N p (mk d True y g w)) \<pi>)" "kept T2 T3"
    by (auto simp: mk_other)
  have pa: "rb_get nd_parent a T = Some p" using rb_get_node(4) [of T e True u a v "Crumb d True p y # Crumb d False g w # \<pi>"] assms(1) by simp
  have pg: "rb_get nd_parent p T1 = Some g" using rb_get_node(4) [of T1 d False ?N p y "Crumb d False g w # \<pi>"] 1(2) by simp
  show ?thesis using pa pg 1 2 3 by (auto intro: kept_trans)
qed

lemma black_uncle:
  assumes "rb_tree T (plug (mk d False x g w) \<pi>)" "\<not> red w"
  shows "rb_get (kid (other d)) g T = Some (ptr (rb_sentinel T) w)" "ngx_rbt_is_red (ptr (rb_sentinel T) w) T = Some False"
  using rb_get_node(2) [OF assms(1)] red_at [of T w "Crumb (other d) False g x # \<pi>"] assms by (simp_all add: mk_other)

lemma insert_turn_outer:
  assumes "rb_tree T (plug (mk d False (mk d True (mk e True u a v) p y) g w) \<pi>)" "\<not> red w"
  shows "\<exists>T'. insert_turn d a p g T = Some (a, T') \<and>
    rb_tree T' (plug (mk d False (mk e True u a v) p (mk d True y g w)) \<pi>) \<and> kept T T'"
proof -
  let ?N = "mk e True u a v"
  have 0: "rb_tree T (plug (mk d True ?N p y) (Crumb d False g w # \<pi>))" using assms by simp
  have "ptr (rb_sentinel T) ?N \<noteq> ptr (rb_sentinel T) y" using kids_differ [OF 0] by (cases e) auto
  then have "rb_get (kid (other d)) p T = Some (ptr (rb_sentinel T) y)" "a \<noteq> ptr (rb_sentinel T) y"
    using rb_get_node(2) [OF 0] by simp_all
  then show ?thesis using insert_finish [OF assms(1)] black_uncle [OF assms] by (simp add: insert_turn_def)
qed

lemma insert_turn_inner:
  assumes "rb_tree T (plug (mk d False (mk (other d) True (mk d True u a v) p y) g w) \<pi>)" "\<not> red w"
  shows "\<exists>T'. insert_turn d a p g T = Some (p, T') \<and>
    rb_tree T' (plug (mk d False (mk d True y p u) a (mk d True v g w)) \<pi>) \<and> kept T T'"
proof -
  have 0: "rb_tree T (plug (mk d True y p (mk d True u a v)) (Crumb d False g w # \<pi>))" using assms by (simp add: mk_other)
  obtain T1 where 1: "rotate d p T = Some T1" "rb_tree T1 (plug (mk d False (mk d True (mk d True y p u) a v) g w) \<pi>)" "kept T T1"
    using rb_rotate [OF 0] by auto
  have "rb_get (kid (other d)) p T = Some a" using rb_get_node(2) [OF 0] by simp
  then show ?thesis using insert_finish [OF 1(2)] black_uncle [OF assms] 1 by (auto simp: insert_turn_def intro: kept_trans)
qed

text \<open>The loop: the red node moves up two levels, or the tree is in order after a rotation.\<close>

definition settled :: "rbtree \<Rightarrow> rbt \<Rightarrow> rbtree \<Rightarrow> rbt \<Rightarrow> bool" where
  "settled T t T' t' \<longleftrightarrow> rb_tree T' t' \<and> kept T T' \<and> inorder t' = inorder t \<and> (\<exists>n. bal t' n) \<and> calm t'"

lemma insert_loop_stops:
  assumes "rb_tree T (plug (mk d c x a y) \<pi>)" "case \<pi> of [] \<Rightarrow> True | cr # _ \<Rightarrow> \<not> crumb_red cr"
  shows "insert_loop a T = Some T"
proof (cases \<pi>)
  case Nil
  then show ?thesis using rb_get_node(6) [OF assms(1)] by (subst insert_loop.simps) simp
next
  case (Cons cr \<pi>')
  obtain e ce p w where cr: "cr = Crumb e ce p w" by (cases cr)
  have "ngx_rbt_is_red p T = Some ce" using rb_get_node(3) [of T e ce "mk d c x a y" p w \<pi>'] assms(1) Cons cr by simp
  then show ?thesis using rb_get_node(4,6) [OF assms(1)] Cons cr assms(2) by (subst insert_loop.simps) simp
qed

lemma insert_loop_turn:
  assumes "rb_tree T (plug (mk e1 True x a y) (Crumb d1 True p s1 # Crumb d False g s2 # \<pi>))"
  shows "insert_loop a T = do { (node, T) \<leftarrow> insert_turn d a p g T; insert_loop node T }"
proof -
  let ?N = "mk e1 True x a y"
  have p: "rb_tree T (plug (mk d1 True ?N p s1) (Crumb d False g s2 # \<pi>))" using assms by simp
  have g: "rb_tree T (plug (mk d False (mk d1 True ?N p s1) g s2) \<pi>)" using assms by simp
  obtain l where l: "rb_get nd_left g T = Some l" "(if p = l then Left_side else Right_side) = d"
    using side_test [OF g] by (cases d1) auto
  have "ngx_rbt_is_red p T = Some True" "rb_get nd_parent p T = Some g" using rb_get_node(3,4) [OF p] by simp_all
  moreover have "rb_get nd_parent a T = Some p" "rb_root T \<noteq> a" using rb_get_node(4,6) [OF assms] by simp_all
  ultimately show ?thesis using l by (subst insert_loop.simps) (auto simp: bind_eq_None_conv)
qed

lemma insert_loop_ok:
  assumes "rb_tree T (plug (mk e True x a y) \<pi>)" "bal (mk e True x a y) n" "path_bal \<pi> n"
    "calm (mk e True x a y)" "path_calm \<pi> False" "top_black \<pi>"
  shows "\<exists>T' t'. insert_loop a T = Some T' \<and> settled T (plug (mk e True x a y) \<pi>) T' t'"
  using assms
proof (induction "length \<pi>" arbitrary: \<pi> T e x a y n rule: less_induct)
  case less
  let ?N = "mk e True x a y"
  consider "case \<pi> of [] \<Rightarrow> True | cr # _ \<Rightarrow> \<not> crumb_red cr" | d1 p s1 \<pi>1 where "\<pi> = Crumb d1 True p s1 # \<pi>1"
    by (cases \<pi>) (auto, metis crumb.exhaust_sel)
  then show ?case
  proof cases
    case 1
    have "path_calm \<pi> True" using 1 less.prems(5) by (cases \<pi> rule: path_addrs.cases) auto
    then have "calm (plug ?N \<pi>)" "\<exists>m. bal (plug ?N \<pi>) m" using less.prems(2-4) by (auto simp: calm_plug bal_plug)
    then show ?thesis using insert_loop_stops [OF less.prems(1) 1] less.prems(1) by (auto simp: settled_def)
  next
    case 2
    obtain d g s2 \<pi>2 where p: "\<pi> = Crumb d1 True p s1 # Crumb d False g s2 # \<pi>2"
      using 2 less.prems(5,6) by (cases \<pi>1 rule: path_addrs.cases) (auto simp: top_black_def)
    have tb: "top_black \<pi>2" using less.prems(6) p by (auto simp: top_black_def split: if_splits)
    have b: "bal ?N n" "bal s1 n" "bal s2 n" "path_bal \<pi>2 (Suc n)" using less.prems(2,3) p by auto
    have c: "\<not> red x" "\<not> red y" "calm x" "calm y" "\<not> red s1" "calm s1" "calm s2" "path_calm \<pi>2 False" using less.prems(4,5) p by auto
    note turn = insert_loop_turn [OF less.prems(1) [unfolded p]]
    have T: "rb_tree T (plug (mk d False (mk d1 True ?N p s1) g s2) \<pi>2)" using less.prems(1) p by simp
    show ?thesis
    proof (cases "red s2")
      case True
      then obtain u b' v where s2: "s2 = mk d True u b' v" by (cases s2; cases d) auto
      obtain T' where T': "insert_turn d a p g T = Some (g, T')"
        "rb_tree T' (plug (mk d True (mk d1 False ?N p s1) g (mk d False u b' v)) \<pi>2)" "kept T T'"
        using insert_turn_recolor [of T d d1 ?N p s1 g d u b' v \<pi>2 a] T s2 by auto
      let ?t = "mk d True (mk d1 False ?N p s1) g (mk d False u b' v)"
      have "\<exists>T'' t''. insert_loop g T' = Some T'' \<and> settled T' (plug ?t \<pi>2) T'' t''"
        by (rule less.hyps [OF _ T'(2), of "Suc n"]) (use p s2 b c tb in auto)
      moreover have "inorder (plug ?t \<pi>2) = inorder (plug ?N \<pi>)"
        unfolding p s2 plug.simps by (intro inorder_plug_cong inorder_mk_cong refl)
      ultimately show ?thesis using turn T' by (auto simp: settled_def intro: kept_trans)
    next
      case False
      consider "d1 = d" | "d1 = other d" using side_cases by blast
      then show ?thesis
      proof cases
        case 1
        obtain T' where T': "insert_turn d a p g T = Some (a, T')" "rb_tree T' (plug (mk d False ?N p (mk d True s1 g s2)) \<pi>2)" "kept T T'"
          using insert_turn_outer [of T d e x a y p s1 g s2 \<pi>2] T False 1 by auto
        have "insert_loop a T' = Some T'" using insert_loop_stops [of T' e True x a y "Crumb d False p (mk d True s1 g s2) # \<pi>2"] T'(2) by simp
        moreover have "inorder (plug (mk d False ?N p (mk d True s1 g s2)) \<pi>2) = inorder (plug ?N \<pi>)"
          unfolding p plug.simps 1 by (rule inorder_plug_cong) (cases d; simp)
        moreover have "\<exists>m. bal (plug (mk d False ?N p (mk d True s1 g s2)) \<pi>2) m" using b by (subst bal_plug) auto
        moreover have "calm (plug (mk d False ?N p (mk d True s1 g s2)) \<pi>2)" using c False by (simp add: calm_plug)
        ultimately show ?thesis using turn T' by (auto simp: settled_def)
      next
        case 2
        obtain u v where uv: "?N = mk d True u a v" "u = x \<and> v = y \<or> u = y \<and> v = x" using mk_any by metis
        let ?t = "mk d False (mk d True s1 p u) a (mk d True v g s2)"
        obtain T' where T': "insert_turn d a p g T = Some (p, T')" "rb_tree T' (plug ?t \<pi>2)" "kept T T'"
          using insert_turn_inner [of T d u a v p s1 g s2 \<pi>2] T False 2 uv(1) by auto
        have "insert_loop p T' = Some T'" using insert_loop_stops [of T' d True s1 p u "Crumb d False a (mk d True v g s2) # \<pi>2"] T'(2) by simp
        moreover have "inorder (plug ?t \<pi>2) = inorder (plug ?N \<pi>)"
          unfolding p plug.simps 2 uv(1) by (rule inorder_plug_cong) (cases d; simp)
        moreover have "bal u n" "bal v n" "calm u" "calm v" "\<not> red u" "\<not> red v" using uv(2) b(1) c by auto
        then have "\<exists>m. bal (plug ?t \<pi>2) m" "calm (plug ?t \<pi>2)" using b(2-4) c False by (subst bal_plug, auto simp: calm_plug)
        ultimately show ?thesis using turn T' by (auto simp: settled_def)
      qed
    qed
  qed
qed

section \<open>The place of a new node\<close>

definition key_of :: "rbtree \<Rightarrow> nat \<Rightarrow> u64" where
  "key_of T a = nd_key (the (rb_heap T a))"

fun spot :: "(u64 \<Rightarrow> u64 \<Rightarrow> bool) \<Rightarrow> (nat \<Rightarrow> u64) \<Rightarrow> u64 \<Rightarrow> rbt \<Rightarrow> crumb list \<Rightarrow> crumb list" where
  "spot lt K k Lf \<pi> = \<pi>"
| "spot lt K k (Nd c l b r) \<pi> =
     (if lt k (K b) then spot lt K k l (Crumb Left_side c b r # \<pi>) else spot lt K k r (Crumb Right_side c b l # \<pi>))"

lemma plug_spot: "plug Lf (spot lt K k t \<pi>) = plug t \<pi>"
  by (induction t arbitrary: \<pi>) auto

lemma spot_nonempty: "t \<noteq> Lf \<or> \<pi> \<noteq> [] \<Longrightarrow> spot lt K k t \<pi> \<noteq> []"
  by (induction t arbitrary: \<pi>) auto

lemma rb_attach:
  assumes "rb_tree T (plug Lf (Crumb d c b y # \<pi>))" "node \<notin> set (inorder (plug Lf (Crumb d c b y # \<pi>)))"
    "node \<noteq> rb_sentinel T" "rb_heap T node = Some nn"
  shows "\<exists>T'. do {
      T \<leftarrow> (if d = Left_side then set_left b node T else set_right b node T);
      T \<leftarrow> set_parent node b T;
      T \<leftarrow> set_left node (rb_sentinel T) T;
      T \<leftarrow> set_right node (rb_sentinel T) T;
      ngx_rbt_red node T } = Some T' \<and> rb_tree T' (plug (Nd True Lf node Lf) (Crumb d c b y # \<pi>)) \<and> kept T T'"
proof -
  obtain up where at: "rb_at T up Lf (Crumb d c b y # \<pi>)" using assms(1) rb_tree_plug by blast
  let ?s = "rb_sentinel T"
  have ne: "node \<noteq> b" "b \<noteq> node" "node \<notin> set (inorder y)" "node \<notin> set (path_addrs \<pi>)"
    using assms(2) unfolding set_plug by auto
  obtain nb where nb: "rb_heap T b = Some nb" using at by (auto simp: rb_at_def)
  define T' where "T' = T\<lparr>rb_heap := (relink (Crumb d c b y # \<pi>) node (rb_heap T))
    (node \<mapsto> nn\<lparr>nd_parent := b, nd_left := ?s, nd_right := ?s, nd_red := True\<rparr>)\<rparr>"
  have "path_at (relink (Crumb d c b y # \<pi>) node (rb_heap T)) ?s up node (Crumb d c b y # \<pi>)"
    using at by (intro path_at_relink [where q = ?s]) (auto simp: rb_at_def)
  then have "path_at (rb_heap T') ?s up node (Crumb d c b y # \<pi>)"
    using ne by (simp add: T'_def)
  then have "rb_at T' up (Nd True Lf node Lf) (Crumb d c b y # \<pi>)"
    using at ne assms(3) by (cases d; cases nn) (auto simp: rb_at_def T'_def)
  moreover have "kept T T'" using assms(3,4) nb at ne by (cases d) (auto simp: kept_def T'_def rb_at_def)
  moreover have "do {
      T \<leftarrow> (if d = Left_side then set_left b node T else set_right b node T);
      T \<leftarrow> set_parent node b T;
      T \<leftarrow> set_left node (rb_sentinel T) T;
      T \<leftarrow> set_right node (rb_sentinel T) T;
      ngx_rbt_red node T } = Some T'"
    using nb assms(4) ne by (cases d) (simp_all add: rb_put_def ngx_rbt_red_def T'_def)
  ultimately show ?thesis using rb_tree_plug by blast
qed

lemma insert_walk_ok:
  assumes "rb_tree T (plug t \<pi>)" "t \<noteq> Lf" "node \<notin> set (inorder (plug t \<pi>))" "node \<noteq> rb_sentinel T" "rb_heap T node = Some nn"
  shows "\<exists>T'. insert_walk lt (ptr (rb_sentinel T) t) node T = Some T' \<and>
    rb_tree T' (plug (Nd True Lf node Lf) (spot lt (key_of T) (nd_key nn) t \<pi>)) \<and> kept T T'"
  using assms
proof (induction t arbitrary: \<pi>)
  case (Nd c l b r)
  obtain nb where nb: "rb_heap T b = Some nb" using Nd.prems(1) by (auto simp: rb_tree_plug rb_at_def)
  define d where "d = (if lt (nd_key nn) (nd_key nb) then Left_side else Right_side)"
  define x where "x = (if d = Left_side then l else r)"
  define y where "y = (if d = Left_side then r else l)"
  have mk: "Nd c l b r = mk d c x b y" by (cases d) (simp_all add: x_def y_def)
  have sp: "spot lt (key_of T) (nd_key nn) (Nd c l b r) \<pi> = spot lt (key_of T) (nd_key nn) x (Crumb d c b y # \<pi>)"
    using nb by (simp add: key_of_def d_def x_def y_def)
  have T: "rb_tree T (plug x (Crumb d c b y # \<pi>))" "node \<notin> set (inorder (plug x (Crumb d c b y # \<pi>)))"
    using Nd.prems(1,3) unfolding mk by simp_all
  have kid: "rb_get (kid d) b T = Some (ptr (rb_sentinel T) x)" using rb_get_node(1) [of T d c x b y \<pi>] T by simp
  have walk: "insert_walk lt b node T = (if ptr (rb_sentinel T) x = rb_sentinel T then do {
       T \<leftarrow> (if d = Left_side then set_left b node T else set_right b node T);
       T \<leftarrow> set_parent node b T;
       T \<leftarrow> set_left node (rb_sentinel T) T;
       T \<leftarrow> set_right node (rb_sentinel T) T;
       ngx_rbt_red node T }
     else insert_walk lt (ptr (rb_sentinel T) x) node T)"
    using nb Nd.prems(5) kid by (subst insert_walk.simps) (simp add: rb_get_def d_def [symmetric] cong: if_cong)
  have sx: "ptr (rb_sentinel T) x = rb_sentinel T \<longleftrightarrow> x = Lf"
    using T(1) by (cases x) (auto simp: rb_tree_plug rb_at_def mk_inorder split: if_splits)
  show ?case
  proof (cases "x = Lf")
    case True
    then show ?thesis using rb_attach [of T d c b y \<pi> node nn] T Nd.prems(4,5) walk sp by (simp cong: if_cong)
  next
    case False
    have "\<exists>T'. insert_walk lt (ptr (rb_sentinel T) x) node T = Some T' \<and>
      rb_tree T' (plug (Nd True Lf node Lf) (spot lt (key_of T) (nd_key nn) x (Crumb d c b y # \<pi>))) \<and> kept T T'"
      using Nd.IH(1) [of "Crumb d c b y # \<pi>"] Nd.IH(2) [of "Crumb d c b y # \<pi>"] T False Nd.prems(4,5) by (auto simp: x_def split: if_splits)
    then show ?thesis using walk sp sx False by simp
  qed
qed simp

text \<open>The place in the order: before the first node whose key is greater.\<close>

definition insort_at :: "(u64 \<Rightarrow> u64 \<Rightarrow> bool) \<Rightarrow> (nat \<Rightarrow> u64) \<Rightarrow> nat \<Rightarrow> nat list \<Rightarrow> nat list" where
  "insort_at lt K a xs = takeWhile (\<lambda>b. \<not> lt (K a) (K b)) xs @ a # dropWhile (\<lambda>b. \<not> lt (K a) (K b)) xs"

definition placeable :: "(u64 \<Rightarrow> u64 \<Rightarrow> bool) \<Rightarrow> (nat \<Rightarrow> u64) \<Rightarrow> nat \<Rightarrow> nat list \<Rightarrow> bool" where
  "placeable lt K a xs \<longleftrightarrow> sorted_wrt (\<lambda>b b'. lt (K a) (K b) \<longrightarrow> lt (K a) (K b')) xs"

lemma insort_at_split:
  assumes "placeable lt K a (xs @ b # ys)"
  shows "insort_at lt K a (xs @ b # ys) = (if lt (K a) (K b) then insort_at lt K a xs @ b # ys else xs @ b # insort_at lt K a ys)"
proof (cases "lt (K a) (K b)")
  case True
  have "takeWhile P (xs @ b # ys) = takeWhile P xs" "dropWhile P (xs @ b # ys) = dropWhile P xs @ b # ys" if "\<not> P b" for P
    using that by (induction xs) auto
  then show ?thesis using True by (simp add: insort_at_def)
next
  case False
  then have "\<forall>x\<in>set xs. \<not> lt (K a) (K x)" using assms by (auto simp: placeable_def sorted_wrt_append)
  then show ?thesis using False by (simp add: insort_at_def takeWhile_append dropWhile_append)
qed

fun before :: "crumb list \<Rightarrow> nat list" where
  "before [] = []"
| "before (Crumb d c a y # \<pi>) = before \<pi> @ (if d = Left_side then [] else inorder y @ [a])"

fun behind :: "crumb list \<Rightarrow> nat list" where
  "behind [] = []"
| "behind (Crumb d c a y # \<pi>) = (if d = Left_side then a # inorder y else []) @ behind \<pi>"

lemma inorder_plug: "inorder (plug t \<pi>) = before \<pi> @ inorder t @ behind \<pi>"
  by (induction t \<pi> rule: plug.induct) (auto simp: mk_inorder)

lemma placeable_append: "placeable lt K a (xs @ ys) \<Longrightarrow> placeable lt K a xs \<and> placeable lt K a ys"
  by (simp add: placeable_def sorted_wrt_append)

lemma inorder_spot:
  assumes "placeable lt K a (inorder t)"
  shows "inorder (plug (Nd True Lf a Lf) (spot lt K (K a) t \<pi>)) = before \<pi> @ insort_at lt K a (inorder t) @ behind \<pi>"
  using assms
proof (induction t arbitrary: \<pi>)
  case (Nd c l b r)
  then have "placeable lt K a (inorder l)" "placeable lt K a (inorder r)"
    using placeable_append [of lt K a "inorder l" "b # inorder r"] by (simp_all add: placeable_def)
  then show ?case using Nd insort_at_split [of lt K a "inorder l" b "inorder r"] by simp
qed (simp add: inorder_plug insort_at_def)

section \<open>Insertion keeps the tree\<close>

lemma blacken_root:
  assumes "rb_tree T t" "t \<noteq> Lf" "bal t n" "calm t"
  shows "\<exists>T' t'. ngx_rbt_black (rb_root T) T = Some T' \<and> rb_tree T' t' \<and> kept T T' \<and> inorder t' = inorder t \<and> rb_ok t'"
proof -
  obtain c l a r where t: "t = mk Left_side c l a r" using nonempty_mk [OF assms(2)] by blast
  then obtain T' where "ngx_rbt_black a T = Some T'" "rb_tree T' (mk Left_side False l a r)" "kept T T'"
    using black_node [of T Left_side c l a r "[]"] assms(1) by auto
  moreover have "rb_ok (mk Left_side False l a r)" using assms(3,4) t by (cases c) (auto simp: rb_ok_def)
  ultimately show ?thesis using assms(1) t by (intro exI [of _ T'] exI [of _ "mk Left_side False l a r"]) (auto simp: rb_tree_def)
qed

lemma rb_insert:
  assumes T: "rb_tree T t" "rb_ok t" and node: "node \<notin> set (inorder t)" "node \<noteq> rb_sentinel T" "rb_heap T node \<noteq> None"
    and place: "placeable lt (key_of T) node (inorder t)"
  shows "\<exists>T' t'. ngx_rbtree_insert (insert_walk lt) node T = Some T' \<and> rb_tree T' t' \<and> kept T T' \<and> rb_ok t' \<and>
    inorder t' = insort_at lt (key_of T) node (inorder t)"
proof (cases "t = Lf")
  case True
  obtain nn where nn: "rb_heap T node = Some nn" using node(3) by blast
  define T' where "T' = T\<lparr>rb_root := node, rb_heap := (rb_heap T)(node \<mapsto> nn\<lparr>nd_parent := 0, nd_left := rb_sentinel T, nd_right := rb_sentinel T, nd_red := False\<rparr>)\<rparr>"
  have "rb_root T = rb_sentinel T" using T True by (simp add: rb_tree_def)
  then have "ngx_rbtree_insert (insert_walk lt) node T = Some T'"
    using nn by (simp add: ngx_rbtree_insert_def rb_put_def ngx_rbt_black_def T'_def)
  moreover have "rb_tree T' (Nd False Lf node Lf)" using T node(2) True by (cases nn) (auto simp: rb_tree_def T'_def)
  moreover have "kept T T'" using nn node(2) by (auto simp: kept_def T'_def)
  moreover have "rb_ok (Nd False Lf node Lf)" by (simp add: rb_ok_def)
  ultimately show ?thesis using True
    by (intro exI [of _ T'] exI [of _ "Nd False Lf node Lf"]) (simp add: insort_at_def)
next
  case False
  obtain nn where nn: "rb_heap T node = Some nn" using node(3) by blast
  then have k: "nd_key nn = key_of T node" by (simp add: key_of_def)
  define \<pi> where "\<pi> = spot lt (key_of T) (key_of T node) t []"
  let ?N = "mk Left_side True Lf node Lf"
  have root: "rb_root T \<noteq> rb_sentinel T" "ptr (rb_sentinel T) t = rb_root T" using T(1) False by (cases t; auto simp: rb_tree_def)+
  obtain T1 where 1: "insert_walk lt (rb_root T) node T = Some T1" "rb_tree T1 (plug ?N \<pi>)" "kept T T1"
    using insert_walk_ok [of T t "[]" node nn lt] T(1) False node(1,2) nn root(2) k by (auto simp: \<pi>_def)
  have pl: "plug Lf \<pi> = t" by (simp add: \<pi>_def plug_spot)
  have "path_bal \<pi> 0" "path_calm \<pi> False" using T(2) bal_plug [of Lf \<pi>] calm_plug [of Lf \<pi>] by (simp_all add: pl rb_ok_def)
  moreover have "top_black \<pi>" using T(2) red_plug [of Lf \<pi>] by (simp add: pl rb_ok_def top_black_def split: if_splits)
  ultimately obtain T2 t2 where 2: "insert_loop node T1 = Some T2" "settled T1 (plug ?N \<pi>) T2 t2"
    using insert_loop_ok [OF 1(2), of 0] by auto
  then obtain n where t2: "rb_tree T2 t2" "bal t2 n" "calm t2" "inorder t2 = inorder (plug ?N \<pi>)" "kept T1 T2" by (auto simp: settled_def)
  then have "t2 \<noteq> Lf" by (auto simp: inorder_plug)
  from blacken_root [OF t2(1) this t2(2,3)] obtain T3 t3 where 3: "ngx_rbt_black (rb_root T2) T2 = Some T3" "rb_tree T3 t3" "kept T2 T3"
    "inorder t3 = inorder t2" "rb_ok t3" by blast
  have "inorder (plug ?N \<pi>) = insort_at lt (key_of T) node (inorder t)"
    using inorder_spot [OF place, of "[]"] by (simp add: \<pi>_def)
  moreover have "ngx_rbtree_insert (insert_walk lt) node T = Some T3"
    using root 1(1) 2(1) 3(1) by (simp add: ngx_rbtree_insert_def)
  moreover have "kept T T3" using 1(3) t2(5) 3(3) kept_trans by blast
  ultimately show ?thesis using 3 t2(4) by auto
qed

section \<open>Deletion: the fix-up\<close>

text \<open>
  The subtree \<open>t\<close> at the hole lacks one black node. When it is empty, the parent pointer of the
  sentinel leads back.
\<close>

definition sent :: "rbtree \<Rightarrow> rbt \<Rightarrow> nat \<Rightarrow> bool" where
  "sent T t p \<longleftrightarrow> (t = Lf \<longrightarrow> rb_get nd_parent (rb_sentinel T) T = Some p)"

lemma sent_kept: "sent T t p \<Longrightarrow> kept T T' \<Longrightarrow> sent T' t p"
  by (simp add: sent_def kept_def rb_get_def)

lemma sentinel_kept: "kept T T' \<Longrightarrow> rb_sentinel T' = rb_sentinel T"
  by (simp add: kept_def)

lemma parent_at:
  assumes "rb_tree T (plug (mk d c t p y) \<pi>)" "sent T t p"
  shows "rb_get nd_parent (ptr (rb_sentinel T) t) T = Some p"
proof (cases t)
  case Lf
  then show ?thesis using assms(2) by (simp add: sent_def)
next
  case (Nd tc l a r)
  then show ?thesis using rb_get_node(4) [of T Left_side tc l a r "Crumb d c p y # \<pi>"] assms(1) by simp
qed

lemma root_at:
  assumes "rb_tree T (plug t \<pi>)"
  shows "rb_root T = ptr (rb_sentinel T) t \<longleftrightarrow> \<pi> = []"
proof (cases t)
  case Lf
  then show ?thesis using assms last_crumb [of \<pi>] by (auto simp: rb_tree_plug rb_at_def)
next
  case (Nd tc l a r)
  then show ?thesis using rb_get_node(6) [of T Left_side tc l a r \<pi>] assms by simp
qed

lemma copy_color_at:
  assumes "rb_tree T (plug (mk d c t p (mk e cb y b z)) \<pi>)"
  shows "\<exists>T'. ngx_rbt_copy_color b p T = Some T' \<and> rb_tree T' (plug (mk d c t p (mk e c y b z)) \<pi>) \<and> kept T T'"
proof -
  have "rb_tree T (plug (mk e cb y b z) (Crumb (other d) c p t # \<pi>))" using assms by (simp add: mk_other)
  from rb_paint [OF this, of c] obtain T' where "rb_put (nd_red_update (\<lambda>_. c)) b T = Some T'" "rb_tree T' (plug (mk d c t p (mk e c y b z)) \<pi>)" "kept T T'"
    by (auto simp: mk_other)
  then show ?thesis using rb_get_node(3) [OF assms] by (simp add: ngx_rbt_copy_color_def ngx_rbt_is_red_def)
qed

text \<open>Painting the sibling of the hole, or one of its children.\<close>

lemma paint_sibling:
  assumes "rb_tree T (plug (mk d c t p (mk e cb y b z)) \<pi>)"
  shows "\<exists>T'. rb_put (nd_red_update (\<lambda>_. cb')) b T = Some T' \<and> rb_tree T' (plug (mk d c t p (mk e cb' y b z)) \<pi>) \<and> kept T T'"
proof -
  have "rb_tree T (plug (mk e cb y b z) (Crumb (other d) c p t # \<pi>))" using assms by (simp add: mk_other)
  from rb_paint [OF this, of cb'] show ?thesis by (auto simp: mk_other)
qed

lemma paint_nephew:
  assumes "rb_tree T (plug (mk d c t p (mk e cb (mk e' cy u m v) b z)) \<pi>)"
  shows "\<exists>T'. rb_put (nd_red_update (\<lambda>_. cy')) m T = Some T' \<and> rb_tree T' (plug (mk d c t p (mk e cb (mk e' cy' u m v) b z)) \<pi>) \<and> kept T T'"
proof -
  have "rb_tree T (plug (mk e' cy u m v) (Crumb e cb b z # Crumb (other d) c p t # \<pi>))" using assms by (simp add: mk_other)
  from rb_paint [OF this, of cy'] show ?thesis by (auto simp: mk_other)
qed

lemma rotate_sibling:
  assumes "rb_tree T (plug (mk d c t p (mk d cb (mk d cm u m v) b z)) \<pi>)"
  shows "\<exists>T'. rotate (other d) b T = Some T' \<and> rb_tree T' (plug (mk d c t p (mk d cm u m (mk d cb v b z))) \<pi>) \<and> kept T T'"
proof -
  have "rb_tree T (plug (mk (other d) cb z b (mk (other d) cm v m u)) (Crumb (other d) c p t # \<pi>))" using assms by (simp add: mk_other)
  from rb_rotate [OF this] show ?thesis by (auto simp: mk_other)
qed

lemma delete_outer_ok:
  assumes "rb_tree T (plug (mk d c t p (mk d cb y b (mk e cz u m v))) \<pi>)" "sent T t p"
  shows "\<exists>T'. delete_outer d (ptr (rb_sentinel T) t) b T = Some (rb_root T', T') \<and>
    rb_tree T' (plug (mk d c (mk d False t p y) b (mk e False u m v)) \<pi>) \<and> kept T T'"
proof -
  obtain T1 where 1: "ngx_rbt_copy_color b p T = Some T1" "rb_tree T1 (plug (mk d c t p (mk d c y b (mk e cz u m v))) \<pi>)" "kept T T1"
    using copy_color_at [OF assms(1)] by blast
  obtain T2 where 2: "ngx_rbt_black p T1 = Some T2" "rb_tree T2 (plug (mk d False t p (mk d c y b (mk e cz u m v))) \<pi>)" "kept T1 T2"
    using black_node [OF 1(2)] by blast
  have "rb_tree T2 (plug (mk d c y b (mk e cz u m v)) (Crumb (other d) False p t # \<pi>))" using 2(2) by (simp add: mk_other)
  from rb_get_node(2) [OF this] have outer: "rb_get (kid (other d)) b T2 = Some m" by simp
  have "rb_tree T2 (plug (mk d False t p (mk (other d) c (mk e cz u m v) b y)) \<pi>)" using 2(2) by (simp add: mk_other)
  from paint_nephew [OF this, of False] obtain T3 where 3: "ngx_rbt_black m T2 = Some T3"
    "rb_tree T3 (plug (mk d False t p (mk d c y b (mk e False u m v))) \<pi>)" "kept T2 T3"
    by (auto simp: mk_other ngx_rbt_black_def)
  obtain T4 where 4: "rotate d p T3 = Some T4" "rb_tree T4 (plug (mk d c (mk d False t p y) b (mk e False u m v)) \<pi>)" "kept T3 T4"
    using rb_rotate [OF 3(2)] by blast
  have "delete_outer d (ptr (rb_sentinel T) t) b T = Some (rb_root T4, T4)"
    using parent_at [OF assms] 1(1) 2(1) outer 3(1) 4(1) by (simp add: delete_outer_def)
  then show ?thesis using 1(3) 2(3) 3(3) 4(2,3) kept_trans by blast
qed

lemma delete_sibling_black:
  assumes "rb_tree T (plug (mk d c t p (mk e False y b z)) \<pi>)" "sent T t p"
  shows "delete_sibling d (ptr (rb_sentinel T) t) T = Some (b, T)"
proof -
  have "ngx_rbt_is_red b T = Some False"
    using rb_get_node(3) [of T e False y b z "Crumb (other d) c p t # \<pi>"] assms(1) by (simp add: mk_other)
  then show ?thesis using parent_at [OF assms] rb_get_node(2) [OF assms(1)] by (simp add: delete_sibling_def)
qed

lemma delete_sibling_red:
  assumes "rb_tree T (plug (mk d False t p (mk d True (mk d False y1 b z1) w z)) \<pi>)" "sent T t p"
  shows "\<exists>T'. delete_sibling d (ptr (rb_sentinel T) t) T = Some (b, T') \<and>
    rb_tree T' (plug (mk d True t p (mk d False y1 b z1)) (Crumb d False w z # \<pi>)) \<and> kept T T'"
proof -
  let ?y = "mk d False y1 b z1"
  have "ngx_rbt_is_red w T = Some True"
    using rb_get_node(3) [of T d True ?y w z "Crumb (other d) False p t # \<pi>"] assms(1) by (simp add: mk_other)
  moreover obtain T1 where 1: "ngx_rbt_black w T = Some T1" "rb_tree T1 (plug (mk d False t p (mk d False ?y w z)) \<pi>)" "kept T T1"
    using paint_sibling [OF assms(1), of False] by (auto simp: ngx_rbt_black_def)
  moreover obtain T2 where 2: "ngx_rbt_red p T1 = Some T2" "rb_tree T2 (plug (mk d True t p (mk d False ?y w z)) \<pi>)" "kept T1 T2"
    using red_node [OF 1(2)] by blast
  moreover obtain T3 where 3: "rotate d p T2 = Some T3" "rb_tree T3 (plug (mk d False (mk d True t p ?y) w z) \<pi>)" "kept T2 T3"
    using rb_rotate [OF 2(2)] by blast
  moreover have k: "kept T T3" using 1(3) 2(3) 3(3) kept_trans by blast
  moreover have T3: "rb_tree T3 (plug (mk d True t p ?y) (Crumb d False w z # \<pi>))" using 3(2) by simp
  moreover have "rb_get nd_parent (ptr (rb_sentinel T) t) T3 = Some p" "rb_get (kid (other d)) p T3 = Some b"
    using parent_at [OF T3 sent_kept [OF assms(2) k]] sentinel_kept [OF k] rb_get_node(2) [OF T3] by simp_all
  ultimately show ?thesis using parent_at [OF assms] rb_get_node(2) [OF assms(1)] by (simp add: delete_sibling_def)
qed

text \<open>After the sibling is black: its children decide.\<close>

lemma delete_turn_cases:
  assumes sib: "delete_sibling d temp T0 = Some (b, T)" and temp: "temp = ptr (rb_sentinel T) t"
    and T: "rb_tree T (plug (mk d c t p (mk d False y b z)) \<pi>)" and sent: "sent T t p"
  shows "\<not> red y \<Longrightarrow> \<not> red z \<Longrightarrow> \<exists>T'. delete_turn d temp T0 = Some (p, T') \<and> rb_tree T' (plug (mk d c t p (mk d True y b z)) \<pi>) \<and> kept T T'"
    and "red y \<or> red z \<Longrightarrow> \<exists>T' x. delete_turn d temp T0 = Some (rb_root T', T') \<and> rb_tree T' (plug x \<pi>) \<and> kept T T' \<and> red x = c \<and>
      inorder x = inorder (mk d c t p (mk d False y b z)) \<and>
      (\<forall>n. bal t n \<longrightarrow> bal y n \<longrightarrow> bal z n \<longrightarrow> bal x (if c then Suc n else Suc (Suc n))) \<and> (calm t \<longrightarrow> calm y \<longrightarrow> calm z \<longrightarrow> calm x)"
proof -
  have W: "rb_tree T (plug (mk d False y b z) (Crumb (other d) c p t # \<pi>))" using T by (simp add: mk_other)
  have kids: "rb_get (kid d) b T = Some (ptr (rb_sentinel T) y)" "rb_get (kid (other d)) b T = Some (ptr (rb_sentinel T) z)"
    using rb_get_node(1,2) [OF W] by simp_all
  have reds: "ngx_rbt_is_red (ptr (rb_sentinel T) y) T = Some (red y)" "ngx_rbt_is_red (ptr (rb_sentinel T) z) T = Some (red z)"
    using red_at [of T y "Crumb d False b z # Crumb (other d) c p t # \<pi>"] red_at [of T z "Crumb (other d) False b y # Crumb (other d) c p t # \<pi>"] W
    by (simp_all add: mk_other)
  note start = sib kids reds
  show "\<exists>T'. delete_turn d temp T0 = Some (p, T') \<and> rb_tree T' (plug (mk d c t p (mk d True y b z)) \<pi>) \<and> kept T T'"
    if black: "\<not> red y" "\<not> red z"
  proof -
    obtain T' where T': "ngx_rbt_red b T = Some T'" "rb_tree T' (plug (mk d c t p (mk d True y b z)) \<pi>)" "kept T T'"
      using paint_sibling [OF T, of True] by (auto simp: ngx_rbt_red_def)
    have "rb_get nd_parent temp T' = Some p"
      using parent_at [OF T'(2) sent_kept [OF sent T'(3)]] sentinel_kept [OF T'(3)] temp by simp
    then show ?thesis using start black T' by (simp add: delete_turn_def)
  qed
  show "\<exists>T' x. delete_turn d temp T0 = Some (rb_root T', T') \<and> rb_tree T' (plug x \<pi>) \<and> kept T T' \<and> red x = c \<and>
      inorder x = inorder (mk d c t p (mk d False y b z)) \<and>
      (\<forall>n. bal t n \<longrightarrow> bal y n \<longrightarrow> bal z n \<longrightarrow> bal x (if c then Suc n else Suc (Suc n))) \<and> (calm t \<longrightarrow> calm y \<longrightarrow> calm z \<longrightarrow> calm x)"
    if redk: "red y \<or> red z"
  proof (cases "red z")
    case True
    then obtain u m v where z: "z = mk d True u m v" by (cases z; cases d) auto
    let ?x = "mk d c (mk d False t p y) b (mk d False u m v)"
    obtain T' where "delete_outer d temp b T = Some (rb_root T', T')" "rb_tree T' (plug ?x \<pi>)" "kept T T'"
      using delete_outer_ok [of T d c t p False y b d True u m v \<pi>] T sent z temp by auto
    moreover have "inorder ?x = inorder (mk d c t p (mk d False y b z))" by (cases d) (simp_all add: z)
    ultimately show ?thesis using start True by (intro exI [of _ T'] exI [of _ ?x]) (simp add: delete_turn_def z)
  next
    case False
    then have ry: "red y" using redk by simp
    then obtain u m v where y: "y = mk d True u m v" by (cases y; cases d) auto
    let ?x = "mk d c (mk d False t p u) m (mk d False v b z)"
    obtain T1 where 1: "ngx_rbt_black m T = Some T1" "rb_tree T1 (plug (mk d c t p (mk d False (mk d False u m v) b z)) \<pi>)" "kept T T1"
      using paint_nephew [OF T [unfolded y], of False] by (auto simp: ngx_rbt_black_def)
    obtain T2 where 2: "ngx_rbt_red b T1 = Some T2" "rb_tree T2 (plug (mk d c t p (mk d True (mk d False u m v) b z)) \<pi>)" "kept T1 T2"
      using paint_sibling [OF 1(2), of True] by (auto simp: ngx_rbt_red_def)
    obtain T3 where 3: "rotate (other d) b T2 = Some T3" "rb_tree T3 (plug (mk d c t p (mk d False u m (mk d True v b z))) \<pi>)" "kept T2 T3"
      using rotate_sibling [OF 2(2)] by blast
    have k: "kept T T3" using 1(3) 2(3) 3(3) kept_trans by blast
    then have sk: "sent T3 t p" "temp = ptr (rb_sentinel T3) t" using sent sent_kept temp sentinel_kept by auto
    then obtain T4 where 4: "delete_outer d temp m T3 = Some (rb_root T4, T4)" "rb_tree T4 (plug ?x \<pi>)" "kept T3 T4"
      using delete_outer_ok [OF 3(2) sk(1)] by auto
    have "rb_get nd_parent temp T3 = Some p" "rb_get (kid (other d)) p T3 = Some m"
      using parent_at [OF 3(2) sk(1)] sk(2) rb_get_node(2) [OF 3(2)] by simp_all
    then have "delete_turn d temp T0 = Some (rb_root T4, T4)"
      using start False ry 1(1) 2(1) 3(1) 4(1) by (simp add: delete_turn_def y)
    moreover have "inorder ?x = inorder (mk d c t p (mk d False y b z))" by (cases d) (simp_all add: y)
    ultimately show ?thesis using 4(2) kept_trans [OF k 4(3)] False
      by (intro exI [of _ T4] exI [of _ ?x]) (simp add: y)
  qed
qed

text \<open>The loop together with the last painting.\<close>

fun almost :: "rbt \<Rightarrow> bool" where
  "almost Lf \<longleftrightarrow> True"
| "almost (Nd c l a r) \<longleftrightarrow> calm l \<and> calm r"

lemma almost_mk [simp]: "almost (mk d c x a y) \<longleftrightarrow> calm x \<and> calm y"
  by (cases d) auto

lemma calm_almost: "almost t \<Longrightarrow> \<not> red t \<Longrightarrow> calm t" "calm t \<Longrightarrow> almost t"
  by (cases t; simp)+

lemma path_calm_False: "path_calm \<pi> c \<Longrightarrow> path_calm \<pi> False"
  by (cases \<pi> rule: path_addrs.cases) auto

definition fixup :: "nat \<Rightarrow> rbtree \<Rightarrow> rbtree option" where
  "fixup temp T = do { (temp, T) \<leftarrow> delete_loop temp T; ngx_rbt_black temp T }"

definition repaired :: "rbtree \<Rightarrow> nat list \<Rightarrow> rbtree option \<Rightarrow> bool" where
  "repaired T xs r \<longleftrightarrow> (\<exists>T' t'. r = Some T' \<and> rb_tree T' t' \<and> kept T T' \<and> rb_ok t' \<and> inorder t' = xs)"

lemma repairedI: "r = Some T' \<Longrightarrow> rb_tree T' t' \<Longrightarrow> kept T T' \<Longrightarrow> rb_ok t' \<Longrightarrow> inorder t' = xs \<Longrightarrow> repaired T xs r"
  by (auto simp: repaired_def)

lemma repaired_kept: "repaired T' xs r \<Longrightarrow> kept T T' \<Longrightarrow> repaired T xs r"
  using kept_trans by (auto simp: repaired_def)

lemma fixup_exit:
  assumes T: "rb_tree T (plug t \<pi>)" and stop: "\<pi> = [] \<or> red t" and b: "bal t n" "path_bal \<pi> (Suc n)"
    and c: "almost t" "path_calm \<pi> False" "top_black \<pi>"
  shows "repaired T (inorder (plug t \<pi>)) (fixup (ptr (rb_sentinel T) t) T)"
proof -
  have fx: "fixup (ptr (rb_sentinel T) t) T = ngx_rbt_black (ptr (rb_sentinel T) t) T"
    using stop root_at [OF T] red_at [OF T] by (subst fixup_def, subst delete_loop.simps) auto
  show ?thesis
  proof (cases t)
    case Lf
    then have p: "\<pi> = []" using stop by simp
    obtain n where "rb_heap T (rb_sentinel T) = Some n" "\<not> nd_red n" using T by (auto simp: rb_tree_plug rb_at_def)
    then have "ngx_rbt_black (rb_sentinel T) T = Some T"
      by (cases n) (auto simp: ngx_rbt_black_def rb_put_def fun_upd_idem)
    then show ?thesis using fx T Lf p by (intro repairedI [of _ T Lf]) (auto simp: rb_ok_def)
  next
    case (Nd tc l a r)
    then have t: "t = mk Left_side tc l a r" by simp
    obtain T' where T': "ngx_rbt_black a T = Some T'" "rb_tree T' (plug (mk Left_side False l a r) \<pi>)" "kept T T'"
      using black_node [of T Left_side tc l a r \<pi>] T t by auto
    have "inorder (plug (mk Left_side False l a r) \<pi>) = inorder (plug t \<pi>)" by (simp add: t inorder_plug)
    moreover have "\<exists>m. bal (mk Left_side False l a r) m \<and> path_bal \<pi> m"
      using b stop t by (cases tc) auto
    then have "\<exists>m. bal (plug (mk Left_side False l a r) \<pi>) m" by (subst bal_plug)
    moreover have "calm (plug (mk Left_side False l a r) \<pi>)" using c t by (simp add: calm_plug)
    moreover have "\<not> red (plug (mk Left_side False l a r) \<pi>)" using c(3) by (simp add: red_plug top_black_def)
    ultimately show ?thesis using fx T' t by (intro repairedI [of _ T' "plug (mk Left_side False l a r) \<pi>"]) (auto simp: rb_ok_def)
  qed
qed

lemma fixup_root:
  assumes "rb_tree T t" "bal t n" "calm t"
  shows "repaired T (inorder t) (fixup (rb_root T) T)"
  using fixup_exit [of T t "[]" n] assms calm_almost by (auto simp: top_black_def rb_tree_def)

lemma fixup_turn:
  assumes "rb_tree T (plug (mk d c t p w) \<pi>)" "sent T t p" "\<not> red t" "w \<noteq> Lf"
  shows "fixup (ptr (rb_sentinel T) t) T = do { (temp, T) \<leftarrow> delete_turn d (ptr (rb_sentinel T) t) T; fixup temp T }"
proof -
  have T: "rb_tree T (plug t (Crumb d c p w # \<pi>))" using assms(1) by simp
  obtain l where "rb_get nd_left p T = Some l" "(if ptr (rb_sentinel T) t = l then Left_side else Right_side) = d"
    using side_test [OF assms(1)] assms(4) by blast
  then show ?thesis using root_at [OF T] red_at [OF T] parent_at [OF assms(1,2)] assms(3)
    by (subst fixup_def, subst delete_loop.simps) (auto simp: fixup_def split: Option.bind_splits)
qed

lemma fixup_sibling:
  assumes sib: "delete_sibling d temp T0 = Some (b, T)" and temp: "temp = ptr (rb_sentinel T) t"
    and T: "rb_tree T (plug (mk d c t p (mk d False y b z)) \<pi>)" "sent T t p"
    and b: "bal t n" "bal y n" "bal z n" "path_bal \<pi> (if c then Suc n else Suc (Suc n))"
    and c: "calm t" "calm y" "calm z" "path_calm \<pi> c"
    and more: "\<And>T'. \<not> red y \<Longrightarrow> \<not> red z \<Longrightarrow> rb_tree T' (plug (mk d c t p (mk d True y b z)) \<pi>) \<Longrightarrow>
      repaired T' (inorder (plug (mk d c t p (mk d True y b z)) \<pi>)) (fixup p T')"
  shows "repaired T (inorder (plug (mk d c t p (mk d False y b z)) \<pi>)) (do { (temp, T) \<leftarrow> delete_turn d temp T0; fixup temp T })"
proof (cases "red y \<or> red z")
  case True
  obtain T' x where x: "delete_turn d temp T0 = Some (rb_root T', T')" "rb_tree T' (plug x \<pi>)" "kept T T'" "red x = c"
      "inorder x = inorder (mk d c t p (mk d False y b z))" "bal x (if c then Suc n else Suc (Suc n))" "calm x"
    using delete_turn_cases(2) [OF sib temp T True] b(1-3) c(1-3) by blast
  obtain m where "bal (plug x \<pi>) m" using x(6) b(4) bal_plug by blast
  moreover have "calm (plug x \<pi>)" using x(4,7) c(4) by (simp add: calm_plug)
  ultimately have "repaired T' (inorder (plug x \<pi>)) (fixup (rb_root T') T')" using fixup_root x(2) by blast
  moreover have "inorder (plug x \<pi>) = inorder (plug (mk d c t p (mk d False y b z)) \<pi>)" using x(5) by (rule inorder_plug_cong)
  ultimately show ?thesis using x(1) repaired_kept [OF _ x(3)] by simp
next
  case False
  then obtain T' where T': "delete_turn d temp T0 = Some (p, T')" "rb_tree T' (plug (mk d c t p (mk d True y b z)) \<pi>)" "kept T T'"
    using delete_turn_cases(1) [OF sib temp T] by blast
  have "inorder (plug (mk d c t p (mk d True y b z)) \<pi>) = inorder (plug (mk d c t p (mk d False y b z)) \<pi>)"
    by (intro inorder_plug_cong inorder_mk_cong refl)
  then show ?thesis using T'(1) repaired_kept [OF more [OF _ _ T'(2)] T'(3)] False by simp
qed

lemma fixup_ok:
  assumes "rb_tree T (plug t \<pi>)" "bal t n" "path_bal \<pi> (Suc n)" "almost t" "path_calm \<pi> False" "top_black \<pi>"
    "case \<pi> of [] \<Rightarrow> True | cr # _ \<Rightarrow> sent T t (crumb_addr cr)"
  shows "repaired T (inorder (plug t \<pi>)) (fixup (ptr (rb_sentinel T) t) T)"
  using assms
proof (induction "length \<pi>" arbitrary: T t \<pi> n rule: less_induct)
  case less
  show ?case
  proof (cases "\<pi> = [] \<or> red t")
    case True
    then show ?thesis using fixup_exit less.prems by blast
  next
    case False
    then obtain d c p w \<pi>' where p: "\<pi> = Crumb d c p w # \<pi>'" by (cases \<pi> rule: path_addrs.cases) auto
    have bt: "bal t n" "calm t" "\<not> red t" using less.prems(2,4) False calm_almost by auto
    have w: "bal w (Suc n)" "calm w" "w \<noteq> Lf" and rest: "path_bal \<pi>' (if c then Suc n else Suc (Suc n))" "path_calm \<pi>' c" "c \<longrightarrow> \<not> red w" "top_black \<pi>'"
      using less.prems(3,5,6) p by (auto simp: top_black_def split: if_splits)
    have T: "rb_tree T (plug (mk d c t p w) \<pi>')" and sent: "sent T t p" using less.prems(1,7) p by auto
    note turn = fixup_turn [OF T sent bt(3) w(3)]
    show ?thesis
    proof (cases "red w")
      case False
      obtain y b z where wy: "w = mk d False y b z" using nonempty_mk [OF w(3), of d] False by auto
      show ?thesis unfolding p plug.simps turn wy
      proof (rule fixup_sibling [where n = n])
        show "delete_sibling d (ptr (rb_sentinel T) t) T = Some (b, T)" using delete_sibling_black T sent wy by blast
        show "repaired T' (inorder (plug (mk d c t p (mk d True y b z)) \<pi>')) (fixup p T')"
          if "\<not> red y" "\<not> red z" "rb_tree T' (plug (mk d c t p (mk d True y b z)) \<pi>')" for T'
        proof -
          have "case \<pi>' of [] \<Rightarrow> True | cr # _ \<Rightarrow> sent T' (mk d c t p (mk d True y b z)) (crumb_addr cr)"
            by (cases d) (auto simp: sent_def split: list.split)
          then have "repaired T' (inorder (plug (mk d c t p (mk d True y b z)) \<pi>')) (fixup (ptr (rb_sentinel T') (mk d c t p (mk d True y b z))) T')"
            using that bt w wy rest p
            by (intro less.hyps [where n = "if c then n else Suc n"]) (auto split: if_splits elim: path_calm_False)
          then show ?thesis by simp
        qed
      qed (use T sent bt w wy rest in auto)
    next
      case True
      then have c: "\<not> c" using rest(3) by blast
      obtain u b' z where wy: "w = mk d True u b' z" using nonempty_mk [OF w(3), of d] True by auto
      have u: "bal u (Suc n)" "\<not> red u" "calm u" "bal z (Suc n)" "\<not> red z" "calm z" using w wy by auto
      then have "u \<noteq> Lf" by auto
      then obtain y1 b z1 where uy: "u = mk d False y1 b z1" using nonempty_mk [of u d] u(2) by auto
      obtain T1 where T1: "delete_sibling d (ptr (rb_sentinel T) t) T = Some (b, T1)"
        "rb_tree T1 (plug (mk d True t p (mk d False y1 b z1)) (Crumb d False b' z # \<pi>'))" "kept T T1"
        using delete_sibling_red [of T d t p y1 b z1 b' z \<pi>'] T sent wy uy c by auto
      have "repaired T1 (inorder (plug (mk d True t p (mk d False y1 b z1)) (Crumb d False b' z # \<pi>')))
        (do { (temp, T) \<leftarrow> delete_turn d (ptr (rb_sentinel T) t) T; fixup temp T })"
      proof (rule fixup_sibling [OF T1(1) _ T1(2) sent_kept [OF sent T1(3)], where n = n])
        show "repaired T' (inorder (plug (mk d True t p (mk d True y1 b z1)) (Crumb d False b' z # \<pi>'))) (fixup p T')"
          if "\<not> red y1" "\<not> red z1" "rb_tree T' (plug (mk d True t p (mk d True y1 b z1)) (Crumb d False b' z # \<pi>'))" for T'
        proof -
          have "repaired T' (inorder (plug (mk d True t p (mk d True y1 b z1)) (Crumb d False b' z # \<pi>')))
              (fixup (ptr (rb_sentinel T') (mk d True t p (mk d True y1 b z1))) T')"
            by (rule fixup_exit [OF that(3), where n = n]) (use bt u uy that rest c in \<open>auto simp: top_black_def\<close>)
          then show ?thesis by simp
        qed
      qed (use bt u uy rest c sentinel_kept [OF T1(3)] in auto)
      moreover have "inorder (plug (mk d True t p (mk d False y1 b z1)) (Crumb d False b' z # \<pi>')) = inorder (plug t \<pi>)"
        unfolding p plug.simps wy uy by (rule inorder_plug_cong) (cases d; simp)
      ultimately show ?thesis using turn repaired_kept [OF _ T1(3)] by simp
    qed
  qed
qed

section \<open>Deletion: taking a node out\<close>

lemma plug_append: "plug t (\<rho> @ \<pi>) = plug (plug t \<rho>) \<pi>"
  by (induction t \<rho> rule: plug.induct) auto

lemma focus_exists: "a \<in> set (inorder t) \<Longrightarrow> \<exists>c l r \<pi>. t = plug (Nd c l a r) \<pi>"
proof (induction t)
  case (Nd c l b r)
  then consider "a = b" | "a \<in> set (inorder l)" | "a \<in> set (inorder r)" by auto
  then show ?case
  proof cases
    case 1
    then show ?thesis using plug.simps(1) by metis
  next
    case 2
    then obtain c' l' r' \<pi>' where "l = plug (Nd c' l' a r') \<pi>'" using Nd.IH by blast
    then have "Nd c l b r = plug (Nd c' l' a r') (\<pi>' @ [Crumb Left_side c b r])" by (simp add: plug_append)
    then show ?thesis by blast
  next
    case 3
    then obtain c' l' r' \<pi>' where "r = plug (Nd c' l' a r') \<pi>'" using Nd.IH by blast
    then have "Nd c l b r = plug (Nd c' l' a r') (\<pi>' @ [Crumb Right_side c b l])" by (simp add: plug_append)
    then show ?thesis by blast
  qed
qed simp

text \<open>The minimum, and the spine that leads to it.\<close>

definition spine :: "crumb list \<Rightarrow> bool" where
  "spine \<rho> \<longleftrightarrow> (\<forall>cr\<in>set \<rho>. crumb_side cr = Left_side)"

lemma before_spine: "spine \<rho> \<Longrightarrow> before \<rho> = []"
  by (induction \<rho> rule: path_addrs.induct) (auto simp: spine_def)

lemma min_ok:
  assumes "rb_tree T (plug t \<pi>)" "t \<noteq> Lf"
  shows "\<exists>c a r \<rho>. t = plug (Nd c Lf a r) \<rho> \<and> spine \<rho> \<and> ngx_rbtree_min (ptr (rb_sentinel T) t) T = Some a"
  using assms
proof (induction t arbitrary: \<pi>)
  case (Nd c l b r)
  have l: "rb_get nd_left b T = Some (ptr (rb_sentinel T) l)"
    using rb_get_node(1) [of T Left_side c l b r \<pi>] Nd.prems(1) by (simp add: kid_eta)
  show ?case
  proof (cases "l = Lf")
    case True
    then show ?thesis using l by (intro exI [of _ c] exI [of _ b] exI [of _ r] exI [of _ "[]"])
        (simp add: spine_def ngx_rbtree_min.simps [of b])
  next
    case False
    have T: "rb_tree T (plug l (Crumb Left_side c b r # \<pi>))" using Nd.prems(1) by simp
    obtain c' a r' \<rho> where IH: "l = plug (Nd c' Lf a r') \<rho>" "spine \<rho>" "ngx_rbtree_min (ptr (rb_sentinel T) l) T = Some a"
      using Nd.IH(1) [OF T False] by blast
    have "ptr (rb_sentinel T) l \<noteq> rb_sentinel T" using False T by (cases l) (auto simp: rb_tree_plug rb_at_def)
    then have "ngx_rbtree_min b T = Some a" using l IH(3) by (simp add: ngx_rbtree_min.simps [of b])
    moreover have "Nd c l b r = plug (Nd c' Lf a r') (\<rho> @ [Crumb Left_side c b r])" using IH(1) by (simp add: plug_append)
    moreover have "spine (\<rho> @ [Crumb Left_side c b r])" using IH(2) by (simp add: spine_def)
    ultimately show ?thesis unfolding ptr.simps by blast
  qed
qed simp

section \<open>Single steps on the heap\<close>

lemma put_parent_step:
  assumes "tree_at (rb_heap T) s u t" "s \<notin> set (inorder t)"
  shows "(if ptr s t \<noteq> s then set_parent (ptr s t) q T else Some T) = Some (T\<lparr>rb_heap := reparent t q (rb_heap T)\<rparr>)"
  using assms by (cases t) (auto simp: rb_put_def)

lemma link_step:
  assumes "path_at (rb_heap T) s up node \<pi>" "node \<noteq> s" "node \<notin> set (path_addrs \<pi>)" "node = rb_root T \<longleftrightarrow> \<pi> = []"
  shows "(if node = rb_root T then Some (T\<lparr>rb_root := m\<rparr>)
     else do { pl \<leftarrow> rb_get nd_left (above up \<pi>) T; if node = pl then set_left (above up \<pi>) m T else set_right (above up \<pi>) m T }) =
    Some (T\<lparr>rb_root := (if \<pi> = [] then m else rb_root T), rb_heap := relink \<pi> m (rb_heap T)\<rparr>)"
proof (cases \<pi>)
  case (Cons cr \<pi>')
  obtain d c p y where cr: "cr = Crumb d c p y" by (cases cr)
  have "ptr s y \<noteq> node" "node \<noteq> ptr s y" using assms(2,3) Cons cr ptr_neq [of node y s] by auto
  then show ?thesis using assms Cons cr by (cases d) (auto simp: rb_get_def rb_put_def)
qed (use assms in simp)

lemma put_outside:
  assumes "rb_tree T t" "a \<notin> set (inorder t)" "a \<noteq> rb_sentinel T" "rb_heap T a = Some n"
  shows "rb_tree (T\<lparr>rb_heap := (rb_heap T)(a \<mapsto> f n)\<rparr>) t"
  using assms by (auto simp: rb_tree_def)

lemma delete_clear_ok:
  assumes "rb_tree T t" "a \<notin> set (inorder t)" "a \<noteq> rb_sentinel T" "rb_heap T a = Some n"
  shows "\<exists>T'. delete_clear a T = Some T' \<and> rb_tree T' t \<and> rb_sentinel T' = rb_sentinel T \<and>
    rb_heap T' a = Some \<lparr>nd_key = 0, nd_left = 0, nd_right = 0, nd_parent = 0, nd_red = nd_red n\<rparr> \<and>
    (\<forall>b. b \<noteq> a \<longrightarrow> rb_heap T' b = rb_heap T b)"
proof -
  define T' where "T' = T\<lparr>rb_heap := (rb_heap T)(a \<mapsto> (\<lambda>_. \<lparr>nd_key = 0, nd_left = 0, nd_right = 0, nd_parent = 0, nd_red = nd_red n\<rparr>) n)\<rparr>"
  have "rb_tree T' t" unfolding T'_def by (rule put_outside [OF assms])
  moreover have "delete_clear a T = Some T'" using assms(4) by (cases n) (simp add: delete_clear_def rb_put_def T'_def)
  ultimately show ?thesis by (auto simp: T'_def)
qed

text \<open>\<open>temp\<close> takes the place of \<open>subst\<close>.\<close>

lemma delete_unlink_step:
  assumes "rb_at T up t \<pi>" "\<pi> \<noteq> []" "t = Nd c l m r"
  shows "delete_unlink m q T = Some (T\<lparr>rb_heap := relink \<pi> q (rb_heap T)\<rparr>)" "rb_get nd_parent m T = Some (above up \<pi>)"
proof -
  have m: "rb_get nd_parent m T = Some (above up \<pi>)" using assms(1,3) by (auto simp: rb_at_def rb_get_def)
  have "path_at (rb_heap T) (rb_sentinel T) up m \<pi>" "m \<noteq> rb_sentinel T" "m \<notin> set (path_addrs \<pi>)" "m = rb_root T \<longleftrightarrow> \<pi> = []"
    using assms last_crumb [of \<pi>] by (auto simp: rb_at_def)
  from link_step [OF this, of q] show "delete_unlink m q T = Some (T\<lparr>rb_heap := relink \<pi> q (rb_heap T)\<rparr>)"
    using m assms(2) \<open>m = rb_root T \<longleftrightarrow> \<pi> = []\<close> by (simp add: delete_unlink_def)
  show "rb_get nd_parent m T = Some (above up \<pi>)" by (rule m)
qed

lemma delete_splice:
  assumes at: "rb_at T up (mk e cs Lf m x) \<pi>" and ne: "\<pi> \<noteq> []"
  shows "\<exists>T1 T2. delete_unlink m (ptr (rb_sentinel T) x) T = Some T1 \<and> set_parent (ptr (rb_sentinel T) x) q T1 = Some T2 \<and>
    rb_get nd_parent m T1 = Some (above up \<pi>) \<and> rb_root T2 = rb_root T \<and> rb_sentinel T1 = rb_sentinel T \<and> rb_sentinel T2 = rb_sentinel T \<and>
    path_at (rb_heap T2) (rb_sentinel T) up (ptr (rb_sentinel T) x) \<pi> \<and> tree_at (rb_heap T2) (rb_sentinel T) q x \<and>
    (x = Lf \<longrightarrow> rb_get nd_parent (rb_sentinel T) T2 = Some q) \<and> (\<exists>n. rb_heap T2 (rb_sentinel T) = Some n \<and> \<not> nd_red n) \<and>
    rb_heap T2 m = rb_heap T m \<and> (\<forall>b. map_option nd_key (rb_heap T2 b) = map_option nd_key (rb_heap T b))"
proof -
  let ?s = "rb_sentinel T"
  define T1 where "T1 = T\<lparr>rb_heap := relink \<pi> (ptr ?s x) (rb_heap T)\<rparr>"
  obtain sn where sn: "rb_heap T ?s = Some sn" "\<not> nd_red sn" using at by (auto simp: rb_at_def)
  have f: "m \<notin> set (inorder x)" "m \<notin> set (path_addrs \<pi>)" "m \<noteq> ?s" "?s \<notin> set (inorder x)" "?s \<notin> set (path_addrs \<pi>)" "distinct (inorder x)"
    "distinct (path_addrs \<pi>)" "\<And>q. q \<in> set (inorder x) \<Longrightarrow> q \<notin> set (path_addrs \<pi>)" "tree_at (rb_heap T) ?s m x" "path_at (rb_heap T) ?s up m \<pi>"
    "\<And>q. q \<in> set (path_addrs \<pi>) \<Longrightarrow> q \<notin> set (inorder x)"
    using at by (auto simp: rb_at_def mk_inorder tree_at_mk split: if_splits)
  have u: "delete_unlink m (ptr ?s x) T = Some T1" "rb_get nd_parent m T1 = Some (above up \<pi>)"
    using delete_unlink_step [OF at ne] f(2) by (cases e; auto simp: T1_def rb_get_def)+
  have p1: "path_at (rb_heap T1) ?s up (ptr ?s x) \<pi>" using path_at_relink [OF f(7,10)] by (simp add: T1_def)
  have t1: "tree_at (rb_heap T1) ?s m x" using f(8,9) tree_at_other [of x "rb_heap T1" "rb_heap T"] by (simp add: T1_def)
  show ?thesis
  proof (cases x)
    case Lf
    define T2 where "T2 = T1\<lparr>rb_heap := (rb_heap T1)(?s \<mapsto> sn\<lparr>nd_parent := q\<rparr>)\<rparr>"
    have "set_parent ?s q T1 = Some T2" using sn f(5) by (simp add: rb_put_def T2_def T1_def)
    then show ?thesis using u Lf p1 f sn
      by (intro exI [of _ T1] exI [of _ T2]) (auto simp: T2_def T1_def rb_get_def)
  next
    case (Nd xc xl a xr)
    define T2 where "T2 = T1\<lparr>rb_heap := reparent x q (rb_heap T1)\<rparr>"
    have "set_parent (ptr ?s x) q T1 = Some T2"
      using put_parent_step [OF t1 f(4)] Nd f(4) by (auto simp: T2_def)
    moreover have "tree_at (rb_heap T2) ?s q x" using tree_at_reparent [OF f(6) t1] by (simp add: T2_def)
    moreover have "path_at (rb_heap T2) ?s up (ptr ?s x) \<pi>"
    proof -
      have "rb_heap T2 b = rb_heap T1 b" if "b \<in> set (path_addrs \<pi>)" for b
        using f(11) [OF that] by (simp add: T2_def)
      from path_at_other [of \<pi> "rb_heap T2" "rb_heap T1", OF this] show ?thesis using p1 by blast
    qed
    moreover have "rb_root T2 = rb_root T" "rb_sentinel T1 = ?s" "rb_sentinel T2 = ?s" "rb_heap T2 ?s = Some sn" "rb_heap T2 m = rb_heap T m"
      "\<And>b. map_option nd_key (rb_heap T2 b) = map_option nd_key (rb_heap T b)" "x \<noteq> Lf"
      using f(1-5) sn(1) Nd by (simp_all add: T2_def T1_def del: reparent.simps)
    ultimately show ?thesis using u sn(2) by blast
  qed
qed

text \<open>\<open>subst\<close> takes the place of \<open>node\<close>.\<close>

lemma delete_inherit_ok:
  assumes h: "rb_heap T node = Some \<lparr>nd_key = k, nd_left = ptr (rb_sentinel T) l, nd_right = ptr (rb_sentinel T) r, nd_parent = above up \<pi>, nd_red = c\<rparr>"
    and t: "tree_at (rb_heap T) (rb_sentinel T) ul l" "tree_at (rb_heap T) (rb_sentinel T) ur r" "path_at (rb_heap T) (rb_sentinel T) up node \<pi>"
    and root: "rb_root T = (if \<pi> = [] then node else crumb_addr (last \<pi>))"
    and d: "distinct (inorder (Nd c l node r))" "distinct (path_addrs \<pi>)" "set (inorder (Nd c l node r)) \<inter> set (path_addrs \<pi>) = {}"
      "rb_sentinel T \<notin> set (inorder (Nd c l node r))" "rb_sentinel T \<notin> set (path_addrs \<pi>)"
    and m: "m \<notin> set (inorder (Nd c l node r))" "m \<notin> set (path_addrs \<pi>)" "m \<noteq> rb_sentinel T" "rb_heap T m = Some nm"
    and s: "\<exists>n. rb_heap T (rb_sentinel T) = Some n \<and> \<not> nd_red n"
  shows "\<exists>T'. delete_inherit node m T = Some T' \<and> rb_tree T' (plug (Nd c l m r) \<pi>) \<and> kept T T' \<and> rb_heap T' node = rb_heap T node"
proof -
  let ?s = "rb_sentinel T"
  define T1 where "T1 = T\<lparr>rb_heap := (rb_heap T)(m \<mapsto> \<lparr>nd_key = nd_key nm, nd_left = ptr ?s l, nd_right = ptr ?s r, nd_parent = above up \<pi>, nd_red = c\<rparr>)\<rparr>"
  define T2 where "T2 = T1\<lparr>rb_root := (if \<pi> = [] then m else rb_root T1), rb_heap := relink \<pi> m (rb_heap T1)\<rparr>"
  define T3 where "T3 = T2\<lparr>rb_heap := reparent l m (rb_heap T2)\<rparr>"
  define T4 where "T4 = T3\<lparr>rb_heap := reparent r m (rb_heap T3)\<rparr>"
  note defs = T4_def T3_def T2_def T1_def
  have n: "node \<noteq> m" "m \<noteq> node" "node \<noteq> ?s" "node \<notin> set (path_addrs \<pi>)" using d m by auto
  have ll: "a \<noteq> m \<and> a \<notin> set (path_addrs \<pi>) \<and> a \<notin> set (inorder r)" if "a \<in> set (inorder l)" for a using that d m(1) by auto
  have rr: "a \<noteq> m \<and> a \<notin> set (path_addrs \<pi>) \<and> a \<notin> set (inorder l)" if "a \<in> set (inorder r)" for a using that d m(1) by auto
  have pp: "a \<noteq> m \<and> a \<notin> set (inorder l) \<and> a \<notin> set (inorder r)" if "a \<in> set (path_addrs \<pi>)" for a using that d m(2) by auto
  have nd1: "rb_get nd_parent node T = Some (above up \<pi>)" "rb_get nd_left node T = Some (ptr ?s l)" "rb_get nd_right node T = Some (ptr ?s r)" "rb_get nd_red node T = Some c"
    using h by (simp_all add: rb_get_def)
  have r1: "node = rb_root T1 \<longleftrightarrow> \<pi> = []" using root n(4) last_crumb [of \<pi>] by (auto simp: T1_def)
  have p1: "path_at (rb_heap T1) ?s up node \<pi>" using t(3) m(2) by (simp add: T1_def)
  note link = link_step [OF p1 n(3,4) r1, of m, folded T2_def]
  have l2: "tree_at (rb_heap T2) ?s ul l" "tree_at (rb_heap T3) ?s ur r"
    using t(1,2) ll rr tree_at_other [of l "rb_heap T2" "rb_heap T"] tree_at_other [of r "rb_heap T3" "rb_heap T"] by (simp_all add: T3_def T2_def T1_def)
  have s2: "rb_sentinel T1 = ?s" "rb_sentinel T2 = ?s" "rb_sentinel T3 = ?s" by (simp_all add: defs)
  have pl: "(if ptr ?s l \<noteq> ?s then set_parent (ptr ?s l) m T2 else Some T2) = Some T3"
    "(if ptr ?s r \<noteq> ?s then set_parent (ptr ?s r) m T3 else Some T3) = Some T4"
    using put_parent_step [OF l2(1)] put_parent_step [OF l2(2)] d(4) by (simp_all add: T3_def T4_def)
  have gm: "rb_get nd_left m T2 = Some (ptr ?s l)" "rb_get nd_right m T3 = Some (ptr ?s r)"
    using m(1,2) by (simp_all add: rb_get_def defs)
  have "delete_inherit node m T = do {
     T \<leftarrow> (if node = rb_root T1 then Some (T1\<lparr>rb_root := m\<rparr>)
       else do { pl \<leftarrow> rb_get nd_left (above up \<pi>) T1; if node = pl then set_left (above up \<pi>) m T1 else set_right (above up \<pi>) m T1 });
     l \<leftarrow> rb_get nd_left m T;
     T \<leftarrow> (if l \<noteq> rb_sentinel T then set_parent l m T else Some T);
     r \<leftarrow> rb_get nd_right m T;
     if r \<noteq> rb_sentinel T then set_parent r m T else Some T }"
    using h m(4) n unfolding delete_inherit_def by (cases nm) (simp add: rb_get_def rb_put_def ngx_rbt_copy_color_def T1_def cong: if_cong)
  also have "\<dots> = Some T4" unfolding link using pl gm s2 by simp
  finally have "delete_inherit node m T = Some T4" .
  moreover have "rb_at T4 up (Nd c l m r) \<pi>"
  proof -
    have "tree_at (rb_heap T3) ?s m l" using tree_at_reparent [OF _ l2(1)] d(1) by (simp add: T3_def)
    then have "tree_at (rb_heap T4) ?s m l" using ll tree_at_other [of l "rb_heap T4" "rb_heap T3"] by (simp add: T4_def)
    moreover have "tree_at (rb_heap T4) ?s m r" using tree_at_reparent [OF _ l2(2)] d(1) by (simp add: T4_def)
    moreover have "path_at (rb_heap T2) ?s up m \<pi>" using path_at_relink [OF d(2) p1] by (simp add: T2_def)
    then have "path_at (rb_heap T4) ?s up m \<pi>" using pp path_at_other [of \<pi> "rb_heap T4" "rb_heap T2"] by (simp add: T4_def T3_def)
    moreover have "rb_heap T4 m = rb_heap T1 m" "rb_heap T4 ?s = rb_heap T ?s" using m d(4,5) by (simp_all add: defs)
    ultimately show ?thesis using d m root s by (auto simp: rb_at_def defs)
  qed
  moreover have "kept T T4" using m d(4,5) by (simp add: kept_def defs)
  moreover have "rb_heap T4 node = rb_heap T node" using n d(1) by (simp add: defs)
  ultimately show ?thesis using rb_tree_plug by blast
qed

section \<open>Deletion keeps the tree\<close>

definition spared :: "nat \<Rightarrow> rbtree \<Rightarrow> rbtree \<Rightarrow> bool" where
  "spared node T T' \<longleftrightarrow> rb_sentinel T' = rb_sentinel T \<and> rb_heap T' node \<noteq> None \<and>
     (\<forall>b. b \<noteq> node \<longrightarrow> map_option nd_key (rb_heap T' b) = map_option nd_key (rb_heap T b))"

definition deleted :: "nat \<Rightarrow> rbtree \<Rightarrow> nat list \<Rightarrow> rbtree option \<Rightarrow> bool" where
  "deleted node T xs r \<longleftrightarrow> (\<exists>T' t'. r = Some T' \<and> rb_tree T' t' \<and> rb_ok t' \<and> inorder t' = xs \<and> spared node T T')"

lemma deleted_repaired: "repaired T' xs r \<Longrightarrow> spared node T T' \<Longrightarrow> deleted node T xs r"
  unfolding repaired_def deleted_def spared_def kept_def by (metis option.map_disc_iff)

lemma rebalance:
  assumes T: "rb_tree T (plug x \<pi>)" and ne: "\<pi> \<noteq> []" and b: "bal (mk e cs Lf m x) n" "path_bal \<pi> n"
    and c: "calm (mk e cs Lf m x)" "path_calm \<pi> cs" "top_black \<pi>" and s: "sent T x (crumb_addr (hd \<pi>))"
  shows "repaired T (inorder (plug x \<pi>)) (if cs then Some T else fixup (ptr (rb_sentinel T) x) T)"
proof (cases cs)
  case True
  have "\<exists>m. bal (plug x \<pi>) m" using b True by (subst bal_plug) auto
  moreover have "calm (plug x \<pi>)" using c(1,2) True path_calm_False by (auto simp: calm_plug)
  moreover have "\<not> red (plug x \<pi>)" using c(3) ne by (simp add: red_plug top_black_def)
  ultimately show ?thesis using T True by (intro repairedI [of _ T "plug x \<pi>"]) (auto simp: rb_ok_def)
next
  case False
  then obtain k where k: "n = Suc k" "bal x k" using b(1) by auto
  have "repaired T (inorder (plug x \<pi>)) (fixup (ptr (rb_sentinel T) x) T)"
    by (rule fixup_ok [OF T k(2)]) (use b c s k ne False calm_almost(2) [of x] in \<open>auto split: list.split\<close>)
  then show ?thesis using False by simp
qed

lemma delete_choose_end:
  assumes "rb_tree T (plug (mk e c Lf node x) \<pi>)"
  shows "delete_choose node T = Some (node, ptr (rb_sentinel T) x)"
  using rb_get_node(1,2) [OF assms] by (cases e) (auto simp: delete_choose_def kid_eta)

lemma rb_tree_hole:
  assumes "path_at (rb_heap T) (rb_sentinel T) up (ptr (rb_sentinel T) x) \<pi>" "tree_at (rb_heap T) (rb_sentinel T) (above up \<pi>) x"
    "rb_at T0 up0 (mk e c Lf node x) \<pi>" "\<pi> \<noteq> []" "rb_root T = rb_root T0" "rb_sentinel T = rb_sentinel T0"
    "\<exists>n. rb_heap T (rb_sentinel T) = Some n \<and> \<not> nd_red n"
  shows "rb_tree T (plug x \<pi>)"
proof -
  have "rb_at T up x \<pi>" using assms by (auto simp: rb_at_def mk_inorder split: if_splits)
  then show ?thesis using rb_tree_plug by blast
qed

lemma delete_inner:
  assumes T: "rb_tree T (plug (mk e c Lf node x) \<pi>)" and ok: "rb_ok (plug (mk e c Lf node x) \<pi>)" and ne: "\<pi> \<noteq> []"
  shows "deleted node T (inorder (plug x \<pi>)) (ngx_rbtree_delete node T)"
proof -
  let ?s = "rb_sentinel T"
  obtain up where at: "rb_at T up (mk e c Lf node x) \<pi>" using T rb_tree_plug by blast
  obtain cr \<pi>' where pi: "\<pi> = cr # \<pi>'" using ne by (cases \<pi>) auto
  obtain T1 T2 where 1: "delete_unlink node (ptr ?s x) T = Some T1" "set_parent (ptr ?s x) (above up \<pi>) T1 = Some T2"
    "rb_get nd_parent node T1 = Some (above up \<pi>)" "rb_root T2 = rb_root T" "rb_sentinel T2 = ?s"
    "path_at (rb_heap T2) ?s up (ptr ?s x) \<pi>" "tree_at (rb_heap T2) ?s (above up \<pi>) x"
    "x = Lf \<longrightarrow> rb_get nd_parent ?s T2 = Some (above up \<pi>)" "\<exists>n. rb_heap T2 ?s = Some n \<and> \<not> nd_red n"
    "rb_heap T2 node = rb_heap T node" "\<And>b. map_option nd_key (rb_heap T2 b) = map_option nd_key (rb_heap T b)"
    using delete_splice [OF at ne, of "above up \<pi>"] by blast
  have T2: "rb_tree T2 (plug x \<pi>)" using rb_tree_hole [of T2 up x \<pi> T up e c node] 1 at ne by simp
  obtain nn where nn: "rb_heap T node = Some nn" using at by (auto simp: rb_at_def tree_at_mk)
  have fresh: "node \<notin> set (inorder (plug x \<pi>))" "node \<noteq> ?s"
    using at by (auto simp: rb_at_def set_plug mk_inorder split: if_splits)
  obtain T3 where 3: "delete_clear node T2 = Some T3" "rb_tree T3 (plug x \<pi>)" "rb_sentinel T3 = ?s" "rb_heap T3 node \<noteq> None"
      "\<And>b. b \<noteq> node \<Longrightarrow> rb_heap T3 b = rb_heap T2 b"
    using delete_clear_ok [OF T2 fresh(1)] fresh(2) 1(5,10) nn by fastforce
  have "sent T3 x (crumb_addr (hd \<pi>))" using 1(8) 3(3,5) fresh(2) pi by (auto simp: sent_def rb_get_def)
  moreover obtain n where "bal (mk e c Lf node x) n" "path_bal \<pi> n" using ok bal_plug [of "mk e c Lf node x" \<pi>] by (auto simp: rb_ok_def)
  moreover have "calm (mk e c Lf node x)" "path_calm \<pi> c" "top_black \<pi>"
    using ok ne by (simp_all add: rb_ok_def calm_plug red_plug top_black_def)
  ultimately have "repaired T3 (inorder (plug x \<pi>)) (if c then Some T3 else fixup (ptr (rb_sentinel T3) x) T3)"
    using rebalance [OF 3(2) ne] by blast
  moreover have "ngx_rbtree_delete node T = (if c then Some T3 else fixup (ptr ?s x) T3)"
    using delete_choose_end [OF T] rb_get_node(3,6) [OF T] ne 1(1-3) 3(1) by (auto simp: ngx_rbtree_delete_def fixup_def)
  moreover have "spared node T T3" using 1(11) 3(3,4,5) by (simp add: spared_def)
  ultimately show ?thesis using deleted_repaired 3(3) by metis
qed

lemma delete_root:
  assumes T: "rb_tree T (mk e c Lf node x)" and ok: "rb_ok (mk e c Lf node x)"
  shows "deleted node T (inorder x) (ngx_rbtree_delete node T)"
proof -
  let ?s = "rb_sentinel T"
  have T': "rb_tree T (plug (mk e c Lf node x) [])" using T by simp
  have ch: "delete_choose node T = Some (node, ptr ?s x)" by (rule delete_choose_end [OF T'])
  define T1 where "T1 = T\<lparr>rb_root := ptr ?s x\<rparr>"
  have T1: "rb_tree T1 x" using T by (auto simp: rb_tree_def T1_def tree_at_mk mk_inorder split: if_splits)
  obtain n where bx: "bal x n" and cx: "calm x" using ok by (auto simp: rb_ok_def split: if_splits)
  have "repaired T1 (inorder (plug x [])) (fixup (ptr (rb_sentinel T1) x) T1)"
    by (rule fixup_exit [where n = n]) (use T1 bx cx calm_almost(2) in \<open>auto simp: top_black_def\<close>)
  moreover have "fixup (ptr (rb_sentinel T1) x) T1 = ngx_rbt_black (ptr ?s x) T1"
    by (subst fixup_def, subst delete_loop.simps) (simp add: T1_def)
  ultimately obtain T2 x' where 2: "ngx_rbt_black (ptr ?s x) T1 = Some T2" "rb_tree T2 x'" "kept T1 T2" "rb_ok x'" "inorder x' = inorder x"
    by (auto simp: repaired_def)
  have fresh: "node \<notin> set (inorder x')" "node \<noteq> ?s" "rb_heap T node \<noteq> None" and s: "rb_sentinel T2 = ?s"
    using T 2(3,5) by (auto simp: rb_tree_def mk_inorder tree_at_mk kept_def T1_def split: if_splits)
  then obtain nn where "rb_heap T2 node = Some nn" using 2(3) by (auto simp: kept_def T1_def) (metis option.map_disc_iff option.exhaust_sel)
  then obtain T3 where 3: "delete_clear node T2 = Some T3" "rb_tree T3 x'" "rb_sentinel T3 = ?s" "rb_heap T3 node \<noteq> None"
      "\<And>b. b \<noteq> node \<Longrightarrow> rb_heap T3 b = rb_heap T2 b"
    using delete_clear_ok [OF 2(2) fresh(1)] fresh(2) s by fastforce
  have "ngx_rbtree_delete node T = Some T3" using ch 2(1) 3(1) rb_get_node(6) [OF T'] by (simp add: ngx_rbtree_delete_def T1_def)
  moreover have "spared node T T3" using 2(3) 3(3,4,5) by (simp add: spared_def kept_def T1_def)
  ultimately show ?thesis using 3(2) 2(4,5) by (auto simp: deleted_def)
qed

text \<open>A node with two children: the minimum of the right subtree takes its place.\<close>

lemma path_at_append:
  "path_at h s up q (\<rho> @ \<pi>) \<longleftrightarrow> path_at h s (above up \<pi>) q \<rho> \<and> path_at h s up (if \<rho> = [] then q else crumb_addr (last \<rho>)) \<pi>"
proof (induction \<rho> arbitrary: q)
  case (Cons cr \<rho>)
  have "above up (\<rho> @ \<pi>) = above (above up \<pi>) \<rho>" by (cases \<rho>) auto
  then show ?case using Cons by (cases cr) auto
qed simp

lemma path_readdress:
  "path_bal (\<rho> @ Crumb d c a y # \<pi>) n \<longleftrightarrow> path_bal (\<rho> @ Crumb d c a' y # \<pi>) n"
  "path_calm (\<rho> @ Crumb d c a y # \<pi>) r \<longleftrightarrow> path_calm (\<rho> @ Crumb d c a' y # \<pi>) r"
  by (induction \<rho> arbitrary: n r rule: path_addrs.induct) auto

lemma delete_choose_both:
  assumes "rb_tree T (plug (Nd c l node r) \<pi>)" "l \<noteq> Lf" "r \<noteq> Lf"
  shows "\<exists>cs m x \<rho>. r = plug (Nd cs Lf m x) \<rho> \<and> spine \<rho> \<and> delete_choose node T = Some (m, ptr (rb_sentinel T) x)"
proof -
  have T: "rb_tree T (plug (mk Left_side c l node r) \<pi>)" "rb_tree T (plug r (Crumb Right_side c node l # \<pi>))" using assms(1) by simp_all
  obtain cs m x \<rho> where m: "r = plug (Nd cs Lf m x) \<rho>" "spine \<rho>" "ngx_rbtree_min (ptr (rb_sentinel T) r) T = Some m"
    using min_ok [OF T(2) assms(3)] by blast
  have "rb_tree T (plug (mk Left_side cs Lf m x) (\<rho> @ Crumb Right_side c node l # \<pi>))" using assms(1) m(1) by (simp add: plug_append)
  from rb_get_node(1,2) [OF this] have "rb_get nd_left m T = Some (rb_sentinel T)" "rb_get nd_right m T = Some (ptr (rb_sentinel T) x)"
    by (simp_all add: kid_eta)
  moreover have "ptr (rb_sentinel T) l \<noteq> rb_sentinel T" "ptr (rb_sentinel T) r \<noteq> rb_sentinel T"
    using assms by (cases l; cases r; auto simp: rb_tree_plug rb_at_def)+
  ultimately have "delete_choose node T = Some (m, ptr (rb_sentinel T) x)"
    using m(3) rb_get_node(1,2) [OF T(1)] by (simp add: delete_choose_def kid_eta)
  then show ?thesis using m by blast
qed

lemma delete_both_link:
  assumes T: "rb_tree T (plug (Nd c l node (plug (Nd cs Lf m x) \<rho>)) \<pi>)"
  shows "\<exists>T1 T2. delete_unlink m (ptr (rb_sentinel T) x) T = Some T1 \<and> delete_replace node m (ptr (rb_sentinel T) x) T1 = Some T2 \<and>
    rb_tree T2 (plug x (\<rho> @ Crumb Right_side c m l # \<pi>)) \<and> rb_sentinel T2 = rb_sentinel T \<and>
    sent T2 x (crumb_addr (hd (\<rho> @ Crumb Right_side c m l # \<pi>))) \<and> rb_heap T2 node \<noteq> None \<and>
    (\<forall>b. map_option nd_key (rb_heap T2 b) = map_option nd_key (rb_heap T b))"
proof -
  let ?s = "rb_sentinel T" and ?\<pi> = "\<rho> @ Crumb Right_side c node l # \<pi>"
  have "rb_tree T (plug (mk Left_side cs Lf m x) ?\<pi>)" using T by (simp add: plug_append)
  then obtain up where at: "rb_at T up (mk Left_side cs Lf m x) ?\<pi>" using rb_tree_plug by blast
  define q where "q = (if above up ?\<pi> = node then m else above up ?\<pi>)"
  obtain T1 T2 where 1: "delete_unlink m (ptr ?s x) T = Some T1" "set_parent (ptr ?s x) q T1 = Some T2"
    "rb_get nd_parent m T1 = Some (above up ?\<pi>)" "rb_root T2 = rb_root T" "rb_sentinel T2 = ?s"
    "path_at (rb_heap T2) ?s up (ptr ?s x) ?\<pi>" "tree_at (rb_heap T2) ?s q x"
    "x = Lf \<longrightarrow> rb_get nd_parent ?s T2 = Some q" "\<exists>n. rb_heap T2 ?s = Some n \<and> \<not> nd_red n"
    "rb_heap T2 m = rb_heap T m" "\<And>b. map_option nd_key (rb_heap T2 b) = map_option nd_key (rb_heap T b)"
    using delete_splice [OF at, of q] by blast
  let ?r = "plug x \<rho>"
  have d: "distinct (inorder (Nd c l node ?r))" "distinct (path_addrs \<pi>)" "set (inorder (Nd c l node ?r)) \<inter> set (path_addrs \<pi>) = {}"
    "?s \<notin> set (inorder (Nd c l node ?r))" "?s \<notin> set (path_addrs \<pi>)" "m \<notin> set (inorder (Nd c l node ?r))" "m \<notin> set (path_addrs \<pi>)" "m \<noteq> ?s"
    using T unfolding rb_tree_plug rb_at_def by (auto simp: set_plug distinct_plug)
  have pr: "ptr ?s ?r = (if \<rho> = [] then ptr ?s x else crumb_addr (last \<rho>))" by (rule ptr_plug)
  have p2: "path_at (rb_heap T2) ?s node (ptr ?s x) \<rho>" "path_at (rb_heap T2) ?s up (ptr ?s ?r) (Crumb Right_side c node l # \<pi>)"
    using 1(6) unfolding path_at_append pr by (simp_all split: if_splits)
  then obtain k where nd: "rb_heap T2 node = Some \<lparr>nd_key = k, nd_left = ptr ?s l, nd_right = ptr ?s ?r, nd_parent = above up \<pi>, nd_red = c\<rparr>"
    and lt: "tree_at (rb_heap T2) ?s node l" "path_at (rb_heap T2) ?s up node \<pi>" by auto
  have q: "q = (if \<rho> = [] then m else crumb_addr (hd \<rho>))"
  proof (cases \<rho>)
    case (Cons cr \<rho>')
    then have "crumb_addr cr \<noteq> node" using d(1) by (cases cr) (auto simp: set_plug mk_inorder split: if_splits)
    then show ?thesis using Cons by (simp add: q_def)
  qed (simp add: q_def)
  have "\<exists>ur. tree_at (rb_heap T2) ?s ur ?r"
  proof (cases "\<rho> = []")
    case False
    then have "tree_at (rb_heap T2) ?s (above node \<rho>) x" using 1(7) q by (cases \<rho>) auto
    then show ?thesis using p2(1) tree_at_plug by blast
  qed (use 1(7) in auto)
  then obtain ur where ur: "tree_at (rb_heap T2) ?s ur ?r" by blast
  obtain nm where nm: "rb_heap T2 m = Some nm" using at 1(10) by (auto simp: rb_at_def)
  have root: "rb_root T2 = (if \<pi> = [] then node else crumb_addr (last \<pi>))" using at 1(4) by (simp add: rb_at_def)
  obtain T3 where 3: "delete_inherit node m T2 = Some T3" "rb_tree T3 (plug (Nd c l m ?r) \<pi>)" "kept T2 T3" "rb_heap T3 node = rb_heap T2 node"
    using delete_inherit_ok [of T2 node k l ?r up \<pi> c node ur m nm] nd lt ur root d nm 1(5,9) by auto
  have "delete_replace node m (ptr ?s x) T1 = Some T3" using 1(2,3) 3(1) by (simp add: delete_replace_def q_def)
  moreover have "plug x (\<rho> @ Crumb Right_side c m l # \<pi>) = plug (Nd c l m ?r) \<pi>" by (simp add: plug_append)
  moreover have "sent T3 x (crumb_addr (hd (\<rho> @ Crumb Right_side c m l # \<pi>)))"
    using 1(5,8) 3(3) q by (auto simp: sent_def kept_def rb_get_def hd_append)
  ultimately show ?thesis using 1(1,5,11) 3 nd by (auto simp: kept_def)
qed

lemma delete_both:
  assumes T: "rb_tree T (plug (Nd c l node r) \<pi>)" "l \<noteq> Lf" "r \<noteq> Lf" and ok: "rb_ok (plug (Nd c l node r) \<pi>)"
  shows "deleted node T (before \<pi> @ inorder l @ inorder r @ behind \<pi>) (ngx_rbtree_delete node T)"
proof -
  let ?s = "rb_sentinel T"
  obtain cs m x \<rho> where r: "r = plug (Nd cs Lf m x) \<rho>" "spine \<rho>" and ch: "delete_choose node T = Some (m, ptr ?s x)"
    using delete_choose_both [OF T] by blast
  let ?\<pi> = "\<lambda>a. \<rho> @ Crumb Right_side c a l # \<pi>"
  have at: "plug (Nd c l node r) \<pi> = plug (mk Left_side cs Lf m x) (?\<pi> node)" by (simp add: r plug_append)
  obtain T1 T2 where 1: "delete_unlink m (ptr ?s x) T = Some T1" "delete_replace node m (ptr ?s x) T1 = Some T2"
    "rb_tree T2 (plug x (?\<pi> m))" "rb_sentinel T2 = ?s" "sent T2 x (crumb_addr (hd (?\<pi> m)))" "rb_heap T2 node \<noteq> None"
    "\<And>b. map_option nd_key (rb_heap T2 b) = map_option nd_key (rb_heap T b)"
    using delete_both_link [of T c l node cs m x \<rho> \<pi>] T(1) r(1) by blast
  have fresh: "node \<notin> set (inorder (plug x (?\<pi> m)))" "node \<noteq> ?s" "m \<noteq> node"
    using T(1) unfolding rb_tree_plug rb_at_def r(1) by (auto simp: set_plug distinct_plug plug_append)
  then obtain T3 where 3: "delete_clear node T2 = Some T3" "rb_tree T3 (plug x (?\<pi> m))" "rb_sentinel T3 = ?s" "rb_heap T3 node \<noteq> None"
      "\<And>b. b \<noteq> node \<Longrightarrow> rb_heap T3 b = rb_heap T2 b"
    using delete_clear_ok [OF 1(3)] 1(4,6) by fastforce
  have "sent T3 x (crumb_addr (hd (?\<pi> m)))" using 1(4,5) 3(3,5) fresh(2) by (auto simp: sent_def rb_get_def)
  moreover obtain n where "bal (mk Left_side cs Lf m x) n" "path_bal (?\<pi> m) n"
    using ok bal_plug [of "mk Left_side cs Lf m x" "?\<pi> node"] path_readdress(1) unfolding at rb_ok_def by blast
  moreover have "calm (mk Left_side cs Lf m x)" "path_calm (?\<pi> m) cs" "top_black (?\<pi> m)"
    using ok path_readdress(2) [of \<rho> Right_side c m l \<pi> cs node] unfolding at rb_ok_def
    by (auto simp: calm_plug red_plug top_black_def split: if_splits)
  ultimately have "repaired T3 (inorder (plug x (?\<pi> m))) (if cs then Some T3 else fixup (ptr (rb_sentinel T3) x) T3)"
    using rebalance [OF 3(2)] by blast
  moreover have "rb_tree T (plug (mk Left_side cs Lf m x) (?\<pi> node))" using T(1) at by simp
  from rb_get_node(3,6) [OF this] have "ngx_rbt_is_red m T = Some cs" "rb_root T \<noteq> m" by simp_all
  then have "ngx_rbtree_delete node T = (if cs then Some T3 else fixup (ptr ?s x) T3)"
    using ch 1(1,2) 3(1) fresh(3) by (auto simp: ngx_rbtree_delete_def fixup_def)
  moreover have "spared node T T3" using 1(7) 3(3,4,5) by (simp add: spared_def)
  moreover have "inorder (plug x (?\<pi> m)) = before \<pi> @ inorder l @ inorder r @ behind \<pi>"
    by (simp add: plug_append inorder_plug r(1) before_spine [OF r(2)])
  ultimately show ?thesis using deleted_repaired 3(3) by metis
qed

lemma rb_delete:
  assumes T: "rb_tree T t" "rb_ok t" and node: "node \<in> set (inorder t)"
  shows "deleted node T (remove1 node (inorder t)) (ngx_rbtree_delete node T)"
proof -
  obtain c l r \<pi> where t: "t = plug (Nd c l node r) \<pi>" using focus_exists [OF node] by blast
  have "distinct (inorder t)" using T(1) by (simp add: rb_tree_def)
  then have rm: "remove1 node (inorder t) = before \<pi> @ inorder l @ inorder r @ behind \<pi>"
    by (auto simp: t inorder_plug remove1_append)
  consider e x where "Nd c l node r = mk e c Lf node x" "inorder l @ inorder r = inorder x" | "l \<noteq> Lf" "r \<noteq> Lf"
    by (metis append_Nil append_Nil2 inorder.simps(1) mk.simps)
  then show ?thesis
  proof cases
    case 1
    have x: "inorder (plug x \<pi>) = remove1 node (inorder t)" unfolding rm inorder_plug using 1(2) by (metis append_assoc)
    show ?thesis
    proof (cases "\<pi> = []")
      case True
      then show ?thesis using delete_root [of T e c node x] T t 1(1) x by simp
    next
      case False
      then show ?thesis using delete_inner [of T e c node x \<pi>] T t 1(1) x by simp
    qed
  next
    case 2
    then show ?thesis using delete_both [of T c l node r \<pi>] T t rm by simp
  qed
qed

section \<open>Order and height\<close>

lemma next_up_ok:
  assumes "rb_tree T (plug t \<pi>)" "t \<noteq> Lf"
  shows "next_up (ptr (rb_sentinel T) t) T = Some (case behind \<pi> of [] \<Rightarrow> null_ptr | b # _ \<Rightarrow> b)"
  using assms
proof (induction \<pi> arbitrary: t)
  case Nil
  obtain c x a y where "t = mk Left_side c x a y" using nonempty_mk [OF Nil.prems(2)] by blast
  then show ?case using Nil.prems(1) rb_get_node(6) [of T Left_side c x a y "[]"]
    by (subst next_up.simps) (auto simp: rb_tree_def rb_get_def)
next
  case (Cons cr \<pi>)
  obtain d c p y where cr: "cr = Crumb d c p y" by (cases cr)
  obtain tc x a z where t: "t = mk Left_side tc x a z" using nonempty_mk [OF Cons.prems(2)] by blast
  have T: "rb_tree T (plug (mk d c t p y) \<pi>)" using Cons.prems(1) cr by simp
  obtain l where l: "rb_get nd_left p T = Some l" "(if a = l then Left_side else Right_side) = d"
    using side_test [OF T] Cons.prems(2) t by auto
  have up: "rb_get nd_parent a T = Some p" "rb_root T \<noteq> a"
    using rb_get_node(4,6) [of T Left_side tc x a z "cr # \<pi>"] Cons.prems(1) t cr by auto
  show ?case
  proof (cases "d = Left_side")
    case True
    then show ?thesis using l up t cr by (subst next_up.simps) (auto split: if_splits)
  next
    case False
    have "mk d c t p y \<noteq> Lf" by (cases d) auto
    then have "next_up p T = Some (case behind \<pi> of [] \<Rightarrow> null_ptr | b # _ \<Rightarrow> b)" using Cons.IH [OF T] by simp
    then show ?thesis using l up t cr False by (subst next_up.simps) (auto split: if_splits)
  qed
qed

lemma rb_next:
  assumes "rb_tree T t" "inorder t = xs @ a # ys"
  shows "ngx_rbtree_next a T = Some (case ys of [] \<Rightarrow> null_ptr | b # _ \<Rightarrow> b)"
proof -
  have "a \<in> set (inorder t)" using assms(2) by simp
  then obtain c l r \<pi> where t: "t = plug (Nd c l a r) \<pi>" using focus_exists by blast
  have T: "rb_tree T (plug (mk Left_side c l a r) \<pi>)" using assms(1) t by simp
  have d: "distinct (inorder t)" using assms(1) by (simp add: rb_tree_def)
  have eq: "xs @ a # ys = (before \<pi> @ inorder l) @ a # inorder r @ behind \<pi>" using assms(2) by (simp add: t inorder_plug)
  have "a \<notin> set xs" "a \<notin> set ys" using d assms(2) by auto
  then have ys: "ys = inorder r @ behind \<pi>" using eq append_Cons_eq_iff by metis
  have r: "rb_get nd_right a T = Some (ptr (rb_sentinel T) r)" using rb_get_node(2) [OF T] by (simp add: kid_eta)
  have R: "rb_tree T (plug r (Crumb Right_side c a l # \<pi>))" using assms(1) t by simp
  show ?thesis
  proof (cases "r = Lf")
    case True
    then show ?thesis using next_up_ok [of T "Nd c l a r" \<pi>] assms(1) t r ys by (simp add: ngx_rbtree_next_def)
  next
    case False
    obtain c' b r' \<rho> where m: "r = plug (Nd c' Lf b r') \<rho>" "spine \<rho>" "ngx_rbtree_min (ptr (rb_sentinel T) r) T = Some b"
      using min_ok [OF R False] by blast
    have "ptr (rb_sentinel T) r \<noteq> rb_sentinel T" using False R by (cases r) (auto simp: rb_tree_plug rb_at_def)
    moreover have "inorder r = b # inorder r' @ behind \<rho>" using m(1) before_spine [OF m(2)] by (simp add: inorder_plug)
    ultimately show ?thesis using m(3) r ys by (simp add: ngx_rbtree_next_def)
  qed
qed

lemma rb_min:
  assumes "rb_tree T t" "inorder t = a # xs"
  shows "ngx_rbtree_min (rb_root T) T = Some a"
proof -
  have T: "rb_tree T (plug t [])" "t \<noteq> Lf" using assms by auto
  obtain c b r \<rho> where m: "t = plug (Nd c Lf b r) \<rho>" "spine \<rho>" "ngx_rbtree_min (ptr (rb_sentinel T) t) T = Some b"
    using min_ok [OF T] by blast
  then have "a = b" using before_spine [OF m(2)] assms(2) by (simp add: inorder_plug)
  then show ?thesis using m(3) assms(1) by (simp add: rb_tree_def)
qed

fun height :: "rbt \<Rightarrow> nat" where
  "height Lf = 0"
| "height (Nd c l a r) = Suc (max (height l) (height r))"

lemma bal_size: "bal t n \<Longrightarrow> 2 ^ n \<le> Suc (length (inorder t))"
proof (induction t arbitrary: n)
  case (Nd c l a r)
  show ?case
  proof (cases c)
    case True
    then show ?thesis using Nd.IH(1) [of n] Nd.prems by simp
  next
    case False
    then obtain m where "n = Suc m" "bal l m" "bal r m" using Nd.prems by auto
    then show ?thesis using Nd.IH(1) [of m] Nd.IH(2) [of m] by simp
  qed
qed simp

lemma calm_height: "bal t n \<Longrightarrow> calm t \<Longrightarrow> height t \<le> 2 * n + (if red t then 1 else 0)"
proof (induction t arbitrary: n)
  case (Nd c l a r)
  show ?case
  proof (cases c)
    case True
    then show ?thesis using Nd.IH(1) [of n] Nd.IH(2) [of n] Nd.prems by simp
  next
    case False
    then obtain m where "n = Suc m" "bal l m" "bal r m" using Nd.prems by auto
    then show ?thesis using Nd.IH(1) [of m] Nd.IH(2) [of m] Nd.prems False by (simp split: if_splits)
  qed
qed simp

lemma rb_height: "rb_ok t \<Longrightarrow> 2 ^ height t \<le> (Suc (length (inorder t)))\<^sup>2"
proof -
  assume "rb_ok t"
  then obtain n where n: "bal t n" "height t \<le> 2 * n" using calm_height by (fastforce simp: rb_ok_def)
  then have "2 ^ height t \<le> ((2::nat) ^ n)\<^sup>2" by (simp add: power_mult [symmetric] mult.commute power_increasing)
  also have "\<dots> \<le> (Suc (length (inorder t)))\<^sup>2" using bal_size [OF n(1)] by (rule power_mono) simp
  finally show ?thesis .
qed

section \<open>What the clients of the tree rely on\<close>

definition rb_holds :: "rbtree \<Rightarrow> nat list \<Rightarrow> bool" where
  "rb_holds T xs \<longleftrightarrow> (\<exists>t. rb_tree T t \<and> rb_ok t \<and> inorder t = xs)"

definition rb_ready :: "rbtree \<Rightarrow> nat \<Rightarrow> bool" where
  "rb_ready T a \<longleftrightarrow> a \<noteq> rb_sentinel T \<and> rb_heap T a \<noteq> None"

text \<open>Nodes in order, a new one put before the first that is greater, and one taken out.\<close>

locale key_tree =
  fixes holds :: "'t \<Rightarrow> nat list \<Rightarrow> bool" and key :: "'t \<Rightarrow> nat \<Rightarrow> u64" and ready :: "'t \<Rightarrow> nat \<Rightarrow> bool"
    and lt :: "u64 \<Rightarrow> u64 \<Rightarrow> bool" and ins :: "nat \<Rightarrow> 't \<Rightarrow> 't option" and del :: "nat \<Rightarrow> 't \<Rightarrow> 't option"
  assumes holds_ready: "holds T xs \<Longrightarrow> a \<in> set xs \<Longrightarrow> ready T a"
    and holds_distinct: "holds T xs \<Longrightarrow> distinct xs"
    and ins_ok: "holds T xs \<Longrightarrow> a \<notin> set xs \<Longrightarrow> ready T a \<Longrightarrow> placeable lt (key T) a xs \<Longrightarrow>
      \<exists>T'. ins a T = Some T' \<and> holds T' (insort_at lt (key T) a xs) \<and> key T' = key T \<and> ready T' = ready T"
    and del_ok: "holds T xs \<Longrightarrow> a \<in> set xs \<Longrightarrow>
      \<exists>T'. del a T = Some T' \<and> holds T' (remove1 a xs) \<and> (\<forall>b. b \<noteq> a \<longrightarrow> key T' b = key T b) \<and> ready T' = ready T"
begin

text \<open>For keys on which the comparison is that of some rank, the order stays sorted.\<close>

lemma ins_sorted:
  fixes rank :: "u64 \<Rightarrow> nat"
  assumes "holds T xs" "a \<notin> set xs" "ready T a" "sorted (map (\<lambda>b. rank (key T b)) xs)"
    and lt: "\<And>b. b \<in> set xs \<Longrightarrow> lt (key T a) (key T b) \<longleftrightarrow> rank (key T a) < rank (key T b)"
  shows "\<exists>T' ys. ins a T = Some T' \<and> holds T' ys \<and> set ys = insert a (set xs) \<and> sorted (map (\<lambda>b. rank (key T' b)) ys) \<and>
    key T' = key T \<and> ready T' = ready T \<and> remove1 a ys = xs"
proof -
  let ?r = "\<lambda>b. rank (key T b)" and ?P = "\<lambda>b. \<not> lt (key T a) (key T b)"
  have sw: "sorted_wrt (\<lambda>b b'. ?r b \<le> ?r b') xs" using assms(4) by (simp add: sorted_map)
  have "placeable lt (key T) a xs" unfolding placeable_def
    by (rule sorted_wrt_mono_rel [OF _ sw]) (use lt in auto)
  then obtain T' where T': "ins a T = Some T'" "holds T' (insort_at lt (key T) a xs)" "key T' = key T" "ready T' = ready T"
    using ins_ok assms(1-3) by blast
  have "set (takeWhile ?P xs) \<union> set (dropWhile ?P xs) = set xs" by (metis set_append takeWhile_dropWhile_id)
  then have st: "set (insort_at lt (key T) a xs) = insert a (set xs)" by (auto simp: insort_at_def)
  have lo: "?r b \<le> ?r a" if "b \<in> set (takeWhile ?P xs)" for b
    using that lt set_takeWhileD [OF that] by auto
  have hi: "?r a \<le> ?r b" if "b \<in> set (dropWhile ?P xs)" for b
  proof (cases "dropWhile ?P xs")
    case (Cons c cs)
    then have "\<not> ?P c" "c \<in> set xs" using hd_dropWhile [of ?P xs] set_dropWhileD [of c ?P xs] by auto
    then have "?r a \<le> ?r c" using lt by auto
    moreover have "sorted (map ?r (dropWhile ?P xs))" using assms(4) by (metis sorted_wrt_append map_append takeWhile_dropWhile_id)
    then have "?r c \<le> ?r b" using that Cons by auto
    ultimately show ?thesis by simp
  next
    case Nil
    then show ?thesis using that by (simp only: list.set empty_iff)
  qed
  have "sorted (map ?r (takeWhile ?P xs) @ map ?r (dropWhile ?P xs))" using assms(4) by (simp flip: map_append)
  then have "sorted (map ?r (insort_at lt (key T) a xs))"
    using lo hi le_trans unfolding sorted_append insort_at_def map_append list.map by fastforce
  moreover have "remove1 a (insort_at lt (key T) a xs) = xs"
    using assms(2) by (auto simp: insort_at_def remove1_append dest: set_takeWhileD)
  ultimately show ?thesis using T' st by metis
qed

lemma del_sorted:
  fixes rank :: "u64 \<Rightarrow> nat"
  assumes "holds T xs" "a \<in> set xs" "sorted (map (\<lambda>b. rank (key T b)) xs)"
  shows "\<exists>T'. del a T = Some T' \<and> holds T' (remove1 a xs) \<and> sorted (map (\<lambda>b. rank (key T' b)) (remove1 a xs)) \<and>
    (\<forall>b. b \<noteq> a \<longrightarrow> key T' b = key T b) \<and> ready T' = ready T"
proof -
  obtain T' where T': "del a T = Some T'" "holds T' (remove1 a xs)" "\<forall>b. b \<noteq> a \<longrightarrow> key T' b = key T b" "ready T' = ready T"
    using del_ok [OF assms(1,2)] by blast
  have "a \<notin> set (remove1 a xs)" using holds_distinct [OF assms(1)] by simp
  then have "map (\<lambda>b. rank (key T' b)) (remove1 a xs) = map (\<lambda>b. rank (key T b)) (remove1 a xs)" using T'(3) by (intro map_cong) auto
  moreover have "sorted (map (\<lambda>b. rank (key T b)) (remove1 a xs))"
    using assms(3) holds_distinct [OF assms(1)] by (auto simp: sorted_map remove1_filter_not distinct_remove1_removeAll removeAll_filter_not_eq intro: sorted_wrt_filter)
  ultimately have "sorted (map (\<lambda>b. rank (key T' b)) (remove1 a xs))" by (simp only:)
  then show ?thesis using T' by blast
qed

end

lemma key_of_kept: "kept T T' \<Longrightarrow> key_of T' = key_of T" "kept T T' \<Longrightarrow> rb_ready T' = rb_ready T"
proof -
  assume k: "kept T T'"
  show "key_of T' = key_of T"
  proof
    fix a
    have "map_option nd_key (rb_heap T' a) = map_option nd_key (rb_heap T a)" using k by (simp add: kept_def)
    then show "key_of T' a = key_of T a" by (cases "rb_heap T a"; cases "rb_heap T' a") (auto simp: key_of_def)
  qed
  show "rb_ready T' = rb_ready T"
  proof
    fix a
    have "map_option nd_key (rb_heap T' a) = map_option nd_key (rb_heap T a)" "rb_sentinel T' = rb_sentinel T" using k by (simp_all add: kept_def)
    then show "rb_ready T' a = rb_ready T a" by (metis rb_ready_def option.map_disc_iff)
  qed
qed

lemma rb_holds_ready: "rb_holds T xs \<Longrightarrow> a \<in> set xs \<Longrightarrow> rb_ready T a"
proof -
  assume "rb_holds T xs" "a \<in> set xs"
  then obtain t where t: "rb_tree T t" "a \<in> set (inorder t)" by (auto simp: rb_holds_def)
  then obtain c l r \<pi> where "t = plug (Nd c l a r) \<pi>" using focus_exists by blast
  then show "rb_ready T a" using t by (auto simp: rb_ready_def rb_tree_plug rb_at_def)
qed

lemma rb_ins_law:
  assumes "rb_holds T xs" "a \<notin> set xs" "rb_ready T a" "placeable lt (key_of T) a xs"
  shows "\<exists>T'. ngx_rbtree_insert (insert_walk lt) a T = Some T' \<and> rb_holds T' (insort_at lt (key_of T) a xs) \<and>
    key_of T' = key_of T \<and> rb_ready T' = rb_ready T"
proof -
  obtain t where t: "rb_tree T t" "rb_ok t" "inorder t = xs" using assms(1) by (auto simp: rb_holds_def)
  then obtain T' t' where "ngx_rbtree_insert (insert_walk lt) a T = Some T'" "rb_tree T' t'" "kept T T'" "rb_ok t'"
      "inorder t' = insort_at lt (key_of T) a xs"
    using rb_insert [OF t(1,2), of a lt] assms(2-4) by (auto simp: rb_ready_def)
  then show ?thesis using key_of_kept by (auto simp: rb_holds_def)
qed

lemma rb_del_law:
  assumes "rb_holds T xs" "a \<in> set xs"
  shows "\<exists>T'. ngx_rbtree_delete a T = Some T' \<and> rb_holds T' (remove1 a xs) \<and> (\<forall>b. b \<noteq> a \<longrightarrow> key_of T' b = key_of T b) \<and> rb_ready T' = rb_ready T"
proof -
  obtain t where t: "rb_tree T t" "rb_ok t" "inorder t = xs" using assms(1) by (auto simp: rb_holds_def)
  then obtain T' t' where T': "ngx_rbtree_delete a T = Some T'" "rb_tree T' t'" "rb_ok t'" "inorder t' = remove1 a xs" "spared a T T'"
    using rb_delete [OF t(1,2), of a] assms(2) by (auto simp: deleted_def)
  have same: "map_option nd_key (rb_heap T' b) = map_option nd_key (rb_heap T b)" if "b \<noteq> a" for b using T'(5) that by (simp add: spared_def)
  have "key_of T' b = key_of T b" if "b \<noteq> a" for b
    using same [OF that] by (cases "rb_heap T b"; cases "rb_heap T' b") (auto simp: key_of_def)
  moreover have "rb_ready T' b = rb_ready T b" for b
  proof (cases "b = a")
    case True
    then show ?thesis using rb_holds_ready [OF assms] T'(5) by (simp add: rb_ready_def spared_def)
  next
    case False
    then show ?thesis using same [OF False] T'(5) by (metis rb_ready_def spared_def option.map_disc_iff)
  qed
  ultimately show ?thesis using T' by (auto simp: rb_holds_def)
qed

interpretation by_value: key_tree rb_holds key_of rb_ready "\<lambda>k t. k < t" "ngx_rbtree_insert ngx_rbtree_insert_value" ngx_rbtree_delete
  by unfold_locales (auto simp: ngx_rbtree_insert_value_def rb_holds_ready rb_ins_law rb_del_law, auto simp: rb_holds_def rb_tree_def)

interpretation by_timer: key_tree rb_holds key_of rb_ready timer_less "ngx_rbtree_insert ngx_rbtree_insert_timer_value" ngx_rbtree_delete
  by unfold_locales (auto simp: ngx_rbtree_insert_timer_value_def rb_holds_ready rb_ins_law rb_del_law, auto simp: rb_holds_def rb_tree_def)

section \<open>Properties\<close>

text \<open>
  C31. Inserting into a red-black tree with \<open>ngx_rbtree_insert_value\<close> returns, whatever the pointers,
  follows none to nowhere, and leaves a red-black tree (linked both ways, black root, no red node
  with a red child, as many black nodes on every way down) that holds the old nodes and the new one
  in the order of their keys, with the keys unchanged.
\<close>

theorem rbtree_insert_ok:
  assumes "rb_tree T t" "rb_ok t" "sorted (map (key_of T) (inorder t))"
    "node \<notin> set (inorder t)" "node \<noteq> rb_sentinel T" "rb_heap T node \<noteq> None"
  shows "\<exists>T' t'. ngx_rbtree_insert ngx_rbtree_insert_value node T = Some T' \<and> rb_tree T' t' \<and> rb_ok t' \<and>
    set (inorder t') = insert node (set (inorder t)) \<and> sorted (map (key_of T') (inorder t')) \<and> key_of T' = key_of T"
proof -
  have "rb_holds T (inorder t)" "rb_ready T node" using assms by (auto simp: rb_holds_def rb_ready_def)
  moreover have "sorted (map (\<lambda>b. unat (key_of T b)) (inorder t))"
    using assms(3) by (auto simp: sorted_map word_le_nat_alt)
  ultimately obtain T' ys where "ngx_rbtree_insert ngx_rbtree_insert_value node T = Some T'" "rb_holds T' ys"
      "set ys = insert node (set (inorder t))" "sorted (map (\<lambda>b. unat (key_of T' b)) ys)" "key_of T' = key_of T"
    using by_value.ins_sorted [of T "inorder t" node unat] assms(4) by (auto simp: word_less_nat_alt)
  then show ?thesis by (auto simp: rb_holds_def sorted_map word_le_nat_alt)
qed

theorem rbtree_insert_ok_witness:
  defines "s \<equiv> \<lparr>nd_key = 0, nd_left = 0, nd_right = 0, nd_parent = 0, nd_red = False\<rparr>"
    and "p \<equiv> \<lparr>nd_key = 7, nd_left = 3, nd_right = 4, nd_parent = 0, nd_red = False\<rparr>"
    and "l \<equiv> \<lparr>nd_key = 5, nd_left = 1, nd_right = 1, nd_parent = 2, nd_red = True\<rparr>"
    and "r \<equiv> \<lparr>nd_key = 9, nd_left = 1, nd_right = 1, nd_parent = 2, nd_red = True\<rparr>"
    and "n \<equiv> \<lparr>nd_key = 8, nd_left = 0, nd_right = 0, nd_parent = 0, nd_red = False\<rparr>"
  shows "\<exists>T' t'. ngx_rbtree_insert ngx_rbtree_insert_value 5
      \<lparr>rb_heap = [1 \<mapsto> s, 2 \<mapsto> p, 3 \<mapsto> l, 4 \<mapsto> r, 5 \<mapsto> n], rb_root = 2, rb_sentinel = 1\<rparr> = Some T' \<and>
    rb_tree T' t' \<and> rb_ok t' \<and> set (inorder t') = {2, 3, 4, 5} \<and> sorted (map (key_of T') (inorder t'))"
proof -
  let ?T = "\<lparr>rb_heap = [1 \<mapsto> s, 2 \<mapsto> p, 3 \<mapsto> l, 4 \<mapsto> r, 5 \<mapsto> n], rb_root = 2, rb_sentinel = 1\<rparr>"
  let ?t = "Nd False (Nd True Lf 3 Lf) 2 (Nd True Lf 4 Lf)"
  have "rb_tree ?T ?t" "rb_ok ?t" by (simp_all add: rb_tree_def rb_ok_def s_def p_def l_def r_def n_def)
  moreover have "sorted (map (key_of ?T) (inorder ?t))" by (simp add: key_of_def p_def l_def r_def)
  moreover have "insert 5 (set (inorder ?t)) = {2, 3, 4, 5}" by auto
  ultimately show ?thesis using rbtree_insert_ok [of ?T ?t 5] by auto
qed

text \<open>
  C32. Deleting a node of a red-black tree returns, follows no pointer to nowhere, and leaves a
  red-black tree with exactly the other nodes in the order they had, whose keys are unchanged.
\<close>

theorem rbtree_delete_ok:
  assumes "rb_tree T t" "rb_ok t" "node \<in> set (inorder t)"
  shows "\<exists>T' t'. ngx_rbtree_delete node T = Some T' \<and> rb_tree T' t' \<and> rb_ok t' \<and> inorder t' = remove1 node (inorder t) \<and>
    (\<forall>b. b \<noteq> node \<longrightarrow> key_of T' b = key_of T b)"
  using by_value.del_ok [of T "inorder t" node] assms by (auto simp: rb_holds_def)

theorem rbtree_delete_ok_witness:
  defines "s \<equiv> \<lparr>nd_key = 0, nd_left = 0, nd_right = 0, nd_parent = 0, nd_red = False\<rparr>"
    and "p \<equiv> \<lparr>nd_key = 7, nd_left = 3, nd_right = 4, nd_parent = 0, nd_red = False\<rparr>"
    and "l \<equiv> \<lparr>nd_key = 5, nd_left = 1, nd_right = 1, nd_parent = 2, nd_red = True\<rparr>"
    and "r \<equiv> \<lparr>nd_key = 9, nd_left = 1, nd_right = 1, nd_parent = 2, nd_red = True\<rparr>"
  shows "\<exists>T' t'. ngx_rbtree_delete 2 \<lparr>rb_heap = [1 \<mapsto> s, 2 \<mapsto> p, 3 \<mapsto> l, 4 \<mapsto> r], rb_root = 2, rb_sentinel = 1\<rparr> = Some T' \<and>
    rb_tree T' t' \<and> rb_ok t' \<and> inorder t' = [3, 4]"
proof -
  let ?T = "\<lparr>rb_heap = [1 \<mapsto> s, 2 \<mapsto> p, 3 \<mapsto> l, 4 \<mapsto> r], rb_root = 2, rb_sentinel = 1\<rparr>"
  let ?t = "Nd False (Nd True Lf 3 Lf) 2 (Nd True Lf 4 Lf)"
  have "rb_tree ?T ?t" "rb_ok ?t" by (simp_all add: rb_tree_def rb_ok_def s_def p_def l_def r_def)
  then show ?thesis using rbtree_delete_ok [of ?T ?t 2] by auto
qed

text \<open>
  C33. The height of a red-black tree is at most twice the logarithm of the number of its nodes plus
  one, which bounds the walk of every operation, and \<open>ngx_rbtree_next\<close> goes through the nodes in order.
\<close>

theorem rbtree_height_order:
  assumes "rb_tree T t" "rb_ok t"
  shows "2 ^ height t \<le> (Suc (length (inorder t)))\<^sup>2 \<and>
    (\<forall>xs a ys. inorder t = xs @ a # ys \<longrightarrow> ngx_rbtree_next a T = Some (case ys of [] \<Rightarrow> null_ptr | b # _ \<Rightarrow> b))"
  using rb_height [OF assms(2)] rb_next [OF assms(1)] by blast

theorem rbtree_height_order_witness:
  defines "s \<equiv> \<lparr>nd_key = 0, nd_left = 0, nd_right = 0, nd_parent = 0, nd_red = False\<rparr>"
    and "p \<equiv> \<lparr>nd_key = 7, nd_left = 1, nd_right = 3, nd_parent = 0, nd_red = False\<rparr>"
    and "r \<equiv> \<lparr>nd_key = 9, nd_left = 1, nd_right = 1, nd_parent = 2, nd_red = True\<rparr>"
  shows "ngx_rbtree_next 2 \<lparr>rb_heap = [1 \<mapsto> s, 2 \<mapsto> p, 3 \<mapsto> r], rb_root = 2, rb_sentinel = 1\<rparr> = Some 3"
proof -
  let ?T = "\<lparr>rb_heap = [1 \<mapsto> s, 2 \<mapsto> p, 3 \<mapsto> r], rb_root = 2, rb_sentinel = 1\<rparr>" and ?t = "Nd False Lf 2 (Nd True Lf 3 Lf)"
  have "rb_tree ?T ?t" "rb_ok ?t" by (simp_all add: rb_tree_def rb_ok_def s_def p_def r_def)
  from conjunct2 [OF rbtree_height_order [OF this], rule_format, of "[]" 2 "[3]"] show ?thesis by simp
qed

end
