(* ===== verification/Ngx_Timer.thy ===== *)
theory Ngx_Timer
  imports Ngx_Rbtree_Balance
begin

text \<open>
  The timers of \<^verbatim>\<open>src/event/ngx_event_timer.c\<close> and \<^verbatim>\<open>src/event/ngx_event_timer.h\<close> over the red-black
  tree. An event is named by the address of its timer node (the code gets from one to the other by
  a constant offset); its flags \<open>timer_set\<close>, \<open>timedout\<close> and \<open>cancelable\<close> are functions of that address.
  The sections for \<open>NGX_DEBUG\<close>, which clear pointers again, and the logging are left out.

  The lemmas use the tree through the interface \<open>key_tree\<close> (interpretation \<open>by_timer\<close>) only.
\<close>

section \<open>State\<close>

record timers =
  tm_tree :: rbtree
  tm_set :: "nat \<Rightarrow> bool"
  tm_timedout :: "nat \<Rightarrow> bool"
  tm_cancelable :: "nat \<Rightarrow> bool"
  tm_now :: u64
  tm_fired :: "nat list"

definition NGX_TIMER_INFINITE :: u64 where "NGX_TIMER_INFINITE = - 1"
definition NGX_TIMER_LAZY_DELAY :: int where "NGX_TIMER_LAZY_DELAY = 300"

definition ngx_event_timer_init :: "nat \<Rightarrow> timers \<Rightarrow> timers option" where
  "ngx_event_timer_init s S = do {
     T \<leftarrow> ngx_rbtree_init (rb_heap (tm_tree S)) s;
     Some (S\<lparr>tm_tree := T\<rparr>) }"

section \<open>Operations\<close>

definition ngx_event_find_timer :: "timers \<Rightarrow> u64 option" where
  "ngx_event_find_timer S =
     (if rb_root (tm_tree S) = rb_sentinel (tm_tree S) then Some NGX_TIMER_INFINITE
      else do {
        node \<leftarrow> ngx_rbtree_min (rb_root (tm_tree S)) (tm_tree S);
        k \<leftarrow> rb_get nd_key node (tm_tree S);
        let timer = sint (k - tm_now S);
        Some (if timer > 0 then word_of_int timer else 0) })"

definition ngx_event_del_timer :: "nat \<Rightarrow> timers \<Rightarrow> timers option" where
  "ngx_event_del_timer ev S = do {
     T \<leftarrow> ngx_rbtree_delete ev (tm_tree S);
     Some (S\<lparr>tm_tree := T, tm_set := (tm_set S)(ev := False)\<rparr>) }"

definition timer_insert :: "nat \<Rightarrow> u64 \<Rightarrow> timers \<Rightarrow> timers option" where
  "timer_insert ev key S = do {
     T \<leftarrow> set_key ev key (tm_tree S);
     T \<leftarrow> ngx_rbtree_insert ngx_rbtree_insert_timer_value ev T;
     Some (S\<lparr>tm_tree := T, tm_set := (tm_set S)(ev := True)\<rparr>) }"

definition ngx_event_add_timer :: "nat \<Rightarrow> u64 \<Rightarrow> timers \<Rightarrow> timers option" where
  "ngx_event_add_timer ev timer S =
     (let key = tm_now S + timer in
      if tm_set S ev then do {
        k \<leftarrow> rb_get nd_key ev (tm_tree S);
        let diff = sint (key - k);
        if \<bar>diff\<bar> < NGX_TIMER_LAZY_DELAY then Some S
        else do {
          S \<leftarrow> ngx_event_del_timer ev S;
          timer_insert ev key S } }
      else timer_insert ev key S)"

text \<open>The handlers are an argument; \<open>tm_fired\<close> records which events were handled.\<close>

partial_function (option) ngx_event_expire_timers :: "(nat \<Rightarrow> timers \<Rightarrow> timers option) \<Rightarrow> timers \<Rightarrow> timers option" where
  "ngx_event_expire_timers handler S =
     (if rb_root (tm_tree S) = rb_sentinel (tm_tree S) then Some S
      else do {
        node \<leftarrow> ngx_rbtree_min (rb_root (tm_tree S)) (tm_tree S);
        k \<leftarrow> rb_get nd_key node (tm_tree S);
        if sint (k - tm_now S) > 0 then Some S
        else do {
          T \<leftarrow> ngx_rbtree_delete node (tm_tree S);
          S \<leftarrow> handler node (S\<lparr>tm_tree := T, tm_set := (tm_set S)(node := False),
                 tm_timedout := (tm_timedout S)(node := True), tm_fired := tm_fired S @ [node]\<rparr>);
          ngx_event_expire_timers handler S } })"



section \<open>Times in a window\<close>

text \<open>
  The clock wraps around. As long as all times lie within half of its range after some \<open>base\<close>, the
  signed difference that the code takes is the difference of their distances from \<open>base\<close>.
\<close>

definition offset :: "u64 \<Rightarrow> u64 \<Rightarrow> nat" where
  "offset base k = unat (k - base)"

definition in_window :: "u64 \<Rightarrow> u64 \<Rightarrow> bool" where
  "in_window base k \<longleftrightarrow> offset base k < 2 ^ 63"

lemma uint_small: "unat (x :: u64) < 2 ^ 63 \<Longrightarrow> uint x < 2 ^ 63"
  unfolding unat_eq_nat_uint by (subst (asm) nat_less_iff) auto

lemma sint_sub_small:
  fixes x y :: u64
  assumes "uint x < 2 ^ 63" "uint y < 2 ^ 63"
  shows "sint (x - y) = uint x - uint y"
proof -
  have "sint (x - y) = sint (word_of_int (uint x - uint y) :: u64)" by (simp only: word_sub_wi)
  also have "\<dots> = signed_take_bit (64 - 1) (uint x - uint y)" by (subst sint_sbintrunc') (simp del: of_int_diff)
  also have "\<dots> = uint x - uint y"
  proof (rule signed_take_bit_int_eq_self)
    show "- (2 ^ (64 - 1)) \<le> uint x - uint y" using assms(2) uint_ge_0 [of x] by simp (use uint_ge_0 [of x] in linarith)
    show "uint x - uint y < 2 ^ (64 - 1)" using assms(1) by simp (use uint_ge_0 [of y] in linarith)
  qed
  finally show ?thesis .
qed

lemma sint_diff:
  assumes "in_window base a" "in_window base b"
  shows "sint (a - b) = int (offset base a) - int (offset base b)"
proof -
  have "uint (a - base) < 2 ^ 63" "uint (b - base) < 2 ^ 63"
    using assms uint_small unfolding in_window_def offset_def by blast+
  from sint_sub_small [OF this] show ?thesis by (simp add: offset_def)
qed

lemma timer_less_offset: "in_window base a \<Longrightarrow> in_window base b \<Longrightarrow> timer_less a b \<longleftrightarrow> offset base a < offset base b"
  by (simp add: timer_less_def sint_diff)

section \<open>Invariant\<close>

abbreviation due_time :: "timers \<Rightarrow> nat \<Rightarrow> u64" where "due_time S ev \<equiv> key_of (tm_tree S) ev"

definition timers_ok :: "u64 \<Rightarrow> timers \<Rightarrow> nat list \<Rightarrow> bool" where
  "timers_ok base S xs \<longleftrightarrow> rb_holds (tm_tree S) xs \<and> (\<forall>ev. tm_set S ev \<longleftrightarrow> ev \<in> set xs) \<and> null_ptr \<notin> set xs \<and>
     (\<forall>ev\<in>set xs. in_window base (due_time S ev)) \<and> sorted (map (\<lambda>ev. offset base (due_time S ev)) xs)"

lemma timers_okD:
  assumes "timers_ok base S xs"
  shows "rb_holds (tm_tree S) xs" "tm_set S ev \<longleftrightarrow> ev \<in> set xs" "null_ptr \<notin> set xs" "ev \<in> set xs \<Longrightarrow> in_window base (due_time S ev)"
    "sorted (map (\<lambda>ev. offset base (due_time S ev)) xs)" "distinct xs"
  using assms by_timer.holds_distinct by (auto simp: timers_ok_def)

lemma timers_ok_nodes:
  assumes "timers_ok base S xs"
  shows "rb_root (tm_tree S) = rb_sentinel (tm_tree S) \<longleftrightarrow> xs = []"
    "xs \<noteq> [] \<Longrightarrow> ngx_rbtree_min (rb_root (tm_tree S)) (tm_tree S) = Some (hd xs)"
    "ev \<in> set xs \<Longrightarrow> rb_get nd_key ev (tm_tree S) = Some (due_time S ev)"
proof -
  obtain t where t: "rb_tree (tm_tree S) t" "inorder t = xs" using timers_okD(1) [OF assms] by (auto simp: rb_holds_def)
  show "rb_root (tm_tree S) = rb_sentinel (tm_tree S) \<longleftrightarrow> xs = []" using t by (cases t) (auto simp: rb_tree_def)
  show "ngx_rbtree_min (rb_root (tm_tree S)) (tm_tree S) = Some (hd xs)" if "xs \<noteq> []" using rb_min [OF t(1)] t(2) that by (cases xs) auto
  show "rb_get nd_key ev (tm_tree S) = Some (due_time S ev)" if "ev \<in> set xs"
    using rb_holds_ready [OF timers_okD(1) [OF assms] that] by (auto simp: rb_get_def key_of_def rb_ready_def)
qed

lemma del_timer_ok:
  assumes ok: "timers_ok base S xs" and ev: "ev \<in> set xs"
  shows "\<exists>T. ngx_rbtree_delete ev (tm_tree S) = Some T \<and> rb_ready T = rb_ready (tm_tree S) \<and> (\<forall>b. b \<noteq> ev \<longrightarrow> key_of T b = due_time S b) \<and>
    (\<forall>S'. tm_tree S' = T \<longrightarrow> tm_set S' = (tm_set S)(ev := False) \<longrightarrow> timers_ok base S' (remove1 ev xs))"
proof -
  note o = timers_okD [OF ok]
  obtain T where T: "ngx_rbtree_delete ev (tm_tree S) = Some T" "rb_holds T (remove1 ev xs)"
    "sorted (map (\<lambda>b. offset base (key_of T b)) (remove1 ev xs))" "\<And>b. b \<noteq> ev \<Longrightarrow> key_of T b = due_time S b" "rb_ready T = rb_ready (tm_tree S)"
    using by_timer.del_sorted [OF o(1) ev o(5)] by blast
  have "timers_ok base S' (remove1 ev xs)" if "tm_tree S' = T" "tm_set S' = (tm_set S)(ev := False)" for S'
    using T(2-4) o(2-4,6) that by (auto simp: timers_ok_def)
  then show ?thesis using T by blast
qed

lemma set_key_holds:
  assumes "rb_holds T xs" "a \<notin> set xs" "rb_ready T a"
  shows "\<exists>T'. set_key a k T = Some T' \<and> rb_holds T' xs \<and> key_of T' = (key_of T)(a := k) \<and> rb_ready T' = rb_ready T"
proof -
  obtain n where n: "rb_heap T a = Some n" "a \<noteq> rb_sentinel T" using assms(3) by (auto simp: rb_ready_def)
  obtain t where t: "rb_tree T t" "rb_ok t" "inorder t = xs" using assms(1) by (auto simp: rb_holds_def)
  have "rb_tree (T\<lparr>rb_heap := (rb_heap T)(a \<mapsto> n\<lparr>nd_key := k\<rparr>)\<rparr>) t" using put_outside [OF t(1) _ n(2,1)] t(3) assms(2) by blast
  then show ?thesis using n t by (auto simp: rb_put_def rb_holds_def key_of_def rb_ready_def fun_eq_iff)
qed

lemma timer_insert_ok:
  assumes ok: "timers_ok base S xs" and ev: "ev \<notin> set xs" "rb_ready (tm_tree S) ev" "ev \<noteq> null_ptr" and w: "in_window base k"
  shows "\<exists>S' ys. timer_insert ev k S = Some S' \<and> timers_ok base S' ys \<and> set ys = insert ev (set xs) \<and>
    due_time S' ev = k \<and> (\<forall>b. b \<noteq> ev \<longrightarrow> due_time S' b = due_time S b) \<and> tm_now S' = tm_now S \<and>
    remove1 ev ys = xs \<and> tm_timedout S' = tm_timedout S \<and> tm_fired S' = tm_fired S"
proof -
  note o = timers_okD [OF ok]
  obtain T1 where 1: "set_key ev k (tm_tree S) = Some T1" "rb_holds T1 xs" "key_of T1 = (key_of (tm_tree S))(ev := k)" "rb_ready T1 = rb_ready (tm_tree S)"
    using set_key_holds [OF o(1) ev(1,2)] by blast
  have "map (\<lambda>b. offset base (key_of T1 b)) xs = map (\<lambda>b. offset base (due_time S b)) xs" using 1(3) ev(1) by auto
  then have sorted: "sorted (map (\<lambda>b. offset base (key_of T1 b)) xs)" using o(5) by (simp only:)
  have lt: "timer_less (key_of T1 ev) (key_of T1 b) \<longleftrightarrow> offset base (key_of T1 ev) < offset base (key_of T1 b)" if "b \<in> set xs" for b
    using timer_less_offset [OF w o(4) [OF that]] 1(3) ev(1) that by auto
  obtain T2 ys where 2: "ngx_rbtree_insert ngx_rbtree_insert_timer_value ev T1 = Some T2" "rb_holds T2 ys" "set ys = insert ev (set xs)"
    "sorted (map (\<lambda>b. offset base (key_of T2 b)) ys)" "key_of T2 = key_of T1" "remove1 ev ys = xs"
    using by_timer.ins_sorted [OF 1(2) ev(1) _ sorted lt] ev(2) 1(4) by auto
  define S' where "S' = S\<lparr>tm_tree := T2, tm_set := (tm_set S)(ev := True)\<rparr>"
  have "timers_ok base S' ys" using 2 1(3) o(2-4) ev(3) w by (auto simp: timers_ok_def S'_def)
  moreover have "timer_insert ev k S = Some S'" using 1(1) 2(1) by (simp add: timer_insert_def S'_def)
  ultimately show ?thesis using 2(3,5,6) 1(3) by (auto simp: S'_def)
qed

section \<open>Expiry\<close>

definition due :: "timers \<Rightarrow> nat \<Rightarrow> bool" where
  "due S ev \<longleftrightarrow> sint (due_time S ev - tm_now S) \<le> 0"

lemma due_offset:
  assumes "timers_ok base S xs" "in_window base (tm_now S)" "ev \<in> set xs"
  shows "due S ev \<longleftrightarrow> offset base (due_time S ev) \<le> offset base (tm_now S)"
  using timers_okD(4) [OF assms(1,3)] assms(2) by (simp add: due_def sint_diff)

text \<open>
  What the loop guarantees to a handler at the time \<open>now\<close>: the timers are in order, and its own
  event is an allocated one whose timer is not set.
\<close>

definition called :: "u64 \<Rightarrow> u64 \<Rightarrow> nat \<Rightarrow> timers \<Rightarrow> nat list \<Rightarrow> bool" where
  "called base now ev S xs \<longleftrightarrow> timers_ok base S xs \<and> tm_now S = now \<and> ev \<notin> set xs \<and> ev \<noteq> null_ptr \<and> rb_ready (tm_tree S) ev"

text \<open>A handler may change timers, as long as it leaves them in order and sets none that is already due.\<close>

definition well_behaved :: "u64 \<Rightarrow> u64 \<Rightarrow> (nat \<Rightarrow> timers \<Rightarrow> timers option) \<Rightarrow> bool" where
  "well_behaved base now handler \<longleftrightarrow> (\<forall>ev S xs. called base now ev S xs \<longrightarrow> (\<exists>S' ys. handler ev S = Some S' \<and> timers_ok base S' ys \<and>
     tm_now S' = now \<and> {e \<in> set ys. due S' e} \<subseteq> {e \<in> set xs. due S e}))"



definition fired :: "nat \<Rightarrow> rbtree \<Rightarrow> timers \<Rightarrow> timers" where
  "fired node T S = S\<lparr>tm_tree := T, tm_set := (tm_set S)(node := False), tm_timedout := (tm_timedout S)(node := True), tm_fired := tm_fired S @ [node]\<rparr>"

lemma expire_stops:
  assumes "timers_ok base S xs" "xs = [] \<or> \<not> due S (hd xs)"
  shows "ngx_event_expire_timers handler S = Some S"
  using timers_ok_nodes [OF assms(1)] assms(2) by (subst ngx_event_expire_timers.simps) (cases xs; auto simp: due_def)

lemma expire_step:
  assumes ok: "timers_ok base S (node # xs)" and d: "due S node"
  shows "\<exists>T. ngx_event_expire_timers handler S = do { S \<leftarrow> handler node (fired node T S); ngx_event_expire_timers handler S } \<and>
    called base (tm_now S) node (fired node T S) xs \<and> (\<forall>e\<in>set xs. due (fired node T S) e = due S e)"
proof -
  obtain T where T: "ngx_rbtree_delete node (tm_tree S) = Some T" "rb_ready T = rb_ready (tm_tree S)" "\<And>b. b \<noteq> node \<Longrightarrow> key_of T b = due_time S b"
    "\<And>S'. tm_tree S' = T \<Longrightarrow> tm_set S' = (tm_set S)(node := False) \<Longrightarrow> timers_ok base S' (remove1 node (node # xs))"
    using del_timer_ok [OF ok, of node] by auto
  have n: "node \<notin> set xs" using timers_okD(6) [OF ok] by simp
  have ok': "timers_ok base (fired node T S) xs" using T(4) [of "fired node T S"] by (simp add: fired_def)
  moreover have "rb_ready (tm_tree S) node" "node \<noteq> null_ptr"
    using rb_holds_ready [OF timers_okD(1) [OF ok]] timers_okD(3) [OF ok] by auto
  ultimately have call: "called base (tm_now S) node (fired node T S) xs" using n T(2) by (simp add: called_def fired_def)
  have eq: "due (fired node T S) e = due S e" if "e \<in> set xs" for e
  proof -
    have "e \<noteq> node" using that n by auto
    then show ?thesis using T(3) by (simp add: due_def fired_def)
  qed
  have "rb_get nd_key node (tm_tree S) = Some (due_time S node)" using timers_ok_nodes(3) [OF ok] by simp
  then have step: "ngx_event_expire_timers handler S = do { S \<leftarrow> handler node (fired node T S); ngx_event_expire_timers handler S }"
    using timers_ok_nodes(1,2) [OF ok] T(1) d
    by (subst ngx_event_expire_timers.simps) (simp add: due_def fired_def)
  then show ?thesis using call eq by blast
qed

lemma first_due:
  assumes "timers_ok base S xs" "in_window base (tm_now S)" "xs = [] \<or> \<not> due S (hd xs)" "e \<in> set xs"
  shows "\<not> due S e"
proof -
  obtain x xs' where xs: "xs = x # xs'" using assms(4) by (cases xs) auto
  have "offset base (due_time S x) \<le> offset base (due_time S e)" using timers_okD(5) [OF assms(1)] assms(4) xs by auto
  then show ?thesis using due_offset [OF assms(1,2)] assms(3,4) xs by (metis list.sel(1) list.set_intros(1) list.distinct(1) le_trans)
qed

lemma expire_returns:
  assumes "timers_ok base S xs" "in_window base (tm_now S)" "well_behaved base (tm_now S) handler"
  shows "\<exists>S' ys. ngx_event_expire_timers handler S = Some S' \<and> timers_ok base S' ys \<and> (\<forall>e\<in>set ys. \<not> due S' e)"
  using assms
proof (induction "card {e \<in> set xs. due S e}" arbitrary: S xs rule: less_induct)
  case less
  show ?case
  proof (cases "xs = [] \<or> \<not> due S (hd xs)")
    case True
    then show ?thesis using expire_stops [OF less.prems(1)] first_due [OF less.prems(1,2)] less.prems(1) by blast
  next
    case False
    then obtain node xs' where xs: "xs = node # xs'" "due S node" by (cases xs) auto
    obtain T where T: "ngx_event_expire_timers handler S = do { S \<leftarrow> handler node (fired node T S); ngx_event_expire_timers handler S }"
      "called base (tm_now S) node (fired node T S) xs'" "\<forall>e\<in>set xs'. due (fired node T S) e = due S e"
      using expire_step less.prems(1) xs by blast
    obtain S2 ys where S2: "handler node (fired node T S) = Some S2" "timers_ok base S2 ys" "tm_now S2 = tm_now S"
      "{e \<in> set ys. due S2 e} \<subseteq> {e \<in> set xs'. due (fired node T S) e}"
      using less.prems(3) T(2) unfolding well_behaved_def by blast
    have "{e \<in> set ys. due S2 e} \<subseteq> {e \<in> set xs. due S e} - {node}"
      using S2(4) T(3) xs timers_okD(6) [OF less.prems(1)] by auto
    moreover have "node \<in> {e \<in> set xs. due S e}" using xs by simp
    ultimately have "{e \<in> set ys. due S2 e} \<subset> {e \<in> set xs. due S e}" by blast
    then have "card {e \<in> set ys. due S2 e} < card {e \<in> set xs. due S e}" by (intro psubset_card_mono) auto
    from less.hyps [OF this S2(2)] less.prems(2,3) S2(3) show ?thesis using T(1) S2(1) by simp
  qed
qed







text \<open>A concrete state: two timers, at 100 and 900, at the time 500, and a free event.\<close>

definition two_timers :: timers where
  "two_timers = \<lparr>tm_tree = \<lparr>rb_heap = [1 \<mapsto> \<lparr>nd_key = 0, nd_left = 0, nd_right = 0, nd_parent = 0, nd_red = False\<rparr>,
       2 \<mapsto> \<lparr>nd_key = 100, nd_left = 1, nd_right = 3, nd_parent = 0, nd_red = False\<rparr>,
       3 \<mapsto> \<lparr>nd_key = 900, nd_left = 1, nd_right = 1, nd_parent = 2, nd_red = True\<rparr>,
       4 \<mapsto> \<lparr>nd_key = 0, nd_left = 0, nd_right = 0, nd_parent = 0, nd_red = False\<rparr>],
       rb_root = 2, rb_sentinel = 1\<rparr>,
     tm_set = (\<lambda>ev. ev = 2 \<or> ev = 3), tm_timedout = (\<lambda>_. False), tm_cancelable = (\<lambda>_. False), tm_now = 500, tm_fired = []\<rparr>"

lemma two_timers_ok: "timers_ok 0 two_timers [2, 3]"
proof -
  have "rb_tree (tm_tree two_timers) (Nd False Lf 2 (Nd True Lf 3 Lf))" "rb_ok (Nd False Lf 2 (Nd True Lf 3 Lf))"
    by (simp_all add: rb_tree_def rb_ok_def two_timers_def)
  then have "rb_holds (tm_tree two_timers) [2, 3]" unfolding rb_holds_def by fastforce
  then show ?thesis by (simp add: timers_ok_def in_window_def offset_def key_of_def two_timers_def)
qed

lemma two_timers_now: "in_window 0 (tm_now two_timers)"
  by (simp add: in_window_def offset_def two_timers_def)

section \<open>Properties\<close>

text \<open>
  C34. Setting a timer keeps the timers in order of their times, across the wrap-around of the clock
  (all times within half of its range): the call returns, exactly the given event is set in addition,
  at the present time plus the delay or, when it was set before, at a time less than
  \<open>NGX_TIMER_LAZY_DELAY\<close> away from that, and no other timer changes.
\<close>

theorem add_timer_ok:
  assumes "timers_ok base S xs" "rb_ready (tm_tree S) ev" "ev \<noteq> null_ptr" "in_window base (tm_now S + timer)"
  shows "\<exists>S' ys. ngx_event_add_timer ev timer S = Some S' \<and> timers_ok base S' ys \<and> set ys = insert ev (set xs) \<and>
    \<bar>sint (tm_now S + timer - due_time S' ev)\<bar> < NGX_TIMER_LAZY_DELAY \<and> (ev \<notin> set xs \<longrightarrow> due_time S' ev = tm_now S + timer) \<and>
    (\<forall>b. b \<noteq> ev \<longrightarrow> due_time S' b = due_time S b)"
proof -
  let ?k = "tm_now S + timer"
  consider "ev \<notin> set xs" | "ev \<in> set xs" "\<bar>sint (?k - due_time S ev)\<bar> < NGX_TIMER_LAZY_DELAY"
    | "ev \<in> set xs" "\<not> \<bar>sint (?k - due_time S ev)\<bar> < NGX_TIMER_LAZY_DELAY" by blast
  then show ?thesis
  proof cases
    case 1
    obtain S' ys where "timer_insert ev ?k S = Some S'" "timers_ok base S' ys" "set ys = insert ev (set xs)" "due_time S' ev = ?k"
        "\<forall>b. b \<noteq> ev \<longrightarrow> due_time S' b = due_time S b"
      using timer_insert_ok [OF assms(1) 1 assms(2-4)] by blast
    then show ?thesis using timers_okD(2) [OF assms(1), of ev] 1 by (auto simp: ngx_event_add_timer_def NGX_TIMER_LAZY_DELAY_def)
  next
    case 2
    then show ?thesis using timers_okD(2) [OF assms(1), of ev] timers_ok_nodes(3) [OF assms(1), of ev] assms(1)
      by (auto simp: ngx_event_add_timer_def intro!: exI [of _ xs])
  next
    case 3
    obtain T where T: "ngx_rbtree_delete ev (tm_tree S) = Some T" "rb_ready T = rb_ready (tm_tree S)" "\<And>b. b \<noteq> ev \<Longrightarrow> key_of T b = due_time S b"
      "\<And>S'. tm_tree S' = T \<Longrightarrow> tm_set S' = (tm_set S)(ev := False) \<Longrightarrow> timers_ok base S' (remove1 ev xs)"
      using del_timer_ok [OF assms(1) 3(1)] by blast
    let ?S = "S\<lparr>tm_tree := T, tm_set := (tm_set S)(ev := False)\<rparr>"
    have ok: "timers_ok base ?S (remove1 ev xs)" using T(4) [of ?S] by simp
    have n: "ev \<notin> set (remove1 ev xs)" "set (remove1 ev xs) = set xs - {ev}" using timers_okD(6) [OF assms(1)] by simp_all
    have rd: "rb_ready (tm_tree ?S) ev" using T(2) assms(2) by simp
    obtain S' ys where S': "timer_insert ev ?k ?S = Some S'" "timers_ok base S' ys" "set ys = insert ev (set (remove1 ev xs))" "due_time S' ev = ?k"
        "\<forall>b. b \<noteq> ev \<longrightarrow> due_time S' b = due_time ?S b"
      using timer_insert_ok [OF ok n(1) rd assms(3,4)] by blast
    have "ngx_event_add_timer ev timer S = Some S'"
      using timers_okD(2) [OF assms(1), of ev] timers_ok_nodes(3) [OF assms(1) 3(1)] 3 T(1) S'(1)
      by (simp add: ngx_event_add_timer_def ngx_event_del_timer_def)
    moreover have "set ys = insert ev (set xs)" using S'(3) n(2) by auto
    ultimately show ?thesis using S'(2,4,5) T(3) 3(1) by (auto simp: NGX_TIMER_LAZY_DELAY_def)
  qed
qed

theorem add_timer_ok_witness:
  "\<exists>S' ys. ngx_event_add_timer 4 250 two_timers = Some S' \<and> timers_ok 0 S' ys \<and> set ys = {2, 3, 4} \<and> due_time S' 4 = 750"
proof -
  have "rb_ready (tm_tree two_timers) 4" "in_window 0 (tm_now two_timers + 250)"
    by (simp_all add: rb_ready_def in_window_def offset_def two_timers_def)
  from add_timer_ok [OF two_timers_ok this(1) _ this(2)] obtain S' ys where
    "ngx_event_add_timer 4 250 two_timers = Some S'" "timers_ok 0 S' ys" "set ys = insert 4 (set [2, 3])" "due_time S' 4 = tm_now two_timers + 250" by auto
  then show ?thesis by (auto simp: two_timers_def)
qed

text \<open>
  \<open>ngx_event_find_timer\<close> returns the time until the first timer is due: the least remaining time
  of all timers that are set, zero when one of them is already due, \<open>NGX_TIMER_INFINITE\<close> when none is set.
\<close>

theorem find_timer_least:
  assumes "timers_ok base S xs" "in_window base (tm_now S)"
  shows "ngx_event_find_timer S =
    Some (if xs = [] then NGX_TIMER_INFINITE else word_of_int (Min ((\<lambda>ev. max 0 (sint (due_time S ev - tm_now S))) ` set xs)))"
proof (cases xs)
  case Nil
  then show ?thesis using timers_ok_nodes(1) [OF assms(1)] by (simp add: ngx_event_find_timer_def)
next
  case (Cons x xs')
  let ?f = "\<lambda>ev. max 0 (sint (due_time S ev - tm_now S))"
  have "?f x \<le> ?f e" if "e \<in> set xs" for e
  proof -
    have "offset base (due_time S x) \<le> offset base (due_time S e)" using timers_okD(5) [OF assms(1)] that Cons by auto
    moreover have x: "x \<in> set xs" using Cons by simp
    ultimately show ?thesis
      using sint_diff [OF timers_okD(4) [OF assms(1) x] assms(2)] sint_diff [OF timers_okD(4) [OF assms(1) that] assms(2)] by simp
  qed
  then have m: "Min (?f ` set xs) = ?f x" using Cons by (intro Min_eqI) auto
  have "rb_get nd_key x (tm_tree S) = Some (due_time S x)" using timers_ok_nodes(3) [OF assms(1)] Cons by simp
  then have "ngx_event_find_timer S = Some (word_of_int (?f x))" using timers_ok_nodes(1,2) [OF assms(1)] Cons
    by (cases "sint (due_time S x - tm_now S) > 0") (simp_all add: ngx_event_find_timer_def Let_def max_def)
  then show ?thesis using m Cons by (simp only: list.distinct if_False)
qed

theorem find_timer_least_witness: "ngx_event_find_timer two_timers = Some 0"
  using find_timer_least [OF two_timers_ok two_timers_now] by (simp add: key_of_def two_timers_def)

text \<open>
  C35. \<open>ngx_event_expire_timers\<close> returns and leaves no timer that is due, whatever the handlers do, as
  long as they keep the timers in order and do not set a timer that is already due. (A handler is
  called with the timers in order and with its own event allocated and not set.)
\<close>

theorem expire_timers_returns:
  assumes "timers_ok base S xs" "in_window base (tm_now S)" "well_behaved base (tm_now S) handler"
  shows "\<exists>S' ys. ngx_event_expire_timers handler S = Some S' \<and> timers_ok base S' ys \<and> (\<forall>e\<in>set ys. \<not> due S' e)"
  using assms by (rule expire_returns)

text \<open>A handler that sets its own timer again, 1000 milliseconds ahead.\<close>

lemma rearm_sets:
  assumes "called 0 500 ev S xs"
  shows "\<exists>S' ys. ngx_event_add_timer ev 1000 S = Some S' \<and> timers_ok 0 S' ys \<and> tm_now S' = 500 \<and>
    set ys = insert ev (set xs) \<and> \<not> due S' ev \<and> (\<forall>b. b \<noteq> ev \<longrightarrow> due S' b = due S b) \<and>
    remove1 ev ys = xs \<and> tm_timedout S' = tm_timedout S \<and> tm_fired S' = tm_fired S"
proof -
  have c: "timers_ok 0 S xs" "tm_now S = 500" "ev \<notin> set xs" "ev \<noteq> null_ptr" "rb_ready (tm_tree S) ev"
    using assms by (auto simp: called_def)
  have "in_window 0 (tm_now S + 1000)" by (simp add: c(2) in_window_def offset_def)
  from timer_insert_ok [OF c(1,3,5,4) this] obtain S' ys where S': "timer_insert ev (tm_now S + 1000) S = Some S'" "timers_ok 0 S' ys"
    "set ys = insert ev (set xs)" "due_time S' ev = tm_now S + 1000" "\<forall>b. b \<noteq> ev \<longrightarrow> due_time S' b = due_time S b" "tm_now S' = tm_now S"
    "remove1 ev ys = xs" "tm_timedout S' = tm_timedout S" "tm_fired S' = tm_fired S"
    by blast
  have "ngx_event_add_timer ev 1000 S = Some S'"
    using timers_okD(2) [OF c(1), of ev] c(3) S'(1) by (simp add: ngx_event_add_timer_def)
  moreover have "\<not> due S' ev" using S'(4,6) c(2) by (simp add: due_def)
  ultimately show ?thesis using S'(2,3,5-) c(2) by (auto simp: due_def)
qed

lemma rearm_well_behaved: "well_behaved 0 500 (\<lambda>ev. ngx_event_add_timer ev 1000)"
  unfolding well_behaved_def
proof (intro allI impI)
  fix ev S xs
  assume "called 0 500 ev S xs"
  from rearm_sets [OF this] obtain S' ys where S': "ngx_event_add_timer ev 1000 S = Some S'" "timers_ok 0 S' ys" "tm_now S' = 500"
    "set ys = insert ev (set xs)" "\<not> due S' ev" "\<forall>b. b \<noteq> ev \<longrightarrow> due S' b = due S b" by blast
  then have "{e \<in> set ys. due S' e} \<subseteq> {e \<in> set xs. due S e}" by auto
  with S' show "\<exists>S' ys. ngx_event_add_timer ev 1000 S = Some S' \<and> timers_ok 0 S' ys \<and> tm_now S' = 500 \<and>
      {e \<in> set ys. due S' e} \<subseteq> {e \<in> set xs. due S e}" by blast
qed

theorem expire_timers_returns_witness:
  "\<exists>S' ys. ngx_event_expire_timers (\<lambda>ev. ngx_event_add_timer ev 1000) two_timers = Some S' \<and> timers_ok 0 S' ys \<and>
    (\<forall>e\<in>set ys. \<not> due S' e)"
proof -
  have "well_behaved 0 (tm_now two_timers) (\<lambda>ev. ngx_event_add_timer ev 1000)"
    using rearm_well_behaved by (simp add: two_timers_def)
  from expire_timers_returns [OF two_timers_ok two_timers_now this] show ?thesis .
qed





end
