(* ===== verification/Ngx_Queue.thy ===== *)
theory Ngx_Queue
  imports Prelude "HOL-Library.Monad_Syntax" "HOL-Library.Multiset"
begin

text \<open>
  The doubly linked queues of \<^verbatim>\<open>src/core/ngx_queue.h\<close> and \<^verbatim>\<open>src/core/ngx_queue.c\<close>.

  The heap maps the address of an element, or of the head of a queue, to its two links; reading or
  writing a link of a cell that does not exist is \<open>None\<close>.  Every macro is translated
  assignment by assignment, in the order of the source, reading each link again where the
  source does.  \<open>queue H h xs\<close> says that the cells from the head \<open>h\<close> on are the list \<open>xs\<close>.

  Results: on a queue every operation succeeds, acts on the list as its name says and touches
  no cell outside the queues it is given; \<open>ngx_queue_middle\<close> returns the element of index
  \<open>length xs div 2\<close>; \<open>ngx_queue_sort\<close> sorts, and stably, for a comparison by keys.  The locale
  \<open>queue_ops\<close> is what clients of the queue rely on.
\<close>

section \<open>Links\<close>

record qheap =
  q_next :: "nat \<rightharpoonup> nat"
  q_prev :: "nat \<rightharpoonup> nat"

definition set_next :: "nat \<Rightarrow> nat \<Rightarrow> qheap \<Rightarrow> qheap option" where
  "set_next a v H = (if q_next H a = None then None else Some (H\<lparr>q_next := (q_next H)(a \<mapsto> v)\<rparr>))"

definition set_prev :: "nat \<Rightarrow> nat \<Rightarrow> qheap \<Rightarrow> qheap option" where
  "set_prev a v H = (if q_prev H a = None then None else Some (H\<lparr>q_prev := (q_prev H)(a \<mapsto> v)\<rparr>))"

section \<open>Operations\<close>

definition ngx_queue_init :: "nat \<Rightarrow> qheap \<Rightarrow> qheap option" where
  "ngx_queue_init q H = do { H \<leftarrow> set_prev q q H; set_next q q H }"

definition ngx_queue_empty :: "nat \<Rightarrow> qheap \<Rightarrow> bool option" where
  "ngx_queue_empty h H = do { p \<leftarrow> q_prev H h; Some (h = p) }"

definition ngx_queue_insert_head :: "nat \<Rightarrow> nat \<Rightarrow> qheap \<Rightarrow> qheap option" where
  "ngx_queue_insert_head h x H = do {
     n \<leftarrow> q_next H h;
     H \<leftarrow> set_next x n H;
     n \<leftarrow> q_next H x;
     H \<leftarrow> set_prev n x H;
     H \<leftarrow> set_prev x h H;
     set_next h x H }"

abbreviation ngx_queue_insert_after :: "nat \<Rightarrow> nat \<Rightarrow> qheap \<Rightarrow> qheap option" where
  "ngx_queue_insert_after \<equiv> ngx_queue_insert_head"

definition ngx_queue_insert_tail :: "nat \<Rightarrow> nat \<Rightarrow> qheap \<Rightarrow> qheap option" where
  "ngx_queue_insert_tail h x H = do {
     p \<leftarrow> q_prev H h;
     H \<leftarrow> set_prev x p H;
     p \<leftarrow> q_prev H x;
     H \<leftarrow> set_next p x H;
     H \<leftarrow> set_next x h H;
     set_prev h x H }"

definition ngx_queue_head :: "nat \<Rightarrow> qheap \<Rightarrow> nat option" where
  "ngx_queue_head h H = q_next H h"

definition ngx_queue_last :: "nat \<Rightarrow> qheap \<Rightarrow> nat option" where
  "ngx_queue_last h H = q_prev H h"

definition ngx_queue_remove :: "nat \<Rightarrow> qheap \<Rightarrow> qheap option" where
  "ngx_queue_remove x H = do {
     n \<leftarrow> q_next H x;
     p \<leftarrow> q_prev H x;
     H \<leftarrow> set_prev n p H;
     p \<leftarrow> q_prev H x;
     n \<leftarrow> q_next H x;
     set_next p n H }"

definition ngx_queue_split :: "nat \<Rightarrow> nat \<Rightarrow> nat \<Rightarrow> qheap \<Rightarrow> qheap option" where
  "ngx_queue_split h q n H = do {
     p \<leftarrow> q_prev H h;
     H \<leftarrow> set_prev n p H;
     p \<leftarrow> q_prev H n;
     H \<leftarrow> set_next p n H;
     H \<leftarrow> set_next n q H;
     p \<leftarrow> q_prev H q;
     H \<leftarrow> set_prev h p H;
     p \<leftarrow> q_prev H h;
     H \<leftarrow> set_next p h H;
     set_prev q n H }"

definition ngx_queue_add :: "nat \<Rightarrow> nat \<Rightarrow> qheap \<Rightarrow> qheap option" where
  "ngx_queue_add h n H = do {
     p \<leftarrow> q_prev H h;
     f \<leftarrow> q_next H n;
     H \<leftarrow> set_next p f H;
     f \<leftarrow> q_next H n;
     p \<leftarrow> q_prev H h;
     H \<leftarrow> set_prev f p H;
     l \<leftarrow> q_prev H n;
     H \<leftarrow> set_prev h l H;
     p \<leftarrow> q_prev H h;
     set_next p h H }"

partial_function (option) middle_loop :: "nat \<Rightarrow> nat \<Rightarrow> nat \<Rightarrow> qheap \<Rightarrow> nat option" where
  "middle_loop queue middle nxt H = do {
     middle \<leftarrow> q_next H middle;
     nxt \<leftarrow> q_next H nxt;
     l \<leftarrow> ngx_queue_last queue H;
     if nxt = l then Some middle
     else do {
       nxt \<leftarrow> q_next H nxt;
       if nxt = l then Some middle else middle_loop queue middle nxt H } }"

definition ngx_queue_middle :: "nat \<Rightarrow> qheap \<Rightarrow> nat option" where
  "ngx_queue_middle queue H = do {
     middle \<leftarrow> ngx_queue_head queue H;
     l \<leftarrow> ngx_queue_last queue H;
     if middle = l then Some middle
     else do {
       nxt \<leftarrow> ngx_queue_head queue H;
       middle_loop queue middle nxt H } }"

text \<open>The inner loop of \<open>ngx_queue_sort\<close>: back from \<open>prev\<close> to the place of \<open>q\<close>.\<close>

partial_function (option) sort_back :: "(nat \<Rightarrow> nat \<Rightarrow> int) \<Rightarrow> nat \<Rightarrow> nat \<Rightarrow> nat \<Rightarrow> qheap \<Rightarrow> nat option" where
  "sort_back cmp queue prev q H =
     (if cmp prev q \<le> 0 then Some prev
      else do {
        prev \<leftarrow> q_prev H prev;
        if prev = queue then Some prev else sort_back cmp queue prev q H })"

partial_function (option) sort_loop :: "(nat \<Rightarrow> nat \<Rightarrow> int) \<Rightarrow> nat \<Rightarrow> nat \<Rightarrow> qheap \<Rightarrow> qheap option" where
  "sort_loop cmp queue q H =
     (if q = queue then Some H
      else do {
        prev \<leftarrow> q_prev H q;
        nxt \<leftarrow> q_next H q;
        H \<leftarrow> ngx_queue_remove q H;
        prev \<leftarrow> sort_back cmp queue prev q H;
        H \<leftarrow> ngx_queue_insert_after prev q H;
        sort_loop cmp queue nxt H })"

definition ngx_queue_sort :: "(nat \<Rightarrow> nat \<Rightarrow> int) \<Rightarrow> nat \<Rightarrow> qheap \<Rightarrow> qheap option" where
  "ngx_queue_sort cmp queue H = do {
     q \<leftarrow> ngx_queue_head queue H;
     l \<leftarrow> ngx_queue_last queue H;
     if q = l then Some H
     else do {
       q \<leftarrow> q_next H q;
       sort_loop cmp queue q H } }"

section \<open>Queues as lists\<close>

text \<open>Consecutive elements are linked in both directions; a queue goes from its head back to its head.\<close>

fun linked :: "qheap \<Rightarrow> nat list \<Rightarrow> bool" where
  "linked H (a # b # l) \<longleftrightarrow> q_next H a = Some b \<and> q_prev H b = Some a \<and> linked H (b # l)"
| "linked H l \<longleftrightarrow> True"

definition queue :: "qheap \<Rightarrow> nat \<Rightarrow> nat list \<Rightarrow> bool" where
  "queue H h xs \<longleftrightarrow> linked H (h # xs @ [h]) \<and> distinct (h # xs)"

lemma linked_append: "linked H (u @ p # n # v) \<longleftrightarrow> linked H (u @ [p]) \<and> q_next H p = Some n \<and> q_prev H n = Some p \<and> linked H (n # v)"
  by (induction u rule: induct_list012) auto

lemma linked_frame:
  assumes "\<And>a. a \<in> set (butlast l) \<Longrightarrow> q_next H' a = q_next H a" "\<And>a. a \<in> set (tl l) \<Longrightarrow> q_prev H' a = q_prev H a"
  shows "linked H' l \<longleftrightarrow> linked H l"
  using assms by (induction l rule: induct_list012) auto

text \<open>A place in a queue: the element in front of it, the one behind it, and the two parts.\<close>

definition place :: "nat \<Rightarrow> nat list \<Rightarrow> nat list \<Rightarrow> nat list \<Rightarrow> nat \<Rightarrow> nat \<Rightarrow> nat list \<Rightarrow> bool" where
  "place h xs ys u p n v \<longleftrightarrow> h # xs = u @ [p] \<and> ys @ [h] = n # v"

lemma placeI: "\<exists>u v. place h xs ys u (last (h # xs)) (hd (ys @ [h])) v"
proof -
  have "h # xs = butlast (h # xs) @ [last (h # xs)]" "ys @ [h] = hd (ys @ [h]) # tl (ys @ [h])" by simp_all
  then show ?thesis unfolding place_def by blast
qed

lemma placeD:
  assumes "place h xs ys u p n v"
  shows "last (h # xs) = p" "hd (ys @ [h]) = n" "tl (u @ [p]) = xs" "butlast (n # v) = ys" "p \<in> insert h (set xs)" "n \<in> insert h (set ys)"
    "set u \<subseteq> insert h (set xs)" "set v \<subseteq> insert h (set ys)" "distinct (h # xs) \<Longrightarrow> p \<notin> set u" "distinct (h # ys) \<Longrightarrow> n \<notin> set v"
proof -
  note e = assms [unfolded place_def]
  show "last (h # xs) = p" "hd (ys @ [h]) = n" "tl (u @ [p]) = xs" "butlast (n # v) = ys"
    using e by (metis last_snoc, metis list.sel(1), metis list.sel(3), metis butlast_snoc)
  have "set (h # xs) = insert p (set u)" using e by simp
  then show "p \<in> insert h (set xs)" "set u \<subseteq> insert h (set xs)" by auto
  have "set (ys @ [h]) = insert n (set v)" using e by simp
  then show "n \<in> insert h (set ys)" "set v \<subseteq> insert h (set ys)" by auto
  show "p \<notin> set u" if "distinct (h # xs)" using e that by (metis distinct_append disjoint_iff list.set_intros(1))
  show "n \<notin> set v" if "distinct (h # ys)"
  proof -
    have "distinct (ys @ [h])" using that by auto
    then show ?thesis using e by (metis distinct.simps(2))
  qed
qed

lemma linked_place:
  assumes "place h xs ys u p n v"
  shows "linked H (h # (xs @ ys) @ [h]) \<longleftrightarrow> linked H (u @ [p]) \<and> q_next H p = Some n \<and> q_prev H n = Some p \<and> linked H (n # v)"
proof -
  have "h # (xs @ ys) @ [h] = u @ p # n # v" using assms unfolding place_def by (metis append.assoc append_Cons append_Nil)
  then show ?thesis by (simp only: linked_append)
qed

lemma queue_place:
  assumes "queue H h (xs @ ys)" "place h xs ys u p n v"
  shows "linked H (u @ [p])" "q_next H p = Some n" "q_prev H n = Some p" "linked H (n # v)"
    "p \<notin> set u" "n \<notin> set v" "p \<notin> set ys" "n \<notin> set xs"
proof -
  show "linked H (u @ [p])" "q_next H p = Some n" "q_prev H n = Some p" "linked H (n # v)"
    using assms linked_place by (auto simp: queue_def)
  have d: "distinct (h # xs @ ys)" using assms(1) by (simp add: queue_def)
  then show "p \<notin> set u" "n \<notin> set v" "p \<notin> set ys" "n \<notin> set xs" using placeD [OF assms(2)] by auto
qed

lemma queue_ends:
  assumes "queue H h (xs @ ys)"
  shows "q_next H (last (h # xs)) = Some (hd (ys @ [h]))" "q_prev H (hd (ys @ [h])) = Some (last (h # xs))"
  using queue_place(2,3) [OF assms] placeI [of h xs ys] by blast+

text \<open>Allocated elements.\<close>

definition allocated :: "qheap \<Rightarrow> nat \<Rightarrow> bool" where
  "allocated H x \<longleftrightarrow> q_next H x \<noteq> None \<and> q_prev H x \<noteq> None"

lemma queue_allocated: "queue H h xs \<Longrightarrow> x \<in> set (h # xs) \<Longrightarrow> allocated H x"
proof -
  assume q: "queue H h xs" "x \<in> set (h # xs)"
  then obtain us vs where "h # xs = us @ x # vs" by (meson split_list)
  then have l: "h # xs @ [h] = us @ x # vs @ [h]" by simp
  have "q_next H x \<noteq> None"
    using q(1) l linked_append [of H us x "hd (vs @ [h])" "tl (vs @ [h])"] unfolding queue_def by (cases vs) auto
  moreover have "q_prev H x \<noteq> None"
  proof (cases us)
    case Nil
    then have "x = h" using l by simp
    then show ?thesis using queue_ends(2) [of H h xs "[]"] q(1) by simp
  next
    case (Cons a us')
    then have "us = butlast us @ [last us]" by simp
    then have "h # xs @ [h] = butlast us @ last us # x # vs @ [h]" using l by simp
    then have "linked H (butlast us @ last us # x # vs @ [h])" using q(1) unfolding queue_def by metis
    then show ?thesis unfolding linked_append by blast
  qed
  ultimately show "allocated H x" by (simp add: allocated_def)
qed

section \<open>The operations on lists\<close>

text \<open>Which cells an operation may change.\<close>

definition same_outside :: "nat set \<Rightarrow> qheap \<Rightarrow> qheap \<Rightarrow> bool" where
  "same_outside X H H' \<longleftrightarrow> (\<forall>a. a \<notin> X \<longrightarrow> q_next H' a = q_next H a \<and> q_prev H' a = q_prev H a) \<and> (\<forall>a. allocated H a \<longrightarrow> allocated H' a)"

lemma frame_front:
  assumes "place h xs ys u p n v" "\<And>a. a \<in> set u \<Longrightarrow> q_next H' a = q_next H a" "\<And>a. a \<in> set xs \<Longrightarrow> q_prev H' a = q_prev H a"
  shows "linked H' (u @ [p]) \<longleftrightarrow> linked H (u @ [p])"
  using assms(2,3) placeD(3) [OF assms(1)] by (intro linked_frame) auto

lemma frame_rear:
  assumes "place h xs ys u p n v" "\<And>a. a \<in> set ys \<Longrightarrow> q_next H' a = q_next H a" "\<And>a. a \<in> set v \<Longrightarrow> q_prev H' a = q_prev H a"
  shows "linked H' (n # v) \<longleftrightarrow> linked H (n # v)"
  using assms(2,3) placeD(4) [OF assms(1)] by (intro linked_frame) auto

lemma queue_insert_after:
  assumes q: "queue H h (xs @ ys)" and x: "x \<notin> set (h # xs @ ys)" "allocated H x"
  shows "\<exists>H'. ngx_queue_insert_after (last (h # xs)) x H = Some H' \<and> queue H' h (xs @ x # ys) \<and> same_outside (set (h # x # xs @ ys)) H H'"
proof -
  obtain u p n v where pl: "place h xs ys u p n v" using placeI by blast
  note d = placeD [OF pl] and k = queue_place [OF q pl]
  have dj: "distinct (h # xs @ ys)" using q by (simp add: queue_def)
  have ne: "p \<noteq> x" "n \<noteq> x" using d(5,6) x(1) by auto
  define H' where "H' = H\<lparr>q_next := (q_next H)(x \<mapsto> n, p \<mapsto> x), q_prev := (q_prev H)(n \<mapsto> x, x \<mapsto> p)\<rparr>"
  have op: "ngx_queue_insert_after p x H = Some H'"
    using k(2,3) x(2) ne by (simp add: ngx_queue_insert_head_def set_next_def set_prev_def H'_def allocated_def)
  have "linked H' (u @ [p])"
    by (rule iffD2 [OF frame_front [OF pl] k(1)]) (use d(7) k(5,8) x(1) in \<open>auto simp: H'_def\<close>)
  moreover have "linked H' (n # v)"
    by (rule iffD2 [OF frame_rear [OF pl] k(4)]) (use d(8) k(6,7) x(1) in \<open>auto simp: H'_def\<close>)
  moreover have "h # (xs @ x # ys) @ [h] = u @ p # x # n # v" using pl by (simp add: place_def)
  moreover have "linked H' (u @ p # x # n # v) \<longleftrightarrow> linked H' (u @ [p]) \<and> q_next H' p = Some x \<and> q_prev H' x = Some p \<and> linked H' (x # n # v)"
    by (rule linked_append)
  ultimately have "queue H' h (xs @ x # ys)" using dj x(1) ne by (auto simp: queue_def H'_def)
  moreover have "same_outside (set (h # x # xs @ ys)) H H'" using d(5,6) k x(2) by (auto simp: same_outside_def H'_def allocated_def)
  ultimately show ?thesis using op d(1) by auto
qed

lemma queue_remove:
  assumes q: "queue H h (xs @ x # ys)"
  shows "\<exists>H'. ngx_queue_remove x H = Some H' \<and> queue H' h (xs @ ys) \<and> same_outside (set (h # xs @ ys)) H H' \<and>
    allocated H' x \<and> q_next H' x = Some (hd (ys @ [h])) \<and> q_prev H' x = Some (last (h # xs))"
proof -
  obtain u p n v where pl: "place h xs ys u p n v" using placeI by blast
  note d = placeD [OF pl]
  have dj: "distinct (h # xs @ x # ys)" using q by (simp add: queue_def)
  have e: "h # (xs @ x # ys) @ [h] = u @ p # x # n # v" using pl by (simp add: place_def)
  then have k: "linked H (u @ [p])" "q_next H p = Some x" "q_prev H x = Some p" "q_next H x = Some n" "q_prev H n = Some x" "linked H (n # v)"
    using q unfolding queue_def e linked_append by auto
  have ne: "p \<noteq> x" "n \<noteq> x" "p \<notin> set u" "n \<notin> set v" "p \<notin> set ys" "n \<notin> set xs" using d dj by auto
  define H' where "H' = H\<lparr>q_next := (q_next H)(p \<mapsto> n), q_prev := (q_prev H)(n \<mapsto> p)\<rparr>"
  have op: "ngx_queue_remove x H = Some H'"
    using k ne by (simp add: ngx_queue_remove_def set_next_def set_prev_def H'_def)
  have "linked H' (u @ [p])"
    by (rule iffD2 [OF frame_front [OF pl] k(1)]) (use ne in \<open>auto simp: H'_def\<close>)
  moreover have "linked H' (n # v)"
    by (rule iffD2 [OF frame_rear [OF pl] k(6)]) (use ne in \<open>auto simp: H'_def\<close>)
  ultimately have "queue H' h (xs @ ys)" using dj linked_place [OF pl, of H'] by (auto simp: queue_def H'_def)
  moreover have "same_outside (set (h # xs @ ys)) H H'" "allocated H' x" using d(5,6) k ne by (auto simp: same_outside_def H'_def allocated_def)
  ultimately show ?thesis using op k ne d(1,2) by (auto simp: H'_def)
qed

text \<open>Appending is inserting after the last element.\<close>

lemma insert_tail_after: "q_prev H h = Some p \<Longrightarrow> q_next H p = Some h \<Longrightarrow> x \<noteq> h \<Longrightarrow> x \<noteq> p \<Longrightarrow> allocated H x \<Longrightarrow>
  ngx_queue_insert_tail h x H = ngx_queue_insert_after p x H"
  by (auto simp: ngx_queue_insert_tail_def ngx_queue_insert_head_def set_next_def set_prev_def allocated_def fun_upd_twist)

lemma queue_insert_tail:
  assumes q: "queue H h xs" and x: "x \<notin> set (h # xs)" "allocated H x"
  shows "\<exists>H'. ngx_queue_insert_tail h x H = Some H' \<and> queue H' h (xs @ [x]) \<and> same_outside (set (h # x # xs)) H H'"
proof -
  have e: "q_next H (last (h # xs)) = Some h" "q_prev H h = Some (last (h # xs))" using queue_ends [of H h xs "[]"] q by simp_all
  have "last (h # xs) \<in> set (h # xs)" by (rule last_in_set) simp
  then have "x \<noteq> last (h # xs)" using x(1) by auto
  then show ?thesis using queue_insert_after [of H h xs "[]" x] insert_tail_after [OF e(2,1)] q x by auto
qed

lemma linked_chop: "linked H (w @ [l]) \<Longrightarrow> q_next H l = Some a \<Longrightarrow> q_prev H a = Some l \<Longrightarrow> linked H (w @ [l, a])"
  using linked_append [of H w l a "[]"] by simp

lemma queue_split:
  assumes q: "queue H h (xs @ q # ys)" and n: "n \<notin> set (h # xs @ q # ys)" "allocated H n"
  shows "\<exists>H'. ngx_queue_split h q n H = Some H' \<and> queue H' h xs \<and> queue H' n (q # ys) \<and> same_outside (set (h # n # xs @ q # ys)) H H'"
proof -
  obtain u p v where pl: "place h xs (q # ys) u p q v" using placeI [of h xs "q # ys"] by auto
  obtain w l where wl: "q # ys = w @ [l]" by (metis append_butlast_last_id list.distinct(1))
  note d = placeD [OF pl] and k = queue_place [OF q pl]
  have dj: "distinct (h # xs @ q # ys)" using q by (simp add: queue_def)
  have v: "q # v = w @ l # [h]" using pl wl by (simp add: place_def)
  then have "linked H (w @ l # [h])" using k(4) by simp
  then have lw: "linked H (w @ [l])" "q_next H l = Some h" "q_prev H h = Some l" unfolding linked_append by blast+
  have "distinct (q # ys)" using dj by simp
  then have dw: "l \<notin> set w" unfolding wl by simp
  have "set (q # ys) = set (w @ [l])" using wl by metis
  then have mem: "l \<in> insert q (set ys)" "set w \<subseteq> insert q (set ys)" by auto
  have ne: "p \<noteq> n" "l \<noteq> n" "q \<noteq> n" "h \<noteq> n" "l \<noteq> p" "q \<noteq> h" "l \<noteq> h" "q \<noteq> p" "l \<notin> set u" "l \<notin> set w" "p \<notin> set w" "n \<notin> set w" "n \<notin> set u" "h \<notin> set ys" "n \<notin> set ys" "q \<notin> set ys"
    using d(5,7) k(5,7) dj n(1) mem dw by auto
  define H' where "H' = H\<lparr>q_next := (q_next H)(l \<mapsto> n, n \<mapsto> q, p \<mapsto> h), q_prev := (q_prev H)(n \<mapsto> l, h \<mapsto> p, q \<mapsto> n)\<rparr>"
  have op: "ngx_queue_split h q n H = Some H'"
    using k(2,3) lw(2,3) n(2) ne by (simp add: ngx_queue_split_def set_next_def set_prev_def H'_def allocated_def fun_upd_def)
  have "linked H' (u @ [p])"
    by (rule iffD2 [OF frame_front [OF pl] k(1)]) (use ne dj n(1) k(5) in \<open>auto simp: H'_def\<close>)
  from linked_chop [OF this] have "linked H' (u @ [p, h])" using ne by (simp add: H'_def)
  moreover have "h # xs @ [h] = u @ [p, h]" using pl by (simp add: place_def)
  ultimately have "linked H' (h # xs @ [h])" by (simp only:)
  then have "queue H' h xs" using dj by (simp add: queue_def)
  moreover have "queue H' n (q # ys)"
  proof -
    have "tl (w @ [l]) = ys" using wl by (metis list.sel(3))
    then have "linked H' (w @ [l]) \<longleftrightarrow> linked H (w @ [l])"
      using ne by (intro linked_frame) (auto simp: H'_def)
    then have "linked H' (w @ [l, n])" using linked_chop [of H' w l n] lw(1) ne by (simp add: H'_def)
    moreover have "q # ys @ [n] = w @ [l, n]" using wl by simp
    ultimately have "linked H' (q # ys @ [n])" by (simp only:)
    moreover have "q_next H' n = Some q" "q_prev H' q = Some n" using ne by (simp_all add: H'_def)
    ultimately show ?thesis using dj n(1) by (simp add: queue_def)
  qed
  moreover have "same_outside (set (h # n # xs @ q # ys)) H H'"
    using d(5) mem k lw n(2) ne by (auto simp: same_outside_def H'_def allocated_def)
  ultimately show ?thesis using op by blast
qed

lemma queue_add:
  assumes q: "queue H h xs" "queue H n ys" and dj: "set (h # xs) \<inter> set (n # ys) = {}"
  shows "\<exists>H'. ngx_queue_add h n H = Some H' \<and> queue H' h (xs @ ys) \<and> same_outside (set (h # n # xs @ ys)) H H'"
proof -
  obtain u p v where pl: "place h xs [] u p h v" using placeI [of h xs "[]"] by auto
  note d = placeD [OF pl] and k = queue_place [OF _ pl, of H]
  have v: "v = []" using pl by (simp add: place_def)
  have k: "linked H (u @ [p])" "q_next H p = Some h" "q_prev H h = Some p" "p \<notin> set u" using k q(1) by simp_all
  have dh: "distinct (h # xs)" "distinct (n # ys)" using q by (simp_all add: queue_def)
  show ?thesis
  proof (cases ys)
    case Nil
    have e: "q_next H n = Some n" "q_prev H n = Some n" using q(2) Nil by (simp_all add: queue_def)
    define H' where "H' = H\<lparr>q_next := (q_next H)(p \<mapsto> h), q_prev := (q_prev H)(n \<mapsto> p, h \<mapsto> p)\<rparr>"
    have ne: "n \<noteq> h" "n \<noteq> p" "n \<notin> set xs" using dj d(5) by auto
    have "ngx_queue_add h n H = Some H'" using e k ne by (simp add: ngx_queue_add_def set_next_def set_prev_def H'_def)
    moreover have "linked H' (h # xs @ [h]) \<longleftrightarrow> linked H (h # xs @ [h])"
      using k ne by (intro linked_frame) (auto simp: H'_def)
    then have "queue H' h (xs @ ys)" using q(1) Nil by (simp add: queue_def)
    moreover have "same_outside (set (h # n # xs @ ys)) H H'" using d(5) k by (auto simp: same_outside_def H'_def allocated_def)
    ultimately show ?thesis by blast
  next
    case (Cons f ys')
    obtain w l where wl: "ys = w @ [l]" using Cons by (metis append_butlast_last_id list.distinct(1))
    have "linked H (n # f # ys' @ [n])" using q(2) Cons by (simp add: queue_def)
    then have f: "q_next H n = Some f" "q_prev H f = Some n" "linked H (f # ys' @ [n])" by simp_all
    have "f # ys' @ [n] = w @ l # [n]" using wl Cons by simp
    then have "linked H (w @ l # [n])" using f(3) by (simp only:)
    then have lw: "linked H (w @ [l])" "q_next H l = Some n" "q_prev H n = Some l" unfolding linked_append by blast+
    have "distinct (w @ [l])" using dh wl by simp
    then have dw: "l \<notin> set w" by simp
    have dy: "n \<notin> set ys" "f \<notin> set ys'" "set ys = insert f (set ys')" using dh(2) Cons by auto
    have mem: "l \<in> set ys" "set w \<subseteq> set ys" using wl by auto
    have ne: "p \<noteq> l" "l \<noteq> p" "f \<noteq> h" "l \<noteq> h" "n \<noteq> p" "n \<noteq> h" "l \<notin> set u" "l \<notin> set w" "p \<notin> set w" "f \<notin> set xs" "h \<notin> set xs" "f \<notin> set ys'" "h \<notin> set ys'" "n \<noteq> f"
      using d(5,7) mem dj dy dw dh(1) by auto
    define H' where "H' = H\<lparr>q_next := (q_next H)(p \<mapsto> f, l \<mapsto> h), q_prev := (q_prev H)(f \<mapsto> p, h \<mapsto> l)\<rparr>"
    have op: "ngx_queue_add h n H = Some H'" using f(1,2) k(2,3) lw(2,3) ne by (simp add: ngx_queue_add_def set_next_def set_prev_def H'_def)
    have "linked H' (u @ [p])"
      by (rule iffD2 [OF frame_front [OF pl] k(1)]) (use ne k(4) in \<open>auto simp: H'_def\<close>)
    moreover have "tl (w @ [l]) = ys'" using wl Cons by (metis list.sel(3))
    then have "linked H' (w @ [l]) \<longleftrightarrow> linked H (w @ [l])" using ne by (intro linked_frame) (auto simp: H'_def)
    then have "linked H' (w @ [l, h])" using linked_chop [of H' w l h] lw(1) ne by (simp add: H'_def)
    then have "linked H' (f # ys' @ [h])" using wl Cons by (metis append.assoc append_Cons append_Nil)
    moreover have "h # (xs @ ys) @ [h] = u @ p # f # ys' @ [h]" using pl Cons by (simp add: place_def)
    moreover have "q_next H' p = Some f" "q_prev H' f = Some p" using ne by (simp_all add: H'_def)
    ultimately have "linked H' (h # (xs @ ys) @ [h])" by (simp only: linked_append)
    then have "queue H' h (xs @ ys)" using dj dh by (auto simp: queue_def)
    moreover have "same_outside (set (h # n # xs @ ys)) H H'" using d(5) mem dy(3) k f lw by (auto simp: same_outside_def H'_def allocated_def)
    ultimately show ?thesis using op by blast
  qed
qed

section \<open>The middle\<close>

lemma queue_next_nth: "queue H h xs \<Longrightarrow> i < length xs \<Longrightarrow> q_next H (xs ! i) = Some ((xs @ [h]) ! Suc i)"
proof -
  assume q: "queue H h xs" and i: "i < length xs"
  define as where "as = take (Suc i) xs"
  define bs where "bs = drop (Suc i) xs"
  have e: "xs = as @ bs" "length as = Suc i" using i by (simp_all add: as_def bs_def)
  then have "last (h # as) = xs ! i" by (cases as rule: rev_cases) (simp_all add: nth_append)
  moreover have "hd (bs @ [h]) = (xs @ [h]) ! Suc i" using e by (simp add: nth_append hd_conv_nth)
  ultimately show ?thesis using queue_ends(1) [of H h as bs] q e(1) by simp
qed

lemma queue_last: "queue H h xs \<Longrightarrow> xs \<noteq> [] \<Longrightarrow> ngx_queue_last h H = Some (xs ! (length xs - 1))"
  using queue_ends(2) [of H h xs "[]"] by (simp add: ngx_queue_last_def last_conv_nth)

lemma queue_head: "queue H h xs \<Longrightarrow> ngx_queue_head h H = Some (hd (xs @ [h]))"
  using queue_ends(1) [of H h "[]" xs] by (simp add: ngx_queue_head_def)

lemma queue_nth_eq: "queue H h xs \<Longrightarrow> i < length xs \<Longrightarrow> j < length xs \<Longrightarrow> xs ! i = xs ! j \<longleftrightarrow> i = j"
  by (simp add: queue_def nth_eq_iff_index_eq)

lemma middle_loop:
  assumes "queue H h xs" "Suc (2 * i) < length xs"
  shows "middle_loop h (xs ! i) (xs ! (2 * i)) H = Some (xs ! (length xs div 2))"
  using assms(2)
proof (induction "length xs - 2 * i" arbitrary: i rule: less_induct)
  case less
  note q = assms(1)
  have n: "q_next H (xs ! i) = Some (xs ! Suc i)" "q_next H (xs ! (2 * i)) = Some (xs ! Suc (2 * i))"
    using queue_next_nth [OF q, of i] queue_next_nth [OF q, of "2 * i"] less.prems by (simp_all add: nth_append)
  have l: "ngx_queue_last h H = Some (xs ! (length xs - 1))" using queue_last [OF q] less.prems by (cases xs) auto
  consider (even) "length xs = Suc (Suc (2 * i))" | (odd) "length xs = Suc (Suc (Suc (2 * i)))" | (on) "Suc (2 * Suc i) < length xs"
    using less.prems by (cases "length xs = Suc (Suc (2 * i))"; cases "length xs = Suc (Suc (Suc (2 * i)))") auto
  then show ?case
  proof cases
    case even
    then show ?thesis using n l by (subst middle_loop.simps) simp
  next
    case odd
    have "q_next H (xs ! Suc (2 * i)) = Some (xs ! Suc (Suc (2 * i)))"
      using queue_next_nth [OF q, of "Suc (2 * i)"] odd by (simp add: nth_append)
    then show ?thesis using n l odd queue_nth_eq [OF q] by (subst middle_loop.simps) simp
  next
    case on
    have "q_next H (xs ! Suc (2 * i)) = Some (xs ! (2 * Suc i))"
      using queue_next_nth [OF q, of "Suc (2 * i)"] on by (simp add: nth_append)
    moreover have "middle_loop h (xs ! Suc i) (xs ! (2 * Suc i)) H = Some (xs ! (length xs div 2))"
      using less.hyps [of "Suc i"] on by simp
    moreover have "xs ! Suc (2 * i) \<noteq> xs ! (length xs - 1)" "xs ! (2 * Suc i) \<noteq> xs ! (length xs - 1)"
      using queue_nth_eq [OF q] on by simp_all
    ultimately show ?thesis using n l by (subst middle_loop.simps) simp
  qed
qed

lemma queue_middle: "queue H h xs \<Longrightarrow> ngx_queue_middle h H = Some (if xs = [] then h else xs ! (length xs div 2))"
proof (cases "xs = []")
  case True
  assume "queue H h xs"
  then show ?thesis using True queue_ends [of H h "[]" "[]"] by (simp add: ngx_queue_middle_def ngx_queue_head_def ngx_queue_last_def)
next
  case False
  assume q: "queue H h xs"
  have e: "ngx_queue_head h H = Some (xs ! 0)" "ngx_queue_last h H = Some (xs ! (length xs - 1))"
    using queue_head [OF q] queue_last [OF q] False by (simp_all add: hd_conv_nth nth_append)
  show ?thesis
  proof (cases "length xs = 1")
    case True
    then show ?thesis using e False by (simp add: ngx_queue_middle_def)
  next
    case len: False
    then have "1 < length xs" using False by (cases xs) auto
    then show ?thesis using e False middle_loop [OF q, of 0] queue_nth_eq [OF q, of 0 "length xs - 1"]
      by (simp add: ngx_queue_middle_def)
  qed
qed

section \<open>Sorting\<close>

lemma same_outside_trans [trans]: "same_outside X H H' \<Longrightarrow> same_outside X H' H'' \<Longrightarrow> same_outside X H H''"
  by (auto simp: same_outside_def)

lemma same_outside_mono: "same_outside X H H' \<Longrightarrow> X \<subseteq> Y \<Longrightarrow> same_outside Y H H'"
  by (auto simp: same_outside_def)

lemma same_outside_refl: "same_outside X H H"
  by (auto simp: same_outside_def)

lemma filter_sorted_split:
  "sorted (map k ss) \<Longrightarrow> filter (\<lambda>a. k a \<le> c) ss @ filter (\<lambda>a. \<not> k a \<le> c) ss = ss" for k :: "'a \<Rightarrow> 'b :: linorder"
proof (induction ss)
  case (Cons a ss)
  show ?case
  proof (cases "k a \<le> c")
    case True
    then show ?thesis using Cons by simp
  next
    case False
    then have "\<forall>b \<in> set ss. \<not> k b \<le> c" using Cons.prems by fastforce
    then show ?thesis using False by simp
  qed
qed simp

text \<open>The effect of the sort on the list of elements: each element in turn is inserted from the rear.\<close>

definition ins_back :: "('a \<Rightarrow> 'a \<Rightarrow> int) \<Rightarrow> 'a \<Rightarrow> 'a list \<Rightarrow> 'a list" where
  "ins_back cmp q ss = rev (dropWhile (\<lambda>p. 0 < cmp p q) (rev ss)) @ q # rev (takeWhile (\<lambda>p. 0 < cmp p q) (rev ss))"

definition sort_list :: "('a \<Rightarrow> 'a \<Rightarrow> int) \<Rightarrow> 'a list \<Rightarrow> 'a list" where
  "sort_list cmp xs = foldl (\<lambda>ss q. ins_back cmp q ss) [] xs"

lemma sort_list_simps: "sort_list cmp [] = []" "sort_list cmp (xs @ [q]) = ins_back cmp q (sort_list cmp xs)"
  by (simp_all add: sort_list_def)

lemma mset_ins_back: "mset (ins_back cmp q ss) = add_mset q (mset ss)"
proof -
  have "mset (rev ss) = mset (takeWhile (\<lambda>p. 0 < cmp p q) (rev ss)) + mset (dropWhile (\<lambda>p. 0 < cmp p q) (rev ss))"
    by (metis mset_append takeWhile_dropWhile_id)
  then show ?thesis by (simp add: ins_back_def)
qed

lemma mset_sort_list [simp]: "mset (sort_list cmp xs) = mset xs"
  by (induction xs rule: rev_induct) (simp_all add: sort_list_simps mset_ins_back)

lemma set_sort_list [simp]: "set (sort_list cmp xs) = set xs"
  by (metis mset_eq_setD mset_sort_list)

text \<open>A comparison by keys gives the stable sort.\<close>

definition by_key :: "('a \<Rightarrow> 'a \<Rightarrow> int) \<Rightarrow> ('a \<Rightarrow> 'b :: linorder) \<Rightarrow> 'a set \<Rightarrow> bool" where
  "by_key cmp k X \<longleftrightarrow> (\<forall>a \<in> X. \<forall>b \<in> X. cmp a b \<le> 0 \<longleftrightarrow> k a \<le> k b)"

definition ins_key :: "('a \<Rightarrow> 'b :: linorder) \<Rightarrow> 'a \<Rightarrow> 'a list \<Rightarrow> 'a list" where
  "ins_key k q ss = filter (\<lambda>a. k a \<le> k q) ss @ q # filter (\<lambda>a. \<not> k a \<le> k q) ss"

lemma ins_key_sort: "ins_key k q (sort_key k xs) = sort_key k (xs @ [q])"
proof (rule properties_for_sort_key [symmetric])
  let ?y = "ins_key k q (sort_key k xs)"
  have "mset (filter (\<lambda>a. k a \<le> k q) (sort_key k xs) @ filter (\<lambda>a. \<not> k a \<le> k q) (sort_key k xs)) = mset xs"
    using filter_sorted_split [of k "sort_key k xs" "k q"] by simp
  then show "mset ?y = mset (xs @ [q])" unfolding ins_key_def by simp
  show "sorted (map k ?y)"
    by (auto simp: ins_key_def sorted_append sorted_filter)
  fix a assume "a \<in> set ?y"
  have st: "filter (\<lambda>x. k a = k x) (sort_key k xs) = filter (\<lambda>x. k a = k x) xs"
    using sort_key_stable [of k "k a" xs] by (simp only: eq_commute [of "k a"])
  consider (lt) "k a < k q" | (eq) "k a = k q" | (gt) "k q < k a" by fastforce
  then show "filter (\<lambda>x. k a = k x) ?y = filter (\<lambda>x. k a = k x) (xs @ [q])"
  proof cases
    case lt
    then have "filter (\<lambda>x. k a = k x) (filter (\<lambda>a. k a \<le> k q) (sort_key k xs)) = filter (\<lambda>x. k a = k x) (sort_key k xs)"
      "filter (\<lambda>x. k a = k x) (filter (\<lambda>a. \<not> k a \<le> k q) (sort_key k xs)) = []"
      by (auto simp: filter_empty_conv intro!: filter_cong)
    then show ?thesis using less_imp_neq [OF lt] st by (simp add: ins_key_def)
  next
    case eq
    then have "filter (\<lambda>x. k a = k x) (filter (\<lambda>a. k a \<le> k q) (sort_key k xs)) = filter (\<lambda>x. k a = k x) (sort_key k xs)"
      "filter (\<lambda>x. k a = k x) (filter (\<lambda>a. \<not> k a \<le> k q) (sort_key k xs)) = []"
      by (auto simp: filter_empty_conv intro!: filter_cong)
    then show ?thesis using eq st by (simp add: ins_key_def)
  next
    case gt
    then have "filter (\<lambda>x. k a = k x) (filter (\<lambda>a. k a \<le> k q) (sort_key k xs)) = []"
      "filter (\<lambda>x. k a = k x) (filter (\<lambda>a. \<not> k a \<le> k q) (sort_key k xs)) = filter (\<lambda>x. k a = k x) (sort_key k xs)"
      by (auto simp: filter_empty_conv intro!: filter_cong)
    then show ?thesis using less_imp_neq [OF gt] st by (simp add: ins_key_def)
  qed
qed

lemma ins_back_key:
  assumes "sorted (map k ss)" "\<And>a. a \<in> set ss \<Longrightarrow> cmp a q \<le> 0 \<longleftrightarrow> k a \<le> k q"
  shows "ins_back cmp q ss = ins_key k q ss"
proof -
  let ?P = "\<lambda>p. 0 < cmp p q"
  have d: "dropWhile ?P (rev ss) = filter (\<lambda>a. k a \<le> k q) (rev ss)" and t: "takeWhile ?P (rev ss) = filter (\<lambda>a. \<not> k a \<le> k q) (rev ss)"
    using assms
  proof (induction ss rule: rev_induct)
    case (snoc p us)
    { case 1
      show ?case
      proof (cases "k p \<le> k q")
        case True
        then have "\<forall>a \<in> set us. k a \<le> k q" using 1(1) by (fastforce simp: sorted_append)
        then show ?thesis using 1(2) [of p] True by (simp add: not_less)
      next
        case False
        then have "0 < cmp p q" using 1(2) [of p] by (simp add: not_le [symmetric])
        then show ?thesis using 1(1,2) False snoc.IH(1) by (simp add: sorted_append)
      qed
    next
      case 2
      show ?case
      proof (cases "k p \<le> k q")
        case True
        then have "\<forall>a \<in> set us. k a \<le> k q" using 2(1) by (fastforce simp: sorted_append)
        then show ?thesis using 2(2) [of p] True by (simp add: not_less)
      next
        case False
        then have "0 < cmp p q" using 2(2) [of p] by (simp add: not_le [symmetric])
        then show ?thesis using 2(1,2) False snoc.IH(2) by (simp add: sorted_append)
      qed
    }
  qed simp_all
  show ?thesis unfolding ins_back_def ins_key_def d t by (simp add: rev_filter)
qed

lemma sort_list_key: "by_key cmp k (set xs) \<Longrightarrow> sort_list cmp xs = sort_key k xs"
proof (induction xs rule: rev_induct)
  case (snoc q xs)
  then have "sort_list cmp xs = sort_key k xs" by (simp add: by_key_def)
  moreover have "ins_back cmp q (sort_key k xs) = ins_key k q (sort_key k xs)"
    using snoc.prems by (intro ins_back_key) (auto simp: by_key_def)
  ultimately show ?case by (simp add: sort_list_simps ins_key_sort)
qed (simp add: sort_list_simps)

text \<open>The loops.\<close>

lemma sort_back:
  assumes "queue H h (ss @ rest)" "ss \<noteq> []"
  shows "sort_back cmp h (last ss) q H = Some (last (h # rev (dropWhile (\<lambda>p. 0 < cmp p q) (rev ss))))"
  using assms
proof (induction ss arbitrary: rest rule: rev_induct)
  case (snoc p us)
  show ?case
  proof (cases "cmp p q \<le> 0")
    case True
    then show ?thesis by (subst sort_back.simps) simp
  next
    case False
    have e: "q_prev H p = Some (last (h # us))" using queue_ends(2) [of H h us "p # rest"] snoc.prems(1) by simp
    show ?thesis
    proof (cases "us = []")
      case True
      then show ?thesis using e False by (subst sort_back.simps) simp
    next
      case us: False
      have "last us \<noteq> h" using snoc.prems(1) us last_in_set [OF us] by (auto simp: queue_def)
      moreover have "sort_back cmp h (last us) q H = Some (last (h # rev (dropWhile (\<lambda>p. 0 < cmp p q) (rev us))))"
        using snoc.IH [of "p # rest"] snoc.prems us by simp
      ultimately show ?thesis using e us False by (subst sort_back.simps) simp
    qed
  qed
qed simp

lemma sort_loop:
  assumes "queue H h (sort_list cmp ds @ rest)" "ds \<noteq> []"
  shows "\<exists>H'. sort_loop cmp h (hd (rest @ [h])) H = Some H' \<and> queue H' h (sort_list cmp (ds @ rest)) \<and> same_outside (set (h # ds @ rest)) H H'"
  using assms
proof (induction rest arbitrary: ds H)
  case Nil
  then show ?case by (subst sort_loop.simps) (simp add: same_outside_refl)
next
  case (Cons q rest)
  let ?P = "\<lambda>p. 0 < cmp p q" and ?ss = "sort_list cmp ds"
  let ?A = "rev (dropWhile ?P (rev ?ss))" and ?B = "rev (takeWhile ?P (rev ?ss))"
  have sp: "?A @ ?B = ?ss" by (metis rev_append rev_rev_ident takeWhile_dropWhile_id)
  then have ss: "set ?A \<union> set ?B = set ds" by (metis set_append set_sort_list)
  have ne: "?ss \<noteq> []" using Cons.prems(2) by (metis mset_sort_list mset_zero_iff)
  have qh: "q \<noteq> h" "q \<notin> set (h # ?ss @ rest)" using Cons.prems(1) by (auto simp: queue_def)
  have lk: "q_prev H q = Some (last ?ss)" "q_next H q = Some (hd (rest @ [h]))"
    using queue_ends(2) [of H h ?ss "q # rest"] queue_ends(1) [of H h "?ss @ [q]" rest] Cons.prems(1) ne by simp_all
  obtain H1 where r: "ngx_queue_remove q H = Some H1" "queue H1 h (?ss @ rest)" "same_outside (set (h # ?ss @ rest)) H H1" "allocated H1 q"
    using queue_remove [OF Cons.prems(1)] by blast
  have b: "sort_back cmp h (last ?ss) q H1 = Some (last (h # ?A))" by (rule sort_back [OF r(2) ne])
  have "queue H1 h (?A @ ?B @ rest)" using r(2) sp by (metis append.assoc)
  moreover have "q \<notin> set (h # ?A @ ?B @ rest)" using qh ss by auto
  ultimately obtain H2 where i: "ngx_queue_insert_after (last (h # ?A)) q H1 = Some H2" "queue H2 h (?A @ q # ?B @ rest)"
      "same_outside (set (h # q # ?A @ ?B @ rest)) H1 H2"
    using queue_insert_after [of H1 h ?A "?B @ rest" q] r(4) by blast
  have "queue H2 h (sort_list cmp (ds @ [q]) @ rest)" using i(2) by (simp add: sort_list_simps ins_back_def)
  then obtain H3 where t: "sort_loop cmp h (hd (rest @ [h])) H2 = Some H3" "queue H3 h (sort_list cmp (ds @ q # rest))"
      "same_outside (set (h # ds @ q # rest)) H2 H3"
    using Cons.IH [of H2 "ds @ [q]"] by auto
  have "same_outside (set (h # ds @ q # rest)) H H1" "same_outside (set (h # ds @ q # rest)) H1 H2"
    using r(3) i(3) ss by (auto elim!: same_outside_mono)
  then have "same_outside (set (h # ds @ q # rest)) H H3" using t(3) same_outside_trans by blast
  moreover have "sort_loop cmp h q H = Some H3" using qh lk r(1) b i(1) t(1) by (subst sort_loop.simps) simp
  ultimately show ?case using t(2) by auto
qed

lemma queue_sort:
  assumes "queue H h xs"
  shows "\<exists>H'. ngx_queue_sort cmp h H = Some H' \<and> queue H' h (sort_list cmp xs) \<and> same_outside (set (h # xs)) H H'"
proof (cases xs)
  case Nil
  then show ?thesis using queue_ends [of H h "[]" "[]"] assms
    by (simp add: ngx_queue_sort_def ngx_queue_head_def ngx_queue_last_def same_outside_refl sort_list_simps)
next
  case (Cons x rest)
  have e: "ngx_queue_head h H = Some x" "ngx_queue_last h H = Some (last xs)"
    using queue_head [OF assms] queue_ends(2) [of H h xs "[]"] assms Cons by (simp_all add: ngx_queue_last_def)
  have one: "sort_list cmp [x] = [x]" by (simp add: sort_list_def ins_back_def)
  show ?thesis
  proof (cases "rest = []")
    case True
    then show ?thesis using assms e Cons one by (simp add: ngx_queue_sort_def same_outside_refl)
  next
    case False
    have "x \<noteq> last xs" using assms last_in_set [OF False] False Cons by (auto simp: queue_def)
    moreover have "q_next H x = Some (hd (rest @ [h]))" using queue_ends(1) [of H h "[x]" rest] assms Cons by simp
    ultimately have "ngx_queue_sort cmp h H = sort_loop cmp h (hd (rest @ [h])) H" using e by (simp add: ngx_queue_sort_def)
    then show ?thesis using sort_loop [of H h cmp "[x]" rest] assms Cons one by simp
  qed
qed

section \<open>The interface\<close>

text \<open>
  What users of a queue rely on: \<open>rep s h xs\<close> is the queue at \<open>h\<close>, \<open>alloc\<close> the existing cells
  and \<open>frame X\<close> a change inside \<open>X\<close>.
\<close>

locale queue_ops =
  fixes rep :: "'s \<Rightarrow> nat \<Rightarrow> nat list \<Rightarrow> bool" and alloc :: "'s \<Rightarrow> nat \<Rightarrow> bool" and frame :: "nat set \<Rightarrow> 's \<Rightarrow> 's \<Rightarrow> bool"
    and ins :: "nat \<Rightarrow> nat \<Rightarrow> 's \<Rightarrow> 's option" and del :: "nat \<Rightarrow> 's \<Rightarrow> 's option"
  assumes rep_distinct: "rep s h xs \<Longrightarrow> distinct (h # xs)"
    and rep_frame: "rep s h xs \<Longrightarrow> frame X s s' \<Longrightarrow> X \<inter> set (h # xs) = {} \<Longrightarrow> rep s' h xs"
    and ins_rep: "rep s h xs \<Longrightarrow> x \<notin> set (h # xs) \<Longrightarrow> alloc s x \<Longrightarrow>
      \<exists>s'. ins h x s = Some s' \<and> rep s' h (x # xs) \<and> frame (set (h # x # xs)) s s'"
    and del_rep: "rep s h (xs @ x # ys) \<Longrightarrow>
      \<exists>s'. del x s = Some s' \<and> rep s' h (xs @ ys) \<and> alloc s' x \<and> frame (set (h # xs @ ys)) s s'"
begin

lemma del_ins_other:
  assumes a: "rep s a (xs @ x # ys)" and b: "rep s b zs" and dj: "set (a # xs @ x # ys) \<inter> set (b # zs) = {}"
  shows "\<exists>s'. del x s \<bind> ins b x = Some s' \<and> rep s' a (xs @ ys) \<and> rep s' b (x # zs)"
proof -
  obtain s1 where s1: "del x s = Some s1" "rep s1 a (xs @ ys)" "alloc s1 x" "frame (set (a # xs @ ys)) s s1"
    using del_rep [OF a] by blast
  have b1: "rep s1 b zs" using rep_frame [OF b s1(4)] dj by auto
  moreover have "x \<notin> set (b # zs)" using dj by auto
  ultimately obtain s2 where s2: "ins b x s1 = Some s2" "rep s2 b (x # zs)" "frame (set (b # x # zs)) s1 s2"
    using ins_rep s1(3) by blast
  have "rep s2 a (xs @ ys)" using rep_frame [OF s1(2) s2(3)] dj rep_distinct [OF a] by auto
  then show ?thesis using s1(1) s2 by auto
qed

lemma del_ins_same:
  assumes a: "rep s a (xs @ x # ys)"
  shows "\<exists>s'. del x s \<bind> ins a x = Some s' \<and> rep s' a (x # xs @ ys) \<and> (\<forall>b zs. rep s b zs \<longrightarrow> set (b # zs) \<inter> set (a # xs @ x # ys) = {} \<longrightarrow> rep s' b zs)"
proof -
  obtain s1 where s1: "del x s = Some s1" "rep s1 a (xs @ ys)" "alloc s1 x" "frame (set (a # xs @ ys)) s s1"
    using del_rep [OF a] by blast
  have "x \<notin> set (a # xs @ ys)" using rep_distinct [OF a] by auto
  then obtain s2 where s2: "ins a x s1 = Some s2" "rep s2 a (x # xs @ ys)" "frame (set (a # x # xs @ ys)) s1 s2"
    using ins_rep [OF s1(2)] s1(3) by blast
  have "rep s2 b zs" if "rep s b zs" "set (b # zs) \<inter> set (a # xs @ x # ys) = {}" for b zs
  proof (rule rep_frame [OF rep_frame [OF that(1) s1(4)] s2(3)])
    show "set (a # xs @ ys) \<inter> set (b # zs) = {}" "set (a # x # xs @ ys) \<inter> set (b # zs) = {}" using that(2) by auto
  qed
  then show ?thesis using s1(1) s2 by auto
qed

end

lemma queue_frame: "queue H h xs \<Longrightarrow> same_outside X H H' \<Longrightarrow> X \<inter> set (h # xs) = {} \<Longrightarrow> queue H' h xs"
proof -
  assume q: "queue H h xs" "same_outside X H H'" "X \<inter> set (h # xs) = {}"
  have "linked H' (h # xs @ [h]) \<longleftrightarrow> linked H (h # xs @ [h])"
    using q(2,3) by (intro linked_frame) (auto simp: same_outside_def butlast_append)
  then show ?thesis using q(1) by (simp add: queue_def)
qed

interpretation ptr: queue_ops queue allocated same_outside ngx_queue_insert_head ngx_queue_remove
proof
  show "queue H h xs \<Longrightarrow> distinct (h # xs)" for H h xs by (simp add: queue_def)
  show "queue H h xs \<Longrightarrow> same_outside X H H' \<Longrightarrow> X \<inter> set (h # xs) = {} \<Longrightarrow> queue H' h xs" for H h xs X H' by (rule queue_frame)
  show "\<exists>H'. ngx_queue_insert_head h x H = Some H' \<and> queue H' h (x # xs) \<and> same_outside (set (h # x # xs)) H H'"
    if "queue H h xs" "x \<notin> set (h # xs)" "allocated H x" for H h xs x
    using queue_insert_after [of H h "[]" xs x] that by simp
  show "\<exists>H'. ngx_queue_remove x H = Some H' \<and> queue H' h (xs @ ys) \<and> allocated H' x \<and> same_outside (set (h # xs @ ys)) H H'"
    if "queue H h (xs @ x # ys)" for H h xs x ys
    using queue_remove [OF that] by blast
qed

section \<open>Properties\<close>

lemma queue_init:
  assumes "allocated H h"
  shows "\<exists>H'. ngx_queue_init h H = Some H' \<and> queue H' h [] \<and> same_outside {h} H H'"
  using assms by (auto simp: ngx_queue_init_def set_next_def set_prev_def allocated_def queue_def same_outside_def)

lemma queue_empty: "queue H h xs \<Longrightarrow> ngx_queue_empty h H = Some (xs = [])"
  using queue_ends(2) [of H h xs "[]"] by (auto simp: ngx_queue_empty_def queue_def)

text \<open>
  C38. \<open>ngx_queue_sort\<close> on a queue whose comparison orders the elements by a key returns, follows
  no pointer to nowhere, rearranges the queue into the stable sort of its elements by that
  key, linked in both directions, and changes no other cell.
\<close>

theorem queue_sort_stable:
  fixes k :: "nat \<Rightarrow> 'b :: linorder"
  assumes "queue H h xs" and "by_key cmp k (set xs)"
  shows "\<exists>H'. ngx_queue_sort cmp h H = Some H' \<and> queue H' h (sort_key k xs) \<and>
    (\<forall>a. a \<notin> set (h # xs) \<longrightarrow> q_next H' a = q_next H a \<and> q_prev H' a = q_prev H a)"
  using queue_sort [OF assms(1), of cmp] sort_list_key [OF assms(2)] by (auto simp: same_outside_def)

definition sample_queue :: qheap where
  "sample_queue = \<lparr>q_next = [0 \<mapsto> 3, 3 \<mapsto> 11, 11 \<mapsto> 2, 2 \<mapsto> 0], q_prev = [3 \<mapsto> 0, 11 \<mapsto> 3, 2 \<mapsto> 11, 0 \<mapsto> 2]\<rparr>"

theorem queue_sort_stable_witness:
  "\<exists>H'. ngx_queue_sort (\<lambda>a b. int (a mod 9) - int (b mod 9)) 0 sample_queue = Some H' \<and> queue H' 0 [11, 2, 3]"
proof -
  have "queue sample_queue 0 [3, 11, 2]" by (simp add: queue_def sample_queue_def)
  moreover have "by_key (\<lambda>a b. int (a mod 9) - int (b mod 9)) (\<lambda>a. a mod 9) (set [3, 11, 2])" by (simp add: by_key_def)
  ultimately have "\<exists>H'. ngx_queue_sort (\<lambda>a b. int (a mod 9) - int (b mod 9)) 0 sample_queue = Some H' \<and>
      queue H' 0 (sort_key (\<lambda>a. a mod 9) [3, 11, 2]) \<and>
      (\<forall>a. a \<notin> set (0 # [3, 11, 2]) \<longrightarrow> q_next H' a = q_next sample_queue a \<and> q_prev H' a = q_prev sample_queue a)"
    by (rule queue_sort_stable)
  moreover have "sort_key (\<lambda>a. a mod 9) [3, 11, 2 :: nat] = [11, 2, 3]" by simp
  ultimately show ?thesis by auto
qed

end
