(* ===== verification/Upstream_Keepalive.thy ===== *)
theory Upstream_Keepalive
  imports Ngx_Queue
begin

text \<open>
  The cache of idle upstream connections of
  \<^verbatim>\<open>src/http/modules/ngx_http_upstream_keepalive_module.c\<close>, a client of the queues of \<open>Ngx_Queue\<close>.

  The state holds the links of the two queues, the fields of the items (\<open>connection\<close>, and
  \<open>sockaddr\<close> with its \<open>socklen\<close> as a byte list) and the open connections with the
  fields the module reads or writes; a closed connection is absent, so that using one is
  \<open>None\<close>.  What comes from outside is an argument: the verdict of the balancer and the
  address it chose, the fields of the request that decide whether a connection may be kept,
  and the results of \<open>ngx_handle_read_event\<close> and \<open>recv\<close>.  Connections are plain
  ones (the branches for TLS are left out), logs are left out, and so is the call of
  \<open>original_free_peer\<close> at the end of \<open>ngx_http_upstream_free_keepalive_peer\<close>, which hands \<open>pc\<close> on to the
  balancer and does not touch the cache.

  Result: every run of the module refines a list of connections.
\<close>

section \<open>State\<close>

record ka_flags =
  f_close :: bool
  f_read_eof :: bool
  f_read_error :: bool
  f_read_timedout :: bool
  f_read_ready :: bool
  f_write_error :: bool
  f_write_timedout :: bool

datatype ka_handler = Ka_other_handler | Ka_dummy_handler | Ka_close_handler

record ka_conn =
  flags :: ka_flags
  idle :: bool
  sent :: nat
  conn_data :: nat
  read_timer_set :: bool
  write_timer_set :: bool
  read_handler :: ka_handler
  write_handler :: ka_handler

record ka =
  links :: qheap
  cache_q :: nat
  free_q :: nat
  item_conn :: "nat \<Rightarrow> nat"
  item_sockaddr :: "nat \<Rightarrow> bytes"
  conns :: "nat \<rightharpoonup> ka_conn"

section \<open>Operations\<close>

fun ngx_memcmp :: "bytes \<Rightarrow> bytes \<Rightarrow> nat \<Rightarrow> int" where
  "ngx_memcmp (a # s1) (b # s2) (Suc n) = (if a = b then ngx_memcmp s1 s2 n else uint a - uint b)"
| "ngx_memcmp s1 s2 n = 0"

definition ngx_memn2cmp :: "bytes \<Rightarrow> bytes \<Rightarrow> nat \<Rightarrow> nat \<Rightarrow> int" where
  "ngx_memn2cmp s1 s2 n1 n2 =
     (let (n, z) = (if n1 \<le> n2 then (n1, - 1) else (n2, 1));
          m = ngx_memcmp s1 s2 n
      in if m \<noteq> 0 \<or> n1 = n2 then m else z)"

fun ka_fill :: "nat \<Rightarrow> nat list \<Rightarrow> qheap \<Rightarrow> qheap option" where
  "ka_fill fr [] H = Some H"
| "ka_fill fr (i # is) H = do { H \<leftarrow> ngx_queue_insert_head fr i H; ka_fill fr is H }"

definition ngx_http_upstream_init_keepalive :: "nat list \<Rightarrow> ka \<Rightarrow> ka option" where
  "ngx_http_upstream_init_keepalive cached st = do {
     H \<leftarrow> ngx_queue_init (cache_q st) (links st);
     H \<leftarrow> ngx_queue_init (free_q st) H;
     H \<leftarrow> ka_fill (free_q st) cached H;
     Some (st\<lparr>links := H\<rparr>) }"

partial_function (option) ka_search :: "bytes \<Rightarrow> nat \<Rightarrow> ka \<Rightarrow> nat option option" where
  "ka_search sockaddr q st =
     (if q = cache_q st then Some None
      else if ngx_memn2cmp (item_sockaddr st q) sockaddr (length (item_sockaddr st q)) (length sockaddr) = 0 then Some (Some q)
      else do { q \<leftarrow> q_next (links st) q; ka_search sockaddr q st })"

definition ngx_http_upstream_get_keepalive_peer :: "ngx_rc \<Rightarrow> bytes \<Rightarrow> ka \<Rightarrow> ((ngx_rc \<times> nat option) \<times> ka) option" where
  "ngx_http_upstream_get_keepalive_peer rc sockaddr st =
     (if rc \<noteq> NGX_OK then Some ((rc, None), st)
      else do {
        q \<leftarrow> ngx_queue_head (cache_q st) (links st);
        found \<leftarrow> ka_search sockaddr q st;
        case found of
          None \<Rightarrow> Some ((NGX_OK, None), st)
        | Some q \<Rightarrow> do {
            H \<leftarrow> ngx_queue_remove q (links st);
            H \<leftarrow> ngx_queue_insert_head (free_q st) q H;
            k \<leftarrow> conns st (item_conn st q);
            Some ((NGX_DONE, Some (item_conn st q)),
              st\<lparr>links := H, conns := (conns st)(item_conn st q \<mapsto> k\<lparr>idle := False, sent := 0\<rparr>)\<rparr>) } })"

definition ngx_http_upstream_keepalive_close :: "nat \<Rightarrow> ka \<Rightarrow> ka option" where
  "ngx_http_upstream_keepalive_close c st = do {
     _ \<leftarrow> conns st c;
     Some (st\<lparr>conns := (conns st)(c := None)\<rparr>) }"

definition ngx_http_upstream_keepalive_close_handler :: "nat \<Rightarrow> bool \<Rightarrow> bool \<Rightarrow> ka \<Rightarrow> ka option" where
  "ngx_http_upstream_keepalive_close_handler c eagain handle_ok st = do {
     k \<leftarrow> conns st c;
     let again = (\<not> f_close (flags k) \<and> eagain);
     let st = (if again then st\<lparr>conns := (conns st)(c \<mapsto> k\<lparr>flags := (flags k)\<lparr>f_read_ready := False\<rparr>\<rparr>)\<rparr> else st);
     if again \<and> handle_ok then Some st
     else do {
       let item = conn_data k;
       st \<leftarrow> ngx_http_upstream_keepalive_close c st;
       H \<leftarrow> ngx_queue_remove item (links st);
       H \<leftarrow> ngx_queue_insert_head (free_q st) item H;
       Some (st\<lparr>links := H\<rparr>) } }"

record ka_env =
  peer_failed :: bool
  keepalive :: bool
  request_body_sent :: bool
  terminating :: bool
  handle_read_ok :: bool
  recv_eagain :: bool
  handle_again_ok :: bool

definition ka_flags_bad :: "ka_flags \<Rightarrow> bool" where
  "ka_flags_bad f \<longleftrightarrow> f_read_eof f \<or> f_read_error f \<or> f_read_timedout f \<or> f_write_error f \<or> f_write_timedout f"

definition ka_save :: "nat \<Rightarrow> bytes \<Rightarrow> ka \<Rightarrow> ka option" where
  "ka_save c sockaddr st = do {
     e \<leftarrow> ngx_queue_empty (free_q st) (links st);
     (q, st) \<leftarrow> (if e
       then do {
         q \<leftarrow> ngx_queue_last (cache_q st) (links st);
         H \<leftarrow> ngx_queue_remove q (links st);
         st \<leftarrow> ngx_http_upstream_keepalive_close (item_conn st q) (st\<lparr>links := H\<rparr>);
         Some (q, st) }
       else do {
         q \<leftarrow> ngx_queue_head (free_q st) (links st);
         H \<leftarrow> ngx_queue_remove q (links st);
         Some (q, st\<lparr>links := H\<rparr>) });
     H \<leftarrow> ngx_queue_insert_head (cache_q st) q (links st);
     k \<leftarrow> conns st c;
     let k = k\<lparr>read_timer_set := False, write_timer_set := False, write_handler := Ka_dummy_handler,
               read_handler := Ka_close_handler, conn_data := q, idle := True\<rparr>;
     Some (st\<lparr>links := H, item_conn := (item_conn st)(q := c), item_sockaddr := (item_sockaddr st)(q := sockaddr),
              conns := (conns st)(c \<mapsto> k)\<rparr>) }"

definition ngx_http_upstream_free_keepalive_peer :: "nat option \<Rightarrow> bytes \<Rightarrow> ka_env \<Rightarrow> ka \<Rightarrow> (nat option \<times> ka) option" where
  "ngx_http_upstream_free_keepalive_peer pc sockaddr e st =
     (if peer_failed e then Some (pc, st)
      else case pc of
        None \<Rightarrow> Some (None, st)
      | Some c \<Rightarrow> do {
          k \<leftarrow> conns st c;
          if ka_flags_bad (flags k) \<or> \<not> keepalive e \<or> \<not> request_body_sent e \<or> terminating e \<or> \<not> handle_read_ok e
          then Some (pc, st)
          else do {
            st \<leftarrow> ka_save c sockaddr st;
            st \<leftarrow> (if f_read_ready (flags k) then ngx_http_upstream_keepalive_close_handler c (recv_eagain e) (handle_again_ok e) st
                   else Some st);
            Some (None, st) } })"

section \<open>The cache as a list\<close>

text \<open>The abstract cache: connections with their addresses, the last one saved first, and the open connections.\<close>

record ka_abs =
  a_cache :: "(nat \<times> bytes) list"
  a_open :: "nat \<rightharpoonup> ka_flags"

definition abs_get :: "ngx_rc \<Rightarrow> bytes \<Rightarrow> ka_abs \<Rightarrow> (ngx_rc \<times> nat option) \<times> ka_abs" where
  "abs_get rc addr a =
     (if rc \<noteq> NGX_OK then ((rc, None), a)
      else case List.extract (\<lambda>(c, ad). ad = addr) (a_cache a) of
        None \<Rightarrow> ((NGX_OK, None), a)
      | Some (us, (c, _), vs) \<Rightarrow> ((NGX_DONE, Some c), a\<lparr>a_cache := us @ vs\<rparr>))"

definition abs_event :: "nat \<Rightarrow> bool \<Rightarrow> bool \<Rightarrow> ka_abs \<Rightarrow> ka_abs" where
  "abs_event c eagain handle_ok a =
     (case a_open a c of
        None \<Rightarrow> a
      | Some f \<Rightarrow>
          if \<not> f_close f \<and> eagain \<and> handle_ok then a\<lparr>a_open := (a_open a)(c \<mapsto> f\<lparr>f_read_ready := False\<rparr>)\<rparr>
          else a\<lparr>a_cache := filter (\<lambda>(d, _). d \<noteq> c) (a_cache a), a_open := (a_open a)(c := None)\<rparr>)"

definition abs_save :: "nat \<Rightarrow> nat \<Rightarrow> bytes \<Rightarrow> ka_abs \<Rightarrow> ka_abs" where
  "abs_save n c addr a =
     (if length (a_cache a) < n then a\<lparr>a_cache := (c, addr) # a_cache a\<rparr>
      else a\<lparr>a_cache := (c, addr) # butlast (a_cache a), a_open := (a_open a)(fst (last (a_cache a)) := None)\<rparr>)"

definition abs_free :: "nat \<Rightarrow> nat option \<Rightarrow> bytes \<Rightarrow> ka_env \<Rightarrow> ka_abs \<Rightarrow> nat option \<times> ka_abs" where
  "abs_free n pc addr e a =
     (case pc of
        None \<Rightarrow> (None, a)
      | Some c \<Rightarrow>
          let f = the (a_open a c) in
          if peer_failed e \<or> ka_flags_bad f \<or> \<not> keepalive e \<or> \<not> request_body_sent e \<or> terminating e \<or> \<not> handle_read_ok e then (pc, a)
          else (None, (if f_read_ready f then abs_event c (recv_eagain e) (handle_again_ok e) else (\<lambda>a. a)) (abs_save n c addr a)))"

text \<open>The pointer state \<open>st\<close>, with the items \<open>xs\<close> in its cache and \<open>ys\<close> free, represents \<open>a\<close>.\<close>

definition ka_rep :: "ka \<Rightarrow> nat list \<Rightarrow> nat list \<Rightarrow> ka_abs \<Rightarrow> bool" where
  "ka_rep st xs ys a \<longleftrightarrow>
     queue (links st) (cache_q st) xs \<and> queue (links st) (free_q st) ys \<and>
     set (cache_q st # xs) \<inter> set (free_q st # ys) = {} \<and>
     a_cache a = map (\<lambda>i. (item_conn st i, item_sockaddr st i)) xs \<and>
     a_open a = map_option flags \<circ> conns st \<and>
     (\<forall>i \<in> set xs. \<exists>k. conns st (item_conn st i) = Some k \<and> conn_data k = i \<and> idle k \<and> read_handler k = Ka_close_handler) \<and>
     (\<forall>c k. conns st c = Some k \<and> idle k \<longrightarrow> c \<in> item_conn st ` set xs)"

lemma memcmp_eq: "length s1 = length s2 \<Longrightarrow> ngx_memcmp s1 s2 (length s1) = 0 \<longleftrightarrow> s1 = s2"
  by (induction s1 s2 rule: list_induct2) (auto simp: word_uint_eq_iff)

lemma memn2cmp_eq: "ngx_memn2cmp s1 s2 (length s1) (length s2) = 0 \<longleftrightarrow> s1 = s2"
  using memcmp_eq [of s1 s2] by (auto simp: ngx_memn2cmp_def Let_def)

lemma ka_search:
  assumes "queue (links st) (cache_q st) (us @ vs)"
  shows "ka_search addr (hd (vs @ [cache_q st])) st = Some (find (\<lambda>i. item_sockaddr st i = addr) vs)"
  using assms
proof (induction vs arbitrary: us)
  case Nil
  show ?case by (subst ka_search.simps) simp
next
  case (Cons i vs)
  have "i \<noteq> cache_q st" using Cons.prems by (auto simp: queue_def)
  moreover have "q_next (links st) i = Some (hd (vs @ [cache_q st]))" using queue_ends(1) [of _ _ "us @ [i]" vs] Cons.prems by simp
  moreover have "ka_search addr (hd (vs @ [cache_q st])) st = Some (find (\<lambda>i. item_sockaddr st i = addr) vs)"
    using Cons.IH [of "us @ [i]"] Cons.prems by simp
  ultimately show ?case by (subst ka_search.simps) (simp add: memn2cmp_eq)
qed

lemma ka_rep_inj: "ka_rep st xs ys a \<Longrightarrow> inj_on (item_conn st) (set xs)"
proof (rule inj_onI)
  fix i j assume "ka_rep st xs ys a" "i \<in> set xs" "j \<in> set xs" and e: "item_conn st i = item_conn st j"
  then obtain k l where "conns st (item_conn st i) = Some k" "conn_data k = i" "conns st (item_conn st j) = Some l" "conn_data l = j"
    unfolding ka_rep_def by blast
  then show "i = j" using e by simp
qed

text \<open>Moving an item between the two queues.\<close>

lemma move:
  assumes "queue H a (xs @ x # ys)" "queue H b zs" "set (a # xs @ x # ys) \<inter> set (b # zs) = {}"
  obtains H1 H2 where "ngx_queue_remove x H = Some H1" "ngx_queue_insert_head b x H1 = Some H2" "queue H2 a (xs @ ys)" "queue H2 b (x # zs)"
  using ptr.del_ins_other [OF assms] by (auto simp: bind_eq_Some_conv)

lemma ka_get:
  assumes r: "ka_rep st xs ys a"
  shows "\<exists>st' xs' ys'. ngx_http_upstream_get_keepalive_peer rc addr st = Some (fst (abs_get rc addr a), st') \<and>
    ka_rep st' xs' ys' (snd (abs_get rc addr a)) \<and> mset (xs' @ ys') = mset (xs @ ys)"
proof (cases "rc = NGX_OK \<and> (\<exists>i \<in> set xs. item_sockaddr st i = addr)")
  case False
  have f: "ka_search addr (hd (xs @ [cache_q st])) st = Some (find (\<lambda>i. item_sockaddr st i = addr) xs)"
    by (rule ka_search [where us = "[]"]) (use r in \<open>simp add: ka_rep_def\<close>)
  have h: "ngx_queue_head (cache_q st) (links st) = Some (hd (xs @ [cache_q st]))" by (rule queue_head) (use r in \<open>simp add: ka_rep_def\<close>)
  have "find (\<lambda>i. item_sockaddr st i = addr) xs = None" if "rc = NGX_OK" using False that by (simp add: find_None_iff)
  moreover have "List.extract (\<lambda>(c, ad). ad = addr) (a_cache a) = None" if "rc = NGX_OK"
    using False r that by (auto simp: extract_None_iff ka_rep_def)
  ultimately have "ngx_http_upstream_get_keepalive_peer rc addr st = Some (fst (abs_get rc addr a), st) \<and> snd (abs_get rc addr a) = a"
    using f h by (simp add: ngx_http_upstream_get_keepalive_peer_def abs_get_def)
  then show ?thesis using r by metis
next
  case True
  then obtain us i vs where xs: "xs = us @ i # vs" and i: "item_sockaddr st i = addr" "\<forall>j \<in> set us. item_sockaddr st j \<noteq> addr"
    using split_list_first_prop [of xs "\<lambda>i. item_sockaddr st i = addr"] by blast
  have f: "ka_search addr (hd (xs @ [cache_q st])) st = Some (find (\<lambda>i. item_sockaddr st i = addr) xs)"
    by (rule ka_search [where us = "[]"]) (use r in \<open>simp add: ka_rep_def\<close>)
  have h: "ngx_queue_head (cache_q st) (links st) = Some (hd (xs @ [cache_q st]))" by (rule queue_head) (use r in \<open>simp add: ka_rep_def\<close>)
  have fi: "find (\<lambda>i. item_sockaddr st i = addr) xs = Some i"
  proof -
    have "find (\<lambda>i. item_sockaddr st i = addr) (us @ i # vs) = Some i" using i by (induction us) auto
    then show ?thesis using xs by simp
  qed
  have q: "queue (links st) (cache_q st) (us @ i # vs)" "queue (links st) (free_q st) ys" "set (cache_q st # us @ i # vs) \<inter> set (free_q st # ys) = {}"
    using r xs by (auto simp: ka_rep_def)
  obtain H1 H' where m: "ngx_queue_remove i (links st) = Some H1" "ngx_queue_insert_head (free_q st) i H1 = Some H'"
    and H': "queue H' (cache_q st) (us @ vs)" "queue H' (free_q st) (i # ys)"
    by (rule move [OF q])
  obtain k where k: "conns st (item_conn st i) = Some k" using r xs by (auto simp: ka_rep_def)
  let ?st = "st\<lparr>links := H', conns := (conns st)(item_conn st i \<mapsto> k\<lparr>idle := False, sent := 0\<rparr>)\<rparr>"
  have "ngx_http_upstream_get_keepalive_peer rc addr st = Some ((NGX_DONE, Some (item_conn st i)), ?st)"
    using True f h fi m k by (simp add: ngx_http_upstream_get_keepalive_peer_def)
  moreover have ex: "List.extract (\<lambda>(c, ad). ad = addr) (a_cache a) =
      Some (map (\<lambda>i. (item_conn st i, item_sockaddr st i)) us, (item_conn st i, addr), map (\<lambda>i. (item_conn st i, item_sockaddr st i)) vs)"
    using r xs i by (auto simp: extract_Some_iff ka_rep_def)
  have "abs_get rc addr a = ((NGX_DONE, Some (item_conn st i)), a\<lparr>a_cache := map (\<lambda>i. (item_conn st i, item_sockaddr st i)) (us @ vs)\<rparr>)"
    using True ex by (simp add: abs_get_def)
  moreover have "ka_rep ?st (us @ vs) (i # ys) (a\<lparr>a_cache := map (\<lambda>i. (item_conn st i, item_sockaddr st i)) (us @ vs)\<rparr>)"
  proof -
    have d: "distinct (cache_q st # xs)" using q(1) xs by (simp add: queue_def)
    have n: "item_conn st j \<noteq> item_conn st i" if "j \<in> set (us @ vs)" for j
      using inj_onD [OF ka_rep_inj [OF r], of j i] that d xs by auto
    have "a_open a = map_option flags \<circ> ((conns st)(item_conn st i \<mapsto> k\<lparr>idle := False, sent := 0\<rparr>))"
      using r k by (auto simp: ka_rep_def fun_eq_iff)
    then show ?thesis using r H' n q(3) d xs unfolding ka_rep_def by (auto split: if_splits)
  qed
  ultimately show ?thesis using xs by (intro exI [of _ ?st] exI [of _ "us @ vs"] exI [of _ "i # ys"]) simp
qed

lemma move_front:
  assumes "queue H a (xs @ x # ys)" "queue H b zs" "set (b # zs) \<inter> set (a # xs @ x # ys) = {}"
  obtains H1 H2 where "ngx_queue_remove x H = Some H1" "ngx_queue_insert_head a x H1 = Some H2" "queue H2 a (x # xs @ ys)" "queue H2 b zs"
proof -
  obtain H2 where "ngx_queue_remove x H \<bind> ngx_queue_insert_head a x = Some H2" "queue H2 a (x # xs @ ys)" "queue H2 b zs"
    using ptr.del_ins_same [OF assms(1)] assms(2,3) by blast
  then show ?thesis using that by (auto simp: bind_eq_Some_conv)
qed

lemma ka_rep_conn: "ka_rep st xs ys a \<Longrightarrow> c \<in> fst ` set (a_cache a) \<Longrightarrow>
  \<exists>us i vs k. xs = us @ i # vs \<and> c = item_conn st i \<and> conns st c = Some k \<and> conn_data k = i \<and> a_open a c = Some (flags k) \<and>
    (\<forall>j \<in> set (us @ vs). item_conn st j \<noteq> c)"
proof -
  assume r: "ka_rep st xs ys a" and "c \<in> fst ` set (a_cache a)"
  then obtain i where i: "i \<in> set xs" "c = item_conn st i" by (auto simp: ka_rep_def)
  then obtain us vs where xs: "xs = us @ i # vs" by (meson split_list)
  obtain k where k: "conns st c = Some k" "conn_data k = i" using r i by (auto simp: ka_rep_def)
  have "distinct xs" using r by (auto simp: ka_rep_def queue_def)
  then have "item_conn st j \<noteq> c" if "j \<in> set (us @ vs)" for j
    using inj_onD [OF ka_rep_inj [OF r], of j i] that xs i(2) by auto
  moreover have "a_open a c = Some (flags k)" using r k by (simp add: ka_rep_def)
  ultimately show ?thesis using xs i(2) k by blast
qed

lemma ka_event:
  assumes r: "ka_rep st xs ys a" and c: "c \<in> fst ` set (a_cache a)"
  shows "\<exists>st' xs' ys'. ngx_http_upstream_keepalive_close_handler c eagain ok st = Some st' \<and>
    ka_rep st' xs' ys' (abs_event c eagain ok a) \<and> mset (xs' @ ys') = mset (xs @ ys)"
proof -
  obtain us i vs k where xs: "xs = us @ i # vs" and i: "c = item_conn st i" "\<forall>j \<in> set (us @ vs). item_conn st j \<noteq> c"
    and k: "conns st c = Some k" "conn_data k = i" "a_open a c = Some (flags k)"
    using ka_rep_conn [OF r c] by blast
  define wait where "wait \<longleftrightarrow> \<not> f_close (flags k) \<and> eagain"
  show ?thesis
  proof (cases "wait \<and> ok")
    case True
    let ?st = "st\<lparr>conns := (conns st)(c \<mapsto> k\<lparr>flags := (flags k)\<lparr>f_read_ready := False\<rparr>\<rparr>)\<rparr>"
    have "ngx_http_upstream_keepalive_close_handler c eagain ok st = Some ?st"
      using k(1) True by (simp add: ngx_http_upstream_keepalive_close_handler_def wait_def)
    moreover have "ka_rep ?st xs ys (abs_event c eagain ok a)"
      using r k True unfolding ka_rep_def wait_def abs_event_def by (auto simp: fun_eq_iff)
    ultimately show ?thesis by blast
  next
    case False
    have q: "queue (links st) (cache_q st) (us @ i # vs)" "queue (links st) (free_q st) ys" "set (cache_q st # us @ i # vs) \<inter> set (free_q st # ys) = {}"
      using r xs by (auto simp: ka_rep_def)
    obtain H1 H' where m: "ngx_queue_remove i (links st) = Some H1" "ngx_queue_insert_head (free_q st) i H1 = Some H'"
      and H': "queue H' (cache_q st) (us @ vs)" "queue H' (free_q st) (i # ys)"
      by (rule move [OF q])
    let ?st = "st\<lparr>links := H', conns := (conns st)(c := None)\<rparr>"
    have op: "ngx_http_upstream_keepalive_close_handler c eagain ok st = Some ?st"
      using k m False by (auto simp: ngx_http_upstream_keepalive_close_handler_def ngx_http_upstream_keepalive_close_def wait_def Let_def)
    have a: "abs_event c eagain ok a = a\<lparr>a_cache := map (\<lambda>i. (item_conn st i, item_sockaddr st i)) (us @ vs), a_open := (a_open a)(c := None)\<rparr>"
    proof -
      have "filter (\<lambda>(d, _). d \<noteq> c) (map (\<lambda>i. (item_conn st i, item_sockaddr st i)) ws) = map (\<lambda>i. (item_conn st i, item_sockaddr st i)) ws"
        if "set ws \<subseteq> set (us @ vs)" for ws using i(2) that by (auto simp: filter_id_conv)
      from this [of us] this [of vs] show ?thesis using r xs i(1) k(3) False by (auto simp: abs_event_def ka_rep_def wait_def)
    qed
    have "distinct (cache_q st # xs)" using q(1) xs by (simp add: queue_def)
    then have "ka_rep ?st (us @ vs) (i # ys) (abs_event c eagain ok a)"
      using r H' i q(3) xs unfolding ka_rep_def a by (auto simp: fun_eq_iff split: if_splits)
    then show ?thesis using op xs by (intro exI [of _ ?st] exI [of _ "us @ vs"] exI [of _ "i # ys"]) simp
  qed
qed

lemma ka_save:
  assumes r: "ka_rep st xs ys a" and c: "conns st c = Some k" "\<not> idle k" and n: "xs @ ys \<noteq> []"
  shows "\<exists>st' xs' ys'. ka_save c addr st = Some st' \<and> ka_rep st' xs' ys' (abs_save (length (xs @ ys)) c addr a) \<and>
    mset (xs' @ ys') = mset (xs @ ys)"
proof -
  let ?k = "\<lambda>i. k\<lparr>read_timer_set := False, write_timer_set := False, write_handler := Ka_dummy_handler, read_handler := Ka_close_handler, conn_data := i, idle := True\<rparr>"
  have q: "queue (links st) (cache_q st) xs" "queue (links st) (free_q st) ys" "set (cache_q st # xs) \<inter> set (free_q st # ys) = {}"
    using r by (auto simp: ka_rep_def)
  have cn: "item_conn st j \<noteq> c" if "j \<in> set xs" for j using r c that by (auto simp: ka_rep_def)
  show ?thesis
  proof (cases ys)
    case Nil
    then obtain us i where xs: "xs = us @ [i]" using n by (metis append_Nil2 rev_exhaust)
    obtain H1 H' where m: "ngx_queue_remove i (links st) = Some H1" "ngx_queue_insert_head (cache_q st) i H1 = Some H'" and
      H': "queue H' (cache_q st) (i # us)" "queue H' (free_q st) ys"
    proof (rule move_front [of "links st" "cache_q st" us i "[]" "free_q st" ys])
      show "queue (links st) (cache_q st) (us @ [i])" "queue (links st) (free_q st) ys" "set (free_q st # ys) \<inter> set (cache_q st # us @ [i]) = {}"
        using q xs by auto
    qed simp
    obtain l where l: "conns st (item_conn st i) = Some l" using r xs by (auto simp: ka_rep_def)
    let ?st = "st\<lparr>links := H', item_conn := (item_conn st)(i := c), item_sockaddr := (item_sockaddr st)(i := addr),
      conns := (conns st)(item_conn st i := None, c \<mapsto> ?k i)\<rparr>"
    have "ngx_queue_last (cache_q st) (links st) = Some i" "ngx_queue_empty (free_q st) (links st) = Some True"
      using queue_last [OF q(1)] queue_empty [OF q(2)] xs Nil by simp_all
    then have "ka_save c addr st = Some ?st"
      using m l c cn [of i] xs by (simp add: ka_save_def ngx_http_upstream_keepalive_close_def)
    moreover have "ka_rep ?st (i # us) ys (abs_save (length (xs @ ys)) c addr a)"
    proof -
      have d: "distinct xs" using q(1) by (simp add: queue_def)
      have n: "item_conn st j \<noteq> item_conn st i" if "j \<in> set us" for j
        using inj_onD [OF ka_rep_inj [OF r], of j i] that d xs by auto
      have "length (a_cache a) = length (xs @ ys)" using r Nil by (simp add: ka_rep_def)
      then have "abs_save (length (xs @ ys)) c addr a =
          a\<lparr>a_cache := (c, addr) # map (\<lambda>i. (item_conn st i, item_sockaddr st i)) us, a_open := (a_open a)(item_conn st i := None)\<rparr>"
        using r xs by (simp add: abs_save_def ka_rep_def butlast_append)
      then show ?thesis using r H' n q(3) d c cn xs unfolding ka_rep_def by (auto simp: fun_eq_iff)
    qed
    ultimately show ?thesis using xs by (intro exI [of _ ?st] exI [of _ "i # us"] exI [of _ ys]) simp
  next
    case (Cons i vs)
    have dj: "set (free_q st # [] @ i # vs) \<inter> set (cache_q st # xs) = {}" using q(3) Cons by auto
    have "queue (links st) (free_q st) ([] @ i # vs)" using q(2) Cons by simp
    then obtain H1 H' where m: "ngx_queue_remove i (links st) = Some H1" "ngx_queue_insert_head (cache_q st) i H1 = Some H'" and
      H': "queue H' (free_q st) vs" "queue H' (cache_q st) (i # xs)"
      using move [OF _ q(1) dj] by (metis append_Nil)
    let ?st = "st\<lparr>links := H', item_conn := (item_conn st)(i := c), item_sockaddr := (item_sockaddr st)(i := addr),
      conns := (conns st)(c \<mapsto> ?k i)\<rparr>"
    have "ngx_queue_head (free_q st) (links st) = Some i" "ngx_queue_empty (free_q st) (links st) = Some False"
      using queue_head [OF q(2)] queue_empty [OF q(2)] Cons by simp_all
    then have "ka_save c addr st = Some ?st" using m c by (simp add: ka_save_def)
    moreover have "ka_rep ?st (i # xs) vs (abs_save (length (xs @ ys)) c addr a)"
    proof -
      have "length (a_cache a) = length xs" using r by (simp add: ka_rep_def)
      then have a: "abs_save (length (xs @ ys)) c addr a = a\<lparr>a_cache := (c, addr) # a_cache a\<rparr>" using Cons by (simp add: abs_save_def)
      have "distinct (free_q st # ys)" "i \<notin> set xs" using q(2,3) Cons by (auto simp: queue_def)
      then show ?thesis using r H' q(3) c cn Cons unfolding ka_rep_def a by (auto simp: fun_eq_iff)
    qed
    ultimately show ?thesis using Cons by (intro exI [of _ ?st] exI [of _ "i # xs"] exI [of _ vs]) simp
  qed
qed

lemma ka_free:
  assumes r: "ka_rep st xs ys a" and n: "xs @ ys \<noteq> []"
    and pc: "\<And>c. pc = Some c \<Longrightarrow> c \<in> dom (a_open a) \<and> c \<notin> fst ` set (a_cache a)"
  shows "\<exists>st' xs' ys'. ngx_http_upstream_free_keepalive_peer pc addr e st = Some (fst (abs_free (length (xs @ ys)) pc addr e a), st') \<and>
    ka_rep st' xs' ys' (snd (abs_free (length (xs @ ys)) pc addr e a)) \<and> mset (xs' @ ys') = mset (xs @ ys)"
proof (cases pc)
  case None
  then show ?thesis using r by (auto simp: ngx_http_upstream_free_keepalive_peer_def abs_free_def)
next
  case (Some c)
  then obtain k where k: "conns st c = Some k" "a_open a c = Some (flags k)" using pc r by (auto simp: ka_rep_def)
  have idle: "\<not> idle k" using pc [OF Some] r k(1) by (force simp: ka_rep_def)
  show ?thesis
  proof (cases "peer_failed e \<or> ka_flags_bad (flags k) \<or> \<not> keepalive e \<or> \<not> request_body_sent e \<or> terminating e \<or> \<not> handle_read_ok e")
    case True
    then have "ngx_http_upstream_free_keepalive_peer pc addr e st = Some (pc, st)" "abs_free (length (xs @ ys)) pc addr e a = (pc, a)"
      using Some k by (auto simp: ngx_http_upstream_free_keepalive_peer_def abs_free_def)
    then show ?thesis using r by auto
  next
    case False
    let ?a = "abs_save (length (xs @ ys)) c addr a"
    obtain st1 xs1 ys1 where s: "ka_save c addr st = Some st1" "ka_rep st1 xs1 ys1 ?a" "mset (xs1 @ ys1) = mset (xs @ ys)"
      using ka_save [OF r k(1) idle n] by blast
    have "c \<in> fst ` set (a_cache ?a)" by (simp add: abs_save_def)
    from ka_event [OF s(2) this] obtain st2 xs2 ys2 where
      t: "ngx_http_upstream_keepalive_close_handler c (recv_eagain e) (handle_again_ok e) st1 = Some st2"
        "ka_rep st2 xs2 ys2 (abs_event c (recv_eagain e) (handle_again_ok e) ?a)" "mset (xs2 @ ys2) = mset (xs1 @ ys1)"
      by metis
    show ?thesis
    proof (cases "f_read_ready (flags k)")
      case True
      then have "ngx_http_upstream_free_keepalive_peer pc addr e st = Some (None, st2)"
        "abs_free (length (xs @ ys)) pc addr e a = (None, abs_event c (recv_eagain e) (handle_again_ok e) ?a)"
        using False Some k s(1) t(1) by (simp_all add: ngx_http_upstream_free_keepalive_peer_def abs_free_def)
      then show ?thesis using t(2,3) s(3) by auto
    next
      case nr: False
      then have "ngx_http_upstream_free_keepalive_peer pc addr e st = Some (None, st1)" "abs_free (length (xs @ ys)) pc addr e a = (None, ?a)"
        using False Some k s(1) by (simp_all add: ngx_http_upstream_free_keepalive_peer_def abs_free_def)
      then show ?thesis using s(2,3) by auto
    qed
  qed
qed

section \<open>Runs\<close>

text \<open>
  What happens to a cache: connections to the upstream are made, change their flags and are closed
  by other parts of the server while they are in use; the balancer asks for a peer and gives it
  back; a read event arrives on a cached connection.
\<close>

datatype ka_op =
    Ka_connect nat ka_flags
  | Ka_flags nat ka_flags
  | Ka_finish nat
  | Ka_get ngx_rc bytes
  | Ka_free "nat option" bytes ka_env
  | Ka_read_event nat bool bool

type_synonym ka_answer = "ngx_rc \<times> nat option"

definition new_conn :: "ka_flags \<Rightarrow> ka_conn" where
  "new_conn f = \<lparr>flags = f, idle = False, sent = 0, conn_data = 0, read_timer_set = False, write_timer_set = False,
     read_handler = Ka_other_handler, write_handler = Ka_other_handler\<rparr>"

fun ka_exec :: "ka_op \<Rightarrow> ka \<Rightarrow> (ka_answer \<times> ka) option" where
  "ka_exec (Ka_connect c f) st = Some ((NGX_OK, None), st\<lparr>conns := (conns st)(c \<mapsto> new_conn f)\<rparr>)"
| "ka_exec (Ka_flags c f) st = do { k \<leftarrow> conns st c; Some ((NGX_OK, None), st\<lparr>conns := (conns st)(c \<mapsto> k\<lparr>flags := f\<rparr>)\<rparr>) }"
| "ka_exec (Ka_finish c) st = Some ((NGX_OK, None), st\<lparr>conns := (conns st)(c := None)\<rparr>)"
| "ka_exec (Ka_get rc addr) st = ngx_http_upstream_get_keepalive_peer rc addr st"
| "ka_exec (Ka_free pc addr e) st = do { (pc, st) \<leftarrow> ngx_http_upstream_free_keepalive_peer pc addr e st; Some ((NGX_OK, pc), st) }"
| "ka_exec (Ka_read_event c eagain ok) st = do { st \<leftarrow> ngx_http_upstream_keepalive_close_handler c eagain ok st; Some ((NGX_OK, None), st) }"

fun abs_exec :: "nat \<Rightarrow> ka_op \<Rightarrow> ka_abs \<Rightarrow> ka_answer \<times> ka_abs" where
  "abs_exec n (Ka_connect c f) a = ((NGX_OK, None), a\<lparr>a_open := (a_open a)(c \<mapsto> f)\<rparr>)"
| "abs_exec n (Ka_flags c f) a = ((NGX_OK, None), a\<lparr>a_open := (a_open a)(c \<mapsto> f)\<rparr>)"
| "abs_exec n (Ka_finish c) a = ((NGX_OK, None), a\<lparr>a_open := (a_open a)(c := None)\<rparr>)"
| "abs_exec n (Ka_get rc addr) a = abs_get rc addr a"
| "abs_exec n (Ka_free pc addr e) a = (let (pc, a) = abs_free n pc addr e a in ((NGX_OK, pc), a))"
| "abs_exec n (Ka_read_event c eagain ok) a = ((NGX_OK, None), abs_event c eagain ok a)"

definition in_use :: "nat \<Rightarrow> ka_abs \<Rightarrow> bool" where
  "in_use c a \<longleftrightarrow> a_open a c \<noteq> None \<and> c \<notin> fst ` set (a_cache a)"

fun legal :: "ka_op \<Rightarrow> ka_abs \<Rightarrow> bool" where
  "legal (Ka_connect c f) a \<longleftrightarrow> a_open a c = None"
| "legal (Ka_flags c f) a \<longleftrightarrow> a_open a c \<noteq> None"
| "legal (Ka_finish c) a \<longleftrightarrow> in_use c a"
| "legal (Ka_get rc addr) a \<longleftrightarrow> True"
| "legal (Ka_free pc addr e) a \<longleftrightarrow> (case pc of None \<Rightarrow> True | Some c \<Rightarrow> in_use c a)"
| "legal (Ka_read_event c eagain ok) a \<longleftrightarrow> c \<in> fst ` set (a_cache a)"

fun ka_run :: "ka_op list \<Rightarrow> ka \<Rightarrow> (ka_answer list \<times> ka) option" where
  "ka_run [] st = Some ([], st)"
| "ka_run (x # ops) st = do { (r, st) \<leftarrow> ka_exec x st; (rs, st) \<leftarrow> ka_run ops st; Some (r # rs, st) }"

fun abs_run :: "nat \<Rightarrow> ka_op list \<Rightarrow> ka_abs \<Rightarrow> ka_answer list \<times> ka_abs" where
  "abs_run n [] a = ([], a)"
| "abs_run n (x # ops) a = (let (r, a) = abs_exec n x a; (rs, a) = abs_run n ops a in (r # rs, a))"

fun legal_run :: "nat \<Rightarrow> ka_op list \<Rightarrow> ka_abs \<Rightarrow> bool" where
  "legal_run n [] a \<longleftrightarrow> True"
| "legal_run n (x # ops) a \<longleftrightarrow> legal x a \<and> legal_run n ops (snd (abs_exec n x a))"

lemma ka_rep_open:
  assumes "ka_rep st xs ys a" "i \<in> set xs"
  shows "a_open a (item_conn st i) \<noteq> None"
  using assms by (fastforce simp: ka_rep_def)

lemma ka_exec_ok:
  assumes r: "ka_rep st xs ys a" and l: "legal x a" and n: "xs @ ys \<noteq> []"
  shows "\<exists>st' xs' ys'. ka_exec x st = Some (fst (abs_exec (length (xs @ ys)) x a), st') \<and>
    ka_rep st' xs' ys' (snd (abs_exec (length (xs @ ys)) x a)) \<and> mset (xs' @ ys') = mset (xs @ ys)"
proof (cases x)
  case (Ka_connect c f)
  then have "item_conn st i \<noteq> c" if "i \<in> set xs" for i using ka_rep_open [OF r that] l by auto
  then have "ka_rep (st\<lparr>conns := (conns st)(c \<mapsto> new_conn f)\<rparr>) xs ys (a\<lparr>a_open := (a_open a)(c \<mapsto> f)\<rparr>)"
    using r by (auto simp: ka_rep_def fun_eq_iff new_conn_def)
  then show ?thesis using Ka_connect by auto
next
  case (Ka_flags c f)
  then obtain k where k: "conns st c = Some k" using l r by (auto simp: ka_rep_def)
  then have "ka_rep (st\<lparr>conns := (conns st)(c \<mapsto> k\<lparr>flags := f\<rparr>)\<rparr>) xs ys (a\<lparr>a_open := (a_open a)(c \<mapsto> f)\<rparr>)"
    using r by (auto simp: ka_rep_def fun_eq_iff)
  then show ?thesis using Ka_flags k by auto
next
  case (Ka_finish c)
  then have "item_conn st i \<noteq> c" if "i \<in> set xs" for i using l r that by (auto simp: ka_rep_def in_use_def image_image)
  then have "ka_rep (st\<lparr>conns := (conns st)(c := None)\<rparr>) xs ys (a\<lparr>a_open := (a_open a)(c := None)\<rparr>)"
    using r by (auto simp: ka_rep_def fun_eq_iff)
  then show ?thesis using Ka_finish by auto
next
  case (Ka_get rc addr)
  then show ?thesis using ka_get [OF r, of rc addr] by simp
next
  case (Ka_free pc addr e)
  have "c \<in> dom (a_open a) \<and> c \<notin> fst ` set (a_cache a)" if "pc = Some c" for c using l Ka_free that by (simp add: in_use_def domIff)
  then obtain st' xs' ys' where "ngx_http_upstream_free_keepalive_peer pc addr e st = Some (fst (abs_free (length (xs @ ys)) pc addr e a), st')"
      "ka_rep st' xs' ys' (snd (abs_free (length (xs @ ys)) pc addr e a))" "mset (xs' @ ys') = mset (xs @ ys)"
    using ka_free [OF r n, of pc addr e] by blast
  then show ?thesis using Ka_free by (auto simp: case_prod_beta)
next
  case (Ka_read_event c eagain ok)
  then have "c \<in> fst ` set (a_cache a)" using l by simp
  from ka_event [OF r this, of eagain ok] show ?thesis using Ka_read_event by fastforce
qed

lemma ka_run_ok:
  assumes "ka_rep st xs ys a" "legal_run (length (xs @ ys)) ops a" "xs @ ys \<noteq> []"
  shows "\<exists>st' xs' ys'. ka_run ops st = Some (fst (abs_run (length (xs @ ys)) ops a), st') \<and>
    ka_rep st' xs' ys' (snd (abs_run (length (xs @ ys)) ops a)) \<and> mset (xs' @ ys') = mset (xs @ ys)"
  using assms
proof (induction ops arbitrary: st xs ys a)
  case Nil
  then show ?case by auto
next
  case (Cons x ops)
  let ?n = "length (xs @ ys)" and ?a = "snd (abs_exec (length (xs @ ys)) x a)"
  obtain st1 xs1 ys1 where s: "ka_exec x st = Some (fst (abs_exec ?n x a), st1)" "ka_rep st1 xs1 ys1 ?a" "mset (xs1 @ ys1) = mset (xs @ ys)"
    using ka_exec_ok [of st xs ys a x] Cons.prems by auto
  have n: "length (xs1 @ ys1) = ?n" "xs1 @ ys1 \<noteq> []" using s(3) Cons.prems(3) by (metis size_mset, metis mset_zero_iff)
  then have lr: "legal_run (length (xs1 @ ys1)) ops ?a" using Cons.prems(2) by simp
  obtain st2 xs2 ys2 where t: "ka_run ops st1 = Some (fst (abs_run ?n ops ?a), st2)" "ka_rep st2 xs2 ys2 (snd (abs_run ?n ops ?a))"
      "mset (xs2 @ ys2) = mset (xs1 @ ys1)"
    using Cons.IH [OF s(2) lr n(2)] unfolding n(1) by blast
  have "ka_run (x # ops) st = Some (fst (abs_run ?n (x # ops) a), st2)" using s(1) t(1) by (simp add: case_prod_beta)
  moreover have "snd (abs_run ?n (x # ops) a) = snd (abs_run ?n ops ?a)" by (simp add: case_prod_beta)
  ultimately show ?case using t(2,3) s(3) by metis
qed

lemma ka_fill_ok:
  assumes "queue H f ys" "queue H c xs" "distinct (c # f # is)" "set is \<inter> set ys = {}" "set (c # xs) \<inter> set (f # is) = {}"
    "c \<notin> set ys" "\<And>i. i \<in> set is \<Longrightarrow> allocated H i" "set xs \<inter> set ys = {}"
  shows "\<exists>H'. ka_fill f is H = Some H' \<and> queue H' f (rev is @ ys) \<and> queue H' c xs"
  using assms
proof (induction "is" arbitrary: H ys)
  case (Cons i "is")
  obtain H1 where h: "ngx_queue_insert_head f i H = Some H1" "queue H1 f (i # ys)" "same_outside (set (f # i # ys)) H H1"
    using ptr.ins_rep [OF Cons.prems(1), of i] Cons.prems(3,4,7) by auto
  have "queue H1 c xs" by (rule queue_frame [OF Cons.prems(2) h(3)]) (use Cons.prems(3,5,6,8) in auto)
  moreover have "allocated H1 j" if "j \<in> set is" for j using h(3) Cons.prems(7) that by (simp add: same_outside_def)
  ultimately have "\<exists>H'. ka_fill f is H1 = Some H' \<and> queue H' f (rev is @ i # ys) \<and> queue H' c xs"
    using Cons.prems(3,4,5,6,8) h(2) by (intro Cons.IH) auto
  then show ?case using h(1) by auto
qed simp

text \<open>The empty cache.\<close>

definition ka_empty :: ka_abs where
  "ka_empty = \<lparr>a_cache = [], a_open = Map.empty\<rparr>"

lemma ka_init:
  assumes d: "distinct (cache_q st # free_q st # cached)" and al: "\<And>x. x \<in> set (cache_q st # free_q st # cached) \<Longrightarrow> allocated (links st) x"
    and "conns st = Map.empty"
  shows "\<exists>st'. ngx_http_upstream_init_keepalive cached st = Some st' \<and> ka_rep st' [] (rev cached) ka_empty"
proof -
  obtain H1 where h1: "ngx_queue_init (cache_q st) (links st) = Some H1" "queue H1 (cache_q st) []" "same_outside {cache_q st} (links st) H1"
    using queue_init [of "links st" "cache_q st"] al by auto
  have al1: "allocated H1 x" if "x \<in> set (cache_q st # free_q st # cached)" for x using h1(3) al [OF that] by (simp add: same_outside_def)
  obtain H2 where h2: "ngx_queue_init (free_q st) H1 = Some H2" "queue H2 (free_q st) []" "same_outside {free_q st} H1 H2"
    using queue_init [of H1 "free_q st"] al1 by auto
  have q2: "queue H2 (cache_q st) []" by (rule queue_frame [OF h1(2) h2(3)]) (use d in auto)
  have "allocated H2 x" if "x \<in> set cached" for x using h2(3) al1 that by (simp add: same_outside_def)
  then have "\<exists>H3. ka_fill (free_q st) cached H2 = Some H3 \<and> queue H3 (free_q st) (rev cached @ []) \<and> queue H3 (cache_q st) []"
    using h2(2) q2 d by (intro ka_fill_ok) auto
  then obtain H3 where h3: "ka_fill (free_q st) cached H2 = Some H3" "queue H3 (free_q st) (rev cached)" "queue H3 (cache_q st) []"
    by auto
  have "ka_rep (st\<lparr>links := H3\<rparr>) [] (rev cached) ka_empty" using h3(2,3) d assms(3) by (auto simp: ka_rep_def ka_empty_def fun_eq_iff)
  then show ?thesis using h1(1) h2(1) h3(1) by (auto simp: ngx_http_upstream_init_keepalive_def)
qed

text \<open>
  C37. From the moment the cache of an upstream is set up, every sequence of operations runs without
  following a pointer to nowhere, its answers are those of the abstract cache (a list with the
  last connection saved first: a request takes the first connection to its address, a full
  cache gives up its oldest one, a closed connection leaves it), and in the end the items are
  the ones set up at the beginning, in the cache or free, and the cached connections are open,
  pairwise different and at most \<open>max_cached\<close>.
\<close>

theorem keepalive_refines:
  assumes "distinct (cache_q st # free_q st # cached)" "\<forall>x \<in> set (cache_q st # free_q st # cached). allocated (links st) x"
    and "conns st = Map.empty" "cached \<noteq> []" "legal_run (length cached) ops ka_empty"
  shows "\<exists>st0 st' xs ys.
    ngx_http_upstream_init_keepalive cached st = Some st0 \<and>
    ka_run ops st0 = Some (fst (abs_run (length cached) ops ka_empty), st') \<and>
    queue (links st') (cache_q st') xs \<and> queue (links st') (free_q st') ys \<and> mset (xs @ ys) = mset cached \<and>
    a_cache (snd (abs_run (length cached) ops ka_empty)) = map (\<lambda>i. (item_conn st' i, item_sockaddr st' i)) xs \<and>
    distinct (map (item_conn st') xs) \<and> length xs \<le> length cached \<and>
    (\<forall>i \<in> set xs. \<exists>k. conns st' (item_conn st' i) = Some k \<and> idle k)"
proof -
  obtain st0 where i: "ngx_http_upstream_init_keepalive cached st = Some st0" "ka_rep st0 [] (rev cached) ka_empty"
    using ka_init [of st cached] assms(1-3) by auto
  obtain st' xs ys where r: "ka_run ops st0 = Some (fst (abs_run (length cached) ops ka_empty), st')"
      "ka_rep st' xs ys (snd (abs_run (length cached) ops ka_empty))" "mset (xs @ ys) = mset cached"
    using ka_run_ok [OF i(2), of ops] assms(4,5) by auto
  have "length (xs @ ys) = length cached" using r(3) by (metis size_mset)
  moreover have "distinct (map (item_conn st') xs)"
    using ka_rep_inj [OF r(2)] r(2) by (simp add: distinct_map ka_rep_def queue_def)
  ultimately show ?thesis using i(1) r by (intro exI [of _ st0] exI [of _ st'] exI [of _ xs] exI [of _ ys]) (auto simp: ka_rep_def)
qed

definition sample_ka :: ka where
  "sample_ka = \<lparr>links = \<lparr>q_next = [0 \<mapsto> 0, 1 \<mapsto> 0, 2 \<mapsto> 0], q_prev = [0 \<mapsto> 0, 1 \<mapsto> 0, 2 \<mapsto> 0]\<rparr>, cache_q = 0, free_q = 1,
     item_conn = (\<lambda>_. 0), item_sockaddr = (\<lambda>_. []), conns = Map.empty\<rparr>"

definition sample_flags :: ka_flags where
  "sample_flags = \<lparr>f_close = False, f_read_eof = False, f_read_error = False, f_read_timedout = False, f_read_ready = False,
     f_write_error = False, f_write_timedout = False\<rparr>"

definition sample_env :: ka_env where
  "sample_env = \<lparr>peer_failed = False, keepalive = True, request_body_sent = True, terminating = False, handle_read_ok = True,
     recv_eagain = True, handle_again_ok = True\<rparr>"

text \<open>Two connections are saved in a cache of one item: the second replaces the first and is found again.\<close>

theorem keepalive_refines_witness:
  "\<exists>st0 st'. ngx_http_upstream_init_keepalive [2] sample_ka = Some st0 \<and>
    ka_run [Ka_connect 7 sample_flags, Ka_connect 8 sample_flags, Ka_free (Some 7) [10] sample_env, Ka_free (Some 8) [11] sample_env,
            Ka_get NGX_OK [10], Ka_get NGX_OK [11], Ka_get NGX_OK [11]] st0 =
      Some ([(NGX_OK, None), (NGX_OK, None), (NGX_OK, None), (NGX_OK, None), (NGX_OK, None), (NGX_DONE, Some 8), (NGX_OK, None)], st')"
proof -
  let ?ops = "[Ka_connect 7 sample_flags, Ka_connect 8 sample_flags, Ka_free (Some 7) [10] sample_env, Ka_free (Some 8) [11] sample_env,
    Ka_get NGX_OK [10], Ka_get NGX_OK [11], Ka_get NGX_OK [11]]"
  note ev = legal_run.simps legal.simps abs_run.simps abs_exec.simps in_use_def ka_empty_def abs_free_def abs_save_def abs_get_def
    sample_flags_def sample_env_def ka_flags_bad_def
  have "legal_run 1 ?ops ka_empty" by (simp add: ev extract_def Let_def)
  moreover have "fst (abs_run 1 ?ops ka_empty) =
    [(NGX_OK, None), (NGX_OK, None), (NGX_OK, None), (NGX_OK, None), (NGX_OK, None), (NGX_DONE, Some 8), (NGX_OK, None)]"
    by (simp add: ev extract_def Let_def)
  moreover have "distinct (cache_q sample_ka # free_q sample_ka # [2])" "conns sample_ka = Map.empty"
      "\<forall>x \<in> set (cache_q sample_ka # free_q sample_ka # [2]). allocated (links sample_ka) x"
    by (simp_all add: sample_ka_def allocated_def)
  ultimately show ?thesis using keepalive_refines [of sample_ka "[2]" ?ops] by auto
qed

end
