(* ===== verification/Http_Location.thy ===== *)
theory Http_Location
  imports Ngx_Queue "HOL-Library.List_Lexorder" "HOL-Library.Product_Lexorder" "HOL-Library.Sublist"
begin

text \<open>
  The choice of a location: the \<open>location\<close> directive and the lookup of \<^verbatim>\<open>src/http/ngx_http_core_module.c\<close>,
  and the construction of the search trees of \<^verbatim>\<open>src/http/ngx_http.c\<close>.

  The queues of locations are lists: by the results of \<open>Ngx_Queue\<close>, sorting is \<open>sort_list\<close>, the middle is
  the element of index \<open>length div 2\<close>, splitting and adding queues cut and join lists.  Names are byte
  lists; where the code reads the \<open>NUL\<close> behind a name, the model appends it.  The configuration of a
  location (\<open>core_loc_conf\<close>) has the fields these functions use; \<open>loc_conf\<close> is
  what is nested in it.  \<open>conf\<close> is the configuration as it is written, \<open>ctx\<close> what the two passes of
  initialisation make of it: the tree of the static locations and the array of the regular expressions.
  The second pass runs through the static locations only, so that a location inside a regular
  expression keeps the result of the first pass.  Allocation succeeds; the results of compiling and of
  executing a regular expression are arguments.

  The build is the one for Unix: names are compared with the case of their letters.
\<close>

section \<open>Comparisons\<close>

fun ngx_filename_cmp :: "bytes \<Rightarrow> bytes \<Rightarrow> nat \<Rightarrow> int" where
  "ngx_filename_cmp (c1 # s1) (c2 # s2) (Suc n) =
     (if c1 = c2 then (if c1 \<noteq> 0 then ngx_filename_cmp s1 s2 n else 0)
      else if c1 = 0 \<or> c2 = 0 then uint c1 - uint c2
      else (if c1 = ch_slash then 0 else uint c1) - (if c2 = ch_slash then 0 else uint c2))"
| "ngx_filename_cmp s1 s2 n = 0"

fun ngx_strcmp :: "bytes \<Rightarrow> bytes \<Rightarrow> int" where
  "ngx_strcmp (c1 # s1) (c2 # s2) =
     (if c1 \<noteq> c2 then uint c1 - uint c2 else if c1 = 0 then 0 else ngx_strcmp s1 s2)"
| "ngx_strcmp s1 s2 = 0"

section \<open>Locations\<close>

datatype 'm core_loc_conf = Core_loc_conf
  (name: bytes) (exact_match: bool) (noregex: bool) (named: bool) (noname: bool) (regex: "nat option") (auto_redirect: bool) (loc_conf: 'm)

datatype 'm location_queue = Location_queue
  (lq_exact: "'m core_loc_conf option") (lq_inclusive: "'m core_loc_conf option") (lq_name: bytes) (lq_list: "'m location_queue list")

datatype 'm location_tree = Null_node | Tree_node
  (node_left: "'m location_tree") (node_right: "'m location_tree") (node_tree: "'m location_tree")
  (node_exact: "'m core_loc_conf option") (node_inclusive: "'m core_loc_conf option") (node_auto_redirect: bool) (node_len: u8) (node_name: bytes)

definition exact_or_inclusive :: "'m core_loc_conf option \<Rightarrow> 'm core_loc_conf option \<Rightarrow> 'm core_loc_conf" where
  "exact_or_inclusive e i = (case e of Some c \<Rightarrow> c | None \<Rightarrow> the i)"

abbreviation lq_conf :: "'m location_queue \<Rightarrow> 'm core_loc_conf" where
  "lq_conf lq \<equiv> exact_or_inclusive (lq_exact lq) (lq_inclusive lq)"

definition ngx_http_add_location :: "'m location_queue list \<Rightarrow> 'm core_loc_conf \<Rightarrow> 'm location_queue list" where
  "ngx_http_add_location locations clcf =
     locations @ [if exact_match clcf \<or> regex clcf \<noteq> None \<or> named clcf \<or> noname clcf
       then Location_queue (Some clcf) None (name clcf) []
       else Location_queue None (Some clcf) (name clcf) []]"

section \<open>The directive\<close>

datatype directive_error = Invalid_modifier | Regex_error | Inside_exact | Inside_named | Nested_named | Outside | Wrong_arguments

text \<open>\<open>compile\<close> is \<open>ngx_http_regex_compile\<close>: the compiled expression, or \<open>None\<close>.\<close>

definition ngx_http_core_regex_location :: "(bytes \<Rightarrow> bool \<Rightarrow> nat option) \<Rightarrow> bytes \<Rightarrow> bool \<Rightarrow> 'm \<Rightarrow> directive_error + 'm core_loc_conf" where
  "ngx_http_core_regex_location compile n caseless m =
     (case compile n caseless of
        None \<Rightarrow> Inl Regex_error
      | Some x \<Rightarrow> Inr (Core_loc_conf n False False False False (Some x) False m))"

definition location_name :: "(bytes \<Rightarrow> bool \<Rightarrow> nat option) \<Rightarrow> bytes list \<Rightarrow> 'm \<Rightarrow> directive_error + 'm core_loc_conf" where
  "location_name compile args m =
     (case args of
        [md, n] \<Rightarrow>
          if md = [ch_eq] then Inr (Core_loc_conf n True False False False None False m)
          else if md = [94, ch_tilde] then Inr (Core_loc_conf n False True False False None False m)
          else if md = [ch_tilde] then ngx_http_core_regex_location compile n False m
          else if md = [ch_tilde, ch_star] then ngx_http_core_regex_location compile n True m
          else Inl Invalid_modifier
      | [n] \<Rightarrow>
          let c0 = (n @ [0]) ! 0; c1 = (n @ [0, 0]) ! 1 in
          if c0 = ch_eq then Inr (Core_loc_conf (drop 1 n) True False False False None False m)
          else if c0 = 94 \<and> c1 = ch_tilde then Inr (Core_loc_conf (drop 2 n) False True False False None False m)
          else if c0 = ch_tilde then
            if c1 = ch_star then ngx_http_core_regex_location compile (drop 2 n) True m
            else ngx_http_core_regex_location compile (drop 1 n) False m
          else Inr (Core_loc_conf n False False (c0 = ch_at) False None False m)
      | _ \<Rightarrow> Inl Wrong_arguments)"

text \<open>The parent is given when the directive stands inside another location.\<close>

definition ngx_http_core_location ::
    "(bytes \<Rightarrow> bool \<Rightarrow> nat option) \<Rightarrow> bytes list \<Rightarrow> 'p core_loc_conf option \<Rightarrow> 'm \<Rightarrow> 'm location_queue list \<Rightarrow> directive_error + 'm location_queue list" where
  "ngx_http_core_location compile args parent m locations =
     (case location_name compile args m of
        Inl e \<Rightarrow> Inl e
      | Inr clcf \<Rightarrow>
          case parent of
            None \<Rightarrow> Inr (ngx_http_add_location locations clcf)
          | Some pclcf \<Rightarrow>
              if exact_match pclcf then Inl Inside_exact
              else if named pclcf then Inl Inside_named
              else if named clcf then Inl Nested_named
              else if regex clcf = None \<and> ngx_filename_cmp (name clcf @ [0]) (name pclcf @ [0]) (length (name pclcf)) \<noteq> 0 then Inl Outside
              else Inr (ngx_http_add_location locations clcf))"

section \<open>From the queue to the tree\<close>

definition ngx_http_cmp_locations :: "'m location_queue \<Rightarrow> 'm location_queue \<Rightarrow> int" where
  "ngx_http_cmp_locations one two =
     (let first = lq_conf one; second = lq_conf two in
      if noname first \<and> \<not> noname second then 1
      else if \<not> noname first \<and> noname second then - 1
      else if noname first \<or> noname second then 0
      else if named first \<and> \<not> named second then 1
      else if \<not> named first \<and> named second then - 1
      else if named first \<and> named second then ngx_strcmp (name first @ [0]) (name second @ [0])
      else if regex first \<noteq> None \<and> regex second = None then 1
      else if regex first = None \<and> regex second \<noteq> None then - 1
      else if regex first \<noteq> None \<or> regex second \<noteq> None then 0
      else
        let rc = ngx_filename_cmp (name first @ [0]) (name second @ [0]) (min (length (name first)) (length (name second)) + 1)
        in if rc = 0 \<and> \<not> exact_match first \<and> exact_match second then 1 else rc)"

datatype location_error = Duplicate_location bytes

fun ngx_http_join_exact_locations :: "'m location_queue list \<Rightarrow> location_error + 'm location_queue list" where
  "ngx_http_join_exact_locations (lq # lx # rest) =
     (if length (lq_name lq) = length (lq_name lx) \<and> ngx_filename_cmp (lq_name lq) (lq_name lx) (length (lq_name lx)) = 0
      then
        if lq_exact lq \<noteq> None \<and> lq_exact lx \<noteq> None \<or> lq_inclusive lq \<noteq> None \<and> lq_inclusive lx \<noteq> None
        then Inl (Duplicate_location (lq_name lx))
        else ngx_http_join_exact_locations (Location_queue (lq_exact lq) (lq_inclusive lx) (lq_name lq) (lq_list lq) # rest)
      else map_sum id (\<lambda>l. lq # l) (ngx_http_join_exact_locations (lx # rest)))"
| "ngx_http_join_exact_locations locations = Inr locations"

definition has_prefix :: "'m location_queue \<Rightarrow> 'm location_queue \<Rightarrow> bool" where
  "has_prefix lq lx \<longleftrightarrow> \<not> (length (lq_name lq) > length (lq_name lx) \<or> ngx_filename_cmp (lq_name lq) (lq_name lx) (length (lq_name lq)) \<noteq> 0)"

lemma size_takeWhile: "size_list f (takeWhile P xs) \<le> size_list f xs"
  by (induction xs) auto

lemma size_dropWhile: "size_list f (dropWhile P xs) \<le> size_list f xs"
  by (induction xs) auto

lemma size_lq_list: "size_list size (lq_list lq) < size lq"
  by (cases lq) simp

function (sequential) ngx_http_create_locations_list :: "'m location_queue list \<Rightarrow> 'm location_queue list" where
  "ngx_http_create_locations_list (lq # rest) =
     (if rest = [] then [lq]
      else if lq_inclusive lq = None then lq # ngx_http_create_locations_list rest
      else
        let inner = takeWhile (has_prefix lq) rest; outer = dropWhile (has_prefix lq) rest in
        if inner = [] then lq # ngx_http_create_locations_list outer
        else Location_queue (lq_exact lq) (lq_inclusive lq) (lq_name lq) (ngx_http_create_locations_list (lq_list lq @ inner)) #
          (if outer = [] then [] else ngx_http_create_locations_list outer))"
| "ngx_http_create_locations_list [] = []"

  by pat_completeness auto
termination
proof (relation "measure (size_list size)")
  fix lq :: "'m location_queue" and rest inner outer
  assume "inner = takeWhile (has_prefix lq) rest" "outer = dropWhile (has_prefix lq) rest"
  then have "size_list size inner \<le> size_list size rest" "size_list size outer \<le> size_list size rest"
    by (simp_all add: size_takeWhile size_dropWhile)
  then show "(lq_list lq @ inner, lq # rest) \<in> measure (size_list size)" "(outer, lq # rest) \<in> measure (size_list size)"
      "(outer, lq # rest) \<in> measure (size_list size)"
    using size_lq_list [of lq] by simp_all
qed simp_all

text \<open>One node of the tree: the middle of the queue, the parts before and behind it, the list of the middle.\<close>

lemma size_list_nth: "i < length xs \<Longrightarrow> size (xs ! i) < size_list size xs"
  by (induction xs arbitrary: i) (auto simp: nth_Cons split: nat.splits intro: less_SucI trans_less_add2)

lemma size_list_take: "m < length xs \<Longrightarrow> size_list f (take m xs) < size_list f xs"
  by (induction xs arbitrary: m) (auto simp: take_Cons split: nat.splits)

lemma size_list_drop: "size_list f (drop (Suc m) xs) < size_list f xs" if "m < length xs"
  using that
proof (induction xs arbitrary: m)
  case (Cons a xs)
  then show ?case by (cases m) (auto, fastforce)
qed simp

function (sequential) ngx_http_create_locations_tree :: "'m location_queue list \<Rightarrow> nat \<Rightarrow> 'm location_tree" where
  "ngx_http_create_locations_tree [] pre = Null_node"
| "ngx_http_create_locations_tree locations pre =
     (let m = length locations div 2; lq = locations ! m; len = length (lq_name lq) - pre;
          before = take m locations; tail = drop (Suc m) locations in
      Tree_node
        (if before = [] then Null_node else ngx_http_create_locations_tree before pre)
        (if before = [] \<or> tail = [] then Null_node else ngx_http_create_locations_tree tail pre)
        (if lq_list lq = [] then Null_node else ngx_http_create_locations_tree (lq_list lq) (pre + len))
        (lq_exact lq) (lq_inclusive lq)
        ((case lq_exact lq of Some c \<Rightarrow> auto_redirect c | None \<Rightarrow> False) \<or> (case lq_inclusive lq of Some c \<Rightarrow> auto_redirect c | None \<Rightarrow> False))
        (of_nat len) (drop pre (lq_name lq)))"
  by pat_completeness auto
termination
proof (relation "measure (\<lambda>(l, p). size_list size l)")
  fix q :: "'m location_queue" and qs and p m :: nat and lq len before tail
  assume m: "m = length (q # qs) div 2" "lq = (q # qs) ! m" "before = take m (q # qs)" "tail = drop (Suc m) (q # qs)"
  then have l: "m < length (q # qs)" by simp
  show "((before, p), q # qs, p) \<in> measure (\<lambda>(l, p). size_list size l)" "((tail, p), q # qs, p) \<in> measure (\<lambda>(l, p). size_list size l)"
    using size_list_take [OF l, of size] size_list_drop [OF l, of size] m by simp_all
  show "((lq_list lq, p + len), q # qs, p) \<in> measure (\<lambda>(l, p). size_list size l)"
    using size_list_nth [OF l] size_lq_list [of lq] m(2) by simp
qed simp

definition ngx_http_init_locations ::
    "'m location_queue list \<Rightarrow> 'm location_queue list \<times> 'm core_loc_conf list \<times> 'm core_loc_conf list" where
  "ngx_http_init_locations locations =
     (let sorted = sort_list ngx_http_cmp_locations locations;
          is_regex = (\<lambda>q. regex (lq_conf q) \<noteq> None);
          is_named = (\<lambda>q. \<not> is_regex q \<and> named (lq_conf q));
          visited = takeWhile (\<lambda>q. is_regex q \<or> is_named q \<or> \<not> noname (lq_conf q)) sorted;
          named_locations = dropWhile (\<lambda>q. \<not> is_named q) visited;
          unnamed = takeWhile (\<lambda>q. \<not> is_named q) visited;
          regex_locations = dropWhile (\<lambda>q. \<not> is_regex q) unnamed
      in (takeWhile (\<lambda>q. \<not> is_regex q) unnamed, map (the \<circ> lq_exact) regex_locations, map (the \<circ> lq_exact) named_locations))"

definition ngx_http_init_static_location_trees :: "'m location_queue list \<Rightarrow> location_error + 'm location_tree" where
  "ngx_http_init_static_location_trees locations =
     (if locations = [] then Inr Null_node
      else case ngx_http_join_exact_locations locations of
        Inl e \<Rightarrow> Inl e
      | Inr ys \<Rightarrow> Inr (ngx_http_create_locations_tree (ngx_http_create_locations_list ys) 0))"

section \<open>Nested locations\<close>

text \<open>The search through the tree of one level.\<close>

primrec ngx_http_core_find_static_location :: "bytes \<Rightarrow> 'm location_tree \<Rightarrow> ngx_rc \<times> 'm core_loc_conf \<Rightarrow> ngx_rc \<times> 'm core_loc_conf" where
  "ngx_http_core_find_static_location uri Null_node acc = acc"
| "ngx_http_core_find_static_location uri (Tree_node left right tree exact inclusive redirect wlen nam) acc =
     (let len = length uri; nlen = unat wlen; n = (if len \<le> nlen then len else nlen); rc = ngx_filename_cmp uri nam n in
      if rc \<noteq> 0 then
        if rc < 0 then ngx_http_core_find_static_location uri left acc else ngx_http_core_find_static_location uri right acc
      else if len > nlen then
        (case inclusive of
           Some c \<Rightarrow> ngx_http_core_find_static_location (drop n uri) tree (NGX_AGAIN, c)
         | None \<Rightarrow> ngx_http_core_find_static_location uri right acc)
      else if len = nlen then
        (case exact of Some c \<Rightarrow> (NGX_OK, c) | None \<Rightarrow> (NGX_AGAIN, the inclusive))
      else if len + 1 = nlen \<and> redirect then
        ngx_http_core_find_static_location uri left (NGX_DONE, exact_or_inclusive exact inclusive)
      else ngx_http_core_find_static_location uri left acc)"

datatype conf = Conf (nested: "conf core_loc_conf list")

datatype ctx = Ctx (static_locations: "ctx location_tree") (regex_locations: "ctx core_loc_conf list")

definition nested_error :: "((location_error + 'c) \<times> 'd) location_queue list \<Rightarrow> location_error option" where
  "nested_error statics = map_option (\<lambda>q. projl (fst (loc_conf (lq_conf q)))) (find (\<lambda>q. isl (fst (loc_conf (lq_conf q)))) statics)"

definition init_level :: "((location_error + ctx) \<times> ctx) core_loc_conf list \<Rightarrow> (location_error + ctx) \<times> ctx" where
  "init_level ks =
     (let (statics, regexes, _) = ngx_http_init_locations (foldl ngx_http_add_location [] ks);
          rs = map (map_core_loc_conf snd) regexes
      in (case nested_error statics of
            Some e \<Rightarrow> Inl e
          | None \<Rightarrow> map_sum id (\<lambda>t. Ctx t rs) (ngx_http_init_static_location_trees (map (map_location_queue (projr \<circ> fst)) statics)),
          Ctx Null_node rs))"

primrec init_conf :: "conf \<Rightarrow> (location_error + ctx) \<times> ctx" where
  "init_conf (Conf cs) = init_level (map (map_core_loc_conf init_conf) cs)"

partial_function (option) ngx_http_core_find_location ::
    "(nat \<Rightarrow> bytes \<Rightarrow> ngx_rc) \<Rightarrow> bytes \<Rightarrow> ctx core_loc_conf \<Rightarrow> (ngx_rc \<times> ctx core_loc_conf) option" where
  "ngx_http_core_find_location rex u pclcf = do {
     let (rc, r) = ngx_http_core_find_static_location u (static_locations (loc_conf pclcf)) (NGX_DECLINED, pclcf);
     (rc, r, nore) \<leftarrow> (if rc = NGX_AGAIN
       then do { (rc', r') \<leftarrow> ngx_http_core_find_location rex u r; Some (rc', r', noregex r) }
       else Some (rc, r, False));
     if rc = NGX_OK \<or> rc = NGX_DONE then Some (rc, r)
     else if nore then Some (rc, r)
     else case dropWhile (\<lambda>c. rex (the (regex c)) u = NGX_DECLINED) (regex_locations (loc_conf pclcf)) of
       [] \<Rightarrow> Some (rc, r)
     | c # _ \<Rightarrow>
         if rex (the (regex c)) u = NGX_OK
         then do { (rc', r') \<leftarrow> ngx_http_core_find_location rex u c; Some (if rc' = NGX_ERROR then NGX_ERROR else NGX_OK, r') }
         else Some (NGX_ERROR, r) }"

end
