(* ===== verification/Http_Location_Tree.thy ===== *)
theory Http_Location_Tree
  imports Http_Location
begin

text \<open>
  The search in the tree of locations.  The names are ordered with the slash as the lowest character.  A
  sorted list of entries is nested by \<open>ngx_http_create_locations_list\<close> into a \<open>forest\<close>, where an entry that
  matches by prefix holds all the entries that continue its name; \<open>ngx_http_create_locations_tree\<close>
  makes a ternary tree of it.  The search in the tree is the search in the forest, and that is one
  scan of the sorted list (\<open>scan\<close>).
\<close>

section \<open>The order of the names\<close>

text \<open>\<open>NUL\<close> is the lowest character and the slash comes next.\<close>

definition bkey :: "u8 \<Rightarrow> nat" where
  "bkey c = (if c = 0 then 0 else if c = ch_slash then 1 else Suc (unat c))"

abbreviation nk :: "bytes \<Rightarrow> nat list" where
  "nk \<equiv> map bkey"

text \<open>\<open>below u v\<close>: at the first difference, \<open>u\<close> has the lower character.\<close>

fun below :: "bytes \<Rightarrow> bytes \<Rightarrow> bool" where
  "below (a # x) (b # y) \<longleftrightarrow> bkey a < bkey b \<or> a = b \<and> below x y"
| "below u v \<longleftrightarrow> False"

lemma u8_eq_iff: "a = b \<longleftrightarrow> unat a = unat b" for a b :: u8
  by (rule word_unat_eq_iff)

lemma bkey_inj [simp]: "bkey a = bkey b \<longleftrightarrow> a = b"
  by (auto simp: bkey_def u8_eq_iff)

lemma nk_inj [simp]: "nk u = nk v \<longleftrightarrow> u = v"
  by (rule inj_map_eq_map) (simp add: inj_def)

text \<open>The difference that the comparison returns.\<close>

definition cdiff :: "u8 \<Rightarrow> u8 \<Rightarrow> int" where
  "cdiff a b = (if a = 0 \<or> b = 0 then uint a - uint b else (if a = ch_slash then 0 else uint a) - (if b = ch_slash then 0 else uint b))"

lemma cdiff_sign: "a \<noteq> b \<Longrightarrow> cdiff a b < 0 \<longleftrightarrow> bkey a < bkey b" "a \<noteq> b \<Longrightarrow> cdiff a b \<noteq> 0"
proof -
  have u: "uint a = int (unat a)" "uint b = int (unat b)" by simp_all
  show "a \<noteq> b \<Longrightarrow> cdiff a b < 0 \<longleftrightarrow> bkey a < bkey b" "a \<noteq> b \<Longrightarrow> cdiff a b \<noteq> 0"
    unfolding cdiff_def bkey_def u u8_eq_iff by (auto simp del: of_nat_unat)
qed

lemma below_append [simp]: "below (w @ x) (w @ y) \<longleftrightarrow> below x y"
  by (induction w) auto

lemma below_grow: "below u v \<Longrightarrow> below (u @ x) (v @ y)"
  by (induction u v rule: below.induct) auto

lemma below_takeD: "below (take m u) (take n v) \<Longrightarrow> below u v"
  using below_grow [of "take m u" "take n v" "drop m u" "drop n v"] by simp

lemma nk_less: "nk u < nk v \<longleftrightarrow> strict_prefix u v \<or> below u v"
  by (induction u v rule: list_induct2') auto

lemma below_nk: "below u v \<Longrightarrow> nk u < nk v"
  by (simp add: nk_less)

lemma strict_prefix_nk: "strict_prefix u v \<Longrightarrow> nk u < nk v"
  by (simp add: nk_less)

lemma below_prefix: "below n q \<Longrightarrow> prefix n u \<Longrightarrow> below u q"
  using below_grow [of n q _ "[]"] by (auto simp: prefix_def)

lemma below_not_prefix: "below u v \<Longrightarrow> \<not> prefix u v" "below u v \<Longrightarrow> \<not> prefix v u"
  by (metis below_nk below_prefix less_irrefl) (metis below_nk less_asym less_irrefl nk_less prefix_order.le_less)

lemma filename_cmp:
  assumes "n \<le> length s1" "n \<le> length s2" "0 \<notin> set s2"
  shows "ngx_filename_cmp s1 s2 n < 0 \<longleftrightarrow> below (take n s1) (take n s2)" "ngx_filename_cmp s1 s2 n = 0 \<longleftrightarrow> take n s1 = take n s2"
  using assms
proof (induction s1 s2 n rule: ngx_filename_cmp.induct)
  case (1 c1 s1 c2 s2 n)
  { case 1
    then show ?case using "1.IH"(1) cdiff_sign(1) [of c1 c2] by (cases "c1 = c2") (simp_all add: cdiff_def)
  next
    case 2
    then show ?case using "1.IH"(2) cdiff_sign(2) [of c1 c2] by (cases "c1 = c2") (simp_all add: cdiff_def)
  }
qed simp_all

lemma below_total: "length u = length v \<Longrightarrow> u = v \<or> below u v \<or> below v u"
  by (induction u v rule: list_induct2) (auto simp: not_less_iff_gr_or_eq)

section \<open>Lookup in a forest of locations\<close>

definition redirects :: "'m location_queue \<Rightarrow> bool" where
  "redirects q \<longleftrightarrow> (case lq_exact q of Some c \<Rightarrow> auto_redirect c | None \<Rightarrow> False) \<or> (case lq_inclusive q of Some c \<Rightarrow> auto_redirect c | None \<Rightarrow> False)"

text \<open>The roles an entry may have for a URI.\<close>

definition covers :: "bytes \<Rightarrow> 'm location_queue \<Rightarrow> bool" where
  "covers u q \<longleftrightarrow> strict_prefix (lq_name q) u \<and> lq_inclusive q \<noteq> None"

definition leads :: "bytes \<Rightarrow> 'm location_queue \<Rightarrow> bool" where
  "leads u q \<longleftrightarrow> prefix u (lq_name q) \<and> length (lq_name q) = length u + 1 \<and> redirects q"

definition hit :: "'m location_queue \<Rightarrow> ngx_rc \<times> 'm core_loc_conf" where
  "hit q = (case lq_exact q of Some c \<Rightarrow> (NGX_OK, c) | None \<Rightarrow> (NGX_AGAIN, the (lq_inclusive q)))"

text \<open>The search through a forest in the order of its siblings, descending below an inclusive prefix of the URI.\<close>

function (sequential) search :: "'m location_queue list \<Rightarrow> bytes \<Rightarrow> ngx_rc \<times> 'm core_loc_conf \<Rightarrow> ngx_rc \<times> 'm core_loc_conf" where
  "search [] u acc = acc"
| "search (q # qs) u acc =
     (if lq_name q = u then hit q
      else if covers u q then search (lq_list q) u (NGX_AGAIN, the (lq_inclusive q))
      else if leads u q then search qs u (NGX_DONE, lq_conf q)
      else search qs u acc)"
  by pat_completeness auto
termination
proof (relation "measure (\<lambda>(l, u, a). size_list size l)")
  show "((lq_list q, u, NGX_AGAIN, the (lq_inclusive q)), q # qs, u, acc) \<in> measure (\<lambda>(l, u, a). size_list size l)" for q qs u acc
    using size_lq_list [of q] by (auto simp: less_SucI trans_less_add1)
qed simp_all

text \<open>Entries the tree is made of.\<close>

definition entry_ok :: "'m location_queue \<Rightarrow> bool" where
  "entry_ok q \<longleftrightarrow> 0 \<notin> set (lq_name q) \<and> length (lq_name q) < 256 \<and> (lq_exact q \<noteq> None \<or> lq_inclusive q \<noteq> None) \<and>
     (redirects q \<longrightarrow> lq_name q \<noteq> [] \<and> last (lq_name q) = ch_slash)"

definition ahead :: "'m location_queue \<Rightarrow> 'm location_queue \<Rightarrow> bool" where
  "ahead p q \<longleftrightarrow> nk (lq_name p) < nk (lq_name q) \<and> (lq_inclusive p \<noteq> None \<longrightarrow> \<not> prefix (lq_name p) (lq_name q))"

inductive forest :: "'m location_queue list \<Rightarrow> bool" where
  "sorted_wrt ahead qs \<Longrightarrow>
   (\<And>q. q \<in> set qs \<Longrightarrow> entry_ok q \<and> (lq_list q \<noteq> [] \<longrightarrow> lq_inclusive q \<noteq> None) \<and>
     (\<forall>s \<in> set (lq_list q). strict_prefix (lq_name q) (lq_name s)) \<and> forest (lq_list q)) \<Longrightarrow> forest qs"

inductive_simps forest_iff: "forest qs"

definition inert :: "bytes \<Rightarrow> 'm location_queue \<Rightarrow> bool" where
  "inert u q \<longleftrightarrow> lq_name q \<noteq> u \<and> \<not> covers u q \<and> \<not> leads u q"

lemma search_inert: "(\<And>q. q \<in> set qs \<Longrightarrow> inert u q) \<Longrightarrow> search (qs @ rs) u acc = search rs u acc"
  by (induction qs) (auto simp: inert_def)

lemma search_inert_end: "(\<And>q. q \<in> set rs \<Longrightarrow> inert u q) \<Longrightarrow> search (qs @ rs) u acc = search qs u acc"
proof (induction qs arbitrary: acc)
  case Nil
  then show ?case using search_inert [of rs u "[]" acc] by simp
qed simp

lemma leads_slash: "entry_ok q \<Longrightarrow> leads u q \<Longrightarrow> lq_name q = u @ [ch_slash]"
proof -
  assume q: "entry_ok q" "leads u q"
  then obtain w where w: "lq_name q = u @ w" "length w = 1" by (auto simp: leads_def prefix_def)
  then obtain c where "w = [c]" by (auto simp: length_Suc_conv)
  then show ?thesis using q w by (simp add: entry_ok_def leads_def)
qed

lemma leads_above: "leads u q \<Longrightarrow> nk u < nk (lq_name q)"
  by (rule strict_prefix_nk) (auto simp: leads_def strict_prefix_def)

lemma slash_lowest: "strict_prefix u q \<Longrightarrow> 0 \<notin> set q \<Longrightarrow> nk q < nk (u @ [ch_slash]) \<Longrightarrow> False"
proof -
  assume "strict_prefix u q" and z: "0 \<notin> set q" and l: "nk q < nk (u @ [ch_slash])"
  then obtain d x where q: "q = u @ d # x" by (metis strict_prefixE')
  then have "d \<noteq> 0" using z by auto
  then have "bkey d \<ge> 1" by (simp add: bkey_def)
  moreover have "strict_prefix q (u @ [ch_slash]) \<or> below q (u @ [ch_slash])" using l unfolding nk_less .
  ultimately show False using q by (auto simp: strict_prefix_def bkey_def split: if_splits)
qed

text \<open>
  One comparison of the search in the tree. The URI \<open>u\<close> meets the entry \<open>q\<close> in the middle of
  \<open>A @ q # B\<close>; which side is left out does not matter.
\<close>

lemma middle_facts:
  assumes "forest (A @ q # B)"
  shows "entry_ok q" "\<And>p. p \<in> set A \<Longrightarrow> ahead p q \<and> entry_ok p" "\<And>p. p \<in> set B \<Longrightarrow> ahead q p \<and> entry_ok p" "forest A" "forest B" "forest (lq_list q)"
proof -
  note f = assms [unfolded forest_iff [of "A @ q # B"]]
  show "entry_ok q" "\<And>p. p \<in> set A \<Longrightarrow> ahead p q \<and> entry_ok p" "\<And>p. p \<in> set B \<Longrightarrow> ahead q p \<and> entry_ok p" "forest (lq_list q)"
    using f by (auto simp: sorted_wrt_append)
  show "forest A" "forest B" unfolding forest_iff [of A] forest_iff [of B] using f by (auto simp: sorted_wrt_append)
qed

lemma inert_rear_below: "below u (lq_name q) \<Longrightarrow> nk (lq_name q) \<le> nk (lq_name p) \<Longrightarrow> inert u p"
proof -
  assume b: "below u (lq_name q)" and le: "nk (lq_name q) \<le> nk (lq_name p)"
  have "nk (u @ x) < nk (lq_name p)" for x using below_nk [OF below_grow [OF b, of x "[]"]] le by simp
  from this [of "[]"] this [of "drop (length u) (lq_name p)"]
  have n: "nk u < nk (lq_name p)" "\<not> prefix u (lq_name p)" by (auto simp: prefix_def)
  moreover have "\<not> strict_prefix (lq_name p) u" using n(1) strict_prefix_nk by (meson less_asym)
  ultimately show ?thesis by (auto simp: inert_def covers_def leads_def)
qed

lemma inert_front:
  assumes "ahead p q" "\<not> below u (lq_name q)" "\<not> strict_prefix u (lq_name q)"
  shows "inert u p"
proof -
  have lt: "nk (lq_name p) < nk (lq_name q)" "nk (lq_name q) \<le> nk u"
    using assms nk_less [of u "lq_name q"] by (auto simp: ahead_def not_less [symmetric])
  have "\<not> covers u p"
  proof
    assume c: "covers u p"
    then have "below (lq_name p) (lq_name q)" using assms(1) by (auto simp: ahead_def covers_def nk_less)
    then show False using below_prefix c assms(2) by (auto simp: covers_def strict_prefix_def)
  qed
  moreover have "\<not> leads u p" using leads_above lt by (metis less_asym' less_le_trans)
  ultimately show ?thesis using lt by (auto simp: inert_def)
qed

lemma search_below:
  assumes f: "forest (A @ q # B)" and "below u (lq_name q)"
  shows "search (A @ q # B) u acc = search A u acc"
proof (rule search_inert_end)
  fix p assume "p \<in> set (q # B)"
  then have "nk (lq_name q) \<le> nk (lq_name p)" using middle_facts(3) [OF f, of p] by (auto simp: ahead_def)
  then show "inert u p" using inert_rear_below assms(2) by blast
qed

lemma search_past:
  assumes f: "forest (A @ q # B)" and "\<not> below u (lq_name q)" "\<not> strict_prefix u (lq_name q)"
  shows "search (A @ q # B) u acc = search (q # B) u acc"
  by (rule search_inert) (use inert_front middle_facts(2) [OF f] assms(2,3) in blast)

lemma search_above:
  assumes f: "forest (A @ q # B)" and "below (lq_name q) u"
  shows "search (A @ q # B) u acc = search B u acc"
proof -
  have n: "\<not> below u (lq_name q)" "\<not> prefix u (lq_name q)" "\<not> prefix (lq_name q) u" "lq_name q \<noteq> u"
    using below_nk [OF assms(2)] below_nk [of u "lq_name q"] below_not_prefix [OF assms(2)] by auto
  then have "search (A @ q # B) u acc = search (q # B) u acc" using search_past [OF f] by (simp add: strict_prefix_def)
  then show ?thesis using n by (simp add: covers_def leads_def strict_prefix_def)
qed

lemma search_shorter:
  assumes f: "forest (A @ q # B)" and "strict_prefix (lq_name q) u"
  shows "search (A @ q # B) u acc = (case lq_inclusive q of Some c \<Rightarrow> search (lq_list q) u (NGX_AGAIN, c) | None \<Rightarrow> search B u acc)"
proof -
  have n: "\<not> below u (lq_name q)" "\<not> prefix u (lq_name q)" "lq_name q \<noteq> u"
    using strict_prefix_nk [OF assms(2)] below_nk [of u "lq_name q"] assms(2) by (auto simp: strict_prefix_def)
  then have "search (A @ q # B) u acc = search (q # B) u acc" using search_past [OF f] by (simp add: strict_prefix_def)
  then show ?thesis using n assms(2) by (auto simp: covers_def leads_def split: option.splits)
qed

lemma search_equal:
  assumes f: "forest (A @ q # B)" and "lq_name q = u"
  shows "search (A @ q # B) u acc = hit q"
  using search_past [OF f, of u acc] below_nk [of u u] assms(2) by auto

lemma inert_rear_longer:
  assumes f: "forest (A @ q # B)" and "strict_prefix u (lq_name q)" "p \<in> set (q # B)" "leads u p \<Longrightarrow> lq_name p \<noteq> lq_name q"
  shows "inert u p"
proof -
  have le: "nk (lq_name q) \<le> nk (lq_name p)" and ok: "entry_ok p" "entry_ok q"
    using middle_facts(1) [OF f] middle_facts(3) [OF f, of p] assms(3) by (auto simp: ahead_def less_imp_le)
  have lt: "nk u < nk (lq_name p)" using strict_prefix_nk [OF assms(2)] le by simp
  have "\<not> leads u p"
  proof
    assume l: "leads u p"
    then have "nk (lq_name q) < nk (lq_name p)" using assms(4) le by (metis le_neq_trans nk_inj)
    then have "nk (lq_name q) < nk (u @ [ch_slash])" using leads_slash [OF ok(1) l] by metis
    then show False using slash_lowest assms(2) ok(2) by (auto simp: entry_ok_def)
  qed
  then show ?thesis using lt strict_prefix_nk [of "lq_name p" u] by (auto simp: inert_def covers_def)
qed

lemma search_longer:
  assumes f: "forest (A @ q # B)" and "strict_prefix u (lq_name q)" "\<not> leads u q"
  shows "search (A @ q # B) u acc = search A u acc"
proof (rule search_inert_end)
  fix p assume p: "p \<in> set (q # B)"
  show "inert u p"
  proof (rule inert_rear_longer [OF f assms(2) p])
    show "lq_name p \<noteq> lq_name q" if "leads u p"
      using that p assms(3) middle_facts(3) [OF f, of p] by (auto simp: ahead_def)
  qed
qed

lemma search_leads:
  assumes f: "forest (A @ q # B)" and l: "leads u q"
  shows "search (A @ q # B) u acc = search A u (NGX_DONE, lq_conf q)"
proof -
  have sp: "strict_prefix u (lq_name q)" "lq_name q \<noteq> u" "\<not> covers u q"
    using l strict_prefix_nk [of "lq_name q" u] leads_above [OF l] by (auto simp: leads_def strict_prefix_def covers_def)
  have ql: "lq_name q = u @ [ch_slash]" using leads_slash middle_facts(1) [OF f] l by blast
  have B: "inert u p" if "p \<in> set B" for p
  proof (rule inert_rear_longer [OF f sp(1)])
    show "p \<in> set (q # B)" "lq_name p \<noteq> lq_name q" using middle_facts(3) [OF f that] that by (auto simp: ahead_def)
  qed
  have A: "lq_name p = u \<or> inert u p" if "p \<in> set A" for p
  proof -
    have a: "ahead p q" "entry_ok p" using middle_facts(2) [OF f that] by auto
    have "\<not> covers u p" using a(1) sp(1) by (auto simp: ahead_def covers_def strict_prefix_def)
    moreover have "\<not> leads u p" using leads_slash [OF a(2)] ql a(1) by (auto simp: ahead_def)
    ultimately show ?thesis by (auto simp: inert_def)
  qed
  have "search (q # B) u b = (NGX_DONE, lq_conf q)" for b
    using search_inert [of B u "[]" "(NGX_DONE, lq_conf q)"] B sp l by simp
  then show ?thesis using A
  proof (induction A arbitrary: acc)
    case (Cons p A)
    have "lq_name p = u \<or> inert u p" using Cons.prems(2) by simp
    moreover have "search (A @ q # B) u acc = search A u (NGX_DONE, lq_conf q)" by (rule Cons.IH) (use Cons.prems in auto)
    ultimately show ?case by (auto simp: inert_def)
  qed simp
qed

text \<open>The search in the tree built for a forest is the search in the forest.\<close>

lemma unat_len: "n < 256 \<Longrightarrow> unat (of_nat n :: u8) = n"
  by (simp add: unat_of_nat)

text \<open>One node: the search in it is right when the searches in its three subtrees are.\<close>

lemma find_node:
  assumes fo: "forest (A @ q # B)" and u: "u = P @ r" and nq: "lq_name q = P @ s"
    and left: "\<And>b. ngx_http_core_find_static_location r TL b = search A u b"
    and right: "\<And>b. ngx_http_core_find_static_location r TR b = search B u b"
    and nested: "\<And>b. strict_prefix (lq_name q) u \<Longrightarrow> ngx_http_core_find_static_location (drop (length s) r) TN b = search (lq_list q) u b"
  shows "ngx_http_core_find_static_location r (Tree_node TL TR TN (lq_exact q) (lq_inclusive q) (redirects q) (of_nat (length s)) s) acc = search (A @ q # B) u acc"
proof -
  define n where "n = (if length r \<le> length s then length r else length s)"
  have sl: "length s < 256" "0 \<notin> set s" using middle_facts(1) [OF fo] nq by (auto simp: entry_ok_def)
  have nl: "n \<le> length r" "n \<le> length s" by (simp_all add: n_def)
  note cmp = filename_cmp [OF nl sl(2)] and ev = unat_len [OF sl(1)] Let_def
  show ?thesis
  proof (cases "ngx_filename_cmp r s n" "0 :: int" rule: linorder_cases)
    case less
    then have "below u (lq_name q)" using cmp(1) below_takeD [of n r n s] nq u by simp
    then show ?thesis using search_below [OF fo] left less unfolding n_def by (simp add: ev)
  next
    case greater
    then have "below (lq_name q) u" using cmp below_total [of "take n r" "take n s"] below_takeD [of n s n r] nl nq u by auto
    then show ?thesis using search_above [OF fo] right greater unfolding n_def by (simp add: ev)
  next
    case equal
    then have e: "take n r = take n s" using cmp(2) by simp
    consider (longer) "length s < length r" | (same) "length r = length s" | (shorter) "length r < length s" by linarith
    then show ?thesis
    proof cases
      case longer
      then have "r = s @ drop n r" using e by (metis append_take_drop_id n_def not_le take_all_iff order_refl)
      then have "strict_prefix (lq_name q) u" using longer nq u by (auto simp: strict_prefix_def prefix_def)
      then show ?thesis using search_shorter [OF fo] right nested equal longer unfolding n_def by (simp add: ev split: option.splits)
    next
      case same
      then have "lq_name q = u" using e nq u by (simp add: n_def)
      then show ?thesis using search_equal [OF fo] equal same unfolding n_def by (simp add: ev hit_def split: option.splits)
    next
      case shorter
      then have "s = r @ drop n s" using e by (metis append_take_drop_id n_def less_imp_le take_all_iff order_refl)
      then have sp: "strict_prefix u (lq_name q)" using shorter nq u by (auto simp: strict_prefix_def prefix_def)
      have "leads u q \<longleftrightarrow> length r + 1 = length s \<and> redirects q" using sp nq u by (auto simp: leads_def strict_prefix_def)
      then show ?thesis using search_longer [OF fo sp] search_leads [OF fo] left equal shorter unfolding n_def by (simp add: ev)
    qed
  qed
qed

lemma middle_alone:
  assumes "L \<noteq> []" "take (length L div 2) L = []"
  shows "drop (Suc (length L div 2)) L = []"
  using assms by (cases L; cases "tl L") auto

lemma find_tree:
  assumes "forest qs" "pre \<le> length u" "\<And>q. q \<in> set qs \<Longrightarrow> prefix (take pre u) (lq_name q)"
  shows "ngx_http_core_find_static_location (drop pre u) (ngx_http_create_locations_tree qs pre) acc = search qs u acc"
  using assms
proof (induction qs pre arbitrary: acc rule: ngx_http_create_locations_tree.induct)
  case (2 x xs pre)
  define L where "L = x # xs"
  define m where "m = length L div 2"
  define q where "q = L ! m"
  define A where "A = take m L"
  define B where "B = drop (Suc m) L"
  define P where "P = take pre u"
  define r where "r = drop pre u"
  define s where "s = drop pre (lq_name q)"
  note defs = m_def q_def A_def B_def L_def r_def P_def
  have m: "m < length L" by (simp add: m_def L_def)
  have L: "L = A @ q # B" using id_take_nth_drop [OF m] by (simp add: A_def q_def B_def)
  have fo: "forest (A @ q # B)" using "2.prems"(1) L by (simp add: L_def)
  note mf = middle_facts [OF fo]
  have u: "u = P @ r" "length P = pre" using "2.prems"(2) by (simp_all add: P_def r_def)
  have pq: "prefix P (lq_name p)" if "p \<in> set L" for p using "2.prems"(3) that by (auto simp: P_def L_def)
  have pAB: "prefix P (lq_name p)" if "p \<in> set A \<or> p \<in> set B" for p using pq that L by auto
  have nq: "lq_name q = P @ s" using pq [of q] L u(2) by (auto simp: prefix_def s_def)
  have len: "length (lq_name q) - pre = length s" using nq u(2) by simp
  let ?find = "ngx_http_core_find_static_location" and ?tree = "ngx_http_create_locations_tree"
  define TL where "TL = (if A = [] then Null_node else ?tree A pre)"
  define TR where "TR = (if A = [] \<or> B = [] then Null_node else ?tree B pre)"
  define TN where "TN = (if lq_list q = [] then Null_node else ?tree (lq_list q) (pre + length s))"
  have left: "?find r TL b = search A u b" for b
    using "2.IH"(1) [of m q _ A B] mf(4) "2.prems"(2) pAB by (cases "A = []") (simp_all add: TL_def defs)
  have BA: "A = [] \<Longrightarrow> B = []" using middle_alone [of L] by (simp add: A_def B_def m_def L_def)
  have right: "?find r TR b = search B u b" for b
    using "2.IH"(2) [of m q _ A B] mf(5) "2.prems"(2) pAB BA by (cases "A = [] \<or> B = []") (auto simp: TR_def defs)
  have nested: "?find (drop (length s) r) TN b = search (lq_list q) u b" if sp: "strict_prefix (lq_name q) u" for b
  proof (cases "lq_list q = []")
    case False
    obtain w where w: "u = lq_name q @ w" using sp by (auto simp: strict_prefix_def prefix_def)
    have e: "drop (length s) r = drop (pre + length s) u" "pre + length s = length (lq_name q)" using nq u(2) by (simp_all add: r_def add.commute)
    moreover have "strict_prefix (lq_name q) (lq_name p)" if "p \<in> set (lq_list q)" for p
      using fo that unfolding forest_iff [of "A @ q # B"] by simp
    moreover have "TN = ?tree (lq_list q) (pre + length s)" using False by (simp add: TN_def)
    ultimately show ?thesis
      using "2.IH"(3) [of m q "length s" A B b] False mf(6) len w by (simp add: m_def q_def A_def B_def L_def strict_prefix_def)
  qed (simp add: TN_def)
  have "?tree L pre = Tree_node TL TR TN (lq_exact q) (lq_inclusive q) (redirects q) (of_nat (length s)) s"
    using len by (simp add: m_def q_def A_def B_def L_def s_def Let_def redirects_def TL_def TR_def TN_def)
  then have "?find r (?tree L pre) acc = search L u acc" using find_node [OF fo u(1) nq left right nested] L by simp
  then show ?case by (simp only: L_def r_def)
qed simp

section \<open>The nested list\<close>

text \<open>The flat search: all entries in their order.\<close>

fun scan :: "'m location_queue list \<Rightarrow> bytes \<Rightarrow> ngx_rc \<times> 'm core_loc_conf \<Rightarrow> ngx_rc \<times> 'm core_loc_conf" where
  "scan [] u acc = acc"
| "scan (q # qs) u acc =
     (if lq_name q = u then hit q
      else if covers u q then scan qs u (NGX_AGAIN, the (lq_inclusive q))
      else if leads u q then scan qs u (NGX_DONE, lq_conf q)
      else scan qs u acc)"

lemma scan_inert: "(\<And>q. q \<in> set qs \<Longrightarrow> inert u q) \<Longrightarrow> scan (qs @ rs) u acc = scan rs u acc"
  by (induction qs) (auto simp: inert_def)

lemma scan_inert_end: "(\<And>q. q \<in> set rs \<Longrightarrow> inert u q) \<Longrightarrow> scan (qs @ rs) u acc = scan qs u acc"
proof (induction qs arbitrary: acc)
  case Nil
  then show ?case using scan_inert [of rs u "[]" acc] by simp
qed simp

definition flat :: "'m location_queue list \<Rightarrow> bool" where
  "flat qs \<longleftrightarrow> sorted_wrt (\<lambda>p q. nk (lq_name p) < nk (lq_name q)) qs \<and> (\<forall>q \<in> set qs. lq_list q = [] \<and> entry_ok q)"

lemma has_prefix: "entry_ok lx \<Longrightarrow> has_prefix lq lx \<longleftrightarrow> prefix (lq_name lq) (lq_name lx)"
proof (cases "length (lq_name lq) \<le> length (lq_name lx)")
  case True
  assume "entry_ok lx"
  then have "has_prefix lq lx \<longleftrightarrow> take (length (lq_name lq)) (lq_name lx) = lq_name lq"
    using True filename_cmp(2) [of "length (lq_name lq)" "lq_name lq" "lq_name lx"] by (auto simp: has_prefix_def entry_ok_def)
  then show ?thesis by (metis append_eq_conv_conj prefix_def append_take_drop_id)
next
  case False
  then show ?thesis by (auto simp: has_prefix_def dest: prefix_length_le)
qed

lemma create_list_names: "lq_name ` set (ngx_http_create_locations_list qs) \<subseteq> lq_name ` set qs" if "\<forall>q \<in> set qs. lq_list q = []"
  using that
proof (induction qs rule: ngx_http_create_locations_list.induct)
  case (1 lq rest)
  let ?o = "dropWhile (has_prefix lq) rest"
  have s: "lq_name ` set ?o \<subseteq> lq_name ` set rest" by (auto dest: set_dropWhileD)
  have n: "\<forall>q \<in> set ?o. lq_list q = []" using "1.prems" by (auto dest: set_dropWhileD)
  show ?case
  proof (cases "rest = [] \<or> lq_inclusive lq = None")
    case True
    then show ?thesis using "1.IH"(1) "1.prems" by auto
  next
    case False
    then have "lq_name ` set (ngx_http_create_locations_list ?o) \<subseteq> lq_name ` set ?o"
    proof (cases "?o = []")
      case True
      then have "ngx_http_create_locations_list ?o = []" by (simp only: ngx_http_create_locations_list.simps)
      then show ?thesis by simp
    next
      case o: False
      then show ?thesis using "1.IH"(2,4) [OF _ _ refl refl] n False by (cases "takeWhile (has_prefix lq) rest = []") blast+
    qed
    then show ?thesis using s False by (auto simp: Let_def)
  qed
qed simp

text \<open>The entries that continue a name follow it directly.\<close>

lemma outer_above:
  assumes "flat (lq # rest)" "p \<in> set (dropWhile (has_prefix lq) rest)"
  shows "below (lq_name lq) (lq_name p)"
proof -
  obtain h t where ht: "dropWhile (has_prefix lq) rest = h # t" using assms(2) by (cases "dropWhile (has_prefix lq) rest") auto
  then have h: "\<not> has_prefix lq h" "h \<in> set rest" by (metis hd_dropWhile list.distinct(1) list.sel(1), metis list.set_intros(1) set_dropWhileD)
  have "rest = takeWhile (has_prefix lq) rest @ h # t" using ht by (metis takeWhile_dropWhile_id)
  then have "sorted_wrt (\<lambda>p q. nk (lq_name p) < nk (lq_name q)) (takeWhile (has_prefix lq) rest @ h # t)" using assms(1) by (simp add: flat_def)
  then have hp: "nk (lq_name h) \<le> nk (lq_name p)" using assms(2) ht by (auto simp: sorted_wrt_append less_imp_le)
  have "below (lq_name lq) (lq_name h)"
    using h assms(1) has_prefix [of h lq] nk_less [of "lq_name lq" "lq_name h"] by (auto simp: flat_def strict_prefix_def)
  then have b: "nk (lq_name lq @ x) < nk (lq_name p)" for x using below_nk [OF below_grow [of _ _ x "[]"]] hp by fastforce
  then have "nk (lq_name lq) < nk (lq_name p)" by (metis append_Nil2)
  moreover have "\<not> prefix (lq_name lq) (lq_name p)" using b by (metis less_irrefl prefix_def)
  ultimately show ?thesis by (auto simp: nk_less strict_prefix_def)
qed

lemma flat_parts:
  assumes "flat (lq # rest)"
  shows "flat rest" "flat (takeWhile (has_prefix lq) rest)" "flat (dropWhile (has_prefix lq) rest)"
    "\<And>p. p \<in> set (takeWhile (has_prefix lq) rest) \<Longrightarrow> strict_prefix (lq_name lq) (lq_name p)"
    "\<And>p. p \<in> set rest \<Longrightarrow> nk (lq_name lq) < nk (lq_name p)"
proof -
  let ?i = "takeWhile (has_prefix lq) rest" and ?o = "dropWhile (has_prefix lq) rest"
  show r: "flat rest" using assms by (simp add: flat_def)
  have "sorted_wrt (\<lambda>p q. nk (lq_name p) < nk (lq_name q)) (?i @ ?o)" using r unfolding takeWhile_dropWhile_id flat_def by blast
  then have "sorted_wrt (\<lambda>p q. nk (lq_name p) < nk (lq_name q)) ?i" "sorted_wrt (\<lambda>p q. nk (lq_name p) < nk (lq_name q)) ?o"
    unfolding sorted_wrt_append by blast+
  then show "flat ?i" "flat ?o" using r set_takeWhileD [of _ "has_prefix lq" rest] set_dropWhileD [of _ "has_prefix lq" rest]
    unfolding flat_def by blast+
  show lt: "nk (lq_name lq) < nk (lq_name p)" if "p \<in> set rest" for p using assms that by (simp add: flat_def)
  show "strict_prefix (lq_name lq) (lq_name p)" if "p \<in> set ?i" for p
    using that assms has_prefix [of p lq] lt [of p] set_takeWhileD [OF that] by (auto simp: flat_def strict_prefix_def)
qed

lemma forest_Nil [simp]: "forest []"
  by (subst forest_iff) simp

lemma forest_Cons: "forest (q # qs) \<longleftrightarrow> (\<forall>p \<in> set qs. ahead q p) \<and> entry_ok q \<and> (lq_list q \<noteq> [] \<longrightarrow> lq_inclusive q \<noteq> None) \<and>
    (\<forall>s \<in> set (lq_list q). strict_prefix (lq_name q) (lq_name s)) \<and> forest (lq_list q) \<and> forest qs"
  by (subst (1 3) forest_iff) auto

lemma inert_outer:
  assumes "flat (lq # rest)" "prefix (lq_name lq) u" "p \<in> set (dropWhile (has_prefix lq) rest)"
  shows "inert u p"
  by (rule inert_rear_below [OF below_prefix [OF outer_above [OF assms(1,3)] assms(2)] order_refl])

lemma inert_inner:
  assumes "strict_prefix n (lq_name p)" "n \<noteq> u" "\<not> strict_prefix n u"
  shows "inert u p"
proof -
  have n: "\<not> prefix n u" using assms(2,3) by (simp add: strict_prefix_def)
  have "\<not> leads u p"
  proof
    assume l: "leads u p"
    have "length n \<le> length u" using l prefix_length_less [OF assms(1)] by (simp add: leads_def)
    then show False using l assms(1) n prefix_length_prefix [of n "lq_name p" u] by (simp add: leads_def strict_prefix_def)
  qed
  moreover have "lq_name p \<noteq> u" "\<not> covers u p" using assms(1) n by (auto simp: covers_def strict_prefix_def)
  ultimately show ?thesis by (simp add: inert_def)
qed

lemma create_list_forest:
  "flat qs \<Longrightarrow> forest (ngx_http_create_locations_list qs) \<and> (\<forall>u acc. search (ngx_http_create_locations_list qs) u acc = scan qs u acc)"
proof (induction qs rule: ngx_http_create_locations_list.induct)
  case (1 lq rest)
  let ?i = "takeWhile (has_prefix lq) rest" and ?o = "dropWhile (has_prefix lq) rest" and ?cl = ngx_http_create_locations_list
  note fp = flat_parts [OF "1.prems"]
  have ok: "entry_ok lq" "lq_list lq = []" using "1.prems" by (simp_all add: flat_def)
  have names: "lq_name ` set (?cl qs) \<subseteq> lq_name ` set qs" if "flat qs" for qs using create_list_names that by (auto simp: flat_def)
  show ?case
  proof (cases "rest = [] \<or> lq_inclusive lq = None")
    case True
    have cl: "?cl (lq # rest) = lq # ?cl rest" using True by auto
    have "forest (?cl rest) \<and> (\<forall>u acc. search (?cl rest) u acc = scan rest u acc)"
    proof (cases "rest = []")
      case r: False
      then have "lq_inclusive lq = None" using True by blast
      then show ?thesis by (rule "1.IH"(1) [OF r _ fp(1)])
    qed simp
    then have r: "forest (?cl rest)" "search (?cl rest) u acc = scan rest u acc" for u acc by blast+
    have "ahead lq p" if p: "p \<in> set (?cl rest)" for p
    proof -
      have "nk (lq_name lq) < nk (lq_name p)" using fp(5) names [OF fp(1)] p by auto
      moreover have "rest \<noteq> []" using p by auto
      ultimately show ?thesis using True by (simp add: ahead_def)
    qed
    then have "forest (lq # ?cl rest)" using r(1) ok by (simp add: forest_Cons)
    moreover have "search (lq # ?cl rest) u acc = scan (lq # rest) u acc" for u acc
      using True r(2) ok(2) by (auto simp: covers_def)
    ultimately show ?thesis unfolding cl by blast
  next
    case False
    define lq' where "lq' = Location_queue (lq_exact lq) (lq_inclusive lq) (lq_name lq) (?cl ?i)"
    have same: "lq_exact lq' = lq_exact lq" "lq_inclusive lq' = lq_inclusive lq" "lq_name lq' = lq_name lq" "lq_list lq' = ?cl ?i" by (simp_all add: lq'_def)
    have roles: "covers u lq' = covers u lq" "leads u lq' = leads u lq" "hit lq' = hit lq" "entry_ok lq' = entry_ok lq" for u
      unfolding covers_def leads_def hit_def redirects_def entry_ok_def same by (rule refl)+
    have cl: "?cl (lq # rest) = lq' # ?cl ?o"
    proof (cases "?i = []")
      case True
      then have "lq' = lq" using ok(2) by (cases lq) (simp add: lq'_def)
      then show ?thesis using True False by (auto simp: Let_def)
    next
      case i: False
      have "(if ?o = [] then [] else ?cl ?o) = ?cl ?o" using ngx_http_create_locations_list.simps(2) by metis
      then show ?thesis using i False ok(2) by (simp only: ngx_http_create_locations_list.simps Let_def lq'_def if_False append_Nil de_Morgan_disj)
    qed
    have "forest (?cl ?i) \<and> (\<forall>u acc. search (?cl ?i) u acc = scan ?i u acc)"
    proof (cases "?i = []")
      case i: False
      then show ?thesis using "1.IH"(3) [OF _ _ refl refl i, unfolded ok(2) append_Nil] False fp(2) by blast
    qed simp
    then have i: "forest (?cl ?i)" "search (?cl ?i) u acc = scan ?i u acc" for u acc by blast+
    have o: "forest (?cl ?o) \<and> (\<forall>u acc. search (?cl ?o) u acc = scan ?o u acc)"
    proof (cases "?o = []")
      case True
      then have "?cl ?o = []" by (simp only: ngx_http_create_locations_list.simps)
      then show ?thesis using True by (simp del: dropWhile_eq_Nil_conv)
    next
      case o: False
      then show ?thesis using "1.IH"(2,4) [OF _ _ refl refl] False fp(3) by (cases "?i = []") blast+
    qed
    have "ahead lq' p" if p: "p \<in> set (?cl ?o)" for p
    proof -
      have "below (lq_name lq) (lq_name p)" using outer_above [OF "1.prems"] names [OF fp(3)] p by auto
      then show ?thesis using below_nk below_not_prefix by (auto simp: ahead_def same)
    qed
    moreover have "strict_prefix (lq_name lq) (lq_name p)" if p: "p \<in> set (?cl ?i)" for p using fp(4) names [OF fp(2)] p by auto
    ultimately have "forest (lq' # ?cl ?o)" using i(1) o ok False by (simp add: forest_Cons same roles)
    moreover have "search (lq' # ?cl ?o) u acc = scan (lq # rest) u acc" for u acc
    proof -
      have inc: "covers u lq \<longleftrightarrow> strict_prefix (lq_name lq) u" using False by (auto simp: covers_def)
      have "scan rest u b = scan ?i u b" if "covers u lq" for b
        using scan_inert_end [of ?o u ?i b] inert_outer [OF "1.prems", of u] that inc by (simp add: strict_prefix_def)
      moreover have "scan rest u b = scan ?o u b" if "\<not> covers u lq" "lq_name lq \<noteq> u" for b
        using scan_inert [of ?i u ?o b] inert_inner [OF fp(4), of _ u] that inc by simp
      moreover have "search (?cl ?o) u b = scan ?o u b" for b using o by blast
      ultimately show ?thesis using i(2) by (simp add: roles same)
    qed
    ultimately show ?thesis unfolding cl by blast
  qed
qed simp

end
