(* ===== verification/Http_Location_Select.thy ===== *)
theory Http_Location_Select
  imports Http_Location_Tree
begin

text \<open>
  Which location a URI gets.  Sorting and joining the locations of one level gives the sorted list of
  \<open>Http_Location_Tree\<close>; \<open>location_for\<close> is the rule of selection among the static locations of a
  level and \<open>select\<close> the rule for the whole configuration, on the configuration as it is written.
  The code of the lookup, on the trees the code of the initialisation has built, follows them.
\<close>

section \<open>Sorting and joining\<close>

lemma u8_pos: "a \<noteq> 0 \<Longrightarrow> 0 < uint a" for a :: u8
  by (metis less_le uint_ge_0 uint_0_iff)

lemma u8_less: "x \<noteq> y \<Longrightarrow> uint x \<le> uint y \<longleftrightarrow> unat x < unat y" for x y :: u8
  by (metis less_le u8_eq_iff word_le_def word_le_nat_alt)

lemma cmp_names:
  assumes "0 \<notin> set a" "0 \<notin> set b"
  shows "ngx_filename_cmp (a @ [0]) (b @ [0]) (min (length a) (length b) + 1) < 0 \<longleftrightarrow> nk a < nk b"
    "ngx_filename_cmp (a @ [0]) (b @ [0]) (min (length a) (length b) + 1) = 0 \<longleftrightarrow> a = b"
  using assms
proof (induction a b rule: list_induct2')
  case (4 x a y b)
  { case 1
    then show ?case using "4.IH"(1) cdiff_sign(1) [of x y] by (cases "x = y") (simp_all add: cdiff_def)
  next
    case 2
    then show ?case using "4.IH"(2) cdiff_sign(2) [of x y] by (cases "x = y") (simp_all add: cdiff_def)
  }
qed (auto dest: u8_pos)

lemma cmp_strings:
  assumes "0 \<notin> set a" "0 \<notin> set b"
  shows "ngx_strcmp (a @ [0]) (b @ [0]) \<le> 0 \<longleftrightarrow> map unat a \<le> map unat b"
  using assms
proof (induction a b rule: list_induct2')
  case (4 x a y b)
  then show ?case using u8_less [of x y] by (cases "x = y") (auto simp: u8_eq_iff)
qed (auto dest: u8_pos)

text \<open>The order of the sort: locations with names, then regular expressions, named locations, locations without a name.\<close>

definition lkey :: "'m core_loc_conf \<Rightarrow> nat \<times> nat list \<times> bool" where
  "lkey c = (if noname c then (3, [], False) else if named c then (2, map unat (name c), False)
     else if regex c \<noteq> None then (1, [], False) else (0, nk (name c), \<not> exact_match c))"

lemma cmp_key:
  assumes "0 \<notin> set (name (lq_conf p))" "0 \<notin> set (name (lq_conf q))"
  shows "ngx_http_cmp_locations p q \<le> 0 \<longleftrightarrow> lkey (lq_conf p) \<le> lkey (lq_conf q)"
  using cmp_names [OF assms] cmp_strings [OF assms]
  by (auto simp: ngx_http_cmp_locations_def lkey_def Let_def less_eq_prod_def)

definition twice :: "'m location_queue \<Rightarrow> 'm location_queue \<Rightarrow> bool" where
  "twice p q \<longleftrightarrow> lq_name p = lq_name q \<and> (lq_exact p \<noteq> None \<and> lq_exact q \<noteq> None \<or> lq_inclusive p \<noteq> None \<and> lq_inclusive q \<noteq> None)"

definition exact_first :: "'m location_queue \<Rightarrow> 'm location_queue \<Rightarrow> bool" where
  "exact_first p q \<longleftrightarrow> nk (lq_name p) < nk (lq_name q) \<or> lq_name p = lq_name q \<and> (lq_exact p = None \<longrightarrow> lq_exact q = None)"

definition single :: "'m location_queue \<Rightarrow> bool" where
  "single q \<longleftrightarrow> (lq_exact q = None) \<noteq> (lq_inclusive q = None)"

definition exacts :: "'m location_queue list \<Rightarrow> (bytes \<times> 'm core_loc_conf) set" where
  "exacts qs = {(n, c). \<exists>q \<in> set qs. lq_name q = n \<and> lq_exact q = Some c}"

definition inclusives :: "'m location_queue list \<Rightarrow> (bytes \<times> 'm core_loc_conf) set" where
  "inclusives qs = {(n, c). \<exists>q \<in> set qs. lq_name q = n \<and> lq_inclusive q = Some c}"

lemma same_name: "0 \<notin> set b \<Longrightarrow> length a = length b \<and> ngx_filename_cmp a b (length b) = 0 \<longleftrightarrow> a = b"
  using filename_cmp(2) [of "length b" a b] by auto

lemma exact_first_join [simp]: "exact_first (Location_queue (lq_exact p) i (lq_name p) l) q = exact_first p q"
  by (simp add: exact_first_def)

lemma twice_join: "lq_name p = lq_name q \<Longrightarrow> lq_inclusive p = None \<Longrightarrow> lq_exact q = None \<Longrightarrow>
    twice (Location_queue (lq_exact p) (lq_inclusive q) (lq_name p) l) x \<longleftrightarrow> twice p x \<or> twice q x"
  by (auto simp: twice_def)

text \<open>What joining keeps: \<open>ys\<close> has one entry for every name of \<open>qs\<close>, in the order of the names.\<close>

definition joined :: "'m location_queue list \<Rightarrow> 'm location_queue list \<Rightarrow> bool" where
  "joined qs ys \<longleftrightarrow> sorted_wrt (\<lambda>p q. nk (lq_name p) < nk (lq_name q)) ys \<and>
    exacts ys = exacts qs \<and> inclusives ys = inclusives qs \<and> lq_name ` set ys = lq_name ` set qs \<and>
    (\<forall>y \<in> set ys. lq_exact y \<noteq> None \<or> lq_inclusive y \<noteq> None) \<and> lq_list ` set ys \<subseteq> lq_list ` set qs"

lemma join_ok:
  assumes "sorted_wrt exact_first qs" "\<forall>q \<in> set (tl qs). single q" "\<forall>q \<in> set qs. 0 \<notin> set (lq_name q)" "sorted_wrt (\<lambda>p q. \<not> twice p q) qs"
    "\<forall>q \<in> set qs. lq_exact q \<noteq> None \<or> lq_inclusive q \<noteq> None"
  shows "\<exists>ys. ngx_http_join_exact_locations qs = Inr ys \<and> joined qs ys"
  using assms
proof (induction qs rule: ngx_http_join_exact_locations.induct)
  case (1 lq lx rest)
  have z: "0 \<notin> set (lq_name lx)" using "1.prems"(3) by simp
  show ?case
  proof (cases "lq_name lq = lq_name lx")
    case True
    let ?j = "Location_queue (lq_exact lq) (lq_inclusive lx) (lq_name lq) (lq_list lq)"
    have nt: "\<not> twice lq lx" "single lx" "exact_first lq lx" using "1.prems" by auto
    then have e: "lq_exact lq \<noteq> None" "lq_inclusive lq = None" "lq_exact lx = None" "lq_inclusive lx \<noteq> None"
      using True "1.prems"(5) by (auto simp: twice_def single_def exact_first_def)
    have "\<exists>ys. ngx_http_join_exact_locations (?j # rest) = Inr ys \<and> joined (?j # rest) ys"
    proof (rule "1.IH"(1))
      show "sorted_wrt exact_first (?j # rest)" using "1.prems"(1) by simp
      show "sorted_wrt (\<lambda>p q. \<not> twice p q) (?j # rest)" using "1.prems"(4) twice_join [OF True e(2,3)] by simp
    qed (use "1.prems" e True same_name [OF z, of "lq_name lq"] in auto)
    moreover have "ngx_http_join_exact_locations (lq # lx # rest) = ngx_http_join_exact_locations (?j # rest)"
      using e same_name [OF z, of "lq_name lq"] True by simp
    moreover have "exacts (?j # rest) = exacts (lq # lx # rest)" "inclusives (?j # rest) = inclusives (lq # lx # rest)"
      using e True by (auto simp: exacts_def inclusives_def)
    then have "joined (?j # rest) ys \<Longrightarrow> joined (lq # lx # rest) ys" for ys using True by (auto simp: joined_def)
    ultimately show ?thesis by auto
  next
    case False
    have ne: "\<not> (length (lq_name lq) = length (lq_name lx) \<and> ngx_filename_cmp (lq_name lq) (lq_name lx) (length (lq_name lx)) = 0)"
      using same_name [OF z, of "lq_name lq"] False by simp
    obtain ys where j: "ngx_http_join_exact_locations (lx # rest) = Inr ys" "joined (lx # rest) ys"
      using "1.IH"(2) [OF ne] "1.prems" by auto
    then have ys: "sorted_wrt (\<lambda>p q. nk (lq_name p) < nk (lq_name q)) ys"
      "exacts ys = exacts (lx # rest)" "inclusives ys = inclusives (lx # rest)" "lq_name ` set ys = lq_name ` set (lx # rest)"
      "\<forall>y \<in> set ys. lq_exact y \<noteq> None \<or> lq_inclusive y \<noteq> None" "lq_list ` set ys \<subseteq> lq_list ` set (lx # rest)"
      by (auto simp: joined_def)
    have lt: "nk (lq_name lq) < nk (lq_name lx)" using "1.prems"(1) False by (auto simp: exact_first_def)
    have "nk (lq_name lq) < nk (lq_name y)" if y: "y \<in> set ys" for y
    proof -
      have "lq_name y \<in> lq_name ` set (lx # rest)" using y unfolding ys(4) [symmetric] by (rule imageI)
      then obtain r where r: "r \<in> set (lx # rest)" "lq_name y = lq_name r" by blast
      then have "nk (lq_name lx) \<le> nk (lq_name r)" using "1.prems"(1) by (auto simp: exact_first_def less_imp_le)
      then show ?thesis using lt r(2) by simp
    qed
    moreover have "exacts (lq # ys) = exacts (lq # lx # rest)" "inclusives (lq # ys) = inclusives (lq # lx # rest)"
      using ys(2,3) unfolding exacts_def inclusives_def by (simp_all add: set_eq_iff)
    moreover have "ngx_http_join_exact_locations (lq # lx # rest) = Inr (lq # ys)" using ne j(1) by (simp del: de_Morgan_conj)
    moreover from calculation have "joined (lq # lx # rest) (lq # ys)" using ys "1.prems"(5) by (auto simp: joined_def)
    ultimately show ?thesis by blast
  qed
qed (auto simp: joined_def)

lemma join_twice:
  assumes "sorted_wrt exact_first qs" "\<forall>q \<in> set (tl qs). single q" "\<forall>q \<in> set qs. 0 \<notin> set (lq_name q)" "\<not> sorted_wrt (\<lambda>p q. \<not> twice p q) qs"
    "\<forall>q \<in> set qs. lq_exact q \<noteq> None \<or> lq_inclusive q \<noteq> None"
  shows "\<exists>p \<in> set qs. ngx_http_join_exact_locations qs = Inl (Duplicate_location (lq_name p))"
  using assms
proof (induction qs rule: ngx_http_join_exact_locations.induct)
  case (1 lq lx rest)
  have z: "0 \<notin> set (lq_name lx)" using "1.prems"(3) by simp
  show ?case
  proof (cases "lq_name lq = lq_name lx")
    case True
    show ?thesis
    proof (cases "twice lq lx")
      case t: True
      then have "ngx_http_join_exact_locations (lq # lx # rest) = Inl (Duplicate_location (lq_name lx))"
        using True same_name [OF z, of "lq_name lq"] by (simp add: twice_def)
      then show ?thesis by auto
    next
      case False
      let ?j = "Location_queue (lq_exact lq) (lq_inclusive lx) (lq_name lq) (lq_list lq)"
      have e: "lq_exact lq \<noteq> None" "lq_inclusive lq = None" "lq_exact lx = None" "lq_inclusive lx \<noteq> None"
        using False True "1.prems"(1,2,5) by (auto simp: twice_def single_def exact_first_def)
      have "\<exists>p \<in> set (?j # rest). ngx_http_join_exact_locations (?j # rest) = Inl (Duplicate_location (lq_name p))"
      proof (rule "1.IH"(1))
        show "sorted_wrt exact_first (?j # rest)" using "1.prems"(1) by simp
        show "\<not> sorted_wrt (\<lambda>p q. \<not> twice p q) (?j # rest)"
          using "1.prems"(4) False twice_join [OF True e(2,3)] by auto
      qed (use "1.prems" e True same_name [OF z, of "lq_name lq"] in auto)
      moreover have "ngx_http_join_exact_locations (lq # lx # rest) = ngx_http_join_exact_locations (?j # rest)"
        using e same_name [OF z, of "lq_name lq"] True by simp
      ultimately show ?thesis by auto
    qed
  next
    case False
    have ne: "\<not> (length (lq_name lq) = length (lq_name lx) \<and> ngx_filename_cmp (lq_name lq) (lq_name lx) (length (lq_name lx)) = 0)"
      using same_name [OF z, of "lq_name lq"] False by simp
    have lt: "nk (lq_name lq) < nk (lq_name lx)" using "1.prems"(1) False by (auto simp: exact_first_def)
    have "lq_name lq \<noteq> lq_name r" if "r \<in> set (lx # rest)" for r
    proof -
      have "nk (lq_name lx) \<le> nk (lq_name r)" using "1.prems"(1) that by (auto simp: exact_first_def less_imp_le)
      then show ?thesis using lt by auto
    qed
    then have "\<not> sorted_wrt (\<lambda>p q. \<not> twice p q) (lx # rest)" using "1.prems"(4) by (auto simp: twice_def)
    then have "\<exists>p \<in> set (lx # rest). ngx_http_join_exact_locations (lx # rest) = Inl (Duplicate_location (lq_name p))"
      using "1.IH"(2) [OF ne] "1.prems" by auto
    then show ?thesis using ne by auto
  qed
qed simp_all

section \<open>The rule of selection\<close>

definition is_static :: "'m core_loc_conf \<Rightarrow> bool" where
  "is_static c \<longleftrightarrow> regex c = None \<and> \<not> named c \<and> \<not> noname c"

definition exact_at :: "'m core_loc_conf list \<Rightarrow> bytes \<Rightarrow> 'm core_loc_conf option" where
  "exact_at ls n = find (\<lambda>c. is_static c \<and> exact_match c \<and> name c = n) ls"

definition inclusive_at :: "'m core_loc_conf list \<Rightarrow> bytes \<Rightarrow> 'm core_loc_conf option" where
  "inclusive_at ls n = find (\<lambda>c. is_static c \<and> \<not> exact_match c \<and> name c = n) ls"

definition redirect_at :: "'m core_loc_conf list \<Rightarrow> bytes \<Rightarrow> bool" where
  "redirect_at ls n \<longleftrightarrow> (case exact_at ls n of Some c \<Rightarrow> auto_redirect c | None \<Rightarrow> False) \<or> (case inclusive_at ls n of Some c \<Rightarrow> auto_redirect c | None \<Rightarrow> False)"

fun longest_prefix :: "'m core_loc_conf list \<Rightarrow> bytes \<Rightarrow> nat \<Rightarrow> 'm core_loc_conf option" where
  "longest_prefix ls u 0 = None"
| "longest_prefix ls u (Suc n) = (case inclusive_at ls (take n u) of Some c \<Rightarrow> Some c | None \<Rightarrow> longest_prefix ls u n)"

definition location_for :: "'m core_loc_conf list \<Rightarrow> bytes \<Rightarrow> 'm core_loc_conf \<Rightarrow> ngx_rc \<times> 'm core_loc_conf" where
  "location_for ls u r =
     (case exact_at ls u of
        Some c \<Rightarrow> (NGX_OK, c)
      | None \<Rightarrow>
          case inclusive_at ls u of
            Some c \<Rightarrow> (NGX_AGAIN, c)
          | None \<Rightarrow>
              if redirect_at ls (u @ [ch_slash]) then (NGX_DONE, exact_or_inclusive (exact_at ls (u @ [ch_slash])) (inclusive_at ls (u @ [ch_slash])))
              else
                case longest_prefix ls u (length u) of
                  Some c \<Rightarrow> (NGX_AGAIN, c)
                | None \<Rightarrow> (NGX_DECLINED, r))"

text \<open>The entries represent the locations \<open>ls\<close>.\<close>

definition represents :: "'m location_queue list \<Rightarrow> 'm core_loc_conf list \<Rightarrow> bool" where
  "represents ys ls \<longleftrightarrow> flat ys \<and> (\<forall>y \<in> set ys. lq_exact y = exact_at ls (lq_name y) \<and> lq_inclusive y = inclusive_at ls (lq_name y)) \<and>
     (\<forall>n. exact_at ls n \<noteq> None \<or> inclusive_at ls n \<noteq> None \<longrightarrow> n \<in> lq_name ` set ys)"

lemma scan_passes: "(\<And>p. p \<in> set A \<Longrightarrow> lq_name p \<noteq> u) \<Longrightarrow> \<exists>b. scan (A @ X) u acc = scan X u b"
proof (induction A arbitrary: acc)
  case (Cons p A)
  then show ?case by (metis append_Cons list.set_intros scan.simps(2))
qed auto

lemma flat_split:
  assumes "flat (A @ q # B)"
  shows "p \<in> set A \<Longrightarrow> nk (lq_name p) < nk (lq_name q)" "p \<in> set B \<Longrightarrow> nk (lq_name q) < nk (lq_name p)" "p \<in> set (A @ q # B) \<Longrightarrow> entry_ok p"
  using assms by (auto simp: flat_def sorted_wrt_append)

lemma scan_last:
  assumes "flat (A @ q # B)" "u \<notin> lq_name ` set (A @ q # B)" "\<And>p. p \<in> set B \<Longrightarrow> inert u p"
  shows "\<exists>b. scan (A @ q # B) u acc = (if covers u q then (NGX_AGAIN, the (lq_inclusive q)) else if leads u q then (NGX_DONE, lq_conf q) else b)"
proof -
  obtain b where "scan (A @ q # B) u acc = scan (q # B) u b" using scan_passes [of A u "q # B" acc] assms(2) by fastforce
  moreover have "scan B u d = d" for d using scan_inert [of B u "[]" d] assms(3) by simp
  ultimately show ?thesis using assms(2) by auto
qed

lemma longest_prefix_Some:
  assumes "n \<le> length u" "inclusive_at ls n' = Some c" "n' = take m u" "m < n" "\<And>k. m < k \<Longrightarrow> k < n \<Longrightarrow> inclusive_at ls (take k u) = None"
  shows "longest_prefix ls u n = Some c"
  using assms
proof (induction n)
  case (Suc n)
  then show ?case
  proof (cases "m = n")
    case False
    then have "inclusive_at ls (take n u) = None" using Suc.prems by simp
    then show ?thesis using Suc False by simp
  qed simp
qed simp

lemma longest_prefix_None:
  assumes "\<And>k. k < n \<Longrightarrow> inclusive_at ls (take k u) = None"
  shows "longest_prefix ls u n = None"
  using assms by (induction n) simp_all

lemma representsD:
  assumes "represents ys ls"
  shows "flat ys" "q \<in> set ys \<Longrightarrow> lq_exact q = exact_at ls (lq_name q)" "q \<in> set ys \<Longrightarrow> lq_inclusive q = inclusive_at ls (lq_name q)"
    "q \<in> set ys \<Longrightarrow> redirects q = redirect_at ls (lq_name q)" "exact_at ls n \<noteq> None \<or> inclusive_at ls n \<noteq> None \<Longrightarrow> n \<in> lq_name ` set ys"
proof -
  show "flat ys" "q \<in> set ys \<Longrightarrow> lq_exact q = exact_at ls (lq_name q)" "q \<in> set ys \<Longrightarrow> lq_inclusive q = inclusive_at ls (lq_name q)"
    "exact_at ls n \<noteq> None \<or> inclusive_at ls n \<noteq> None \<Longrightarrow> n \<in> lq_name ` set ys"
    using assms unfolding represents_def by blast+
  then show "q \<in> set ys \<Longrightarrow> redirects q = redirect_at ls (lq_name q)" by (simp add: redirects_def redirect_at_def)
qed

lemma scan_named:
  assumes r: "represents ys ls" and n: "u \<in> lq_name ` set ys"
  shows "scan ys u (NGX_DECLINED, d) = location_for ls u d"
proof -
  obtain A q B where ys: "ys = A @ q # B" "lq_name q = u" using n by (auto dest: split_list)
  have "lq_name p \<noteq> u" if "p \<in> set A" for p using flat_split(1) [of A q B p] representsD(1) [OF r] ys that by auto
  then obtain b where "scan ys u (NGX_DECLINED, d) = scan (q # B) u b" using scan_passes [of A u "q # B"] ys(1) by metis
  then have "scan ys u (NGX_DECLINED, d) = hit q" using ys(2) by simp
  moreover have "lq_exact q \<noteq> None \<or> lq_inclusive q \<noteq> None" using representsD(1) [OF r] ys(1) by (auto simp: flat_def entry_ok_def)
  ultimately show ?thesis using representsD(2,3) [OF r, of q] ys by (auto simp: location_for_def hit_def split: option.splits)
qed

lemma scan_redirect:
  assumes r: "represents ys ls" and out: "u \<notin> lq_name ` set ys" and red: "redirect_at ls (u @ [ch_slash])"
  shows "scan ys u acc = (NGX_DONE, exact_or_inclusive (exact_at ls (u @ [ch_slash])) (inclusive_at ls (u @ [ch_slash])))"
proof -
  have "u @ [ch_slash] \<in> lq_name ` set ys" by (rule representsD(5) [OF r]) (use red in \<open>auto simp: redirect_at_def split: option.splits\<close>)
  then obtain A q B where ys: "ys = A @ q # B" "lq_name q = u @ [ch_slash]" by (auto dest: split_list)
  note fl = representsD(1) [OF r, unfolded ys(1)]
  have l: "leads u q" "\<not> covers u q" using representsD(4) [OF r, of q] red ys by (auto simp: leads_def covers_def strict_prefix_def dest: prefix_length_le)
  have "inert u p" if p: "p \<in> set B" for p
  proof -
    have lt: "nk (lq_name q) < nk (lq_name p)" "entry_ok p" using flat_split [OF fl, of p] p by auto
    have "\<not> leads u p" using leads_slash [OF lt(2), of u] lt(1) ys(2) by auto
    moreover have "nk u < nk (lq_name p)" using leads_above [OF l(1)] lt(1) by simp
    ultimately show ?thesis using strict_prefix_nk [of "lq_name p" u] by (auto simp: inert_def covers_def)
  qed
  then have "scan ys u acc = (NGX_DONE, lq_conf q)" using scan_last [OF fl, of u acc] out l ys(1) by auto
  then show ?thesis using representsD(2,3) [OF r, of q] ys by simp
qed

text \<open>Which entries match by prefix.\<close>

lemma covers_at:
  assumes r: "represents ys ls" and "k < length u" "inclusive_at ls (take k u) \<noteq> None"
  shows "\<exists>p \<in> set ys. lq_name p = take k u \<and> covers u p"
proof -
  have "take k u \<in> lq_name ` set ys" using assms(3) by (intro representsD(5) [OF r] disjI2)
  then obtain p where p: "p \<in> set ys" "lq_name p = take k u" by (elim imageE) metis
  have "strict_prefix (take k u) u" using assms(2) by (auto simp: strict_prefix_def take_is_prefix)
  then show ?thesis using p assms(3) representsD(3) [OF r p(1)] by (auto simp: covers_def)
qed

lemma scan_prefix:
  assumes r: "represents ys ls" and out: "u \<notin> lq_name ` set ys" and nl: "\<And>p. p \<in> set ys \<Longrightarrow> \<not> leads u p"
  shows "scan ys u acc = (case longest_prefix ls u (length u) of Some c \<Rightarrow> (NGX_AGAIN, c) | None \<Rightarrow> acc)"
proof (cases "\<exists>p \<in> set ys. covers u p")
  case True
  from split_list_last_prop [OF this] obtain A q B where ys: "ys = A @ q # B" "covers u q" "\<forall>p \<in> set B. \<not> covers u p" by blast
  note fl = representsD(1) [OF r, unfolded ys(1)]
  have "inert u p" if "p \<in> set B" for p using ys(1,3) nl [of p] out that by (auto simp: inert_def)
  then have s: "scan ys u acc = (NGX_AGAIN, the (lq_inclusive q))" using scan_last [OF fl, of u acc] out ys(1,2) by auto
  obtain c where c: "lq_inclusive q = Some c" "strict_prefix (lq_name q) u" using ys(2) by (auto simp: covers_def)
  have "inclusive_at ls (take k u) = None" if k: "length (lq_name q) < k" "k < length u" for k
  proof (rule ccontr)
    assume "inclusive_at ls (take k u) \<noteq> None"
    then obtain p where p: "p \<in> set ys" "lq_name p = take k u" "covers u p" using covers_at [OF r k(2)] by blast
    then have "p \<in> set (A @ [q])" using ys(1,3) by auto
    moreover have "strict_prefix (lq_name q) (lq_name p)"
      using c(2) p(2,3) k(1) prefix_length_prefix [of "lq_name q" u "take k u"] by (auto simp: strict_prefix_def covers_def)
    ultimately show False using flat_split(1) [OF fl, of p] strict_prefix_nk [of "lq_name q" "lq_name p"] by auto
  qed
  moreover have "lq_name q = take (length (lq_name q)) u" "length (lq_name q) < length u"
    using c(2) by (auto simp: strict_prefix_def prefix_def)
  ultimately have "longest_prefix ls u (length u) = Some c"
    using longest_prefix_Some [of "length u" u ls "lq_name q" c "length (lq_name q)"] c(1) representsD(3) [OF r, of q] ys(1) by simp
  then show ?thesis using s c(1) by simp
next
  case False
  have "inert u p" if "p \<in> set ys" for p using False nl [OF that] out that by (auto simp: inert_def)
  then have "scan ys u acc = acc" using scan_inert [of ys u "[]"] by simp
  moreover have "longest_prefix ls u (length u) = None"
    by (rule longest_prefix_None) (use covers_at [OF r] False in blast)
  ultimately show ?thesis by simp
qed

lemma scan_selects:
  assumes r: "represents ys ls"
  shows "scan ys u (NGX_DECLINED, d) = location_for ls u d"
proof (cases "u \<in> lq_name ` set ys")
  case True
  then show ?thesis by (rule scan_named [OF r])
next
  case out: False
  then have none: "exact_at ls u = None" "inclusive_at ls u = None" using representsD(5) [OF r, of u] by auto
  show ?thesis
  proof (cases "redirect_at ls (u @ [ch_slash])")
    case True
    then show ?thesis using scan_redirect [OF r out] none by (simp add: location_for_def)
  next
    case False
    have "\<not> leads u p" if p: "p \<in> set ys" for p
    proof
      assume l: "leads u p"
      have "entry_ok p" using representsD(1) [OF r] p by (simp add: flat_def)
      from leads_slash [OF this l] show False using l False representsD(4) [OF r p] by (simp add: leads_def)
    qed
    then show ?thesis using scan_prefix [OF r out] none False by (simp add: location_for_def split: option.splits)
  qed
qed

section \<open>One level of the configuration\<close>

definition conf_ok :: "'m core_loc_conf \<Rightarrow> bool" where
  "conf_ok c \<longleftrightarrow> 0 \<notin> set (name c) \<and> length (name c) < 256 \<and> (auto_redirect c \<longrightarrow> name c \<noteq> [] \<and> last (name c) = ch_slash) \<and>
     \<not> (regex c \<noteq> None \<and> named c) \<and> \<not> (regex c \<noteq> None \<and> noname c) \<and> \<not> (named c \<and> noname c)"

definition entry :: "'m core_loc_conf \<Rightarrow> 'm location_queue" where
  "entry c = (if exact_match c \<or> \<not> is_static c then Location_queue (Some c) None (name c) [] else Location_queue None (Some c) (name c) [])"

lemma add_locations: "foldl ngx_http_add_location locations ls = locations @ map entry ls"
  by (induction ls arbitrary: locations) (auto simp: ngx_http_add_location_def entry_def is_static_def)

lemma entry_simps [simp]: "lq_conf (entry c) = c" "lq_name (entry c) = name c" "lq_list (entry c) = []"
  by (simp_all add: entry_def exact_or_inclusive_def)

lemma entry_static:
  assumes "is_static c"
  shows "lq_exact (entry c) = (if exact_match c then Some c else None)" "lq_inclusive (entry c) = (if exact_match c then None else Some c)" "single (entry c)"
  using assms by (auto simp: entry_def single_def)

lemma entry_other: "\<not> is_static c \<Longrightarrow> lq_exact (entry c) = Some c"
  by (simp add: entry_def)

lemma insort_key_map: "insort_key f (g x) (map g xs) = map g (insort_key (f \<circ> g) x xs)"
  by (induction xs) auto

lemma sort_key_map: "sort_key f (map g xs) = map g (sort_key (f \<circ> g) xs)"
  by (induction xs) (simp_all add: insort_key_map comp_def)

lemma sort_entries:
  assumes "\<forall>c \<in> set ls. conf_ok c"
  shows "sort_list ngx_http_cmp_locations (map entry ls) = map entry (sort_key lkey ls)"
proof -
  have "by_key ngx_http_cmp_locations (\<lambda>q. lkey (lq_conf q)) (set (map entry ls))"
    unfolding by_key_def
  proof (intro ballI)
    fix p q assume "p \<in> set (map entry ls)" "q \<in> set (map entry ls)"
    then show "ngx_http_cmp_locations p q \<le> 0 \<longleftrightarrow> lkey (lq_conf p) \<le> lkey (lq_conf q)"
      using assms by (intro cmp_key) (auto simp: conf_ok_def)
  qed
  then have "sort_list ngx_http_cmp_locations (map entry ls) = sort_key (\<lambda>q. lkey (lq_conf q)) (map entry ls)" by (rule sort_list_key)
  moreover have "sort_key ((\<lambda>q. lkey (lq_conf q)) \<circ> entry) ls = sort_key lkey ls" by (simp add: comp_def)
  ultimately show ?thesis by (simp only: sort_key_map)
qed

lemma class_split:
  fixes f :: "'a \<Rightarrow> 'b :: linorder"
  assumes "sorted (map f xs)"
  shows "takeWhile (\<lambda>x. f x < c) xs = filter (\<lambda>x. f x < c) xs" "dropWhile (\<lambda>x. f x < c) xs = filter (\<lambda>x. \<not> f x < c) xs"
proof -
  show t: "takeWhile (\<lambda>x. f x < c) xs = filter (\<lambda>x. f x < c) xs" using assms
  proof (induction xs)
    case (Cons x xs)
    have "filter (\<lambda>y. f y < c) xs = []" if "\<not> f x < c" using Cons.prems that by (fastforce simp: filter_empty_conv)
    then show ?case using Cons by simp
  qed simp
  show "dropWhile (\<lambda>x. f x < c) xs = filter (\<lambda>x. \<not> f x < c) xs" using assms
  proof (induction xs)
    case (Cons x xs)
    have "filter (\<lambda>y. \<not> f y < c) xs = xs" if "\<not> f x < c" using Cons.prems that by (fastforce simp: filter_id_conv)
    then show ?case using Cons by simp
  qed simp
qed

definition class_of :: "'m core_loc_conf \<Rightarrow> nat" where
  "class_of c = fst (lkey c)"

lemma class_cases:
  assumes "conf_ok c"
  shows "regex c \<noteq> None \<longleftrightarrow> class_of c = 1" "named c \<longleftrightarrow> class_of c = 2" "noname c \<longleftrightarrow> class_of c = 3" "is_static c \<longleftrightarrow> class_of c = 0"
    "class_of c < 4"
  using assms by (auto simp: class_of_def lkey_def conf_ok_def is_static_def)

lemma init_locations:
  fixes ls :: "'a core_loc_conf list"
  assumes ok: "\<forall>c \<in> set ls. conf_ok c"
  shows "ngx_http_init_locations (map entry ls) =
    (map entry (sort_key lkey (filter is_static ls)), filter (\<lambda>c. regex c \<noteq> None) ls, sort_key lkey (filter named ls))"
proof -
  define S where "S = sort_key lkey ls"
  have okS: "\<forall>c \<in> set S. conf_ok c" using ok by (simp add: S_def)
  have "sorted (map lkey S)" by (simp add: S_def)
  then have srt: "sorted (map class_of S)" by (fastforce simp: class_of_def sorted_iff_nth_mono less_eq_prod_def)
  have srtf: "sorted (map class_of (filter P S))" for P using srt by (rule sorted_filter)
  have v: "takeWhile (\<lambda>c. regex c \<noteq> None \<or> regex c = None \<and> named c \<or> \<not> noname c) S = filter (\<lambda>c. class_of c < 3) S"
  proof -
    have "regex c \<noteq> None \<or> regex c = None \<and> named c \<or> \<not> noname c \<longleftrightarrow> class_of c < 3" if "c \<in> set S" for c
      using class_cases [of c] okS that by auto
    then have "takeWhile (\<lambda>c. regex c \<noteq> None \<or> regex c = None \<and> named c \<or> \<not> noname c) S = takeWhile (\<lambda>c. class_of c < 3) S"
      by (rule takeWhile_cong [OF refl])
    then show ?thesis using class_split [OF srt] by simp
  qed
  have n: "takeWhile (\<lambda>c. \<not> (regex c = None \<and> named c)) (filter (\<lambda>c. class_of c < 3) S) = filter (\<lambda>c. class_of c < 2) S"
      "dropWhile (\<lambda>c. \<not> (regex c = None \<and> named c)) (filter (\<lambda>c. class_of c < 3) S) = filter (\<lambda>c. class_of c = 2) S"
  proof -
    have e: "\<not> (regex c = None \<and> named c) \<longleftrightarrow> class_of c < 2" if "c \<in> set (filter (\<lambda>c. class_of c < 3) S)" for c
      using class_cases [of c] okS that by auto
    have "takeWhile (\<lambda>c. \<not> (regex c = None \<and> named c)) (filter (\<lambda>c. class_of c < 3) S) = takeWhile (\<lambda>c. class_of c < 2) (filter (\<lambda>c. class_of c < 3) S)"
      by (rule takeWhile_cong [OF refl e])
    then show "takeWhile (\<lambda>c. \<not> (regex c = None \<and> named c)) (filter (\<lambda>c. class_of c < 3) S) = filter (\<lambda>c. class_of c < 2) S"
      using class_split(1) [OF srtf] by (auto intro!: filter_cong)
    have "dropWhile (\<lambda>c. \<not> (regex c = None \<and> named c)) (filter (\<lambda>c. class_of c < 3) S) = dropWhile (\<lambda>c. class_of c < 2) (filter (\<lambda>c. class_of c < 3) S)"
      by (rule dropWhile_cong [OF refl e])
    then show "dropWhile (\<lambda>c. \<not> (regex c = None \<and> named c)) (filter (\<lambda>c. class_of c < 3) S) = filter (\<lambda>c. class_of c = 2) S"
      using class_split(2) [OF srtf] by (auto intro!: filter_cong)
  qed
  have r: "takeWhile (\<lambda>c. regex c = None) (filter (\<lambda>c. class_of c < 2) S) = filter (\<lambda>c. class_of c = 0) S"
      "dropWhile (\<lambda>c. regex c = None) (filter (\<lambda>c. class_of c < 2) S) = filter (\<lambda>c. class_of c = 1) S"
  proof -
    have e: "regex c = None \<longleftrightarrow> class_of c < 1" if "c \<in> set (filter (\<lambda>c. class_of c < 2) S)" for c
      using class_cases [of c] okS that by auto
    have "takeWhile (\<lambda>c. regex c = None) (filter (\<lambda>c. class_of c < 2) S) = takeWhile (\<lambda>c. class_of c < 1) (filter (\<lambda>c. class_of c < 2) S)"
      by (rule takeWhile_cong [OF refl e])
    then show "takeWhile (\<lambda>c. regex c = None) (filter (\<lambda>c. class_of c < 2) S) = filter (\<lambda>c. class_of c = 0) S"
      using class_split(1) [OF srtf, where c = 1] by (auto intro!: filter_cong)
    have "dropWhile (\<lambda>c. regex c = None) (filter (\<lambda>c. class_of c < 2) S) = dropWhile (\<lambda>c. class_of c < 1) (filter (\<lambda>c. class_of c < 2) S)"
      by (rule dropWhile_cong [OF refl e])
    then show "dropWhile (\<lambda>c. regex c = None) (filter (\<lambda>c. class_of c < 2) S) = filter (\<lambda>c. class_of c = 1) S"
      using class_split(2) [OF srtf, where c = 1] by (auto intro!: filter_cong)
  qed
  have f: "filter (\<lambda>c. class_of c = k) S = sort_key lkey (filter (\<lambda>c. class_of c = k) ls)" for k by (simp add: S_def filter_sort)
  have k: "filter (\<lambda>c. class_of c = 0) ls = filter is_static ls" "filter (\<lambda>c. class_of c = 1) ls = filter (\<lambda>c. regex c \<noteq> None) ls"
      "filter (\<lambda>c. class_of c = 2) ls = filter named ls"
    by (rule filter_cong [OF refl], use ok class_cases in blast)+
  have "sort_key lkey (filter (\<lambda>c. regex c \<noteq> None) ls) = filter (\<lambda>c. regex c \<noteq> None) ls"
  proof (rule sort_key_id_if_sorted)
    have "lkey c = (1, [], False)" if "c \<in> set (filter (\<lambda>c. regex c \<noteq> None) ls)" for c using ok that by (auto simp: lkey_def conf_ok_def)
    then have "map lkey (filter (\<lambda>c. regex c \<noteq> None) ls) = map (\<lambda>_. (1, [], False)) (filter (\<lambda>c. regex c \<noteq> None) ls)" by (intro map_cong refl)
    then show "sorted (map lkey (filter (\<lambda>c. regex c \<noteq> None) ls))" by (simp only: map_replicate_const sorted_replicate)
  qed
  moreover have "map (\<lambda>c. the (lq_exact (entry c))) zs = zs" if "\<forall>c \<in> set zs. \<not> is_static c" for zs :: "'a core_loc_conf list"
    using that by (induction zs) (auto simp: entry_other)
  from this [of "filter (\<lambda>c. regex c \<noteq> None) ls"] this [of "sort_key lkey (filter named ls)"]
  have "map (\<lambda>c. the (lq_exact (entry c))) (filter (\<lambda>c. regex c \<noteq> None) ls) = filter (\<lambda>c. regex c \<noteq> None) ls"
      "map (\<lambda>c. the (lq_exact (entry c))) (sort_key lkey (filter named ls)) = sort_key lkey (filter named ls)"
    by (auto simp: is_static_def)
  ultimately show ?thesis
    using v n r f k sort_entries [OF ok] by (simp add: ngx_http_init_locations_def S_def Let_def takeWhile_map dropWhile_map comp_def)
qed

text \<open>Two static locations collide when they have the same name and the same kind.\<close>

definition kind_of :: "'m core_loc_conf \<Rightarrow> bytes \<times> bool" where
  "kind_of c = (name c, exact_match c)"

definition no_duplicates :: "'m core_loc_conf list \<Rightarrow> bool" where
  "no_duplicates ls \<longleftrightarrow> distinct (map kind_of (filter is_static ls))"

lemma no_duplicates_unique:
  "no_duplicates ls \<Longrightarrow> c \<in> set ls \<Longrightarrow> d \<in> set ls \<Longrightarrow> is_static c \<Longrightarrow> is_static d \<Longrightarrow> name c = name d \<Longrightarrow> exact_match c = exact_match d \<Longrightarrow> c = d"
  using inj_onD [of kind_of "set (filter is_static ls)" c d] by (simp add: no_duplicates_def distinct_map kind_of_def)

lemma find_unique:
  assumes "\<And>c d. c \<in> set xs \<Longrightarrow> d \<in> set xs \<Longrightarrow> P c \<Longrightarrow> P d \<Longrightarrow> c = d"
  shows "find P xs = Some c \<longleftrightarrow> c \<in> set xs \<and> P c"
proof
  show "c \<in> set xs \<and> P c" if "find P xs = Some c" using that by (auto simp: find_Some_iff)
  show "find P xs = Some c" if "c \<in> set xs \<and> P c"
  proof (cases "find P xs")
    case None
    then show ?thesis using that by (auto simp: find_None_iff)
  next
    case (Some d)
    then have "d \<in> set xs \<and> P d" by (auto simp: find_Some_iff)
    then show ?thesis using assms that Some by blast
  qed
qed

lemma exact_at: "no_duplicates ls \<Longrightarrow> exact_at ls n = Some c \<longleftrightarrow> c \<in> set ls \<and> is_static c \<and> exact_match c \<and> name c = n"
  unfolding exact_at_def by (rule find_unique) (auto intro: no_duplicates_unique)

lemma inclusive_at: "no_duplicates ls \<Longrightarrow> inclusive_at ls n = Some c \<longleftrightarrow> c \<in> set ls \<and> is_static c \<and> \<not> exact_match c \<and> name c = n"
  unfolding inclusive_at_def by (rule find_unique) (auto intro: no_duplicates_unique)

lemma distinct_sorted_wrt: "distinct (map f xs) \<longleftrightarrow> sorted_wrt (\<lambda>x y. f x \<noteq> f y) xs"
  by (induction xs) auto

abbreviation static_entries :: "'m core_loc_conf list \<Rightarrow> 'm location_queue list" where
  "static_entries ls \<equiv> map entry (sort_key lkey (filter is_static ls))"

lemma static_entries_facts:
  shows "sorted_wrt exact_first (static_entries ls)" "\<forall>q \<in> set (tl (static_entries ls)). single q"
    "\<forall>q \<in> set (static_entries ls). lq_exact q \<noteq> None \<or> lq_inclusive q \<noteq> None"
    "sorted_wrt (\<lambda>p q. \<not> twice p q) (static_entries ls) \<longleftrightarrow> no_duplicates ls"
proof -
  let ?T = "sort_key lkey (filter is_static ls)"
  have T: "is_static c" if "c \<in> set ?T" for c using that by simp
  have "sorted_wrt (\<lambda>p q. lkey p \<le> lkey q) ?T" using sorted_sort_key [of lkey "filter is_static ls"] by (simp add: sorted_map)
  then have "sorted_wrt (\<lambda>p q. exact_first (entry p) (entry q)) ?T"
  proof (rule sorted_wrt_mono_rel [rotated])
    show "exact_first (entry p) (entry q)" if pq: "p \<in> set ?T" "q \<in> set ?T" "lkey p \<le> lkey q" for p q
      using pq(3) T [OF pq(1)] T [OF pq(2)] entry_static(1) [of p] entry_static(1) [of q]
        le_neq_trans [of "nk (name p)" "nk (name q)"]
      by (auto simp: lkey_def is_static_def exact_first_def less_eq_prod_def)
  qed
  then show "sorted_wrt exact_first (static_entries ls)" by (simp add: sorted_wrt_map)
  have e: "single q" if "q \<in> set (static_entries ls)" for q using that entry_static(3) by auto
  then show "\<forall>q \<in> set (tl (static_entries ls)). single q" by (cases "static_entries ls") auto
  show "\<forall>q \<in> set (static_entries ls). lq_exact q \<noteq> None \<or> lq_inclusive q \<noteq> None" using e by (auto simp: single_def)
  have "twice (entry p) (entry q) \<longleftrightarrow> kind_of p = kind_of q" if "is_static p" "is_static q" for p q :: "'a core_loc_conf"
    using entry_static(1,2) [OF that(1)] entry_static(1,2) [OF that(2)] by (auto simp: twice_def kind_of_def)
  then have "sorted_wrt (\<lambda>p q. \<not> twice (entry p) (entry q)) ?T \<longleftrightarrow> sorted_wrt (\<lambda>p q. kind_of p \<noteq> kind_of q) ?T"
    using T by (metis (mono_tags, lifting) sorted_wrt_mono_rel)
  then have "sorted_wrt (\<lambda>p q. \<not> twice p q) (static_entries ls) \<longleftrightarrow> distinct (map kind_of ?T)"
    by (simp add: sorted_wrt_map distinct_sorted_wrt)
  also have "\<dots> \<longleftrightarrow> distinct (map kind_of (filter is_static ls))" by (simp add: distinct_map)
  finally show "sorted_wrt (\<lambda>p q. \<not> twice p q) (static_entries ls) \<longleftrightarrow> no_duplicates ls" by (simp add: no_duplicates_def)
qed

lemma joined_represents:
  assumes ok: "\<forall>c \<in> set ls. conf_ok c" and nd: "no_duplicates ls" and j: "joined (static_entries ls) ys"
  shows "represents ys ls"
proof -
  have ex: "(n, c) \<in> exacts ys \<longleftrightarrow> exact_at ls n = Some c" for n c
  proof -
    have "(n, c) \<in> exacts (static_entries ls) \<longleftrightarrow> c \<in> set ls \<and> is_static c \<and> exact_match c \<and> name c = n"
      by (force simp: exacts_def entry_static split: if_splits)
    then show ?thesis using j exact_at [OF nd] by (simp add: joined_def)
  qed
  have inc: "(n, c) \<in> inclusives ys \<longleftrightarrow> inclusive_at ls n = Some c" for n c
  proof -
    have "(n, c) \<in> inclusives (static_entries ls) \<longleftrightarrow> c \<in> set ls \<and> is_static c \<and> \<not> exact_match c \<and> name c = n"
      by (force simp: inclusives_def entry_static split: if_splits)
    then show ?thesis using j inclusive_at [OF nd] by (simp add: joined_def)
  qed
  have srt: "sorted_wrt (\<lambda>p q. nk (lq_name p) < nk (lq_name q)) ys" using j by (simp add: joined_def)
  then have uniq: "p = q" if "p \<in> set ys" "q \<in> set ys" "lq_name p = lq_name q" for p q
    using that by (induction ys) auto
  have at: "lq_exact y = exact_at ls (lq_name y)" "lq_inclusive y = inclusive_at ls (lq_name y)" if y: "y \<in> set ys" for y
  proof -
    have "lq_exact y = Some c \<longleftrightarrow> exact_at ls (lq_name y) = Some c" for c using ex [of "lq_name y" c] uniq [OF _ y] y by (auto simp: exacts_def)
    then show "lq_exact y = exact_at ls (lq_name y)" by (metis not_None_eq)
    have "lq_inclusive y = Some c \<longleftrightarrow> inclusive_at ls (lq_name y) = Some c" for c using inc [of "lq_name y" c] uniq [OF _ y] y by (auto simp: inclusives_def)
    then show "lq_inclusive y = inclusive_at ls (lq_name y)" by (metis not_None_eq)
  qed
  have "lq_list y = [] \<and> entry_ok y" if y: "y \<in> set ys" for y
  proof -
    have "lq_name y \<in> lq_name ` set ys" using y by (rule imageI)
    then have "lq_name y \<in> lq_name ` set (static_entries ls)" using j unfolding joined_def by metis
    then obtain c where "c \<in> set ls" "lq_name y = name c" by auto
    then have n: "0 \<notin> set (lq_name y)" "length (lq_name y) < 256" using ok by (simp_all add: conf_ok_def)
    have "lq_name y \<noteq> [] \<and> last (lq_name y) = ch_slash" if red: "redirects y"
    proof -
      obtain c where "c \<in> set ls" "name c = lq_name y" "auto_redirect c"
        using red at [OF y] exact_at [OF nd] inclusive_at [OF nd] by (auto simp: redirects_def split: option.splits)
      then show ?thesis using ok by (auto simp: conf_ok_def)
    qed
    moreover have "lq_list y \<in> lq_list ` set (static_entries ls)" "lq_exact y \<noteq> None \<or> lq_inclusive y \<noteq> None" using j y unfolding joined_def by blast+
    ultimately show ?thesis using n by (auto simp: entry_ok_def)
  qed
  moreover have "n \<in> lq_name ` set ys" if nn: "exact_at ls n \<noteq> None \<or> inclusive_at ls n \<noteq> None" for n
  proof -
    obtain c where "(n, c) \<in> exacts ys \<or> (n, c) \<in> inclusives ys" using nn ex [of n] inc [of n] by blast
    then show ?thesis by (auto simp: exacts_def inclusives_def)
  qed
  ultimately show ?thesis using srt at by (auto simp: represents_def flat_def)
qed

lemma static_tree:
  assumes ok: "\<forall>c \<in> set ls. conf_ok c" and nd: "no_duplicates ls"
  shows "\<exists>t. ngx_http_init_static_location_trees (static_entries ls) = Inr t \<and>
    (\<forall>u r. ngx_http_core_find_static_location u t (NGX_DECLINED, r) = location_for ls u r)"
proof -
  have "\<forall>q \<in> set (static_entries ls). 0 \<notin> set (lq_name q)" using ok by (auto simp: conf_ok_def)
  then obtain ys where ys: "ngx_http_join_exact_locations (static_entries ls) = Inr ys" "joined (static_entries ls) ys"
    using join_ok [of "static_entries ls"] static_entries_facts [of ls] nd by blast
  let ?cl = "ngx_http_create_locations_list ys" and ?t = "ngx_http_create_locations_tree (ngx_http_create_locations_list ys) 0"
  have r: "represents ys ls" by (rule joined_represents [OF ok nd ys(2)])
  then have "flat ys" by (simp add: represents_def)
  then have fo: "forest ?cl" "search ?cl u acc = scan ys u acc" for u acc using create_list_forest [of ys] by blast+
  have f: "ngx_http_core_find_static_location u ?t (NGX_DECLINED, d) = location_for ls u d" for u d
    using find_tree [OF fo(1), of 0 u "(NGX_DECLINED, d)"] fo(2) scan_selects [OF r] by simp
  show ?thesis
  proof (cases "static_entries ls = []")
    case True
    then have "ys = []" using ys(1) by simp
    then have "?t = Null_node" by simp
    then show ?thesis using True f by (auto simp: ngx_http_init_static_location_trees_def)
  next
    case False
    then show ?thesis using ys(1) f by (auto simp: ngx_http_init_static_location_trees_def)
  qed
qed

lemma static_tree_error:
  assumes ok: "\<forall>c \<in> set ls. conf_ok c" and nd: "\<not> no_duplicates ls"
  shows "\<exists>n. ngx_http_init_static_location_trees (static_entries ls) = Inl (Duplicate_location n)"
proof -
  have z: "\<forall>q \<in> set (static_entries ls). 0 \<notin> set (lq_name q)" using ok by (auto simp: conf_ok_def)
  have "\<not> sorted_wrt (\<lambda>p q. \<not> twice p q) (static_entries ls)" using static_entries_facts(4) nd by blast
  then obtain n where "ngx_http_join_exact_locations (static_entries ls) = Inl (Duplicate_location n)"
    using join_twice [OF static_entries_facts(1,2) z _ static_entries_facts(3)] by blast
  moreover from this have "static_entries ls \<noteq> []" by (metis Inl_Inr_False ngx_http_join_exact_locations.simps(2))
  ultimately show ?thesis by (auto simp: ngx_http_init_static_location_trees_def)
qed

text \<open>The selection, on the configuration as it is written.\<close>

lemma size_nested: "c \<in> set (nested k) \<Longrightarrow> size (loc_conf c) < size k"
proof (cases k)
  case (Conf cs)
  assume "c \<in> set (nested k)"
  then have "size_core_loc_conf size c \<le> size_list (size_core_loc_conf size) cs" using Conf by (auto intro: size_list_estimation')
  moreover have "size (loc_conf c) < size_core_loc_conf size c" by (cases c) simp
  ultimately show ?thesis using Conf by simp
qed

lemma location_for_in: "location_for ls u p = (rc, r) \<Longrightarrow> rc = NGX_AGAIN \<Longrightarrow> r \<in> set ls \<and> is_static r"
proof -
  have i: "inclusive_at ls n = Some c \<Longrightarrow> c \<in> set ls \<and> is_static c" for n c by (auto simp: inclusive_at_def find_Some_iff)
  have "longest_prefix ls u n = Some c \<Longrightarrow> c \<in> set ls \<and> is_static c" for n c
    by (induction n) (use i in \<open>auto split: option.splits\<close>)
  then show "location_for ls u p = (rc, r) \<Longrightarrow> rc = NGX_AGAIN \<Longrightarrow> r \<in> set ls \<and> is_static r"
    using i by (auto simp: location_for_def split: option.splits if_splits)
qed

definition level_choice :: "bool \<Rightarrow> bytes \<Rightarrow> conf core_loc_conf \<Rightarrow> ngx_rc \<times> conf core_loc_conf" where
  "level_choice st u p = (if st then location_for (nested (loc_conf p)) u p else (NGX_DECLINED, p))"

definition first_regex :: "(nat \<Rightarrow> bytes \<Rightarrow> ngx_rc) \<Rightarrow> bytes \<Rightarrow> 'm core_loc_conf list \<Rightarrow> 'm core_loc_conf option" where
  "first_regex rex u ls = find (\<lambda>c. regex c \<noteq> None \<and> rex (the (regex c)) u \<noteq> NGX_DECLINED) ls"

function select :: "(nat \<Rightarrow> bytes \<Rightarrow> ngx_rc) \<Rightarrow> bytes \<Rightarrow> bool \<Rightarrow> conf core_loc_conf \<Rightarrow> ngx_rc \<times> conf core_loc_conf" where
  "select rex u st p =
     (let (rc, r) = level_choice st u p;
          (rc1, r1) = (if rc = NGX_AGAIN then select rex u True r else (rc, r))
      in if rc1 = NGX_OK \<or> rc1 = NGX_DONE \<or> rc = NGX_AGAIN \<and> noregex r then (rc1, r1)
         else case first_regex rex u (nested (loc_conf p)) of
           None \<Rightarrow> (rc1, r1)
         | Some c \<Rightarrow>
             if rex (the (regex c)) u = NGX_OK
             then let (rc2, r2) = select rex u False c in (if rc2 = NGX_ERROR then NGX_ERROR else NGX_OK, r2)
             else (NGX_ERROR, r1))"
  by pat_completeness auto
termination
proof (relation "measure (\<lambda>(rex, u, st, p). size (loc_conf p))")
  fix rex u st p x rc r
  assume "x = level_choice st u p" "(rc, r) = x" "rc = NGX_AGAIN"
  then have "r \<in> set (nested (loc_conf p))" using location_for_in [of "nested (loc_conf p)" u p rc r] by (auto simp: level_choice_def split: if_splits)
  then show "((rex, u, True, r), rex, u, st, p) \<in> measure (\<lambda>(rex, u, st, p). size (loc_conf p))" using size_nested by auto
next
  fix rex u st p and c :: "conf core_loc_conf"
  assume "first_regex rex u (nested (loc_conf p)) = Some c"
  then have "c \<in> set (nested (loc_conf p))" by (auto simp: first_regex_def find_Some_iff)
  then show "((rex, u, False, c), rex, u, st, p) \<in> measure (\<lambda>(rex, u, st, p). size (loc_conf p))" using size_nested by auto
qed simp

lemma map_conf [simp]:
  "name (map_core_loc_conf f c) = name c" "exact_match (map_core_loc_conf f c) = exact_match c" "noregex (map_core_loc_conf f c) = noregex c"
  "named (map_core_loc_conf f c) = named c" "noname (map_core_loc_conf f c) = noname c" "regex (map_core_loc_conf f c) = regex c"
  "auto_redirect (map_core_loc_conf f c) = auto_redirect c" "loc_conf (map_core_loc_conf f c) = f (loc_conf c)"
  by (cases c; simp)+

lemma map_conf_derived [simp]:
  "conf_ok (map_core_loc_conf f c) = conf_ok c" "is_static (map_core_loc_conf f c) = is_static c" "lkey (map_core_loc_conf f c) = lkey c"
  "kind_of (map_core_loc_conf f c) = kind_of c"
  by (simp_all add: conf_ok_def is_static_def lkey_def kind_of_def)

lemma find_map: "find P (map g xs) = map_option g (find (\<lambda>x. P (g x)) xs)"
  by (induction xs) auto

lemma at_map: "exact_at (map (map_core_loc_conf f) ls) n = map_option (map_core_loc_conf f) (exact_at ls n)"
  "inclusive_at (map (map_core_loc_conf f) ls) n = map_option (map_core_loc_conf f) (inclusive_at ls n)"
  by (simp_all add: exact_at_def inclusive_at_def find_map)

lemma longest_prefix_map: "longest_prefix (map (map_core_loc_conf f) ls) u n = map_option (map_core_loc_conf f) (longest_prefix ls u n)"
  by (induction n) (auto simp: at_map split: option.splits)

lemma location_for_map:
  "location_for (map (map_core_loc_conf f) ls) u (map_core_loc_conf f r) = map_prod id (map_core_loc_conf f) (location_for ls u r)"
proof -
  have "redirect_at (map (map_core_loc_conf f) ls) n = redirect_at ls n" for n by (auto simp: redirect_at_def at_map split: option.splits)
  moreover have "exact_or_inclusive (map_option (map_core_loc_conf f) (exact_at ls n)) (map_option (map_core_loc_conf f) (inclusive_at ls n)) =
      map_core_loc_conf f (exact_or_inclusive (exact_at ls n) (inclusive_at ls n))" if "redirect_at ls n" for n
    using that by (auto simp: exact_or_inclusive_def redirect_at_def split: option.splits)
  ultimately show ?thesis by (auto simp: location_for_def at_map longest_prefix_map split: option.splits)
qed

lemma entries_map: "map (map_location_queue f) (static_entries ls) = static_entries (map (map_core_loc_conf f) ls)"
proof -
  have "map_location_queue f (entry c) = entry (map_core_loc_conf f c)" for c by (simp add: entry_def)
  moreover have "sort_key (lkey \<circ> map_core_loc_conf f) (filter is_static ls) = sort_key lkey (filter is_static ls)" by (simp add: comp_def)
  ultimately show ?thesis by (simp add: sort_key_map filter_map comp_def)
qed

primrec tree_ok :: "conf \<Rightarrow> bool" where
  "tree_ok (Conf cs) \<longleftrightarrow> (\<forall>c \<in> set cs. conf_ok c) \<and> no_duplicates cs \<and> list_all loc_conf (map (map_core_loc_conf tree_ok) cs)"

lemma tree_ok_iff: "tree_ok k \<longleftrightarrow> (\<forall>c \<in> set (nested k). conf_ok c \<and> tree_ok (loc_conf c)) \<and> no_duplicates (nested k)"
  by (cases k) (auto simp: list_all_iff)

abbreviation full :: "conf \<Rightarrow> ctx" where
  "full k \<equiv> projr (fst (init_conf k))"

abbreviation bare :: "conf \<Rightarrow> ctx" where
  "bare k \<equiv> snd (init_conf k)"

lemma init_conf_ok:
  "tree_ok k \<Longrightarrow> \<exists>t. init_conf k = (Inr (Ctx t (map (map_core_loc_conf bare) (filter (\<lambda>c. regex c \<noteq> None) (nested k)))),
      Ctx Null_node (map (map_core_loc_conf bare) (filter (\<lambda>c. regex c \<noteq> None) (nested k)))) \<and>
    (\<forall>u r. ngx_http_core_find_static_location u t (NGX_DECLINED, r) = location_for (map (map_core_loc_conf full) (nested k)) u r)"
proof (induction k)
  case (Conf cs)
  let ?ks = "map (map_core_loc_conf init_conf) cs" and ?fs = "map (map_core_loc_conf full) cs"
  have ok: "\<forall>c \<in> set ?ks. conf_ok c" "\<forall>c \<in> set ?fs. conf_ok c" using Conf.prems by auto
  have nd: "no_duplicates ?fs" using Conf.prems by (simp add: no_duplicates_def filter_map comp_def)
  have il: "ngx_http_init_locations (foldl ngx_http_add_location [] ?ks) = (static_entries ?ks, filter (\<lambda>c. regex c \<noteq> None) ?ks, sort_key lkey (filter named ?ks))"
    using init_locations [OF ok(1)] by (simp add: add_locations)
  have inr: "\<not> isl (fst (init_conf (loc_conf c)))" if c: "c \<in> set cs" for c
  proof -
    have "loc_conf c \<in> set_core_loc_conf c" by (cases c) simp
    moreover have "tree_ok (loc_conf c)" using Conf.prems c by (auto simp: list_all_iff)
    ultimately show ?thesis using Conf.IH [OF c, of "loc_conf c"] by auto
  qed
  then have ne: "nested_error (static_entries ?ks) = None" by (auto simp: nested_error_def find_None_iff)
  have "map (map_location_queue (projr \<circ> fst)) (static_entries ?ks) = static_entries ?fs"
    unfolding entries_map by (simp add: core_loc_conf.map_comp comp_def)
  moreover obtain t where t: "ngx_http_init_static_location_trees (static_entries ?fs) = Inr t"
      "\<forall>u r. ngx_http_core_find_static_location u t (NGX_DECLINED, r) = location_for ?fs u r"
    using static_tree [OF ok(2) nd] by blast
  moreover have "map (map_core_loc_conf snd) (filter (\<lambda>c. regex c \<noteq> None) ?ks) = map (map_core_loc_conf bare) (filter (\<lambda>c. regex c \<noteq> None) cs)"
    by (simp add: filter_map comp_def core_loc_conf.map_comp)
  ultimately show ?case using il ne by (simp add: init_level_def Let_def)
qed

abbreviation strip :: "'m core_loc_conf \<Rightarrow> unit core_loc_conf" where
  "strip \<equiv> map_core_loc_conf (\<lambda>_. ())"

lemma strip_map: "strip (map_core_loc_conf f c) = strip c"
  by (simp add: core_loc_conf.map_comp comp_def)

lemma dropWhile_find: "dropWhile (\<lambda>x. \<not> P x) xs = y # ys \<Longrightarrow> find P xs = Some y"
  by (induction xs) (auto split: if_splits)

lemma find_filter: "find P (filter Q xs) = find (\<lambda>x. Q x \<and> P x) xs"
  by (induction xs) auto

lemma select_first_regex:
  "first_regex rex u (nested k) = Some c \<Longrightarrow> c \<in> set (nested k)"
  by (auto simp: first_regex_def find_Some_iff)

definition in_ctx :: "bool \<Rightarrow> conf core_loc_conf \<Rightarrow> ctx core_loc_conf" where
  "in_ctx st p = map_core_loc_conf (\<lambda>k. if st then full k else bare k) p"

lemma find_location_select:
  assumes "tree_ok (loc_conf p)"
  shows "\<exists>r. ngx_http_core_find_location rex u (in_ctx st p) = Some (fst (select rex u st p), r) \<and> strip r = strip (snd (select rex u st p))"
  using assms
proof (induction rex u st p rule: select.induct)
  case (1 rex u st p)
  let ?P = "in_ctx st p" and ?k = "loc_conf p"
  obtain t where t: "init_conf ?k = (Inr (Ctx t (map (map_core_loc_conf bare) (filter (\<lambda>c. regex c \<noteq> None) (nested ?k)))),
      Ctx Null_node (map (map_core_loc_conf bare) (filter (\<lambda>c. regex c \<noteq> None) (nested ?k))))"
    "\<And>u r. ngx_http_core_find_static_location u t (NGX_DECLINED, r) = location_for (map (map_core_loc_conf full) (nested ?k)) u r"
    using init_conf_ok [OF "1.prems"] by blast
  have rl: "regex_locations (loc_conf ?P) = map (in_ctx False) (filter (\<lambda>c. regex c \<noteq> None) (nested ?k))"
    using t(1) by (simp add: in_ctx_def)
  obtain rc r where lc: "level_choice st u p = (rc, r)" by force
  have sl: "\<exists>r'. ngx_http_core_find_static_location u (static_locations (loc_conf ?P)) (NGX_DECLINED, ?P) = (rc, r') \<and> strip r' = strip r \<and>
      (rc = NGX_AGAIN \<longrightarrow> r' = in_ctx True r \<and> r \<in> set (nested ?k))"
  proof (cases st)
    case True
    then have l: "location_for (nested ?k) u p = (rc, r)" using lc by (simp add: level_choice_def)
    have "static_locations (loc_conf ?P) = t" "?P = map_core_loc_conf full p" using True t(1) by (simp_all add: in_ctx_def)
    then have "ngx_http_core_find_static_location u (static_locations (loc_conf ?P)) (NGX_DECLINED, ?P) = (rc, map_core_loc_conf full r)"
      using t(2) location_for_map [of full "nested ?k" u p] l by simp
    then show ?thesis using location_for_in [OF l] by (auto simp: in_ctx_def strip_map)
  next
    case False
    then have "rc = NGX_DECLINED" "r = p" using lc by (simp_all add: level_choice_def)
    moreover have "static_locations (loc_conf ?P) = Null_node" using False t(1) by (simp add: in_ctx_def)
    ultimately show ?thesis by (simp add: in_ctx_def strip_map)
  qed
  then obtain r' where r': "ngx_http_core_find_static_location u (static_locations (loc_conf ?P)) (NGX_DECLINED, ?P) = (rc, r')" "strip r' = strip r"
      "rc = NGX_AGAIN \<Longrightarrow> r' = in_ctx True r \<and> r \<in> set (nested ?k)"
    by blast
  obtain rc1 r1 where s1: "(if rc = NGX_AGAIN then select rex u True r else (rc, r)) = (rc1, r1)" by force
  have "\<exists>r1'. (if rc = NGX_AGAIN then do { (rc', r'') \<leftarrow> ngx_http_core_find_location rex u r'; Some (rc', r'', noregex r') } else Some (rc, r', False)) =
      Some (rc1, r1', rc = NGX_AGAIN \<and> noregex r) \<and> strip r1' = strip r1"
  proof (cases "rc = NGX_AGAIN")
    case True
    then have "tree_ok (loc_conf r)" using r'(3) "1.prems" tree_ok_iff [of ?k] by blast
    then have "\<exists>x. ngx_http_core_find_location rex u (in_ctx True r) = Some (fst (select rex u True r), x) \<and> strip x = strip (snd (select rex u True r))"
      using "1.IH"(1) [OF lc [symmetric] refl True] by blast
    then show ?thesis using True s1 r'(3) by (auto simp: in_ctx_def)
  next
    case False
    then show ?thesis using s1 r'(2) by auto
  qed
  then obtain r1' where f1: "(if rc = NGX_AGAIN then do { (rc', r'') \<leftarrow> ngx_http_core_find_location rex u r'; Some (rc', r'', noregex r') } else Some (rc, r', False)) =
      Some (rc1, r1', rc = NGX_AGAIN \<and> noregex r)" "strip r1' = strip r1"
    by blast
  let ?D = "dropWhile (\<lambda>c. rex (the (regex c)) u = NGX_DECLINED) (filter (\<lambda>c. regex c \<noteq> None) (nested ?k))"
  have dw: "dropWhile (\<lambda>c. rex (the (regex c)) u = NGX_DECLINED) (regex_locations (loc_conf ?P)) = map (in_ctx False) ?D"
    unfolding rl dropWhile_map by (simp add: comp_def in_ctx_def)
  have fr: "first_regex rex u (nested ?k) = find (\<lambda>c. rex (the (regex c)) u \<noteq> NGX_DECLINED) (filter (\<lambda>c. regex c \<noteq> None) (nested ?k))"
    by (simp add: first_regex_def find_filter)
  show ?case
  proof (cases "rc1 = NGX_OK \<or> rc1 = NGX_DONE \<or> rc = NGX_AGAIN \<and> noregex r")
    case True
    then have "select rex u st p = (rc1, r1)" using lc s1 by (simp add: Let_def)
    moreover have "ngx_http_core_find_location rex u ?P = Some (rc1, r1')" using True r'(1) f1(1) by (subst ngx_http_core_find_location.simps) auto
    ultimately show ?thesis using f1(2) by simp
  next
    case no: False
    then have sel: "select rex u st p = (case first_regex rex u (nested ?k) of None \<Rightarrow> (rc1, r1) | Some c \<Rightarrow>
        if rex (the (regex c)) u = NGX_OK then let (rc2, r2) = select rex u False c in (if rc2 = NGX_ERROR then NGX_ERROR else NGX_OK, r2) else (NGX_ERROR, r1))"
      using lc s1 by (subst select.simps) (auto simp: Let_def)
    have loc: "ngx_http_core_find_location rex u ?P = (case map (in_ctx False) ?D of [] \<Rightarrow> Some (rc1, r1') | c # _ \<Rightarrow>
        if rex (the (regex c)) u = NGX_OK
        then do { (rc', r') \<leftarrow> ngx_http_core_find_location rex u c; Some (if rc' = NGX_ERROR then NGX_ERROR else NGX_OK, r') }
        else Some (NGX_ERROR, r1'))"
      using no r'(1) f1(1) unfolding dw [symmetric] by (subst ngx_http_core_find_location.simps) auto
    show ?thesis
    proof (cases ?D)
      case Nil
      then have "first_regex rex u (nested ?k) = None" unfolding fr by (auto simp: find_None_iff)
      then show ?thesis using sel loc [unfolded Nil] f1(2) by (simp del: select.simps)
    next
      case (Cons c cs)
      then have c: "first_regex rex u (nested ?k) = Some c" unfolding fr using dropWhile_find [of "\<lambda>c. rex (the (regex c)) u \<noteq> NGX_DECLINED"] by simp
      have "tree_ok (loc_conf c)" using select_first_regex [OF c] "1.prems" tree_ok_iff [of ?k] by blast
      then have "\<exists>x. ngx_http_core_find_location rex u (in_ctx False c) = Some (fst (select rex u False c), x) \<and> strip x = strip (snd (select rex u False c))"
        if "rex (the (regex c)) u = NGX_OK"
        using "1.IH"(2) [OF lc [symmetric] refl s1 [symmetric] refl no c that] by blast
      moreover have "regex (in_ctx False c) = regex c" by (simp add: in_ctx_def)
      ultimately show ?thesis using sel loc [unfolded Cons] c f1(2) by (auto simp: case_prod_beta simp del: select.simps)
    qed
  qed
qed

section \<open>What the directive accepts\<close>

lemma filename_cmp_prefix: "0 \<notin> set b \<Longrightarrow> ngx_filename_cmp (a @ [0]) (b @ [0]) (length b) = 0 \<Longrightarrow> prefix b a"
proof (induction a b rule: list_induct2')
  case (4 x a y b)
  then show ?case using cdiff_sign(2) [of x y] by (cases "x = y") (auto simp: cdiff_def)
qed (auto dest: u8_pos)

text \<open>
  A location that the directive adds is of one kind, its name is \<open>NUL\<close>-free when the arguments are, it does not
  stand inside an exact or a named location, and a static location inside another continues its name.
\<close>

theorem location_directive_class:
  assumes "ngx_http_core_location compile args parent m locations = Inr ls" "\<forall>a \<in> set args. 0 \<notin> set a"
  shows "\<exists>c. ls = locations @ [entry c] \<and> loc_conf c = m \<and> 0 \<notin> set (name c) \<and> \<not> noname c \<and> \<not> auto_redirect c \<and> \<not> (regex c \<noteq> None \<and> named c) \<and>
    (exact_match c \<longrightarrow> is_static c) \<and>
    (\<forall>p. parent = Some p \<longrightarrow> \<not> exact_match p \<and> \<not> named p \<and> \<not> named c \<and> (regex c = None \<longrightarrow> 0 \<notin> set (name p) \<longrightarrow> prefix (name p) (name c)))"
proof -
  obtain c where c: "location_name compile args m = Inr c" using assms(1) by (auto simp: ngx_http_core_location_def split: sum.splits)
  have "loc_conf c = m \<and> 0 \<notin> set (name c) \<and> \<not> noname c \<and> \<not> auto_redirect c \<and> \<not> (regex c \<noteq> None \<and> named c) \<and> (exact_match c \<longrightarrow> is_static c)"
    using c assms(2) unfolding location_name_def ngx_http_core_regex_location_def is_static_def
    by (auto simp: Let_def split: list.splits if_splits option.splits dest: in_set_dropD)
  moreover have "ngx_http_add_location locations c = locations @ [entry c]" using add_locations [of locations "[c]"] by simp
  moreover have "ls = ngx_http_add_location locations c" using assms(1) c
    by (auto simp: ngx_http_core_location_def split: option.splits if_splits)
  moreover have "\<not> exact_match p \<and> \<not> named p \<and> \<not> named c \<and> (regex c = None \<longrightarrow> 0 \<notin> set (name p) \<longrightarrow> prefix (name p) (name c))" if "parent = Some p" for p
    using assms(1) c that filename_cmp_prefix by (auto simp: ngx_http_core_location_def split: if_splits)
  ultimately show ?thesis by auto
qed

section \<open>Properties\<close>

text \<open>
  C4. Let the locations of one level have names of less than 256 characters without \<open>NUL\<close>, redirect only
  from names that end in a slash, and no two with the same name and kind. Then the tree that is
  built for them gives every URI the location of the rule: the exact location of that name;
  else the prefix location of that name; else, as a redirect, a location whose name is the URI and a slash; else
  the prefix location with the longest name that the URI begins with; else none.
\<close>

theorem static_location_selected:
  assumes "\<forall>c \<in> set ls. conf_ok c" and "no_duplicates ls"
  shows "\<exists>t. ngx_http_init_static_location_trees (fst (ngx_http_init_locations (foldl ngx_http_add_location [] ls))) = Inr t \<and>
    (\<forall>u r. ngx_http_core_find_static_location u t (NGX_DECLINED, r) = location_for ls u r)"
  using static_tree [OF assms] init_locations [OF assms(1)] by (simp add: add_locations)

definition loc :: "bytes \<Rightarrow> bool \<Rightarrow> bool \<Rightarrow> 'm \<Rightarrow> 'm core_loc_conf" where
  "loc n e a m = Core_loc_conf n e False False False None a m"

definition regex_loc :: "nat \<Rightarrow> 'm \<Rightarrow> 'm core_loc_conf" where
  "regex_loc i m = Core_loc_conf [] False False False False (Some i) False m"

text \<open>Locations \<open>/\<close>, \<open>= /\<close>, \<open>/a/\<close> with a redirect, \<open>/a/b\<close>, \<open>/c\<close>.\<close>

definition sample_locs :: "nat core_loc_conf list" where
  "sample_locs = [loc [ch_slash, 97, ch_slash, 98] False False 0, loc [ch_slash] False False 1, loc [ch_slash, 99] False False 2,
     loc [ch_slash] True False 3, loc [ch_slash, 97, ch_slash] False True 4]"

theorem static_location_selected_witness:
  "\<exists>t. ngx_http_init_static_location_trees (fst (ngx_http_init_locations (foldl ngx_http_add_location [] sample_locs))) = Inr t \<and>
    loc_conf (snd (ngx_http_core_find_static_location [ch_slash, 97] t (NGX_DECLINED, loc [] False False 9))) = 4 \<and>
    fst (ngx_http_core_find_static_location [ch_slash, 97] t (NGX_DECLINED, loc [] False False 9)) = NGX_DONE \<and>
    loc_conf (snd (ngx_http_core_find_static_location [ch_slash, 98] t (NGX_DECLINED, loc [] False False 9))) = 1 \<and>
    loc_conf (snd (ngx_http_core_find_static_location [ch_slash] t (NGX_DECLINED, loc [] False False 9))) = 3"
proof -
  note ev = sample_locs_def loc_def conf_ok_def no_duplicates_def kind_of_def is_static_def location_for_def exact_at_def inclusive_at_def
    redirect_at_def exact_or_inclusive_def
  have "\<forall>c \<in> set sample_locs. conf_ok c" "no_duplicates sample_locs" by (simp_all add: ev)
  then obtain t where t: "ngx_http_init_static_location_trees (fst (ngx_http_init_locations (foldl ngx_http_add_location [] sample_locs))) = Inr t"
      "\<forall>u r. ngx_http_core_find_static_location u t (NGX_DECLINED, r) = location_for sample_locs u r"
    using static_location_selected [of sample_locs] by blast
  have "location_for sample_locs [ch_slash, 97] (loc [] False False 9) = (NGX_DONE, loc [ch_slash, 97, ch_slash] False True 4)"
      "location_for sample_locs [ch_slash, 98] (loc [] False False 9) = (NGX_AGAIN, loc [ch_slash] False False 1)"
      "location_for sample_locs [ch_slash] (loc [] False False 9) = (NGX_OK, loc [ch_slash] True False 3)"
    by (simp_all add: ev numeral_2_eq_2)
  then show ?thesis using t by (auto simp: loc_def)
qed

text \<open>
  C5. For a whole configuration of nested locations, the initialisation succeeds and the lookup returns the
  location of the rule \<open>select\<close>: the static location of the level and then, unless it is exact, a redirect or
  marked to exclude them, the locations nested in it, and the first regular expression of the level, in the
  order of the configuration, that matches, with the locations nested in that.  In particular the lookup
  terminates.
\<close>

theorem find_location_selects:
  assumes "tree_ok (loc_conf p)"
  shows "\<exists>k r. fst (init_conf (loc_conf p)) = Inr k \<and>
    ngx_http_core_find_location rex u (map_core_loc_conf (\<lambda>_. k) p) = Some (fst (select rex u True p), r) \<and>
    strip r = strip (snd (select rex u True p))"
proof -
  obtain k where k: "fst (init_conf (loc_conf p)) = Inr k" using init_conf_ok [OF assms] by auto
  then have "map_core_loc_conf (\<lambda>_. k) p = in_ctx True p" by (cases p) (simp add: in_ctx_def)
  then show ?thesis using k find_location_select [OF assms, of rex u True] by auto
qed

text \<open>A server with the prefix \<open>/x\<close>, in it the regular expression 1, and beside it the regular expression 2.\<close>

definition sample_server :: "conf core_loc_conf" where
  "sample_server = loc [] False False (Conf [regex_loc 2 (Conf []), loc [ch_slash, 120] False False (Conf [regex_loc 1 (Conf [])])])"

theorem find_location_selects_witness:
  "\<exists>k r. fst (init_conf (loc_conf sample_server)) = Inr k \<and>
    ngx_http_core_find_location (\<lambda>i u. if i = 1 then NGX_OK else NGX_DECLINED) [ch_slash, 120, 121] (map_core_loc_conf (\<lambda>_. k) sample_server) = Some (NGX_OK, r) \<and>
    regex r = Some 1"
proof -
  note ev = sample_server_def loc_def regex_loc_def conf_ok_def no_duplicates_def kind_of_def is_static_def
  have "tree_ok (loc_conf sample_server)" by (simp add: ev)
  moreover have "select (\<lambda>i u. if i = 1 then NGX_OK else NGX_DECLINED) [ch_slash, 120, 121] True sample_server = (NGX_OK, regex_loc 1 (Conf []))"
    by (simp add: ev level_choice_def location_for_def exact_at_def inclusive_at_def redirect_at_def first_regex_def numeral_2_eq_2 numeral_3_eq_3)
  ultimately have "\<exists>k r. fst (init_conf (loc_conf sample_server)) = Inr k \<and>
      ngx_http_core_find_location (\<lambda>i u. if i = 1 then NGX_OK else NGX_DECLINED) [ch_slash, 120, 121] (map_core_loc_conf (\<lambda>_. k) sample_server) = Some (NGX_OK, r) \<and>
      strip r = strip (regex_loc 1 (Conf []))"
    using find_location_selects [of sample_server "\<lambda>i u. if i = 1 then NGX_OK else NGX_DECLINED" "[ch_slash, 120, 121]"] by auto
  moreover have "regex r = Some 1" if "strip r = strip (regex_loc 1 (Conf []))" for r :: "ctx core_loc_conf"
    using map_conf(6) [of "\<lambda>_. ()" r] that by (simp add: regex_loc_def)
  ultimately show ?thesis by blast
qed

text \<open>
  C39. The initialisation of a level is refused as a duplicate location exactly when two of its static
  locations have the same name and are both exact or both not.
\<close>

theorem duplicate_location_rejected:
  assumes "\<forall>c \<in> set ls. conf_ok c"
  shows "(\<exists>n. ngx_http_init_static_location_trees (fst (ngx_http_init_locations (foldl ngx_http_add_location [] ls))) = Inl (Duplicate_location n)) \<longleftrightarrow>
    \<not> no_duplicates ls"
  using static_tree [OF assms] static_tree_error [OF assms] init_locations [OF assms] by (auto simp: add_locations)

theorem duplicate_location_rejected_witness:
  "\<exists>n. ngx_http_init_static_location_trees (fst (ngx_http_init_locations (foldl ngx_http_add_location []
    [loc [ch_slash] True False (0 :: nat), loc [ch_slash, 97] True False 1, loc [ch_slash] True False 2]))) = Inl (Duplicate_location n)"
proof -
  let ?ls = "[loc [ch_slash] True False (0 :: nat), loc [ch_slash, 97] True False 1, loc [ch_slash] True False 2]"
  have "\<forall>c \<in> set ?ls. conf_ok c" "\<not> no_duplicates ?ls" by (simp_all add: loc_def conf_ok_def no_duplicates_def kind_of_def is_static_def)
  then show ?thesis using duplicate_location_rejected [of ?ls] by blast
qed

text \<open>Regular expressions keep the order of the configuration.\<close>

lemma regex_locations_in_order:
  "\<forall>c \<in> set ls. conf_ok c \<Longrightarrow>
    fst (snd (ngx_http_init_locations (foldl ngx_http_add_location [] ls))) = filter (\<lambda>c. regex c \<noteq> None) ls"
  using init_locations [of ls] by (simp add: add_locations)

text \<open>
  The length of a name is stored in a byte: a prefix location whose name has 256 characters is entered
  with the length 0 and answers for every other URI.
\<close>

lemma long_name_matches_all:
  assumes "length (name c) = 256" "is_static c" "\<not> exact_match c" "u \<noteq> []"
  shows "\<exists>t. ngx_http_init_static_location_trees (fst (ngx_http_init_locations (foldl ngx_http_add_location [] [c]))) = Inr t \<and>
    ngx_http_core_find_static_location u t acc = (NGX_AGAIN, c)"
proof -
  have "foldl ngx_http_add_location [] [c] = [entry c]" unfolding add_locations by simp
  then have "ngx_http_init_locations (foldl ngx_http_add_location [] [c]) = ([entry c], [], [])"
    using assms(2) by (simp add: ngx_http_init_locations_def sort_list_def ins_back_def is_static_def Let_def)
  then show ?thesis using assms
    by (auto simp: ngx_http_init_static_location_trees_def entry_static)
qed

text \<open>An inclusive match is not reported as such: the lookup never returns \<open>NGX_AGAIN\<close>.\<close>

lemma select_never_again: "fst (select rex u st p) \<noteq> NGX_AGAIN"
proof (induction rex u st p rule: select.induct)
  case (1 rex u st p)
  obtain rc r where lc: "level_choice st u p = (rc, r)" by force
  obtain rc1 r1 where s1: "(if rc = NGX_AGAIN then select rex u True r else (rc, r)) = (rc1, r1)" by force
  have "rc1 \<noteq> NGX_AGAIN" using "1.IH"(1) [OF lc [symmetric] refl] s1 by (cases "rc = NGX_AGAIN") auto
  then show ?case using lc s1 by (subst select.simps) (auto simp: Let_def split: option.splits prod.splits)
qed

lemma find_location_never_again:
  assumes "tree_ok (loc_conf p)"
  shows "\<exists>rc r. ngx_http_core_find_location rex u (in_ctx True p) = Some (rc, r) \<and> rc \<noteq> NGX_AGAIN"
  using find_location_select [OF assms, of rex u True] select_never_again [of rex u True p] by auto

text \<open>A prefix location inside a regular expression gets no tree.\<close>

lemma nested_in_regex_lost: "static_locations (bare k) = Null_node"
  by (cases k) (simp add: init_level_def case_prod_beta Let_def)

text \<open>An error of a regular expression in a nested location is lost when a regular expression of the enclosing level matches.\<close>

lemma nested_error_lost:
  defines "rex \<equiv> \<lambda>i u. if i = 1 then NGX_ERROR else NGX_OK"
  shows "\<exists>r. ngx_http_core_find_location rex [ch_slash, 120, 121] (in_ctx True sample_server) = Some (NGX_OK, r) \<and> regex r = Some 2"
proof -
  note ev = sample_server_def loc_def regex_loc_def is_static_def conf_ok_def no_duplicates_def kind_of_def
  have "select rex [ch_slash, 120, 121] True sample_server = (NGX_OK, regex_loc 2 (Conf []))"
    by (simp add: rex_def ev level_choice_def location_for_def exact_at_def inclusive_at_def redirect_at_def first_regex_def numeral_2_eq_2 numeral_3_eq_3)
  moreover have "tree_ok (loc_conf sample_server)" by (simp add: ev)
  ultimately obtain r where "ngx_http_core_find_location rex [ch_slash, 120, 121] (in_ctx True sample_server) = Some (NGX_OK, r)"
      "strip r = strip (regex_loc 2 (Conf []))"
    using find_location_select [of sample_server rex "[ch_slash, 120, 121]" True] by auto
  moreover have "regex r = Some 2" if "strip r = strip (regex_loc 2 (Conf []))" for r :: "ctx core_loc_conf"
    using map_conf(6) [of "\<lambda>_. ()" r] that by (simp add: regex_loc_def)
  ultimately show ?thesis by blast
qed

end
