(* ===== verification/Spec2Isabelle.thy ===== *)
theory Spec2Isabelle
  imports Ngx_Parse Ngx_Escape Http_Uri_Safety Http_Header_Line Http_Status_Line Http_Chunked
    Upstream_Rr Ngx_Rwlock Http_Range Hpack_Table Hpack_Huffman_Code Http_V2_Block Ngx_Timer
    Upstream_Keepalive Http_Location_Select
begin

text \<open>
  A verification development for nginx 1.12.2. Paths below are relative to
  \<^verbatim>\<open>src/nginx-1.12.2/src\<close>.

  \<^bold>\<open>The program.\<close> nginx is an event-driven server: worker processes accept connections, read bytes
  as they arrive, and hand them to parsers that may stop in the middle of anything and be called
  again with more. A request passes the request line and header parsers (HTTP/1.x) or the frame and
  header block decoders (HTTP/2), its URI is normalised, modules produce a response, and a chain of
  filters (ranges, chunked coding) rewrites the body on its way out. Proxied requests go to a peer
  that a balancer picks from a list in shared memory. All of it rests on the library of
  \<^verbatim>\<open>core/\<close>: strings, numbers, dates, locks, containers.

  \<^bold>\<open>What is modelled, and where.\<close>
  \<^item> \<^bold>\<open>Prelude\<close>: bytes, return codes, byte classes, the codec
    interface.
  \<^item> \<^bold>\<open>Ngx_Numbers\<close>, \<^bold>\<open>Ngx_Parse\<close>: the number
    readers and printers of \<^verbatim>\<open>core/ngx_string.c\<close> and the values with
    units of \<^verbatim>\<open>core/ngx_parse.c\<close>.
  \<^item> \<^bold>\<open>Ngx_Sprintf\<close>: \<open>ngx_vslprintf\<close> with every
    conversion, and its callers \<open>ngx_sprintf\<close> and \<open>ngx_snprintf\<close>.
  \<^item> \<^bold>\<open>Ngx_Escape\<close>: the escape tables, \<open>ngx_escape_uri\<close>,
    \<open>ngx_unescape_uri\<close>, \<open>ngx_escape_html\<close> and
    \<open>ngx_escape_json\<close>.
  \<^item> \<^bold>\<open>Ngx_Time\<close>: the calendar of
    \<^verbatim>\<open>core/ngx_times.c\<close> and the date reader
    \<^verbatim>\<open>core/ngx_parse_time.c\<close>.
  \<^item> \<^bold>\<open>Ngx_Rwlock\<close>: the reader-writer spin lock
    \<^verbatim>\<open>core/ngx_rwlock.c\<close> as interleaved atomic actions of any number of
    processes.
  \<^item> \<^bold>\<open>Ngx_Rbtree\<close>, \<^bold>\<open>Ngx_Rbtree_Balance\<close>: the
    red-black tree of \<^verbatim>\<open>core/ngx_rbtree.c\<close> as linked nodes in an
    explicit heap; \<^bold>\<open>Ngx_Timer\<close>: the timers of
    \<^verbatim>\<open>event/ngx_event_timer.c\<close> over it.
  \<^item> \<^bold>\<open>Ngx_Queue\<close>: the linked queues of
    \<^verbatim>\<open>core/ngx_queue.c\<close>; \<^bold>\<open>Upstream_Keepalive\<close>: the
    cache of idle connections
    (\<^verbatim>\<open>http/modules/ngx_http_upstream_keepalive_module.c\<close>) over them.
  \<^item> \<^bold>\<open>Http_Location\<close>, \<^bold>\<open>Http_Location_Tree\<close>,
    \<^bold>\<open>Http_Location_Select\<close>: locations, from the directive through the
    search tree (\<^verbatim>\<open>http/ngx_http.c\<close>) to the lookup of a URI
    (\<open>ngx_http_core_find_location\<close>).
  \<^item> \<^bold>\<open>Http_Scan\<close>: what the resumable parsers of
    \<^verbatim>\<open>http/ngx_http_parse.c\<close> share;
    \<^bold>\<open>Http_Request_Line\<close>, \<^bold>\<open>Http_Header_Line\<close>,
    \<^bold>\<open>Http_Status_Line\<close>: the parsers, one definition per state.
  \<^item> \<^bold>\<open>Http_Uri\<close>, \<^bold>\<open>Http_Uri_Safety\<close>: scan,
    normalisation and checks of URIs (\<open>ngx_http_parse_uri\<close>,
    \<open>ngx_http_parse_complex_uri\<close>, \<open>ngx_http_process_request_uri\<close>,
    \<open>ngx_http_parse_unsafe_uri\<close>).
  \<^item> \<^bold>\<open>Http_Chunked\<close>: the chunked parser, the request body filter over
    it (\<^verbatim>\<open>http/ngx_http_request_body.c\<close>) and the chunked output filter.
  \<^item> \<^bold>\<open>Ngx_Strings\<close>: comparison and search of C strings;
    \<^bold>\<open>Http_Headers_In\<close>: the handlers of known request headers, host names
    and virtual servers (\<^verbatim>\<open>http/ngx_http_request.c\<close>).
  \<^item> \<^bold>\<open>Http_Range\<close>: the range filter
    \<^verbatim>\<open>http/modules/ngx_http_range_filter_module.c\<close>.
  \<^item> \<^bold>\<open>Upstream_Rr\<close>: selection, fall back and release of peers
    (\<^verbatim>\<open>http/ngx_http_upstream_round_robin.c\<close>).
  \<^item> \<^bold>\<open>Hpack_Table\<close>: the header table of an HTTP/2 connection
    (\<^verbatim>\<open>http/v2/ngx_http_v2_table.c\<close>) with its rings in an explicit heap.
  \<^item> \<^bold>\<open>Hpack_Int\<close>: the integers of HPACK, read and written;
    \<^bold>\<open>Http_V2_Request\<close>: the request built from the headers of an HTTP/2
    stream; \<^bold>\<open>Http_V2_Loop\<close>, \<^bold>\<open>Http_V2_Block\<close>: the read
    loop and the handlers of a header block (\<^verbatim>\<open>http/v2/ngx_http_v2.c\<close>).
  \<^item> \<^bold>\<open>Huff_Tables\<close>, \<^bold>\<open>Hpack_Huffman\<close>,
    \<^bold>\<open>Hpack_Huffman_Code\<close>: the tables, encoder and decoder of the Huffman
    code of HPACK (\<^verbatim>\<open>http/v2/ngx_http_v2_huff_encode.c\<close>,
    \<^verbatim>\<open>http/v2/ngx_http_v2_huff_decode.c\<close>).

  \<^bold>\<open>Conventions.\<close> A buffer is a byte list and a pointer into it an offset (\<open>nat\<close>, or \<open>nat option\<close>
  where it may be \<open>NULL\<close>). Sizes are natural numbers; signed C integers are \<open>int\<close> with their bounds
  proved where the code relies on them; hashes, accumulators and bit fields are words of their
  width. Errors are \<open>None\<close> or constructors of \<open>ngx_rc\<close>. Structures of the code are records, one
  definition per function, and one per state of a parser. Failures of memory allocation and log
  messages are left out everywhere. There is no fuel: loops are structural or come with a measure,
  so every definition is total and what is proved of a result holds of the result the code returns;
  where a loop waits for another process (the spin lock) it is a step relation.

  \<^bold>\<open>Interfaces.\<close>
  \<^item> \<open>codec\<close> (Prelude): a decoder that inverts an encoder; interpreted on the
    escaping functions.
  \<^item> \<open>decimal_reader\<close> (Ngx_Numbers): a reader of decimal digits with a limit;
    interpreted on \<open>ngx_atoi\<close>, \<open>ngx_atosz\<close>, \<open>ngx_atoof\<close>
    and \<open>ngx_atotm\<close>.
  \<^item> \<open>resumable\<close> and its extension \<open>incremental\<close> (Http_Scan): a
    step function that looks only at the byte under the cursor and at bytes before it, and a
    parser that drives it; feeding the input in pieces then gives the result of one call.
    Interpreted on the request, header and status line parsers.
  \<^item> \<open>header_table\<close> (Hpack_Table): what the decoder of header blocks needs of
    a header table; interpreted on the code's rings.
  \<^item> \<open>interruptible\<close> (Http_V2_Loop): handlers that save what they cannot use
    yet, and move on; the read loop then returns and does not depend on the cutting of its
    input. Interpreted on the handlers of a header block.
  \<^item> \<open>queue_ops\<close> (Ngx_Queue): what users of a queue rely on, and how an
    element moves from one queue to another; interpreted on the linked queue, and used by the
    keepalive cache.
  \<^item> \<open>key_tree\<close> (Ngx_Rbtree_Balance): nodes kept in the order of their keys;
    interpreted on the red-black tree with each of its two insertion callbacks, and used by the
    timers.

  \<^bold>\<open>What the lemmas show.\<close>
  \<^item> Parsers: any cutting of the input into pieces gives the same result; the pointers the
    parser leaves behind are in order and inside the buffer; what a printer writes is read back.
  \<^item> URIs: the normaliser computes a reference normal form (percent-decoding, then
    resolution of segments on a stack), its output never leaves the root nor exceeds its buffer
    (on the paths of HTTP/1 and HTTP/2), and the fast path for plain URIs agrees with it.
  \<^item> Bodies: the chunked filters compute a byte-at-a-time reference decoder whatever the
    buffers, and invert the output filter; range responses are exactly the announced bytes of
    the entity.
  \<^item> HPACK: the table refines the dynamic table of RFC 7541 (a list with eviction) for
    every sequence of operations, size updates before the first addition excepted, which the
    code forgets; the 4096 entries of the Huffman decoder are the prefix tree of the encoder's
    table, hence what the decoder accepts, the round trip, and the size of the buffer.
  \<^item> HTTP/2: the handlers of a header block, continuation frames included, give the same
    requests, table and errors however the bytes are cut, and the read loop returns; integers
    are read back; a request that is kept has no NUL, CR or LF in any part as it was sent nor in
    what the header handlers keep of it; cookies are joined in a buffer of the right size.
  \<^item> Library: readers of numbers, sizes and times return the exact value or an error,
    never a wrapped one; printed dates are read back, cookie dates up to the year 2037; the
    calendar agrees with a day count; formatted output is the untruncated text cut at the end of
    the buffer.
  \<^item> Red-black tree: insertion and deletion on linked nodes return, never follow a pointer
    to nowhere, and keep links, colours, black heights and order; the height is logarithmic.
    Timers: in order across the wrap-around of the clock; the first is found, and exactly the
    due ones expire, with handlers that do not touch due timers.
  \<^item> Locations: the code that sorts, joins and nests the locations and builds the tree,
    followed by the code of the lookup, gives the documented rule of selection; duplicates are
    refused exactly when there are any.
  \<^item> Queues: every operation acts on the list of elements, the sort is stable; the
    keepalive cache refines a list with the last connection first.
  \<^item> Shared state: mutual exclusion of the lock, and progress of a process by its own
    steps; fairness and bookkeeping of the balancer.

  \<^bold>\<open>What modelling found.\<close>
  \<^item> A final dot-dot segment and an incomplete escape survive URI normalisation, and
    \<open>ngx_http_parse_unsafe_uri\<close> misses a final dot-dot in front of arguments.
  \<^item> Bytes after the data of a chunk are skipped; spaces inside a status code are accepted
    and misplace its text; the day 00 of a date is accepted.
  \<^item> \<open>NGX_ESCAPE_REFRESH\<close> does not escape the percent sign, so that its
    output is ambiguous.
  \<^item> A location name of 256 characters is entered with length 0; locations inside a
    regular expression get no tree; an error of a nested regular expression can be lost; an
    inclusive match is not reported as \<open>NGX_AGAIN\<close>.
  \<^item> The range filter adds a digit's character before it subtracts the character of zero,
    so that the greatest offset overflows in between.
  \<^item> The comment of \<open>ngx_event_no_timers_left\<close> does not mention that
    cancelable timers are ignored.
  \<^item> An HPACK table size update before the first indexed header is forgotten; Huffman
    padding of up to 29 bits is accepted.

  \<^bold>\<open>Not modelled.\<close>
  \<^item> The event loop, sockets, processes and files: operating system calls. TLS, zlib, PCRE
    and Perl: bindings to libraries.
  \<^item> Allocation: pools, slabs and the shared memory zones; the models start from memory
    that was obtained.
  \<^item> Still open: the frames other than header blocks, the streams and the flow control of
    HTTP/2, the phases, variables and upstream machinery of request processing, the
    configuration reader, the resolver and the parsers of the mail proxy.
\<close>

end
